(* ===== verification/Anakin_Prelude.thy ===== *)
theory Anakin_Prelude
  imports Main "HOL-Library.Signed_Division"
begin

text \<open>
  What the components of the development share: the ways a run of the C++ code can stop
  (\<open>fault\<close>), outcomes with their sequencing \<open>bindE\<close> and loops over lists (\<open>foldE\<close>,
  \<open>mapE\<close>), checked access to arrays, the truncating division of C++, narrowing to a
  32-bit \<open>int\<close>, and the generic lemmas on lists and products the component proofs use.

  A value of type \<open>int\<close> stands for a C++ integer. Signed overflow is undefined in C++, so
  the model computes the exact value where the code adds or multiplies signed integers; a
  narrowing conversion, which is defined in C++, is written out as \<open>narrow32\<close>.
\<close>

section \<open>Faults and outcomes\<close>

text \<open>
  \<open>CheckFailed\<close> is a failed \<open>CHECK\<close> or a \<open>LOG(FATAL)\<close>, which abort the
  process (\<open>utils/logger\<close>). The next six are undefined behaviour of C++: an access outside an
  array or through a past-the-end iterator, a null pointer, a pointer or iterator to freed
  memory, an iterator used with a container it does not belong to, a division
  by zero, a \<open>memcpy\<close> of overlapping ranges. \<open>OutOfFuel\<close> is no behaviour of the code: it marks a run that
  was cut off by the bound of the model, and the termination lemmas exclude it.
\<close>

datatype fault = CheckFailed | OutOfRange | NullDeref | DanglingDeref | ForeignIterator | DivByZero | OverlappingCopy
  | OutOfFuel

type_synonym 'a outcome = "fault + 'a"

definition bindE :: "'e + 'a \<Rightarrow> ('a \<Rightarrow> 'e + 'b) \<Rightarrow> 'e + 'b" where
  "bindE m f = (case m of Inl e \<Rightarrow> Inl e | Inr x \<Rightarrow> f x)"

definition check :: "bool \<Rightarrow> unit outcome" where
  "check b = (if b then Inr () else Inl CheckFailed)"

fun foldE :: "('a \<Rightarrow> 's \<Rightarrow> 'e + 's) \<Rightarrow> 'a list \<Rightarrow> 's \<Rightarrow> 'e + 's" where
  "foldE f [] s = Inr s"
| "foldE f (x # xs) s = bindE (f x s) (foldE f xs)"

fun mapE :: "('a \<Rightarrow> 'e + 'b) \<Rightarrow> 'a list \<Rightarrow> 'e + 'b list" where
  "mapE f [] = Inr []"
| "mapE f (x # xs) = bindE (f x) (\<lambda>y. bindE (mapE f xs) (\<lambda>ys. Inr (y # ys)))"

lemma bindE_simps [simp]: "bindE (Inl e) f = Inl e" "bindE (Inr x) f = f x"
  by (simp_all add: bindE_def)

lemma bindE_Inr_iff: "bindE m f = Inr y \<longleftrightarrow> (\<exists>x. m = Inr x \<and> f x = Inr y)"
  by (cases m) auto

lemma bindE_InrE [elim!]:
  assumes "bindE m f = Inr y"
  obtains x where "m = Inr x" "f x = Inr y"
  using assms by (auto simp: bindE_Inr_iff)

lemma bindE_cong [fundef_cong]:
  "m = m' \<Longrightarrow> (\<And>x. m' = Inr x \<Longrightarrow> f x = g x) \<Longrightarrow> bindE m f = bindE m' g"
  by (cases m') auto

lemma bindE_assoc: "bindE (bindE m f) g = bindE m (\<lambda>x. bindE (f x) g)"
  by (cases m) auto

lemma check_simps [simp]:
  "check True = Inr ()" "check False = Inl CheckFailed"
  "check b = Inr u \<longleftrightarrow> b" "check b = Inl e \<longleftrightarrow> \<not> b \<and> e = CheckFailed"
  by (auto simp: check_def)

lemma foldE_append: "foldE f (xs @ ys) s = bindE (foldE f xs s) (foldE f ys)"
  by (induction xs arbitrary: s) (simp_all add: bindE_def split: sum.splits)

lemma foldE_total:
  assumes "\<And>x s. x \<in> set xs \<Longrightarrow> f x s = Inr (g x s)"
  shows "foldE f xs s = Inr (fold g xs s)"
  using assms by (induction xs arbitrary: s) auto

lemma foldE_invariant:
  assumes "foldE f xs s = Inr t" and "P s"
    and "\<And>x s s'. x \<in> set xs \<Longrightarrow> P s \<Longrightarrow> f x s = Inr s' \<Longrightarrow> P s'"
  shows "P t"
  using assms
proof (induction xs arbitrary: s)
  case Nil
  then show ?case by simp
next
  case (Cons x xs)
  from Cons.prems(1) obtain s' where step: "f x s = Inr s'" "foldE f xs s' = Inr t" by auto
  show ?case
    by (rule Cons.IH [OF step(2)]) (use Cons.prems(2,3) step(1) in auto)
qed

lemma mapE_total:
  assumes "\<And>x. x \<in> set xs \<Longrightarrow> f x = Inr (g x)"
  shows "mapE f xs = Inr (map g xs)"
  using assms by (induction xs) auto

lemma mapE_InrD:
  assumes "mapE f xs = Inr ys"
  shows "length ys = length xs" "\<And>i. i < length xs \<Longrightarrow> f (xs ! i) = Inr (ys ! i)"
proof -
  have "length ys = length xs \<and> (\<forall>i < length xs. f (xs ! i) = Inr (ys ! i))"
    using assms
  proof (induction xs arbitrary: ys)
    case Nil
    then show ?case by simp
  next
    case (Cons x xs)
    then obtain y zs where "f x = Inr y" "mapE f xs = Inr zs" "ys = y # zs" by auto
    with Cons.IH [of zs] show ?case by (auto simp: nth_Cons split: nat.splits)
  qed
  then show "length ys = length xs" "\<And>i. i < length xs \<Longrightarrow> f (xs ! i) = Inr (ys ! i)"
    by auto
qed

section \<open>Arrays\<close>

text \<open>\<open>at xs i\<close> reads and \<open>put xs i x\<close> writes element \<open>i\<close> of a raw array.\<close>

definition at :: "'a list \<Rightarrow> int \<Rightarrow> 'a outcome" where
  "at xs i = (if 0 \<le> i \<and> i < int (length xs) then Inr (xs ! nat i) else Inl OutOfRange)"

definition put :: "'a list \<Rightarrow> int \<Rightarrow> 'a \<Rightarrow> 'a list outcome" where
  "put xs i x = (if 0 \<le> i \<and> i < int (length xs) then Inr (xs[nat i := x]) else Inl OutOfRange)"

lemma at_nat [simp]: "i < length xs \<Longrightarrow> at xs (int i) = Inr (xs ! i)"
  by (simp add: at_def)

lemma at_Inr_iff: "at xs i = Inr x \<longleftrightarrow> 0 \<le> i \<and> nat i < length xs \<and> x = xs ! nat i"
  by (auto simp: at_def)

lemma put_Inr_iff: "put xs i x = Inr ys \<longleftrightarrow> 0 \<le> i \<and> nat i < length xs \<and> ys = xs[nat i := x]"
  by (auto simp: put_def)

lemma put_length: "put xs i x = Inr ys \<Longrightarrow> length ys = length xs"
  by (auto simp: put_Inr_iff)

section \<open>Integers of C++\<close>

text \<open>Division and remainder truncate towards zero; a zero divisor is undefined.\<close>

definition cdiv :: "int \<Rightarrow> int \<Rightarrow> int outcome" where
  "cdiv a b = (if b = 0 then Inl DivByZero else Inr (a sdiv b))"

definition cmod :: "int \<Rightarrow> int \<Rightarrow> int outcome" where
  "cmod a b = (if b = 0 then Inl DivByZero else Inr (a smod b))"

text \<open>Conversion of a \<open>long long\<close> or \<open>size_t\<close> to a 32-bit \<open>int\<close>.\<close>

definition narrow32 :: "int \<Rightarrow> int" where
  "narrow32 x = (x + 2 ^ 31) mod 2 ^ 32 - 2 ^ 31"

lemma sdiv_nonneg: "0 \<le> a \<Longrightarrow> 0 \<le> b \<Longrightarrow> a sdiv b = a div (b::int)"
  by (cases "a = 0"; cases "b = 0") (auto simp: signed_divide_int_def sgn_if)

lemma smod_nonneg: "0 \<le> a \<Longrightarrow> 0 \<le> b \<Longrightarrow> a smod b = a mod (b::int)"
  by (cases "a = 0") (simp_all add: signed_modulo_int_def)

lemma cdiv_pos: "0 \<le> a \<Longrightarrow> 0 < b \<Longrightarrow> cdiv a b = Inr (a div b)"
  by (simp add: cdiv_def sdiv_nonneg)

lemma cmod_pos: "0 \<le> a \<Longrightarrow> 0 < b \<Longrightarrow> cmod a b = Inr (a mod b)"
  by (simp add: cmod_def smod_nonneg)

lemma narrow32_id: "- (2 ^ 31) \<le> x \<Longrightarrow> x < 2 ^ 31 \<Longrightarrow> narrow32 x = x"
  by (simp add: narrow32_def)

lemma narrow32_nonneg: "0 \<le> x \<Longrightarrow> x < 2 ^ 31 \<Longrightarrow> narrow32 x = x"
  by (simp add: narrow32_def)

lemma narrow32_range: "- (2 ^ 31) \<le> narrow32 x \<and> narrow32 x < 2 ^ 31"
proof -
  have "0 \<le> (x + 2 ^ 31) mod 2 ^ 32" "(x + 2 ^ 31) mod 2 ^ 32 < 2 ^ 32" by simp_all
  then show ?thesis unfolding narrow32_def by simp
qed

section \<open>Products of dimensions\<close>

lemma foldl_mult: "foldl (*) (a::int) xs = a * prod_list xs"
  by (induction xs arbitrary: a) (simp_all add: mult.assoc)

lemma prod_list_pos: "(\<And>x. x \<in> set xs \<Longrightarrow> 0 < x) \<Longrightarrow> 0 < prod_list (xs::int list)"
  by (induction xs) auto

lemma prod_list_ge_1: "(\<And>x. x \<in> set xs \<Longrightarrow> 0 < x) \<Longrightarrow> 1 \<le> prod_list (xs::int list)"
  using prod_list_pos [of xs] by simp

lemma prod_list_take_le:
  assumes "\<And>x. x \<in> set xs \<Longrightarrow> 0 < x"
  shows "prod_list (take k xs) \<le> prod_list (xs::int list)"
proof -
  have split: "prod_list xs = prod_list (take k xs) * prod_list (drop k xs)"
    by (metis append_take_drop_id prod_list.append)
  have "1 \<le> prod_list (drop k xs)" "0 < prod_list (take k xs)"
    using assms by (auto intro!: prod_list_ge_1 prod_list_pos dest: in_set_dropD in_set_takeD)
  then show ?thesis by (simp add: split)
qed

lemma prod_list_drop_le:
  assumes "\<And>x. x \<in> set xs \<Longrightarrow> 0 < x"
  shows "prod_list (drop k xs) \<le> prod_list (xs::int list)"
proof -
  have split: "prod_list xs = prod_list (take k xs) * prod_list (drop k xs)"
    by (metis append_take_drop_id prod_list.append)
  have "1 \<le> prod_list (take k xs)" "0 < prod_list (drop k xs)"
    using assms by (auto intro!: prod_list_ge_1 prod_list_pos dest: in_set_dropD in_set_takeD)
  then show ?thesis by (simp add: split)
qed

lemma prod_list_drop_Cons:
  "i < length xs \<Longrightarrow> prod_list (drop i xs) = xs ! i * prod_list (drop (Suc i) (xs::int list))"
  by (simp add: Cons_nth_drop_Suc [symmetric])

end
