(* ===== verification/Saber_Shape.thy ===== *)
theory Saber_Shape
  imports Anakin_Prelude
begin

text \<open>
  The layouts of \<open>saber/saber_types.h\<close> and class \<open>Shape\<close> of
  \<open>saber/core/shape.h\<close>: a vector of dimensions and a pointer to the layout object that says
  which dimension is which. Constructors, comparisons, element access, counts, strides,
  the canonical axis, the contiguity test, and the change of layout.
\<close>

section \<open>Layouts\<close>

datatype layout_type =
    Layout_invalid | Layout_W | Layout_HW | Layout_WH | Layout_NC | Layout_NH | Layout_NW
  | Layout_NHW | Layout_NCHW | Layout_NHWC | Layout_NCHW_C4 | Layout_NCHW_C8 | Layout_NCHW_C16
  | Layout_OIHW16I16O | Layout_GOIHW16I16O | Layout_NCHW_C8R | Layout_NCHW_C16R

text \<open>
  The virtual functions of \<open>struct Layout\<close> and its subclasses; a value that a subclass does
  not override is the \<open>-1\<close> of the base.
\<close>

fun layout_num_index :: "layout_type \<Rightarrow> int" where
  "layout_num_index Layout_NC = 0" | "layout_num_index Layout_NH = 0"
| "layout_num_index Layout_NW = 0" | "layout_num_index Layout_NHW = 0"
| "layout_num_index Layout_NCHW = 0" | "layout_num_index Layout_NHWC = 0"
| "layout_num_index Layout_NCHW_C4 = 0" | "layout_num_index Layout_NCHW_C8 = 0"
| "layout_num_index Layout_NCHW_C8R = 0" | "layout_num_index Layout_NCHW_C16 = 0"
| "layout_num_index Layout_NCHW_C16R = 0" | "layout_num_index _ = -1"

fun layout_channel_index :: "layout_type \<Rightarrow> int" where
  "layout_channel_index Layout_NC = 1" | "layout_channel_index Layout_NCHW = 1"
| "layout_channel_index Layout_NHWC = 3" | "layout_channel_index Layout_NCHW_C4 = 1"
| "layout_channel_index Layout_NCHW_C8 = 1" | "layout_channel_index Layout_NCHW_C8R = 1"
| "layout_channel_index Layout_NCHW_C16 = 1" | "layout_channel_index Layout_NCHW_C16R = 1"
| "layout_channel_index _ = -1"

fun layout_height_index :: "layout_type \<Rightarrow> int" where
  "layout_height_index Layout_HW = 0" | "layout_height_index Layout_WH = 1"
| "layout_height_index Layout_NH = 1" | "layout_height_index Layout_NHW = 1"
| "layout_height_index Layout_NCHW = 2" | "layout_height_index Layout_NHWC = 1"
| "layout_height_index Layout_NCHW_C4 = 2" | "layout_height_index Layout_NCHW_C8 = 2"
| "layout_height_index Layout_NCHW_C8R = 2" | "layout_height_index Layout_NCHW_C16 = 2"
| "layout_height_index Layout_NCHW_C16R = 2" | "layout_height_index _ = -1"

fun layout_width_index :: "layout_type \<Rightarrow> int" where
  "layout_width_index Layout_W = 0" | "layout_width_index Layout_HW = 1"
| "layout_width_index Layout_WH = 0" | "layout_width_index Layout_NW = 1"
| "layout_width_index Layout_NHW = 2" | "layout_width_index Layout_NCHW = 3"
| "layout_width_index Layout_NHWC = 2" | "layout_width_index Layout_NCHW_C4 = 3"
| "layout_width_index Layout_NCHW_C8 = 3" | "layout_width_index Layout_NCHW_C8R = 3"
| "layout_width_index Layout_NCHW_C16 = 3" | "layout_width_index Layout_NCHW_C16R = 3"
| "layout_width_index _ = -1"

definition layout_depth_index :: "layout_type \<Rightarrow> int" where
  "layout_depth_index l = -1"

fun layout_inner_c :: "layout_type \<Rightarrow> int" where
  "layout_inner_c Layout_NCHW_C8 = 8" | "layout_inner_c Layout_NCHW_C16 = 16"
| "layout_inner_c _ = -1"

fun layout_aligned_length :: "layout_type \<Rightarrow> int" where
  "layout_aligned_length Layout_NCHW_C8R = 8" | "layout_aligned_length Layout_NCHW_C16R = 16"
| "layout_aligned_length _ = -1"

fun layout_dims :: "layout_type \<Rightarrow> int" where
  "layout_dims Layout_W = 1" | "layout_dims Layout_HW = 2" | "layout_dims Layout_WH = 2"
| "layout_dims Layout_NC = 2" | "layout_dims Layout_NH = 2" | "layout_dims Layout_NW = 2"
| "layout_dims Layout_NHW = 3" | "layout_dims Layout_NCHW = 4" | "layout_dims Layout_NHWC = 4"
| "layout_dims Layout_NCHW_C4 = 4" | "layout_dims Layout_NCHW_C8 = 5"
| "layout_dims Layout_NCHW_C8R = 4" | "layout_dims Layout_NCHW_C16 = 5"
| "layout_dims Layout_NCHW_C16R = 4" | "layout_dims _ = -1"

section \<open>The state of a shape\<close>

text \<open>
  \<open>Shape\<close> is a \<open>std::vector<int>\<close> (\<open>dat\<close>) with a pointer \<open>_layout\<close>
  (\<open>lay\<close>). The class of the object it points to is told by its \<open>type()\<close>.
\<close>

datatype layout_ptr = LNull | LFreed | LObj layout_type

record shape =
  dat :: "int list"
  lay :: layout_ptr

abbreviation mk_shape :: "int list \<Rightarrow> layout_type \<Rightarrow> shape" where
  "mk_shape xs l \<equiv> \<lparr>dat = xs, lay = LObj l\<rparr>"

definition dims :: "shape \<Rightarrow> int" where
  "dims s = int (length (dat s))"

text \<open>\<open>_layout->...\<close>\<close>

definition deref_layout :: "shape \<Rightarrow> layout_type outcome" where
  "deref_layout s = (case lay s of LNull \<Rightarrow> Inl NullDeref | LFreed \<Rightarrow> Inl DanglingDeref
                     | LObj l \<Rightarrow> Inr l)"

text \<open>
  The switch of \<open>create_layout\<close> has no case for the two weight layouts: for them the pointer
  keeps its value.
\<close>

fun create_layout :: "layout_type \<Rightarrow> layout_ptr \<Rightarrow> layout_ptr outcome" where
  "create_layout Layout_invalid p = Inl CheckFailed"
| "create_layout Layout_OIHW16I16O p = Inr p"
| "create_layout Layout_GOIHW16I16O p = Inr p"
| "create_layout l p = Inr (LObj l)"

definition get_layout :: "shape \<Rightarrow> layout_type outcome" where
  "get_layout s = (case lay s of LNull \<Rightarrow> Inr Layout_invalid | LFreed \<Rightarrow> Inl DanglingDeref
                   | LObj l \<Rightarrow> Inr l)"

section \<open>Constructors and assignment\<close>

definition shape_default :: "shape outcome" where
  "shape_default = bindE (create_layout Layout_NCHW LNull) (\<lambda>p. Inr \<lparr>dat = [], lay = p\<rparr>)"

definition shape_of_vector :: "int list \<Rightarrow> layout_type \<Rightarrow> shape outcome" where
  "shape_of_vector v lt =
     bindE (create_layout lt LNull) (\<lambda>p.
     bindE (deref_layout \<lparr>dat = [], lay = p\<rparr>) (\<lambda>l.
     bindE (check (layout_dims l = int (length v))) (\<lambda>_.
     bindE (mapE (at v) [0..layout_dims l - 1]) (\<lambda>xs.
     if layout_inner_c l \<noteq> -1
     then bindE (at v 4) (\<lambda>c. bindE (check (c = layout_inner_c l)) (\<lambda>_.
            Inr \<lparr>dat = xs, lay = p\<rparr>))
     else Inr \<lparr>dat = xs, lay = p\<rparr>))))"

definition shape_copy :: "shape \<Rightarrow> shape outcome" where
  "shape_copy right =
     bindE (get_layout right) (\<lambda>lt. bindE (create_layout lt LNull) (\<lambda>p.
       Inr \<lparr>dat = dat right, lay = p\<rparr>))"

text \<open>
  \<open>operator=\<close> clears the vector, copies the elements of \<open>right\<close>, deletes the layout, sets the
  pointer to null and creates the layout of \<open>right\<close>. Where \<open>right\<close> is the object itself
  the copy loop finds the vector already cleared and \<open>get_layout\<close> the pointer already null.
\<close>

definition shape_assign :: "shape \<Rightarrow> shape \<Rightarrow> shape outcome" where
  "shape_assign s right =
     (let s1 = s\<lparr>dat := dat right, lay := LNull\<rparr>
      in bindE (get_layout right) (\<lambda>lt. bindE (create_layout lt (lay s1)) (\<lambda>p.
           Inr (s1\<lparr>lay := p\<rparr>))))"

definition shape_assign_self :: "shape \<Rightarrow> shape outcome" where
  "shape_assign_self s =
     (let s1 = s\<lparr>dat := [], lay := LNull\<rparr>
      in bindE (get_layout s1) (\<lambda>lt. bindE (create_layout lt (lay s1)) (\<lambda>p.
           Inr (s1\<lparr>lay := p\<rparr>))))"

section \<open>Element-wise arithmetic and comparisons\<close>

definition shape_zipE :: "(int \<Rightarrow> int \<Rightarrow> int) \<Rightarrow> shape \<Rightarrow> shape \<Rightarrow> shape outcome" where
  "shape_zipE f s t =
     bindE (shape_copy s) (\<lambda>tmp.
     bindE (foldE (\<lambda>i xs. bindE (at (dat s) i) (\<lambda>a. bindE (at (dat t) i) (\<lambda>b.
              put xs i (f a b)))) [0..dims s - 1] (dat tmp)) (\<lambda>xs.
     Inr (tmp\<lparr>dat := xs\<rparr>)))"

definition shape_add :: "shape \<Rightarrow> shape \<Rightarrow> shape outcome" where
  "shape_add = shape_zipE (+)"

definition shape_sub :: "shape \<Rightarrow> shape \<Rightarrow> shape outcome" where
  "shape_sub = shape_zipE (-)"

definition shape_lt :: "shape \<Rightarrow> shape \<Rightarrow> bool" where
  "shape_lt s t = (length (dat s) = length (dat t) \<and> list_all2 (<) (dat s) (dat t))"

definition shape_le :: "shape \<Rightarrow> shape \<Rightarrow> bool" where
  "shape_le s t = (length (dat s) = length (dat t) \<and> list_all2 (\<le>) (dat s) (dat t))"

text \<open>
  The loops of \<open>operator>\<close> and \<open>operator>=\<close> are written
  \<open>for (size_t i = 0; i > size(); i++)\<close>; \<open>cmp_loop\<close> is that loop, its condition a
  parameter, on the index list it can run over.
\<close>

fun cmp_loop :: "(nat \<Rightarrow> bool) \<Rightarrow> (int \<Rightarrow> int \<Rightarrow> bool) \<Rightarrow> nat \<Rightarrow> int list \<Rightarrow> int list \<Rightarrow> bool \<Rightarrow> bool" where
  "cmp_loop cond r i (a # as) (b # bs) flag =
     (if cond i then cmp_loop cond r (Suc i) as bs (flag \<and> r a b) else flag)"
| "cmp_loop cond r i _ _ flag = flag"

definition shape_gt :: "shape \<Rightarrow> shape \<Rightarrow> bool" where
  "shape_gt s t =
     (if length (dat s) \<noteq> length (dat t) then False
      else cmp_loop (\<lambda>i. i > length (dat s)) (>) 0 (dat s) (dat t) True)"

definition shape_ge :: "shape \<Rightarrow> shape \<Rightarrow> bool" where
  "shape_ge s t =
     (if length (dat s) \<noteq> length (dat t) then False
      else cmp_loop (\<lambda>i. i > length (dat s)) (\<ge>) 0 (dat s) (dat t) True)"

text \<open>
  \<open>flag = flag && this->get_layout() == shape.get_layout()\<close>: the layouts are read only
  when the sizes agree.
\<close>

definition shape_eq :: "shape \<Rightarrow> shape \<Rightarrow> bool outcome" where
  "shape_eq s t =
     (if length (dat s) \<noteq> length (dat t) then Inr False
      else bindE (get_layout s) (\<lambda>ls. bindE (get_layout t) (\<lambda>lt.
             Inr (ls = lt \<and> list_all2 (=) (dat s) (dat t)))))"

section \<open>Named dimensions\<close>

definition index_of :: "(layout_type \<Rightarrow> int) \<Rightarrow> shape \<Rightarrow> int outcome" where
  "index_of f s = (case lay s of LNull \<Rightarrow> Inr (-1) | LFreed \<Rightarrow> Inl DanglingDeref
                   | LObj l \<Rightarrow> Inr (f l))"

definition num_index :: "shape \<Rightarrow> int outcome" where
  "num_index = index_of layout_num_index"

definition channel_index :: "shape \<Rightarrow> int outcome" where
  "channel_index = index_of layout_channel_index"

definition height_index :: "shape \<Rightarrow> int outcome" where
  "height_index = index_of layout_height_index"

definition width_index :: "shape \<Rightarrow> int outcome" where
  "width_index = index_of layout_width_index"

definition depth_index :: "shape \<Rightarrow> int outcome" where
  "depth_index = index_of layout_depth_index"

definition dim_or_one :: "shape \<Rightarrow> int \<Rightarrow> int outcome" where
  "dim_or_one s i = (if i = -1 then Inr 1 else at (dat s) i)"

definition num :: "shape \<Rightarrow> int outcome" where
  "num s = bindE (num_index s) (dim_or_one s)"

definition channel :: "shape \<Rightarrow> int outcome" where
  "channel s =
     bindE (bindE (channel_index s) (dim_or_one s)) (\<lambda>c.
     bindE (deref_layout s) (\<lambda>l.
     Inr (if layout_inner_c l \<noteq> -1 then c * layout_inner_c l else c)))"

definition height :: "shape \<Rightarrow> int outcome" where
  "height s = bindE (height_index s) (dim_or_one s)"

definition width :: "shape \<Rightarrow> int outcome" where
  "width s = bindE (width_index s) (dim_or_one s)"

definition depth :: "shape \<Rightarrow> int outcome" where
  "depth s = bindE (depth_index s) (dim_or_one s)"

text \<open>\<open>data()[_layout->xxx_index()] = v\<close>, skipped where the layout has no such index.\<close>

definition put_dim :: "shape \<Rightarrow> int \<Rightarrow> int \<Rightarrow> shape outcome" where
  "put_dim s i v =
     (if i \<noteq> -1 then bindE (put (dat s) i v) (\<lambda>xs. Inr (s\<lparr>dat := xs\<rparr>)) else Inr s)"

definition set_num :: "shape \<Rightarrow> int \<Rightarrow> shape outcome" where
  "set_num s n = bindE (check (n > 0)) (\<lambda>_. bindE (deref_layout s) (\<lambda>l.
     put_dim s (layout_num_index l) n))"

definition set_channel :: "shape \<Rightarrow> int \<Rightarrow> shape outcome" where
  "set_channel s c =
     bindE (check (c > 0)) (\<lambda>_.
     bindE (deref_layout s) (\<lambda>l.
     if layout_channel_index l \<noteq> -1 then
       (if layout_inner_c l \<noteq> -1 then
          bindE (cmod c (layout_inner_c l)) (\<lambda>r. bindE (check (r = 0)) (\<lambda>_.
          bindE (cdiv c (layout_inner_c l)) (put_dim s (layout_channel_index l))))
        else put_dim s (layout_channel_index l) c)
     else Inr s))"

definition set_height :: "shape \<Rightarrow> int \<Rightarrow> shape outcome" where
  "set_height s h = bindE (check (h > 0)) (\<lambda>_. bindE (deref_layout s) (\<lambda>l.
     put_dim s (layout_height_index l) h))"

definition set_width :: "shape \<Rightarrow> int \<Rightarrow> shape outcome" where
  "set_width s w = bindE (check (w > 0)) (\<lambda>_. bindE (deref_layout s) (\<lambda>l.
     put_dim s (layout_width_index l) w))"

definition set_depth :: "shape \<Rightarrow> int \<Rightarrow> shape outcome" where
  "set_depth s d = bindE (check (d > 0)) (\<lambda>_. bindE (deref_layout s) (\<lambda>l.
     put_dim s (layout_depth_index l) d))"

text \<open>\<open>clear()\<close> empties the vector, so the resize that follows always happens: zeros.\<close>

definition set_shape_without_layout :: "shape \<Rightarrow> shape \<Rightarrow> shape outcome" where
  "set_shape_without_layout s right =
     bindE (num right) (\<lambda>n.
     bindE (set_num (s\<lparr>dat := replicate (length (dat right)) 0\<rparr>) n) (\<lambda>s1.
     bindE (channel right) (\<lambda>c. bindE (set_channel s1 c) (\<lambda>s2.
     bindE (height right) (\<lambda>h. bindE (set_height s2 h) (\<lambda>s3.
     bindE (width right) (\<lambda>w. set_width s3 w)))))))"

section \<open>Counts and strides\<close>

text \<open>The last step of both counts: the channels rounded up to the aligned length.\<close>

definition align_count :: "shape \<Rightarrow> layout_type \<Rightarrow> int \<Rightarrow> int outcome" where
  "align_count s l prd =
     bindE (channel s) (\<lambda>c.
     bindE (cdiv prd c) (\<lambda>q.
     bindE (cdiv (c + layout_aligned_length l - 1) (layout_aligned_length l)) (\<lambda>k.
     Inr (q * (k * layout_aligned_length l)))))"

definition count_from :: "shape \<Rightarrow> int \<Rightarrow> int outcome" where
  "count_from s start0 =
     (let start = (if start0 > dims s then dims s else start0)
      in if dat s = [] then Inr 0
         else if start < 0 then Inl OutOfRange
         else let prd = foldl (*) 1 (drop (nat start) (dat s))
              in bindE (deref_layout s) (\<lambda>l.
                 if layout_aligned_length l \<noteq> -1 \<and> start \<le> 1 then align_count s l prd
                 else Inr prd))"

abbreviation count :: "shape \<Rightarrow> int outcome" where
  "count s \<equiv> count_from s 0"

definition count_range :: "shape \<Rightarrow> int \<Rightarrow> int \<Rightarrow> int outcome" where
  "count_range s start0 end0 =
     (let start = (if start0 < 0 then 0 else start0);
          end1 = (if end0 > dims s then dims s else end0);
          end2 = (if end1 < start then start else end1)
      in bindE (foldE (\<lambda>i p. bindE (at (dat s) i) (\<lambda>d. Inr (p * d))) [start..end2 - 1] 1) (\<lambda>prd.
         bindE (deref_layout s) (\<lambda>l.
         if layout_aligned_length l \<noteq> -1 \<and> start \<le> 1 \<and> end2 > 1 then align_count s l prd
         else Inr prd)))"

definition shape_fill :: "int \<Rightarrow> shape \<Rightarrow> shape outcome" where
  "shape_fill v right = bindE (shape_copy right) (\<lambda>sh. Inr (sh\<lparr>dat := map (\<lambda>_. v) (dat right)\<rparr>))"

definition shape_zero :: "shape \<Rightarrow> shape outcome" where
  "shape_zero = shape_fill 0"

definition shape_minusone :: "shape \<Rightarrow> shape outcome" where
  "shape_minusone = shape_fill (-1)"

definition get_stride :: "shape \<Rightarrow> shape outcome" where
  "get_stride s =
     bindE (shape_zero s) (\<lambda>z.
     bindE (mapE (\<lambda>i. bindE (count_from s (i + 1)) (\<lambda>c. Inr (narrow32 c))) [0..dims s - 1]) (\<lambda>xs.
     Inr (z\<lparr>dat := xs\<rparr>)))"

definition canon_axis :: "shape \<Rightarrow> int \<Rightarrow> int outcome" where
  "canon_axis s axis =
     bindE (check (axis \<ge> - dims s)) (\<lambda>_. bindE (check (axis < dims s)) (\<lambda>_.
     Inr (if axis < 0 then axis + dims s else axis)))"

text \<open>The loop of \<open>is_continue\<close>, from the last dimension down.\<close>

fun continue_loop :: "shape \<Rightarrow> shape \<Rightarrow> nat \<Rightarrow> bool outcome" where
  "continue_loop s real 0 = Inr True"
| "continue_loop s real (Suc i) =
     (if dat s ! i \<noteq> dat real ! i then
        bindE (count s) (\<lambda>c. bindE (count_from s (int i)) (\<lambda>ci.
        bindE (cdiv c ci) (\<lambda>q. Inr (narrow32 q = 1))))
      else continue_loop s real i)"

definition is_continue :: "shape \<Rightarrow> shape \<Rightarrow> bool outcome" where
  "is_continue s real0 =
     bindE (shape_copy real0) (\<lambda>real.
     if length (dat real) \<noteq> length (dat s) then Inr False
     else continue_loop s real (length (dat s)))"

section \<open>Change of layout\<close>

text \<open>
  The last statement of \<open>set_layout\<close> deletes the layout object the shape had before. Where
  \<open>create_layout\<close> kept the pointer (the weight layouts) that is the one it still has.
\<close>

definition set_layout :: "shape \<Rightarrow> layout_type \<Rightarrow> int list \<Rightarrow> shape outcome" where
  "set_layout s lt new_shape =
     bindE (shape_copy s) (\<lambda>sh.
     bindE (create_layout lt (lay s)) (\<lambda>p.
     if lay sh = LNull \<or> dat sh = [] then Inr (s\<lparr>lay := p\<rparr>)
     else if new_shape \<noteq> [] then
       bindE (deref_layout (s\<lparr>lay := p\<rparr>)) (\<lambda>l.
       bindE (check (layout_dims l = int (length new_shape))) (\<lambda>_.
       Inr (s\<lparr>dat := new_shape, lay := p\<rparr>)))
     else
       bindE (deref_layout (s\<lparr>lay := p\<rparr>)) (\<lambda>l.
       bindE (Inr (s\<lparr>dat := replicate (nat (layout_dims l)) 0, lay := p\<rparr>)) (\<lambda>s0.
       bindE (if layout_num_index l \<noteq> -1
              then bindE (num sh) (put_dim s0 (layout_num_index l)) else Inr s0) (\<lambda>s1.
       bindE (if layout_channel_index l \<noteq> -1
              then bindE (channel sh) (\<lambda>c.
                   if layout_inner_c l \<noteq> -1
                   then bindE (cmod c (layout_inner_c l)) (\<lambda>r. bindE (check (r = 0)) (\<lambda>_.
                        bindE (cdiv c (layout_inner_c l)) (\<lambda>q.
                        bindE (put_dim s1 (layout_channel_index l) q) (\<lambda>s1'.
                        put_dim s1' 4 (layout_inner_c l)))))
                   else put_dim s1 (layout_channel_index l) c) else Inr s1) (\<lambda>s2.
       bindE (if layout_height_index l \<noteq> -1
              then bindE (height sh) (put_dim s2 (layout_height_index l)) else Inr s2) (\<lambda>s3.
       bindE (if layout_width_index l \<noteq> -1
              then bindE (width sh) (put_dim s3 (layout_width_index l)) else Inr s3) (\<lambda>s4.
       bindE (if layout_depth_index l \<noteq> -1
              then bindE (depth sh) (put_dim s4 (layout_depth_index l)) else Inr s4) (\<lambda>s5.
       Inr (if lt = Layout_OIHW16I16O \<or> lt = Layout_GOIHW16I16O
            then s5\<lparr>lay := LFreed\<rparr> else s5))))))))))"

definition cvt_shape :: "shape \<Rightarrow> layout_type \<Rightarrow> shape outcome" where
  "cvt_shape right lt =
     bindE (deref_layout right) (\<lambda>lr.
     bindE (check (layout_dims lr = 4)) (\<lambda>_.
     bindE (shape_of_vector [1, 1, 1, 1] lt) (\<lambda>sh.
     bindE (deref_layout sh) (\<lambda>l.
     bindE (check (layout_dims l = 4)) (\<lambda>_.
     bindE (num right) (\<lambda>n. bindE (set_num sh n) (\<lambda>s1.
     bindE (channel right) (\<lambda>c. bindE (set_channel s1 c) (\<lambda>s2.
     bindE (height right) (\<lambda>h. bindE (set_height s2 h) (\<lambda>s3.
     bindE (width right) (set_width s3))))))))))))"

definition get_layout_aligned_length :: "shape \<Rightarrow> int outcome" where
  "get_layout_aligned_length s = bindE (deref_layout s) (\<lambda>l. Inr (layout_aligned_length l))"

end
