(* ===== verification/Shape_Facts.thy ===== *)
theory Shape_Facts
  imports Saber_Shape
begin

text \<open>
  The facts about \<open>Shape\<close>: well-formed shapes, when copies and reads succeed, the values of
  counts and strides, the linear addresses they give (locale \<open>strided\<close>), contiguity, and the
  preservation of the named dimensions by a change of layout.
\<close>

section \<open>Well-formed shapes\<close>

text \<open>A shape has the number of dimensions of its layout, and the inner channels of it.\<close>

definition wf_shape :: "shape \<Rightarrow> bool" where
  "wf_shape s = (case lay s of
     LObj l \<Rightarrow> layout_dims l \<noteq> -1 \<and> int (length (dat s)) = layout_dims l \<and>
               (layout_inner_c l \<noteq> -1 \<longrightarrow> dat s ! 4 = layout_inner_c l)
   | _ \<Rightarrow> False)"

definition positive :: "shape \<Rightarrow> bool" where
  "positive s = (\<forall>d \<in> set (dat s). 0 < d)"

definition unaligned :: "shape \<Rightarrow> bool" where
  "unaligned s = (case lay s of LObj l \<Rightarrow> layout_aligned_length l = -1 | _ \<Rightarrow> False)"

lemma wf_shape_obj: "wf_shape s \<Longrightarrow> \<exists>l. lay s = LObj l \<and> layout_dims l \<noteq> -1 \<and>
    int (length (dat s)) = layout_dims l \<and> (layout_inner_c l \<noteq> -1 \<longrightarrow> dat s ! 4 = layout_inner_c l)"
  by (auto simp: wf_shape_def split: layout_ptr.splits)

lemma layout_dims_pos: "layout_dims l \<noteq> -1 \<Longrightarrow> 1 \<le> layout_dims l"
  by (cases l) simp_all

lemma create_layout_class: "layout_dims l \<noteq> -1 \<Longrightarrow> create_layout l p = Inr (LObj l)"
  by (cases l) simp_all

lemma wf_shape_nonempty: "wf_shape s \<Longrightarrow> dat s \<noteq> []"
  by (auto dest!: wf_shape_obj layout_dims_pos)

lemma wf_shape_copy [simp]: "wf_shape s \<Longrightarrow> shape_copy s = Inr s"
  by (auto dest!: wf_shape_obj simp: shape_copy_def get_layout_def create_layout_class)

lemma wf_shape_assign: "wf_shape t \<Longrightarrow> shape_assign s t = Inr (s\<lparr>dat := dat t, lay := lay t\<rparr>)"
  by (auto dest!: wf_shape_obj simp: shape_assign_def get_layout_def create_layout_class)

lemma wf_shape_zero: "wf_shape s \<Longrightarrow> shape_zero s = Inr (s\<lparr>dat := map (\<lambda>_. 0) (dat s)\<rparr>)"
  by (simp add: shape_zero_def shape_fill_def)

lemma shape_self_assign_aborts: "shape_assign_self s = Inl CheckFailed"
  by (simp add: shape_assign_self_def get_layout_def)

section \<open>Comparisons\<close>

lemma cmp_loop_never: "\<not> cond i \<Longrightarrow> cmp_loop cond r i as bs flag = flag"
  by (cases as; cases bs) auto

lemma shape_gt_only_size: "shape_gt s t = (length (dat s) = length (dat t))"
  by (simp add: shape_gt_def cmp_loop_never)

lemma shape_ge_only_size: "shape_ge s t = (length (dat s) = length (dat t))"
  by (simp add: shape_ge_def cmp_loop_never)

lemma shape_le_nth: "shape_le s t \<longleftrightarrow> length (dat s) = length (dat t) \<and>
    (\<forall>i < length (dat s). dat s ! i \<le> dat t ! i)"
  by (auto simp: shape_le_def list_all2_conv_all_nth)

section \<open>Counts\<close>

lemma count_from_dense:
  assumes "wf_shape s" "unaligned s" "0 \<le> i"
  shows "count_from s i = Inr (prod_list (drop (nat i) (dat s)))"
proof -
  obtain l where l: "lay s = LObj l" "layout_aligned_length l = -1"
    using assms(1,2) by (auto dest!: wf_shape_obj simp: unaligned_def)
  then show ?thesis
    using assms(3) wf_shape_nonempty [OF assms(1)]
    by (simp add: count_from_def dims_def deref_layout_def foldl_mult Let_def)
qed

lemma foldE_count:
  assumes "0 \<le> a" "b \<le> int (length xs)"
  shows "foldE (\<lambda>i p. bindE (at xs i) (\<lambda>d. Inr (p * d))) [a..b - 1] (c::int)
         = Inr (c * prod_list (take (nat (b - a)) (drop (nat a) xs)))"
  using assms
proof (induction "nat (b - a)" arbitrary: a c)
  case 0
  then show ?case by simp
next
  case (Suc k)
  then have ab: "a < b" "nat a < length xs" by linarith+
  have up: "[a..b - 1] = a # [a + 1..b - 1]" using ab by (simp add: upto_rec1)
  have IH: "foldE (\<lambda>i p. bindE (at xs i) (\<lambda>d. Inr (p * d))) [a + 1..b - 1] (c * xs ! nat a)
         = Inr (c * xs ! nat a * prod_list (take (nat (b - (a + 1))) (drop (nat (a + 1)) xs)))"
    by (rule Suc.hyps(1)) (use Suc ab in auto)
  have drop: "drop (nat a) xs = xs ! nat a # drop (Suc (nat a)) xs"
    using ab by (simp add: Cons_nth_drop_Suc)
  have Sucs: "nat (b - a) = Suc (nat (b - (a + 1)))" "nat (a + 1) = Suc (nat a)"
    using ab Suc.prems(1) by linarith+
  have step: "take (nat (b - a)) (drop (nat a) xs)
      = xs ! nat a # take (nat (b - (a + 1))) (drop (nat (a + 1)) xs)"
    unfolding Sucs drop by simp
  have read: "at xs a = Inr (xs ! nat a)"
    using ab Suc.prems(1) by (simp add: at_def)
  show ?case
    unfolding up step foldE.simps read bindE_simps IH by (simp add: mult.assoc)
qed

lemma count_range_dense:
  assumes "wf_shape s" "unaligned s" "0 \<le> a" "a \<le> b" "b \<le> dims s"
  shows "count_range s a b = Inr (prod_list (take (nat (b - a)) (drop (nat a) (dat s))))"
proof -
  obtain l where l: "lay s = LObj l" "layout_aligned_length l = -1"
    using assms(1,2) by (auto dest!: wf_shape_obj simp: unaligned_def)
  then show ?thesis
    using assms(3-5) foldE_count [of a b "dat s" 1]
    by (simp add: count_range_def dims_def deref_layout_def Let_def)
qed

lemma prod_list_segments:
  assumes "i \<le> j" "j \<le> k"
  shows "prod_list (take (k - i) (drop i xs))
         = prod_list (take (j - i) (drop i xs)) * prod_list (take (k - j) (drop j (xs::int list)))"
proof -
  have "k - i = (j - i) + (k - j)" "drop (j - i) (drop i xs) = drop j xs"
    using assms by simp_all
  then show ?thesis by (simp add: take_add)
qed

lemma count_range_segments:
  assumes "wf_shape s" "unaligned s" "0 \<le> a" "a \<le> b" "b \<le> c" "c \<le> dims s"
    and "count_range s a b = Inr p" "count_range s b c = Inr q"
  shows "count_range s a c = Inr (p * q)"
  using assms prod_list_segments [OF nat_mono [OF assms(4)] nat_mono [OF assms(5)], of "dat s"]
  by (simp add: count_range_dense nat_diff_distrib)

text \<open>
  The layouts with an aligned length (\<open>C8R\<close>, \<open>C16R\<close>) store four dimensions; their count
  rounds the channels up.
\<close>

definition round_up :: "int \<Rightarrow> int \<Rightarrow> int" where
  "round_up c m = (c + m - 1) div m * m"

lemma round_up_bounds:
  assumes "0 < m"
  shows "c \<le> round_up c m" "round_up c m < c + m" "m dvd round_up c m"
proof -
  let ?x = "c + m - 1"
  have "?x = ?x div m * m + ?x mod m" by simp
  moreover have "0 \<le> ?x mod m" "?x mod m < m" using assms by simp_all
  ultimately show "c \<le> round_up c m" "round_up c m < c + m"
    unfolding round_up_def by linarith+
  show "m dvd round_up c m" by (simp add: round_up_def)
qed

lemma count_aligned:
  assumes "wf_shape s" "positive s" "lay s = LObj l" "layout_aligned_length l \<noteq> -1"
    and "dat s = [n, c, h, w]"
  shows "count s = Inr (n * h * w * round_up c (layout_aligned_length l))"
proof -
  have l: "l = Layout_NCHW_C8R \<or> l = Layout_NCHW_C16R"
    using assms(4) by (cases l) simp_all
  have pos: "0 < n" "0 < c" "0 < h" "0 < w" using assms(2,5) by (auto simp: positive_def)
  have q: "(n * (c * (h * w))) sdiv c = n * h * w"
  proof -
    have "0 \<le> n * (c * (h * w))" using pos by simp
    moreover have "n * (c * (h * w)) = (n * h * w) * c" by (simp add: mult_ac)
    ultimately show ?thesis using pos by (simp add: sdiv_nonneg)
  qed
  have r: "(c + m - 1) sdiv m = (c + m - 1) div m" if "0 < m" for m
    using pos that by (simp add: sdiv_nonneg)
  have al: "layout_inner_c l = -1" "layout_channel_index l = 1" "0 < layout_aligned_length l"
    using l by auto
  have ch: "channel s = Inr c"
    using assms(3,5) al by (simp add: channel_def channel_index_def index_of_def dim_or_one_def at_def deref_layout_def)
  have "align_count s l (n * (c * (h * w))) = Inr (n * h * w * round_up c (layout_aligned_length l))"
    using al(3) pos r [OF al(3)] by (simp add: align_count_def ch cdiv_def q round_up_def)
  then show ?thesis
    using assms(3,4,5) by (simp add: count_from_def dims_def deref_layout_def mult.assoc)
qed

section \<open>Strides\<close>

definition dense :: "shape \<Rightarrow> bool" where
  "dense s \<longleftrightarrow> wf_shape s \<and> unaligned s \<and> positive s \<and> prod_list (dat s) < 2 ^ 31"

definition extent :: "shape \<Rightarrow> nat \<Rightarrow> int" where
  "extent s i = dat s ! i"

definition stride :: "shape \<Rightarrow> nat \<Rightarrow> int" where
  "stride s i = (case get_stride s of Inr t \<Rightarrow> dat t ! i | Inl _ \<Rightarrow> 0)"

lemma get_stride_dense:
  assumes "dense s"
  shows "get_stride s
         = Inr (s\<lparr>dat := map (\<lambda>i. prod_list (drop (Suc i) (dat s))) [0..<length (dat s)]\<rparr>)"
proof -
  have wf: "wf_shape s" "unaligned s" "positive s" "prod_list (dat s) < 2 ^ 31"
    using assms by (auto simp: dense_def)
  have small: "0 < prod_list (drop k (dat s))" "prod_list (drop k (dat s)) < 2 ^ 31" for k
    using prod_list_drop_le [of "dat s" k] wf(3,4)
    by (auto simp: positive_def intro!: prod_list_pos dest: in_set_dropD)
  have "mapE (\<lambda>i. bindE (count_from s (i + 1)) (\<lambda>c. Inr (narrow32 c))) [0..dims s - 1]
      = Inr (map (\<lambda>i. prod_list (drop (nat (i + 1)) (dat s))) [0..dims s - 1])"
    by (rule mapE_total)
      (use wf small in \<open>auto simp: count_from_dense intro!: narrow32_nonneg less_imp_le\<close>)
  moreover have "map (\<lambda>i. prod_list (drop (nat (i + 1)) (dat s))) [0..dims s - 1]
      = map (\<lambda>i. prod_list (drop (Suc i) (dat s))) [0..<length (dat s)]"
    by (rule nth_equalityI) (auto simp: dims_def nat_add_distrib)
  ultimately show ?thesis
    using wf by (simp add: get_stride_def wf_shape_zero)
qed

lemma stride_dense:
  "dense s \<Longrightarrow> i < length (dat s) \<Longrightarrow> stride s i = prod_list (drop (Suc i) (dat s))"
  by (simp add: stride_def get_stride_dense)

section \<open>Linear addresses\<close>

text \<open>
  The interface between the strides of a shape and the code that walks over a tensor: the
  address of an element is the sum of index times stride. The laws are those of row-major
  order: the last stride is 1 and each stride is the extent and stride of the next dimension
  multiplied.
\<close>

definition linear :: "(nat \<Rightarrow> int) \<Rightarrow> (nat \<Rightarrow> int) \<Rightarrow> nat \<Rightarrow> nat \<Rightarrow> int" where
  "linear str idx k n = (\<Sum>i = k..<n. idx i * str i)"

definition in_extent :: "(nat \<Rightarrow> int) \<Rightarrow> (nat \<Rightarrow> int) \<Rightarrow> nat \<Rightarrow> bool" where
  "in_extent ext idx n \<longleftrightarrow> (\<forall>i < n. 0 \<le> idx i \<and> idx i < ext i)"

lemma linear_step: "k < n \<Longrightarrow> linear str idx k n = idx k * str k + linear str idx (Suc k) n"
  by (simp add: linear_def sum.atLeast_Suc_lessThan)

lemma linear_end [simp]: "linear str idx n n = 0"
  by (simp add: linear_def)

locale strided =
  fixes ok :: "'s \<Rightarrow> bool" and rank :: "'s \<Rightarrow> nat"
    and ext :: "'s \<Rightarrow> nat \<Rightarrow> int" and str :: "'s \<Rightarrow> nat \<Rightarrow> int"
  assumes str_last: "ok s \<Longrightarrow> 0 < rank s \<Longrightarrow> str s (rank s - 1) = 1"
    and str_step: "ok s \<Longrightarrow> Suc i < rank s \<Longrightarrow> str s i = ext s (Suc i) * str s (Suc i)"
    and ext_pos: "ok s \<Longrightarrow> i < rank s \<Longrightarrow> 0 < ext s i"
begin

lemma str_pos: "ok s \<Longrightarrow> k < rank s \<Longrightarrow> 0 < str s k"
proof (induction "rank s - k" arbitrary: k)
  case 0
  then show ?case by simp
next
  case (Suc m)
  show ?case
  proof (cases "Suc k < rank s")
    case True
    then have "0 < str s (Suc k)" by (intro Suc.hyps(1)) (use Suc.hyps(2) Suc.prems in auto)
    with True Suc.prems show ?thesis by (simp add: str_step ext_pos)
  next
    case False
    with Suc.prems have "k = rank s - 1" by simp
    with Suc.prems str_last [of s] show ?thesis by simp
  qed
qed

text \<open>Below dimension \<open>k\<close> the address stays below the stride of \<open>k - 1\<close>.\<close>

lemma tail_bounds:
  assumes "ok s" "in_extent (ext s) idx (rank s)" "k < rank s"
  shows "0 \<le> linear (str s) idx (Suc k) (rank s) \<and> linear (str s) idx (Suc k) (rank s) < str s k"
  using assms(3)
proof (induction "rank s - k" arbitrary: k)
  case 0
  then show ?case by simp
next
  case (Suc m)
  show ?case
  proof (cases "Suc k < rank s")
    case True
    let ?r = "linear (str s) idx (Suc (Suc k)) (rank s)"
    have IH: "0 \<le> ?r \<and> ?r < str s (Suc k)"
      by (rule Suc.hyps(1)) (use Suc.hyps(2) True in auto)
    have ix: "0 \<le> idx (Suc k)" "idx (Suc k) \<le> ext s (Suc k) - 1"
      using assms(2) True by (auto simp: in_extent_def)
    have "idx (Suc k) * str s (Suc k) \<le> (ext s (Suc k) - 1) * str s (Suc k)"
      using ix(2) str_pos [OF assms(1) True] by (intro mult_right_mono) auto
    then have "idx (Suc k) * str s (Suc k) + str s (Suc k) \<le> str s k"
      using str_step [OF assms(1) True] by (simp add: left_diff_distrib)
    moreover have "0 \<le> idx (Suc k) * str s (Suc k)"
      using ix(1) str_pos [OF assms(1) True] by simp
    ultimately show ?thesis using IH True by (simp add: linear_step)
  next
    case False
    with Suc.prems have "Suc k = rank s" by simp
    with str_pos [OF assms(1) Suc.prems] show ?thesis by simp
  qed
qed

lemma address_bounds:
  assumes "ok s" "0 < rank s" "in_extent (ext s) idx (rank s)"
  shows "0 \<le> linear (str s) idx 0 (rank s) \<and> linear (str s) idx 0 (rank s) < ext s 0 * str s 0"
proof -
  have t: "0 \<le> linear (str s) idx (Suc 0) (rank s)" "linear (str s) idx (Suc 0) (rank s) < str s 0"
    using tail_bounds [OF assms(1,3,2)] by auto
  have ix: "0 \<le> idx 0" "idx 0 \<le> ext s 0 - 1" using assms(2,3) by (auto simp: in_extent_def)
  have "idx 0 * str s 0 \<le> (ext s 0 - 1) * str s 0"
    using ix(2) str_pos [OF assms(1,2)] by (intro mult_right_mono) auto
  moreover have "0 \<le> idx 0 * str s 0" using ix(1) str_pos [OF assms(1,2)] by simp
  ultimately show ?thesis using t assms(2) by (simp add: linear_step left_diff_distrib)
qed

lemma tail_inj:
  assumes "ok s" "in_extent (ext s) idx (rank s)" "in_extent (ext s) jdx (rank s)"
    and "k \<le> rank s" "linear (str s) idx k (rank s) = linear (str s) jdx k (rank s)"
    and "k \<le> i" "i < rank s"
  shows "idx i = jdx i"
  using assms(4-7)
proof (induction "rank s - k" arbitrary: k)
  case 0
  then show ?case by simp
next
  case (Suc m)
  have k: "k < rank s" using Suc.hyps(2) by simp
  let ?S = "str s k" and ?R = "\<lambda>x. linear (str s) x (Suc k) (rank s)"
  have eq: "idx k * ?S + ?R idx = jdx k * ?S + ?R jdx"
    using Suc.prems(2) k by (simp add: linear_step)
  have b: "0 \<le> ?R idx" "?R idx < ?S" "0 \<le> ?R jdx" "?R jdx < ?S"
    using tail_bounds [OF assms(1,2) k] tail_bounds [OF assms(1,3) k] by auto
  have "(idx k * ?S + ?R idx) div ?S = idx k" "(jdx k * ?S + ?R jdx) div ?S = jdx k"
    using b by simp_all
  with eq have ik: "idx k = jdx k" by simp
  with eq have "?R idx = ?R jdx" by simp
  then show ?case
    using Suc.hyps(1) [of "Suc k"] Suc.hyps(2) Suc.prems(3,4) k ik by (cases "i = k") auto
qed

lemma address_inj:
  assumes "ok s" "in_extent (ext s) idx (rank s)" "in_extent (ext s) jdx (rank s)"
    and "linear (str s) idx 0 (rank s) = linear (str s) jdx 0 (rank s)" "i < rank s"
  shows "idx i = jdx i"
  using tail_inj [OF assms(1-3) _ assms(4) _ assms(5)] by simp

end

interpretation shape_strided: strided dense "\<lambda>s. length (dat s)" extent stride
proof
  fix s i
  assume d: "dense s"
  show "0 < length (dat s) \<Longrightarrow> stride s (length (dat s) - 1) = 1"
    using d by (simp add: stride_dense)
  show "Suc i < length (dat s) \<Longrightarrow> stride s i = extent s (Suc i) * stride s (Suc i)"
    using d by (simp add: stride_dense extent_def prod_list_drop_Cons)
  show "i < length (dat s) \<Longrightarrow> 0 < extent s i"
    using d by (simp add: dense_def positive_def extent_def)
qed

lemma dense_total: "dense s \<Longrightarrow> extent s 0 * stride s 0 = prod_list (dat s)"
  using wf_shape_nonempty [of s] prod_list_drop_Cons [of 0 "dat s"]
  by (simp add: dense_def stride_dense extent_def)

section \<open>Contiguity\<close>

lemma prod_take_1:
  assumes "\<And>x. x \<in> set xs \<Longrightarrow> 0 < (x::int)" "prod_list xs = 1" "j < length xs"
  shows "xs ! j = 1"
  using assms
proof (induction xs arbitrary: j)
  case Nil
  then show ?case by simp
next
  case (Cons x xs)
  have "0 < x" "0 < prod_list xs" using Cons.prems(1) by (auto intro!: prod_list_pos)
  then have "x = 1" "prod_list xs = 1"
    using Cons.prems(2) by (auto simp: zmult_eq_1_iff)
  then show ?case using Cons.IH [of "j - 1"] Cons.prems by (cases j) auto
qed

lemma count_ratio:
  assumes "dense v" "i < length (dat v)"
  shows "bindE (count v) (\<lambda>c. bindE (count_from v (int i)) (\<lambda>ci.
           bindE (cdiv c ci) (\<lambda>q. Inr (narrow32 q = 1)))) = Inr (prod_list (take i (dat v)) = 1)"
proof -
  have v: "wf_shape v" "unaligned v" and pos: "\<And>x. x \<in> set (dat v) \<Longrightarrow> 0 < x"
    and small: "prod_list (dat v) < 2 ^ 31"
    using assms(1) by (auto simp: dense_def positive_def)
  let ?a = "prod_list (take i (dat v))" and ?b = "prod_list (drop i (dat v))"
  have split: "prod_list (dat v) = ?a * ?b"
    by (metis append_take_drop_id prod_list.append)
  have ab: "0 < ?a" "0 < ?b"
    using pos by (auto intro!: prod_list_pos dest: in_set_takeD in_set_dropD)
  have "?a \<le> prod_list (dat v)" by (rule prod_list_take_le) (rule pos)
  then have "narrow32 ?a = ?a" using ab small by (intro narrow32_nonneg) auto
  moreover have "cdiv (?a * ?b) ?b = Inr ?a" using ab by (simp add: cdiv_pos)
  ultimately show ?thesis
    using v by (simp add: count_from_dense split [symmetric])
qed

lemma continue_loop_dense:
  assumes "dense v" "length (dat r) = length (dat v)" "k \<le> length (dat v)"
    and "continue_loop v r k = Inr b"
  shows "b \<longleftrightarrow> (\<forall>j < k. dat v ! j = dat r ! j) \<or>
    (\<exists>i < k. dat v ! i \<noteq> dat r ! i \<and> (\<forall>j. i < j \<and> j < k \<longrightarrow> dat v ! j = dat r ! j) \<and>
            prod_list (take i (dat v)) = 1)"
  using assms(3,4)
proof (induction k)
  case 0
  then show ?case by simp
next
  case (Suc k)
  show ?case
  proof (cases "dat v ! k = dat r ! k")
    case True
    then have "continue_loop v r k = Inr b" using Suc.prems by simp
    then have IH: "b \<longleftrightarrow> (\<forall>j < k. dat v ! j = dat r ! j) \<or>
      (\<exists>i < k. dat v ! i \<noteq> dat r ! i \<and> (\<forall>j. i < j \<and> j < k \<longrightarrow> dat v ! j = dat r ! j) \<and>
              prod_list (take i (dat v)) = 1)"
      using Suc.IH Suc.prems by simp
    have upto: "(\<forall>j. i < j \<and> j < Suc k \<longrightarrow> dat v ! j = dat r ! j) \<longleftrightarrow>
      (\<forall>j. i < j \<and> j < k \<longrightarrow> dat v ! j = dat r ! j)" for i
      using True less_Suc_eq by blast
    show ?thesis
      unfolding IH upto using True less_Suc_eq by metis
  next
    case False
    then have "b = (prod_list (take k (dat v)) = 1)"
      using Suc.prems count_ratio [OF assms(1), of k] by simp
    moreover have "i = k" if "i < Suc k" "\<forall>j. i < j \<and> j < Suc k \<longrightarrow> dat v ! j = dat r ! j" for i
      using that False by (cases "i = k") auto
    ultimately show ?thesis using False by auto
  qed
qed

lemma is_continue_dense:
  assumes "dense v" "wf_shape r" "length (dat r) = length (dat v)" "is_continue v r = Inr b"
  shows "b \<longleftrightarrow> dat v = dat r \<or>
    (\<exists>i < length (dat v). dat v ! i \<noteq> dat r ! i \<and>
       (\<forall>j. i < j \<and> j < length (dat v) \<longrightarrow> dat v ! j = dat r ! j) \<and> prod_list (take i (dat v)) = 1)"
proof -
  have "continue_loop v r (length (dat v)) = Inr b"
    using assms(2-4) by (simp add: is_continue_def)
  from continue_loop_dense [OF assms(1,3) le_refl this]
  show ?thesis using assms(3) by (simp add: list_eq_iff_nth_eq)
qed

lemma continue_addresses:
  assumes v: "dense v" and r: "dense r" and len: "length (dat r) = length (dat v)"
    and cont: "is_continue v r = Inr True" and idx: "in_extent (extent v) idx (length (dat v))"
  shows "linear (stride r) idx 0 (length (dat v)) = linear (stride v) idx 0 (length (dat v))"
proof -
  have "wf_shape r" using r by (simp add: dense_def)
  from is_continue_dense [OF v this len cont]
  consider "dat v = dat r"
    | i where "i < length (dat v)" "prod_list (take i (dat v)) = 1"
        "\<forall>j. i < j \<and> j < length (dat v) \<longrightarrow> dat v ! j = dat r ! j" by auto
  then have "idx j * stride r j = idx j * stride v j" if j: "j < length (dat v)" for j
  proof cases
    case 1
    with j show ?thesis by (simp add: stride_dense v r)
  next
    case 2
    show ?thesis
    proof (cases "j < i")
      case True
      have "\<And>x. x \<in> set (take i (dat v)) \<Longrightarrow> 0 < x"
        using v by (auto simp: dense_def positive_def dest: in_set_takeD)
      then have "take i (dat v) ! j = 1"
        by (rule prod_take_1) (use 2 True in auto)
      then have "extent v j = 1" using True by (simp add: extent_def)
      with idx j have "idx j = 0" by (force simp: in_extent_def)
      then show ?thesis by simp
    next
      case False
      have "drop (Suc j) (dat v) = drop (Suc j) (dat r)"
        by (rule nth_equalityI) (use len 2(3) False in auto)
      with j len show ?thesis by (simp add: stride_dense v r)
    qed
  qed
  then show ?thesis unfolding linear_def by (intro sum.cong) auto
qed

section \<open>The named dimensions under a change of layout\<close>

text \<open>
  The layouts that name batch, channel, height and width, and how each of them stores the
  four values.
\<close>

fun named4 :: "layout_type \<Rightarrow> bool" where
  "named4 Layout_NCHW = True" | "named4 Layout_NHWC = True" | "named4 Layout_NCHW_C4 = True"
| "named4 Layout_NCHW_C8 = True" | "named4 Layout_NCHW_C16 = True"
| "named4 Layout_NCHW_C8R = True" | "named4 Layout_NCHW_C16R = True" | "named4 _ = False"

fun image_of :: "layout_type \<Rightarrow> int \<Rightarrow> int \<Rightarrow> int \<Rightarrow> int \<Rightarrow> int list" where
  "image_of Layout_NHWC n c h w = [n, h, w, c]"
| "image_of Layout_NCHW_C8 n c h w = [n, c div 8, h, w, 8]"
| "image_of Layout_NCHW_C16 n c h w = [n, c div 16, h, w, 16]"
| "image_of _ n c h w = [n, c, h, w]"

definition inner_ok :: "layout_type \<Rightarrow> int \<Rightarrow> bool" where
  "inner_ok l c \<longleftrightarrow> layout_inner_c l = -1 \<or> c mod layout_inner_c l = 0"

lemmas dim_defs = num_def channel_def height_def width_def depth_def num_index_def
  channel_index_def height_index_def width_index_def depth_index_def index_of_def
  dim_or_one_def deref_layout_def

lemma image_reads:
  assumes "named4 l" "inner_ok l c"
  shows "num (mk_shape (image_of l n c h w) l) = Inr n"
    "channel (mk_shape (image_of l n c h w) l) = Inr c"
    "height (mk_shape (image_of l n c h w) l) = Inr h"
    "width (mk_shape (image_of l n c h w) l) = Inr w"
  using assms by (cases l; force simp: dim_defs at_def inner_ok_def)+

lemma image_wf: "named4 l \<Longrightarrow> wf_shape (mk_shape (image_of l n c h w) l)"
  by (cases l) (auto simp: wf_shape_def)

lemma set_layout_image:
  assumes "named4 l" "inner_ok l c" "named4 l'" "0 < c"
  shows "set_layout (mk_shape (image_of l n c h w) l) l' []
         = (if inner_ok l' c then Inr (mk_shape (image_of l' n c h w) l') else Inl CheckFailed)"
proof -
  let ?s = "mk_shape (image_of l n c h w) l"
  have r: "num ?s = Inr n" "channel ?s = Inr c" "height ?s = Inr h" "width ?s = Inr w"
    using image_reads [OF assms(1,2)] by auto
  have c: "shape_copy ?s = Inr ?s" using image_wf [OF assms(1)] by simp
  have ne: "dat ?s \<noteq> []" using wf_shape_nonempty [OF image_wf [OF assms(1)]] by simp
  show ?thesis
    using assms(3,4) ne
    by (cases l') (simp_all add: set_layout_def r c deref_layout_def put_dim_def put_def
        inner_ok_def cmod_pos cdiv_pos layout_depth_index_def eval_nat_numeral)
qed

lemma list_of_4: "length xs = 4 \<Longrightarrow> \<exists>a b c d. xs = [a, b, c, d]"
  by (auto simp: eval_nat_numeral length_Suc_conv)

lemma list_of_5: "length xs = 5 \<Longrightarrow> \<exists>a b c d e. xs = [a, b, c, d, e]"
  by (auto simp: eval_nat_numeral length_Suc_conv)

lemma shape_eqI: "dat s = xs \<Longrightarrow> lay s = LObj l \<Longrightarrow> s = mk_shape xs l"
  by simp

lemma wf_image:
  assumes "wf_shape s" "positive s" "lay s = LObj l" "named4 l"
  obtains n c h w where "s = mk_shape (image_of l n c h w) l" "inner_ok l c"
    "0 < n" "0 < c" "0 < h" "0 < w"
proof -
  have len: "int (length (dat s)) = layout_dims l" and inner: "layout_inner_c l \<noteq> -1 \<longrightarrow> dat s ! 4 = layout_inner_c l"
    using wf_shape_obj [OF assms(1)] assms(3) by auto
  note sI = shape_eqI [OF _ assms(3)]
  show ?thesis
  proof (cases "layout_inner_c l = -1")
    case True
    then have "layout_dims l = 4" using assms(4) by (cases l) auto
    then obtain a b d e where d: "dat s = [a, b, d, e]" using list_of_4 [of "dat s"] len by auto
    have ok: "inner_ok l x" for x using True by (simp add: inner_ok_def)
    have pos: "0 < a" "0 < b" "0 < d" "0 < e" using assms(2) d by (auto simp: positive_def)
    have "image_of l a b d e = dat s \<or> image_of l a e b d = dat s"
      using assms(4) True d by (cases l) auto
    then show ?thesis
      using that [OF sI ok] pos by metis
  next
    case False
    then have l: "l = Layout_NCHW_C8 \<or> l = Layout_NCHW_C16" by (cases l) auto
    then have "length (dat s) = 5" using len by auto
    then obtain a b d e f where d: "dat s = [a, b, d, e, f]" using list_of_5 [of "dat s"] by auto
    with inner False have f: "f = layout_inner_c l" by (simp add: eval_nat_numeral)
    show ?thesis
      by (rule that [of a "b * f" d e, OF sI]) (use l d f assms(2) in \<open>auto simp: positive_def inner_ok_def\<close>)
  qed
qed

lemma set_layout_named4:
  assumes "wf_shape s" "positive s" "lay s = LObj l" "named4 l" "named4 l'"
    and "set_layout s l' [] = Inr t"
  shows "wf_shape t" "lay t = LObj l'" "num t = num s" "channel t = channel s"
    "height t = height s" "width t = width s" "set_layout t l [] = Inr s"
proof -
  obtain n c h w where s: "s = mk_shape (image_of l n c h w) l" and ok: "inner_ok l c"
    and pos: "0 < n" "0 < c" "0 < h" "0 < w"
    using wf_image [OF assms(1-4)] by metis
  have ok': "inner_ok l' c" and t: "t = mk_shape (image_of l' n c h w) l'"
    using assms(6) set_layout_image [OF assms(4) ok assms(5) pos(2)] s by (auto split: if_splits)
  show "wf_shape t" using image_wf [OF assms(5)] t by simp
  show "lay t = LObj l'" using t by simp
  show "num t = num s" "channel t = channel s" "height t = height s" "width t = width s"
    using image_reads [OF assms(4) ok] image_reads [OF assms(5) ok'] s t by auto
  show "set_layout t l [] = Inr s"
    using set_layout_image [OF assms(5) ok' assms(4) pos(2)] ok s t by simp
qed

lemma set_layout_inner_check:
  assumes "wf_shape s" "positive s" "lay s = LObj l" "named4 l" "named4 l'" "channel s = Inr c"
  shows "set_layout s l' [] = Inl CheckFailed \<longleftrightarrow> layout_inner_c l' \<noteq> -1 \<and> c mod layout_inner_c l' \<noteq> 0"
proof -
  obtain n c' h w where s: "s = mk_shape (image_of l n c' h w) l" "inner_ok l c'" "0 < c'"
    using wf_image [OF assms(1-4)] by metis
  then have "c' = c" using image_reads(2) [OF assms(4) s(2)] assms(6) by simp
  then show ?thesis
    using set_layout_image [OF assms(4) s(2) assms(5) s(3)] s(1) by (auto simp: inner_ok_def)
qed

text \<open>A change to a weight layout leaves the shape with a pointer to a deleted layout object.\<close>

lemma set_layout_weight_dangles:
  assumes "wf_shape s" "lay s = LObj l" "named4 l" "positive s"
    and "lt = Layout_OIHW16I16O \<or> lt = Layout_GOIHW16I16O"
  shows "\<exists>t. set_layout s lt [] = Inr t \<and> lay t = LFreed"
proof -
  obtain n c h w where s: "s = mk_shape (image_of l n c h w) l" "inner_ok l c" "0 < c"
    using wf_image [OF assms(1,4,2,3)] by metis
  have r: "num s = Inr n" "channel s = Inr c" "height s = Inr h" "width s = Inr w"
    using image_reads [OF assms(3) s(2)] s(1) by auto
  have c: "shape_copy s = Inr s" using assms(1) by simp
  have ne: "dat s \<noteq> []" using wf_shape_nonempty [OF assms(1)] .
  have inner: "layout_inner_c l \<noteq> -1 \<Longrightarrow> c mod layout_inner_c l = 0"
    using s(2) by (auto simp: inner_ok_def)
  show ?thesis
    using assms(2,3,5) s(3) ne inner
    by (cases l) (auto simp: set_layout_def r c deref_layout_def put_dim_def put_def
        cmod_pos cdiv_pos layout_depth_index_def eval_nat_numeral)
qed

section \<open>Properties\<close>

text \<open>A shape for the witnesses: two images of three channels, four rows and five columns.\<close>

definition demo_shape :: shape where
  "demo_shape = mk_shape [2, 3, 4, 5] Layout_NCHW"

lemma demo_dense: "dense demo_shape"
  by (simp add: demo_shape_def dense_def wf_shape_def unaligned_def positive_def)

lemma all_below_4: "(\<forall>i < 4. P i) \<longleftrightarrow> P 0 \<and> P 1 \<and> P 2 \<and> P (3 :: nat)"
  by (auto simp: less_Suc_eq numeral_eq_Suc)

definition demo_view :: shape where
  "demo_view = mk_shape [1, 2, 4, 5] Layout_NCHW"

lemma demo_view_facts: "dense demo_view" "in_extent (extent demo_view) (\<lambda>i. 0) 4" "length (dat demo_view) = 4"
  by (simp_all add: demo_view_def dense_def wf_shape_def unaligned_def positive_def in_extent_def all_below_4 extent_def)

lemma demo_extents: "in_extent (extent demo_shape) (\<lambda>i. 1) 4" "length (dat demo_shape) = 4"
  by (simp_all add: in_extent_def all_below_4 extent_def demo_shape_def)

text \<open>C34: Two index vectors inside the extents of a dense shape that have the same linear address (the sum
  of index times the stride that \<open>Shape::get_stride\<close> returns) are the same index vector.\<close>

theorem stride_addresses_injective:
  assumes "dense s" "in_extent (extent s) idx (length (dat s))" "in_extent (extent s) jdx (length (dat s))"
    and "linear (stride s) idx 0 (length (dat s)) = linear (stride s) jdx 0 (length (dat s))" "i < length (dat s)"
  shows "idx i = jdx i"
  by (rule shape_strided.address_inj [OF assms])

theorem stride_addresses_injective_witness:
  "dense demo_shape \<and> (\<lambda>i. 1) (3 :: nat) = (1 :: int)"
  using stride_addresses_injective [of demo_shape "\<lambda>i. 1" "\<lambda>i. 1" 3] demo_dense demo_extents by simp

text \<open>The linear address of every index vector inside the extents of a dense shape is at least 0 and
  less than \<open>Shape::count()\<close>, so that an access through the strides stays inside the buffer.\<close>

lemma stride_addresses_in_bounds:
  assumes "dense s" "in_extent (extent s) idx (length (dat s))" "count s = Inr c"
  shows "0 \<le> linear (stride s) idx 0 (length (dat s)) \<and> linear (stride s) idx 0 (length (dat s)) < c"
proof -
  have d: "wf_shape s" "unaligned s" using assms(1) by (simp_all add: dense_def)
  have "c = prod_list (dat s)" using count_from_dense [OF d, of 0] assms(3) by simp
  then show ?thesis
    using shape_strided.address_bounds [OF assms(1) _ assms(2)] wf_shape_nonempty [OF d(1)] dense_total [OF assms(1)] by simp
qed

lemma stride_addresses_in_bounds_witness:
  "0 \<le> linear (stride demo_shape) (\<lambda>i. 1) 0 4 \<and> linear (stride demo_shape) (\<lambda>i. 1) 0 4 < 120"
proof -
  have "count demo_shape = Inr 120" by code_simp
  then show ?thesis
    using stride_addresses_in_bounds [OF demo_dense, of "\<lambda>i. 1" 120] demo_extents by simp
qed

text \<open>C35: When a view \<open>v\<close> of a dense tensor of shape \<open>r\<close> is reported contiguous by \<open>Shape::is_continue\<close>, every
  element of the view has the same linear address under the strides of both shapes: a single flat copy
  moves exactly the elements of the view.\<close>

theorem contiguous_views_copy_flat:
  assumes "dense v" "dense r" "length (dat r) = length (dat v)" "is_continue v r = Inr True"
    and "in_extent (extent v) idx (length (dat v))"
  shows "linear (stride r) idx 0 (length (dat v)) = linear (stride v) idx 0 (length (dat v))"
  by (rule continue_addresses [OF assms])

theorem contiguous_views_copy_flat_witness:
  "linear (stride demo_shape) (\<lambda>i. 0) 0 4 = linear (stride demo_view) (\<lambda>i. 0) 0 4"
proof -
  have "is_continue demo_view demo_shape = Inr True" by code_simp
  then show ?thesis
    using contiguous_views_copy_flat [of demo_view demo_shape "\<lambda>i. 0"] demo_dense demo_extents demo_view_facts by simp
qed

text \<open>C36: \<open>Shape::set_layout\<close> between the four-dimensional layouts, when its checks let it through, keeps
  the batch, channel, height and width that the accessors report, and setting the old layout again gives
  back the original shape.\<close>

theorem set_layout_roundtrip:
  assumes "wf_shape s" "positive s" "lay s = LObj l" "named4 l" "named4 l'" "set_layout s l' [] = Inr t"
  shows "num t = num s \<and> channel t = channel s \<and> height t = height s \<and> width t = width s \<and> set_layout t l [] = Inr s"
  using set_layout_named4 [OF assms] by blast

theorem set_layout_roundtrip_witness:
  "set_layout (mk_shape [2, 4, 5, 6, 8] Layout_NCHW_C8) Layout_NHWC [] = Inr (mk_shape [2, 5, 6, 32] Layout_NHWC)"
proof -
  have "set_layout (mk_shape [2, 5, 6, 32] Layout_NHWC) Layout_NCHW_C8 [] = Inr (mk_shape [2, 4, 5, 6, 8] Layout_NCHW_C8)"
    by code_simp
  then show ?thesis
    using set_layout_roundtrip [of "mk_shape [2, 5, 6, 32] Layout_NHWC" Layout_NHWC Layout_NCHW_C8]
    by (simp add: wf_shape_def positive_def)
qed

text \<open>\<open>Shape::count()\<close> of a shape in a layout with an aligned length (\<open>C8R\<close>, \<open>C16R\<close>) is the size of the
  padded tensor: the channels are rounded up to the next multiple of the aligned length.\<close>

lemma aligned_count_padded:
  assumes "wf_shape s" "positive s" "lay s = LObj l" "layout_aligned_length l \<noteq> -1" "dat s = [n, c, h, w]"
  shows "\<exists>p. count s = Inr (n * h * w * p) \<and> layout_aligned_length l dvd p \<and> c \<le> p \<and> p < c + layout_aligned_length l"
proof -
  have "0 < layout_aligned_length l" using assms(4) by (cases l) auto
  then show ?thesis
    using count_aligned [OF assms] round_up_bounds by blast
qed

lemma aligned_count_padded_witness:
  "\<exists>p. count (mk_shape [2, 3, 4, 5] Layout_NCHW_C8R) = Inr (2 * 4 * 5 * p) \<and> 8 dvd p \<and> 3 \<le> p \<and> p < 11"
  using aligned_count_padded [of "mk_shape [2, 3, 4, 5] Layout_NCHW_C8R" Layout_NCHW_C8R 2 3 4 5]
  by (simp add: wf_shape_def positive_def)

text \<open>\<open>Shape::operator>\<close> and \<open>operator>=\<close> compare the number of dimensions only, because their loops
  test \<open>i > size()\<close>: a check that a shape is greater than the zero shape never rejects a dimension.\<close>

lemma greater_compares_only_ranks:
  "shape_gt s t = (length (dat s) = length (dat t)) \<and> shape_ge s t = (length (dat s) = length (dat t))"
  by (simp add: shape_gt_only_size shape_ge_only_size)

text \<open>\<open>Shape::set_layout\<close> to one of the two convolution-weight layouts, for which \<open>create_layout\<close> has no
  case, returns with the layout pointer of the shape referring to the object that it has just deleted.\<close>

lemma set_layout_weight_layouts_dangle:
  assumes "wf_shape s" "lay s = LObj l" "named4 l" "positive s"
    and "lt = Layout_OIHW16I16O \<or> lt = Layout_GOIHW16I16O"
  shows "\<exists>t. set_layout s lt [] = Inr t \<and> lay t = LFreed"
  by (rule set_layout_weight_dangles [OF assms])

lemma set_layout_weight_layouts_dangle_witness:
  "\<exists>t. set_layout demo_shape Layout_OIHW16I16O [] = Inr t \<and> lay t = LFreed"
  using set_layout_weight_layouts_dangle [of demo_shape Layout_NCHW Layout_OIHW16I16O] demo_dense
  by (simp add: dense_def demo_shape_def)
end
