(* ===== verification/Graph_Base.thy ===== *)
theory Graph_Base
  imports Anakin_Prelude
begin

text \<open>
  The graph container: \<open>Arc\<close> of \<open>framework/graph/arc.h\<close> and \<open>GraphBase\<close> of
  \<open>framework/graph/graph_base.h\<close> and \<open>graph_base.inl\<close>.

  A graph keeps its vertices in an \<open>unordered_map\<close>, its arcs in a \<open>std::list\<close>, and two maps
  from a vertex name to the iterators of its out-arcs and in-arcs. An iterator of the list is
  modelled by the number of its list node (\<open>arc_id\<close>): it stays the same when the arc's
  contents change, and it dangles once the node is erased. The vertices are an association
  list, whose order stands for the unspecified iteration order of the \<open>unordered_map\<close>. A missing
  entry of the out-arc and in-arc maps and an empty one behave alike (every access goes through
  \<open>operator[]\<close>, which creates an empty entry), so the two maps are total functions.
\<close>

section \<open>Arcs\<close>

record ('n, 'w) arc =
  arc_bottom :: 'n
  arc_top :: 'n
  weight :: 'w

text \<open>\<open>operator==\<close> compares the two ends only.\<close>

definition arc_eq :: "('n, 'w) arc \<Rightarrow> ('n, 'w) arc \<Rightarrow> bool" where
  "arc_eq a b = (arc_bottom a = arc_bottom b \<and> arc_top a = arc_top b)"

definition arc_name :: "(string, 'w) arc \<Rightarrow> string" where
  "arc_name a = arc_bottom a @ ''_'' @ arc_top a"

type_synonym arc_id = nat

record ('n, 'v, 'w) graph =
  vertices :: "('n \<times> 'v) list"
  arcs :: "(arc_id \<times> ('n, 'w) arc) list"
  out_its :: "'n \<Rightarrow> arc_id list"
  in_its :: "'n \<Rightarrow> arc_id list"
  next_id :: arc_id

definition empty_graph :: "('n, 'v, 'w) graph" where
  "empty_graph = \<lparr>vertices = [], arcs = [], out_its = (\<lambda>_. []), in_its = (\<lambda>_. []), next_id = 0\<rparr>"

section \<open>Lookup\<close>

definition vertex_names :: "('n, 'v, 'w) graph \<Rightarrow> 'n list" where
  "vertex_names g = map fst (vertices g)"

definition has_vertex :: "('n, 'v, 'w) graph \<Rightarrow> 'n \<Rightarrow> bool" where
  "has_vertex g v = (map_of (vertices g) v \<noteq> None)"

text \<open>\<open>find\<close>: the first list node with the two ends, \<open>None\<close> for \<open>_arcs.end()\<close>.\<close>

fun find_node :: "(arc_id \<times> ('n, 'w) arc) list \<Rightarrow> 'n \<Rightarrow> 'n \<Rightarrow> arc_id option" where
  "find_node [] b t = None"
| "find_node ((i, a) # xs) b t = (if arc_bottom a = b \<and> arc_top a = t then Some i else find_node xs b t)"

definition find_arc :: "('n, 'v, 'w) graph \<Rightarrow> 'n \<Rightarrow> 'n \<Rightarrow> arc_id option" where
  "find_arc g b t = find_node (arcs g) b t"

definition has_arc :: "('n, 'v, 'w) graph \<Rightarrow> 'n \<Rightarrow> 'n \<Rightarrow> bool" where
  "has_arc g b t = (find_arc g b t \<noteq> None)"

text \<open>\<open>*it\<close> for an iterator of the list.\<close>

definition deref :: "('n, 'v, 'w) graph \<Rightarrow> arc_id \<Rightarrow> ('n, 'w) arc outcome" where
  "deref g i = (case map_of (arcs g) i of None \<Rightarrow> Inl DanglingDeref | Some a \<Rightarrow> Inr a)"

definition map_arc :: "arc_id \<Rightarrow> (('n, 'w) arc \<Rightarrow> ('n, 'w) arc) \<Rightarrow> ('n, 'v, 'w) graph \<Rightarrow> ('n, 'v, 'w) graph" where
  "map_arc i f g = g\<lparr>arcs := map (\<lambda>(j, a). (j, if j = i then f a else a)) (arcs g)\<rparr>"

definition get_out_arc_its :: "('n, 'v, 'w) graph \<Rightarrow> 'n \<Rightarrow> arc_id list outcome" where
  "get_out_arc_its g v = (if has_vertex g v then Inr (out_its g v) else Inl CheckFailed)"

definition get_in_arc_its :: "('n, 'v, 'w) graph \<Rightarrow> 'n \<Rightarrow> arc_id list outcome" where
  "get_in_arc_its g v = (if has_vertex g v then Inr (in_its g v) else Inl CheckFailed)"

definition get_arc :: "('n, 'v, 'w) graph \<Rightarrow> 'n \<Rightarrow> 'n \<Rightarrow> ('n, 'w) arc outcome" where
  "get_arc g b t =
     bindE (check (has_arc g b t)) (\<lambda>_.
     case find_arc g b t of None \<Rightarrow> Inl OutOfRange | Some i \<Rightarrow> deref g i)"

definition vertex_at :: "('n, 'v, 'w) graph \<Rightarrow> 'n \<Rightarrow> 'v outcome" where
  "vertex_at g v = (case map_of (vertices g) v of None \<Rightarrow> Inl CheckFailed | Some x \<Rightarrow> Inr x)"

text \<open>An assignment through the reference that \<open>operator[]\<close> returns.\<close>

definition set_vertex :: "'n \<Rightarrow> 'v \<Rightarrow> ('n, 'v, 'w) graph \<Rightarrow> ('n, 'v, 'w) graph" where
  "set_vertex v x g = g\<lparr>vertices := map (\<lambda>(n, y). (n, if n = v then x else y)) (vertices g)\<rparr>"

definition graph_size :: "('n, 'v, 'w) graph \<Rightarrow> nat" where
  "graph_size g = length (vertices g)"

section \<open>Clearing and adding\<close>

definition arcs_clear :: "('n, 'v, 'w) graph \<Rightarrow> ('n, 'v, 'w) graph" where
  "arcs_clear g = g\<lparr>arcs := [], out_its := (\<lambda>_. []), in_its := (\<lambda>_. [])\<rparr>"

definition vertices_clear :: "('n, 'v, 'w) graph \<Rightarrow> ('n, 'v, 'w) graph" where
  "vertices_clear g = g\<lparr>vertices := []\<rparr>"

definition all_clear :: "('n, 'v, 'w) graph \<Rightarrow> ('n, 'v, 'w) graph" where
  "all_clear g = vertices_clear (arcs_clear g)"

definition add_vertex :: "'n \<Rightarrow> 'v \<Rightarrow> ('n, 'v, 'w) graph \<Rightarrow> ('n, 'v, 'w) graph" where
  "add_vertex v x g =
     (if has_vertex g v then g
      else g\<lparr>vertices := vertices g @ [(v, x)],
             out_its := (out_its g)(v := []), in_its := (in_its g)(v := [])\<rparr>)"

definition add_alias :: "'n \<Rightarrow> 'n \<Rightarrow> ('n, 'v, 'w) graph \<Rightarrow> ('n, 'v, 'w) graph outcome" where
  "add_alias ori alias g =
     (if ori = alias then Inr g
      else case map_of (vertices g) ori of
        None \<Rightarrow> Inl CheckFailed
      | Some x \<Rightarrow>
          if has_vertex g alias then Inl CheckFailed
          else Inr (g\<lparr>vertices := vertices g @ [(alias, x)],
                      out_its := (out_its g)(alias := out_its g ori),
                      in_its := (in_its g)(alias := in_its g ori)\<rparr>))"

text \<open>The arc is pushed before the check of its ends.\<close>

definition push_arc :: "('n, 'w) arc \<Rightarrow> ('n, 'v, 'w) graph \<Rightarrow> ('n, 'v, 'w) graph outcome" where
  "push_arc a g =
     (if \<not> has_arc g (arc_bottom a) (arc_top a) then
        (let g' = g\<lparr>arcs := arcs g @ [(next_id g, a)], next_id := Suc (next_id g)\<rparr>
         in bindE (check (has_vertex g' (arc_bottom a) \<and> has_vertex g' (arc_top a))) (\<lambda>_. Inr g'))
      else Inr g)"

definition add_in_arc :: "('n, 'w) arc \<Rightarrow> ('n, 'v, 'w) graph \<Rightarrow> ('n, 'v, 'w) graph outcome" where
  "add_in_arc a g =
     bindE (push_arc a g) (\<lambda>g1.
     case find_arc g1 (arc_bottom a) (arc_top a) of
       None \<Rightarrow> Inl OutOfRange
     | Some i \<Rightarrow>
         if i \<notin> set (in_its g1 (arc_top a))
         then Inr (g1\<lparr>in_its := (in_its g1)(arc_top a := in_its g1 (arc_top a) @ [i])\<rparr>)
         else Inr g1)"

definition add_out_arc :: "('n, 'w) arc \<Rightarrow> ('n, 'v, 'w) graph \<Rightarrow> ('n, 'v, 'w) graph outcome" where
  "add_out_arc a g =
     bindE (push_arc a g) (\<lambda>g1.
     case find_arc g1 (arc_bottom a) (arc_top a) of
       None \<Rightarrow> Inl OutOfRange
     | Some i \<Rightarrow>
         if i \<notin> set (out_its g1 (arc_bottom a))
         then Inr (g1\<lparr>out_its := (out_its g1)(arc_bottom a := out_its g1 (arc_bottom a) @ [i])\<rparr>)
         else Inr g1)"

definition update_in_arc :: "('n, 'w) arc \<Rightarrow> nat \<Rightarrow> ('n, 'v, 'w) graph \<Rightarrow> ('n, 'v, 'w) graph outcome" where
  "update_in_arc a idx g =
     bindE (check (has_vertex g (arc_top a) \<and> has_vertex g (arc_bottom a))) (\<lambda>_.
     bindE (get_in_arc_its g (arc_top a)) (\<lambda>its.
     bindE (check (idx < length its)) (\<lambda>_.
     bindE (deref g (its ! idx)) (\<lambda>_.
     Inr (map_arc (its ! idx) (\<lambda>b. b\<lparr>arc_bottom := arc_bottom a\<rparr>) g)))))"

definition update_out_arc :: "('n, 'w) arc \<Rightarrow> nat \<Rightarrow> ('n, 'v, 'w) graph \<Rightarrow> ('n, 'v, 'w) graph outcome" where
  "update_out_arc a idx g =
     bindE (check (has_vertex g (arc_bottom a) \<and> has_vertex g (arc_top a))) (\<lambda>_.
     bindE (get_out_arc_its g (arc_bottom a)) (\<lambda>its.
     bindE (check (idx < length its)) (\<lambda>_.
     bindE (deref g (its ! idx)) (\<lambda>_.
     Inr (map_arc (its ! idx) (\<lambda>b. b\<lparr>arc_top := arc_top a\<rparr>) g)))))"

section \<open>Removing\<close>

definition erase_node :: "arc_id \<Rightarrow> ('n, 'v, 'w) graph \<Rightarrow> ('n, 'v, 'w) graph" where
  "erase_node i g = g\<lparr>arcs := filter (\<lambda>(j, _). j \<noteq> i) (arcs g)\<rparr>"

definition remove_arc :: "'n \<Rightarrow> 'n \<Rightarrow> ('n, 'v, 'w) graph \<Rightarrow> ('n, 'v, 'w) graph" where
  "remove_arc b t g = (case find_arc g b t of None \<Rightarrow> g | Some i \<Rightarrow> erase_node i g)"

text \<open>The erase loop of \<open>remove\<close> over one list of iterators: each iterator is read.\<close>

fun purge :: "('n, 'v, 'w) graph \<Rightarrow> 'n \<Rightarrow> arc_id list \<Rightarrow> arc_id list outcome" where
  "purge g v [] = Inr []"
| "purge g v (i # is) =
     bindE (deref g i) (\<lambda>a.
     bindE (purge g v is) (\<lambda>js.
     Inr (if arc_bottom a = v \<or> arc_top a = v then js else i # js)))"

definition purge_vertex :: "'n \<Rightarrow> 'n \<Rightarrow> ('n, 'v, 'w) graph \<Rightarrow> ('n, 'v, 'w) graph outcome" where
  "purge_vertex v n g =
     bindE (purge g v (in_its g n)) (\<lambda>ins.
     bindE (Inr (g\<lparr>in_its := (in_its g)(n := ins)\<rparr>)) (\<lambda>g1.
     bindE (purge g1 v (out_its g1 n)) (\<lambda>outs.
     Inr (g1\<lparr>out_its := (out_its g1)(n := outs)\<rparr>))))"

definition remove_vertex :: "'n \<Rightarrow> ('n, 'v, 'w) graph \<Rightarrow> ('n, 'v, 'w) graph outcome" where
  "remove_vertex v g =
     (if \<not> has_vertex g v then Inr g
      else
        let g1 = g\<lparr>vertices := filter (\<lambda>(n, _). n \<noteq> v) (vertices g)\<rparr>
        in bindE (foldE (purge_vertex v) (vertex_names g1) g1) (\<lambda>g2.
           bindE (foldE (\<lambda>i h. bindE (deref h i) (\<lambda>a.
                    Inr (if arc_top a = v then remove_arc (arc_bottom a) (arc_top a) h else h)))
                  (in_its g2 v) g2) (\<lambda>g3.
           bindE (foldE (\<lambda>i h. bindE (deref h i) (\<lambda>a.
                    Inr (if arc_bottom a = v then remove_arc (arc_bottom a) (arc_top a) h else h)))
                  (out_its g3 v) g3) (\<lambda>g4.
           Inr (g4\<lparr>out_its := (out_its g4)(v := []), in_its := (in_its g4)(v := [])\<rparr>)))))"

text \<open>
  \<open>remove_byio\<close> erases the arc and then walks over the out-arcs of its bottom and the in-arcs
  of its top, reading every iterator. A matching iterator is erased from the vector it is
  walking over, and the loop then increments it: with the elements moved down one place the
  next one is skipped, and when the erased one was the last the loop runs past the end.
\<close>

fun byio_loop :: "(('n, 'w) arc \<Rightarrow> bool) \<Rightarrow> ('n, 'v, 'w) graph \<Rightarrow> arc_id list \<Rightarrow> arc_id list outcome" where
  "byio_loop hit g [] = Inr []"
| "byio_loop hit g (i # is) =
     bindE (deref g i) (\<lambda>a.
     if hit a then (case is of [] \<Rightarrow> Inl OutOfRange
                    | j # js \<Rightarrow> bindE (byio_loop hit g js) (\<lambda>ks. Inr (j # ks)))
     else bindE (byio_loop hit g is) (\<lambda>ks. Inr (i # ks)))"

definition remove_byio :: "'n \<Rightarrow> 'n \<Rightarrow> ('n, 'v, 'w) graph \<Rightarrow> ('n, 'v, 'w) graph outcome" where
  "remove_byio b t g =
     (let g1 = remove_arc b t g
      in bindE (byio_loop (\<lambda>a. arc_top a = t) g1 (out_its g1 b)) (\<lambda>outs.
         bindE (Inr (g1\<lparr>out_its := (out_its g1)(b := outs)\<rparr>)) (\<lambda>g2.
         bindE (byio_loop (\<lambda>a. arc_bottom a = b) g2 (in_its g2 t)) (\<lambda>ins.
         Inr (g2\<lparr>in_its := (in_its g2)(t := ins)\<rparr>)))))"

section \<open>Inputs and outputs\<close>

fun ins_loop :: "('n, 'v, 'w) graph \<Rightarrow> (arc_id \<times> ('n, 'w) arc) list \<Rightarrow> 'n list outcome" where
  "ins_loop g [] = Inr []"
| "ins_loop g ((_, a) # xs) =
     (if has_vertex g (arc_bottom a) then
        bindE (get_in_arc_its g (arc_bottom a)) (\<lambda>its.
        bindE (ins_loop g xs) (\<lambda>ns. Inr (if length its = 0 then arc_bottom a # ns else ns)))
      else ins_loop g xs)"

definition get_graph_ins :: "('n, 'v, 'w) graph \<Rightarrow> 'n list outcome" where
  "get_graph_ins g = ins_loop g (arcs g)"

definition get_graph_outs :: "('n, 'v, 'w) graph \<Rightarrow> 'n list" where
  "get_graph_outs g = map (arc_top \<circ> snd) (filter (\<lambda>(_, a). \<not> has_vertex g (arc_top a)) (arcs g))"

end
