(* ===== verification/Graph_Algorithm.thy ===== *)
theory Graph_Algorithm
  imports Graph_Base
begin

text \<open>
  The traversals of \<open>framework/graph/algorithm.inl\<close>: breadth-first over vertices and over
  arcs, in the variants for functors that return a \<open>Status\<close> and for the others, and
  depth-first over vertices. A functor acts on a state \<open>'s\<close> that holds the graph (\<open>view\<close>):
  it is given the name of the vertex or the iterator of the arc, whose contents the reference
  argument of the code gives access to. The while loop over the queue takes fuel, one unit for
  each vertex taken from the queue; the recursion of \<open>dfs\<close> takes one unit for each level.
\<close>

datatype status = OK | EXIT

section \<open>Queue of discovered vertices\<close>

text \<open>\<open>if (std::find(backup...) == backup.end()) { que.push(v); backup.push_back(v); }\<close>\<close>

definition push_new :: "'n \<Rightarrow> 'n list \<times> 'n list \<Rightarrow> 'n list \<times> 'n list" where
  "push_new v qb = (if v \<notin> set (snd qb) then (fst qb @ [v], snd qb @ [v]) else qb)"

section \<open>Breadth-first search over vertices\<close>

fun bfs_loop :: "nat \<Rightarrow> ('s \<Rightarrow> ('n, 'v, 'w) graph) \<Rightarrow> ('n \<Rightarrow> 's \<Rightarrow> (status \<times> 's) outcome) \<Rightarrow>
    'n list \<Rightarrow> 'n list \<Rightarrow> 's \<Rightarrow> 's outcome" where
  "bfs_loop k view f [] backup s = Inr s"
| "bfs_loop 0 view f (v # que) backup s = Inl OutOfFuel"
| "bfs_loop (Suc k) view f (v # que) backup s =
     bindE (vertex_at (view s) v) (\<lambda>_.
     bindE (f v s) (\<lambda>(ret, s1).
     if ret = EXIT then Inr s1
     else
       bindE (get_out_arc_its (view s1) v) (\<lambda>its.
       bindE (mapE (deref (view s1)) its) (\<lambda>as.
       (case fold (\<lambda>a. push_new (arc_top a)) as (que, backup) of
          (que', backup') \<Rightarrow> bfs_loop k view f que' backup' s1)))))"

definition bfs :: "nat \<Rightarrow> ('s \<Rightarrow> ('n, 'v, 'w) graph) \<Rightarrow> ('n \<Rightarrow> 's \<Rightarrow> (status \<times> 's) outcome) \<Rightarrow> 's \<Rightarrow> 's outcome" where
  "bfs k view f s =
     bindE (get_graph_ins (view s)) (\<lambda>ins.
     bindE (check (length ins > 0)) (\<lambda>_.
     (case fold push_new ins ([], []) of (que, backup) \<Rightarrow> bfs_loop k view f que backup s)))"

text \<open>The variant for functors without a \<open>Status\<close> differs in the missing test for \<open>EXIT\<close>.\<close>

definition no_status :: "('x \<Rightarrow> 's \<Rightarrow> 's outcome) \<Rightarrow> 'x \<Rightarrow> 's \<Rightarrow> (status \<times> 's) outcome" where
  "no_status f x s = bindE (f x s) (\<lambda>s1. Inr (OK, s1))"

definition bfs_void :: "nat \<Rightarrow> ('s \<Rightarrow> ('n, 'v, 'w) graph) \<Rightarrow> ('n \<Rightarrow> 's \<Rightarrow> 's outcome) \<Rightarrow> 's \<Rightarrow> 's outcome" where
  "bfs_void k view f = bfs k view (no_status f)"

section \<open>Breadth-first search over arcs\<close>

text \<open>The inner loop over the out-arcs; the flag tells that the functor returned \<open>EXIT\<close>.\<close>

fun edge_loop :: "('s \<Rightarrow> ('n, 'v, 'w) graph) \<Rightarrow> (arc_id \<Rightarrow> 's \<Rightarrow> (status \<times> 's) outcome) \<Rightarrow>
    arc_id list \<Rightarrow> 'n list \<times> 'n list \<Rightarrow> 's \<Rightarrow> (bool \<times> ('n list \<times> 'n list) \<times> 's) outcome" where
  "edge_loop view f [] qb s = Inr (False, qb, s)"
| "edge_loop view f (i # is) qb s =
     bindE (deref (view s) i) (\<lambda>_.
     bindE (f i s) (\<lambda>(ret, s1).
     if ret = EXIT then Inr (True, qb, s1)
     else bindE (deref (view s1) i) (\<lambda>a. edge_loop view f is (push_new (arc_top a) qb) s1)))"

fun bfs_edge_loop :: "nat \<Rightarrow> ('s \<Rightarrow> ('n, 'v, 'w) graph) \<Rightarrow> (arc_id \<Rightarrow> 's \<Rightarrow> (status \<times> 's) outcome) \<Rightarrow>
    'n list \<Rightarrow> 'n list \<Rightarrow> 's \<Rightarrow> 's outcome" where
  "bfs_edge_loop k view f [] backup s = Inr s"
| "bfs_edge_loop 0 view f (v # que) backup s = Inl OutOfFuel"
| "bfs_edge_loop (Suc k) view f (v # que) backup s =
     bindE (get_out_arc_its (view s) v) (\<lambda>its.
     bindE (edge_loop view f its (que, backup) s) (\<lambda>(exit, (que', backup'), s1).
     if exit then Inr s1 else bfs_edge_loop k view f que' backup' s1))"

definition bfs_edge :: "nat \<Rightarrow> ('s \<Rightarrow> ('n, 'v, 'w) graph) \<Rightarrow> (arc_id \<Rightarrow> 's \<Rightarrow> (status \<times> 's) outcome) \<Rightarrow>
    's \<Rightarrow> 's outcome" where
  "bfs_edge k view f s =
     bindE (get_graph_ins (view s)) (\<lambda>ins.
     bindE (check (length ins > 0)) (\<lambda>_.
     (case fold push_new ins ([], []) of (que, backup) \<Rightarrow> bfs_edge_loop k view f que backup s)))"

definition bfs_edge_void :: "nat \<Rightarrow> ('s \<Rightarrow> ('n, 'v, 'w) graph) \<Rightarrow> (arc_id \<Rightarrow> 's \<Rightarrow> 's outcome) \<Rightarrow>
    's \<Rightarrow> 's outcome" where
  "bfs_edge_void k view f = bfs_edge k view (no_status f)"

section \<open>Depth-first search\<close>

fun dfs :: "nat \<Rightarrow> ('s \<Rightarrow> ('n, 'v, 'w) graph) \<Rightarrow> ('n \<Rightarrow> 's \<Rightarrow> 's outcome) \<Rightarrow>
    'n \<Rightarrow> 'n list \<times> 's \<Rightarrow> ('n list \<times> 's) outcome" where
  "dfs 0 view f v bs = Inl OutOfFuel"
| "dfs (Suc k) view f v (backup, s) =
     bindE (vertex_at (view s) v) (\<lambda>_.
     bindE (f v s) (\<lambda>s1.
     bindE (get_out_arc_its (view s1) v) (\<lambda>its.
     foldE (\<lambda>i (b, t). bindE (deref (view t) i) (\<lambda>a.
              if arc_top a \<notin> set b then dfs k view f (arc_top a) (b, t) else Inr (b, t)))
           its (backup @ [v], s1))))"

definition dfs_void :: "nat \<Rightarrow> ('s \<Rightarrow> ('n, 'v, 'w) graph) \<Rightarrow> ('n \<Rightarrow> 's \<Rightarrow> 's outcome) \<Rightarrow> 's \<Rightarrow> 's outcome" where
  "dfs_void k view f s =
     bindE (get_graph_ins (view s)) (\<lambda>ins.
     bindE (check (length ins > 0)) (\<lambda>_.
     bindE (foldE (dfs k view f) ins ([], s)) (\<lambda>(_, t). Inr t)))"

text \<open>The depth-first searches over arcs and with a \<open>Status\<close> only log a warning.\<close>

definition dfs_unimplemented :: "'s \<Rightarrow> 's outcome" where
  "dfs_unimplemented s = Inr s"

end
