(* ===== verification/Graph_Facts.thy ===== *)
theory Graph_Facts
  imports Graph_Base
begin

text \<open>
  The invariant of the graph container and its preservation: list nodes have their own numbers
  and ends, the arcs join vertices, and the out-arc and in-arc lists hold iterators of arcs that
  start and end there. \<open>linked\<close> says that every arc is in both lists.
\<close>

section \<open>The invariant\<close>

definition ends :: "('n, 'w) arc \<Rightarrow> 'n \<times> 'n" where
  "ends a = (arc_bottom a, arc_top a)"

definition wf_graph :: "('n, 'v, 'w) graph \<Rightarrow> bool" where
  "wf_graph g \<longleftrightarrow>
     distinct (vertex_names g) \<and>
     distinct (map fst (arcs g)) \<and> (\<forall>i \<in> fst ` set (arcs g). i < next_id g) \<and>
     distinct (map (ends \<circ> snd) (arcs g)) \<and>
     (\<forall>a \<in> snd ` set (arcs g). arc_bottom a \<in> set (vertex_names g) \<and> arc_top a \<in> set (vertex_names g)) \<and>
     (\<forall>v. distinct (out_its g v) \<and> (\<forall>i \<in> set (out_its g v). \<exists>a. (i, a) \<in> set (arcs g) \<and> arc_bottom a = v)) \<and>
     (\<forall>v. distinct (in_its g v) \<and> (\<forall>i \<in> set (in_its g v). \<exists>a. (i, a) \<in> set (arcs g) \<and> arc_top a = v))"

definition linked :: "('n, 'v, 'w) graph \<Rightarrow> bool" where
  "linked g \<longleftrightarrow> (\<forall>(i, a) \<in> set (arcs g). i \<in> set (out_its g (arc_bottom a)) \<and> i \<in> set (in_its g (arc_top a)))"

text \<open>The abstract view: the relation on the vertex names.\<close>

definition edges :: "('n, 'v, 'w) graph \<Rightarrow> ('n \<times> 'n) set" where
  "edges g = (ends \<circ> snd) ` set (arcs g)"

lemma wf_graphI:
  assumes "distinct (vertex_names g)" "distinct (map fst (arcs g))"
    "\<And>i a. (i, a) \<in> set (arcs g) \<Longrightarrow> i < next_id g"
    "distinct (map (ends \<circ> snd) (arcs g))"
    "\<And>i a. (i, a) \<in> set (arcs g) \<Longrightarrow> arc_bottom a \<in> set (vertex_names g) \<and> arc_top a \<in> set (vertex_names g)"
    "\<And>v. distinct (out_its g v)" "\<And>v i. i \<in> set (out_its g v) \<Longrightarrow> \<exists>a. (i, a) \<in> set (arcs g) \<and> arc_bottom a = v"
    "\<And>v. distinct (in_its g v)" "\<And>v i. i \<in> set (in_its g v) \<Longrightarrow> \<exists>a. (i, a) \<in> set (arcs g) \<and> arc_top a = v"
  shows "wf_graph g"
  using assms unfolding wf_graph_def by fastforce

lemma wf_graphD:
  assumes "wf_graph g"
  shows "distinct (vertex_names g)" "distinct (map fst (arcs g))"
    "\<And>i a. (i, a) \<in> set (arcs g) \<Longrightarrow> i < next_id g"
    "distinct (map (ends \<circ> snd) (arcs g))"
    "\<And>i a. (i, a) \<in> set (arcs g) \<Longrightarrow> arc_bottom a \<in> set (vertex_names g)"
    "\<And>i a. (i, a) \<in> set (arcs g) \<Longrightarrow> arc_top a \<in> set (vertex_names g)"
    "\<And>v. distinct (out_its g v)" "\<And>v i. i \<in> set (out_its g v) \<Longrightarrow> \<exists>a. (i, a) \<in> set (arcs g) \<and> arc_bottom a = v"
    "\<And>v. distinct (in_its g v)" "\<And>v i. i \<in> set (in_its g v) \<Longrightarrow> \<exists>a. (i, a) \<in> set (arcs g) \<and> arc_top a = v"
  using assms unfolding wf_graph_def by force+

lemma has_vertex_iff: "has_vertex g v \<longleftrightarrow> v \<in> set (vertex_names g)"
  by (auto simp: has_vertex_def vertex_names_def map_of_eq_None_iff)

lemma find_node_Some:
  "find_node xs b t = Some i \<Longrightarrow> \<exists>a. (i, a) \<in> set xs \<and> arc_bottom a = b \<and> arc_top a = t"
  by (induction xs) (auto split: if_splits)

lemma find_node_None_all:
  "find_node xs b t = None \<longleftrightarrow> (\<forall>(i, a) \<in> set xs. \<not> (arc_bottom a = b \<and> arc_top a = t))"
  by (induction xs) (auto split: if_splits)

lemma find_node_None: "find_node xs b t = None \<longleftrightarrow> (b, t) \<notin> (ends \<circ> snd) ` set xs"
  unfolding find_node_None_all by (force simp: ends_def)

lemma find_node_append:
  "find_node (xs @ ys) b t = (case find_node xs b t of None \<Rightarrow> find_node ys b t | Some i \<Rightarrow> Some i)"
  by (induction xs) auto

lemma find_node_unique:
  "distinct (map (ends \<circ> snd) xs) \<Longrightarrow> (i, a) \<in> set xs \<Longrightarrow> find_node xs (arc_bottom a) (arc_top a) = Some i"
  by (induction xs) (auto simp: ends_def image_def)

lemma has_arc_iff: "has_arc g b t \<longleftrightarrow> (b, t) \<in> edges g"
  using find_node_None [of "arcs g" b t] by (auto simp: has_arc_def find_arc_def edges_def)

lemma deref_mem: "distinct (map fst (arcs g)) \<Longrightarrow> (i, a) \<in> set (arcs g) \<Longrightarrow> deref g i = Inr a"
  by (simp add: deref_def)

lemma deref_Inr_iff:
  assumes "wf_graph g"
  shows "deref g i = Inr a \<longleftrightarrow> (i, a) \<in> set (arcs g)"
proof
  assume "deref g i = Inr a"
  then show "(i, a) \<in> set (arcs g)"
    by (auto simp: deref_def split: option.splits dest: map_of_SomeD)
qed (rule deref_mem [OF wf_graphD(2) [OF assms]])

lemma deref_gone: "i \<notin> fst ` set (arcs g) \<Longrightarrow> deref g i = Inl DanglingDeref"
  by (simp add: deref_def map_of_eq_None_iff [THEN iffD2])

lemma arc_unique:
  assumes "wf_graph g" "(i, a) \<in> set (arcs g)" "(j, b) \<in> set (arcs g)" "ends a = ends b"
  shows "i = j \<and> a = b"
proof -
  have "inj_on (ends \<circ> snd) (set (arcs g))"
    using wf_graphD(4) [OF assms(1)] by (simp add: distinct_map)
  then show ?thesis using assms(2-4) by (auto dest!: inj_onD [where x = "(i, a)" and y = "(j, b)"])
qed

lemma id_unique:
  assumes "wf_graph g" "(i, a) \<in> set (arcs g)" "(i, b) \<in> set (arcs g)"
  shows "a = b"
  using wf_graphD(2) [OF assms(1)] assms(2,3) by (meson eq_key_imp_eq_value)

section \<open>Adding\<close>

lemma wf_empty_graph [simp]: "wf_graph empty_graph" "linked empty_graph"
  by (auto simp: wf_graph_def linked_def empty_graph_def vertex_names_def)

lemma wf_its_of_new:
  assumes "wf_graph g" "\<not> has_vertex g v"
  shows "out_its g v = []" "in_its g v = []"
proof -
  have v: "v \<notin> set (vertex_names g)" using assms(2) by (simp add: has_vertex_iff)
  have "i \<notin> set (out_its g v)" for i
    using v wf_graphD(5,8) [OF assms(1)] by metis
  then show "out_its g v = []" by (simp add: all_not_in_conv [symmetric, of "set _"] flip: set_empty)
  have "i \<notin> set (in_its g v)" for i
    using v wf_graphD(6,10) [OF assms(1)] by metis
  then show "in_its g v = []" by (simp add: all_not_in_conv [symmetric, of "set _"] flip: set_empty)
qed

lemma add_vertex_wf:
  assumes "wf_graph g"
  shows "wf_graph (add_vertex v x g)" "linked g \<Longrightarrow> linked (add_vertex v x g)"
    "edges (add_vertex v x g) = edges g"
    "set (vertex_names (add_vertex v x g)) = insert v (set (vertex_names g))"
proof -
  note d = wf_graphD [OF assms]
  show "wf_graph (add_vertex v x g)"
  proof (cases "has_vertex g v")
    case True
    then show ?thesis using assms by (simp add: add_vertex_def)
  next
    case False
    show ?thesis
      unfolding add_vertex_def using False
      by (intro wf_graphI)
        (use d False in \<open>auto simp: vertex_names_def has_vertex_iff split: if_splits\<close>)
  qed
  show "linked (add_vertex v x g)" if l: "linked g"
  proof (cases "has_vertex g v")
    case True
    then show ?thesis using l by (simp add: add_vertex_def)
  next
    case False
    then have "arc_bottom a \<noteq> v" "arc_top a \<noteq> v" if "(i, a) \<in> set (arcs g)" for i a
      using d(5,6) that by (auto simp: has_vertex_iff)
    then show ?thesis using l False by (auto simp: linked_def add_vertex_def)
  qed
  show "edges (add_vertex v x g) = edges g"
    by (simp add: edges_def add_vertex_def)
  show "set (vertex_names (add_vertex v x g)) = insert v (set (vertex_names g))"
    by (auto simp: add_vertex_def vertex_names_def has_vertex_def map_of_eq_None_iff)
qed

lemma push_arc_Inr:
  assumes "wf_graph g" "push_arc a g = Inr g'"
  shows "wf_graph g'" "\<exists>i b. find_arc g' (arc_bottom a) (arc_top a) = Some i \<and> (i, b) \<in> set (arcs g') \<and> ends b = ends a"
    "out_its g' = out_its g" "in_its g' = in_its g" "vertices g' = vertices g"
    "edges g' = insert (ends a) (edges g)"
proof -
  note d = wf_graphD [OF assms(1)]
  show *: "out_its g' = out_its g" "in_its g' = in_its g" "vertices g' = vertices g"
    using assms(2) by (auto simp: push_arc_def Let_def split: if_splits)
  show "edges g' = insert (ends a) (edges g)"
  proof (cases "has_arc g (arc_bottom a) (arc_top a)")
    case True
    with assms(2) have "g' = g" "ends a \<in> edges g" by (auto simp: push_arc_def has_arc_iff ends_def)
    then show ?thesis by auto
  next
    case False
    with assms(2) show ?thesis by (auto simp: push_arc_def Let_def edges_def split: if_splits)
  qed
  then have "find_arc g' (arc_bottom a) (arc_top a) \<noteq> None"
    unfolding find_arc_def find_node_None edges_def [symmetric] by (simp add: ends_def)
  then show "\<exists>i b. find_arc g' (arc_bottom a) (arc_top a) = Some i \<and> (i, b) \<in> set (arcs g') \<and> ends b = ends a"
    using find_node_Some [of "arcs g'" "arc_bottom a" "arc_top a"] by (auto simp: find_arc_def ends_def)
  show "wf_graph g'"
  proof (cases "has_arc g (arc_bottom a) (arc_top a)")
    case True
    with assms show ?thesis by (simp add: push_arc_def)
  next
    case False
    then have g': "g' = g\<lparr>arcs := arcs g @ [(next_id g, a)], next_id := Suc (next_id g)\<rparr>"
      and v: "has_vertex g (arc_bottom a)" "has_vertex g (arc_top a)"
      using assms(2) by (auto simp: push_arc_def Let_def has_vertex_def split: if_splits)
    have new: "ends a \<notin> (ends \<circ> snd) ` set (arcs g)" "next_id g \<notin> fst ` set (arcs g)"
      using False d(3) by (force simp: has_arc_iff edges_def ends_def)+
    show ?thesis
    proof (rule wf_graphI)
      show "\<exists>b. (i, b) \<in> set (arcs g') \<and> arc_bottom b = w" if "i \<in> set (out_its g' w)" for i w
        using d(8) [of i w] that by (auto simp: g')
      show "\<exists>b. (i, b) \<in> set (arcs g') \<and> arc_top b = w" if "i \<in> set (in_its g' w)" for i w
        using d(10) [of i w] that by (auto simp: g')
    qed (use d(1-7,9) v new in \<open>auto simp: g' vertex_names_def has_vertex_iff less_Suc_eq\<close>)
  qed
qed

lemma add_in_arc_wf:
  assumes "wf_graph g" "add_in_arc a g = Inr g'"
  shows "wf_graph g'" "edges g' = insert (ends a) (edges g)" "vertices g' = vertices g"
    "out_its g' = out_its g"
    "\<exists>i b. find_arc g' (arc_bottom a) (arc_top a) = Some i \<and> (i, b) \<in> set (arcs g') \<and> ends b = ends a \<and>
       i \<in> set (in_its g' (arc_top a))"
    "\<And>v. set (in_its g v) \<subseteq> set (in_its g' v)"
    "\<exists>h. push_arc a g = Inr h \<and> arcs g' = arcs h"
proof -
  obtain h where h: "push_arc a g = Inr h" using assms(2) by (auto simp: add_in_arc_def)
  note p = push_arc_Inr [OF assms(1) h]
  obtain i b where i: "find_arc h (arc_bottom a) (arc_top a) = Some i" "(i, b) \<in> set (arcs h)" "ends b = ends a"
    using p(2) by auto
  have g': "g' = (if i \<notin> set (in_its h (arc_top a))
      then h\<lparr>in_its := (in_its h)(arc_top a := in_its h (arc_top a) @ [i])\<rparr> else h)"
    using assms(2) h i(1) by (auto simp: add_in_arc_def split: if_splits)
  note d = wf_graphD [OF p(1)]
  show "wf_graph g'"
  proof (cases "i \<in> set (in_its h (arc_top a))")
    case True
    then show ?thesis using g' p(1) by simp
  next
    case False
    show ?thesis
    proof (rule wf_graphI)
      show "\<exists>b. (j, b) \<in> set (arcs g') \<and> arc_bottom b = w" if "j \<in> set (out_its g' w)" for j w
        using d(8) [of j w] that False by (auto simp: g')
      show "\<exists>b. (j, b) \<in> set (arcs g') \<and> arc_top b = w" if "j \<in> set (in_its g' w)" for j w
        using d(10) [of j w] that False i by (auto simp: g' ends_def split: if_splits)
    qed (use d(1-7,9) False in \<open>auto simp: g' vertex_names_def\<close>)
  qed
  show "edges g' = insert (ends a) (edges g)" using p(6) g' by (simp add: edges_def)
  show "vertices g' = vertices g" "out_its g' = out_its g" using p g' by auto
  show "\<exists>i b. find_arc g' (arc_bottom a) (arc_top a) = Some i \<and> (i, b) \<in> set (arcs g') \<and> ends b = ends a \<and>
       i \<in> set (in_its g' (arc_top a))"
    using i g' by (auto simp: find_arc_def)
  show "set (in_its g v) \<subseteq> set (in_its g' v)" for v using p(4) g' by auto
  show "\<exists>h. push_arc a g = Inr h \<and> arcs g' = arcs h" using h g' by auto
qed

lemma add_out_arc_wf:
  assumes "wf_graph g" "add_out_arc a g = Inr g'"
  shows "wf_graph g'" "edges g' = insert (ends a) (edges g)" "vertices g' = vertices g"
    "in_its g' = in_its g"
    "\<exists>i b. find_arc g' (arc_bottom a) (arc_top a) = Some i \<and> (i, b) \<in> set (arcs g') \<and> ends b = ends a \<and>
       i \<in> set (out_its g' (arc_bottom a))"
    "\<And>v. set (out_its g v) \<subseteq> set (out_its g' v)"
    "\<exists>h. push_arc a g = Inr h \<and> arcs g' = arcs h"
proof -
  obtain h where h: "push_arc a g = Inr h" using assms(2) by (auto simp: add_out_arc_def)
  note p = push_arc_Inr [OF assms(1) h]
  obtain i b where i: "find_arc h (arc_bottom a) (arc_top a) = Some i" "(i, b) \<in> set (arcs h)" "ends b = ends a"
    using p(2) by auto
  have g': "g' = (if i \<notin> set (out_its h (arc_bottom a))
      then h\<lparr>out_its := (out_its h)(arc_bottom a := out_its h (arc_bottom a) @ [i])\<rparr> else h)"
    using assms(2) h i(1) by (auto simp: add_out_arc_def split: if_splits)
  note d = wf_graphD [OF p(1)]
  show "wf_graph g'"
  proof (cases "i \<in> set (out_its h (arc_bottom a))")
    case True
    then show ?thesis using g' p(1) by simp
  next
    case False
    show ?thesis
    proof (rule wf_graphI)
      show "\<exists>b. (j, b) \<in> set (arcs g') \<and> arc_bottom b = w" if "j \<in> set (out_its g' w)" for j w
        using d(8) [of j w] that False i by (auto simp: g' ends_def split: if_splits)
      show "\<exists>b. (j, b) \<in> set (arcs g') \<and> arc_top b = w" if "j \<in> set (in_its g' w)" for j w
        using d(10) [of j w] that False by (auto simp: g')
    qed (use d(1-7,9) False in \<open>auto simp: g' vertex_names_def\<close>)
  qed
  show "edges g' = insert (ends a) (edges g)" using p(6) g' by (simp add: edges_def)
  show "vertices g' = vertices g" "in_its g' = in_its g" using p g' by auto
  show "\<exists>i b. find_arc g' (arc_bottom a) (arc_top a) = Some i \<and> (i, b) \<in> set (arcs g') \<and> ends b = ends a \<and>
       i \<in> set (out_its g' (arc_bottom a))"
    using i g' by (auto simp: find_arc_def)
  show "set (out_its g v) \<subseteq> set (out_its g' v)" for v using p(3) g' by auto
  show "\<exists>h. push_arc a g = Inr h \<and> arcs g' = arcs h" using h g' by auto
qed

text \<open>An arc put into the in-list and then the out-list of its ends, as the graph builders do.\<close>

definition connect :: "('n, 'w) arc \<Rightarrow> ('n, 'v, 'w) graph \<Rightarrow> ('n, 'v, 'w) graph outcome" where
  "connect a g = bindE (add_in_arc a g) (add_out_arc a)"

lemma push_arc_arcs:
  assumes "push_arc a g = Inr h" "(i, b) \<in> set (arcs h)" "ends b \<noteq> ends a"
  shows "(i, b) \<in> set (arcs g)"
  using assms by (auto simp: push_arc_def Let_def split: if_splits)

lemma connect_wf:
  assumes "wf_graph g" "linked g" "connect a g = Inr g'"
  shows "wf_graph g'" "linked g'" "edges g' = insert (ends a) (edges g)" "vertices g' = vertices g"
proof -
  obtain h where h: "add_in_arc a g = Inr h" "add_out_arc a h = Inr g'"
    using assms(3) by (auto simp: connect_def)
  note i = add_in_arc_wf [OF assms(1) h(1)]
  note o = add_out_arc_wf [OF i(1) h(2)]
  show "wf_graph g'" "edges g' = insert (ends a) (edges g)" "vertices g' = vertices g"
    using i o by auto
  have keep: "arcs g' = arcs h"
  proof -
    obtain j b where "find_arc h (arc_bottom a) (arc_top a) = Some j" using i(5) by auto
    then have "push_arc a h = Inr h" by (simp add: push_arc_def has_arc_def)
    then show ?thesis using o(7) by auto
  qed
  obtain j b where j: "(j, b) \<in> set (arcs g')" "ends b = ends a" "j \<in> set (in_its h (arc_top a))"
    using i(5) keep by auto
  obtain j' b' where j': "(j', b') \<in> set (arcs g')" "ends b' = ends a" "j' \<in> set (out_its g' (arc_bottom a))"
    using o(5) by auto
  show "linked g'"
    unfolding linked_def
  proof (clarify, goal_cases)
    case (1 k c)
    show ?case
    proof (cases "ends c = ends a")
      case True
      have "k = j" using arc_unique [OF o(1) 1 j(1)] j(2) True by simp
      moreover have "k = j'" using arc_unique [OF o(1) 1 j'(1)] j'(2) True by simp
      ultimately have "j \<in> set (in_its h (arc_top a))" "k = j" "k = j'" using j(3) by auto
      then show ?thesis using True j(3) j'(3) o(4) by (simp add: ends_def)
    next
      case False
      then have "(k, c) \<in> set (arcs g)" using push_arc_arcs i(7) keep 1 by metis
      then have "k \<in> set (out_its g (arc_bottom c))" "k \<in> set (in_its g (arc_top c))"
        using assms(2) by (auto simp: linked_def)
      then show ?thesis using i(4,6) o(4,6) by (metis subsetD)
    qed
  qed
qed

section \<open>Removing\<close>

definition touches :: "('n, 'v, 'w) graph \<Rightarrow> 'n \<Rightarrow> arc_id \<Rightarrow> bool" where
  "touches g v i = (case map_of (arcs g) i of None \<Rightarrow> False
                    | Some a \<Rightarrow> arc_bottom a = v \<or> arc_top a = v)"

lemma touches_arc:
  "distinct (map fst (arcs g)) \<Longrightarrow> (i, a) \<in> set (arcs g) \<Longrightarrow>
   touches g v i = (arc_bottom a = v \<or> arc_top a = v)"
  by (simp add: touches_def)

lemma touches_its [simp]:
  "touches (g\<lparr>in_its := x\<rparr>) v = touches g v" "touches (g\<lparr>out_its := x\<rparr>) v = touches g v"
  by (simp_all add: touches_def fun_eq_iff)

lemma purge_total:
  assumes "distinct (map fst (arcs g))" "\<And>i. i \<in> set is \<Longrightarrow> \<exists>a. (i, a) \<in> set (arcs g)"
  shows "purge g v is = Inr (filter (\<lambda>i. \<not> touches g v i) is)"
  using assms(2)
proof (induction "is")
  case Nil
  then show ?case by simp
next
  case (Cons i "is")
  obtain a where a: "(i, a) \<in> set (arcs g)" using Cons.prems by auto
  with Cons show ?case
    by (simp add: deref_mem [OF assms(1)] touches_arc [OF assms(1) a])
qed

lemma purge_all:
  assumes "distinct (map fst (arcs g))" "distinct ns"
    and "\<And>n i. i \<in> set (in_its g n) \<Longrightarrow> \<exists>a. (i, a) \<in> set (arcs g)"
    and "\<And>n i. i \<in> set (out_its g n) \<Longrightarrow> \<exists>a. (i, a) \<in> set (arcs g)"
  shows "foldE (purge_vertex v) ns g = Inr (g\<lparr>
     out_its := (\<lambda>n. if n \<in> set ns then filter (\<lambda>i. \<not> touches g v i) (out_its g n) else out_its g n),
     in_its := (\<lambda>n. if n \<in> set ns then filter (\<lambda>i. \<not> touches g v i) (in_its g n) else in_its g n)\<rparr>)"
  using assms
proof (induction ns arbitrary: g)
  case Nil
  then show ?case by simp
next
  case (Cons n ns)
  let ?f = "filter (\<lambda>i. \<not> touches g v i)"
  let ?g = "g\<lparr>out_its := (out_its g)(n := ?f (out_its g n)), in_its := (in_its g)(n := ?f (in_its g n))\<rparr>"
  have step: "purge_vertex v n g = Inr ?g"
    using Cons.prems(1,3,4) by (simp add: purge_vertex_def purge_total)
  have t: "touches ?g v = touches g v" by simp
  have "foldE (purge_vertex v) ns ?g = Inr (?g\<lparr>
     out_its := (\<lambda>m. if m \<in> set ns then filter (\<lambda>i. \<not> touches ?g v i) (out_its ?g m) else out_its ?g m),
     in_its := (\<lambda>m. if m \<in> set ns then filter (\<lambda>i. \<not> touches ?g v i) (in_its ?g m) else in_its ?g m)\<rparr>)"
    by (rule Cons.IH) (use Cons.prems in \<open>auto split: if_splits\<close>)
  moreover have "n \<notin> set ns" using Cons.prems(2) by simp
  ultimately show ?case
    unfolding t foldE.simps step bindE_simps
    by (auto simp: fun_eq_iff intro!: graph.equality)
qed

lemma erase_node_find:
  assumes "distinct (map (ends \<circ> snd) (arcs g))" "(i, a) \<in> set (arcs g)"
  shows "remove_arc (arc_bottom a) (arc_top a) g = erase_node i g"
  using find_node_unique [OF assms] by (simp add: remove_arc_def find_arc_def)

lemma distinct_filter_map: "distinct (map f xs) \<Longrightarrow> distinct (map f (filter P xs))"
  by (induction xs) auto

lemma erase_all:
  assumes "distinct (map fst (arcs g))" "distinct (map (ends \<circ> snd) (arcs g))" "distinct is"
    and "\<And>i. i \<in> set is \<Longrightarrow> \<exists>a. (i, a) \<in> set (arcs g) \<and> Q a"
  shows "foldE (\<lambda>i h. bindE (deref h i) (\<lambda>a.
            Inr (if Q a then remove_arc (arc_bottom a) (arc_top a) h else h))) is g
         = Inr (g\<lparr>arcs := filter (\<lambda>(j, _). j \<notin> set is) (arcs g)\<rparr>)"
  using assms
proof (induction "is" arbitrary: g)
  case Nil
  then show ?case by simp
next
  case (Cons i "is")
  obtain a where a: "(i, a) \<in> set (arcs g)" "Q a" using Cons.prems(4) by auto
  have step: "remove_arc (arc_bottom a) (arc_top a) g = erase_node i g"
    by (rule erase_node_find [OF Cons.prems(2) a(1)])
  have IH: "foldE (\<lambda>i h. bindE (deref h i) (\<lambda>a.
            Inr (if Q a then remove_arc (arc_bottom a) (arc_top a) h else h))) is (erase_node i g)
      = Inr ((erase_node i g)\<lparr>arcs := filter (\<lambda>(j, _). j \<notin> set is) (arcs (erase_node i g))\<rparr>)"
    by (rule Cons.IH)
      (use Cons.prems in \<open>auto simp: erase_node_def intro!: distinct_filter_map\<close>)
  have "filter (\<lambda>(j, _). j \<notin> set is) (arcs (erase_node i g)) = filter (\<lambda>(j, _). j \<notin> set (i # is)) (arcs g)"
    by (auto simp: erase_node_def intro!: filter_cong)
  then show ?case
    using IH step a(2) deref_mem [OF Cons.prems(1) a(1)] by (simp add: erase_node_def)
qed

text \<open>The state of \<open>remove\<close> after its first two phases: the vertex erased, the lists purged.\<close>

definition purged :: "'n \<Rightarrow> ('n, 'v, 'w) graph \<Rightarrow> ('n, 'v, 'w) graph" where
  "purged v g = g\<lparr>vertices := filter (\<lambda>(n, _). n \<noteq> v) (vertices g),
     out_its := (\<lambda>n. if n = v then out_its g v else filter (\<lambda>i. \<not> touches g v i) (out_its g n)),
     in_its := (\<lambda>n. if n = v then in_its g v else filter (\<lambda>i. \<not> touches g v i) (in_its g n))\<rparr>"

lemma purge_phase:
  assumes "wf_graph g"
  shows "foldE (purge_vertex v) (vertex_names (g\<lparr>vertices := filter (\<lambda>(n, _). n \<noteq> v) (vertices g)\<rparr>))
           (g\<lparr>vertices := filter (\<lambda>(n, _). n \<noteq> v) (vertices g)\<rparr>) = Inr (purged v g)"
proof -
  let ?g = "g\<lparr>vertices := filter (\<lambda>(n, _). n \<noteq> v) (vertices g)\<rparr>"
  note d = wf_graphD [OF assms]
  have names: "set (vertex_names ?g) = set (vertex_names g) - {v}"
    by (auto simp: vertex_names_def)
  have dn: "distinct (vertex_names ?g)"
    using d(1) by (simp add: vertex_names_def distinct_filter_map)
  have t: "touches ?g v = touches g v" by (simp add: touches_def fun_eq_iff)
  have out: "out_its g n = []" and ins: "in_its g n = []" if "n \<notin> set (vertex_names g)" for n
    using wf_its_of_new [OF assms, of n] that by (simp_all add: has_vertex_iff)
  have "foldE (purge_vertex v) (vertex_names ?g) ?g = Inr (?g\<lparr>
     out_its := (\<lambda>n. if n \<in> set (vertex_names ?g) then filter (\<lambda>i. \<not> touches ?g v i) (out_its ?g n) else out_its ?g n),
     in_its := (\<lambda>n. if n \<in> set (vertex_names ?g) then filter (\<lambda>i. \<not> touches ?g v i) (in_its ?g n) else in_its ?g n)\<rparr>)"
    by (rule purge_all [OF _ dn]) (use d(2,8,10) in auto, blast+)
  also have "\<dots> = Inr (purged v g)"
    unfolding t names using out ins
    by (auto simp: purged_def fun_eq_iff intro!: graph.equality)
  finally show ?thesis .
qed

lemma in_phase:
  assumes "wf_graph g"
  shows "foldE (\<lambda>i h. bindE (deref h i) (\<lambda>a.
            Inr (if arc_top a = v then remove_arc (arc_bottom a) (arc_top a) h else h))) (in_its (purged v g) v) (purged v g)
         = Inr ((purged v g)\<lparr>arcs := filter (\<lambda>(j, _). j \<notin> set (in_its g v)) (arcs g)\<rparr>)"
proof -
  note d = wf_graphD [OF assms]
  have "in_its (purged v g) v = in_its g v" "arcs (purged v g) = arcs g" by (simp_all add: purged_def)
  then show ?thesis
    using erase_all [of "purged v g" "in_its g v" "\<lambda>a. arc_top a = v"] d(2,4,9,10) by simp
qed

lemma remove_vertex_spec:
  assumes "wf_graph g" "linked g" "has_vertex g v" "(v, v) \<notin> edges g"
  shows "remove_vertex v g = Inr (g\<lparr>vertices := filter (\<lambda>(n, _). n \<noteq> v) (vertices g),
     arcs := filter (\<lambda>(_, a). arc_bottom a \<noteq> v \<and> arc_top a \<noteq> v) (arcs g),
     out_its := (\<lambda>n. if n = v then [] else filter (\<lambda>i. \<not> touches g v i) (out_its g n)),
     in_its := (\<lambda>n. if n = v then [] else filter (\<lambda>i. \<not> touches g v i) (in_its g n))\<rparr>)"
proof -
  note d = wf_graphD [OF assms(1)]
  let ?h = "(purged v g)\<lparr>arcs := filter (\<lambda>(j, _). j \<notin> set (in_its g v)) (arcs g)\<rparr>"
  have h: "out_its ?h v = out_its g v" "arcs ?h = filter (\<lambda>(j, _). j \<notin> set (in_its g v)) (arcs g)"
    by (simp_all add: purged_def)
  have apart: "j \<notin> set (in_its g v)" if jo: "j \<in> set (out_its g v)" for j
  proof
    assume j: "j \<in> set (in_its g v)"
    obtain a where a: "(j, a) \<in> set (arcs g)" "arc_bottom a = v" using d(8) [OF jo] by auto
    obtain b where b: "(j, b) \<in> set (arcs g)" "arc_top b = v" using d(10) [OF j] by auto
    have "ends a = (v, v)" using a b id_unique [OF assms(1) a(1) b(1)] by (simp add: ends_def)
    then show False using assms(4) a(1) by (force simp: edges_def)
  qed
  have out: "foldE (\<lambda>i h. bindE (deref h i) (\<lambda>a.
            Inr (if arc_bottom a = v then remove_arc (arc_bottom a) (arc_top a) h else h))) (out_its ?h v) ?h
         = Inr (?h\<lparr>arcs := filter (\<lambda>(j, _). j \<notin> set (out_its g v)) (arcs ?h)\<rparr>)"
    unfolding h(1)
  proof (rule erase_all)
    show "\<exists>a. (i, a) \<in> set (arcs ?h) \<and> arc_bottom a = v" if "i \<in> set (out_its g v)" for i
      using d(8) [OF that] apart [OF that] unfolding h(2) by auto
  qed (use d(2,4,7) in \<open>auto simp: h(2) intro!: distinct_filter_map\<close>)
  have gone: "filter (\<lambda>(j, _). j \<notin> set (out_its g v)) (filter (\<lambda>(j, _). j \<notin> set (in_its g v)) (arcs g))
      = filter (\<lambda>(_, a). arc_bottom a \<noteq> v \<and> arc_top a \<noteq> v) (arcs g)"
  proof -
    have "(i \<notin> set (in_its g v) \<and> i \<notin> set (out_its g v)) \<longleftrightarrow> (arc_bottom a \<noteq> v \<and> arc_top a \<noteq> v)"
      if ia: "(i, a) \<in> set (arcs g)" for i a
    proof -
      have l: "i \<in> set (out_its g (arc_bottom a))" "i \<in> set (in_its g (arc_top a))"
        using assms(2) ia by (auto simp: linked_def)
      have "arc_top a = v" if "i \<in> set (in_its g v)"
        using d(10) [OF that] id_unique [OF assms(1) ia] by auto
      moreover have "arc_bottom a = v" if "i \<in> set (out_its g v)"
        using d(8) [OF that] id_unique [OF assms(1) ia] by auto
      ultimately show ?thesis using l by auto
    qed
    then show ?thesis by (auto intro!: filter_cong)
  qed
  show ?thesis
    unfolding remove_vertex_def Let_def
    using assms(3) purge_phase [OF assms(1), of v] in_phase [OF assms(1), of v] out gone
    by (auto simp: h purged_def fun_eq_iff intro!: graph.equality)
qed

lemma remove_vertex_wf:
  assumes "wf_graph g" "linked g" "(v, v) \<notin> edges g" "remove_vertex v g = Inr g'"
  shows "wf_graph g'" "linked g'" "set (vertex_names g') = set (vertex_names g) - {v}"
    "edges g' = {(b, t) \<in> edges g. b \<noteq> v \<and> t \<noteq> v}"
proof -
  note d = wf_graphD [OF assms(1)]
  have "wf_graph g' \<and> linked g' \<and> set (vertex_names g') = set (vertex_names g) - {v} \<and>
    edges g' = {(b, t) \<in> edges g. b \<noteq> v \<and> t \<noteq> v}"
  proof (cases "has_vertex g v")
    case False
    then have g': "g' = g" using assms(4) by (simp add: remove_vertex_def)
    have v: "v \<notin> set (vertex_names g)" using False by (simp add: has_vertex_iff)
    then have "(b, t) \<in> edges g \<Longrightarrow> b \<noteq> v \<and> t \<noteq> v" for b t
      using d(5,6) by (auto simp: edges_def ends_def)
    with g' assms(1,2) v show ?thesis by auto
  next
    case True
    let ?P = "\<lambda>(_, a). arc_bottom a \<noteq> v \<and> arc_top a \<noteq> v"
    have g': "g' = g\<lparr>vertices := filter (\<lambda>(n, _). n \<noteq> v) (vertices g), arcs := filter ?P (arcs g),
       out_its := (\<lambda>n. if n = v then [] else filter (\<lambda>i. \<not> touches g v i) (out_its g n)),
       in_its := (\<lambda>n. if n = v then [] else filter (\<lambda>i. \<not> touches g v i) (in_its g n))\<rparr>"
      using remove_vertex_spec [OF assms(1,2) True assms(3)] assms(4) by simp
    have names: "set (vertex_names g') = set (vertex_names g) - {v}"
      by (auto simp: g' vertex_names_def)
    have mem: "(i, a) \<in> set (arcs g') \<longleftrightarrow> (i, a) \<in> set (arcs g) \<and> arc_bottom a \<noteq> v \<and> arc_top a \<noteq> v" for i a
      by (auto simp: g')
    have t: "touches g v i = (arc_bottom a = v \<or> arc_top a = v)" if "(i, a) \<in> set (arcs g)" for i a
      by (rule touches_arc [OF d(2) that])
    have "wf_graph g'"
    proof (rule wf_graphI)
      show "\<exists>a. (i, a) \<in> set (arcs g') \<and> arc_bottom a = n" if "i \<in> set (out_its g' n)" for i n
        using that d(8) [of i n] t unfolding mem by (auto simp: g' split: if_splits)
      show "\<exists>a. (i, a) \<in> set (arcs g') \<and> arc_top a = n" if "i \<in> set (in_its g' n)" for i n
        using that d(10) [of i n] t unfolding mem by (auto simp: g' split: if_splits)
      show "arc_bottom a \<in> set (vertex_names g') \<and> arc_top a \<in> set (vertex_names g')"
        if "(i, a) \<in> set (arcs g')" for i a
        using that d(5,6) unfolding mem names by auto
    qed (use d(1-4,7,9) in \<open>auto simp: g' vertex_names_def intro!: distinct_filter_map\<close>)
    moreover have "linked g'"
      unfolding linked_def
    proof (clarify, goal_cases)
      case (1 i a)
      then have a: "(i, a) \<in> set (arcs g)" "arc_bottom a \<noteq> v" "arc_top a \<noteq> v" by (auto simp: mem)
      then show ?case using assms(2) t [OF a(1)] by (auto simp: linked_def g')
    qed
    moreover have "edges g' = {(b, t) \<in> edges g. b \<noteq> v \<and> t \<noteq> v}"
      by (force simp: edges_def ends_def g')
    ultimately show ?thesis using names by blast
  qed
  then show "wf_graph g'" "linked g'" "set (vertex_names g') = set (vertex_names g) - {v}"
    "edges g' = {(b, t) \<in> edges g. b \<noteq> v \<and> t \<noteq> v}" by auto
qed

lemma foldE_fail:
  assumes "foldE f xs s = Inr t" "f x t = Inl e"
  shows "foldE f (xs @ x # ys) s = Inl e"
  using assms by (simp add: foldE_append)

text \<open>A vertex with an arc to itself: the second loop reads the node the first has erased.\<close>

lemma remove_self_loop:
  assumes "wf_graph g" "linked g" "(v, v) \<in> edges g"
  shows "remove_vertex v g = Inl DanglingDeref"
proof -
  note d = wf_graphD [OF assms(1)]
  obtain i a where a: "(i, a) \<in> set (arcs g)" "arc_bottom a = v" "arc_top a = v"
    using assms(3) by (auto simp: edges_def ends_def)
  then have i: "i \<in> set (out_its g v)" "i \<in> set (in_its g v)" and hv: "has_vertex g v"
    using assms(2) d(5) by (auto simp: linked_def has_vertex_iff)
  let ?h = "(purged v g)\<lparr>arcs := filter (\<lambda>(j, _). j \<notin> set (in_its g v)) (arcs g)\<rparr>"
  have h: "out_its ?h v = out_its g v" "arcs ?h = filter (\<lambda>(j, _). j \<notin> set (in_its g v)) (arcs g)"
    by (simp_all add: purged_def)
  obtain xs ys where xy: "out_its g v = xs @ i # ys" using i(1) by (metis split_list)
  have only: "j = i" if jo: "j \<in> set (out_its g v)" and ji: "j \<in> set (in_its g v)" for j
  proof -
    obtain b where b: "(j, b) \<in> set (arcs g)" "arc_bottom b = v" using d(8) [OF jo] by auto
    obtain c where c: "(j, c) \<in> set (arcs g)" "arc_top c = v" using d(10) [OF ji] by auto
    have "ends b = ends a" using a b c id_unique [OF assms(1) b(1) c(1)] by (simp add: ends_def)
    then show ?thesis using arc_unique [OF assms(1) b(1) a(1)] by simp
  qed
  have live: "\<exists>b. (j, b) \<in> set (arcs ?h) \<and> arc_bottom b = v" if "j \<in> set xs" for j
  proof -
    have "j \<in> set (out_its g v)" "j \<noteq> i" using that d(7) [of v] by (auto simp: xy)
    then show ?thesis using d(8) [of j v] only [of j] unfolding h(2) by auto
  qed
  let ?f = "\<lambda>i h. bindE (deref h i) (\<lambda>a.
            Inr (if arc_bottom a = v then remove_arc (arc_bottom a) (arc_top a) h else h))"
  have pre: "foldE ?f xs ?h = Inr (?h\<lparr>arcs := filter (\<lambda>(j, _). j \<notin> set xs) (arcs ?h)\<rparr>)"
    by (rule erase_all)
      (use live d(2,4) d(7) [of v] in \<open>auto simp: h(2) xy intro!: distinct_filter_map\<close>)
  have "deref (?h\<lparr>arcs := filter (\<lambda>(j, _). j \<notin> set xs) (arcs ?h)\<rparr>) i = Inl DanglingDeref"
    by (rule deref_gone) (use i(2) in \<open>auto simp: h(2)\<close>)
  then have out: "foldE ?f (out_its ?h v) ?h = Inl DanglingDeref"
    unfolding h(1) xy by (intro foldE_fail [OF pre]) simp
  show ?thesis
    unfolding remove_vertex_def Let_def
    using hv purge_phase [OF assms(1), of v] in_phase [OF assms(1), of v] out by simp
qed

text \<open>The walk of \<open>remove_byio\<close> meets the iterator of the arc it has just erased.\<close>

lemma byio_dangles:
  assumes "i \<in> set is" "i \<notin> fst ` set (arcs g)"
    and "\<And>j. j \<in> set is \<Longrightarrow> j \<noteq> i \<Longrightarrow> \<exists>a. deref g j = Inr a \<and> \<not> hit a"
  shows "byio_loop hit g is = Inl DanglingDeref"
  using assms(1,3)
proof (induction "is")
  case Nil
  then show ?case by simp
next
  case (Cons j js)
  show ?case
  proof (cases "j = i")
    case True
    then show ?thesis by (simp add: deref_gone [OF assms(2)])
  next
    case False
    with Cons.prems obtain a where "deref g j = Inr a" "\<not> hit a" by auto
    then show ?thesis using Cons False by simp
  qed
qed

lemma remove_byio_dangles_at:
  assumes "wf_graph g" "(i, a) \<in> set (arcs g)" "i \<in> set (out_its g (arc_bottom a))"
  shows "remove_byio (arc_bottom a) (arc_top a) g = Inl DanglingDeref"
proof -
  note d = wf_graphD [OF assms(1)]
  let ?g = "erase_node i g" and ?b = "arc_bottom a" and ?t = "arc_top a"
  have r: "remove_arc ?b ?t g = ?g" using erase_node_find [OF d(4) assms(2)] by simp
  have "byio_loop (\<lambda>x. arc_top x = ?t) ?g (out_its ?g ?b) = Inl DanglingDeref"
  proof (rule byio_dangles [of i])
    show "i \<in> set (out_its ?g ?b)" using assms(3) by (simp add: erase_node_def)
    show "i \<notin> fst ` set (arcs ?g)" by (auto simp: erase_node_def)
    fix j
    assume j: "j \<in> set (out_its ?g ?b)" "j \<noteq> i"
    then obtain x where x: "(j, x) \<in> set (arcs g)" "arc_bottom x = ?b"
      using d(8) [of j ?b] by (auto simp: erase_node_def)
    have "arc_top x \<noteq> ?t" using arc_unique [OF assms(1) x(1) assms(2)] x j(2) by (auto simp: ends_def)
    moreover have "deref ?g j = Inr x"
      by (rule deref_mem) (use d(2) x j in \<open>auto simp: erase_node_def intro!: distinct_filter_map\<close>)
    ultimately show "\<exists>y. deref ?g j = Inr y \<and> arc_top y \<noteq> ?t" by blast
  qed
  then show ?thesis by (simp add: remove_byio_def r)
qed

lemma remove_byio_dangles:
  assumes "wf_graph g" "linked g" "(b, t) \<in> edges g"
  shows "remove_byio b t g = Inl DanglingDeref"
proof -
  obtain i a where a: "(i, a) \<in> set (arcs g)" "arc_bottom a = b" "arc_top a = t"
    using assms(3) by (auto simp: edges_def ends_def)
  then show ?thesis using remove_byio_dangles_at [OF assms(1) a(1)] assms(2) by (auto simp: linked_def)
qed

section \<open>Inputs\<close>

lemma ins_loop_total:
  "ins_loop g xs = Inr (map (arc_bottom \<circ> snd)
     (filter (\<lambda>(_, a). has_vertex g (arc_bottom a) \<and> in_its g (arc_bottom a) = []) xs))"
  by (induction g xs rule: ins_loop.induct) (auto simp: get_in_arc_its_def)

text \<open>
  The inputs of a linked graph: the vertices with an out-arc and no in-arc, once for each of
  their out-arcs.
\<close>

lemma get_graph_ins_spec:
  assumes "wf_graph g" "linked g" "get_graph_ins g = Inr ns"
  shows "set ns = {b. (\<exists>t. (b, t) \<in> edges g) \<and> (\<forall>u. (u, b) \<notin> edges g)}"
    "count_list ns b = (if \<forall>u. (u, b) \<notin> edges g then card {t. (b, t) \<in> edges g} else 0)"
proof -
  note d = wf_graphD [OF assms(1)]
  let ?P = "\<lambda>(_, a). has_vertex g (arc_bottom a) \<and> in_its g (arc_bottom a) = []"
  have ns: "ns = map (arc_bottom \<circ> snd) (filter ?P (arcs g))"
    using assms(3) by (simp add: get_graph_ins_def ins_loop_total)
  have ine: "in_its g n = [] \<longleftrightarrow> (\<forall>u. (u, n) \<notin> edges g)" for n
  proof
    show "\<forall>u. (u, n) \<notin> edges g" if "in_its g n = []"
      using that assms(2) by (fastforce simp: edges_def ends_def linked_def)
    show "in_its g n = []" if none: "\<forall>u. (u, n) \<notin> edges g"
    proof (rule ccontr)
      assume "in_its g n \<noteq> []"
      then obtain j where "j \<in> set (in_its g n)" by (cases "in_its g n") auto
      then show False using d(10) [of j n] none by (force simp: edges_def ends_def)
    qed
  qed
  have P: "?P x \<longleftrightarrow> (\<forall>u. (u, arc_bottom (snd x)) \<notin> edges g)" if "x \<in> set (arcs g)" for x
    using that d(5) by (cases x) (auto simp: has_vertex_iff ine)
  then have flt: "filter ?P (arcs g) = filter (\<lambda>x. \<forall>u. (u, arc_bottom (snd x)) \<notin> edges g) (arcs g)"
    by (rule filter_cong [OF refl])
  have bt: "(\<exists>t. (c, t) \<in> edges g) \<longleftrightarrow> (\<exists>x \<in> set (arcs g). arc_bottom (snd x) = c)" for c
    by (force simp: edges_def ends_def)
  show "set ns = {b. (\<exists>t. (b, t) \<in> edges g) \<and> (\<forall>u. (u, b) \<notin> edges g)}"
    unfolding ns flt bt by auto
  have "count_list ns b = length (filter (\<lambda>x. arc_bottom (snd x) = b) (filter ?P (arcs g)))"
    unfolding ns count_list_eq_length_filter filter_map length_map
    by (simp add: comp_def eq_commute)
  also have "\<dots> = (if \<forall>u. (u, b) \<notin> edges g then length (filter (\<lambda>x. arc_bottom (snd x) = b) (arcs g)) else 0)"
    unfolding flt filter_filter
    by (auto simp: filter_empty_conv intro!: arg_cong [where f = length] filter_cong)
  also have "length (filter (\<lambda>x. arc_bottom (snd x) = b) (arcs g)) = card {t. (b, t) \<in> edges g}"
  proof -
    let ?l = "map (arc_top \<circ> snd) (filter (\<lambda>x. arc_bottom (snd x) = b) (arcs g))"
    have "inj_on (ends \<circ> snd) (set (arcs g))" "distinct (arcs g)"
      using d(4) by (auto simp: distinct_map)
    then have "distinct ?l"
      by (auto simp: distinct_map inj_on_def ends_def)
    moreover have "set ?l = {t. (b, t) \<in> edges g}"
      by (force simp: edges_def ends_def)
    ultimately show ?thesis by (metis distinct_card length_map)
  qed
  finally show "count_list ns b = (if \<forall>u. (u, b) \<notin> edges g then card {t. (b, t) \<in> edges g} else 0)" .
qed

end
