(* ===== verification/Algorithm_Facts.thy ===== *)
theory Algorithm_Facts
  imports Graph_Algorithm Graph_Facts
begin

text \<open>
  What the traversals visit. The interface \<open>digraph\<close> is what they need of a graph (a finite
  set of names, closed under the successor lists); the searches are analysed inside it, once,
  on lists of names, and the lemmas below tie the searches of the code to them.
\<close>

section \<open>The searches over successor lists\<close>

fun scan :: "nat \<Rightarrow> ('n \<Rightarrow> 'n list) \<Rightarrow> 'n list \<Rightarrow> 'n list \<Rightarrow> 'n list option" where
  "scan k sc [] b = Some []"
| "scan 0 sc (v # q) b = None"
| "scan (Suc k) sc (v # q) b =
     (case fold push_new (sc v) (q, b) of (q', b') \<Rightarrow> map_option ((#) v) (scan k sc q' b'))"

lemma push_new_fold:
  "\<exists>new. fold push_new xs (q, b) = (q @ new, b @ new) \<and> distinct new \<and> set new = set xs - set b"
proof (induction xs arbitrary: q b)
  case Nil
  then show ?case by simp
next
  case (Cons x xs)
  show ?case
  proof (cases "x \<in> set b")
    case True
    then show ?thesis using Cons [of q b] by (auto simp: push_new_def)
  next
    case False
    obtain new where new: "fold push_new xs (q @ [x], b @ [x]) = ((q @ [x]) @ new, (b @ [x]) @ new)"
      "distinct new" "set new = set xs - set (b @ [x])" using Cons by metis
    have "fold push_new (x # xs) (q, b) = (q @ x # new, b @ x # new)"
      using False new(1) by (simp add: push_new_def)
    moreover have "distinct (x # new)" "set (x # new) = set (x # xs) - set b"
      using False new(2,3) by auto
    ultimately show ?thesis by blast
  qed
qed

lemma count_list_distinct: "distinct xs \<Longrightarrow> count_list xs x = (if x \<in> set xs then 1 else 0)"
  by (induction xs) auto

fun search :: "nat \<Rightarrow> ('n \<Rightarrow> 'n list) \<Rightarrow> 'n \<Rightarrow> 'n list \<Rightarrow> 'n list option" where
  "search 0 sc v b = None"
| "search (Suc k) sc v b =
     fold (\<lambda>w r. case r of None \<Rightarrow> None
                 | Some b \<Rightarrow> if w \<in> set b then Some b else search k sc w b)
       (sc v) (Some (b @ [v]))"

locale digraph =
  fixes ok :: "'g \<Rightarrow> bool" and names :: "'g \<Rightarrow> 'n set" and succs :: "'g \<Rightarrow> 'n \<Rightarrow> 'n list"
  assumes finite_names: "ok g \<Longrightarrow> finite (names g)"
    and succs_closed: "ok g \<Longrightarrow> v \<in> names g \<Longrightarrow> set (succs g v) \<subseteq> names g"
begin

abbreviation step_rel :: "'g \<Rightarrow> ('n \<times> 'n) set" where
  "step_rel g \<equiv> {(v, w). w \<in> set (succs g v)}"

lemma scan_spec:
  assumes "ok g" "distinct (d @ q)" "set (d @ q) \<subseteq> names g"
    "\<And>v. v \<in> set d \<Longrightarrow> set (succs g v) \<subseteq> set (d @ q)" "card (names g) \<le> k + length d"
  shows "\<exists>vs. scan k (succs g) q (d @ q) = Some vs \<and> distinct (d @ vs) \<and> set q \<subseteq> set vs \<and>
    set vs \<subseteq> names g \<and> (\<forall>v \<in> set (d @ vs). set (succs g v) \<subseteq> set (d @ vs)) \<and>
    set vs \<subseteq> (step_rel g)\<^sup>* `` set q"
  using assms(2-5)
proof (induction k arbitrary: d q)
  case 0
  have "length (d @ q) \<le> card (names g)"
    using 0(1,2) finite_names [OF assms(1)] by (metis card_mono distinct_card)
  then have "q = []" using 0(4) by (cases q) auto
  then show ?case using 0 by auto
next
  case (Suc k)
  show ?case
  proof (cases q)
    case Nil
    then show ?thesis using Suc.prems by auto
  next
    case (Cons v q')
    obtain new where new: "fold push_new (succs g v) (q', d @ v # q') = (q' @ new, (d @ v # q') @ new)"
      "distinct new" "set new = set (succs g v) - set (d @ v # q')"
      using push_new_fold [of "succs g v" q' "d @ v # q'"] by auto
    have v: "v \<in> names g" using Suc.prems(2) Cons by auto
    have "\<exists>vs. scan k (succs g) (q' @ new) ((d @ [v]) @ (q' @ new)) = Some vs \<and> distinct ((d @ [v]) @ vs) \<and>
      set (q' @ new) \<subseteq> set vs \<and> set vs \<subseteq> names g \<and>
      (\<forall>u \<in> set ((d @ [v]) @ vs). set (succs g u) \<subseteq> set ((d @ [v]) @ vs)) \<and>
      set vs \<subseteq> (step_rel g)\<^sup>* `` set (q' @ new)"
    proof (rule Suc.IH)
      show "distinct ((d @ [v]) @ q' @ new)" using Suc.prems(1) new Cons by auto
      show "set ((d @ [v]) @ q' @ new) \<subseteq> names g"
        using Suc.prems(2) new(3) succs_closed [OF assms(1) v] Cons by auto
      show "set (succs g u) \<subseteq> set ((d @ [v]) @ q' @ new)" if "u \<in> set (d @ [v])" for u
        using Suc.prems(3) [of u] that new(3) Cons by auto
      show "card (names g) \<le> k + length (d @ [v])" using Suc.prems(4) by simp
    qed
    then obtain vs where vs: "scan k (succs g) (q' @ new) (d @ v # q' @ new) = Some vs"
      "distinct (d @ v # vs)" "set (q' @ new) \<subseteq> set vs" "set vs \<subseteq> names g"
      "\<forall>u \<in> set (d @ v # vs). set (succs g u) \<subseteq> set (d @ v # vs)"
      "set vs \<subseteq> (step_rel g)\<^sup>* `` set (q' @ new)" by auto
    have "set vs \<subseteq> (step_rel g)\<^sup>* `` set q"
    proof
      fix u
      assume "u \<in> set vs"
      with vs(6) obtain w where w: "w \<in> set (q' @ new)" "(w, u) \<in> (step_rel g)\<^sup>*" by blast
      show "u \<in> (step_rel g)\<^sup>* `` set q"
      proof (cases "w \<in> set q'")
        case True
        then show ?thesis using w Cons by auto
      next
        case False
        then have "(v, w) \<in> step_rel g" using w(1) new(3) by auto
        then have "(v, u) \<in> (step_rel g)\<^sup>*" using w(2) by (rule converse_rtrancl_into_rtrancl)
        then show ?thesis using Cons by auto
      qed
    qed
    then show ?thesis
      using vs new(1) v Cons by (intro exI [of _ "v # vs"]) auto
  qed
qed

lemma closed_contains_reach:
  assumes "\<And>v. v \<in> S \<Longrightarrow> set (succs g v) \<subseteq> S" "u \<in> S" "(u, w) \<in> (step_rel g)\<^sup>*"
  shows "w \<in> S"
  using assms(3,2,1) by (induction rule: rtrancl_induct) auto

lemma scan_reach:
  assumes "ok g" "distinct q" "set q \<subseteq> names g" "card (names g) \<le> k"
  shows "\<exists>vs. scan k (succs g) q q = Some vs \<and> distinct vs \<and> set vs = (step_rel g)\<^sup>* `` set q"
proof -
  have "\<exists>vs. scan k (succs g) q ([] @ q) = Some vs \<and> distinct ([] @ vs) \<and> set q \<subseteq> set vs \<and>
    set vs \<subseteq> names g \<and> (\<forall>v \<in> set ([] @ vs). set (succs g v) \<subseteq> set ([] @ vs)) \<and>
    set vs \<subseteq> (step_rel g)\<^sup>* `` set q"
    by (rule scan_spec) (use assms in auto)
  then obtain vs where vs: "scan k (succs g) q q = Some vs" "distinct vs" "set q \<subseteq> set vs"
    "\<forall>v \<in> set vs. set (succs g v) \<subseteq> set vs" "set vs \<subseteq> (step_rel g)\<^sup>* `` set q" by auto
  have "(step_rel g)\<^sup>* `` set q \<subseteq> set vs"
    using closed_contains_reach [of "set vs" g] vs(3,4) by blast
  then show ?thesis using vs by blast
qed

text \<open>What one call of the depth-first search appends to the visited list.\<close>

definition appended :: "'g \<Rightarrow> 'n set \<Rightarrow> 'n list \<Rightarrow> 'n list \<Rightarrow> bool" where
  "appended g W b l \<longleftrightarrow> distinct l \<and> set l \<inter> set b = {} \<and> set l \<subseteq> names g \<and>
     (\<forall>x \<in> set l. set (succs g x) \<subseteq> set b \<union> set l) \<and> set l \<subseteq> (step_rel g)\<^sup>* `` W"

lemma appended_mono: "appended g W b l \<Longrightarrow> W \<subseteq> W' \<Longrightarrow> appended g W' b l"
  unfolding appended_def by (meson Image_mono order_refl subset_trans)

lemma search_fold:
  assumes "\<And>v b. v \<in> names g \<Longrightarrow> set b \<subseteq> names g \<Longrightarrow> card (names g - set (b @ [v])) < k \<Longrightarrow>
      \<exists>l. search k (succs g) v b = Some (b @ v # l) \<and> appended g (set (succs g v)) (b @ [v]) l \<and>
          set (succs g v) \<subseteq> set (b @ v # l)"
    and "ok g" "set ws \<subseteq> names g" "set b \<subseteq> names g" "card (names g - set b) \<le> k"
  shows "\<exists>l. fold (\<lambda>w r. case r of None \<Rightarrow> None
                 | Some b \<Rightarrow> if w \<in> set b then Some b else search k (succs g) w b) ws (Some b)
           = Some (b @ l) \<and> appended g (set ws) b l \<and> set ws \<subseteq> set (b @ l)"
  using assms(3-5)
proof (induction ws arbitrary: b)
  case Nil
  then show ?case by (simp add: appended_def)
next
  case (Cons w ws)
  show ?case
  proof (cases "w \<in> set b")
    case True
    obtain l where "fold (\<lambda>w r. case r of None \<Rightarrow> None
                 | Some b \<Rightarrow> if w \<in> set b then Some b else search k (succs g) w b) ws (Some b)
           = Some (b @ l)" "appended g (set ws) b l" "set ws \<subseteq> set (b @ l)"
      using Cons.IH [of b] Cons.prems by auto
    then show ?thesis using True appended_mono [of g "set ws" b l "set (w # ws)"] by auto
  next
    case False
    have fin: "finite (names g)" by (rule finite_names [OF assms(2)])
    have "card (names g - set (b @ [w])) < card (names g - set b)"
      by (rule psubset_card_mono) (use fin False Cons.prems(1) in auto)
    then obtain l1 where l1: "search k (succs g) w b = Some (b @ w # l1)"
      "appended g (set (succs g w)) (b @ [w]) l1" "set (succs g w) \<subseteq> set (b @ w # l1)"
      using assms(1) [of w b] Cons.prems by auto
    let ?b = "b @ w # l1"
    have "card (names g - set ?b) \<le> card (names g - set b)"
      by (rule card_mono) (use fin in auto)
    then obtain l2 where l2: "fold (\<lambda>w r. case r of None \<Rightarrow> None
                 | Some b \<Rightarrow> if w \<in> set b then Some b else search k (succs g) w b) ws (Some ?b)
           = Some (?b @ l2)" "appended g (set ws) ?b l2" "set ws \<subseteq> set (?b @ l2)"
      using Cons.IH [of ?b] Cons.prems l1(2) by (auto simp: appended_def)
    have "(step_rel g)\<^sup>* `` set (succs g w) \<subseteq> (step_rel g)\<^sup>* `` {w}"
      by (auto intro: converse_rtrancl_into_rtrancl)
    then have "set l1 \<subseteq> (step_rel g)\<^sup>* `` {w}"
      using l1(2) unfolding appended_def by (meson subset_trans)
    moreover have "set l2 \<subseteq> (step_rel g)\<^sup>* `` set ws" using l2(2) by (simp add: appended_def)
    ultimately have "set (w # l1 @ l2) \<subseteq> (step_rel g)\<^sup>* `` set (w # ws)"
      by (auto simp: Image_iff; blast)
    moreover have "distinct (w # l1 @ l2)" "set (w # l1 @ l2) \<inter> set b = {}" "set (w # l1 @ l2) \<subseteq> names g"
      "\<forall>x \<in> set (w # l1 @ l2). set (succs g x) \<subseteq> set b \<union> set (w # l1 @ l2)"
      using l1(2,3) l2(2) False Cons.prems(1) by (auto simp: appended_def)
    ultimately have "appended g (set (w # ws)) b (w # l1 @ l2)"
      unfolding appended_def by blast
    then show ?thesis
      using l1(1) l2(1,3) False by (intro exI [of _ "w # l1 @ l2"]) simp
  qed
qed

lemma search_spec:
  assumes "ok g"
  shows "v \<in> names g \<Longrightarrow> set b \<subseteq> names g \<Longrightarrow> card (names g - set (b @ [v])) < k \<Longrightarrow>
      \<exists>l. search k (succs g) v b = Some (b @ v # l) \<and> appended g (set (succs g v)) (b @ [v]) l \<and>
          set (succs g v) \<subseteq> set (b @ v # l)"
proof (induction k arbitrary: v b)
  case 0
  then show ?case by simp
next
  case (Suc k)
  have "\<exists>l. fold (\<lambda>w r. case r of None \<Rightarrow> None
                 | Some b \<Rightarrow> if w \<in> set b then Some b else search k (succs g) w b) (succs g v) (Some (b @ [v]))
           = Some ((b @ [v]) @ l) \<and> appended g (set (succs g v)) (b @ [v]) l \<and>
             set (succs g v) \<subseteq> set ((b @ [v]) @ l)"
    by (rule search_fold [OF Suc.IH assms]) (use Suc.prems succs_closed [OF assms] in auto)
  then show ?case by simp
qed

text \<open>
  The outer loop of the code, which does not look whether an input was visited before: with
  inputs that no vertex points to, every listed input is appended once for each listing, and
  every other reachable vertex once.
\<close>

lemma search_inputs:
  assumes "ok g" "set ins \<subseteq> names g" "\<And>v i. i \<in> set ins \<Longrightarrow> i \<notin> set (succs g v)"
    and "card (names g) \<le> k" "0 < k"
  shows "\<exists>b. foldE (\<lambda>v b. case search k (succs g) v b of None \<Rightarrow> Inl e | Some b' \<Rightarrow> Inr b') ins [] = Inr b \<and>
    (\<forall>x. count_list b x = (if x \<in> set ins then count_list ins x
                           else if x \<in> (step_rel g)\<^sup>* `` set ins then 1 else 0))"
proof -
  have fin: "finite (names g)" by (rule finite_names [OF assms(1)])
  define I where "I = (\<lambda>js b. set b \<subseteq> names g \<and> (\<forall>x \<in> set b. set (succs g x) \<subseteq> set b) \<and>
     set js \<subseteq> set b \<and> set b \<subseteq> (step_rel g)\<^sup>* `` set js \<and>
     (\<forall>x. count_list b x = (if x \<in> set ins then count_list js x else if x \<in> set b then 1 else 0)))"
  have "\<exists>b. foldE (\<lambda>v b. case search k (succs g) v b of None \<Rightarrow> Inl e | Some b' \<Rightarrow> Inr b') js [] = Inr b \<and> I js b"
    if "set js \<subseteq> set ins" for js
    using that
  proof (induction js rule: rev_induct)
    case Nil
    then show ?case by (simp add: I_def)
  next
    case (snoc v js)
    then obtain b where b: "foldE (\<lambda>v b. case search k (succs g) v b of None \<Rightarrow> Inl e | Some b' \<Rightarrow> Inr b') js [] = Inr b"
      "I js b" by auto
    have v: "v \<in> set ins" "v \<in> names g" using snoc.prems assms(2) by auto
    have "card (names g - set (b @ [v])) < card (names g)"
      by (rule psubset_card_mono) (use fin v(2) in auto)
    then obtain l where l: "search k (succs g) v b = Some (b @ v # l)"
      "appended g (set (succs g v)) (b @ [v]) l" "set (succs g v) \<subseteq> set (b @ v # l)"
      using search_spec [OF assms(1) v(2), of b k] b(2) assms(4) by (auto simp: I_def)
    have reach: "set l \<subseteq> (step_rel g)\<^sup>* `` {v}"
      using l(2) by (auto simp: appended_def intro: converse_rtrancl_into_rtrancl)
    have notin: "x \<notin> set l" if x: "x \<in> set ins" for x
    proof
      assume "x \<in> set l"
      then obtain w where "w \<in> set (succs g v)" "(w, x) \<in> (step_rel g)\<^sup>*" using l(2) by (auto simp: appended_def)
      then show False using assms(3) [OF x] by (auto elim: rtranclE)
    qed
    have cl: "count_list l x = (if x \<in> set l then 1 else 0)" for x
      using l(2) by (simp add: appended_def count_list_distinct)
    have "I (js @ [v]) (b @ v # l)"
      using b(2) l(2,3) v reach notin unfolding I_def
      by (auto simp: appended_def cl)
    then show ?case using b(1) l(1) by (simp add: foldE_append)
  qed
  from this [OF order_refl] obtain b where b: "foldE (\<lambda>v b. case search k (succs g) v b of None \<Rightarrow> Inl e | Some b' \<Rightarrow> Inr b') ins [] = Inr b"
    "I ins b" by auto
  have "set b = (step_rel g)\<^sup>* `` set ins"
  proof
    show "(step_rel g)\<^sup>* `` set ins \<subseteq> set b"
      using closed_contains_reach [of "set b" g] b(2) unfolding I_def by blast
  qed (use b(2) in \<open>simp add: I_def\<close>)
  with b show ?thesis unfolding I_def by metis
qed

end

section \<open>The graph container as a digraph\<close>

definition succs_of :: "('n, 'v, 'w) graph \<Rightarrow> 'n \<Rightarrow> 'n list" where
  "succs_of g v = map (\<lambda>i. arc_top (the (map_of (arcs g) i))) (out_its g v)"

lemma succs_of_deref:
  assumes "wf_graph g"
  shows "\<exists>as. mapE (deref g) (out_its g v) = Inr as \<and> map arc_top as = succs_of g v"
proof -
  have "mapE (deref g) (out_its g v) = Inr (map (\<lambda>i. the (map_of (arcs g) i)) (out_its g v))"
  proof (rule mapE_total)
    fix i
    assume "i \<in> set (out_its g v)"
    then obtain a where "(i, a) \<in> set (arcs g)" using wf_graphD(8) [OF assms] by blast
    then show "deref g i = Inr (the (map_of (arcs g) i))"
      using wf_graphD(2) [OF assms] by (simp add: deref_def)
  qed
  then show ?thesis by (simp add: succs_of_def)
qed

lemma succs_of_edges:
  assumes "wf_graph g"
  shows "w \<in> set (succs_of g v) \<Longrightarrow> (v, w) \<in> edges g"
    "linked g \<Longrightarrow> (v, w) \<in> edges g \<Longrightarrow> w \<in> set (succs_of g v)"
proof -
  note d = wf_graphD [OF assms]
  show "(v, w) \<in> edges g" if "w \<in> set (succs_of g v)"
  proof -
    obtain i where i: "i \<in> set (out_its g v)" "w = arc_top (the (map_of (arcs g) i))"
      using \<open>w \<in> set (succs_of g v)\<close> by (auto simp: succs_of_def)
    obtain a where a: "(i, a) \<in> set (arcs g)" "arc_bottom a = v" using d(8) [OF i(1)] by auto
    then show ?thesis using i(2) d(2) by (force simp: edges_def ends_def)
  qed
  show "w \<in> set (succs_of g v)" if l: "linked g" and e: "(v, w) \<in> edges g"
  proof -
    obtain i a where a: "(i, a) \<in> set (arcs g)" "arc_bottom a = v" "arc_top a = w"
      using e by (auto simp: edges_def ends_def)
    then have "i \<in> set (out_its g v)" using l by (auto simp: linked_def)
    then show ?thesis using a d(2) by (force simp: succs_of_def image_iff)
  qed
qed

interpretation code_graph: digraph wf_graph "\<lambda>g. set (vertex_names g)" succs_of
proof
  show "finite (set (vertex_names g))" if "wf_graph g" for g :: "('n, 'v, 'w) graph" by simp
  show "set (succs_of g v) \<subseteq> set (vertex_names g)" if "wf_graph g" "v \<in> set (vertex_names g)"
    for g :: "('n, 'v, 'w) graph" and v
    using succs_of_edges(1) [OF that(1), of _ v] wf_graphD(6) [OF that(1)]
    by (force simp: edges_def ends_def)
qed

lemma step_rel_edges: "wf_graph g \<Longrightarrow> linked g \<Longrightarrow> {(v, w). w \<in> set (succs_of g v)} = edges g"
  using succs_of_edges [of g] by auto

text \<open>The part of a graph that the traversals read: all but vertex contents and arc weights.\<close>

definition skel :: "('n, 'v, 'w) graph \<Rightarrow> 'n list \<times> (arc_id \<times> 'n \<times> 'n) list \<times>
    ('n \<Rightarrow> arc_id list) \<times> ('n \<Rightarrow> arc_id list) \<times> arc_id" where
  "skel g = (vertex_names g, map (\<lambda>(i, a). (i, ends a)) (arcs g), out_its g, in_its g, next_id g)"

lemma skel_arcs:
  assumes "skel h = skel g"
  shows "map fst (arcs h) = map fst (arcs g)" "map (ends \<circ> snd) (arcs h) = map (ends \<circ> snd) (arcs g)"
    "(i, a) \<in> set (arcs g) \<Longrightarrow> \<exists>b. (i, b) \<in> set (arcs h) \<and> ends b = ends a"
    "(i, b) \<in> set (arcs h) \<Longrightarrow> \<exists>a. (i, a) \<in> set (arcs g) \<and> ends b = ends a"
proof -
  have m: "map (\<lambda>(i, a). (i, ends a)) (arcs h) = map (\<lambda>(i, a). (i, ends a)) (arcs g)"
    using assms by (simp add: skel_def)
  have "map fst (map (\<lambda>(i, a). (i, ends a)) xs) = map fst xs"
    "map snd (map (\<lambda>(i, a). (i, ends a)) xs) = map (ends \<circ> snd) xs"
    for xs :: "(arc_id \<times> ('n, 'w) arc) list" by auto
  then show "map fst (arcs h) = map fst (arcs g)" "map (ends \<circ> snd) (arcs h) = map (ends \<circ> snd) (arcs g)"
    using m by metis+
  have s: "(\<lambda>(i, a). (i, ends a)) ` set (arcs h) = (\<lambda>(i, a). (i, ends a)) ` set (arcs g)"
    using arg_cong [OF m, of set] by simp
  show "\<exists>b. (i, b) \<in> set (arcs h) \<and> ends b = ends a" if "(i, a) \<in> set (arcs g)"
  proof -
    have "(i, ends a) \<in> (\<lambda>(i, a). (i, ends a)) ` set (arcs h)" using that unfolding s by force
    then show ?thesis by auto
  qed
  show "\<exists>a. (i, a) \<in> set (arcs g) \<and> ends b = ends a" if "(i, b) \<in> set (arcs h)"
  proof -
    have "(i, ends b) \<in> (\<lambda>(i, a). (i, ends a)) ` set (arcs g)" using that unfolding s [symmetric] by force
    then show ?thesis by auto
  qed
qed

lemma skel_wf_imp:
  assumes "skel h = skel g" "wf_graph g"
  shows "wf_graph h"
proof -
  note k = skel_arcs [OF assms(1)] and d = wf_graphD [OF assms(2)]
  have f: "vertex_names h = vertex_names g" "out_its h = out_its g" "in_its h = in_its g" "next_id h = next_id g"
    using assms(1) by (auto simp: skel_def)
  show ?thesis
  proof (rule wf_graphI)
    show "\<exists>b. (i, b) \<in> set (arcs h) \<and> arc_bottom b = v" if "i \<in> set (out_its h v)" for i v
      using d(8) [of i v] k(3) [of i] that by (fastforce simp: f ends_def)
    show "\<exists>b. (i, b) \<in> set (arcs h) \<and> arc_top b = v" if "i \<in> set (in_its h v)" for i v
      using d(10) [of i v] k(3) [of i] that by (fastforce simp: f ends_def)
    show "arc_bottom a \<in> set (vertex_names h) \<and> arc_top a \<in> set (vertex_names h)" if "(i, a) \<in> set (arcs h)" for i a
      using k(4) [OF that] d(5,6) by (auto simp: f ends_def)
    show "i < next_id h" if "(i, a) \<in> set (arcs h)" for i a
      using k(4) [OF that] d(3) by (auto simp: f)
  qed (use d(1,2,4,7,9) in \<open>auto simp: f k(1,2)\<close>)
qed

lemma skel_linked_imp:
  assumes "skel h = skel g" "linked g"
  shows "linked h"
proof -
  note k = skel_arcs [OF assms(1)]
  have f: "out_its h = out_its g" "in_its h = in_its g" using assms(1) by (auto simp: skel_def)
  show ?thesis
    unfolding linked_def
  proof (clarify, goal_cases)
    case (1 i b)
    then obtain a where "(i, a) \<in> set (arcs g)" "ends b = ends a" using k(4) by blast
    then show ?case using assms(2) by (auto simp: linked_def f ends_def)
  qed
qed

lemma skel_wf:
  assumes "skel h = skel g"
  shows "wf_graph h = wf_graph g" "linked h = linked g" "edges h = edges g"
proof -
  show "wf_graph h = wf_graph g" "linked h = linked g"
    using skel_wf_imp assms skel_linked_imp by metis+
  show "edges h = edges g"
    using arg_cong [OF skel_arcs(2) [OF assms], of set] by (simp add: edges_def)
qed

lemma skel_succs:
  assumes "skel h = skel g" "wf_graph g"
  shows "succs_of h v = succs_of g v"
proof -
  have "out_its h = out_its g" using assms(1) by (simp add: skel_def)
  moreover have "arc_top (the (map_of (arcs h) i)) = arc_top (the (map_of (arcs g) i))"
    if io: "i \<in> set (out_its g v)" for i
  proof -
    obtain a where a: "(i, a) \<in> set (arcs g)" using wf_graphD(8) [OF assms(2) io] by auto
    obtain b where b: "(i, b) \<in> set (arcs h)" "ends b = ends a" using skel_arcs(3) [OF assms(1) a] by auto
    have "wf_graph h" using skel_wf(1) [OF assms(1)] assms(2) by simp
    then show ?thesis using a b wf_graphD(2) [OF assms(2)] wf_graphD(2) [of h] by (simp add: ends_def)
  qed
  ultimately show ?thesis by (simp add: succs_of_def)
qed

lemma skel_ins:
  assumes "skel h = skel g"
  shows "get_graph_ins h = get_graph_ins g"
proof -
  have hv: "has_vertex h v = has_vertex g v" for v using assms by (simp add: has_vertex_iff skel_def)
  have f: "in_its h = in_its g" using assms by (simp add: skel_def)
  have ins: "get_graph_ins k = Inr (filter (\<lambda>v. has_vertex k v \<and> in_its k v = []) (map fst (map (ends \<circ> snd) (arcs k))))"
    for k :: "('n, 'v, 'w) graph"
    by (simp add: get_graph_ins_def ins_loop_total filter_map comp_def ends_def case_prod_unfold)
  show ?thesis unfolding ins skel_arcs(2) [OF assms] hv f ..
qed

end
