(* ===== verification/Traversal_Facts.thy ===== *)
theory Traversal_Facts
  imports Algorithm_Facts
begin

text \<open>
  The traversals of \<open>Graph_Algorithm\<close> on a well-formed graph: the breadth-first searches run
  the functor once for each reachable vertex (arc), the depth-first search once for each
  reachable vertex that is no input and once per out-arc for each input. Fuel of one unit for
  each vertex is enough.
\<close>

section \<open>Breadth-first search\<close>

text \<open>Running a functor over a list until it returns \<open>EXIT\<close>; the flag tells that it did.\<close>

fun run_exit :: "('x \<Rightarrow> 's \<Rightarrow> (status \<times> 's) outcome) \<Rightarrow> 'x list \<Rightarrow> 's \<Rightarrow> (bool \<times> 's) outcome" where
  "run_exit f [] s = Inr (False, s)"
| "run_exit f (x # xs) s =
     bindE (f x s) (\<lambda>(ret, s1). if ret = EXIT then Inr (True, s1) else run_exit f xs s1)"

lemma run_exit_append:
  "run_exit f (xs @ ys) s = bindE (run_exit f xs s) (\<lambda>(e, s1). if e then Inr (True, s1) else run_exit f ys s1)"
  by (induction xs arbitrary: s) (auto simp: bindE_def split: sum.splits)

lemma run_exit_no_status:
  "run_exit (no_status f) xs s = bindE (foldE f xs s) (\<lambda>t. Inr (False, t))"
  by (induction xs arbitrary: s) (auto simp: no_status_def bindE_def split: sum.splits)

text \<open>A functor keeps the shape of the graph: it may change vertex contents and arc weights.\<close>

definition keeps_skel :: "('s \<Rightarrow> ('n, 'v, 'w) graph) \<Rightarrow> ('x \<Rightarrow> 's \<Rightarrow> (status \<times> 's) outcome) \<Rightarrow> bool" where
  "keeps_skel view f \<longleftrightarrow> (\<forall>x s r t. f x s = Inr (r, t) \<longrightarrow> skel (view t) = skel (view s))"

lemma keeps_skelD: "keeps_skel view f \<Longrightarrow> f x s = Inr (r, t) \<Longrightarrow> skel (view t) = skel (view s)"
  unfolding keeps_skel_def by blast

lemma run_exit_skel: "keeps_skel view f \<Longrightarrow> run_exit f xs s = Inr (e, t) \<Longrightarrow> skel (view t) = skel (view s)"
  by (induction xs arbitrary: s) (auto split: if_splits dest!: keeps_skelD)

lemma vertex_at_names: "v \<in> set (vertex_names g) \<Longrightarrow> \<exists>x. vertex_at g v = Inr x"
  by (cases "map_of (vertices g) v") (auto simp: vertex_at_def vertex_names_def map_of_eq_None_iff)

lemma skel_deref_succs:
  assumes "skel h = skel g" "wf_graph g" "v \<in> set (vertex_names g)"
  shows "get_out_arc_its h v = Inr (out_its g v)"
    "\<exists>as. mapE (deref h) (out_its g v) = Inr as \<and> map arc_top as = succs_of g v"
proof -
  have h: "out_its h = out_its g" "vertex_names h = vertex_names g" using assms(1) by (auto simp: skel_def)
  then show "get_out_arc_its h v = Inr (out_its g v)"
    using assms(3) by (simp add: get_out_arc_its_def has_vertex_iff)
  show "\<exists>as. mapE (deref h) (out_its g v) = Inr as \<and> map arc_top as = succs_of g v"
    using succs_of_deref [of h v] skel_wf(1) [OF assms(1)] skel_succs [OF assms(1,2)] assms(2) h by simp
qed

lemma bfs_loop_scan:
  assumes "keeps_skel view f" "wf_graph g"
  shows "scan k (succs_of g) q b = Some vs \<Longrightarrow> set vs \<subseteq> set (vertex_names g) \<Longrightarrow> skel (view s) = skel g \<Longrightarrow>
    bfs_loop k view f q b s = bindE (run_exit f vs s) (\<lambda>(_, t). Inr t)"
proof (induction k arbitrary: q b s vs)
  case 0
  then show ?case by (cases q) auto
next
  case (Suc k)
  show ?case
  proof (cases q)
    case Nil
    then show ?thesis using Suc.prems by simp
  next
    case (Cons v q0)
    obtain q' b' where qb: "fold push_new (succs_of g v) (q0, b) = (q', b')"
      by (cases "fold push_new (succs_of g v) (q0, b)")
    then obtain us where us: "scan k (succs_of g) q' b' = Some us" "vs = v # us"
      using Suc.prems(1) Cons by auto
    have v: "v \<in> set (vertex_names g)" using Suc.prems(2) us by simp
    have "vertex_names (view s) = vertex_names g" using Suc.prems(3) by (simp add: skel_def)
    then obtain x where x: "vertex_at (view s) v = Inr x" using vertex_at_names v by metis
    show ?thesis
    proof (cases "f v s")
      case (Inl e)
      then show ?thesis using us x Cons by simp
    next
      case (Inr rt)
      obtain r t where rt: "rt = (r, t)" by (cases rt)
      have sk: "skel (view t) = skel g" using keeps_skelD [OF assms(1)] Inr rt Suc.prems(3) by metis
      obtain as where as: "mapE (deref (view t)) (out_its g v) = Inr as" "map arc_top as = succs_of g v"
        using skel_deref_succs(2) [OF sk assms(2) v] by blast
      have fold: "fold (\<lambda>a. push_new (arc_top a)) as (q0, b) = (q', b')"
        using qb fold_map [of push_new arc_top as] as(2) by (simp add: comp_def)
      have "bfs_loop k view f q' b' t = bindE (run_exit f us t) (\<lambda>(_, t). Inr t)"
        by (rule Suc.IH [OF us(1) _ sk]) (use Suc.prems(2) us in auto)
      then show ?thesis
        using us(2) x Inr rt skel_deref_succs(1) [OF sk assms(2) v] as(1) fold Cons by simp
    qed
  qed
qed

text \<open>The list of inputs that the searches start from.\<close>

lemma start_queue:
  "\<exists>q. fold push_new ins ([], []) = (q, q) \<and> distinct q \<and> set q = set ins"
  using push_new_fold [of ins "[]" "[]"] by auto

lemma edges_names:
  assumes "wf_graph g" "(u, v) \<in> edges g"
  shows "u \<in> set (vertex_names g)" "v \<in> set (vertex_names g)"
  using assms(2) wf_graphD(5,6) [OF assms(1)] by (auto simp: edges_def ends_def)

lemma reach_names:
  assumes "wf_graph g" "set ins \<subseteq> set (vertex_names g)"
  shows "(edges g)\<^sup>* `` set ins \<subseteq> set (vertex_names g)"
proof
  fix v
  assume "v \<in> (edges g)\<^sup>* `` set ins"
  then obtain u where "(u, v) \<in> (edges g)\<^sup>*" "u \<in> set ins" by auto
  then show "v \<in> set (vertex_names g)"
    using assms(2) edges_names(2) [OF assms(1)] by (cases rule: rtranclE) auto
qed

lemma ins_in_names:
  assumes "wf_graph g" "linked g" "get_graph_ins g = Inr ins"
  shows "set ins \<subseteq> set (vertex_names g)" "i \<in> set ins \<Longrightarrow> i \<notin> set (succs_of g v)"
  using get_graph_ins_spec(1) [OF assms] edges_names [OF assms(1)] succs_of_edges(1) [OF assms(1), of i v]
  by blast+

lemma visit_order:
  assumes "wf_graph g" "linked g" "get_graph_ins g = Inr ins" "graph_size g \<le> k"
  shows "\<exists>q vs. fold push_new ins ([], []) = (q, q) \<and> scan k (succs_of g) q q = Some vs \<and> distinct vs \<and>
    set vs = (edges g)\<^sup>* `` set ins \<and> set vs \<subseteq> set (vertex_names g)"
proof -
  obtain q where q: "fold push_new ins ([], []) = (q, q)" "distinct q" "set q = set ins"
    using start_queue by metis
  have "card (set (vertex_names g)) \<le> k"
    using assms(4) card_length [of "vertex_names g"] by (simp add: graph_size_def vertex_names_def)
  then obtain vs where vs: "scan k (succs_of g) q q = Some vs" "distinct vs" "set vs = (edges g)\<^sup>* `` set ins"
    using code_graph.scan_reach [OF assms(1) q(2)] ins_in_names(1) [OF assms(1-3)] q(3)
      step_rel_edges [OF assms(1,2)] by metis
  moreover have "set vs \<subseteq> set (vertex_names g)"
    using vs(3) reach_names [OF assms(1) ins_in_names(1) [OF assms(1-3)]] by simp
  ultimately show ?thesis using q(1) by blast
qed

lemma bfs_spec:
  assumes "keeps_skel view f" "wf_graph (view s)" "linked (view s)" "get_graph_ins (view s) = Inr ins"
    "ins \<noteq> []" "graph_size (view s) \<le> k"
  shows "\<exists>vs. distinct vs \<and> set vs = (edges (view s))\<^sup>* `` set ins \<and>
    bfs k view f s = bindE (run_exit f vs s) (\<lambda>(_, t). Inr t)"
proof -
  obtain q vs where q: "fold push_new ins ([], []) = (q, q)" "scan k (succs_of (view s)) q q = Some vs"
    "distinct vs" "set vs = (edges (view s))\<^sup>* `` set ins" "set vs \<subseteq> set (vertex_names (view s))"
    using visit_order [OF assms(2-4,6)] by metis
  have "bfs k view f s = bindE (run_exit f vs s) (\<lambda>(_, t). Inr t)"
    using bfs_loop_scan [OF assms(1,2) q(2,5)] assms(4,5) q(1) by (simp add: bfs_def)
  then show ?thesis using q(3,4) by blast
qed

lemma bfs_no_inputs: "get_graph_ins (view s) = Inr [] \<Longrightarrow> bfs k view f s = Inl CheckFailed"
  by (simp add: bfs_def)

lemma no_status_keeps:
  "(\<And>x s t. f x s = Inr t \<Longrightarrow> skel (view t) = skel (view s)) \<Longrightarrow> keeps_skel view (no_status f)"
  by (auto simp: keeps_skel_def no_status_def)

section \<open>Breadth-first search over arcs\<close>

lemma edge_loop_run:
  assumes "keeps_skel view f" "wf_graph g"
  shows "set is \<subseteq> fst ` set (arcs g) \<Longrightarrow> skel (view s) = skel g \<Longrightarrow>
    bindE (edge_loop view f is qb s) (\<lambda>(e, qb', t). if e then Inr t else K qb' t) =
    bindE (run_exit f is s) (\<lambda>(e, t). if e then Inr t
      else K (fold push_new (map (\<lambda>i. arc_top (the (map_of (arcs g) i))) is) qb) t)"
proof (induction "is" arbitrary: qb s)
  case Nil
  then show ?case by simp
next
  case (Cons i "is")
  obtain a where a: "(i, a) \<in> set (arcs g)" using Cons.prems(1) by auto
  have der: "\<exists>b. deref (view u) i = Inr b \<and> arc_top b = arc_top (the (map_of (arcs g) i))"
    if sk: "skel (view u) = skel g" for u
  proof -
    obtain b where b: "(i, b) \<in> set (arcs (view u))" "ends b = ends a" using skel_arcs(3) [OF sk a] by auto
    have "wf_graph (view u)" using skel_wf(1) [OF sk] assms(2) by simp
    then show ?thesis
      using a b wf_graphD(2) [OF assms(2)] wf_graphD(2) [of "view u"] by (simp add: deref_def ends_def)
  qed
  obtain b where b: "deref (view s) i = Inr b" using der [OF Cons.prems(2)] by auto
  show ?case
  proof (cases "f i s")
    case (Inl e)
    then show ?thesis using b by simp
  next
    case (Inr rt)
    obtain r t where rt: "rt = (r, t)" by (cases rt)
    have sk: "skel (view t) = skel g" using keeps_skelD [OF assms(1)] Inr rt Cons.prems(2) by metis
    obtain c where c: "deref (view t) i = Inr c" "arc_top c = arc_top (the (map_of (arcs g) i))"
      using der [OF sk] by auto
    show ?thesis
      using Cons.IH [OF _ sk] Cons.prems(1) b Inr rt c by (simp cong: if_cong)
  qed
qed

lemma bfs_edge_loop_scan:
  assumes "keeps_skel view f" "wf_graph g"
  shows "scan k (succs_of g) q b = Some vs \<Longrightarrow> set vs \<subseteq> set (vertex_names g) \<Longrightarrow> skel (view s) = skel g \<Longrightarrow>
    bfs_edge_loop k view f q b s = bindE (run_exit f (concat (map (out_its g) vs)) s) (\<lambda>(_, t). Inr t)"
proof (induction k arbitrary: q b s vs)
  case 0
  then show ?case by (cases q) auto
next
  case (Suc k)
  show ?case
  proof (cases q)
    case Nil
    then show ?thesis using Suc.prems by simp
  next
    case (Cons v q0)
    obtain q' b' where qb: "fold push_new (succs_of g v) (q0, b) = (q', b')"
      by (cases "fold push_new (succs_of g v) (q0, b)")
    then obtain us where us: "scan k (succs_of g) q' b' = Some us" "vs = v # us"
      using Suc.prems(1) Cons by auto
    have v: "v \<in> set (vertex_names g)" using Suc.prems(2) us by simp
    have "set (out_its g v) \<subseteq> fst ` set (arcs g)" using wf_graphD(8) [OF assms(2)] by force
    from edge_loop_run [OF assms this Suc.prems(3),
        of "(q0, b)" "\<lambda>(q, b) t. bfs_edge_loop k view f q b t"]
    have "bfs_edge_loop (Suc k) view f q b s = bindE (run_exit f (out_its g v) s)
      (\<lambda>(e, t). if e then Inr t else bfs_edge_loop k view f q' b' t)"
      using skel_deref_succs(1) [OF Suc.prems(3) assms(2) v] Cons qb
      by (simp add: succs_of_def [symmetric] case_prod_unfold cong: if_cong)
    also have "\<dots> = bindE (run_exit f (out_its g v) s) (\<lambda>(e, t). if e then Inr t
        else bindE (run_exit f (concat (map (out_its g) us)) t) (\<lambda>(_, t). Inr t))"
    proof (cases "run_exit f (out_its g v) s")
      case (Inr et)
      obtain e t where et: "et = (e, t)" by (cases et)
      have "skel (view t) = skel g" using run_exit_skel [OF assms(1)] Inr et Suc.prems(3) by metis
      then show ?thesis using Suc.IH [OF us(1)] Suc.prems(2) us(2) Inr et by auto
    qed simp
    also have "\<dots> = bindE (run_exit f (concat (map (out_its g) vs)) s) (\<lambda>(_, t). Inr t)"
      using us(2) by (simp add: run_exit_append bindE_assoc) (auto simp: bindE_def split: sum.splits)
    finally show ?thesis .
  qed
qed

text \<open>The arcs that leave a set of vertices, each once.\<close>

lemma out_arcs_of:
  assumes "wf_graph g" "linked g" "distinct vs"
  shows "distinct (concat (map (out_its g) vs))"
    "set (concat (map (out_its g) vs)) = {i. \<exists>a. (i, a) \<in> set (arcs g) \<and> arc_bottom a \<in> set vs}"
proof -
  note d = wf_graphD [OF assms(1)]
  have "v = w" if "i \<in> set (out_its g v)" "i \<in> set (out_its g w)" for i v w
    using d(8) [OF that(1)] d(8) [OF that(2)] id_unique [OF assms(1)] by metis
  then show "distinct (concat (map (out_its g) vs))"
    using assms(3) d(7) by (induction vs) force+
  have "i \<in> set (out_its g v) \<longleftrightarrow> (\<exists>a. (i, a) \<in> set (arcs g) \<and> arc_bottom a = v)" for i v
    using d(8) assms(2) by (fastforce simp: linked_def)
  then show "set (concat (map (out_its g) vs)) = {i. \<exists>a. (i, a) \<in> set (arcs g) \<and> arc_bottom a \<in> set vs}"
    by auto
qed

lemma bfs_edge_spec:
  assumes "keeps_skel view f" "wf_graph (view s)" "linked (view s)" "get_graph_ins (view s) = Inr ins"
    "ins \<noteq> []" "graph_size (view s) \<le> k"
  shows "\<exists>is. distinct is \<and>
    set is = {i. \<exists>a. (i, a) \<in> set (arcs (view s)) \<and> arc_bottom a \<in> (edges (view s))\<^sup>* `` set ins} \<and>
    bfs_edge k view f s = bindE (run_exit f is s) (\<lambda>(_, t). Inr t)"
proof -
  obtain q vs where q: "fold push_new ins ([], []) = (q, q)" "scan k (succs_of (view s)) q q = Some vs"
    "distinct vs" "set vs = (edges (view s))\<^sup>* `` set ins" "set vs \<subseteq> set (vertex_names (view s))"
    using visit_order [OF assms(2-4,6)] by metis
  have "bfs_edge k view f s = bindE (run_exit f (concat (map (out_its (view s)) vs)) s) (\<lambda>(_, t). Inr t)"
    using bfs_edge_loop_scan [OF assms(1,2) q(2,5)] assms(4,5) q(1) by (simp add: bfs_edge_def)
  then show ?thesis using out_arcs_of [OF assms(2,3) q(3)] unfolding q(4) by blast
qed

lemma drop_flag:
  "bindE (bindE (foldE f vs s) (\<lambda>t. Inr (False, t))) (\<lambda>(_, t). Inr t) = foldE f vs s"
  by (cases "foldE f vs s") auto

lemma bfs_void_spec:
  assumes "keeps_skel view (no_status f)" "wf_graph (view s)" "linked (view s)" "get_graph_ins (view s) = Inr ins"
    "ins \<noteq> []" "graph_size (view s) \<le> k"
  shows "\<exists>vs. distinct vs \<and> set vs = (edges (view s))\<^sup>* `` set ins \<and> bfs_void k view f s = foldE f vs s"
  using bfs_spec [OF assms] by (simp add: bfs_void_def run_exit_no_status drop_flag)

lemma bfs_edge_void_spec:
  assumes "keeps_skel view (no_status f)" "wf_graph (view s)" "linked (view s)" "get_graph_ins (view s) = Inr ins"
    "ins \<noteq> []" "graph_size (view s) \<le> k"
  shows "\<exists>is. distinct is \<and>
    set is = {i. \<exists>a. (i, a) \<in> set (arcs (view s)) \<and> arc_bottom a \<in> (edges (view s))\<^sup>* `` set ins} \<and>
    bfs_edge_void k view f s = foldE f is s"
  using bfs_edge_spec [OF assms] by (simp add: bfs_edge_void_def run_exit_no_status drop_flag)

section \<open>Depth-first search\<close>

lemma keeps_voidD: "keeps_skel view (no_status f) \<Longrightarrow> f x s = Inr t \<Longrightarrow> skel (view t) = skel (view s)"
  using keeps_skelD [of view "no_status f" x s OK t] by (simp add: no_status_def)

lemma dfs_search:
  assumes "keeps_skel view (no_status f)" and "wf_graph g"
  shows "search k (succs_of g) v b = Some b' \<Longrightarrow> v \<in> set (vertex_names g) \<Longrightarrow> skel (view s) = skel g \<Longrightarrow>
    \<exists>l. b' = b @ l \<and> dfs k view f v (b, s) = bindE (foldE f l s) (\<lambda>t. Inr (b', t))"
proof (induction k arbitrary: v b b' s)
  case 0
  then show ?case by simp
next
  case (Suc k)
  note pres = keeps_voidD [OF assms(1)]
  let ?F = "\<lambda>w r. case r of None \<Rightarrow> None | Some b \<Rightarrow> if w \<in> set b then Some b else search k (succs_of g) w b"
  let ?D = "\<lambda>i (b, t). bindE (deref (view t) i) (\<lambda>a.
              if arc_top a \<notin> set b then dfs k view f (arc_top a) (b, t) else Inr (b, t))"
  let ?top = "\<lambda>i. arc_top (the (map_of (arcs g) i))"
  have none: "fold ?F ws None = None" for ws by (induction ws) auto
  have inner: "\<exists>l. b' = b @ l \<and> foldE ?D is (b, s) = bindE (foldE f l s) (\<lambda>t. Inr (b', t))"
    if "fold ?F (map ?top is) (Some b) = Some b'" "set is \<subseteq> fst ` set (arcs g)" "skel (view s) = skel g"
    for "is" b s
    using that
  proof (induction "is" arbitrary: b s)
    case Nil
    then show ?case by simp
  next
    case (Cons i "is")
    obtain a where a: "(i, a) \<in> set (arcs g)" using Cons.prems(2) by auto
    obtain c where c: "(i, c) \<in> set (arcs (view s))" "ends c = ends a"
      using skel_arcs(3) [OF Cons.prems(3) a] by auto
    have wf: "wf_graph (view s)" using skel_wf(1) [OF Cons.prems(3)] assms(2) by simp
    have der: "deref (view s) i = Inr c" "arc_top c = ?top i"
      using a c wf_graphD(2) [OF assms(2)] wf_graphD(2) [OF wf] by (simp_all add: deref_def ends_def)
    have nm: "?top i \<in> set (vertex_names g)" using a wf_graphD(2,6) [OF assms(2)] by simp
    show ?case
    proof (cases "?top i \<in> set b")
      case True
      then show ?thesis using Cons.IH [of b s] Cons.prems der by simp
    next
      case False
      then obtain b1 where b1: "search k (succs_of g) (?top i) b = Some b1"
        "fold ?F (map ?top is) (Some b1) = Some b'"
        using Cons.prems(1) none by (cases "search k (succs_of g) (?top i) b") auto
      obtain l1 where l1: "b1 = b @ l1" "dfs k view f (?top i) (b, s) = bindE (foldE f l1 s) (\<lambda>t. Inr (b1, t))"
        using Suc.IH [OF b1(1) nm Cons.prems(3)] by auto
      show ?thesis
      proof (cases "foldE f l1 s")
        case (Inl e)
        obtain l where "b' = b1 @ l" using Cons.IH [OF b1(2) _ Cons.prems(3)] Cons.prems(2) by auto
        then show ?thesis using l1 Inl der False by (intro exI [of _ "l1 @ l"]) (simp add: foldE_append)
      next
        case (Inr t)
        have sk: "skel (view t) = skel g"
          by (rule foldE_invariant [OF Inr]) (use Cons.prems(3) keeps_voidD [OF assms(1)] in auto)
        then obtain l where "b' = b1 @ l" "foldE ?D is (b1, t) = bindE (foldE f l t) (\<lambda>t. Inr (b', t))"
          using Cons.IH [OF b1(2) _ sk] Cons.prems(2) by auto
        then show ?thesis using l1 Inr der False by (intro exI [of _ "l1 @ l"]) (simp add: foldE_append)
      qed
    qed
  qed
  have "vertex_names (view s) = vertex_names g" using Suc.prems(3) by (simp add: skel_def)
  then obtain x where x: "vertex_at (view s) v = Inr x" using vertex_at_names Suc.prems(2) by metis
  have f: "fold ?F (map ?top (out_its g v)) (Some (b @ [v])) = Some b'"
    using Suc.prems(1) by (simp add: succs_of_def [symmetric])
  have io: "set (out_its g v) \<subseteq> fst ` set (arcs g)" using wf_graphD(8) [OF assms(2)] by force
  show ?case
  proof (cases "f v s")
    case (Inl e)
    obtain l where "b' = (b @ [v]) @ l" using inner [OF f io Suc.prems(3)] by auto
    then show ?thesis using Inl x by (intro exI [of _ "v # l"]) simp
  next
    case (Inr t)
    have sk: "skel (view t) = skel g" using pres [OF Inr] Suc.prems(3) by simp
    obtain l where "b' = (b @ [v]) @ l" "foldE ?D (out_its g v) (b @ [v], t) = bindE (foldE f l t) (\<lambda>t. Inr (b', t))"
      using inner [OF f io sk] by auto
    then show ?thesis
      using Inr x skel_deref_succs(1) [OF sk assms(2) Suc.prems(2)] by (intro exI [of _ "v # l"]) simp
  qed
qed

lemma dfs_inputs:
  assumes "keeps_skel view (no_status f)" and "wf_graph g"
  shows "foldE (\<lambda>v b. case search k (succs_of g) v b of None \<Rightarrow> Inl e | Some b' \<Rightarrow> Inr b') ins b = Inr b' \<Longrightarrow>
    set ins \<subseteq> set (vertex_names g) \<Longrightarrow> skel (view s) = skel g \<Longrightarrow>
    \<exists>l. b' = b @ l \<and> foldE (dfs k view f) ins (b, s) = bindE (foldE f l s) (\<lambda>t. Inr (b', t))"
proof (induction ins arbitrary: b s)
  case Nil
  then show ?case by simp
next
  case (Cons v ins)
  then obtain b1 where b1: "search k (succs_of g) v b = Some b1"
    "foldE (\<lambda>v b. case search k (succs_of g) v b of None \<Rightarrow> Inl e | Some b' \<Rightarrow> Inr b') ins b1 = Inr b'"
    by (auto split: option.splits)
  obtain l1 where l1: "b1 = b @ l1" "dfs k view f v (b, s) = bindE (foldE f l1 s) (\<lambda>t. Inr (b1, t))"
    using dfs_search [OF assms b1(1)] Cons.prems(2,3) by auto
  show ?case
  proof (cases "foldE f l1 s")
    case (Inl e)
    obtain l where "b' = b1 @ l" using Cons.IH [OF b1(2) _ Cons.prems(3)] Cons.prems(2) by auto
    then show ?thesis using l1 Inl by (intro exI [of _ "l1 @ l"]) (simp add: foldE_append)
  next
    case (Inr t)
    have sk: "skel (view t) = skel g"
      by (rule foldE_invariant [OF Inr]) (use Cons.prems(3) keeps_voidD [OF assms(1)] in auto)
    then obtain l where "b' = b1 @ l" "foldE (dfs k view f) ins (b1, t) = bindE (foldE f l t) (\<lambda>t. Inr (b', t))"
      using Cons.IH [OF b1(2) _ sk] Cons.prems(2) by auto
    then show ?thesis using l1 Inr by (intro exI [of _ "l1 @ l"]) (simp add: foldE_append)
  qed
qed

lemma dfs_void_spec:
  assumes "keeps_skel view (no_status f)" and "wf_graph (view s)" "linked (view s)" "get_graph_ins (view s) = Inr ins" "ins \<noteq> []"
    and "graph_size (view s) \<le> k"
  shows "\<exists>vs. dfs_void k view f s = foldE f vs s \<and>
    (\<forall>v. count_list vs v = (if v \<in> set ins then count_list ins v
                            else if v \<in> (edges (view s))\<^sup>* `` set ins then 1 else 0))"
proof -
  note nm = ins_in_names [OF assms(2-4)]
  have "card (set (vertex_names (view s))) \<le> k"
    using assms(6) card_length [of "vertex_names (view s)"] by (simp add: graph_size_def vertex_names_def)
  moreover have "0 < k"
    using assms(5,6) nm(1) by (cases ins) (auto simp: graph_size_def vertex_names_def intro!: gr0I)
  ultimately obtain b where b:
    "foldE (\<lambda>v b. case search k (succs_of (view s)) v b of None \<Rightarrow> Inl OutOfFuel | Some b' \<Rightarrow> Inr b') ins [] = Inr b"
    "\<forall>v. count_list b v = (if v \<in> set ins then count_list ins v
                            else if v \<in> {(v, w). w \<in> set (succs_of (view s) v)}\<^sup>* `` set ins then 1 else 0)"
    using code_graph.search_inputs [OF assms(2) nm, where e = OutOfFuel] by blast
  obtain l where "b = [] @ l" "foldE (dfs k view f) ins ([], s) = bindE (foldE f l s) (\<lambda>t. Inr (b, t))"
    using dfs_inputs [OF assms(1,2) b(1) nm(1)] by auto
  then have "dfs_void k view f s = foldE f b s"
    using assms(4,5) by (cases "foldE f b s") (simp_all add: dfs_void_def)
  then show ?thesis using b(2) unfolding step_rel_edges [OF assms(2,3)] by blast
qed

end
