(* ===== verification/Graph_Properties.thy ===== *)
theory Graph_Properties
  imports Traversal_Facts
begin

text \<open>The properties of the graph container and of its traversals, with a small graph for the witnesses.\<close>

text \<open>A graph for the witnesses: the arcs 0 to 1, 1 to 2 and 0 to 2.\<close>

definition demo_graph :: "(int, unit, unit) graph" where
  "demo_graph = \<lparr>vertices = [(0, ()), (1, ()), (2, ())],
     arcs = [(0, \<lparr>arc_bottom = 0, arc_top = 1, weight = ()\<rparr>), (1, \<lparr>arc_bottom = 1, arc_top = 2, weight = ()\<rparr>),
             (2, \<lparr>arc_bottom = 0, arc_top = 2, weight = ()\<rparr>)],
     out_its = (\<lambda>v. if v = 0 then [0, 2] else if v = 1 then [1] else []),
     in_its = (\<lambda>v. if v = 1 then [0] else if v = 2 then [1, 2] else []), next_id = 3\<rparr>"

lemma demo_graph_wf: "wf_graph demo_graph" "linked demo_graph"
  by (auto simp: wf_graph_def linked_def demo_graph_def vertex_names_def ends_def)

lemma demo_graph_edges: "edges demo_graph = {(0, 1), (1, 2), (0, 2)}"
  by (auto simp: edges_def ends_def demo_graph_def)

lemma demo_graph_ins: "get_graph_ins demo_graph = Inr [0, 0]"
  by (simp add: demo_graph_def get_graph_ins_def get_in_arc_its_def has_vertex_def)

text \<open>C38: Adding an arc the way the code does (\<open>add_in_arc\<close>, then \<open>add_out_arc\<close>) to a well-formed graph
  whose arcs are all listed at both ends keeps both properties, leaves the vertices as they are and adds
  exactly the pair of its ends to the edge relation; an arc that is there already is not duplicated.\<close>

theorem add_arc_keeps_graph:
  assumes "wf_graph g" "linked g" "bindE (add_in_arc a g) (add_out_arc a) = Inr g'"
  shows "wf_graph g' \<and> linked g' \<and> edges g' = insert (ends a) (edges g) \<and> vertices g' = vertices g"
  using connect_wf [OF assms(1,2)] assms(3) by (simp add: connect_def)

theorem add_arc_keeps_graph_witness:
  "\<exists>g'. bindE (add_in_arc \<lparr>arc_bottom = 2, arc_top = 0, weight = ()\<rparr> demo_graph)
          (add_out_arc \<lparr>arc_bottom = 2, arc_top = 0, weight = ()\<rparr>) = Inr g' \<and> (2, 0) \<in> edges g' \<and> wf_graph g'"
proof -
  let ?a = "\<lparr>arc_bottom = 2, arc_top = 0, weight = ()\<rparr>"
  obtain g' where "bindE (add_in_arc ?a demo_graph) (add_out_arc ?a) = Inr g'"
    by (simp add: demo_graph_def add_in_arc_def add_out_arc_def push_arc_def has_arc_def find_arc_def has_vertex_def)
  then show ?thesis
    using add_arc_keeps_graph [OF demo_graph_wf, of ?a] by (auto simp: ends_def)
qed

text \<open>C37: \<open>GraphBase::remove\<close> of a vertex without an arc to itself returns, keeps the graph well-formed, and
  removes exactly the vertex and the arcs that start or end at it.\<close>

theorem remove_vertex_correct:
  assumes "wf_graph g" "linked g" "has_vertex g v" "(v, v) \<notin> edges g"
  shows "\<exists>g'. remove_vertex v g = Inr g' \<and> wf_graph g' \<and> linked g' \<and>
    set (vertex_names g') = set (vertex_names g) - {v} \<and> edges g' = {(b, t) \<in> edges g. b \<noteq> v \<and> t \<noteq> v}"
  using remove_vertex_spec [OF assms] remove_vertex_wf [OF assms(1,2,4)] by blast

theorem remove_vertex_correct_witness:
  "\<exists>g'. remove_vertex 1 demo_graph = Inr g' \<and> edges g' = {(0, 2)}"
proof -
  have "has_vertex demo_graph 1" "(1, 1) \<notin> edges demo_graph"
    by (simp_all add: demo_graph_edges) (simp add: demo_graph_def has_vertex_def)
  then obtain g' where "remove_vertex 1 demo_graph = Inr g'" "edges g' = {(b, t) \<in> edges demo_graph. b \<noteq> 1 \<and> t \<noteq> 1}"
    using remove_vertex_correct [OF demo_graph_wf, of 1] by blast
  moreover have "{(b, t) \<in> edges demo_graph. b \<noteq> 1 \<and> t \<noteq> 1} = {(0, 2)}"
    unfolding demo_graph_edges by auto
  ultimately show ?thesis by simp
qed

text \<open>On a vertex with an arc to itself \<open>GraphBase::remove\<close> reads an arc through an iterator that
  it has already erased.\<close>

lemma remove_vertex_self_loop_dangles:
  assumes "wf_graph g" "linked g" "(v, v) \<in> edges g"
  shows "remove_vertex v g = Inl DanglingDeref"
  by (rule remove_self_loop [OF assms])

definition loop_graph :: "(int, unit, unit) graph" where
  "loop_graph = \<lparr>vertices = [(0, ())], arcs = [(0, \<lparr>arc_bottom = 0, arc_top = 0, weight = ()\<rparr>)],
     out_its = (\<lambda>v. if v = 0 then [0] else []), in_its = (\<lambda>v. if v = 0 then [0] else []), next_id = 1\<rparr>"

lemma remove_vertex_self_loop_dangles_witness: "remove_vertex 0 loop_graph = Inl DanglingDeref"
  by (rule remove_vertex_self_loop_dangles)
    (auto simp: wf_graph_def linked_def edges_def loop_graph_def vertex_names_def ends_def)

text \<open>\<open>GraphBase::remove_byio\<close> of an arc of the graph always reads an erased arc: it erases the list
  node first and then compares through the iterators that still refer to it.\<close>

lemma remove_byio_reads_erased_arc:
  assumes "wf_graph g" "linked g" "(b, t) \<in> edges g"
  shows "remove_byio b t g = Inl DanglingDeref"
  by (rule remove_byio_dangles [OF assms])

lemma remove_byio_reads_erased_arc_witness: "remove_byio 0 1 demo_graph = Inl DanglingDeref"
  using remove_byio_reads_erased_arc [OF demo_graph_wf] by (simp add: demo_graph_edges)

text \<open>C39: The breadth-first search over vertices, with one unit of fuel for each vertex, runs a functor that
  keeps the arcs exactly once on each vertex that the inputs reach, in some order, and stops after the
  first call that returns \<open>EXIT\<close>.\<close>

theorem bfs_visits_reachable_once:
  assumes "keeps_skel view f" "wf_graph (view s)" "linked (view s)" "get_graph_ins (view s) = Inr ins"
    "ins \<noteq> []" "graph_size (view s) \<le> k"
  shows "\<exists>vs. distinct vs \<and> set vs = (edges (view s))\<^sup>* `` set ins \<and>
    bfs k view f s = bindE (run_exit f vs s) (\<lambda>(_, t). Inr t)"
  by (rule bfs_spec [OF assms])

definition collect :: "'x \<Rightarrow> (int, unit, unit) graph \<times> 'x list \<Rightarrow> (status \<times> (int, unit, unit) graph \<times> 'x list) outcome" where
  "collect x = (\<lambda>(g, l). Inr (OK, (g, l @ [x])))"

lemma collect_keeps: "keeps_skel fst collect"
  by (auto simp: keeps_skel_def collect_def)

theorem bfs_visits_reachable_once_witness:
  "\<exists>vs. distinct vs \<and> set vs = (edges demo_graph)\<^sup>* `` {0} \<and>
    bfs 3 fst collect (demo_graph, []) = bindE (run_exit collect vs (demo_graph, [])) (\<lambda>(_, t). Inr t)"
  using bfs_visits_reachable_once [OF collect_keeps, of "(demo_graph, [])" "[0, 0]" 3] demo_graph_wf demo_graph_ins
  by (simp add: graph_size_def demo_graph_def)

text \<open>C40: The breadth-first search over arcs runs a functor exactly once on each arc whose bottom the inputs
  reach, and stops after the first call that returns \<open>EXIT\<close>.\<close>

theorem bfs_edge_visits_arcs_once:
  assumes "keeps_skel view f" "wf_graph (view s)" "linked (view s)" "get_graph_ins (view s) = Inr ins"
    "ins \<noteq> []" "graph_size (view s) \<le> k"
  shows "\<exists>is. distinct is \<and>
    set is = {i. \<exists>a. (i, a) \<in> set (arcs (view s)) \<and> arc_bottom a \<in> (edges (view s))\<^sup>* `` set ins} \<and>
    bfs_edge k view f s = bindE (run_exit f is s) (\<lambda>(_, t). Inr t)"
  by (rule bfs_edge_spec [OF assms])

theorem bfs_edge_visits_arcs_once_witness:
  "\<exists>is. distinct is \<and> bfs_edge 3 fst collect (demo_graph, []) = bindE (run_exit collect is (demo_graph, [])) (\<lambda>(_, t). Inr t)"
  using bfs_edge_visits_arcs_once [OF collect_keeps, of "(demo_graph, [])" "[0, 0]" 3] demo_graph_wf demo_graph_ins
  by (auto simp: graph_size_def demo_graph_def)

text \<open>The depth-first search runs a functor once on each reachable vertex that is no input, but on an
  input once for each of its out-arcs: \<open>get_graph_ins\<close> lists an input once for each out-arc and \<open>_DFS\<close>
  does not look whether it was visited.\<close>

lemma dfs_repeats_inputs:
  assumes "keeps_skel view (no_status f)" "wf_graph (view s)" "linked (view s)"
    "get_graph_ins (view s) = Inr ins" "ins \<noteq> []" "graph_size (view s) \<le> k"
  shows "\<exists>vs. dfs_void k view f s = foldE f vs s \<and>
    (\<forall>v. count_list vs v = (if v \<in> set ins then card {t. (v, t) \<in> edges (view s)}
                            else if v \<in> (edges (view s))\<^sup>* `` set ins then 1 else 0))"
proof -
  have "count_list ins v = card {t. (v, t) \<in> edges (view s)}" if "v \<in> set ins" for v
    using get_graph_ins_spec [OF assms(2-4)] that by simp
  then show ?thesis using dfs_void_spec [OF assms] by metis
qed

lemma dfs_repeats_inputs_witness:
  "\<exists>vs. dfs_void 3 fst (\<lambda>v (g, l). Inr (g, l @ [v])) (demo_graph, []) = foldE (\<lambda>v (g, l). Inr (g, l @ [v])) vs (demo_graph, []) \<and>
     count_list vs 0 = 2"
proof -
  have k: "keeps_skel fst (no_status (\<lambda>v (g, l). Inr (g, l @ [v])))"
    by (auto simp: keeps_skel_def no_status_def)
  have "{t. (0, t) \<in> edges demo_graph} = {1, 2}" by (auto simp: demo_graph_edges)
  then have "card {t. (0, t) \<in> edges demo_graph} = 2" by simp
  then show ?thesis
    using dfs_repeats_inputs [OF k, of "(demo_graph, [])" "[0, 0]" 3] demo_graph_wf demo_graph_ins
    by (fastforce simp: graph_size_def demo_graph_def)
qed

end
