(* ===== verification/Virtual_Graph.thy ===== *)
theory Virtual_Graph
  imports Graph_Algorithm "HOL-Library.AList"
begin

text \<open>
  The virtual graph that the optimisers work on: \<open>framework/graph/llvm/virtual_graph.h\<close> and
  \<open>virtual_graph.cpp\<close>, with the enumerations of \<open>framework/graph/llvm/base.h\<close>. A \<open>VGraph\<close> is a
  \<open>GraphBase\<close> whose vertices are \<open>node\<close>s and whose arcs carry an \<open>io\<close>, the edge tensor.
\<close>

section \<open>Data\<close>

datatype op_type =
  NONE | ADD | SUB | MUL | DIV | MOD | MIN_OP | MAX_OP | CONV | DCONV | RELU | FULL_CONNECT | POOLING |
  EMBEDDING | RNN | BATCHNORM | TOPK | REVERSE

fun op_type_value :: "op_type \<Rightarrow> int" where
  "op_type_value NONE = -20"
| "op_type_value ADD = -7"
| "op_type_value SUB = -6"
| "op_type_value MUL = -5"
| "op_type_value DIV = -4"
| "op_type_value MOD = -3"
| "op_type_value MIN_OP = -2"
| "op_type_value MAX_OP = -1"
| "op_type_value CONV = 1"
| "op_type_value DCONV = 2"
| "op_type_value RELU = 3"
| "op_type_value FULL_CONNECT = 4"
| "op_type_value POOLING = 5"
| "op_type_value EMBEDDING = 6"
| "op_type_value RNN = 7"
| "op_type_value BATCHNORM = 8"
| "op_type_value TOPK = 9"
| "op_type_value REVERSE = 10"

datatype op_property = assemble | scatter | mutli_io

text \<open>The tensor on an arc. Two are equal for the code when their names are.\<close>

record io =
  io_name :: string
  shared :: bool
  share_from :: string
  io_lane :: int
  io_shape :: "int list"

definition io_default :: io where
  "io_default = \<lparr>io_name = '''', shared = False, share_from = '''', io_lane = 0, io_shape = []\<rparr>"

definition io_eq :: "io \<Rightarrow> io \<Rightarrow> bool" where
  "io_eq a b = (io_name a = io_name b)"

definition io_neq :: "io \<Rightarrow> io \<Rightarrow> bool" where
  "io_neq a b = (io_name a \<noteq> io_name b)"

definition io_size :: "io \<Rightarrow> nat" where
  "io_size x = length (io_shape x)"

definition io_to_string :: "io \<Rightarrow> string" where
  "io_to_string x = (if shared x then io_name x @ '' shared_from: '' @ share_from x else io_name x @ '' not_shared'')"

text \<open>
  \<open>functorName\<close> and \<open>property\<close> have no initializer and no copy of a node sets them:
  \<open>None\<close> stands for the indeterminate value.
\<close>

datatype node = Node (node_name: string) (op_name: string) (functor_name: "op_type option")
  (property: "op_property option") (merge_nodes: "node list") (idx_keep: "int list")
  (merge_node_names: "string list") (lane: int) (need_wait: bool)

definition node_default :: node where
  "node_default = Node '''' '''' None None [] [] [] 0 False"

text \<open>\<open>operator!=\<close> returns what \<open>operator==\<close> returns.\<close>

definition node_eq :: "node \<Rightarrow> node \<Rightarrow> bool" where
  "node_eq a b = (node_name a = node_name b)"

definition node_neq :: "node \<Rightarrow> node \<Rightarrow> bool" where
  "node_neq a b = node_eq a b"

text \<open>The copy constructor, which the vectors use for their elements too.\<close>

primrec node_copy :: "node \<Rightarrow> node" where
  "node_copy (Node n op fn pr ms ks mns l w) = Node n op None None (map node_copy ms) [] mns 0 False"

definition node_assign :: "node \<Rightarrow> node \<Rightarrow> node" where
  "node_assign a b = Node (node_name b) (op_name b) (functor_name a) (property a)
     (map node_copy (merge_nodes b)) (idx_keep a) (merge_node_names b) (lane a) (need_wait a)"

fun node_add :: "node \<Rightarrow> node \<Rightarrow> node" where
  "node_add (Node n op fn pr ms ks mns l w) b = Node n op fn pr (ms @ [node_copy b]) ks mns l w"

fun register_keep :: "int \<Rightarrow> node \<Rightarrow> node" where
  "register_keep i (Node n op fn pr ms ks mns l w) = Node n op fn pr ms (ks @ [i]) mns l w"

fun push_merge_name :: "string \<Rightarrow> node \<Rightarrow> node" where
  "push_merge_name x (Node n op fn pr ms ks mns l w) = Node n op fn pr ms ks (mns @ [x]) l w"

fun set_op_name :: "string \<Rightarrow> node \<Rightarrow> node" where
  "set_op_name x (Node n op fn pr ms ks mns l w) = Node n x fn pr ms ks mns l w"

fun clear_merge :: "node \<Rightarrow> node" where
  "clear_merge (Node n op fn pr ms ks mns l w) = Node n op fn pr [] ks [] l w"

fun set_lane :: "int \<Rightarrow> node \<Rightarrow> node" where
  "set_lane x (Node n op fn pr ms ks mns l w) = Node n op fn pr ms ks mns x w"

fun set_need_wait :: "bool \<Rightarrow> node \<Rightarrow> node" where
  "set_need_wait x (Node n op fn pr ms ks mns l w) = Node n op fn pr ms ks mns l x"

record vgraph =
  vg :: "(string, node, io) graph"
  registed_outs :: "(string \<times> string) list"
  nodes_exec_order :: "string list"
  fusion_edge_map :: "(string \<times> string) list"

definition empty_vgraph :: vgraph where
  "empty_vgraph = \<lparr>vg = empty_graph, registed_outs = [], nodes_exec_order = [], fusion_edge_map = []\<rparr>"

section \<open>Access\<close>

text \<open>The weights of the arcs that a list of iterators refers to.\<close>

definition weights_of :: "vgraph \<Rightarrow> arc_id list \<Rightarrow> io list outcome" where
  "weights_of G is = mapE (\<lambda>i. bindE (deref (vg G) i) (\<lambda>a. Inr (weight a))) is"

definition in_weights :: "vgraph \<Rightarrow> string \<Rightarrow> io list outcome" where
  "in_weights G v = bindE (get_in_arc_its (vg G) v) (weights_of G)"

definition out_weights :: "vgraph \<Rightarrow> string \<Rightarrow> io list outcome" where
  "out_weights G v = bindE (get_out_arc_its (vg G) v) (weights_of G)"

definition set_weight :: "arc_id \<Rightarrow> (io \<Rightarrow> io) \<Rightarrow> vgraph \<Rightarrow> vgraph" where
  "set_weight i f G = G\<lparr>vg := map_arc i (\<lambda>a. a\<lparr>weight := f (weight a)\<rparr>) (vg G)\<rparr>"

text \<open>A change through the reference that \<open>(*vgraph)[name]\<close> returns.\<close>

definition upd_node :: "string \<Rightarrow> (node \<Rightarrow> node) \<Rightarrow> vgraph \<Rightarrow> vgraph outcome" where
  "upd_node v f G = bindE (vertex_at (vg G) v) (\<lambda>n. Inr (G\<lparr>vg := set_vertex v (f n) (vg G)\<rparr>))"

definition has_exec_order :: "vgraph \<Rightarrow> bool" where
  "has_exec_order G = (if length (nodes_exec_order G) = 0 then False else True)"

definition set_exec_order :: "string list \<Rightarrow> vgraph \<Rightarrow> vgraph" where
  "set_exec_order ns G = G\<lparr>nodes_exec_order := ns\<rparr>"

definition add_fusion_edge_map :: "string \<Rightarrow> string \<Rightarrow> vgraph \<Rightarrow> vgraph" where
  "add_fusion_edge_map new_e old_e G = G\<lparr>fusion_edge_map := AList.update new_e old_e (fusion_edge_map G)\<rparr>"

definition get_fusion_old_edge :: "vgraph \<Rightarrow> string \<Rightarrow> string" where
  "get_fusion_old_edge G new_e = (case map_of (fusion_edge_map G) new_e of Some e \<Rightarrow> e | None \<Rightarrow> '''')"

section \<open>The scanner\<close>

text \<open>
  \<open>Scanner->BFS\<close> and \<open>Scanner->BFS_Edge\<close> run with one unit of fuel for each vertex, which
  the traversals never exceed (they put a vertex in the queue once).
\<close>

definition scan_nodes :: "('s \<Rightarrow> vgraph) \<Rightarrow> (string \<Rightarrow> 's \<Rightarrow> 's outcome) \<Rightarrow> 's \<Rightarrow> 's outcome" where
  "scan_nodes view f s = bfs_void (graph_size (vg (view s))) (vg \<circ> view) f s"

definition scan_edges :: "('s \<Rightarrow> vgraph) \<Rightarrow> (arc_id \<Rightarrow> 's \<Rightarrow> 's outcome) \<Rightarrow> 's \<Rightarrow> 's outcome" where
  "scan_edges view f s = bfs_edge_void (graph_size (vg (view s))) (vg \<circ> view) f s"

definition scan_edges_until :: "('s \<Rightarrow> vgraph) \<Rightarrow> (arc_id \<Rightarrow> 's \<Rightarrow> (status \<times> 's) outcome) \<Rightarrow> 's \<Rightarrow> 's outcome" where
  "scan_edges_until view f s = bfs_edge (graph_size (vg (view s))) (vg \<circ> view) f s"

section \<open>Registered outputs and reachability\<close>

definition check_pass :: "vgraph \<Rightarrow> string \<Rightarrow> string \<Rightarrow> bool" where
  "check_pass G b t = (if (b, t) \<in> set (registed_outs G) then False else True)"

definition register_outs :: "string \<Rightarrow> string \<Rightarrow> vgraph \<Rightarrow> vgraph" where
  "register_outs b t G =
     (if check_pass G b t then G\<lparr>registed_outs := registed_outs G @ [(b, t)]\<rparr> else G)"

text \<open>The recursion of \<open>check_accessible\<close> marks no vertices: the fuel bounds its depth.\<close>

fun check_accessible :: "nat \<Rightarrow> vgraph \<Rightarrow> string \<Rightarrow> string \<Rightarrow> bool outcome"
  and accessible_loop :: "nat \<Rightarrow> vgraph \<Rightarrow> arc_id list \<Rightarrow> string \<Rightarrow> bool outcome" where
  "check_accessible 0 G b t = Inl OutOfFuel"
| "check_accessible (Suc k) G b t =
     (if \<not> check_pass G b t \<or> b = t then Inr True
      else bindE (get_out_arc_its (vg G) b) (\<lambda>its. accessible_loop k G its t))"
| "accessible_loop k G [] t = Inr False"
| "accessible_loop k G (i # is) t =
     bindE (deref (vg G) i) (\<lambda>a.
     bindE (vertex_at (vg G) (arc_top a)) (\<lambda>n.
     bindE (check_accessible k G (node_name n) t) (\<lambda>r.
     if r then Inr True else accessible_loop k G is t)))"

lemma flag_grows: "has_vertex g v \<Longrightarrow> v \<notin> F \<Longrightarrow> card (set (vertex_names g) - insert v F) < card (set (vertex_names g) - F)"
  by (rule psubset_card_mono) (auto simp: has_vertex_def vertex_names_def map_of_eq_None_iff)

text \<open>
  The while loop of \<open>connect_table\<close> over the stack \<open>stk\<close>, whose top is the head of the list. It
  needs no fuel: a popped vertex is in \<open>flag\<close> already or is added to it.
\<close>

function connect_loop :: "vgraph \<Rightarrow> string \<Rightarrow> string list \<Rightarrow> string list \<Rightarrow>
    (string \<times> string \<Rightarrow> int option) \<Rightarrow> (string \<times> string \<Rightarrow> int option) outcome" where
  "connect_loop G src [] flag table = Inr table"
| "connect_loop G src (topname # stk) flag table =
     (if topname \<in> set flag then connect_loop G src stk flag table
      else
        bindE (get_out_arc_its (vg G) topname) (\<lambda>its.
        bindE (mapE (deref (vg G)) its) (\<lambda>as.
        connect_loop G src (rev (map arc_top as) @ stk) (flag @ [topname]) (table((src, topname) \<mapsto> 1)))))"
  by pat_completeness auto

termination
  by (relation "measures [\<lambda>(G, src, stk, flag, table). card (set (vertex_names (vg G)) - set flag),
                          \<lambda>(G, src, stk, flag, table). length stk]")
    (auto simp: get_out_arc_its_def flag_grows split: if_splits)

definition connect_table :: "vgraph \<Rightarrow> (string \<times> string \<Rightarrow> int option) outcome" where
  "connect_table G =
     (let names = vertex_names (vg G);
          table = fold (\<lambda>n0. fold (\<lambda>n1 t. t((n0, n1) \<mapsto> 0)) names) names Map.empty
      in foldE (\<lambda>n t.
           bindE (get_out_arc_its (vg G) n) (\<lambda>its.
           bindE (mapE (deref (vg G)) its) (\<lambda>as.
           connect_loop G n (rev (map arc_top as)) [] (t((n, n) \<mapsto> 1))))) names table)"

end
