(* ===== verification/Schedule_Base.thy ===== *)
theory Schedule_Base
  imports Anakin_Prelude
begin

text \<open>
  The base of the dependency schedulers, \<open>framework/graph/llvm/schedule_base.h\<close>: the tag
  (\<open>Tag\<close>) that says of each resource whether it can be acquired, and the queues of
  \<open>ScheduleBase\<close>. A resource is represented by what its hash and equality look at (for an
  \<open>io\<close>: its name). An operator that is pushed is the copy which the queue holds.
\<close>

section \<open>Resource tags\<close>

record tag_status =
  status :: bool

definition tag_status_default :: tag_status where
  "tag_status_default = \<lparr>status = False\<rparr>"

definition tag_on :: "tag_status \<Rightarrow> tag_status" where
  "tag_on st = st\<lparr>status := True\<rparr>"

definition tag_off :: "tag_status \<Rightarrow> tag_status" where
  "tag_off st = st\<lparr>status := False\<rparr>"

definition tag_toggle :: "tag_status \<Rightarrow> tag_status" where
  "tag_toggle st = (if status st then tag_off st else tag_on st)"

type_synonym 'k tag = "'k \<Rightarrow> tag_status option"

definition tag_has :: "'k tag \<Rightarrow> 'k \<Rightarrow> bool" where
  "tag_has t r = (t r \<noteq> None)"

definition tag_accept :: "'k \<Rightarrow> 'k tag \<Rightarrow> 'k tag" where
  "tag_accept r t = (if \<not> tag_has t r then t(r \<mapsto> tag_status_default) else t)"

definition tag_accept_list :: "'k list \<Rightarrow> 'k tag \<Rightarrow> 'k tag" where
  "tag_accept_list rs t = fold tag_accept rs t"

definition tag_lock :: "'k \<Rightarrow> 'k tag \<Rightarrow> 'k tag" where
  "tag_lock r t = (case t r of Some st \<Rightarrow> t(r \<mapsto> tag_off st) | None \<Rightarrow> t)"

definition tag_free :: "'k \<Rightarrow> 'k tag \<Rightarrow> 'k tag" where
  "tag_free r t = (case t r of Some st \<Rightarrow> t(r \<mapsto> tag_on st) | None \<Rightarrow> t)"

definition tag_lock_list :: "'k list \<Rightarrow> 'k tag \<Rightarrow> 'k tag" where
  "tag_lock_list rs t = fold tag_lock rs t"

definition tag_free_list :: "'k list \<Rightarrow> 'k tag \<Rightarrow> 'k tag" where
  "tag_free_list rs t = fold tag_free rs t"

fun tag_check_list :: "'k tag \<Rightarrow> 'k list \<Rightarrow> bool" where
  "tag_check_list t [] = True"
| "tag_check_list t (r # rs) =
     (if (case t r of Some st \<Rightarrow> status st | None \<Rightarrow> False) then tag_check_list t rs else False)"

text \<open>The check of one resource goes through \<open>operator[]\<close>, which adds a missing entry.\<close>

definition tag_check :: "'k \<Rightarrow> 'k tag \<Rightarrow> bool \<times> 'k tag" where
  "tag_check r t = (case t r of Some st \<Rightarrow> (status st, t) | None \<Rightarrow> (False, t(r \<mapsto> tag_status_default)))"

section \<open>Queues\<close>

record ('k, 'op) schedule =
  exec_que :: "'op list"
  wait_que :: "'op list"
  rw_resources :: "'k tag"
  exec_ops :: "'op list"

definition reg_resource :: "'k \<Rightarrow> ('k, 'op, 'm) schedule_scheme \<Rightarrow> ('k, 'op, 'm) schedule_scheme" where
  "reg_resource r s = s\<lparr>rw_resources := tag_accept r (rw_resources s)\<rparr>"

definition sched_lock :: "'k \<Rightarrow> ('k, 'op, 'm) schedule_scheme \<Rightarrow> ('k, 'op, 'm) schedule_scheme" where
  "sched_lock r s = s\<lparr>rw_resources := tag_lock r (rw_resources s)\<rparr>"

definition sched_free_list :: "'k list \<Rightarrow> ('k, 'op, 'm) schedule_scheme \<Rightarrow> ('k, 'op, 'm) schedule_scheme" where
  "sched_free_list rs s = s\<lparr>rw_resources := tag_free_list rs (rw_resources s)\<rparr>"

definition sched_lock_list :: "'k list \<Rightarrow> ('k, 'op, 'm) schedule_scheme \<Rightarrow> ('k, 'op, 'm) schedule_scheme" where
  "sched_lock_list rs s = s\<lparr>rw_resources := tag_lock_list rs (rw_resources s)\<rparr>"

definition sched_free :: "'k \<Rightarrow> ('k, 'op, 'm) schedule_scheme \<Rightarrow> ('k, 'op, 'm) schedule_scheme" where
  "sched_free r s = s\<lparr>rw_resources := tag_free r (rw_resources s)\<rparr>"

definition check_access_list :: "('k, 'op, 'm) schedule_scheme \<Rightarrow> 'k list \<Rightarrow> bool" where
  "check_access_list s rs = tag_check_list (rw_resources s) rs"

definition check_access :: "'k \<Rightarrow> ('k, 'op, 'm) schedule_scheme \<Rightarrow> bool \<times> ('k, 'op, 'm) schedule_scheme" where
  "check_access r s = (case tag_check r (rw_resources s) of (b, t) \<Rightarrow> (b, s\<lparr>rw_resources := t\<rparr>))"

definition exe_push :: "'op \<Rightarrow> ('k, 'op, 'm) schedule_scheme \<Rightarrow> ('k, 'op, 'm) schedule_scheme" where
  "exe_push op s = s\<lparr>exec_que := exec_que s @ [op]\<rparr>"

definition wait_push :: "'op \<Rightarrow> ('k, 'op, 'm) schedule_scheme \<Rightarrow> ('k, 'op, 'm) schedule_scheme" where
  "wait_push op s = s\<lparr>wait_que := wait_que s @ [op]\<rparr>"

definition have_launched :: "('op \<Rightarrow> 'op \<Rightarrow> bool) \<Rightarrow> ('k, 'op, 'm) schedule_scheme \<Rightarrow> 'op \<Rightarrow> bool" where
  "have_launched eq s op = (\<not> list_ex (\<lambda>x. eq x op) (wait_que s))"

text \<open>\<open>get_exec_que\<close> moves the execution queue to the end of \<open>_exec_ops\<close>.\<close>

definition get_exec_que :: "('k, 'op, 'm) schedule_scheme \<Rightarrow> 'op list \<times> ('k, 'op, 'm) schedule_scheme" where
  "get_exec_que s =
     (let ops = exec_ops s @ exec_que s in (ops, s\<lparr>exec_ops := ops, exec_que := []\<rparr>))"

section \<open>Launching\<close>

text \<open>
  One walk over the wait queue, which the \<open>Run\<close> of every scheduler repeats: the callable
  operators are launched and erased, the others are kept. \<open>callable\<close> and \<open>launch\<close> are the
  virtual functions of the scheduler.
\<close>

fun launch_pass :: "('op \<Rightarrow> ('k, 'op, 'm) schedule_scheme \<Rightarrow> (bool \<times> ('k, 'op, 'm) schedule_scheme) outcome) \<Rightarrow>
    ('op \<Rightarrow> ('k, 'op, 'm) schedule_scheme \<Rightarrow> ('k, 'op, 'm) schedule_scheme outcome) \<Rightarrow>
    'op list \<Rightarrow> 'op list \<Rightarrow> ('k, 'op, 'm) schedule_scheme \<Rightarrow> ('k, 'op, 'm) schedule_scheme outcome" where
  "launch_pass callable launch kept [] s = Inr (s\<lparr>wait_que := kept\<rparr>)"
| "launch_pass callable launch kept (op # ops) s =
     bindE (callable op s) (\<lambda>(b, s1).
     if b then
       bindE (launch op s1) (\<lambda>s2. launch_pass callable launch kept ops (s2\<lparr>wait_que := kept @ ops\<rparr>))
     else launch_pass callable launch (kept @ [op]) ops s1)"

text \<open>
  The loop of the schedulers without a check for progress: it may run for ever, so that it
  takes fuel, one unit for each walk over the queue.
\<close>

fun spin :: "('op \<Rightarrow> ('k, 'op, 'm) schedule_scheme \<Rightarrow> (bool \<times> ('k, 'op, 'm) schedule_scheme) outcome) \<Rightarrow>
    ('op \<Rightarrow> ('k, 'op, 'm) schedule_scheme \<Rightarrow> ('k, 'op, 'm) schedule_scheme outcome) \<Rightarrow>
    nat \<Rightarrow> ('k, 'op, 'm) schedule_scheme \<Rightarrow> ('k, 'op, 'm) schedule_scheme outcome" where
  "spin callable launch 0 s = (if wait_que s = [] then Inr s else Inl OutOfFuel)"
| "spin callable launch (Suc k) s =
     (if wait_que s = [] then Inr s
      else bindE (launch_pass callable launch [] (wait_que s) s) (spin callable launch k))"

end
