(* ===== verification/Dep_Scheduler.thy ===== *)
theory Dep_Scheduler
  imports Virtual_Graph Schedule_Base
begin

text \<open>
  The dependency scheduler, \<open>framework/graph/llvm/scheduler.h\<close> and \<open>scheduler.cpp\<close>. The
  resources are the edge tensors, by name. \<open>_vgraph\<close> is a pointer to the graph of the caller:
  \<open>None\<close> is the null pointer, and the graph it points to is part of the state.
\<close>

record sched = "(string, node) schedule" +
  graph_p :: "vgraph option"
  fix_io_res :: "io list"

definition new_sched :: sched where
  "new_sched = \<lparr>exec_que = [], wait_que = [], rw_resources = Map.empty, exec_ops = [],
     graph_p = None, fix_io_res = []\<rparr>"

definition the_graph :: "'m sched_scheme \<Rightarrow> vgraph outcome" where
  "the_graph s = (case graph_p s of None \<Rightarrow> Inl NullDeref | Some G \<Rightarrow> Inr G)"

section \<open>Registering a graph\<close>

definition register_io :: "arc_id \<Rightarrow> vgraph \<times> 'm sched_scheme \<Rightarrow> (vgraph \<times> 'm sched_scheme) outcome" where
  "register_io i = (\<lambda>(G, s).
     bindE (deref (vg G) i) (\<lambda>a.
     Inr (G, reg_resource (io_name (weight a)) (sched_lock (io_name (weight a)) s))))"

definition push_wait :: "string \<Rightarrow> vgraph \<times> 'm sched_scheme \<Rightarrow> (vgraph \<times> 'm sched_scheme) outcome" where
  "push_wait v = (\<lambda>(G, s).
     bindE (vertex_at (vg G) v) (\<lambda>n. Inr (G, wait_push (node_copy n) s)))"

definition fixed_io :: "string \<times> string \<Rightarrow> io" where
  "fixed_io p = io_default\<lparr>io_name := arc_name \<lparr>arc_bottom = fst p, arc_top = snd p, weight = io_default\<rparr>\<rparr>"

definition reg_io_resource :: "vgraph \<Rightarrow> 'm sched_scheme \<Rightarrow> 'm sched_scheme outcome" where
  "reg_io_resource G s =
     bindE (scan_edges fst register_io (G, s)) (\<lambda>(G1, s1).
     bindE (scan_nodes fst push_wait (G1, s1)) (\<lambda>(G2, s2).
     Inr (s2\<lparr>fix_io_res := fix_io_res s2 @ map fixed_io (registed_outs G2), graph_p := Some G2\<rparr>)))"

section \<open>Launching and running\<close>

definition callable :: "node \<Rightarrow> 'm sched_scheme \<Rightarrow> (bool \<times> 'm sched_scheme) outcome" where
  "callable n s =
     bindE (the_graph s) (\<lambda>G.
     bindE (in_weights G (node_name n)) (\<lambda>io_in.
     Inr (check_access_list s (map io_name io_in), s)))"

definition launch :: "node \<Rightarrow> 'm sched_scheme \<Rightarrow> 'm sched_scheme outcome" where
  "launch n s =
     (let s1 = exe_push (node_copy n) s
      in bindE (the_graph s1) (\<lambda>G.
         bindE (out_weights G (node_name n)) (\<lambda>io_out.
         Inr (sched_free_list (map io_name io_out) s1))))"

text \<open>
  When a walk over the wait queue launches nothing, the code looks at the tensors of the waiting
  operators to choose a message and then aborts. Reading them can fail first.
\<close>

definition diagnose :: "'m sched_scheme \<Rightarrow> 'm sched_scheme outcome" where
  "diagnose s =
     bindE (the_graph s) (\<lambda>G.
     bindE (mapE (\<lambda>n. bindE (in_weights G (node_name n)) (\<lambda>_. out_weights G (node_name n))) (wait_que s)) (\<lambda>_.
     Inl CheckFailed))"

lemma launch_pass_shrinks:
  "launch_pass c l kept ops s = Inr t \<Longrightarrow> length (wait_que t) \<le> length kept + length ops"
  by (induction c l kept ops s rule: launch_pass.induct) (fastforce split: if_splits)+

function run_loop :: "'m sched_scheme \<Rightarrow> 'm sched_scheme outcome" where
  "run_loop s =
     (if wait_que s = [] then Inr s
      else
        bindE (launch_pass callable launch [] (wait_que s) s) (\<lambda>s1.
        if length (wait_que s1) = length (wait_que s) then diagnose s1 else run_loop s1))"
  by pat_completeness auto

termination
  by (relation "measure (\<lambda>s. length (wait_que s))") (auto dest!: launch_pass_shrinks)

declare run_loop.simps [simp del]

definition get_exec_node_in_order :: "'m sched_scheme \<Rightarrow> string list \<times> 'm sched_scheme" where
  "get_exec_node_in_order s = (case get_exec_que s of (ops, s1) \<Rightarrow> (map node_name ops, s1))"

definition run :: "'m sched_scheme \<Rightarrow> 'm sched_scheme outcome" where
  "run s =
     bindE (run_loop s) (\<lambda>s1.
     case get_exec_node_in_order s1 of (order, s2) \<Rightarrow>
       bindE (the_graph s2) (\<lambda>G. Inr (s2\<lparr>graph_p := Some (set_exec_order order G)\<rparr>)))"

section \<open>Fixed tensors\<close>

definition is_fixed :: "'m sched_scheme \<Rightarrow> io \<Rightarrow> bool" where
  "is_fixed s x = list_ex (\<lambda>y. io_eq y x) (fix_io_res s)"

text \<open>
  The search of \<open>is_target_fixed\<close> reads \<open>share_from\<close> of the tensor it has found so far, which
  is the argument until the traversal stops.
\<close>

definition search_target :: "arc_id \<Rightarrow> vgraph \<times> io \<Rightarrow> (status \<times> vgraph \<times> io) outcome" where
  "search_target i = (\<lambda>(G, target).
     bindE (deref (vg G) i) (\<lambda>a.
     if io_name (weight a) = share_from target then Inr (EXIT, (G, weight a)) else Inr (OK, (G, target))))"

definition is_target_fixed :: "'m sched_scheme \<Rightarrow> io \<Rightarrow> bool outcome" where
  "is_target_fixed s x =
     bindE (the_graph s) (\<lambda>G.
     bindE (scan_edges_until fst search_target (G, x)) (\<lambda>(_, target).
     if is_fixed s target then Inr True else Inr False))"

end
