(* ===== verification/Schedule_Facts.thy ===== *)
theory Schedule_Facts
  imports Schedule_Base "HOL-Library.Multiset"
begin

text \<open>
  What a scheduler needs of its resource tag is the interface \<open>resource_tag\<close>; the loop that
  launches operators is analysed inside it on a plan (operators with the resources they read
  and provide). The tag of the code provides the interface.
\<close>

section \<open>The plan\<close>

fun plan_pass :: "('t \<Rightarrow> 'r list \<Rightarrow> bool) \<Rightarrow> ('r list \<Rightarrow> 't \<Rightarrow> 't) \<Rightarrow> ('op \<Rightarrow> 'r list) \<Rightarrow> ('op \<Rightarrow> 'r list) \<Rightarrow>
    'op list \<Rightarrow> 't \<Rightarrow> 'op list \<times> 'op list \<times> 't" where
  "plan_pass acc rel ins outs [] t = ([], [], t)"
| "plan_pass acc rel ins outs (x # xs) t =
     (if acc t (ins x) then (case plan_pass acc rel ins outs xs (rel (outs x) t) of (l, r, u) \<Rightarrow> (x # l, r, u))
      else (case plan_pass acc rel ins outs xs t of (l, r, u) \<Rightarrow> (l, x # r, u)))"

lemma plan_pass_left: "plan_pass acc rel ins outs xs t = (l, r, u) \<Longrightarrow> length r \<le> length xs"
  by (induction xs arbitrary: t l r) (fastforce split: if_splits prod.splits)+

text \<open>The launch order, or the operators that are left when a pass launches none.\<close>

function plan :: "('t \<Rightarrow> 'r list \<Rightarrow> bool) \<Rightarrow> ('r list \<Rightarrow> 't \<Rightarrow> 't) \<Rightarrow> ('op \<Rightarrow> 'r list) \<Rightarrow> ('op \<Rightarrow> 'r list) \<Rightarrow>
    'op list \<Rightarrow> 't \<Rightarrow> 'op list \<times> 'op list \<times> 't" where
  "plan acc rel ins outs xs t =
     (if xs = [] then ([], [], t)
      else case plan_pass acc rel ins outs xs t of (l, r, u) \<Rightarrow>
        if length r = length xs then (l, r, u)
        else (case plan acc rel ins outs r u of (l', r', u') \<Rightarrow> (l @ l', r', u')))"
  by pat_completeness auto

termination
  by (relation "measure (\<lambda>(acc, rel, ins, outs, xs, t). length xs)")
    (auto dest!: plan_pass_left [OF sym])

declare plan.simps [simp del]

text \<open>Every operator finds what it reads granted at the start or provided before it.\<close>

definition supplied :: "'r set \<Rightarrow> ('op \<Rightarrow> 'r list) \<Rightarrow> ('op \<Rightarrow> 'r list) \<Rightarrow> 'op list \<Rightarrow> bool" where
  "supplied G ins outs l \<longleftrightarrow> (\<forall>i < length l. set (ins (l ! i)) \<subseteq> G \<union> (\<Union>x \<in> set (take i l). set (outs x)))"

lemma supplied_Nil [simp]: "supplied G ins outs []"
  by (simp add: supplied_def)

lemma supplied_Cons:
  "supplied G ins outs (x # l) \<longleftrightarrow> set (ins x) \<subseteq> G \<and> supplied (G \<union> set (outs x)) ins outs l"
  by (simp add: supplied_def All_less_Suc2 Un_assoc)

lemma supplied_mono: "supplied G ins outs l \<Longrightarrow> G \<subseteq> H \<Longrightarrow> supplied H ins outs l"
  unfolding supplied_def by blast

lemma supplied_append:
  "supplied G ins outs (l @ m) \<longleftrightarrow> supplied G ins outs l \<and> supplied (G \<union> (\<Union>x \<in> set l. set (outs x))) ins outs m"
  by (induction l arbitrary: G) (auto simp: supplied_Cons Un_assoc)

section \<open>The interface\<close>

locale resource_tag =
  fixes acc :: "'t \<Rightarrow> 'r list \<Rightarrow> bool" and rel :: "'r list \<Rightarrow> 't \<Rightarrow> 't"
    and granted :: "'t \<Rightarrow> 'r set" and known :: "'t \<Rightarrow> 'r set"
  assumes acc_iff: "acc t rs \<longleftrightarrow> set rs \<subseteq> granted t"
    and granted_rel: "granted (rel rs t) = granted t \<union> (set rs \<inter> known t)"
    and known_rel: "known (rel rs t) = known t"
begin

lemma pass_spec:
  assumes "plan_pass acc rel ins outs xs t = (l, r, u)"
  shows "mset xs = mset l + mset r" "known u = known t"
    "granted u = granted t \<union> ((\<Union>x \<in> set l. set (outs x)) \<inter> known t)"
    "supplied (granted t) ins outs l"
    "l = [] \<Longrightarrow> u = t \<and> r = xs \<and> (\<forall>x \<in> set xs. \<not> set (ins x) \<subseteq> granted t)"
proof -
  have "mset xs = mset l + mset r \<and> known u = known t \<and>
    granted u = granted t \<union> ((\<Union>x \<in> set l. set (outs x)) \<inter> known t) \<and>
    supplied (granted t) ins outs l \<and> (l = [] \<longrightarrow> u = t \<and> r = xs \<and> (\<forall>x \<in> set xs. \<not> set (ins x) \<subseteq> granted t))"
    using assms
  proof (induction xs arbitrary: t l r)
    case Nil
    then show ?case by simp
  next
    case (Cons x xs)
    show ?case
    proof (cases "acc t (ins x)")
      case True
      obtain m where m: "plan_pass acc rel ins outs xs (rel (outs x) t) = (m, r, u)" "l = x # m"
        using Cons.prems True by (auto split: prod.splits)
      have "supplied (granted t) ins outs l"
        using Cons.IH [OF m(1)] True acc_iff granted_rel m(2)
        by (auto simp: supplied_Cons intro: supplied_mono)
      then show ?thesis using Cons.IH [OF m(1)] m(2) by (auto simp: granted_rel known_rel)
    next
      case False
      obtain q where q: "plan_pass acc rel ins outs xs t = (l, q, u)" "r = x # q"
        using Cons.prems False by (auto split: prod.splits)
      show ?thesis using Cons.IH [OF q(1)] q(2) False acc_iff by auto
    qed
  qed
  then show "mset xs = mset l + mset r" "known u = known t"
    "granted u = granted t \<union> ((\<Union>x \<in> set l. set (outs x)) \<inter> known t)"
    "supplied (granted t) ins outs l"
    "l = [] \<Longrightarrow> u = t \<and> r = xs \<and> (\<forall>x \<in> set xs. \<not> set (ins x) \<subseteq> granted t)" by blast+
qed

lemma plan_spec:
  assumes "plan acc rel ins outs xs t = (l, r, u)"
  shows "mset xs = mset l + mset r \<and> known u = known t \<and>
    granted u = granted t \<union> ((\<Union>x \<in> set l. set (outs x)) \<inter> known t) \<and>
    supplied (granted t) ins outs l \<and> (\<forall>x \<in> set r. \<not> set (ins x) \<subseteq> granted u)"
  using assms
proof (induction "length xs" arbitrary: xs t l r rule: less_induct)
  case less
  show ?case
  proof (cases "xs = []")
    case True
    then show ?thesis using less.prems by (auto simp: plan.simps)
  next
    case False
    obtain l0 r0 u0 where p: "plan_pass acc rel ins outs xs t = (l0, r0, u0)"
      by (cases "plan_pass acc rel ins outs xs t") auto
    note ps = pass_spec [OF p]
    have len: "length xs = length l0 + length r0"
      using arg_cong [OF ps(1), of size] by simp
    show ?thesis
    proof (cases "length r0 = length xs")
      case True
      then have "l0 = []" using len by simp
      moreover have "l = l0" "r = r0" "u = u0"
        using less.prems False p True by (simp_all add: plan.simps)
      ultimately show ?thesis using ps(5) by auto
    next
      case nl: False
      obtain l1 where q: "plan acc rel ins outs r0 u0 = (l1, r, u)" "l = l0 @ l1"
        using less.prems False nl p by (subst (asm) plan.simps) (auto split: prod.splits)
      have "length r0 < length xs" using nl len by simp
      note ih = less.hyps [OF this q(1)]
      have "supplied (granted t) ins outs (l0 @ l1)"
        using ps(3,4) ih by (auto simp: supplied_append intro: supplied_mono)
      then show ?thesis using ps(1-3) ih q(2) by auto
    qed
  qed
qed

end

section \<open>The tag of the code\<close>

definition tag_granted :: "'k tag \<Rightarrow> 'k set" where
  "tag_granted t = {r. \<exists>st. t r = Some st \<and> status st}"

lemma tag_check_list_iff: "tag_check_list t rs \<longleftrightarrow> set rs \<subseteq> tag_granted t"
  by (induction rs) (auto simp: tag_granted_def split: option.splits)

lemma tag_free_known: "dom (tag_free r t) = dom t"
  by (auto simp: tag_free_def dom_def split: option.splits)

lemma tag_free_granted: "tag_granted (tag_free r t) = tag_granted t \<union> ({r} \<inter> dom t)"
  by (auto simp: tag_free_def tag_granted_def tag_on_def split: option.splits if_splits)

lemma tag_free_list_known: "dom (tag_free_list rs t) = dom t"
  by (induction rs arbitrary: t) (simp_all add: tag_free_list_def tag_free_known)

lemma tag_free_list_granted: "tag_granted (tag_free_list rs t) = tag_granted t \<union> (set rs \<inter> dom t)"
  by (induction rs arbitrary: t) (auto simp: tag_free_list_def tag_free_granted tag_free_known)

interpretation code_tag: resource_tag tag_check_list tag_free_list tag_granted dom
  by unfold_locales (simp_all add: tag_check_list_iff tag_free_list_granted tag_free_list_known)

lemma tag_accept_lock:
  "dom (tag_accept r (tag_lock r t)) = insert r (dom t)"
  "tag_granted (tag_accept r (tag_lock r t)) = tag_granted t - {r}"
  by (auto simp: tag_accept_def tag_lock_def tag_granted_def tag_has_def tag_off_def
    tag_status_default_def dom_def split: option.splits if_splits)

end
