(* ===== verification/Topological_Order.thy ===== *)
theory Topological_Order
  imports Main
begin

text \<open>
  Orders of a set of vertices in which every predecessor comes first, and how they relate to
  cycles. Shared by the schedulers.
\<close>

definition topo :: "('n \<times> 'n) set \<Rightarrow> 'n list \<Rightarrow> bool" where
  "topo E vs \<longleftrightarrow> distinct vs \<and> (\<forall>i < length vs. \<forall>u. (u, vs ! i) \<in> E \<longrightarrow> u \<in> set (take i vs))"

lemma topo_distinct: "topo E vs \<Longrightarrow> distinct vs"
  by (simp add: topo_def)

lemma topo_pred:
  assumes "topo E vs" "(u, v) \<in> E" "v \<in> set vs"
  shows "\<exists>i j. i < j \<and> j < length vs \<and> vs ! i = u \<and> vs ! j = v"
proof -
  obtain j where j: "j < length vs" "vs ! j = v" using assms(3) by (auto simp: in_set_conv_nth)
  then have "u \<in> set (take j vs)" using assms(1,2) unfolding topo_def by blast
  then obtain i where "i < j" "vs ! i = u" using j(1) by (auto simp: in_set_conv_nth)
  then show ?thesis using j by blast
qed

lemma topo_trancl:
  assumes "topo E vs" "(u, v) \<in> E\<^sup>+"
  shows "j < length vs \<Longrightarrow> vs ! j = v \<Longrightarrow> u \<in> set (take j vs)"
  using assms(2)
proof (induction arbitrary: j rule: trancl_induct)
  case (base v)
  then show ?case using assms(1) unfolding topo_def by blast
next
  case (step v w)
  then have "v \<in> set (take j vs)" using assms(1) unfolding topo_def by blast
  then obtain i where i: "i < j" "i < length vs" "vs ! i = v" by (auto simp: in_set_conv_nth)
  then have "u \<in> set (take i vs)" using step.IH by blast
  then show ?case using i(1) set_take_subset_set_take [of i j vs] by auto
qed

lemma topo_no_cycle:
  assumes "topo E vs" "(v, v) \<in> E\<^sup>+"
  shows "v \<notin> set vs"
proof
  assume "v \<in> set vs"
  then obtain j where j: "j < length vs" "vs ! j = v" by (auto simp: in_set_conv_nth)
  then have "v \<in> set (take j vs)" by (rule topo_trancl [OF assms])
  then obtain i where i: "i < j" "vs ! i = v" using j(1) by (auto simp: in_set_conv_nth)
  then have "i = j" using topo_distinct [OF assms(1)] j nth_eq_iff_index_eq [of vs i j] by simp
  then show False using i by simp
qed

lemma acyclic_min:
  assumes "finite E" "acyclic E" "W \<noteq> {}"
  shows "\<exists>w \<in> W. \<forall>u. (u, w) \<in> E \<longrightarrow> u \<notin> W"
proof -
  have "wf E" by (rule finite_acyclic_wf [OF assms(1,2)])
  then show ?thesis using assms(3) by (metis wfE_min ex_in_conv)
qed

text \<open>In a finite acyclic relation everything is reached from the elements without predecessors.\<close>

lemma acyclic_reached:
  assumes "finite E" "acyclic E"
  shows "\<exists>s. (\<forall>u. (u, s) \<notin> E) \<and> (s, v) \<in> E\<^sup>*"
proof -
  have "wf E" by (rule finite_acyclic_wf [OF assms])
  then show ?thesis
  proof (induction v rule: wf_induct_rule)
    case (less v)
    show ?case
    proof (cases "\<exists>u. (u, v) \<in> E")
      case True
      then show ?thesis using less by (meson rtrancl.rtrancl_into_rtrancl)
    qed blast
  qed
qed

end
