(* ===== verification/Dep_Scheduler_Facts.thy ===== *)
theory Dep_Scheduler_Facts
  imports Dep_Scheduler Schedule_Facts Traversal_Facts Topological_Order
begin

text \<open>
  The scheduler follows its plan, and the plan is a topological order: the run of the code on a
  registered graph orders the vertices that the inputs reach so that every predecessor comes
  first, or it aborts because of a cycle.
\<close>

section \<open>Well-formed virtual graphs\<close>

definition wf_vgraph :: "vgraph \<Rightarrow> bool" where
  "wf_vgraph G \<longleftrightarrow> wf_graph (vg G) \<and> linked (vg G) \<and>
     distinct (map (\<lambda>(i, a). io_name (weight a)) (arcs (vg G))) \<and>
     (\<forall>(v, n) \<in> set (vertices (vg G)). node_name n = v)"

lemma wf_vgraphD:
  assumes "wf_vgraph G"
  shows "wf_graph (vg G)" "linked (vg G)"
    "(i, a) \<in> set (arcs (vg G)) \<Longrightarrow> (j, b) \<in> set (arcs (vg G)) \<Longrightarrow>
       io_name (weight a) = io_name (weight b) \<Longrightarrow> i = j \<and> a = b"
    "vertex_at (vg G) v = Inr n \<Longrightarrow> node_name n = v"
proof -
  show "wf_graph (vg G)" "linked (vg G)" using assms by (simp_all add: wf_vgraph_def)
  have "inj_on (\<lambda>(i, a). io_name (weight a)) (set (arcs (vg G)))"
    using assms by (simp add: wf_vgraph_def distinct_map)
  then show "i = j \<and> a = b" if "(i, a) \<in> set (arcs (vg G))" "(j, b) \<in> set (arcs (vg G))"
    "io_name (weight a) = io_name (weight b)"
    using that by (auto dest!: inj_onD [where x = "(i, a)" and y = "(j, b)"])
  show "node_name n = v" if "vertex_at (vg G) v = Inr n"
    using that assms by (auto simp: vertex_at_def wf_vgraph_def split: option.splits dest!: map_of_SomeD)
qed

definition name_of :: "vgraph \<Rightarrow> arc_id \<Rightarrow> string" where
  "name_of G i = io_name (weight (the (map_of (arcs (vg G)) i)))"

definition in_names :: "vgraph \<Rightarrow> string \<Rightarrow> string list" where
  "in_names G v = map (name_of G) (in_its (vg G) v)"

definition out_names :: "vgraph \<Rightarrow> string \<Rightarrow> string list" where
  "out_names G v = map (name_of G) (out_its (vg G) v)"

lemma name_of_arc: "wf_vgraph G \<Longrightarrow> (i, a) \<in> set (arcs (vg G)) \<Longrightarrow> name_of G i = io_name (weight a)"
  using wf_graphD(2) [OF wf_vgraphD(1)] by (simp add: name_of_def)

lemma in_names_iff:
  assumes "wf_vgraph G"
  shows "r \<in> set (in_names G v) \<longleftrightarrow> (\<exists>i a. (i, a) \<in> set (arcs (vg G)) \<and> arc_top a = v \<and> io_name (weight a) = r)"
proof -
  have its: "set (in_its (vg G) v) = {i. \<exists>a. (i, a) \<in> set (arcs (vg G)) \<and> arc_top a = v}"
    using wf_graphD(10) [OF wf_vgraphD(1) [OF assms]] wf_vgraphD(2) [OF assms] by (fastforce simp: linked_def)
  show ?thesis
    unfolding in_names_def set_map its image_iff Bex_def mem_Collect_eq
    using name_of_arc [OF assms] by metis
qed

lemma out_names_iff:
  assumes "wf_vgraph G"
  shows "r \<in> set (out_names G v) \<longleftrightarrow> (\<exists>i a. (i, a) \<in> set (arcs (vg G)) \<and> arc_bottom a = v \<and> io_name (weight a) = r)"
proof -
  have its: "set (out_its (vg G) v) = {i. \<exists>a. (i, a) \<in> set (arcs (vg G)) \<and> arc_bottom a = v}"
    using wf_graphD(8) [OF wf_vgraphD(1) [OF assms]] wf_vgraphD(2) [OF assms] by (fastforce simp: linked_def)
  show ?thesis
    unfolding out_names_def set_map its image_iff Bex_def mem_Collect_eq
    using name_of_arc [OF assms] by metis
qed

lemma weights_of_names:
  assumes "wf_vgraph G" "set is \<subseteq> fst ` set (arcs (vg G))"
  shows "weights_of G is = Inr (map (\<lambda>i. weight (the (map_of (arcs (vg G)) i))) is)"
  unfolding weights_of_def
proof (rule mapE_total)
  fix i
  assume "i \<in> set is"
  then obtain a where "(i, a) \<in> set (arcs (vg G))" using assms(2) by auto
  then show "bindE (deref (vg G) i) (\<lambda>a. Inr (weight a)) = Inr (weight (the (map_of (arcs (vg G)) i)))"
    using wf_graphD(2) [OF wf_vgraphD(1) [OF assms(1)]] by (simp add: deref_def)
qed

lemma in_out_weights:
  assumes "wf_vgraph G" "v \<in> set (vertex_names (vg G))"
  shows "\<exists>ws. in_weights G v = Inr ws \<and> map io_name ws = in_names G v"
    "\<exists>ws. out_weights G v = Inr ws \<and> map io_name ws = out_names G v"
proof -
  note d = wf_graphD [OF wf_vgraphD(1) [OF assms(1)]]
  have "set (in_its (vg G) v) \<subseteq> fst ` set (arcs (vg G))" "set (out_its (vg G) v) \<subseteq> fst ` set (arcs (vg G))"
    using d(8,10) by force+
  then show "\<exists>ws. in_weights G v = Inr ws \<and> map io_name ws = in_names G v"
    "\<exists>ws. out_weights G v = Inr ws \<and> map io_name ws = out_names G v"
    using assms(2) weights_of_names [OF assms(1)]
    by (simp_all add: in_weights_def out_weights_def get_in_arc_its_def get_out_arc_its_def has_vertex_iff
      in_names_def out_names_def name_of_def)
qed

section \<open>The run follows the plan\<close>

abbreviation ins_of :: "vgraph \<Rightarrow> node \<Rightarrow> string list" where
  "ins_of G n \<equiv> in_names G (node_name n)"

abbreviation outs_of :: "vgraph \<Rightarrow> node \<Rightarrow> string list" where
  "outs_of G n \<equiv> out_names G (node_name n)"

abbreviation code_pass :: "vgraph \<Rightarrow> node list \<Rightarrow> string tag \<Rightarrow> node list \<times> node list \<times> string tag" where
  "code_pass G \<equiv> plan_pass tag_check_list tag_free_list (ins_of G) (outs_of G)"

abbreviation code_plan :: "vgraph \<Rightarrow> node list \<Rightarrow> string tag \<Rightarrow> node list \<times> node list \<times> string tag" where
  "code_plan G \<equiv> plan tag_check_list tag_free_list (ins_of G) (outs_of G)"

lemma callable_eq:
  assumes "wf_vgraph G" "graph_p s = Some G" "node_name n \<in> set (vertex_names (vg G))"
  shows "callable n s = Inr (tag_check_list (rw_resources s) (ins_of G n), s)"
  using in_out_weights(1) [OF assms(1,3)] assms(2)
  by (auto simp: callable_def the_graph_def check_access_list_def)

lemma launch_eq:
  assumes "wf_vgraph G" "graph_p s = Some G" "node_name n \<in> set (vertex_names (vg G))"
  shows "launch n s = Inr (s\<lparr>exec_que := exec_que s @ [node_copy n],
    rw_resources := tag_free_list (outs_of G n) (rw_resources s)\<rparr>)"
  using in_out_weights(2) [OF assms(1,3)] assms(2)
  by (auto simp: launch_def the_graph_def exe_push_def sched_free_list_def Let_def)

lemma launch_pass_plan:
  assumes "wf_vgraph G"
  shows "graph_p s = Some G \<Longrightarrow> node_name ` set ops \<subseteq> set (vertex_names (vg G)) \<Longrightarrow>
    launch_pass callable launch kept ops s =
      (case code_pass G ops (rw_resources s) of (l, r, u) \<Rightarrow>
         Inr (s\<lparr>wait_que := kept @ r, exec_que := exec_que s @ map node_copy l, rw_resources := u\<rparr>))"
proof (induction ops arbitrary: kept s)
  case Nil
  then show ?case by simp
next
  case (Cons n ops)
  have n: "node_name n \<in> set (vertex_names (vg G))" using Cons.prems by simp
  show ?case
    using Cons.IH [of s "kept @ [n]"]
      Cons.IH [of "s\<lparr>exec_que := exec_que s @ [node_copy n], rw_resources := tag_free_list (outs_of G n) (rw_resources s),
        wait_que := kept @ ops\<rparr>" kept] Cons.prems
    by (simp add: callable_eq [OF assms _ n] launch_eq [OF assms _ n] split: prod.splits)
qed

lemma diagnose_aborts:
  assumes "wf_vgraph G" "graph_p s = Some G" "node_name ` set (wait_que s) \<subseteq> set (vertex_names (vg G))"
  shows "diagnose s = Inl CheckFailed"
proof -
  have "\<exists>ws. bindE (in_weights G (node_name n)) (\<lambda>_. out_weights G (node_name n)) = Inr ws"
    if "n \<in> set (wait_que s)" for n
    using in_out_weights [OF assms(1), of "node_name n"] that assms(3) by fastforce
  then obtain F where F: "\<And>n. n \<in> set (wait_que s) \<Longrightarrow>
      bindE (in_weights G (node_name n)) (\<lambda>_. out_weights G (node_name n)) = Inr (F n)" by metis
  show ?thesis
    using mapE_total [of "wait_que s", OF F] assms(2) by (simp add: diagnose_def the_graph_def)
qed

lemma run_loop_plan:
  assumes "wf_vgraph G"
  shows "graph_p s = Some G \<Longrightarrow> node_name ` set (wait_que s) \<subseteq> set (vertex_names (vg G)) \<Longrightarrow>
    run_loop s =
      (case code_plan G (wait_que s) (rw_resources s) of (l, r, u) \<Rightarrow>
         if r = [] then Inr (s\<lparr>wait_que := [], exec_que := exec_que s @ map node_copy l, rw_resources := u\<rparr>)
         else Inl CheckFailed)"
proof (induction "length (wait_que s)" arbitrary: s rule: less_induct)
  case less
  show ?case
  proof (cases "wait_que s = []")
    case True
    then show ?thesis by (simp add: run_loop.simps plan.simps)
  next
    case False
    obtain l r u where p: "code_pass G (wait_que s) (rw_resources s) = (l, r, u)"
      by (cases "code_pass G (wait_que s) (rw_resources s)") auto
    let ?t = "s\<lparr>wait_que := r, exec_que := exec_que s @ map node_copy l, rw_resources := u\<rparr>"
    have ms: "mset (wait_que s) = mset l + mset r" by (rule code_tag.pass_spec(1) [OF p])
    have len: "length (wait_que s) = length l + length r" using arg_cong [OF ms, of size] by simp
    have sub: "node_name ` set r \<subseteq> set (vertex_names (vg G))"
      using less.prems(2) arg_cong [OF ms, of set_mset] by auto
    have pass: "launch_pass callable launch [] (wait_que s) s = Inr ?t"
      using launch_pass_plan [OF assms less.prems, of "[]"] p by simp
    show ?thesis
    proof (cases "length r = length (wait_que s)")
      case True
      then have "r \<noteq> []" using False by auto
      then show ?thesis
        using diagnose_aborts [OF assms, of ?t] sub False pass p True less.prems(1)
        by (simp add: run_loop.simps plan.simps)
    next
      case nl: False
      then have "run_loop ?t = (case code_plan G r u of (l', r', u') \<Rightarrow>
         if r' = [] then Inr (?t\<lparr>wait_que := [], exec_que := exec_que ?t @ map node_copy l', rw_resources := u'\<rparr>)
         else Inl CheckFailed)"
        using less.hyps [of ?t] len less.prems(1) sub by simp
      then show ?thesis
        using False pass p nl by (subst run_loop.simps, subst plan.simps) (simp split: prod.splits)
    qed
  qed
qed

section \<open>Registration\<close>

definition reached :: "vgraph \<Rightarrow> string set" where
  "reached G = (edges (vg G))\<^sup>* `` {b. (\<exists>t. (b, t) \<in> edges (vg G)) \<and> (\<forall>u. (u, b) \<notin> edges (vg G))}"

definition node_of :: "vgraph \<Rightarrow> string \<Rightarrow> node" where
  "node_of G v = the (map_of (vertices (vg G)) v)"

lemma node_of_name:
  assumes "wf_vgraph G" "v \<in> set (vertex_names (vg G))"
  shows "node_name (node_copy (node_of G v)) = v" "vertex_at (vg G) v = Inr (node_of G v)"
proof -
  obtain n where n: "vertex_at (vg G) v = Inr n" using vertex_at_names [OF assms(2)] by auto
  then show "vertex_at (vg G) v = Inr (node_of G v)"
    by (auto simp: vertex_at_def node_of_def split: option.splits)
  have "node_name n = v" by (rule wf_vgraphD(4) [OF assms(1) n])
  then show "node_name (node_copy (node_of G v)) = v"
    using n by (cases n) (auto simp: vertex_at_def node_of_def split: option.splits)
qed

lemma register_io_fold:
  assumes "wf_vgraph G" "set is \<subseteq> fst ` set (arcs (vg G))"
  shows "\<exists>t. foldE register_io is (G, s) = Inr (G, s\<lparr>rw_resources := t\<rparr>) \<and>
    dom t = dom (rw_resources s) \<union> name_of G ` set is \<and>
    tag_granted t = tag_granted (rw_resources s) - name_of G ` set is"
  using assms(2)
proof (induction "is" arbitrary: s)
  case Nil
  then show ?case by (intro exI [of _ "rw_resources s"]) simp
next
  case (Cons i "is")
  then obtain a where a: "(i, a) \<in> set (arcs (vg G))" by auto
  let ?r = "io_name (weight a)"
  let ?s = "s\<lparr>rw_resources := tag_accept ?r (tag_lock ?r (rw_resources s))\<rparr>"
  have step: "register_io i (G, s) = Inr (G, ?s)"
    using a wf_graphD(2) [OF wf_vgraphD(1) [OF assms(1)]]
    by (simp add: register_io_def deref_def reg_resource_def sched_lock_def)
  obtain t where "foldE register_io is (G, ?s) = Inr (G, ?s\<lparr>rw_resources := t\<rparr>)"
    "dom t = dom (rw_resources ?s) \<union> name_of G ` set is"
    "tag_granted t = tag_granted (rw_resources ?s) - name_of G ` set is"
    using Cons.IH [of ?s] Cons.prems by auto
  then show ?case
    using step name_of_arc [OF assms(1) a] by (intro exI [of _ t]) (auto simp: tag_accept_lock)
qed

lemma push_wait_fold:
  assumes "wf_vgraph G" "set vs \<subseteq> set (vertex_names (vg G))"
  shows "foldE push_wait vs (G, s) = Inr (G, s\<lparr>wait_que := wait_que s @ map (\<lambda>v. node_copy (node_of G v)) vs\<rparr>)"
  using assms(2)
proof (induction vs arbitrary: s)
  case Nil
  then show ?case by simp
next
  case (Cons v vs)
  then show ?case using node_of_name(2) [OF assms(1), of v] by (simp add: push_wait_def wait_push_def)
qed

lemma ins_total: "\<exists>ins. get_graph_ins g = Inr ins"
  by (simp add: get_graph_ins_def ins_loop_total)

lemma keeps_fst: 
  assumes "\<And>x G s r t. f x (G, s) = Inr (r, t) \<Longrightarrow> fst t = G"
  shows "keeps_skel (vg \<circ> fst) f"
  unfolding keeps_skel_def using assms by fastforce

lemma register_keeps:
  "keeps_skel (vg \<circ> fst) (no_status register_io)" "keeps_skel (vg \<circ> fst) (no_status push_wait)"
  by (rule keeps_fst; auto simp: no_status_def register_io_def push_wait_def)+

lemma registering:
  assumes "wf_vgraph G" "get_graph_ins (vg G) = Inr ins" "ins \<noteq> []"
  shows "\<exists>vs is t. distinct vs \<and> set vs = reached G \<and> set vs \<subseteq> set (vertex_names (vg G)) \<and>
    set is = {i. \<exists>a. (i, a) \<in> set (arcs (vg G)) \<and> arc_bottom a \<in> reached G} \<and>
    reg_io_resource G s = Inr (s\<lparr>rw_resources := t, wait_que := wait_que s @ map (\<lambda>v. node_copy (node_of G v)) vs,
           fix_io_res := fix_io_res s @ map fixed_io (registed_outs G), graph_p := Some G\<rparr>) \<and>
    dom t = dom (rw_resources s) \<union> name_of G ` set is \<and>
    tag_granted t = tag_granted (rw_resources s) - name_of G ` set is"
proof -
  note w = wf_vgraphD(1,2) [OF assms(1)]
  have start: "set ins = {b. (\<exists>t. (b, t) \<in> edges (vg G)) \<and> (\<forall>u. (u, b) \<notin> edges (vg G))}"
    by (rule get_graph_ins_spec(1) [OF w assms(2)])
  obtain "is" where es: "set is = {i. \<exists>a. (i, a) \<in> set (arcs (vg G)) \<and> arc_bottom a \<in> reached G}"
    "scan_edges fst register_io (G, s) = foldE register_io is (G, s)"
    using bfs_edge_void_spec [OF register_keeps(1), of "(G, s)" ins "graph_size (vg G)"] w assms(2,3)
    by (auto simp: reached_def start [symmetric] scan_edges_def)
  have sub: "set is \<subseteq> fst ` set (arcs (vg G))" using es(1) by force
  obtain t where t: "foldE register_io is (G, s) = Inr (G, s\<lparr>rw_resources := t\<rparr>)"
    "dom t = dom (rw_resources s) \<union> name_of G ` set is"
    "tag_granted t = tag_granted (rw_resources s) - name_of G ` set is"
    using register_io_fold [OF assms(1) sub] by blast
  let ?s = "s\<lparr>rw_resources := t\<rparr>"
  obtain vs where vs: "distinct vs" "set vs = reached G"
    "scan_nodes fst push_wait (G, ?s) = foldE push_wait vs (G, ?s)"
    using bfs_void_spec [OF register_keeps(2), of "(G, ?s)" ins "graph_size (vg G)"] w assms(2,3)
    by (auto simp: reached_def start [symmetric] scan_nodes_def)
  have names: "set vs \<subseteq> set (vertex_names (vg G))"
    using reach_names [OF w(1) ins_in_names(1) [OF w assms(2)]] vs(2) by (simp add: reached_def start)
  show ?thesis
    using es vs t names push_wait_fold [OF assms(1) names, of ?s]
    by (intro exI [of _ vs] exI [of _ "is"] exI [of _ t]) (simp add: reg_io_resource_def)
qed

lemma registered:
  assumes "wf_vgraph G" "reg_io_resource G s = Inr s1"
  shows "\<exists>vs is t. distinct vs \<and> set vs = reached G \<and> set vs \<subseteq> set (vertex_names (vg G)) \<and>
    set is = {i. \<exists>a. (i, a) \<in> set (arcs (vg G)) \<and> arc_bottom a \<in> reached G} \<and>
    s1 = s\<lparr>rw_resources := t, wait_que := wait_que s @ map (\<lambda>v. node_copy (node_of G v)) vs,
           fix_io_res := fix_io_res s @ map fixed_io (registed_outs G), graph_p := Some G\<rparr> \<and>
    dom t = dom (rw_resources s) \<union> name_of G ` set is \<and>
    tag_granted t = tag_granted (rw_resources s) - name_of G ` set is"
proof -
  obtain ins where ins: "get_graph_ins (vg G) = Inr ins" using ins_total by blast
  have "ins \<noteq> []"
    using assms(2) ins by (auto simp: reg_io_resource_def scan_edges_def bfs_edge_void_def bfs_edge_def)
  then show ?thesis using registering [OF assms(1) ins, of s] assms(2) by simp
qed

definition fresh :: "'m sched_scheme \<Rightarrow> bool" where
  "fresh s \<longleftrightarrow> exec_que s = [] \<and> wait_que s = [] \<and> exec_ops s = [] \<and> rw_resources s = Map.empty"

lemma fresh_new [simp]: "fresh new_sched"
  by (simp add: fresh_def new_sched_def)

lemma registered_plan:
  assumes "wf_vgraph G" "fresh s0" "reg_io_resource G s0 = Inr s"
    and "code_plan G (wait_que s) (rw_resources s) = (l, r, u)"
  shows "mset (map node_name (wait_que s)) = mset (map node_name l) + mset (map node_name r)"
    "distinct (map node_name l @ map node_name r)"
    "set (map node_name l) \<union> set (map node_name r) = reached G"
    "graph_p s = Some G" "exec_que s = []" "exec_ops s = []"
    "node_name ` set (wait_que s) \<subseteq> set (vertex_names (vg G))"
    "\<And>i p w. i < length l \<Longrightarrow> (p, node_name (l ! i)) \<in> edges (vg G) \<Longrightarrow> p \<in> set (take i (map node_name l))"
    "\<And>w. w \<in> set (map node_name r) \<Longrightarrow>
       \<exists>p. (p, w) \<in> edges (vg G) \<and> (p \<notin> reached G \<or> p \<in> set (map node_name r))"
proof -
  obtain vs "is" t where reg: "distinct vs" "set vs = reached G" "set vs \<subseteq> set (vertex_names (vg G))"
    "set is = {i. \<exists>a. (i, a) \<in> set (arcs (vg G)) \<and> arc_bottom a \<in> reached G}"
    "s = s0\<lparr>rw_resources := t, wait_que := wait_que s0 @ map (\<lambda>v. node_copy (node_of G v)) vs,
           fix_io_res := fix_io_res s0 @ map fixed_io (registed_outs G), graph_p := Some G\<rparr>"
    "dom t = dom (rw_resources s0) \<union> name_of G ` set is"
    "tag_granted t = tag_granted (rw_resources s0) - name_of G ` set is"
    using registered [OF assms(1,3)] by blast
  have g0: "tag_granted (rw_resources s) = {}" "dom (rw_resources s) = name_of G ` set is"
    using reg(5-7) assms(2) by (auto simp: fresh_def tag_granted_def)
  have wq: "map node_name (wait_que s) = vs"
    using reg(3,5) assms(2) node_of_name(1) [OF assms(1)] by (auto simp: fresh_def comp_def intro!: map_idI)
  have ps: "mset (wait_que s) = mset l + mset r"
    "tag_granted u = tag_granted (rw_resources s) \<union> ((\<Union>x \<in> set l. set (outs_of G x)) \<inter> dom (rw_resources s))"
    "supplied (tag_granted (rw_resources s)) (ins_of G) (outs_of G) l"
    "\<And>x. x \<in> set r \<Longrightarrow> \<not> set (ins_of G x) \<subseteq> tag_granted u"
    using code_tag.plan_spec [OF assms(4)] by blast+
  show ms: "mset (map node_name (wait_que s)) = mset (map node_name l) + mset (map node_name r)"
    using ps(1) by simp
  then have ms': "mset vs = mset (map node_name l @ map node_name r)" using wq by simp
  show "distinct (map node_name l @ map node_name r)"
    using ms' reg(1) mset_eq_imp_distinct_iff by blast
  show un: "set (map node_name l) \<union> set (map node_name r) = reached G"
    using mset_eq_setD [OF ms'] reg(2) by simp
  show "graph_p s = Some G" "exec_que s = []" "exec_ops s = []" using reg(5) assms(2) by (simp_all add: fresh_def)
  show "node_name ` set (wait_que s) \<subseteq> set (vertex_names (vg G))"
    using wq reg(3) by (metis list.set_map)
  show "p \<in> set (take i (map node_name l))" if i: "i < length l" and e: "(p, node_name (l ! i)) \<in> edges (vg G)" for i p
  proof -
    obtain j a where a: "(j, a) \<in> set (arcs (vg G))" "arc_bottom a = p" "arc_top a = node_name (l ! i)"
      using e by (auto simp: edges_def ends_def)
    then have "io_name (weight a) \<in> set (ins_of G (l ! i))" using in_names_iff [OF assms(1)] by blast
    then obtain x where x: "x \<in> set (take i l)" "io_name (weight a) \<in> set (outs_of G x)"
      using ps(3) i g0(1) unfolding supplied_def by blast
    then obtain k b where "(k, b) \<in> set (arcs (vg G))" "arc_bottom b = node_name x" "io_name (weight b) = io_name (weight a)"
      using out_names_iff [OF assms(1)] by blast
    then have "p = node_name x" using wf_vgraphD(3) [OF assms(1)] a by blast
    then show ?thesis using x(1) by (simp add: take_map)
  qed
  show "\<exists>p. (p, w) \<in> edges (vg G) \<and> (p \<notin> reached G \<or> p \<in> set (map node_name r))"
    if w: "w \<in> set (map node_name r)" for w
  proof -
    obtain x where x: "x \<in> set r" "w = node_name x" using w by auto
    then obtain nm where nm: "nm \<in> set (ins_of G x)" "nm \<notin> tag_granted u" using ps(4) by blast
    then obtain j a where a: "(j, a) \<in> set (arcs (vg G))" "arc_top a = w" "io_name (weight a) = nm"
      using in_names_iff [OF assms(1)] x(2) by blast
    have e: "(arc_bottom a, w) \<in> edges (vg G)" using a by (force simp: edges_def ends_def)
    have "arc_bottom a \<notin> set (map node_name l)" if R: "arc_bottom a \<in> reached G"
    proof
      assume "arc_bottom a \<in> set (map node_name l)"
      then obtain y where y: "y \<in> set l" "node_name y = arc_bottom a" by auto
      then have "nm \<in> set (outs_of G y)" using out_names_iff [OF assms(1)] a by metis
      moreover have "nm \<in> dom (rw_resources s)"
        using a R name_of_arc [OF assms(1) a(1)] unfolding g0(2) reg(4)
        by (intro image_eqI [where x = j]) auto
      ultimately show False using ps(2) nm(2) y(1) by blast
    qed
    then show ?thesis using e un by blast
  qed
qed

lemma finite_edges: "finite (edges g)"
  by (simp add: edges_def)

text \<open>In an acyclic graph the inputs reach every vertex that has an arc.\<close>

lemma sources_reach:
  assumes "acyclic (edges g)"
  shows "(edges g)\<^sup>* `` {b. (\<exists>t. (b, t) \<in> edges g) \<and> (\<forall>u. (u, b) \<notin> edges g)} = fst ` edges g \<union> snd ` edges g"
    (is "?R = _")
proof
  show "?R \<subseteq> fst ` edges g \<union> snd ` edges g"
  proof
    fix v
    assume "v \<in> ?R"
    then obtain b t where "(b, v) \<in> (edges g)\<^sup>*" "(b, t) \<in> edges g" by blast
    then show "v \<in> fst ` edges g \<union> snd ` edges g"
      by (cases rule: rtranclE) (metis UnCI fst_conv snd_conv image_eqI)+
  qed
  have b: "b \<in> ?R" if e: "(b, t) \<in> edges g" for b t
  proof -
    obtain s where s: "\<forall>u. (u, s) \<notin> edges g" "(s, b) \<in> (edges g)\<^sup>*"
      using acyclic_reached [OF finite_edges assms] by blast
    moreover have "\<exists>t. (s, t) \<in> edges g" using s(2) e by (cases rule: converse_rtranclE) auto
    ultimately show ?thesis by blast
  qed
  have "t \<in> ?R" if "(b, t) \<in> edges g" for b t
    using b [OF that] that by (blast intro: rtrancl_into_rtrancl)
  then show "fst ` edges g \<union> snd ` edges g \<subseteq> ?R" using b by auto
qed

lemma reached_acyclic:
  assumes "wf_vgraph G" "acyclic (edges (vg G))"
  shows "reached G = fst ` edges (vg G) \<union> snd ` edges (vg G)"
  unfolding reached_def by (rule sources_reach [OF assms(2)])

lemma inputs_exist:
  assumes "wf_graph g" "linked g" "acyclic (edges g)" "edges g \<noteq> {}"
  obtains ins where "get_graph_ins g = Inr ins" "ins \<noteq> []" "(edges g)\<^sup>* `` set ins = fst ` edges g \<union> snd ` edges g"
proof -
  obtain ins where ins: "get_graph_ins g = Inr ins" using ins_total by blast
  have "(edges g)\<^sup>* `` set ins = fst ` edges g \<union> snd ` edges g"
    unfolding get_graph_ins_spec(1) [OF assms(1,2) ins] by (rule sources_reach [OF assms(3)])
  moreover have "ins \<noteq> []" using calculation assms(4) by auto
  ultimately show ?thesis using that ins by blast
qed

text \<open>What the plan of a registered graph comes to.\<close>

lemma plan_topo:
  assumes "wf_vgraph G" "fresh s0" "reg_io_resource G s0 = Inr s"
    and "code_plan G (wait_que s) (rw_resources s) = (l, [], u)"
  shows "topo (edges (vg G)) (map node_name l)" "set (map node_name l) = reached G"
proof -
  note rp = registered_plan [OF assms]
  show "topo (edges (vg G)) (map node_name l)" unfolding topo_def using rp(2,8) by simp
  show "set (map node_name l) = reached G" using rp(3) by simp
qed

lemma plan_acyclic:
  assumes "wf_vgraph G" "fresh s0" "reg_io_resource G s0 = Inr s" "acyclic (edges (vg G))"
    and "code_plan G (wait_que s) (rw_resources s) = (l, r, u)"
  shows "r = []"
proof (rule ccontr)
  assume "r \<noteq> []"
  then have "set (map node_name r) \<noteq> {}" by simp
  then obtain w where w: "w \<in> set (map node_name r)" "\<forall>u. (u, w) \<in> edges (vg G) \<longrightarrow> u \<notin> set (map node_name r)"
    using acyclic_min [OF finite_edges assms(4)] by blast
  obtain q where q: "(q, w) \<in> edges (vg G)" "q \<notin> reached G \<or> q \<in> set (map node_name r)"
    using registered_plan(9) [OF assms(1-3,5) w(1)] by blast
  then show False using w(2) reached_acyclic [OF assms(1,4)] by force
qed

lemma plan_cycle:
  assumes "wf_vgraph G" "fresh s0" "reg_io_resource G s0 = Inr s" "v \<in> reached G" "(v, v) \<in> (edges (vg G))\<^sup>+"
    and "code_plan G (wait_que s) (rw_resources s) = (l, r, u)"
  shows "r \<noteq> []"
proof
  assume "r = []"
  then show False
    using plan_topo [OF assms(1-3), of l u] assms(4,6) topo_no_cycle [OF _ assms(5)] by metis
qed

lemma run_cases:
  assumes "wf_vgraph G" "reg_io_resource G new_sched = Inr s"
    and "code_plan G (wait_que s) (rw_resources s) = (l, r, u)"
  shows "r = [] \<Longrightarrow> \<exists>t G'. run s = Inr t \<and> graph_p t = Some G' \<and> vg G' = vg G \<and>
      nodes_exec_order G' = map node_name l \<and> topo (edges (vg G)) (map node_name l) \<and>
      set (map node_name l) = reached G"
    "r \<noteq> [] \<Longrightarrow> run s = Inl CheckFailed"
proof -
  note rp = registered_plan [OF assms(1) fresh_new assms(2,3)]
  have names: "map node_name (map node_copy l) = map node_name l"
  proof -
    have "node_name (node_copy n) = node_name n" for n by (cases n) simp
    then show ?thesis by simp
  qed
  have loop: "run_loop s = (if r = [] then Inr (s\<lparr>wait_que := [], exec_que := exec_que s @ map node_copy l, rw_resources := u\<rparr>)
         else Inl CheckFailed)"
    using run_loop_plan [OF assms(1) rp(4,7)] assms(3) by simp
  show "run s = Inl CheckFailed" if "r \<noteq> []" using loop that by (simp add: run_def)
  assume r: "r = []"
  have "topo (edges (vg G)) (map node_name l)"
    using plan_topo(1) [OF assms(1) fresh_new assms(2), of l u] assms(3) r by simp
  then show "\<exists>t G'. run s = Inr t \<and> graph_p t = Some G' \<and> vg G' = vg G \<and>
      nodes_exec_order G' = map node_name l \<and> topo (edges (vg G)) (map node_name l) \<and>
      set (map node_name l) = reached G"
    using loop r rp(3-6) names
    by (simp add: run_def get_exec_node_in_order_def get_exec_que_def Let_def the_graph_def set_exec_order_def comp_def)
qed

lemma run_topological_order:
  assumes "wf_vgraph G" "reg_io_resource G new_sched = Inr s" "run s = Inr t"
  shows "\<exists>G'. graph_p t = Some G' \<and> vg G' = vg G \<and>
    topo (edges (vg G)) (nodes_exec_order G') \<and> set (nodes_exec_order G') = reached G"
proof -
  obtain l r u where p: "code_plan G (wait_que s) (rw_resources s) = (l, r, u)"
    by (cases "code_plan G (wait_que s) (rw_resources s)") auto
  show ?thesis using run_cases [OF assms(1,2) p] assms(3) by (cases "r = []") auto
qed

lemma registering_returns:
  assumes "wf_vgraph G" "acyclic (edges (vg G))" "edges (vg G) \<noteq> {}"
  shows "\<exists>s1. reg_io_resource G s = Inr s1"
proof -
  obtain ins where ins: "get_graph_ins (vg G) = Inr ins" "ins \<noteq> []"
    by (rule inputs_exist [OF wf_vgraphD(1,2) [OF assms(1)] assms(2,3)])
  from registering [OF assms(1) ins, of s] show ?thesis by (elim exE conjE) (rule exI)
qed

lemma order_after_run:
  assumes "run s = Inr t" "graph_p t = Some H"
  shows "fst (get_exec_node_in_order t) = nodes_exec_order H"
proof -
  obtain s1 where s1: "run_loop s = Inr s1" "(case get_exec_node_in_order s1 of (order, s2) \<Rightarrow>
      bindE (the_graph s2) (\<lambda>G. Inr (s2\<lparr>graph_p := Some (set_exec_order order G)\<rparr>))) = Inr t"
    using assms(1) by (auto simp: run_def)
  let ?ops = "exec_ops s1 @ exec_que s1"
  obtain G where G: "t = s1\<lparr>exec_ops := ?ops, exec_que := [], graph_p := Some (set_exec_order (map node_name ?ops) G)\<rparr>"
    using s1(2) by (auto simp: get_exec_node_in_order_def get_exec_que_def Let_def)
  then have "H = set_exec_order (map node_name ?ops) G" using assms(2) by simp
  then show ?thesis using G by (simp add: get_exec_node_in_order_def get_exec_que_def Let_def set_exec_order_def)
qed

lemma run_acyclic_total:
  assumes "wf_vgraph G" "reg_io_resource G new_sched = Inr s" "acyclic (edges (vg G))"
  shows "\<exists>t. run s = Inr t"
proof -
  obtain l r u where p: "code_plan G (wait_que s) (rw_resources s) = (l, r, u)"
    by (cases "code_plan G (wait_que s) (rw_resources s)") auto
  show ?thesis using run_cases(1) [OF assms(1,2) p] plan_acyclic [OF assms(1) fresh_new assms(2,3) p] by blast
qed

lemma run_cycle_aborts:
  assumes "wf_vgraph G" "reg_io_resource G new_sched = Inr s" "v \<in> reached G" "(v, v) \<in> (edges (vg G))\<^sup>+"
  shows "run s = Inl CheckFailed"
proof -
  obtain l r u where p: "code_plan G (wait_que s) (rw_resources s) = (l, r, u)"
    by (cases "code_plan G (wait_que s) (rw_resources s)") auto
  show ?thesis
    using run_cases(2) [OF assms(1,2) p] plan_cycle [OF assms(1) fresh_new assms(2-4) p] by blast
qed

end
