(* ===== verification/Scheduler_Properties.thy ===== *)
theory Scheduler_Properties
  imports Dep_Scheduler_Facts
begin

text \<open>
  The properties of the dependency scheduler, with two small graphs for the witnesses: a diamond,
  and a graph in which two arcs get the same name.
\<close>

definition edge_io :: "string \<Rightarrow> string \<Rightarrow> io" where
  "edge_io b t = io_default\<lparr>io_name := arc_name \<lparr>arc_bottom = b, arc_top = t, weight = io_default\<rparr>\<rparr>"

definition plain_node :: "string \<Rightarrow> node" where
  "plain_node v = Node v ''Relu'' None None [] [] [] 0 False"

text \<open>The graph that \<open>add_vertex\<close>, \<open>add_in_arc\<close> and \<open>add_out_arc\<close> build from names and pairs.\<close>

definition build :: "string list \<Rightarrow> (string \<times> string) list \<Rightarrow> vgraph outcome" where
  "build vs es =
     bindE (foldE (\<lambda>(b, t) g. bindE (add_in_arc \<lparr>arc_bottom = b, arc_top = t, weight = edge_io b t\<rparr> g)
                                (add_out_arc \<lparr>arc_bottom = b, arc_top = t, weight = edge_io b t\<rparr>))
              es (fold (\<lambda>v. add_vertex v (plain_node v)) vs empty_graph)) (\<lambda>g.
     Inr (empty_vgraph\<lparr>vg := g\<rparr>))"

lemma build_wf:
  assumes "build vs es = Inr G"
  shows "wf_graph (vg G)" "linked (vg G)"
proof -
  let ?g0 = "fold (\<lambda>v. add_vertex v (plain_node v)) vs empty_graph :: (string, node, io) graph"
  have "wf_graph (fold (\<lambda>v. add_vertex v (plain_node v)) ws g) \<and> linked (fold (\<lambda>v. add_vertex v (plain_node v)) ws g)"
    if "wf_graph g" "linked g" for ws and g :: "(string, node, io) graph"
    using that by (induction ws arbitrary: g) (simp_all add: add_vertex_wf)
  then have g0: "wf_graph ?g0 \<and> linked ?g0" by simp
  obtain g where g: "foldE (\<lambda>(b, t) g. connect \<lparr>arc_bottom = b, arc_top = t, weight = edge_io b t\<rparr> g) es ?g0 = Inr g"
    "vg G = g"
    using assms by (auto simp: build_def connect_def empty_vgraph_def)
  have "wf_graph g \<and> linked g"
    by (rule foldE_invariant [OF g(1), of "\<lambda>h. wf_graph h \<and> linked h"]) (use g0 connect_wf in \<open>auto split: prod.splits\<close>)
  then show "wf_graph (vg G)" "linked (vg G)" using g(2) by simp_all
qed

definition built :: "string list \<Rightarrow> (string \<times> string) list \<Rightarrow> vgraph" where
  "built vs es = (case build vs es of Inr G \<Rightarrow> G | Inl _ \<Rightarrow> empty_vgraph)"

definition well_named :: "vgraph \<Rightarrow> bool" where
  "well_named G \<longleftrightarrow> distinct (map (\<lambda>(i, a). io_name (weight a)) (arcs (vg G))) \<and>
     list_all (\<lambda>(v, n). node_name n = v) (vertices (vg G))"

lemma built_wf: "well_named (built vs es) \<Longrightarrow> wf_vgraph (built vs es)"
  using build_wf [of vs es]
  by (auto simp: built_def well_named_def wf_vgraph_def list_all_iff empty_vgraph_def split: sum.splits)

text \<open>The order that registering a graph and running a fresh scheduler leaves in the graph.\<close>

definition schedule_of :: "vgraph \<Rightarrow> string list outcome" where
  "schedule_of G =
     bindE (reg_io_resource G new_sched) (\<lambda>s. bindE (run s) (\<lambda>t. bindE (the_graph t) (\<lambda>H. Inr (nodes_exec_order H))))"

lemma schedule_ofD:
  assumes "schedule_of G = Inr ns"
  obtains s t H where "reg_io_resource G new_sched = Inr s" "run s = Inr t" "graph_p t = Some H" "nodes_exec_order H = ns"
  using assms by (auto simp: schedule_of_def the_graph_def split: option.splits)

section \<open>Properties\<close>

definition demo_vgraph :: vgraph where
  "demo_vgraph = built [''a'', ''b'', ''c'', ''d''] [(''a'', ''b''), (''a'', ''c''), (''b'', ''d''), (''c'', ''d'')]"

lemma demo_vgraph_wf: "wf_vgraph demo_vgraph"
  unfolding demo_vgraph_def by (rule built_wf) code_simp

lemma demo_vgraph_edges: "edges (vg demo_vgraph) = {(''a'', ''b''), (''a'', ''c''), (''b'', ''d''), (''c'', ''d'')}"
proof -
  have "map (ends \<circ> snd) (arcs (vg demo_vgraph)) = [(''a'', ''b''), (''a'', ''c''), (''b'', ''d''), (''c'', ''d'')]"
    by code_simp
  from arg_cong [OF this, of set] show ?thesis by (simp add: edges_def)
qed

text \<open>C1: A run of the dependency scheduler on a registered graph that returns leaves in the graph an execution
  order of exactly the vertices that the inputs reach, each once, in which every predecessor of an
  operator comes before it, and leaves the graph itself as it was.\<close>

theorem schedule_is_topological:
  assumes "wf_vgraph G" "reg_io_resource G new_sched = Inr s" "run s = Inr t"
  shows "\<exists>H. graph_p t = Some H \<and> vg H = vg G \<and>
    topo (edges (vg G)) (nodes_exec_order H) \<and> set (nodes_exec_order H) = reached G"
  by (rule run_topological_order [OF assms])

theorem schedule_is_topological_witness:
  "schedule_of demo_vgraph = Inr [''a'', ''b'', ''c'', ''d''] \<and>
   topo (edges (vg demo_vgraph)) [''a'', ''b'', ''c'', ''d'']"
proof -
  have "schedule_of demo_vgraph = Inr [''a'', ''b'', ''c'', ''d'']" by code_simp
  then obtain s t H where "reg_io_resource demo_vgraph new_sched = Inr s" "run s = Inr t" "graph_p t = Some H"
    "nodes_exec_order H = [''a'', ''b'', ''c'', ''d'']" by (rule schedule_ofD)
  then show ?thesis
    using schedule_is_topological [OF demo_vgraph_wf] \<open>schedule_of demo_vgraph = _\<close> by fastforce
qed

text \<open>C2: On an acyclic graph the run always returns, and its order has every vertex that has an arc.\<close>

theorem schedule_acyclic_returns:
  assumes "wf_vgraph G" "acyclic (edges (vg G))" "reg_io_resource G new_sched = Inr s"
  shows "\<exists>t H. run s = Inr t \<and> graph_p t = Some H \<and>
    set (nodes_exec_order H) = fst ` edges (vg G) \<union> snd ` edges (vg G)"
  using run_acyclic_total [OF assms(1,3,2)] run_topological_order [OF assms(1,3)] reached_acyclic [OF assms(1,2)]
  by metis

theorem schedule_acyclic_returns_witness:
  "\<exists>s t. reg_io_resource demo_vgraph new_sched = Inr s \<and> run s = Inr t"
proof -
  have "acyclic (edges (vg demo_vgraph))"
    by (rule acyclicI_order [where f = "\<lambda>v. - (of_char (hd v) :: int)"]) (auto simp: demo_vgraph_edges)
  moreover have "schedule_of demo_vgraph = Inr [''a'', ''b'', ''c'', ''d'']" by code_simp
  ultimately show ?thesis
    using schedule_acyclic_returns [OF demo_vgraph_wf] by (auto elim!: schedule_ofD)
qed

text \<open>C3: If a vertex that the inputs reach lies on a cycle, the run aborts: \<open>Scheduler::Run\<close> notices that a
  walk over the wait queue has launched nothing, and does not run for ever.\<close>

theorem schedule_cycle_aborts:
  assumes "wf_vgraph G" "reg_io_resource G new_sched = Inr s" "v \<in> reached G" "(v, v) \<in> (edges (vg G))\<^sup>+"
  shows "run s = Inl CheckFailed"
  by (rule run_cycle_aborts [OF assms])

definition cyclic_vgraph :: vgraph where
  "cyclic_vgraph = built [''a'', ''b'', ''c''] [(''a'', ''b''), (''b'', ''c''), (''c'', ''b'')]"

lemma cyclic_facts:
  "wf_vgraph cyclic_vgraph" "''b'' \<in> reached cyclic_vgraph" "(''b'', ''b'') \<in> (edges (vg cyclic_vgraph))\<^sup>+"
proof -
  show "wf_vgraph cyclic_vgraph" unfolding cyclic_vgraph_def by (rule built_wf) code_simp
  have "map (ends \<circ> snd) (arcs (vg cyclic_vgraph)) = [(''a'', ''b''), (''b'', ''c''), (''c'', ''b'')]" by code_simp
  from arg_cong [OF this, of set]
  have e: "edges (vg cyclic_vgraph) = {(''a'', ''b''), (''b'', ''c''), (''c'', ''b'')}" by (simp add: edges_def)
  then have "(''b'', ''c'') \<in> edges (vg cyclic_vgraph)" "(''c'', ''b'') \<in> edges (vg cyclic_vgraph)" by simp_all
  then show "(''b'', ''b'') \<in> (edges (vg cyclic_vgraph))\<^sup>+" by (meson trancl.simps)
  show "''b'' \<in> reached cyclic_vgraph" unfolding reached_def e by (auto intro!: r_into_rtrancl)
qed

theorem schedule_cycle_aborts_witness:
  "\<exists>s. reg_io_resource cyclic_vgraph new_sched = Inr s \<and> run s = Inl CheckFailed"
proof -
  have "(case reg_io_resource cyclic_vgraph new_sched of Inr _ \<Rightarrow> True | Inl _ \<Rightarrow> False)" by code_simp
  then obtain s where s: "reg_io_resource cyclic_vgraph new_sched = Inr s" by (auto split: sum.splits)
  then show ?thesis using schedule_cycle_aborts [OF cyclic_facts(1) s cyclic_facts(2,3)] by blast
qed

text \<open>Arc names do not identify arcs: \<open>Arc::name\<close> joins the two ends with an underscore, so the arcs
  from \<open>a\<close> to \<open>b_c\<close> and from \<open>a_b\<close> to \<open>c\<close> are one resource for the scheduler, and on this acyclic graph
  it launches \<open>c\<close> before its predecessor \<open>a_b\<close>.\<close>

definition clash_vgraph :: vgraph where
  "clash_vgraph = built [''a'', ''z'', ''a_b'', ''c'', ''b_c'']
     [(''a'', ''b_c''), (''z'', ''a_b''), (''a_b'', ''c''), (''a'', ''c'')]"

lemma schedule_name_clash:
  "schedule_of clash_vgraph = Inr [''a'', ''z'', ''b_c'', ''c'', ''a_b''] \<and>
   has_arc (vg clash_vgraph) ''a_b'' ''c''"
proof
  show "schedule_of clash_vgraph = Inr [''a'', ''z'', ''b_c'', ''c'', ''a_b'']" by code_simp
  show "has_arc (vg clash_vgraph) ''a_b'' ''c''" by code_simp
qed

end
