(* ===== verification/Parall_Scheduler.thy ===== *)
theory Parall_Scheduler
  imports Dep_Scheduler
begin

text \<open>
  The scheduler that assigns operators to streams (lanes),
  \<open>framework/graph/llvm/optimizer/parall_scheduler.h\<close> and \<open>parall_scheduler.cpp\<close>. The map
  \<open>_map_io_to_lane\<close> is keyed by the name of the tensor; reading it adds a missing entry 0.
\<close>

type_synonym lane_map = "string \<Rightarrow> int option"

definition lane_read :: "string \<Rightarrow> lane_map \<Rightarrow> int \<times> lane_map" where
  "lane_read r m = (case m r of Some l \<Rightarrow> (l, m) | None \<Rightarrow> (0, m(r \<mapsto> 0)))"

text \<open>\<open>map_io_to_vgraph\<close> writes the lane of a tensor into the arc that carries it.\<close>

definition map_io :: "string \<Rightarrow> arc_id \<Rightarrow> lane_map \<times> vgraph \<Rightarrow> (status \<times> lane_map \<times> vgraph) outcome" where
  "map_io r i = (\<lambda>(m, G).
     bindE (deref (vg G) i) (\<lambda>a.
     if io_name (weight a) = r then
       (case lane_read r m of (l, m') \<Rightarrow> Inr (EXIT, (m', set_weight i (\<lambda>w. w\<lparr>io_lane := l\<rparr>) G)))
     else Inr (OK, (m, G))))"

definition map_io_to_vgraph :: "string \<Rightarrow> lane_map \<times> vgraph \<Rightarrow> (lane_map \<times> vgraph) outcome" where
  "map_io_to_vgraph r = scan_edges_until snd (map_io r)"

text \<open>\<open>SyncFlagController::init\<close>: one lane for each entry of the list of inputs.\<close>

definition init_lane :: "string \<Rightarrow> int \<times> lane_map \<times> vgraph \<Rightarrow> (int \<times> lane_map \<times> vgraph) outcome" where
  "init_lane name = (\<lambda>(lane, m, G).
     bindE (upd_node name (set_lane lane) G) (\<lambda>G1.
     bindE (get_out_arc_its (vg G1) name) (\<lambda>its.
     bindE (check (length its = 1)) (\<lambda>_.
     bindE (deref (vg G1) (hd its)) (\<lambda>a.
     bindE (map_io_to_vgraph (io_name (weight a)) (m(io_name (weight a) \<mapsto> lane), G1)) (\<lambda>(m2, G2).
     bindE (upd_node name (set_lane lane) G2) (\<lambda>G3.
     bindE (upd_node name (set_need_wait False) G3) (\<lambda>G4.
     Inr (lane + 1, m2, G4)))))))))"

definition init_lanes :: "lane_map \<times> vgraph \<Rightarrow> (lane_map \<times> vgraph) outcome" where
  "init_lanes = (\<lambda>(m, G).
     bindE (get_graph_ins (vg G)) (\<lambda>names.
     bindE (foldE init_lane names (0, m, G)) (\<lambda>(_, mG). Inr mG)))"

text \<open>The lanes that the loop of \<open>node_sync_flags\<close> collects, in order and each once.\<close>

fun collect_lanes :: "string list \<Rightarrow> lane_map \<Rightarrow> int list \<Rightarrow> int list \<times> lane_map" where
  "collect_lanes [] m lanes = (lanes, m)"
| "collect_lanes (r # rs) m lanes =
     (case lane_read r m of (l, m') \<Rightarrow>
        collect_lanes rs m' (if l \<in> set lanes then lanes else lanes @ [l]))"

definition node_sync_flags :: "string \<Rightarrow> lane_map \<times> vgraph \<Rightarrow> (lane_map \<times> vgraph) outcome" where
  "node_sync_flags name = (\<lambda>(m, G).
     bindE (in_weights G name) (\<lambda>ios.
     if length ios = 0 then Inr (m, G)
     else case collect_lanes (map io_name ios) m [] of (lanes, m') \<Rightarrow>
       bindE (if length lanes \<ge> 2 then upd_node name (set_need_wait True) G else Inr G) (\<lambda>G1.
       bindE (upd_node name (set_lane (hd lanes)) G1) (\<lambda>G2. Inr (m', G2)))))"

definition io_sync :: "int \<Rightarrow> arc_id \<Rightarrow> lane_map \<times> vgraph \<Rightarrow> (lane_map \<times> vgraph) outcome" where
  "io_sync l i = (\<lambda>(m, G).
     bindE (deref (vg G) i) (\<lambda>a.
     map_io_to_vgraph (io_name (weight a)) (m(io_name (weight a) \<mapsto> l), G)))"

definition io_sync_flags :: "string \<Rightarrow> lane_map \<times> vgraph \<Rightarrow> (lane_map \<times> vgraph) outcome" where
  "io_sync_flags name = (\<lambda>(m, G).
     bindE (vertex_at (vg G) name) (\<lambda>n.
     bindE (get_out_arc_its (vg G) name) (\<lambda>its. foldE (io_sync (lane n)) its (m, G))))"

section \<open>The scheduler\<close>

record parall_sched = sched +
  map_io_to_lane :: lane_map

text \<open>A function of the controller, run on the graph that the scheduler points to.\<close>

definition on_lanes :: "(lane_map \<times> vgraph \<Rightarrow> (lane_map \<times> vgraph) outcome) \<Rightarrow>
    'm parall_sched_scheme \<Rightarrow> 'm parall_sched_scheme outcome" where
  "on_lanes f s =
     bindE (the_graph s) (\<lambda>G.
     bindE (f (map_io_to_lane s, G)) (\<lambda>(m, G').
     Inr (s\<lparr>map_io_to_lane := m, graph_p := Some G'\<rparr>)))"

definition parall_launch :: "node \<Rightarrow> 'm parall_sched_scheme \<Rightarrow> 'm parall_sched_scheme outcome" where
  "parall_launch n s =
     bindE (on_lanes (node_sync_flags (node_name n)) s) (\<lambda>s1.
     bindE (launch n s1) (\<lambda>s2.
     on_lanes (io_sync_flags (node_name n)) s2))"

text \<open>The loop has no check for progress: \<open>k\<close> bounds the walks over the wait queue.\<close>

definition parall_run :: "nat \<Rightarrow> 'm parall_sched_scheme \<Rightarrow> 'm parall_sched_scheme outcome" where
  "parall_run k s = bindE (on_lanes init_lanes s) (spin callable parall_launch k)"

text \<open>The scheduler as its constructor leaves it.\<close>

definition new_parall :: parall_sched where
  "new_parall = \<lparr>exec_que = [], wait_que = [], rw_resources = Map.empty, exec_ops = [],
     graph_p = None, fix_io_res = [], map_io_to_lane = Map.empty\<rparr>"

end
