(* ===== verification/Edge_Update.thy ===== *)
theory Edge_Update
  imports Dep_Scheduler_Facts
begin

text \<open>
  Changes that the optimisers make to a virtual graph without touching its shape: to a node, or
  to the tensor of one arc. \<open>shape_of\<close> is what such changes keep; a traversal that looks for the
  arc of a given name and changes its tensor is one update of that arc.
\<close>

section \<open>What the changes keep\<close>

definition shape_of :: "vgraph \<Rightarrow>
    (string list \<times> (arc_id \<times> string \<times> string) list \<times> (string \<Rightarrow> arc_id list) \<times> (string \<Rightarrow> arc_id list) \<times> arc_id) \<times>
    (arc_id \<times> string) list \<times> (string \<times> string) list" where
  "shape_of G = (skel (vg G), map (\<lambda>(i, a). (i, io_name (weight a))) (arcs (vg G)),
     map (\<lambda>(v, n). (v, node_name n)) (vertices (vg G)))"

lemma shape_of_skel: "shape_of H = shape_of G \<Longrightarrow> skel (vg H) = skel (vg G)"
  by (simp add: shape_of_def)

lemma map_of_map_snd: "map_of (map (\<lambda>(i, a). (i, f a)) xs) i = map_option f (map_of xs i)"
  by (induction xs) auto

lemma shape_of_names:
  assumes "shape_of H = shape_of G" "i \<in> fst ` set (arcs (vg G))"
  shows "name_of H i = name_of G i"
proof -
  have "map (\<lambda>(i, a). (i, io_name (weight a))) (arcs (vg H)) = map (\<lambda>(i, a). (i, io_name (weight a))) (arcs (vg G))"
    using assms(1) by (simp add: shape_of_def)
  then have "map_option (\<lambda>a. io_name (weight a)) (map_of (arcs (vg H)) i) = map_option (\<lambda>a. io_name (weight a)) (map_of (arcs (vg G)) i)"
    using map_of_map_snd [of "\<lambda>a. io_name (weight a)"] by metis
  moreover obtain a where "map_of (arcs (vg G)) i = Some a"
    using assms(2) by (metis domD dom_map_of_conv_image_fst)
  ultimately show ?thesis by (auto simp: name_of_def)
qed

lemma shape_of_wf:
  assumes "shape_of H = shape_of G"
  shows "wf_vgraph H = wf_vgraph G"
proof -
  have e: "map (\<lambda>(i, a). io_name (weight a)) (arcs (vg K)) = map snd (map (\<lambda>(i, a). (i, io_name (weight a))) (arcs (vg K)))"
    "(\<forall>(v, n) \<in> set (vertices (vg K)). node_name n = v) =
     (\<forall>(v, x) \<in> set (map (\<lambda>(v, n). (v, node_name n)) (vertices (vg K))). x = v)" for K
    by auto
  have "map (\<lambda>(i, a). (i, io_name (weight a))) (arcs (vg H)) = map (\<lambda>(i, a). (i, io_name (weight a))) (arcs (vg G))"
    "map (\<lambda>(v, n). (v, node_name n)) (vertices (vg H)) = map (\<lambda>(v, n). (v, node_name n)) (vertices (vg G))"
    using assms by (simp_all add: shape_of_def)
  then show ?thesis
    unfolding wf_vgraph_def e using skel_wf(1,2) [OF shape_of_skel [OF assms]] by simp
qed

lemma shape_of_its:
  assumes "shape_of H = shape_of G"
  shows "out_its (vg H) = out_its (vg G)" "in_its (vg H) = in_its (vg G)"
    "vertex_names (vg H) = vertex_names (vg G)" "edges (vg H) = edges (vg G)" "reached H = reached G"
    "get_graph_ins (vg H) = get_graph_ins (vg G)" "graph_size (vg H) = graph_size (vg G)"
proof -
  have s: "skel (vg H) = skel (vg G)" by (rule shape_of_skel [OF assms])
  then show "out_its (vg H) = out_its (vg G)" "in_its (vg H) = in_its (vg G)"
    and v: "vertex_names (vg H) = vertex_names (vg G)" by (auto simp: skel_def)
  show e: "edges (vg H) = edges (vg G)" by (rule skel_wf(3) [OF s])
  then show "reached H = reached G" by (simp add: reached_def)
  show "get_graph_ins (vg H) = get_graph_ins (vg G)" by (rule skel_ins [OF s])
  show "graph_size (vg H) = graph_size (vg G)"
    using arg_cong [OF v, of length] by (simp add: graph_size_def vertex_names_def)
qed

lemma shape_of_in_out_names:
  assumes "shape_of H = shape_of G" "wf_vgraph G"
  shows "in_names H v = in_names G v" "out_names H v = out_names G v"
proof -
  note d = wf_graphD [OF wf_vgraphD(1) [OF assms(2)]]
  have "i \<in> fst ` set (arcs (vg G))" if "i \<in> set (in_its (vg G) v) \<or> i \<in> set (out_its (vg G) v)" for i
    using d(8) [of i v] d(10) [of i v] that by force
  then show "in_names H v = in_names G v" "out_names H v = out_names G v"
    using shape_of_names [OF assms(1)] shape_of_its(1,2) [OF assms(1)]
    by (simp_all add: in_names_def out_names_def)
qed

section \<open>Changing a node or a tensor\<close>

lemma set_weight_shape: "(\<And>w. io_name (f w) = io_name w) \<Longrightarrow> shape_of (set_weight i f G) = shape_of G"
  by (auto simp: shape_of_def skel_def set_weight_def map_arc_def vertex_names_def ends_def)

text \<open>A change of one tensor that is only right for the tensor the arc has.\<close>

lemma set_weight_shape_at:
  assumes "\<And>a. (i, a) \<in> set (arcs (vg G)) \<Longrightarrow> io_name (f (weight a)) = io_name (weight a)"
  shows "shape_of (set_weight i f G) = shape_of G"
  using assms by (auto simp: shape_of_def skel_def set_weight_def map_arc_def vertex_names_def ends_def)

lemma set_vertex_shape:
  assumes "\<And>n. (v, n) \<in> set (vertices (vg G)) \<Longrightarrow> node_name x = node_name n"
  shows "shape_of (G\<lparr>vg := set_vertex v x (vg G)\<rparr>) = shape_of G"
  using assms by (auto simp: shape_of_def skel_def set_vertex_def vertex_names_def)

lemma set_weight_arcs:
  "map_of (arcs (vg (set_weight i f G))) j =
     map_option (\<lambda>a. if j = i then a\<lparr>weight := f (weight a)\<rparr> else a) (map_of (arcs (vg G)) j)"
proof -
  have "map_of (map (\<lambda>(j, a). (j, if j = i then h a else a)) xs) j = map_option (\<lambda>a. if j = i then h a else a) (map_of xs j)"
    for h :: "(string, io) arc \<Rightarrow> (string, io) arc" and xs by (induction xs) auto
  then show ?thesis by (simp add: set_weight_def map_arc_def)
qed

lemma set_weight_nodes [simp]: "vertices (vg (set_weight i f G)) = vertices (vg G)"
  by (simp add: set_weight_def map_arc_def)

lemma upd_node_eq:
  assumes "wf_vgraph G" "v \<in> set (vertex_names (vg G))" "\<And>n. node_name (f n) = node_name n"
  shows "\<exists>H. upd_node v f G = Inr H \<and> shape_of H = shape_of G \<and> arcs (vg H) = arcs (vg G) \<and>
    registed_outs H = registed_outs G \<and>
    (\<forall>u. node_of H u = (if u = v then f (node_of G v) else node_of G u))"
proof -
  let ?H = "G\<lparr>vg := set_vertex v (f (node_of G v)) (vg G)\<rparr>"
  have d: "distinct (map fst (vertices (vg G)))"
    using wf_graphD(1) [OF wf_vgraphD(1) [OF assms(1)]] by (simp add: vertex_names_def)
  have u: "upd_node v f G = Inr ?H" using node_of_name(2) [OF assms(1,2)] by (simp add: upd_node_def)
  have "node_name (f (node_of G v)) = node_name n" if "(v, n) \<in> set (vertices (vg G))" for n
    using that d assms(3) by (simp add: node_of_def)
  then have s: "shape_of ?H = shape_of G" by (rule set_vertex_shape)
  have m: "map_of (map (\<lambda>(n, y). (n, if n = v then x else y)) xs) w =
      (if w = v then map_option (\<lambda>_. x) (map_of xs v) else map_of xs w)" for x :: node and xs and w
    by (induction xs) auto
  have "map_of (vertices (vg G)) v \<noteq> None" using assms(2) by (simp add: vertex_names_def map_of_eq_None_iff)
  then have "node_of ?H w = (if w = v then f (node_of G v) else node_of G w)" for w
    by (auto simp: node_of_def set_vertex_def m)
  then show ?thesis using u s by (auto simp: set_vertex_def)
qed

section \<open>A traversal that changes one tensor\<close>

definition change_named :: "('x \<Rightarrow> 'x) \<Rightarrow> ('x \<Rightarrow> io \<Rightarrow> io) \<Rightarrow> string \<Rightarrow> arc_id \<Rightarrow> 'x \<times> vgraph \<Rightarrow> (status \<times> 'x \<times> vgraph) outcome" where
  "change_named h f r i = (\<lambda>(x, G).
     bindE (deref (vg G) i) (\<lambda>a.
     if io_name (weight a) = r then Inr (EXIT, (h x, set_weight i (f x) G)) else Inr (OK, (x, G))))"

lemma change_named_step:
  assumes "wf_vgraph G" "i \<in> fst ` set (arcs (vg G))"
  shows "change_named h f r i (x, G) =
    Inr (if name_of G i = r then (EXIT, (h x, set_weight i (f x) G)) else (OK, (x, G)))"
proof -
  obtain a where a: "(i, a) \<in> set (arcs (vg G))" using assms(2) by auto
  then have "deref (vg G) i = Inr a" "name_of G i = io_name (weight a)"
    using wf_graphD(2) [OF wf_vgraphD(1) [OF assms(1)]] by (simp_all add: deref_def name_of_def)
  then show ?thesis by (simp add: change_named_def)
qed

lemma name_of_inj:
  assumes "wf_vgraph G" "i \<in> fst ` set (arcs (vg G))" "j \<in> fst ` set (arcs (vg G))" "name_of G i = name_of G j"
  shows "i = j"
  using assms name_of_arc [OF assms(1)] wf_vgraphD(3) [OF assms(1)] by auto

lemma run_exit_change:
  assumes "wf_vgraph G" "set is \<subseteq> fst ` set (arcs (vg G))"
  shows "i \<in> set is \<Longrightarrow> name_of G i = r \<Longrightarrow>
      run_exit (change_named h f r) is (x, G) = Inr (True, (h x, set_weight i (f x) G))"
    "(\<And>i. i \<in> set is \<Longrightarrow> name_of G i \<noteq> r) \<Longrightarrow> run_exit (change_named h f r) is (x, G) = Inr (False, (x, G))"
proof -
  show "run_exit (change_named h f r) is (x, G) = Inr (True, (h x, set_weight i (f x) G))"
    if "i \<in> set is" "name_of G i = r"
    using that assms(2)
  proof (induction "is")
    case (Cons j "is")
    have j: "j \<in> fst ` set (arcs (vg G))" using Cons.prems(3) by simp
    show ?case
    proof (cases "name_of G j = r")
      case True
      moreover have "i \<in> fst ` set (arcs (vg G))" using Cons.prems(1,3) by auto
      ultimately have "i = j" using name_of_inj [OF assms(1) _ j] Cons.prems(2) by simp
      then show ?thesis using True by (simp add: change_named_step [OF assms(1) j])
    next
      case False
      then have "i \<in> set is" using Cons.prems(1,2) by auto
      then show ?thesis using False Cons by (simp add: change_named_step [OF assms(1) j])
    qed
  qed simp
  show "run_exit (change_named h f r) is (x, G) = Inr (False, (x, G))"
    if "\<And>i. i \<in> set is \<Longrightarrow> name_of G i \<noteq> r"
    using that assms(2)
  proof (induction "is")
    case (Cons j "is")
    then show ?case by (simp add: change_named_step [OF assms(1), of j])
  qed simp
qed

lemma set_weight_skel [simp]: "skel (vg (set_weight i f G)) = skel (vg G)"
  by (auto simp: skel_def set_weight_def map_arc_def vertex_names_def ends_def)

lemma change_named_keeps: "keeps_skel (vg \<circ> snd) (change_named h f r)"
  unfolding keeps_skel_def by (auto simp: change_named_def split: if_splits)

lemma scan_change:
  assumes "wf_vgraph G" "get_graph_ins (vg G) = Inr ins" "ins \<noteq> []"
  shows "(i, a) \<in> set (arcs (vg G)) \<Longrightarrow> arc_bottom a \<in> reached G \<Longrightarrow> io_name (weight a) = r \<Longrightarrow>
      scan_edges_until snd (change_named h f r) (x, G) = Inr (h x, set_weight i (f x) G)"
    "(\<And>i a. (i, a) \<in> set (arcs (vg G)) \<Longrightarrow> arc_bottom a \<in> reached G \<Longrightarrow> io_name (weight a) \<noteq> r) \<Longrightarrow>
      scan_edges_until snd (change_named h f r) (x, G) = Inr (x, G)"
proof -
  note w = wf_vgraphD(1,2) [OF assms(1)]
  have "set ins = {b. (\<exists>t. (b, t) \<in> edges (vg G)) \<and> (\<forall>u. (u, b) \<notin> edges (vg G))}"
    by (rule get_graph_ins_spec(1) [OF w assms(2)])
  then obtain "is" where es: "set is = {i. \<exists>a. (i, a) \<in> set (arcs (vg G)) \<and> arc_bottom a \<in> reached G}"
    "scan_edges_until snd (change_named h f r) (x, G) = bindE (run_exit (change_named h f r) is (x, G)) (\<lambda>(_, t). Inr t)"
    using bfs_edge_spec [OF change_named_keeps, of "(x, G)" ins "graph_size (vg G)" h f r] assms w
    by (auto simp: reached_def scan_edges_until_def)
  have sub: "set is \<subseteq> fst ` set (arcs (vg G))" using es(1) by force
  show "scan_edges_until snd (change_named h f r) (x, G) = Inr (h x, set_weight i (f x) G)"
    if "(i, a) \<in> set (arcs (vg G))" "arc_bottom a \<in> reached G" "io_name (weight a) = r"
  proof -
    have "i \<in> set is" "name_of G i = r" using es(1) that name_of_arc [OF assms(1) that(1)] by auto
    then show ?thesis by (simp add: es(2) run_exit_change(1) [OF assms(1) sub])
  qed
  show "scan_edges_until snd (change_named h f r) (x, G) = Inr (x, G)"
    if "\<And>i a. (i, a) \<in> set (arcs (vg G)) \<Longrightarrow> arc_bottom a \<in> reached G \<Longrightarrow> io_name (weight a) \<noteq> r"
  proof -
    have "name_of G i \<noteq> r" if "i \<in> set is" for i
      using that es(1) name_of_arc [OF assms(1)] \<open>\<And>i a. (i, a) \<in> _ \<Longrightarrow> _ \<Longrightarrow> io_name (weight a) \<noteq> r\<close> by force
    then show ?thesis using run_exit_change(2) [OF assms(1) sub, of r h f x] es(2) by simp
  qed
qed

end
