(* ===== verification/Parall_Facts.thy ===== *)
theory Parall_Facts
  imports Parall_Scheduler Edge_Update
begin

text \<open>
  The lanes that the parallel scheduler assigns: every arc carries the lane of its producer, an
  operator runs on the lane of one of its producers, and it waits when another producer runs on
  a different lane. The invariant \<open>synced\<close> is kept by every launch.
\<close>

section \<open>Reading and writing lanes\<close>

definition arc_lane :: "vgraph \<Rightarrow> arc_id \<Rightarrow> int" where
  "arc_lane G i = io_lane (weight (the (map_of (arcs (vg G)) i)))"

definition lane_at :: "vgraph \<Rightarrow> string \<Rightarrow> int" where
  "lane_at G v = lane (node_of G v)"

definition wait_at :: "vgraph \<Rightarrow> string \<Rightarrow> bool" where
  "wait_at G v = need_wait (node_of G v)"

lemma map_io_change:
  "map_io r = change_named (\<lambda>m. snd (lane_read r m)) (\<lambda>m w. w\<lparr>io_lane := fst (lane_read r m)\<rparr>) r"
  by (intro ext) (simp add: map_io_def change_named_def case_prod_unfold cong: if_cong)

lemma set_lane_name [simp]: "node_name (set_lane l n) = node_name n" "node_name (set_need_wait b n) = node_name n"
  "lane (set_lane l n) = l" "need_wait (set_lane l n) = need_wait n"
  "need_wait (set_need_wait b n) = b" "lane (set_need_wait b n) = lane n"
  by (cases n; simp)+

lemma map_io_shape:
  assumes "wf_vgraph G" "get_graph_ins (vg G) = Inr ins" "ins \<noteq> []" "map_io_to_vgraph r (m, G) = Inr (m', G')"
  shows "shape_of G' = shape_of G"
proof -
  let ?f = "\<lambda>m w. w\<lparr>io_lane := fst (lane_read r m)\<rparr>"
  note sc = scan_change [OF assms(1-3), where f = ?f]
  show ?thesis
  proof (cases "\<exists>i a. (i, a) \<in> set (arcs (vg G)) \<and> arc_bottom a \<in> reached G \<and> io_name (weight a) = r")
    case True
    then obtain i a where "(i, a) \<in> set (arcs (vg G))" "arc_bottom a \<in> reached G" "io_name (weight a) = r" by blast
    then have "G' = set_weight i (?f m) G"
      using sc(1) [of i a r "\<lambda>m. snd (lane_read r m)" m] assms(4) by (simp add: map_io_to_vgraph_def map_io_change)
    then show ?thesis using set_weight_shape [of "?f m"] by simp
  next
    case False
    then have "G' = G"
      using sc(2) [of r "\<lambda>m. snd (lane_read r m)" m] assms(4) by (auto simp: map_io_to_vgraph_def map_io_change)
    then show ?thesis by simp
  qed
qed

lemma map_io_hit:
  assumes "wf_vgraph G" "get_graph_ins (vg G) = Inr ins" "ins \<noteq> []"
    and "(i, a) \<in> set (arcs (vg G))" "arc_bottom a \<in> reached G" "io_name (weight a) = r" "m r = Some l"
  shows "map_io_to_vgraph r (m, G) = Inr (m, set_weight i (\<lambda>w. w\<lparr>io_lane := l\<rparr>) G)"
proof -
  let ?f = "\<lambda>m w. w\<lparr>io_lane := fst (lane_read r m)\<rparr>"
  from scan_change(1) [OF assms(1-6), where f = ?f]
  show ?thesis using assms(7) by (simp add: map_io_to_vgraph_def map_io_change lane_read_def)
qed

lemma io_sync_fold:
  assumes "wf_vgraph G" "get_graph_ins (vg G) = Inr ins" "ins \<noteq> []" "v \<in> reached G" "set is \<subseteq> set (out_its (vg G) v)"
  shows "\<exists>m' G'. foldE (io_sync l) is (m, G) = Inr (m', G') \<and> shape_of G' = shape_of G \<and>
    vertices (vg G') = vertices (vg G) \<and>
    (\<forall>j \<in> fst ` set (arcs (vg G)).
       arc_lane G' j = (if j \<in> set is then l else arc_lane G j) \<and>
       m' (name_of G j) = (if j \<in> set is then Some l else m (name_of G j)))"
  using assms
proof (induction "is" arbitrary: m G)
  case Nil
  then show ?case by simp
next
  case (Cons i "is")
  note wf = Cons.prems(1)
  obtain a where a: "(i, a) \<in> set (arcs (vg G))" "arc_bottom a = v"
    using wf_graphD(8) [OF wf_vgraphD(1) [OF wf]] Cons.prems(5) by fastforce
  let ?r = "io_name (weight a)"
  let ?G = "set_weight i (\<lambda>w. w\<lparr>io_lane := l\<rparr>) G" and ?m = "m(?r \<mapsto> l)"
  have der: "deref (vg G) i = Inr a" "name_of G i = ?r"
    using a(1) wf_graphD(2) [OF wf_vgraphD(1) [OF wf]] by (simp_all add: deref_def name_of_def)
  have step: "io_sync l i (m, G) = Inr (?m, ?G)"
    using map_io_hit [OF Cons.prems(1-3) a(1) _ refl, of ?m l] der(1) a(2) Cons.prems(4) by (simp add: io_sync_def)
  have sh: "shape_of ?G = shape_of G" by (rule set_weight_shape) simp
  have wf': "wf_vgraph ?G" using shape_of_wf [OF sh] wf by simp
  have ids: "fst ` set (arcs (vg ?G)) = fst ` set (arcs (vg G))"
    by (force simp: set_weight_def map_arc_def)
  obtain m' G' where ih: "foldE (io_sync l) is (?m, ?G) = Inr (m', G')" "shape_of G' = shape_of ?G"
    "vertices (vg G') = vertices (vg ?G)"
    "\<forall>j \<in> fst ` set (arcs (vg ?G)).
       arc_lane G' j = (if j \<in> set is then l else arc_lane ?G j) \<and>
       m' (name_of ?G j) = (if j \<in> set is then Some l else ?m (name_of ?G j))"
  proof -
    have pre: "get_graph_ins (vg ?G) = Inr ins" "v \<in> reached ?G" "set is \<subseteq> set (out_its (vg ?G) v)"
      using Cons.prems(2,4,5) shape_of_its [OF sh] by simp_all
    show ?thesis using Cons.IH [OF wf' pre(1) Cons.prems(3) pre(2,3), of ?m] that by blast
  qed
  have one: "arc_lane ?G j = (if j = i then l else arc_lane G j) \<and>
        name_of ?G j = name_of G j \<and> (name_of G j = ?r \<longleftrightarrow> j = i)"
    if j: "j \<in> fst ` set (arcs (vg G))" for j
  proof -
    obtain b where b: "map_of (arcs (vg G)) j = Some b" using j by (metis domD dom_map_of_conv_image_fst)
    have "name_of G j = ?r \<longleftrightarrow> j = i"
      using name_of_inj [OF wf j, of i] a(1) der(2) by force
    then show ?thesis using b shape_of_names [OF sh j] by (simp add: arc_lane_def set_weight_arcs)
  qed
  have "arc_lane G' j = (if j \<in> set (i # is) then l else arc_lane G j) \<and>
       m' (name_of G j) = (if j \<in> set (i # is) then Some l else m (name_of G j))"
    if j: "j \<in> fst ` set (arcs (vg G))" for j
    using bspec [OF ih(4) [unfolded ids] j] one [OF j] by (cases "j = i") (simp_all add: der(2))
  then show ?case
    using step ih(1-3) sh by (intro exI [of _ m'] exI [of _ G']) simp
qed

lemma collect_lanes_spec:
  assumes "\<And>r. r \<in> set rs \<Longrightarrow> m r = Some (f r)" "distinct ls"
  shows "\<exists>new. collect_lanes rs m ls = (ls @ new, m) \<and> distinct (ls @ new) \<and> set (ls @ new) = set ls \<union> f ` set rs \<and>
    (ls = [] \<longrightarrow> rs \<noteq> [] \<longrightarrow> hd new = f (hd rs))"
  using assms
proof (induction rs arbitrary: ls)
  case Nil
  then show ?case by simp
next
  case (Cons r rs)
  have m: "m r = Some (f r)" using Cons.prems(1) by simp
  let ?ls = "if f r \<in> set ls then ls else ls @ [f r]"
  obtain new where new: "collect_lanes rs m ?ls = (?ls @ new, m)" "distinct (?ls @ new)"
    "set (?ls @ new) = set ?ls \<union> f ` set rs"
  proof -
    have "distinct ?ls" using Cons.prems(2) by auto
    then show ?thesis using Cons.IH [of ?ls] Cons.prems(1) that by (metis list.set_intros(2))
  qed
  show ?case
  proof (cases "f r \<in> set ls")
    case True
    then show ?thesis using new m by (intro exI [of _ new]) (auto simp: lane_read_def)
  next
    case False
    then show ?thesis using new m by (intro exI [of _ "f r # new"]) (auto simp: lane_read_def)
  qed
qed

lemma two_lanes: "distinct ls \<Longrightarrow> 2 \<le> length ls \<longleftrightarrow> (\<exists>x \<in> set ls. x \<noteq> hd ls)"
  by (cases ls; cases "tl ls") auto

section \<open>One launch\<close>

definition synced :: "lane_map \<Rightarrow> vgraph \<Rightarrow> string set \<Rightarrow> bool" where
  "synced m G L \<longleftrightarrow>
     (\<forall>v \<in> L. \<forall>u. (u, v) \<in> edges (vg G) \<longrightarrow> u \<in> L) \<and>
     (\<forall>v \<in> L. \<forall>i \<in> set (out_its (vg G) v). arc_lane G i = lane_at G v \<and> m (name_of G i) = Some (lane_at G v)) \<and>
     (\<forall>v \<in> L. \<forall>u. (u, v) \<in> edges (vg G) \<longrightarrow> lane_at G u = lane_at G v \<or> wait_at G v) \<and>
     (\<forall>v \<in> L. (\<exists>u. (u, v) \<in> edges (vg G)) \<longrightarrow> (\<exists>u. (u, v) \<in> edges (vg G) \<and> lane_at G u = lane_at G v))"

lemma syncedD:
  assumes "synced m G L" "v \<in> L"
  shows "(u, v) \<in> edges (vg G) \<Longrightarrow> u \<in> L"
    "i \<in> set (out_its (vg G) v) \<Longrightarrow> arc_lane G i = lane_at G v"
    "i \<in> set (out_its (vg G) v) \<Longrightarrow> m (name_of G i) = Some (lane_at G v)"
    "(u, v) \<in> edges (vg G) \<Longrightarrow> lane_at G u = lane_at G v \<or> wait_at G v"
    "(u, v) \<in> edges (vg G) \<Longrightarrow> \<exists>u. (u, v) \<in> edges (vg G) \<and> lane_at G u = lane_at G v"
  using assms unfolding synced_def by blast+

lemma synced_empty: "synced m G {}"
  by (simp add: synced_def)

lemma in_arc_edge:
  assumes "wf_vgraph G" "i \<in> set (in_its (vg G) v)"
  shows "\<exists>u. (u, v) \<in> edges (vg G) \<and> i \<in> set (out_its (vg G) u)"
proof -
  obtain a where a: "(i, a) \<in> set (arcs (vg G))" "arc_top a = v"
    using wf_graphD(10) [OF wf_vgraphD(1) [OF assms(1)] assms(2)] by blast
  then have "i \<in> set (out_its (vg G) (arc_bottom a))"
    using wf_vgraphD(2) [OF assms(1)] by (auto simp: linked_def)
  then show ?thesis using a by (force simp: edges_def ends_def)
qed

lemma edge_in_arc:
  assumes "wf_vgraph G" "(u, v) \<in> edges (vg G)"
  shows "\<exists>i. i \<in> set (in_its (vg G) v) \<and> i \<in> set (out_its (vg G) u)"
  using assms(2) wf_vgraphD(2) [OF assms(1)] by (force simp: edges_def ends_def linked_def)

lemma node_sync_spec:
  assumes "wf_vgraph G" "v \<in> set (vertex_names (vg G))" "synced m G L"
    and "\<And>u. (u, v) \<in> edges (vg G) \<Longrightarrow> u \<in> L"
  shows "\<exists>H. node_sync_flags v (m, G) = Inr (m, H) \<and> shape_of H = shape_of G \<and> arcs (vg H) = arcs (vg G) \<and>
    (\<forall>u. u \<noteq> v \<longrightarrow> node_of H u = node_of G u) \<and>
    (\<forall>u. (u, v) \<in> edges (vg G) \<longrightarrow> lane_at G u = lane_at H v \<or> wait_at H v) \<and>
    ((\<exists>u. (u, v) \<in> edges (vg G)) \<longrightarrow> (\<exists>u. (u, v) \<in> edges (vg G) \<and> lane_at G u = lane_at H v))"
proof -
  obtain ws where ws: "in_weights G v = Inr ws" "map io_name ws = in_names G v"
    using in_out_weights(1) [OF assms(1,2)] by blast
  have lanes: "\<exists>u. (u, v) \<in> edges (vg G) \<and> m r = Some (lane_at G u)" if "r \<in> set (in_names G v)" for r
  proof -
    obtain i where i: "i \<in> set (in_its (vg G) v)" "r = name_of G i" using \<open>r \<in> _\<close> by (auto simp: in_names_def)
    then obtain u where u: "(u, v) \<in> edges (vg G)" "i \<in> set (out_its (vg G) u)" using in_arc_edge [OF assms(1)] by blast
    then show ?thesis using syncedD(3) [OF assms(3) assms(4)] i(2) by blast
  qed
  have pred: "\<exists>r \<in> set (in_names G v). m r = Some (lane_at G u)" if "(u, v) \<in> edges (vg G)" for u
  proof -
    obtain i where "i \<in> set (in_its (vg G) v)" "i \<in> set (out_its (vg G) u)"
      using edge_in_arc [OF assms(1) \<open>(u, v) \<in> _\<close>] by blast
    then show ?thesis using syncedD(3) [OF assms(3) assms(4) [OF \<open>(u, v) \<in> _\<close>]] by (auto simp: in_names_def)
  qed
  show ?thesis
  proof (cases "in_names G v = []")
    case True
    then have "ws = []" "\<forall>u. (u, v) \<notin> edges (vg G)" using ws(2) pred by auto
    then show ?thesis using ws(1) by (intro exI [of _ G]) (simp add: node_sync_flags_def)
  next
    case False
    let ?f = "\<lambda>r. the (m r)"
    have "m r = Some (?f r)" if "r \<in> set (in_names G v)" for r using lanes [OF that] by auto
    then obtain new where new: "collect_lanes (in_names G v) m [] = (new, m)" "distinct new"
      "set new = ?f ` set (in_names G v)"
      using collect_lanes_spec [of "in_names G v" m ?f "[]"] by auto
    have ne: "new \<noteq> []" "ws \<noteq> []" using new(3) False ws(2) by auto
    obtain G1 where G1: "(if length new \<ge> 2 then upd_node v (set_need_wait True) G else Inr G) = Inr G1"
      "shape_of G1 = shape_of G" "arcs (vg G1) = arcs (vg G)" "\<forall>u. u \<noteq> v \<longrightarrow> node_of G1 u = node_of G u"
      "length new \<ge> 2 \<longrightarrow> wait_at G1 v"
      using upd_node_eq [OF assms(1,2), of "set_need_wait True"] by (cases "length new \<ge> 2") (auto simp: wait_at_def)
    have wf1: "wf_vgraph G1" "v \<in> set (vertex_names (vg G1))"
      using shape_of_wf [OF G1(2)] shape_of_its(3) [OF G1(2)] assms(1,2) by simp_all
    obtain H where H: "upd_node v (set_lane (hd new)) G1 = Inr H" "shape_of H = shape_of G1" "arcs (vg H) = arcs (vg G1)"
      "\<forall>u. node_of H u = (if u = v then set_lane (hd new) (node_of G1 v) else node_of G1 u)"
      using upd_node_eq [OF wf1, of "set_lane (hd new)"] by auto
    have lv: "lane_at H v = hd new" "wait_at H v = wait_at G1 v" using H(4) by (simp_all add: lane_at_def wait_at_def)
    have "lane_at G u = hd new \<or> wait_at H v" if "(u, v) \<in> edges (vg G)" for u
      using pred [OF that] new(2,3) two_lanes [of new] G1(5) lv(2) by force
    moreover have "\<exists>u. (u, v) \<in> edges (vg G) \<and> lane_at G u = hd new"
    proof -
      have "hd new \<in> set new" using ne by simp
      then obtain r where "r \<in> set (in_names G v)" "hd new = ?f r" using new(3) by auto
      then show ?thesis using lanes [of r] by auto
    qed
    moreover have "node_sync_flags v (m, G) = Inr (m, H)"
      using ws new(1) ne G1(1) H(1) by (simp add: node_sync_flags_def)
    ultimately show ?thesis using G1 H lv by (intro exI [of _ H]) auto
  qed
qed

lemma parall_launch_spec:
  assumes "wf_vgraph G" "get_graph_ins (vg G) = Inr ins" "ins \<noteq> []" "graph_p s = Some G"
    and "node_name n = v" "v \<in> reached G" "v \<in> set (vertex_names (vg G))" "synced (map_io_to_lane s) G L" "v \<notin> L"
    and preds: "\<And>u. (u, v) \<in> edges (vg G) \<Longrightarrow> u \<in> L"
  shows "\<exists>H m. parall_launch n s = Inr (s\<lparr>exec_que := exec_que s @ [node_copy n],
      rw_resources := tag_free_list (out_names G v) (rw_resources s), graph_p := Some H, map_io_to_lane := m\<rparr>) \<and>
    shape_of H = shape_of G \<and> synced m H (insert v L)"
proof -
  let ?m = "map_io_to_lane s"
  obtain G1 where G1: "node_sync_flags v (?m, G) = Inr (?m, G1)" "shape_of G1 = shape_of G" "arcs (vg G1) = arcs (vg G)"
    "\<forall>u. u \<noteq> v \<longrightarrow> node_of G1 u = node_of G u"
    "\<forall>u. (u, v) \<in> edges (vg G) \<longrightarrow> lane_at G u = lane_at G1 v \<or> wait_at G1 v"
    "(\<exists>u. (u, v) \<in> edges (vg G)) \<longrightarrow> (\<exists>u. (u, v) \<in> edges (vg G) \<and> lane_at G u = lane_at G1 v)"
    using node_sync_spec [OF assms(1,7,8) preds] by auto
  note its1 = shape_of_its [OF G1(2)]
  have wf1: "wf_vgraph G1" "v \<in> set (vertex_names (vg G1))"
    using shape_of_wf [OF G1(2)] its1(3) assms(1,7) by simp_all
  obtain m H where H: "foldE (io_sync (lane (node_of G1 v))) (out_its (vg G1) v) (?m, G1) = Inr (m, H)"
    "shape_of H = shape_of G1" "vertices (vg H) = vertices (vg G1)"
    "\<forall>j \<in> fst ` set (arcs (vg G1)).
       arc_lane H j = (if j \<in> set (out_its (vg G1) v) then lane (node_of G1 v) else arc_lane G1 j) \<and>
       m (name_of G1 j) = (if j \<in> set (out_its (vg G1) v) then Some (lane (node_of G1 v)) else ?m (name_of G1 j))"
    using io_sync_fold [OF wf1(1), of ins v "out_its (vg G1) v" "lane (node_of G1 v)" ?m] assms(2,3,6) its1 by auto
  have sh: "shape_of H = shape_of G" using H(2) G1(2) by simp
  have io: "io_sync_flags v (?m, G1) = Inr (m, H)"
    using node_of_name(2) [OF wf1] wf1(2) H(1)
    by (simp add: io_sync_flags_def get_out_arc_its_def has_vertex_iff)
  let ?s = "s\<lparr>map_io_to_lane := ?m, graph_p := Some G1\<rparr>"
  have la: "launch n ?s = Inr (?s\<lparr>exec_que := exec_que s @ [node_copy n],
      rw_resources := tag_free_list (out_names G v) (rw_resources s)\<rparr>)"
    using launch_eq [OF wf1(1), of ?s n] wf1(2) assms(5) shape_of_in_out_names(2) [OF G1(2) assms(1)] by simp
  have "parall_launch n s = Inr (s\<lparr>exec_que := exec_que s @ [node_copy n],
      rw_resources := tag_free_list (out_names G v) (rw_resources s), graph_p := Some H, map_io_to_lane := m\<rparr>)"
    using assms(4,5) G1(1) la io by (simp add: parall_launch_def on_lanes_def the_graph_def)
  moreover have "synced m H (insert v L)"
  proof -
    have ed: "edges (vg H) = edges (vg G)" and ou: "out_its (vg H) = out_its (vg G)"
      using shape_of_its [OF sh] by simp_all
    have no: "node_of H u = node_of G1 u" for u using H(3) by (simp add: node_of_def)
    then have la: "lane_at H u = lane_at G1 u" "wait_at H u = wait_at G1 u" for u by (simp_all add: lane_at_def wait_at_def)
    have other: "lane_at H u = lane_at G u" "wait_at H u = wait_at G u" if "u \<noteq> v" for u
      using that la G1(4) by (simp_all add: lane_at_def wait_at_def)
    have self: "(v, v) \<notin> edges (vg G)" using preds assms(9) by blast
    have arcs: "arc_lane H i = lane_at H u \<and> m (name_of H i) = Some (lane_at H u)"
      if u: "u \<in> insert v L" and i: "i \<in> set (out_its (vg G) u)" for u i
    proof -
      obtain a where a: "(i, a) \<in> set (arcs (vg G))" "arc_bottom a = u"
        using wf_graphD(8) [OF wf_vgraphD(1) [OF assms(1)] i] by blast
      have ids: "i \<in> fst ` set (arcs (vg G))" using a(1) by force
      have nm: "name_of H i = name_of G i" "name_of G1 i = name_of G i"
        using shape_of_names [OF sh ids] shape_of_names [OF G1(2) ids] by simp_all
      have arc1: "arc_lane G1 i = arc_lane G i" using G1(3) by (simp add: arc_lane_def)
      have mem: "i \<in> set (out_its (vg G) v) \<longleftrightarrow> u = v"
        using i a id_unique [OF wf_vgraphD(1) [OF assms(1)] a(1)] wf_graphD(8) [OF wf_vgraphD(1) [OF assms(1)]] by metis
      show ?thesis
      proof (cases "u = v")
        case True
        then show ?thesis using bspec [OF H(4), of i] ids mem nm G1(3) its1(1) la by (simp add: lane_at_def)
      next
        case False
        then have "u \<in> L" using u by simp
        then show ?thesis
          using bspec [OF H(4), of i] ids mem nm G1(3) its1(1) other(1) [OF False] False arc1
            syncedD(2,3) [OF assms(8) \<open>u \<in> L\<close> i] by simp
      qed
    qed
    have pre: "(u, w) \<in> edges (vg G) \<Longrightarrow> u \<in> insert v L" if "w \<in> insert v L" for u w
      using that preds syncedD(1) [OF assms(8)] by blast
    have wait: "(lane_at H u = lane_at H w \<or> wait_at H w) \<and> (\<exists>x. (x, w) \<in> edges (vg G) \<and> lane_at H x = lane_at H w)"
      if w: "w \<in> insert v L" and e: "(u, w) \<in> edges (vg G)" for u w
    proof (cases "w = v")
      case True
      have lx: "lane_at H x = lane_at G x" if "(x, v) \<in> edges (vg G)" for x using self that other(1) by metis
      obtain x where x: "(x, v) \<in> edges (vg G)" "lane_at G x = lane_at G1 v" using G1(6) e True by auto
      then show ?thesis using G1(5) e True lx la by metis
    next
      case False
      then have wL: "w \<in> L" using w by simp
      then have "x \<noteq> v" if "(x, w) \<in> edges (vg G)" for x using syncedD(1) [OF assms(8) wL that] assms(9) by blast
      then show ?thesis using syncedD(4,5) [OF assms(8) wL] e other False by metis
    qed
    show ?thesis unfolding synced_def ed ou using arcs pre wait by blast
  qed
  ultimately show ?thesis using sh by blast
qed

section \<open>The run\<close>

definition tracked :: "vgraph \<Rightarrow> parall_sched \<Rightarrow> string set \<Rightarrow> bool" where
  "tracked G0 s L \<longleftrightarrow>
     (\<exists>G. graph_p s = Some G \<and> shape_of G = shape_of G0 \<and> synced (map_io_to_lane s) G L) \<and>
     tag_granted (rw_resources s) \<subseteq> (\<Union>v \<in> L. set (out_names G0 v))"

lemma preds_launched:
  assumes "wf_vgraph G" "set (in_names G v) \<subseteq> (\<Union>v \<in> L. set (out_names G v))" "(u, v) \<in> edges (vg G)"
  shows "u \<in> L"
proof -
  obtain i a where a: "(i, a) \<in> set (arcs (vg G))" "arc_bottom a = u" "arc_top a = v"
    using assms(3) by (auto simp: edges_def ends_def)
  then have "io_name (weight a) \<in> set (in_names G v)" using in_names_iff [OF assms(1)] by blast
  then obtain w where w: "w \<in> L" "io_name (weight a) \<in> set (out_names G w)" using assms(2) by blast
  then obtain j b where "(j, b) \<in> set (arcs (vg G))" "arc_bottom b = w" "io_name (weight b) = io_name (weight a)"
    using out_names_iff [OF assms(1)] by blast
  then have "w = u" using wf_vgraphD(3) [OF assms(1)] a by blast
  then show ?thesis using w(1) by simp
qed

lemma parall_pass:
  assumes "wf_vgraph G0" "get_graph_ins (vg G0) = Inr ins" "ins \<noteq> []"
  shows "tracked G0 s L \<Longrightarrow> distinct (map node_name ops) \<Longrightarrow> node_name ` set ops \<inter> L = {} \<Longrightarrow>
    node_name ` set ops \<subseteq> reached G0 \<inter> set (vertex_names (vg G0)) \<Longrightarrow>
    code_pass G0 ops (rw_resources s) = (l, r, u) \<Longrightarrow>
    \<exists>t. launch_pass callable parall_launch kept ops s = Inr t \<and> wait_que t = kept @ r \<and>
      exec_que t = exec_que s @ map node_copy l \<and> rw_resources t = u \<and> tracked G0 t (L \<union> node_name ` set l)"
proof (induction ops arbitrary: kept s L l r)
  case Nil
  then show ?case by (auto simp: tracked_def)
next
  case (Cons n ops)
  let ?v = "node_name n"
  obtain G where G: "graph_p s = Some G" "shape_of G = shape_of G0" "synced (map_io_to_lane s) G L"
    and gr: "tag_granted (rw_resources s) \<subseteq> (\<Union>v \<in> L. set (out_names G0 v))"
    using Cons.prems(1) unfolding tracked_def by blast
  note its = shape_of_its [OF G(2)] and nms = shape_of_in_out_names [OF G(2) assms(1)]
  have wf: "wf_vgraph G" using shape_of_wf [OF G(2)] assms(1) by simp
  have v: "?v \<in> reached G" "?v \<in> set (vertex_names (vg G))" "?v \<notin> L" using Cons.prems(3,4) its by auto
  have call: "callable n s = Inr (tag_check_list (rw_resources s) (in_names G0 ?v), s)"
    using callable_eq [OF wf G(1) v(2)] nms by simp
  show ?case
  proof (cases "tag_check_list (rw_resources s) (in_names G0 ?v)")
    case False
    then obtain r' where r': "code_pass G0 ops (rw_resources s) = (l, r', u)" "r = n # r'"
      using Cons.prems(5) by (auto split: prod.splits)
    show ?thesis
      using Cons.IH [OF Cons.prems(1) _ _ _ r'(1), of "kept @ [n]"] Cons.prems(2-4) call False r'(2) by auto
  next
    case True
    then obtain l' where l': "code_pass G0 ops (tag_free_list (out_names G0 ?v) (rw_resources s)) = (l', r, u)" "l = n # l'"
      using Cons.prems(5) by (auto split: prod.splits)
    have "set (in_names G0 ?v) \<subseteq> (\<Union>v \<in> L. set (out_names G0 v))"
      using True gr by (auto simp: tag_check_list_iff)
    then have preds: "w \<in> L" if "(w, ?v) \<in> edges (vg G)" for w
      using preds_launched [OF assms(1)] that its(4) by metis
    obtain H m where H: "parall_launch n s = Inr (s\<lparr>exec_que := exec_que s @ [node_copy n],
      rw_resources := tag_free_list (out_names G ?v) (rw_resources s), graph_p := Some H, map_io_to_lane := m\<rparr>)"
      "shape_of H = shape_of G" "synced m H (insert ?v L)"
      using parall_launch_spec [OF wf _ assms(3) G(1) refl v(1,2) G(3) v(3) preds] its(6) assms(2) by auto
    let ?t = "s\<lparr>exec_que := exec_que s @ [node_copy n], rw_resources := tag_free_list (out_names G0 ?v) (rw_resources s),
      graph_p := Some H, map_io_to_lane := m, wait_que := kept @ ops\<rparr>"
    have "tracked G0 ?t (insert ?v L)"
      using H(2,3) G(2) gr by (auto simp: tracked_def tag_free_list_granted)
    moreover have "distinct (map node_name ops)" "node_name ` set ops \<inter> insert ?v L = {}"
      "node_name ` set ops \<subseteq> reached G0 \<inter> set (vertex_names (vg G0))"
      using Cons.prems(2-4) by auto
    moreover have "code_pass G0 ops (rw_resources ?t) = (l', r, u)" using l'(1) by simp
    ultimately obtain t where t: "launch_pass callable parall_launch kept ops ?t = Inr t" "wait_que t = kept @ r"
      "exec_que t = exec_que ?t @ map node_copy l'" "rw_resources t = u" "tracked G0 t (insert ?v L \<union> node_name ` set l')"
      using Cons.IH [of ?t "insert ?v L" l' r kept] by blast
    have "launch_pass callable parall_launch kept (n # ops) s = Inr t"
      using call True H(1) nms(2) t(1) by simp
    then show ?thesis using t(2-5) l'(2) by simp
  qed
qed

lemma parall_spin:
  assumes "wf_vgraph G0" "get_graph_ins (vg G0) = Inr ins" "ins \<noteq> []"
  shows "tracked G0 s L \<Longrightarrow> distinct (map node_name (wait_que s)) \<Longrightarrow> node_name ` set (wait_que s) \<inter> L = {} \<Longrightarrow>
    node_name ` set (wait_que s) \<subseteq> reached G0 \<inter> set (vertex_names (vg G0)) \<Longrightarrow>
    code_plan G0 (wait_que s) (rw_resources s) = (l, r, u) \<Longrightarrow>
    (r = [] \<longrightarrow> length (wait_que s) \<le> k \<longrightarrow>
       (\<exists>t. spin callable parall_launch k s = Inr t \<and> exec_que t = exec_que s @ map node_copy l \<and>
            tracked G0 t (L \<union> node_name ` set l))) \<and>
    (r \<noteq> [] \<longrightarrow> spin callable parall_launch k s = Inl OutOfFuel)"
proof (induction k arbitrary: s L l)
  case 0
  then show ?case by (cases "wait_que s = []") (auto simp: plan.simps)
next
  case (Suc k)
  show ?case
  proof (cases "wait_que s = []")
    case True
    then show ?thesis using Suc.prems(1,5) by (auto simp: plan.simps)
  next
    case False
    obtain l0 r0 u0 where p: "code_pass G0 (wait_que s) (rw_resources s) = (l0, r0, u0)"
      by (cases "code_pass G0 (wait_que s) (rw_resources s)") auto
    obtain t where t: "launch_pass callable parall_launch [] (wait_que s) s = Inr t" "wait_que t = r0"
      "exec_que t = exec_que s @ map node_copy l0" "rw_resources t = u0" "tracked G0 t (L \<union> node_name ` set l0)"
      using parall_pass [OF assms Suc.prems(1-4) p, of "[]"] by auto
    have ms: "mset (wait_que s) = mset l0 + mset r0" by (rule code_tag.pass_spec(1) [OF p])
    have len: "length (wait_que s) = length l0 + length r0" using arg_cong [OF ms, of size] by simp
    have sets: "set (wait_que s) = set l0 \<union> set r0" using arg_cong [OF ms, of set_mset] by simp
    have "mset (map node_name (wait_que s)) = mset (map node_name l0 @ map node_name r0)" using ms by simp
    then have d: "distinct (map node_name l0 @ map node_name r0)" using Suc.prems(2) mset_eq_imp_distinct_iff by blast
    have inv: "distinct (map node_name (wait_que t))" "node_name ` set (wait_que t) \<inter> (L \<union> node_name ` set l0) = {}"
      "node_name ` set (wait_que t) \<subseteq> reached G0 \<inter> set (vertex_names (vg G0))"
      using d Suc.prems(3,4) sets t(2) by auto
    have spin: "spin callable parall_launch (Suc k) s = spin callable parall_launch k t" using False t(1) by simp
    show ?thesis
    proof (cases "length r0 = length (wait_que s)")
      case True
      then have "r0 = r" "r \<noteq> []" "l0 = []" "u0 = u" using Suc.prems(5) False p len by (auto simp: plan.simps)
      moreover have "u0 = rw_resources s" "r0 = wait_que s" using code_tag.pass_spec(5) [OF p \<open>l0 = []\<close>] by auto
      ultimately have "code_plan G0 (wait_que t) (rw_resources t) = (l, r, u)" using t(2,4) Suc.prems(5) by simp
      then show ?thesis using Suc.IH [OF t(5) inv] spin \<open>r \<noteq> []\<close> by simp
    next
      case nl: False
      then obtain l1 where q: "code_plan G0 r0 u0 = (l1, r, u)" "l = l0 @ l1"
        using Suc.prems(5) False p by (subst (asm) plan.simps) (auto split: prod.splits)
      have "length r0 \<le> k" if "length (wait_que s) \<le> Suc k" using nl len that by (cases l0) auto
      then show ?thesis
        using Suc.IH [OF t(5) inv, of l1] q t(2-4) spin by (auto simp: Un_assoc image_Un)
    qed
  qed
qed

lemma init_lane_shape:
  assumes "wf_vgraph G" "get_graph_ins (vg G) = Inr ins" "ins \<noteq> []" "v \<in> set (vertex_names (vg G))"
    and "init_lane v (l, m, G) = Inr (l', m', H)"
  shows "shape_of H = shape_of G"
proof -
  obtain G1 r mm m2 G2 G3 where st: "upd_node v (set_lane l) G = Inr G1"
    "map_io_to_vgraph r (mm, G1) = Inr (m2, G2)"
    "upd_node v (set_lane l) G2 = Inr G3" "upd_node v (set_need_wait False) G3 = Inr H"
    using assms(5) unfolding init_lane_def prod.case by (auto simp del: fun_upd_apply)
  have keep: "shape_of K' = shape_of K \<and> wf_vgraph K' \<and> v \<in> set (vertex_names (vg K'))"
    if "wf_vgraph K" "v \<in> set (vertex_names (vg K))" "upd_node v f K = Inr K'" "\<And>n. node_name (f n) = node_name n" for f K K'
  proof -
    have "shape_of K' = shape_of K" using upd_node_eq [OF that(1,2,4)] that(3) by auto
    then show ?thesis using shape_of_wf shape_of_its(3) that(1,2) by metis
  qed
  have 1: "shape_of G1 = shape_of G" "wf_vgraph G1" "v \<in> set (vertex_names (vg G1))"
    using keep [OF assms(1,4) st(1)] by auto
  have 2: "shape_of G2 = shape_of G1"
    using map_io_shape [OF 1(2) _ assms(3) st(2)] shape_of_its(6) [OF 1(1)] assms(2) by simp
  have wf2: "wf_vgraph G2" "v \<in> set (vertex_names (vg G2))"
    using shape_of_wf [OF 2] shape_of_its(3) [OF 2] 1 by simp_all
  have 3: "shape_of G3 = shape_of G2" "wf_vgraph G3" "v \<in> set (vertex_names (vg G3))" using keep [OF wf2 st(3)] by auto
  have "shape_of H = shape_of G3" using keep [OF 3(2,3) st(4)] by auto
  then show ?thesis using 1 2 3 by simp
qed

lemma init_lanes_shape:
  assumes "wf_vgraph G" "init_lanes (m, G) = Inr (m', H)"
  shows "shape_of H = shape_of G"
proof -
  obtain ins l where ins: "get_graph_ins (vg G) = Inr ins" "foldE init_lane ins (0, m, G) = Inr (l, m', H)"
    using assms(2) by (auto simp: init_lanes_def)
  show ?thesis
  proof (cases "ins = []")
    case True
    then show ?thesis using ins(2) by simp
  next
    case False
    have "(\<lambda>(_, _, K). shape_of K = shape_of G) (l, m', H)"
    proof (rule foldE_invariant [OF ins(2)])
      fix v s s'
      assume v: "v \<in> set ins" and P: "(\<lambda>(_, _, K). shape_of K = shape_of G) s" and st: "init_lane v s = Inr s'"
      obtain l m K where s: "s = (l, m, K)" by (cases s)
      obtain l' m' K' where s': "s' = (l', m', K')" by (cases s')
      have sh: "shape_of K = shape_of G" using P s by simp
      have "v \<in> set (vertex_names (vg G))" using ins_in_names(1) [OF wf_vgraphD(1,2) [OF assms(1)] ins(1)] v by blast
      then have "shape_of K' = shape_of K"
        using init_lane_shape [of K ins v l m l' m' K'] shape_of_wf [OF sh] shape_of_its [OF sh] assms(1) ins(1) False st s s'
        by simp
      then show "(\<lambda>(_, _, K). shape_of K = shape_of G) s'" using s' sh by simp
    qed simp
    then show ?thesis by simp
  qed
qed

text \<open>A run on a registered graph: it returns the plan's order with synchronised lanes, or never.\<close>

lemma parall_run_spec:
  assumes "wf_vgraph G" "fresh s0" "reg_io_resource G s0 = Inr s" "on_lanes init_lanes s = Inr s1"
    and "code_plan G (wait_que s) (rw_resources s) = (l, r, u)"
  shows "r = [] \<Longrightarrow> length (wait_que s) \<le> k \<Longrightarrow>
      \<exists>t. parall_run k s = Inr t \<and> map node_name (exec_que t) = map node_name l \<and> tracked G t (node_name ` set l)"
    "r \<noteq> [] \<Longrightarrow> parall_run k s = Inl OutOfFuel"
proof -
  note rp = registered_plan [OF assms(1-3,5)]
  obtain ins where ins: "get_graph_ins (vg G) = Inr ins" using ins_total by blast
  have ne: "ins \<noteq> []"
    using assms(3) ins by (auto simp: reg_io_resource_def scan_edges_def bfs_edge_void_def bfs_edge_def)
  obtain m H where H: "init_lanes (map_io_to_lane s, G) = Inr (m, H)" "s1 = s\<lparr>map_io_to_lane := m, graph_p := Some H\<rparr>"
    using assms(4) rp(4) by (auto simp: on_lanes_def the_graph_def)
  have "tag_granted (rw_resources s) = {}"
    using registered [OF assms(1,3)] assms(2) by (auto simp: fresh_def tag_granted_def)
  then have tr: "tracked G s1 {}"
    using H(2) init_lanes_shape [OF assms(1) H(1)] by (auto simp: tracked_def synced_empty)
  have ms: "mset (map node_name (wait_que s)) = mset (map node_name l @ map node_name r)" using rp(1) by simp
  have inv: "distinct (map node_name (wait_que s1))" "node_name ` set (wait_que s1) \<inter> {} = {}"
    "node_name ` set (wait_que s1) \<subseteq> reached G \<inter> set (vertex_names (vg G))"
    "code_plan G (wait_que s1) (rw_resources s1) = (l, r, u)"
    using rp(2,3,7) ms mset_eq_imp_distinct_iff [OF ms] mset_eq_setD [OF ms] H(2) assms(5) by auto
  note sp = parall_spin [OF assms(1) ins ne tr inv, of k]
  have e: "exec_que s1 = []" "wait_que s1 = wait_que s" using H(2) rp(5) by simp_all
  have "node_name (node_copy n) = node_name n" for n by (cases n) simp
  then have nn: "map node_name (map node_copy l) = map node_name l" by simp
  show "\<exists>t. parall_run k s = Inr t \<and> map node_name (exec_que t) = map node_name l \<and> tracked G t (node_name ` set l)"
    if "r = []" "length (wait_que s) \<le> k"
    using sp that assms(4) e nn by (auto simp: parall_run_def)
  show "parall_run k s = Inl OutOfFuel" if "r \<noteq> []"
    using sp that assms(4) by (simp add: parall_run_def)
qed

end
