(* ===== verification/Parall_Properties.thy ===== *)
theory Parall_Properties
  imports Parall_Facts Scheduler_Properties
begin

text \<open>The properties of the parallel scheduler.\<close>

lemma spin_mono: "spin c l k s = Inr t \<Longrightarrow> spin c l (k + j) s = Inr t"
  by (induction c l k s rule: spin.induct) (auto split: if_splits, (cases j; simp)?)

lemma parall_synced:
  fixes s :: parall_sched
  assumes "wf_vgraph G" "fresh s0" "reg_io_resource G s0 = Inr s" "parall_run k s = Inr t"
  shows "\<exists>H. graph_p t = Some H \<and> shape_of H = shape_of G \<and>
    topo (edges (vg G)) (map node_name (exec_que t)) \<and> set (map node_name (exec_que t)) = reached G \<and>
    (\<forall>u v. (u, v) \<in> edges (vg G) \<and> v \<in> reached G \<longrightarrow> lane_at H u = lane_at H v \<or> wait_at H v)"
proof -
  obtain l r u where p: "code_plan G (wait_que s) (rw_resources s) = (l, r, u)"
    by (cases "code_plan G (wait_que s) (rw_resources s)") auto
  obtain s1 where s1: "on_lanes init_lanes s = Inr s1" "spin callable parall_launch k s1 = Inr t"
    using assms(4) by (auto simp: parall_run_def)
  note pr = parall_run_spec [OF assms(1-3) s1(1) p]
  have r: "r = []" using pr(2) [of k] assms(4) by auto
  have big: "parall_run (k + length (wait_que s)) s = Inr t"
    using s1 spin_mono [OF s1(2)] by (simp add: parall_run_def)
  have t: "map node_name (exec_que t) = map node_name l" "tracked G t (node_name ` set l)"
    using pr(1) [OF r, of "k + length (wait_que s)"] big by auto
  note pt = plan_topo [OF assms(1-3), of l u]
  have pt': "topo (edges (vg G)) (map node_name l)" "node_name ` set l = reached G" using pt p r by auto
  obtain H where H: "graph_p t = Some H" "shape_of H = shape_of G" "synced (map_io_to_lane t) H (reached G)"
    using t(2) pt'(2) by (auto simp: tracked_def)
  then have "\<forall>u v. (u, v) \<in> edges (vg G) \<and> v \<in> reached G \<longrightarrow> lane_at H u = lane_at H v \<or> wait_at H v"
    using shape_of_its(4) [OF H(2)] unfolding synced_def by blast
  then show ?thesis using H(1,2) t(1) pt' by (metis list.set_map)
qed

lemma parall_ends:
  fixes s :: parall_sched
  assumes "wf_vgraph G" "fresh s0" "reg_io_resource G s0 = Inr s" "on_lanes init_lanes s = Inr s1"
  shows "acyclic (edges (vg G)) \<Longrightarrow> \<exists>t. parall_run (length (wait_que s)) s = Inr t"
    "v \<in> reached G \<Longrightarrow> (v, v) \<in> (edges (vg G))\<^sup>+ \<Longrightarrow> parall_run k s = Inl OutOfFuel"
proof -
  obtain l r u where p: "code_plan G (wait_que s) (rw_resources s) = (l, r, u)"
    by (cases "code_plan G (wait_que s) (rw_resources s)") auto
  note pr = parall_run_spec [OF assms p]
  show "\<exists>t. parall_run (length (wait_que s)) s = Inr t" if "acyclic (edges (vg G))"
    using pr(1) plan_acyclic [OF assms(1-3) that p] by blast
  show "parall_run k s = Inl OutOfFuel" if "v \<in> reached G" "(v, v) \<in> (edges (vg G))\<^sup>+"
    using pr(2) plan_cycle [OF assms(1-3) that p] by blast
qed


section \<open>Properties\<close>

lemma fresh_parall [simp]: "fresh new_parall"
  by (simp add: fresh_def new_parall_def)

text \<open>C21: A run of the parallel scheduler that returns has launched the operators in topological order, and
  wherever an operator reads a tensor that was produced on another stream its \<open>need_wait\<close> flag is set:
  no arc between two lanes is left without synchronisation.\<close>

theorem parallel_lanes_synchronised:
  fixes s :: parall_sched
  assumes "wf_vgraph G" "reg_io_resource G new_parall = Inr s" "parall_run k s = Inr t"
  shows "\<exists>H. graph_p t = Some H \<and> edges (vg H) = edges (vg G) \<and>
    topo (edges (vg G)) (map node_name (exec_que t)) \<and> set (map node_name (exec_que t)) = reached G \<and>
    (\<forall>u v. (u, v) \<in> edges (vg G) \<and> v \<in> reached G \<longrightarrow> lane_at H u = lane_at H v \<or> wait_at H v)"
  using parall_synced [OF assms(1) fresh_parall assms(2,3)] shape_of_its(4) by blast

text \<open>Two inputs that meet in one operator.\<close>

definition join_vgraph :: vgraph where
  "join_vgraph = built [''a'', ''b'', ''c'', ''d''] [(''a'', ''c''), (''b'', ''c''), (''c'', ''d'')]"

lemma join_wf: "wf_vgraph join_vgraph"
  unfolding join_vgraph_def by (rule built_wf) code_simp

definition lanes_after :: "nat \<Rightarrow> vgraph \<Rightarrow> (string \<times> int \<times> bool) list outcome" where
  "lanes_after k G =
     bindE (reg_io_resource G new_parall) (\<lambda>s. bindE (parall_run k s) (\<lambda>t. bindE (the_graph t) (\<lambda>H.
     Inr (map (\<lambda>(v, n). (v, lane n, need_wait n)) (vertices (vg H))))))"

theorem parallel_lanes_synchronised_witness:
  "\<exists>s t H. reg_io_resource join_vgraph new_parall = Inr s \<and> parall_run 1 s = Inr t \<and> graph_p t = Some H \<and>
     (lane_at H ''b'' = lane_at H ''c'' \<or> wait_at H ''c'')"
proof -
  have "lanes_after 1 join_vgraph = Inr [(''a'', 0, False), (''b'', 1, False), (''c'', 0, True), (''d'', 0, False)]"
    by code_simp
  then obtain s t where st: "reg_io_resource join_vgraph new_parall = Inr s" "parall_run 1 s = Inr t"
    by (auto simp: lanes_after_def)
  have "has_arc (vg join_vgraph) ''b'' ''c''" "has_arc (vg join_vgraph) ''a'' ''c''" by code_simp+
  then have e: "(''b'', ''c'') \<in> edges (vg join_vgraph)"
    using has_arc_iff [of "vg join_vgraph" "''b''" "''c''"] by (simp add: edges_def)
  have "''c'' \<in> reached join_vgraph"
  proof -
    have "map (ends \<circ> snd) (arcs (vg join_vgraph)) = [(''a'', ''c''), (''b'', ''c''), (''c'', ''d'')]" by code_simp
    from arg_cong [OF this, of set] have "edges (vg join_vgraph) = {(''a'', ''c''), (''b'', ''c''), (''c'', ''d'')}"
      by (simp add: edges_def)
    then show ?thesis unfolding reached_def by (auto intro!: r_into_rtrancl)
  qed
  then show ?thesis using parallel_lanes_synchronised [OF join_wf st] st e by blast
qed

text \<open>C22: When the lanes of the inputs can be initialised, the parallel scheduler returns on every acyclic
  graph, within one walk over its wait queue for each waiting operator; with a reachable cycle it runs for
  ever, where the dependency scheduler aborts.\<close>

theorem parallel_returns_iff_acyclic:
  fixes s :: parall_sched
  assumes "wf_vgraph G" "reg_io_resource G new_parall = Inr s" "on_lanes init_lanes s = Inr s1"
  shows "(acyclic (edges (vg G)) \<longrightarrow> (\<exists>t. parall_run (length (wait_que s)) s = Inr t)) \<and>
    ((\<exists>v \<in> reached G. (v, v) \<in> (edges (vg G))\<^sup>+) \<longrightarrow> (\<forall>k. parall_run k s = Inl OutOfFuel))"
  using parall_ends [OF assms(1) fresh_parall assms(2,3)] by blast

theorem parallel_returns_iff_acyclic_witness:
  "\<exists>s s1. reg_io_resource cyclic_vgraph new_parall = Inr s \<and> on_lanes init_lanes s = Inr s1 \<and>
     (\<forall>k. parall_run k s = Inl OutOfFuel)"
proof -
  have "(case bindE (reg_io_resource cyclic_vgraph new_parall) (on_lanes init_lanes) of Inr _ \<Rightarrow> True | Inl _ \<Rightarrow> False)"
    by code_simp
  then obtain s s1 where s: "reg_io_resource cyclic_vgraph new_parall = Inr s" "on_lanes init_lanes s = Inr s1"
    by (auto simp: bindE_def split: sum.splits)
  show ?thesis
    using parallel_returns_iff_acyclic [OF cyclic_facts(1) s] cyclic_facts(2,3) s by blast
qed

end
