(* ===== verification/Memory_Scheduler.thy ===== *)
theory Memory_Scheduler
  imports Dep_Scheduler
begin

text \<open>
  The scheduler that plans which edge tensors share memory,
  \<open>framework/graph/llvm/optimizer/memory_scheduler.h\<close> and \<open>memory_scheduler.cpp\<close>. An \<open>io\<close> that
  is \<open>shared\<close> uses the memory of the one its \<open>share_from\<close> names. The pools of
  \<open>IOBlockResource\<close> hold copies of tensors; the tree of self-shared tensors is keyed by name, and
  the order of its entries stands for the unspecified order of the hash map.
\<close>

record mem_sched = sched +
  free_ios :: "io list"
  lock_ios :: "io list"
  self_lock :: "io list"
  self_tree :: "(string \<times> io list) list"

section \<open>Operators that work in place\<close>

definition self_shared_ops :: "string list" where
  "self_shared_ops = [''Split'', ''Reshape'', ''Gather'', ''Flatten'']"

definition check_self_shared :: "string \<Rightarrow> bool" where
  "check_self_shared op = list_ex (\<lambda>t. t = op) self_shared_ops"

definition need_self_shared :: "node \<Rightarrow> bool" where
  "need_self_shared n = check_self_shared (op_name n)"

definition last_op_is_self_shared :: "vgraph \<Rightarrow> node \<Rightarrow> (bool \<times> io list) outcome" where
  "last_op_is_self_shared G n =
     bindE (get_in_arc_its (vg G) (node_name n)) (\<lambda>its.
     foldE (\<lambda>i (ret, ios).
       bindE (deref (vg G) i) (\<lambda>a.
       bindE (vertex_at (vg G) (arc_top a)) (\<lambda>top.
       if op_name top \<noteq> ''Output'' then
         bindE (vertex_at (vg G) (arc_bottom a)) (\<lambda>btm.
         Inr (if need_self_shared btm then (True, ios @ [weight a]) else (ret, ios)))
       else Inr (ret, ios)))) its (False, []))"

section \<open>Pools\<close>

definition has_free :: "'m mem_sched_scheme \<Rightarrow> io \<Rightarrow> bool" where
  "has_free s target = list_ex (\<lambda>x. io_lane target = io_lane x) (free_ios s)"

fun take_free :: "int \<Rightarrow> io list \<Rightarrow> io \<times> io list" where
  "take_free l [] = (io_default, [])"
| "take_free l (x # xs) =
     (if l = io_lane x then (x, xs) else (case take_free l xs of (y, ys) \<Rightarrow> (y, x # ys)))"

definition get_free :: "io \<Rightarrow> 'm mem_sched_scheme \<Rightarrow> io \<times> 'm mem_sched_scheme" where
  "get_free target s = (case take_free (io_lane target) (free_ios s) of (x, xs) \<Rightarrow> (x, s\<lparr>free_ios := xs\<rparr>))"

text \<open>
  Following \<open>share_from\<close> to an unshared tensor. A search that finds no arc leaves the tensor as it
  is, and the loop then runs for ever. With more steps than the graph has arcs a chain repeats.
\<close>

fun resolve :: "nat \<Rightarrow> vgraph \<Rightarrow> io \<Rightarrow> io outcome" where
  "resolve 0 G x = (if shared x then Inl OutOfFuel else Inr x)"
| "resolve (Suc k) G x =
     (if shared x then bindE (scan_edges_until fst search_target (G, x)) (\<lambda>(_, y). resolve k G y) else Inr x)"

definition is_same_target :: "vgraph \<Rightarrow> io \<Rightarrow> io \<Rightarrow> bool outcome" where
  "is_same_target G one two =
     bindE (resolve (Suc (length (arcs (vg G)))) G one) (\<lambda>x.
     bindE (resolve (Suc (length (arcs (vg G)))) G two) (\<lambda>y.
     Inr (io_eq x y)))"

definition push_free :: "io \<Rightarrow> 'm mem_sched_scheme \<Rightarrow> 'm mem_sched_scheme outcome" where
  "push_free x s =
     bindE (the_graph s) (\<lambda>G.
     bindE (foldE (\<lambda>y found. bindE (is_same_target G y x) (\<lambda>b. Inr (if b then True else found))) (free_ios s) False) (\<lambda>found.
     if \<not> found then
       bindE (is_target_fixed s x) (\<lambda>fixed.
       Inr (if \<not> fixed then s\<lparr>free_ios := free_ios s @ [x]\<rparr> else s))
     else Inr s))"

text \<open>\<open>free\<close>: the locked tensors with the name of one in the list go to the free pool.\<close>

fun free_loop :: "string \<Rightarrow> io list \<Rightarrow> io list \<Rightarrow> 'm mem_sched_scheme \<Rightarrow> 'm mem_sched_scheme outcome" where
  "free_loop r kept [] s = Inr (s\<lparr>lock_ios := kept\<rparr>)"
| "free_loop r kept (x # xs) s =
     (if io_name x = r then bindE (push_free x s) (\<lambda>s1. free_loop r kept xs s1)
      else free_loop r (kept @ [x]) xs s)"

definition free_block :: "io list \<Rightarrow> 'm mem_sched_scheme \<Rightarrow> 'm mem_sched_scheme outcome" where
  "free_block ios s = foldE (\<lambda>x t. free_loop (io_name x) [] (lock_ios t) t) ios s"

text \<open>\<open>lock\<close> changes the tensors of the list it is given.\<close>

fun lock_block :: "io list \<Rightarrow> 'm mem_sched_scheme \<Rightarrow> io list \<times> 'm mem_sched_scheme" where
  "lock_block [] s = ([], s)"
| "lock_block (x # xs) s =
     (let (x1, s1) =
        (if has_free s x then
           (case get_free x s of (tmp, t) \<Rightarrow>
              (x\<lparr>shared := True, share_from := (if shared tmp then share_from tmp else io_name tmp)\<rparr>, t))
         else (x\<lparr>shared := False\<rparr>, s));
          (ys, s2) = lock_block xs (s1\<lparr>lock_ios := lock_ios s1 @ [x1]\<rparr>)
      in (x1 # ys, s2))"

definition is_locked :: "'m mem_sched_scheme \<Rightarrow> io \<Rightarrow> bool" where
  "is_locked s x = list_ex (\<lambda>y. io_eq y x) (lock_ios s)"

section \<open>Self-shared tensors\<close>

definition push_self_lock :: "io \<Rightarrow> 'm mem_sched_scheme \<Rightarrow> 'm mem_sched_scheme" where
  "push_self_lock x s = s\<lparr>self_lock := self_lock s @ [x]\<rparr>"

text \<open>The first entry of the tree with a tensor of the given name, as the nested loops find it.\<close>

fun find_in_tree :: "string \<Rightarrow> (string \<times> io list) list \<Rightarrow> io list option" where
  "find_in_tree r [] = None"
| "find_in_tree r ((k, ios) # t) = (if list_ex (\<lambda>x. r = io_name x) ios then Some ios else find_in_tree r t)"

definition reg_self_lock_tree :: "io \<Rightarrow> io list \<Rightarrow> 'm mem_sched_scheme \<Rightarrow> 'm mem_sched_scheme outcome" where
  "reg_self_lock_tree x outs s =
     (case find_in_tree (io_name x) (self_tree s) of
        Some ios \<Rightarrow> Inr (s\<lparr>self_tree := AList.update (io_name x) (ios @ outs) (self_tree s)\<rparr>)
      | None \<Rightarrow>
          (case map_of (self_tree s) (io_name x) of
             None \<Rightarrow> Inr (s\<lparr>self_tree := AList.update (io_name x) outs (self_tree s)\<rparr>)
           | Some _ \<Rightarrow> Inl CheckFailed))"

definition rm_self_lock_tree :: "io \<Rightarrow> 'm mem_sched_scheme \<Rightarrow> 'm mem_sched_scheme" where
  "rm_self_lock_tree x s =
     s\<lparr>self_tree := map (\<lambda>(k, ios). (k, filter (\<lambda>y. \<not> io_eq y x) ios)) (self_tree s)\<rparr>"

text \<open>
  \<open>free_self\<close> walks over \<open>_self_lock\<close> and, where the tree has no tensor left, erases the iterator
  from \<open>_lock\<close>, the other list.
\<close>

fun free_self_loop :: "io list \<Rightarrow> 'm mem_sched_scheme \<Rightarrow> 'm mem_sched_scheme outcome" where
  "free_self_loop [] s = Inr s"
| "free_self_loop (x # xs) s =
     (case map_of (self_tree s) (io_name x) of
        None \<Rightarrow> Inl CheckFailed
      | Some ios \<Rightarrow>
          if length ios = 0 then bindE (push_free x s) (\<lambda>_. Inl ForeignIterator)
          else free_self_loop xs s)"

definition free_self :: "io list \<Rightarrow> 'm mem_sched_scheme \<Rightarrow> 'm mem_sched_scheme outcome" where
  "free_self es s = (let s1 = fold rm_self_lock_tree es s in free_self_loop (self_lock s1) s1)"

section \<open>Writing the plan into the graph\<close>

definition replace_arc :: "io \<Rightarrow> arc_id \<Rightarrow> unit \<times> vgraph \<Rightarrow> (status \<times> unit \<times> vgraph) outcome" where
  "replace_arc x i = (\<lambda>(u, G).
     bindE (deref (vg G) i) (\<lambda>a.
     if io_eq (weight a) x then Inr (EXIT, (u, set_weight i (\<lambda>_. x) G)) else Inr (OK, (u, G))))"

definition map_ios_to_vgraph :: "io list \<Rightarrow> vgraph \<Rightarrow> vgraph outcome" where
  "map_ios_to_vgraph ios G =
     foldE (\<lambda>x H. bindE (scan_edges_until snd (replace_arc x) ((), H)) (\<lambda>(_, K). Inr K)) ios G"

definition map_ios :: "io list \<Rightarrow> 'm mem_sched_scheme \<Rightarrow> 'm mem_sched_scheme outcome" where
  "map_ios ios s =
     bindE (the_graph s) (\<lambda>G. bindE (map_ios_to_vgraph ios G) (\<lambda>H. Inr (s\<lparr>graph_p := Some H\<rparr>)))"

section \<open>Launch\<close>

definition set_fix_io :: "'m mem_sched_scheme \<Rightarrow> io list \<Rightarrow> io list" where
  "set_fix_io s ios = filter (\<lambda>x. \<not> is_fixed s x) ios"

text \<open>The arcs of a list of iterators, and the operators at one of their ends.\<close>

definition arcs_of :: "vgraph \<Rightarrow> arc_id list \<Rightarrow> (string, io) arc list outcome" where
  "arcs_of G is = mapE (deref (vg G)) is"

definition ops_at :: "vgraph \<Rightarrow> string list \<Rightarrow> node list outcome" where
  "ops_at G vs = mapE (vertex_at (vg G)) vs"

text \<open>
  Whether an in-arc of a self-shared operator is dismissed: it is shared with a tensor that was
  an input of one of the producers. The loop over the collected tensors leaves at its first
  element unless the arc is shared and its producer is not self-shared.
\<close>

definition dismiss :: "io \<Rightarrow> node \<Rightarrow> io list \<Rightarrow> bool" where
  "dismiss w btm collected =
     (shared w \<and> \<not> need_self_shared btm \<and>
      list_ex (\<lambda>x. share_from x = share_from w \<or> io_name x = share_from w) collected)"

fun first_kept :: "nat \<Rightarrow> io list \<Rightarrow> node list \<Rightarrow> io list \<Rightarrow> nat" where
  "first_kept i (w # ws) (b # bs) collected =
     (if \<not> dismiss w b collected then i else first_kept (Suc i) ws bs collected)"
| "first_kept i _ _ collected = 0"

fun last_self :: "nat \<Rightarrow> node list \<Rightarrow> nat \<Rightarrow> nat" where
  "last_self i [] sel = sel"
| "last_self i (b # bs) sel = last_self (Suc i) bs (if need_self_shared b then i else sel)"

definition share_with :: "io \<Rightarrow> io \<Rightarrow> io" where
  "share_with sel x = x\<lparr>shared := True, share_from := (if shared sel then share_from sel else io_name sel)\<rparr>"

definition launch_self_shared :: "node \<Rightarrow> io list \<Rightarrow> 'm mem_sched_scheme \<Rightarrow> 'm mem_sched_scheme outcome" where
  "launch_self_shared n io_out s =
     bindE (the_graph s) (\<lambda>G.
     bindE (get_in_arc_its (vg G) (node_name n)) (\<lambda>ins.
     bindE (arcs_of G ins) (\<lambda>as.
     if length ins > 1 then
       bindE (mapE (\<lambda>a. in_weights G (arc_bottom a)) as) (\<lambda>cs.
       bindE (ops_at G (map arc_bottom as)) (\<lambda>bs.
       let ws = map weight as;
           sel = last_self 0 bs (first_kept 0 ws bs (concat cs));
           w = ws ! sel;
           outs = map (share_with w) (io_out @ map fst (filter (\<lambda>(_, i). i \<noteq> sel) (zip ws [0..<length ws])))
       in bindE (reg_self_lock_tree w outs (push_self_lock w s)) (map_ios outs)))
     else
       bindE (check (length ins = 1)) (\<lambda>_.
       let w = weight (hd as); outs = map (share_with w) io_out
       in bindE (reg_self_lock_tree w outs (push_self_lock w s)) (map_ios outs)))))"

definition unshare_conv :: "io \<Rightarrow> node \<Rightarrow> io" where
  "unshare_conv x next = (if op_name next = ''ConvEltwise'' then x\<lparr>shared := False\<rparr> else x)"

definition launch_plain :: "node \<Rightarrow> io list \<Rightarrow> node list \<Rightarrow> 'm mem_sched_scheme \<Rightarrow> 'm mem_sched_scheme outcome" where
  "launch_plain n io_out next s =
     (case lock_block io_out s of (locked, s1) \<Rightarrow>
        bindE (map_ios (map2 unshare_conv locked next) s1) (\<lambda>s2.
        bindE (the_graph s2) (\<lambda>G.
        bindE (in_weights G (node_name n)) (\<lambda>io_in.
        bindE (if op_name n \<noteq> ''Output'' then free_block io_in s2 else Inr s2) (\<lambda>s3.
        bindE (the_graph s3) (\<lambda>G3.
        bindE (last_op_is_self_shared G3 n) (\<lambda>(b, es).
        if b then free_self es s3 else Inr s3)))))))"

definition mem_launch :: "node \<Rightarrow> 'm mem_sched_scheme \<Rightarrow> 'm mem_sched_scheme outcome" where
  "mem_launch n s =
     (let s1 = exe_push (node_copy n) s
      in bindE (the_graph s1) (\<lambda>G.
         bindE (get_out_arc_its (vg G) (node_name n)) (\<lambda>its.
         bindE (arcs_of G its) (\<lambda>as.
         bindE (ops_at G (map arc_top as)) (\<lambda>next.
         let s2 = sched_free_list (map (io_name \<circ> weight) as) s1;
             io_out = set_fix_io s2 (map weight as)
         in if need_self_shared n then launch_self_shared n io_out s2
            else launch_plain n io_out next s2)))))"

section \<open>The check of the order\<close>

definition related :: "(string \<times> string \<Rightarrow> int option) \<Rightarrow> string \<Rightarrow> string \<Rightarrow> bool" where
  "related table a b = (case table (a, b) of Some x \<Rightarrow> x \<noteq> 0 | None \<Rightarrow> False)"

text \<open>Whether \<open>t\<close> comes before \<open>b\<close> in the order; the loop runs until it meets \<open>b\<close>.\<close>

fun top_before :: "string \<Rightarrow> string \<Rightarrow> string list \<Rightarrow> bool outcome" where
  "top_before t b [] = Inl OutOfRange"
| "top_before t b (x # xs) = (if x = b then Inr False else bindE (top_before t b xs) (\<lambda>r. Inr (x = t \<or> r)))"

text \<open>
  The walk over the stack that makes the in-place operators behind a corrected tensor follow it.
  It marks nothing, so that it takes fuel, one unit for each operator popped.
\<close>

fun follow :: "nat \<Rightarrow> string \<Rightarrow> string list \<Rightarrow> vgraph \<Rightarrow> vgraph outcome" where
  "follow k r [] G = Inr G"
| "follow 0 r (v # stk) G = Inl OutOfFuel"
| "follow (Suc k) r (v # stk) G =
     bindE (get_out_arc_its (vg G) v) (\<lambda>its.
     bindE (foldE (\<lambda>i (st, H).
       bindE (deref (vg H) i) (\<lambda>a.
       bindE (vertex_at (vg H) (arc_top a)) (\<lambda>n.
       Inr (if need_self_shared n then arc_top a # st else st, set_weight i (\<lambda>w. w\<lparr>share_from := r\<rparr>) H))))
       its (stk, G)) (\<lambda>(stk', G').
     follow k r stk' G'))"

definition correct_order :: "nat \<Rightarrow> arc_id \<Rightarrow> (string, io) arc \<Rightarrow> vgraph \<Rightarrow> vgraph outcome" where
  "correct_order k j out G =
     (let r = io_name (weight out); G1 = set_weight j (\<lambda>w. w\<lparr>shared := False\<rparr>) G
      in bindE (vertex_at (vg G1) (arc_top out)) (\<lambda>n.
         if need_self_shared n then
           bindE (if op_name n = ''Gather'' then
                    bindE (get_in_arc_its (vg G1) (arc_top out)) (\<lambda>its.
                    foldE (\<lambda>i H. bindE (deref (vg H) i) (\<lambda>a.
                      Inr (if arc_bottom a \<noteq> arc_bottom out then set_weight i (\<lambda>w. w\<lparr>share_from := r\<rparr>) H else H)))
                      its G1)
                  else Inr G1) (follow k r [arc_top out])
         else Inr G1))"

fun check_node :: "nat \<Rightarrow> (string \<times> string \<Rightarrow> int option) \<Rightarrow> string list \<Rightarrow> string \<Rightarrow> string list \<Rightarrow>
    vgraph \<Rightarrow> vgraph outcome" where
  "check_node k table order v [] G = Inl OutOfRange"
| "check_node k table order v (u # us) G =
     (if u = v then Inr G
      else if related table u v \<or> related table v u then check_node k table order v us G
      else
        bindE (get_in_arc_its (vg G) v) (\<lambda>ins.
        bindE (get_out_arc_its (vg G) u) (\<lambda>outs.
        bindE (if length ins = 1 \<and> length outs = 1 then
                 bindE (deref (vg G) (hd ins)) (\<lambda>i.
                 bindE (deref (vg G) (hd outs)) (\<lambda>out.
                 bindE (top_before (arc_top out) (arc_bottom i) order) (\<lambda>top_check.
                 if \<not> top_check \<and> shared (weight out) \<and>
                    (io_name (weight i) = share_from (weight out) \<or> share_from (weight i) = share_from (weight out))
                 then correct_order k (hd outs) out G else Inr G)))
               else Inr G) (check_node k table order v us))))"

definition check_memory :: "nat \<Rightarrow> 'm mem_sched_scheme \<Rightarrow> 'm mem_sched_scheme outcome" where
  "check_memory k s =
     bindE (the_graph s) (\<lambda>G.
     bindE (connect_table G) (\<lambda>table.
     bindE (scan_nodes (\<lambda>H. H) (\<lambda>v H. bindE (vertex_at (vg H) v) (\<lambda>n.
              check_node k table (nodes_exec_order G) (node_name n) (nodes_exec_order G) H)) G) (\<lambda>G'.
     Inr (s\<lparr>graph_p := Some G'\<rparr>))))"

text \<open>\<open>k\<close> bounds the walks over the wait queue and over the stack of the check.\<close>

definition mem_run :: "nat \<Rightarrow> 'm mem_sched_scheme \<Rightarrow> 'm mem_sched_scheme outcome" where
  "mem_run k s =
     bindE (the_graph s) (\<lambda>G.
     bindE (foldE (\<lambda>v t. bindE (vertex_at (vg G) v) (\<lambda>n. Inr (wait_push (node_copy n) t)))
              (nodes_exec_order G) (s\<lparr>wait_que := []\<rparr>)) (\<lambda>s1.
     bindE (spin callable mem_launch k s1) (check_memory k)))"

text \<open>The scheduler as its constructor leaves it.\<close>

definition new_mem :: mem_sched where
  "new_mem = \<lparr>exec_que = [], wait_que = [], rw_resources = Map.empty, exec_ops = [], graph_p = None, fix_io_res = [],
     free_ios = [], lock_ios = [], self_lock = [], self_tree = []\<rparr>"

end
