(* ===== verification/Memory_Plan.thy ===== *)
theory Memory_Plan
  imports Memory_Scheduler "HOL-Library.Multiset"
begin

text \<open>
  The plan that the memory scheduler makes, on the weights of the arcs: who owns the memory of a
  tensor, and the invariant that tensors with one owner are never needed at the same time. The
  interface \<open>memory_graph\<close> is what the plan needs of a graph.
\<close>

section \<open>Owners\<close>

definition owner :: "io \<Rightarrow> string" where
  "owner x = (if shared x then share_from x else io_name x)"

lemma owner_simps [simp]: "shared x \<Longrightarrow> owner x = share_from x" "\<not> shared x \<Longrightarrow> owner x = io_name x"
  by (simp_all add: owner_def)

section \<open>Locking the outputs\<close>

fun lock_pure :: "io list \<Rightarrow> io list \<Rightarrow> io list \<times> io list" where
  "lock_pure [] free = ([], free)"
| "lock_pure (x # xs) free =
     (let (y, free1) =
        (if list_ex (\<lambda>f. io_lane x = io_lane f) free then
           (case take_free (io_lane x) free of (tmp, f) \<Rightarrow> (x\<lparr>shared := True, share_from := owner tmp\<rparr>, f))
         else (x\<lparr>shared := False\<rparr>, free));
          (ys, free2) = lock_pure xs free1
      in (y # ys, free2))"

lemma lock_block_pure:
  "lock_block xs s = (case lock_pure xs (free_ios s) of (ys, f) \<Rightarrow>
     (ys, s\<lparr>free_ios := f, lock_ios := lock_ios s @ ys\<rparr>))"
proof (induction xs arbitrary: s)
  case Nil
  then show ?case by simp
next
  case (Cons x xs)
  then show ?case
    by (auto simp: has_free_def get_free_def Let_def owner_def split: prod.splits)
qed

lemma take_free_split:
  assumes "list_ex (\<lambda>x. l = io_lane x) xs"
  shows "\<exists>a b y. xs = a @ y # b \<and> take_free l xs = (y, a @ b) \<and> io_lane y = l"
  using assms
proof (induction xs)
  case Nil
  then show ?case by simp
next
  case (Cons x xs)
  show ?case
  proof (cases "l = io_lane x")
    case True
    then show ?thesis by (intro exI [of _ "[]"] exI [of _ xs] exI [of _ x]) simp
  next
    case False
    then obtain a b y where "xs = a @ y # b" "take_free l xs = (y, a @ b)" "io_lane y = l" using Cons by auto
    then show ?thesis using False by (intro exI [of _ "x # a"] exI [of _ b] exI [of _ y]) simp
  qed
qed

lemma grown_disjoint:
  assumes "A \<inter> C = {}" "B \<subseteq> A" "x \<notin> B" "D \<subseteq> insert x C"
  shows "B \<inter> D = {}"
  using assms by blast

lemma lock_pure_spec:
  assumes "lock_pure xs free = (ys, free')" "distinct (map owner (lk @ free))" "distinct (map io_name xs)"
    and "io_name ` set xs \<inter> owner ` set (lk @ free) = {}"
  shows "distinct (map owner (lk @ ys @ free')) \<and> map io_name ys = map io_name xs \<and> map io_lane ys = map io_lane xs \<and>
    set free' \<subseteq> set free \<and> (\<forall>y \<in> set ys. shared y \<longrightarrow> (\<exists>f \<in> set free - set free'. share_from y = owner f \<and> io_lane f = io_lane y))"
  using assms
proof (induction xs arbitrary: free ys lk)
  case Nil
  then show ?case by simp
next
  case (Cons x xs)
  obtain y free1 where y: "(if list_ex (\<lambda>f. io_lane x = io_lane f) free then
           (case take_free (io_lane x) free of (tmp, f) \<Rightarrow> (x\<lparr>shared := True, share_from := owner tmp\<rparr>, f))
         else (x\<lparr>shared := False\<rparr>, free)) = (y, free1)"
    by (meson surj_pair)
  obtain zs where zs: "lock_pure xs free1 = (zs, free')" "ys = y # zs"
    using Cons.prems(1) y by (auto simp: Let_def split: prod.splits)
  have step: "distinct (map owner ((lk @ [y]) @ free1)) \<and> io_name y = io_name x \<and> io_lane y = io_lane x \<and>
    set free1 \<subseteq> set free \<and> owner ` set ((lk @ [y]) @ free1) \<subseteq> insert (io_name x) (owner ` set (lk @ free)) \<and>
    (shared y \<longrightarrow> (\<exists>f \<in> set free - set free1. share_from y = owner f \<and> io_lane f = io_lane y))"
  proof (cases "list_ex (\<lambda>f. io_lane x = io_lane f) free")
    case True
    then obtain a b tmp where t: "free = a @ tmp # b" "take_free (io_lane x) free = (tmp, a @ b)" "io_lane tmp = io_lane x"
      using take_free_split by blast
    have yf: "y = x\<lparr>shared := True, share_from := owner tmp\<rparr>" "free1 = a @ b" using y True t(2) by auto
    then have oy: "owner y = owner tmp" "share_from y = owner tmp" "io_name y = io_name x" "io_lane y = io_lane x" by simp_all
    have "tmp \<in> set free - set free1" using Cons.prems(2) t(1) yf(2) by auto
    moreover have "distinct (map owner ((lk @ [y]) @ free1))" using Cons.prems(2) t(1) yf(2) oy(1) by auto
    moreover have "owner ` set ((lk @ [y]) @ free1) \<subseteq> insert (io_name x) (owner ` set (lk @ free))"
      using t(1) yf(2) oy(1) by auto
    moreover have "set free1 \<subseteq> set free" using t(1) yf(2) by auto
    moreover have "shared y \<longrightarrow> (\<exists>f \<in> set free - set free1. share_from y = owner f \<and> io_lane f = io_lane y)"
      if "tmp \<in> set free - set free1"
      using that oy(2,4) t(3) by (intro impI bexI [of _ tmp]) simp_all
    ultimately show ?thesis using oy(3,4) by blast
  next
    case False
    then have "y = x\<lparr>shared := False\<rparr>" "free1 = free" using y by auto
    then show ?thesis using Cons.prems(2,4) by auto
  qed
  have "io_name ` set xs \<inter> owner ` set ((lk @ [y]) @ free1) = {}"
  proof (rule grown_disjoint [OF Cons.prems(4)])
    show "io_name ` set xs \<subseteq> io_name ` set (x # xs)" by (simp add: subset_insertI)
    show "io_name x \<notin> io_name ` set xs" using Cons.prems(3) by simp
    show "owner ` set ((lk @ [y]) @ free1) \<subseteq> insert (io_name x) (owner ` set (lk @ free))" using step by blast
  qed
  then have rest: "distinct (map owner ((lk @ [y]) @ zs @ free')) \<and> map io_name zs = map io_name xs \<and>
    map io_lane zs = map io_lane xs \<and> set free' \<subseteq> set free1 \<and>
    (\<forall>y \<in> set zs. shared y \<longrightarrow> (\<exists>f \<in> set free1 - set free'. share_from y = owner f \<and> io_lane f = io_lane y))"
    using Cons.IH [OF zs(1), of "lk @ [y]"] step Cons.prems(3) by simp
  show ?case unfolding zs(2)
  proof (intro conjI ballI impI)
    show "distinct (map owner (lk @ (y # zs) @ free'))" using rest by simp
    show "set free' \<subseteq> set free" using rest step by blast
    show "map io_name (y # zs) = map io_name (x # xs)" "map io_lane (y # zs) = map io_lane (x # xs)" using rest step by simp_all
    fix z
    assume z: "z \<in> set (y # zs)" "shared z"
    have "free1 = free1 \<and> set free' \<subseteq> set free1" "set free1 \<subseteq> set free" using rest step by simp_all
    moreover have "\<exists>f. (f \<in> set free - set free1 \<or> f \<in> set free1 - set free') \<and> share_from z = owner f \<and> io_lane f = io_lane z"
    proof (cases "z = y")
      case True
      then show ?thesis using step z(2) by blast
    next
      case False
      then have "z \<in> set zs" using z(1) by simp
      then show ?thesis using rest z(2) by blast
    qed
    ultimately show "\<exists>f \<in> set free - set free'. share_from z = owner f \<and> io_lane f = io_lane z" by blast
  qed
qed

lemma filter_image: "{x \<in> f ` A. x \<notin> B} = f ` {i \<in> A. f i \<notin> B}"
  by blast

section \<open>The interface and the invariant\<close>

text \<open>\<open>a\<close> comes strictly before \<open>b\<close> in a list of launched operators.\<close>

definition precedes :: "'n list \<Rightarrow> 'n \<Rightarrow> 'n \<Rightarrow> bool" where
  "precedes L a b \<longleftrightarrow> (\<exists>xs ys. L = xs @ ys \<and> a \<in> set xs \<and> b \<in> set ys)"

lemma precedes_snoc: "precedes L a b \<Longrightarrow> precedes (L @ [v]) a b"
  unfolding precedes_def by (metis Un_iff append.assoc set_append)

lemma precedes_last: "a \<in> set L \<Longrightarrow> precedes (L @ [v]) a v"
  unfolding precedes_def by (intro exI [of _ L] exI [of _ "[v]"]) simp

locale memory_graph =
  fixes ok :: "'g \<Rightarrow> bool" and outs :: "'g \<Rightarrow> 'n \<Rightarrow> 'i list" and nm :: "'g \<Rightarrow> 'i \<Rightarrow> string"
    and bot :: "'g \<Rightarrow> 'i \<Rightarrow> 'n" and tp :: "'g \<Rightarrow> 'i \<Rightarrow> 'n"
  assumes outs_distinct: "ok g \<Longrightarrow> distinct (outs g v)"
    and outs_bot: "ok g \<Longrightarrow> i \<in> set (outs g v) \<Longrightarrow> bot g i = v"
    and nm_inj: "ok g \<Longrightarrow> i \<in> set (outs g v) \<Longrightarrow> j \<in> set (outs g w) \<Longrightarrow> nm g i = nm g j \<Longrightarrow> i = j"
begin

definition made :: "'g \<Rightarrow> 'n list \<Rightarrow> 'i set" where
  "made g L = (\<Union>v \<in> set L. set (outs g v))"

text \<open>Tensors that are still needed; \<open>K\<close> are the operators that never release what they read.\<close>

definition live :: "'g \<Rightarrow> 'n set \<Rightarrow> 'n list \<Rightarrow> 'i set" where
  "live g K L = {i \<in> made g L. tp g i \<notin> set L \<or> tp g i \<in> K}"

definition apart :: "'g \<Rightarrow> 'n list \<Rightarrow> 'i \<Rightarrow> 'i \<Rightarrow> bool" where
  "apart g L i j \<longleftrightarrow> precedes L (tp g i) (bot g j) \<or> precedes L (tp g j) (bot g i)"

definition plan_ok :: "'g \<Rightarrow> 'n set \<Rightarrow> ('i \<Rightarrow> io) \<Rightarrow> io list \<Rightarrow> io list \<Rightarrow> 'n list \<Rightarrow> bool" where
  "plan_ok g K W lk free L \<longleftrightarrow>
     (\<forall>i \<in> made g L. io_name (W i) = nm g i) \<and>
     set lk = W ` live g K L \<and> set free \<subseteq> W ` (made g L - live g K L) \<and>
     distinct (map owner (lk @ free)) \<and>
     (\<forall>i \<in> made g L. shared (W i) \<longrightarrow>
        (\<exists>j \<in> made g L. nm g j = share_from (W i) \<and> \<not> shared (W j) \<and> io_lane (W j) = io_lane (W i))) \<and>
     (\<forall>i \<in> made g L. \<forall>j \<in> made g L. i \<noteq> j \<longrightarrow> owner (W i) = owner (W j) \<longrightarrow> apart g L i j)"

lemma plan_okD:
  assumes "plan_ok g K W lk free L"
  shows "i \<in> made g L \<Longrightarrow> io_name (W i) = nm g i"
    "set lk = W ` live g K L" "set free \<subseteq> W ` (made g L - live g K L)" "distinct (map owner (lk @ free))"
    "i \<in> made g L \<Longrightarrow> shared (W i) \<Longrightarrow>
       \<exists>j \<in> made g L. nm g j = share_from (W i) \<and> \<not> shared (W j) \<and> io_lane (W j) = io_lane (W i)"
    "i \<in> made g L \<Longrightarrow> j \<in> made g L \<Longrightarrow> i \<noteq> j \<Longrightarrow> owner (W i) = owner (W j) \<Longrightarrow> apart g L i j"
  using assms unfolding plan_ok_def by blast+

lemma plan_ok_start: "plan_ok g K W [] [] []"
  by (simp add: plan_ok_def made_def live_def)

lemma made_inj: "ok g \<Longrightarrow> i \<in> made g L \<Longrightarrow> j \<in> made g M \<Longrightarrow> nm g i = nm g j \<Longrightarrow> i = j"
  unfolding made_def using nm_inj by blast

lemma owner_made:
  assumes "plan_ok g K W lk free L" "i \<in> made g L"
  shows "\<exists>j \<in> made g L. nm g j = owner (W i) \<and> \<not> shared (W j) \<and> io_lane (W j) = io_lane (W i)"
  using plan_okD(1,5) [OF assms] assms(2) by (cases "shared (W i)") auto

text \<open>Launching \<open>v\<close>, first part: its outputs are locked while its inputs still are.\<close>

lemma plan_lock:
  assumes ok: "ok g" and inv: "plan_ok g K W lk free L" and v: "v \<notin> set L"
    and tops: "\<And>i. i \<in> set (outs g v) \<Longrightarrow> tp g i \<notin> insert v (set L)"
    and xs: "map io_name xs = map (nm g) (outs g v)"
    and lock: "lock_pure xs free = (ys, free')"
    and W': "\<And>i. i \<in> made g L \<Longrightarrow> W' i = W i" "map W' (outs g v) = ys"
  shows "distinct (map owner (lk @ ys @ free'))"
    "set lk = W' ` live g K L" "set free' \<subseteq> W' ` (made g L - live g K L)"
    "\<And>i. i \<in> made g (L @ [v]) \<Longrightarrow> io_name (W' i) = nm g i"
    "\<And>i. i \<in> made g (L @ [v]) \<Longrightarrow> shared (W' i) \<Longrightarrow>
        \<exists>j \<in> made g (L @ [v]). nm g j = share_from (W' i) \<and> \<not> shared (W' j) \<and> io_lane (W' j) = io_lane (W' i)"
    "\<And>i j. i \<in> made g (L @ [v]) \<Longrightarrow> j \<in> made g (L @ [v]) \<Longrightarrow> i \<noteq> j \<Longrightarrow> owner (W' i) = owner (W' j) \<Longrightarrow>
        apart g (L @ [v]) i j"
proof -
  note d = plan_okD [OF inv]
  have mk: "made g (L @ [v]) = made g L \<union> set (outs g v)" by (auto simp: made_def)
  have old: "i \<notin> made g L" if i: "i \<in> set (outs g v)" for i
  proof
    assume "i \<in> made g L"
    then obtain w where "w \<in> set L" "i \<in> set (outs g w)" by (auto simp: made_def)
    then show False using outs_bot [OF ok i] outs_bot [OF ok, of i w] v by simp
  qed
  have owners: "owner ` set (lk @ free) \<subseteq> nm g ` made g L"
  proof
    fix r
    assume "r \<in> owner ` set (lk @ free)"
    then obtain x where x: "r = owner x" "x \<in> set (lk @ free)" by blast
    then have "x \<in> W ` made g L" using d(2,3) unfolding live_def by auto
    then obtain k where "x = W k" "k \<in> made g L" by blast
    then show "r \<in> nm g ` made g L" using owner_made [OF inv] x(1) by force
  qed
  have "nm g i \<noteq> nm g j" if "i \<in> set (outs g v)" "j \<in> made g L" for i j
  proof
    assume "nm g i = nm g j"
    moreover have "i \<in> made g [v]" using that(1) by (simp add: made_def)
    ultimately have "i = j" using made_inj [OF ok _ that(2)] by blast
    then show False using old that by blast
  qed
  then have "nm g ` set (outs g v) \<inter> nm g ` made g L = {}" by blast
  moreover have "io_name ` set xs = nm g ` set (outs g v)" using arg_cong [OF xs, of set] by simp
  ultimately have disj: "io_name ` set xs \<inter> owner ` set (lk @ free) = {}" using owners by blast
  have dx: "distinct (map io_name xs)"
    unfolding xs distinct_map using outs_distinct [OF ok] nm_inj [OF ok] by (auto simp: inj_on_def)
  note ls = lock_pure_spec [OF lock d(4) dx disj]
  show own: "distinct (map owner (lk @ ys @ free'))" using ls by blast
  have same: "W' ` A = W ` A" if "A \<subseteq> made g L" for A
    by (rule image_cong) (use that W'(1) in auto)
  have "live g K L \<subseteq> made g L" by (auto simp: live_def)
  then show lk: "set lk = W' ` live g K L" using d(2) same by simp
  have "set free \<subseteq> W' ` (made g L - live g K L)" using d(3) same by simp
  then show fr: "set free' \<subseteq> W' ` (made g L - live g K L)" using ls by blast
  show nmW: "io_name (W' i) = nm g i" if "i \<in> made g (L @ [v])" for i
  proof (cases "i \<in> made g L")
    case True
    then show ?thesis using d(1) W'(1) by simp
  next
    case False
    then have i: "i \<in> set (outs g v)" using that mk by auto
    have "map (io_name \<circ> W') (outs g v) = map (nm g) (outs g v)" using ls xs W'(2) by (simp flip: map_map)
    then show ?thesis using i by simp
  qed
  text \<open>a new shared tensor takes over the owner of a tensor in the free pool\<close>
  have new: "\<exists>f \<in> made g L - live g K L. W f \<in> set free \<and> share_from (W' i) = owner (W f) \<and> io_lane (W f) = io_lane (W' i)"
    if i: "i \<in> set (outs g v)" and sh: "shared (W' i)" for i
  proof -
    have "W' i \<in> set ys" using i W'(2) by auto
    then obtain f where "f \<in> set free" "share_from (W' i) = owner f" "io_lane f = io_lane (W' i)" using ls sh by blast
    then show ?thesis using d(3) by blast
  qed
  show "\<exists>j \<in> made g (L @ [v]). nm g j = share_from (W' i) \<and> \<not> shared (W' j) \<and> io_lane (W' j) = io_lane (W' i)"
    if i: "i \<in> made g (L @ [v])" and sh: "shared (W' i)" for i
  proof (cases "i \<in> made g L")
    case True
    then show ?thesis using d(5) [OF True] sh W'(1) mk by auto
  next
    case False
    then obtain f where f: "f \<in> made g L" "share_from (W' i) = owner (W f)" "io_lane (W f) = io_lane (W' i)"
      using new [of i] i sh mk by blast
    then show ?thesis using owner_made [OF inv f(1)] W'(1) mk by auto
  qed
  text \<open>a new tensor and an old one with the same owner: the old one is dead\<close>
  have cross: "apart g (L @ [v]) j i \<and> apart g (L @ [v]) i j"
    if i: "i \<in> set (outs g v)" and j: "j \<in> made g L" and e: "owner (W' i) = owner (W' j)" for i j
  proof -
    have "shared (W' i)"
    proof (rule ccontr)
      assume "\<not> shared (W' i)"
      then have "owner (W j) = nm g i" using e nmW [of i] i mk W'(1) [OF j] by simp
      then obtain k where "k \<in> made g L" "nm g k = nm g i" using owner_made [OF inv j] by auto
      then show False using old [OF i] made_inj [OF ok, of k L i "[v]"] i by (simp add: made_def)
    qed
    then obtain f where f: "f \<in> made g L" "W f \<in> set free" "owner (W' i) = owner (W f)" using new [OF i] by auto
    have "j \<notin> live g K L"
    proof
      assume "j \<in> live g K L"
      then have "W j \<in> set lk" using d(2) by blast
      moreover have "owner (W j) = owner (W f)" using e f(3) W'(1) [OF j] by simp
      ultimately show False using d(4) f(2) by (auto simp: image_iff)
    qed
    then have "tp g j \<in> set L" using j by (simp add: live_def)
    then have "precedes (L @ [v]) (tp g j) (bot g i)" using precedes_last outs_bot [OF ok i] by simp
    then show ?thesis by (simp add: apart_def)
  qed
  show "apart g (L @ [v]) i j"
    if ij: "i \<in> made g (L @ [v])" "j \<in> made g (L @ [v])" "i \<noteq> j" and e: "owner (W' i) = owner (W' j)" for i j
  proof -
    consider "i \<in> made g L" "j \<in> made g L" | "i \<in> set (outs g v)" "j \<in> made g L" | "i \<in> made g L" "j \<in> set (outs g v)"
      | "i \<in> set (outs g v)" "j \<in> set (outs g v)" using ij mk by blast
    then show ?thesis
    proof cases
      case 1
      then have "apart g L i j" using d(6) [OF 1 ij(3)] e W'(1) by simp
      then show ?thesis unfolding apart_def using precedes_snoc by metis
    next
      case 2
      then show ?thesis using cross e by blast
    next
      case 3
      then show ?thesis using cross e by metis
    next
      case 4
      have "distinct (map (owner \<circ> W') (outs g v))" using own W'(2) by (auto simp flip: map_map)
      then show ?thesis using 4 ij(3) e by (auto simp: distinct_map inj_on_def)
    qed
  qed
qed

text \<open>Second part: the inputs go from the locked to the free pool.\<close>

lemma plan_release:
  assumes ok: "ok g" and inv: "plan_ok g K W lk free L" and v: "v \<notin> set L"
    and tops: "\<And>i. i \<in> set (outs g v) \<Longrightarrow> tp g i \<notin> insert v (set L)"
    and xs: "map io_name xs = map (nm g) (outs g v)"
    and lock: "lock_pure xs free = (ys, free')"
    and W': "\<And>i. i \<in> made g L \<Longrightarrow> W' i = W i" "map W' (outs g v) = ys"
    and pools: "mset (lk' @ fr') = mset (lk @ ys @ free')"
      "set lk' = (if v \<in> K then set (lk @ ys) else {x \<in> set (lk @ ys). x \<notin> W' ` {i \<in> made g L. tp g i = v}})"
  shows "plan_ok g K W' lk' fr' (L @ [v])"
proof -
  note pl = plan_lock [OF ok inv v tops xs lock W']
  have mk: "made g (L @ [v]) = made g L \<union> set (outs g v)" by (auto simp: made_def)
  have "mset (map owner (lk' @ fr')) = mset (map owner (lk @ ys @ free'))"
    using pools(1) by (metis mset_map)
  then have dist: "distinct (map owner (lk' @ fr'))" using pl(1) mset_eq_imp_distinct_iff by blast
  have ys: "set ys = W' ` set (outs g v)" using W'(2) by auto
  have inj: "i = j" if "i \<in> made g (L @ [v])" "j \<in> made g (L @ [v])" "W' i = W' j" for i j
    using that pl(4) made_inj [OF ok] by metis
  have liv: "live g K (L @ [v]) = {i \<in> live g K L. v \<in> K \<or> tp g i \<noteq> v} \<union> set (outs g v)"
    using tops by (auto simp: live_def mk)
  have lk': "set lk' = W' ` live g K (L @ [v])"
  proof (cases "v \<in> K")
    case True
    then show ?thesis using pools(2) pl(2) ys liv by auto
  next
    case False
    let ?B = "W' ` {i \<in> made g L. tp g i = v}"
    have new: "W' i \<notin> ?B" if "i \<in> set (outs g v)" for i
      using that inj [of i] mk tops by blast
    have old: "W' i \<in> ?B \<longleftrightarrow> tp g i = v" if "i \<in> live g K L" for i
      using that inj [of i] mk by (auto simp: live_def)
    have "set lk' = {x \<in> W' ` (live g K L \<union> set (outs g v)). x \<notin> ?B}"
      unfolding image_Un using False pools(2) pl(2) ys by simp
    also have "\<dots> = W' ` {i \<in> live g K L \<union> set (outs g v). W' i \<notin> ?B}" by (rule filter_image)
    also have "{i \<in> live g K L \<union> set (outs g v). W' i \<notin> ?B} = live g K (L @ [v])"
      unfolding liv using False new old by blast
    finally show ?thesis .
  qed
  have fr': "set fr' \<subseteq> W' ` (made g (L @ [v]) - live g K (L @ [v]))"
  proof
    fix x
    assume x: "x \<in> set fr'"
    then have "x \<in> set (lk @ ys @ free')" using mset_eq_setD [OF pools(1)] by auto
    moreover have "x \<notin> set lk'" using x dist by (auto simp: distinct_map inj_on_def)
    ultimately have "x \<in> W' ` made g (L @ [v])" "x \<notin> W' ` live g K (L @ [v])"
      using pl(2,3) ys lk' mk by (auto simp: live_def)
    then show "x \<in> W' ` (made g (L @ [v]) - live g K (L @ [v]))" by blast
  qed
  show ?thesis unfolding plan_ok_def
    by (intro conjI ballI impI pl(4) lk' fr' dist pl(5) pl(6))
qed

end

end
