(* ===== verification/Arc_Access.thy ===== *)
theory Arc_Access
  imports Dep_Scheduler_Facts
begin

text \<open>
  Reading the arcs of a well-formed virtual graph by their numbers: the tensor and the ends of an
  arc, and the arcs that start or end at a vertex.
\<close>

section \<open>Tensors\<close>

definition wt :: "vgraph \<Rightarrow> arc_id \<Rightarrow> io" where
  "wt G i = weight (the (map_of (arcs (vg G)) i))"

abbreviation arc_ids :: "vgraph \<Rightarrow> arc_id set" where
  "arc_ids G \<equiv> fst ` set (arcs (vg G))"

lemma wt_name: "io_name (wt G i) = name_of G i"
  by (simp add: wt_def name_of_def)

lemma wt_arc: "wf_vgraph G \<Longrightarrow> (i, a) \<in> set (arcs (vg G)) \<Longrightarrow> wt G i = weight a"
  using wf_graphD(2) [OF wf_vgraphD(1)] by (simp add: wt_def)

lemma deref_wt:
  assumes "wf_vgraph G" "i \<in> arc_ids G"
  shows "\<exists>a. deref (vg G) i = Inr a \<and> (i, a) \<in> set (arcs (vg G)) \<and> weight a = wt G i"
  using assms wt_arc [OF assms(1)] wf_graphD(2) [OF wf_vgraphD(1) [OF assms(1)]] by (auto simp: deref_def)

section \<open>Ends\<close>

definition bot_of :: "vgraph \<Rightarrow> arc_id \<Rightarrow> string" where
  "bot_of G i = arc_bottom (the (map_of (arcs (vg G)) i))"

definition top_of :: "vgraph \<Rightarrow> arc_id \<Rightarrow> string" where
  "top_of G i = arc_top (the (map_of (arcs (vg G)) i))"

abbreviation outs_at :: "vgraph \<Rightarrow> string \<Rightarrow> arc_id list" where
  "outs_at G v \<equiv> out_its (vg G) v"

lemma ends_of_arc:
  assumes "wf_vgraph G" "(i, a) \<in> set (arcs (vg G))"
  shows "bot_of G i = arc_bottom a" "top_of G i = arc_top a"
  using wf_graphD(2) [OF wf_vgraphD(1) [OF assms(1)]] assms(2) by (simp_all add: bot_of_def top_of_def)

lemma outs_at_iff:
  assumes "wf_vgraph G"
  shows "i \<in> set (outs_at G v) \<longleftrightarrow> i \<in> arc_ids G \<and> bot_of G i = v"
proof
  assume "i \<in> set (outs_at G v)"
  then obtain a where "(i, a) \<in> set (arcs (vg G))" "arc_bottom a = v"
    using wf_graphD(8) [OF wf_vgraphD(1) [OF assms]] by blast
  then show "i \<in> arc_ids G \<and> bot_of G i = v" using ends_of_arc [OF assms] by force
next
  assume i: "i \<in> arc_ids G \<and> bot_of G i = v"
  then obtain a where "(i, a) \<in> set (arcs (vg G))" by auto
  then show "i \<in> set (outs_at G v)"
    using wf_vgraphD(2) [OF assms] ends_of_arc [OF assms] i by (auto simp: linked_def)
qed

lemma ins_at_iff:
  assumes "wf_vgraph G"
  shows "i \<in> set (in_its (vg G) v) \<longleftrightarrow> i \<in> arc_ids G \<and> top_of G i = v"
proof
  assume "i \<in> set (in_its (vg G) v)"
  then obtain a where "(i, a) \<in> set (arcs (vg G))" "arc_top a = v"
    using wf_graphD(10) [OF wf_vgraphD(1) [OF assms]] by blast
  then show "i \<in> arc_ids G \<and> top_of G i = v" using ends_of_arc [OF assms] by force
next
  assume i: "i \<in> arc_ids G \<and> top_of G i = v"
  then obtain a where "(i, a) \<in> set (arcs (vg G))" by auto
  then show "i \<in> set (in_its (vg G) v)"
    using wf_vgraphD(2) [OF assms] ends_of_arc [OF assms] i by (auto simp: linked_def)
qed

section \<open>Dereferencing\<close>

definition arc_at :: "vgraph \<Rightarrow> arc_id \<Rightarrow> (string, io) arc" where
  "arc_at G i = the (map_of (arcs (vg G)) i)"

lemma arc_at_simps [simp]: "weight (arc_at G i) = wt G i" "arc_bottom (arc_at G i) = bot_of G i"
  "arc_top (arc_at G i) = top_of G i"
  by (simp_all add: arc_at_def wt_def bot_of_def top_of_def)

lemma deref_at: "i \<in> arc_ids G \<Longrightarrow> deref (vg G) i = Inr (arc_at G i)"
  by (auto simp: deref_def arc_at_def split: option.splits) (meson domIff dom_map_of_conv_image_fst image_eqI fst_conv weak_map_of_SomeI)

lemma arc_at_mem: "i \<in> arc_ids G \<Longrightarrow> (i, arc_at G i) \<in> set (arcs (vg G))"
  using deref_at [of i G] by (auto simp: deref_def split: option.splits dest: map_of_SomeD)

lemma in_weights_eq:
  assumes "wf_vgraph G" "v \<in> set (vertex_names (vg G))"
  shows "in_weights G v = Inr (map (wt G) (in_its (vg G) v))"
proof -
  have "set (in_its (vg G) v) \<subseteq> arc_ids G" using ins_at_iff [OF assms(1)] by blast
  then show ?thesis
    using weights_of_names [OF assms(1)] assms(2)
    by (simp add: in_weights_def get_in_arc_its_def has_vertex_iff wt_def [abs_def])
qed

end
