(* ===== verification/Memory_Facts.thy ===== *)
theory Memory_Facts
  imports Memory_Plan Edge_Update Arc_Access
begin

text \<open>
  The memory scheduler carries out the plan of \<open>Memory_Plan\<close> on graphs whose operators all write
  new tensors: what its searches find, what locking and freeing do to the pools and what writing
  the plan back does to the arcs.
\<close>

section \<open>Searching\<close>

text \<open>A graph that can be traversed: it has an input.\<close>

definition has_ins :: "vgraph \<Rightarrow> bool" where
  "has_ins G \<longleftrightarrow> (\<exists>ins. get_graph_ins (vg G) = Inr ins \<and> ins \<noteq> [])"

lemma run_exit_search:
  assumes "wf_vgraph G" "set is \<subseteq> arc_ids G"
  shows "i \<in> set is \<Longrightarrow> name_of G i = share_from x \<Longrightarrow> run_exit search_target is (G, x) = Inr (True, (G, wt G i))"
    "\<exists>e y. run_exit search_target is (G, x) = Inr (e, (G, y))"
proof -
  have step: "search_target j (G, x) = Inr (if name_of G j = share_from x then (EXIT, (G, wt G j)) else (OK, (G, x)))"
    if "j \<in> arc_ids G" for j x
    using deref_wt [OF assms(1) that] by (auto simp: search_target_def wt_name [symmetric])
  show "run_exit search_target is (G, x) = Inr (True, (G, wt G i))" if "i \<in> set is" "name_of G i = share_from x"
    using that assms(2)
  proof (induction "is")
    case (Cons j "is")
    have ids: "i \<in> arc_ids G" "j \<in> arc_ids G" using Cons.prems(1,3) by auto
    show ?case
    proof (cases "name_of G j = share_from x")
      case True
      then have "j = i" using name_of_inj [OF assms(1) ids] Cons.prems(2) by simp
      then show ?thesis using True step [OF ids(2)] by simp
    next
      case False
      then have "i \<in> set is" using Cons.prems(1,2) by auto
      then show ?thesis using False step [OF ids(2)] Cons by simp
    qed
  qed simp
  show "\<exists>e y. run_exit search_target is (G, x) = Inr (e, (G, y))"
    using assms(2)
  proof (induction "is")
    case Nil
    then show ?case by (metis run_exit.simps(1))
  next
    case (Cons j "is")
    then obtain e y where r: "run_exit search_target is (G, x) = Inr (e, (G, y))" by auto
    show ?case
    proof (cases "name_of G j = share_from x")
      case True
      then have "run_exit search_target (j # is) (G, x) = Inr (True, (G, wt G j))" using step [of j x] Cons.prems by simp
      then show ?thesis by blast
    next
      case False
      then have "run_exit search_target (j # is) (G, x) = Inr (e, (G, y))" using step [of j x] Cons.prems r by simp
      then show ?thesis by blast
    qed
  qed
qed

lemma search_keeps: "keeps_skel (vg \<circ> fst) search_target"
  by (rule keeps_fst) (auto simp: search_target_def split: if_splits)

lemma scan_search:
  assumes "wf_vgraph G" "has_ins G"
  shows "(i, a) \<in> set (arcs (vg G)) \<Longrightarrow> arc_bottom a \<in> reached G \<Longrightarrow> io_name (weight a) = share_from x \<Longrightarrow>
      scan_edges_until fst search_target (G, x) = Inr (G, wt G i)"
    "\<exists>y. scan_edges_until fst search_target (G, x) = Inr (G, y)"
proof -
  note w = wf_vgraphD(1,2) [OF assms(1)]
  obtain ins where ins: "get_graph_ins (vg G) = Inr ins" "ins \<noteq> []" using assms(2) by (auto simp: has_ins_def)
  have "set ins = {b. (\<exists>t. (b, t) \<in> edges (vg G)) \<and> (\<forall>u. (u, b) \<notin> edges (vg G))}"
    by (rule get_graph_ins_spec(1) [OF w ins(1)])
  then obtain "is" where es: "set is = {i. \<exists>a. (i, a) \<in> set (arcs (vg G)) \<and> arc_bottom a \<in> reached G}"
    "scan_edges_until fst search_target (G, x) = bindE (run_exit search_target is (G, x)) (\<lambda>(_, t). Inr t)"
    using bfs_edge_spec [OF search_keeps, of "(G, x)" ins "graph_size (vg G)"] w ins
    by (auto simp: reached_def scan_edges_until_def)
  have sub: "set is \<subseteq> arc_ids G" using es(1) by force
  show "scan_edges_until fst search_target (G, x) = Inr (G, wt G i)"
    if "(i, a) \<in> set (arcs (vg G))" "arc_bottom a \<in> reached G" "io_name (weight a) = share_from x"
  proof -
    have "i \<in> set is" "name_of G i = share_from x" using es(1) that name_of_arc [OF assms(1) that(1)] by auto
    then show ?thesis by (simp add: es(2) run_exit_search(1) [OF assms(1) sub])
  qed
  show "\<exists>y. scan_edges_until fst search_target (G, x) = Inr (G, y)"
    using run_exit_search(2) [OF assms(1) sub, of x] es(2) by auto
qed

text \<open>A tensor whose owner can be found.\<close>

definition resolvable :: "vgraph \<Rightarrow> io \<Rightarrow> bool" where
  "resolvable G x \<longleftrightarrow> (shared x \<longrightarrow>
     (\<exists>i a. (i, a) \<in> set (arcs (vg G)) \<and> arc_bottom a \<in> reached G \<and> io_name (weight a) = share_from x \<and> \<not> shared (weight a)))"

lemma resolve_unshared: "\<not> shared x \<Longrightarrow> resolve k G x = Inr x"
  by (cases k) simp_all

lemma resolve_owner:
  assumes "wf_vgraph G" "has_ins G" "resolvable G x"
  shows "\<exists>y. resolve (Suc k) G x = Inr y \<and> io_name y = owner x"
proof (cases "shared x")
  case True
  then obtain i a where a: "(i, a) \<in> set (arcs (vg G))" "arc_bottom a \<in> reached G" "io_name (weight a) = share_from x" "\<not> shared (weight a)"
    using assms(3) by (auto simp: resolvable_def)
  then have "scan_edges_until fst search_target (G, x) = Inr (G, weight a)"
    using scan_search(1) [OF assms(1,2) a(1-3)] wt_arc [OF assms(1) a(1)] by simp
  then show ?thesis using True a(3,4) by (simp add: resolve_unshared)
qed simp

lemma is_same_target_eq:
  assumes "wf_vgraph G" "has_ins G" "resolvable G x" "resolvable G y"
  shows "is_same_target G x y = Inr (owner x = owner y)"
proof -
  obtain a b where "resolve (Suc (length (arcs (vg G)))) G x = Inr a" "io_name a = owner x"
    "resolve (Suc (length (arcs (vg G)))) G y = Inr b" "io_name b = owner y"
    using resolve_owner [OF assms(1,2)] assms(3,4) by metis
  then show ?thesis by (simp add: is_same_target_def io_eq_def)
qed

section \<open>Freeing\<close>

lemma push_free_eq:
  assumes "wf_vgraph G" "has_ins G" "graph_p s = Some G" "fix_io_res s = []" "resolvable G x"
    and "\<And>y. y \<in> set (free_ios s) \<Longrightarrow> resolvable G y" "owner x \<notin> owner ` set (free_ios s)"
  shows "push_free x s = Inr (s\<lparr>free_ios := free_ios s @ [x]\<rparr>)"
proof -
  have "foldE (\<lambda>y found. bindE (is_same_target G y x) (\<lambda>b. Inr (if b then True else found))) ys False = Inr False"
    if "set ys \<subseteq> set (free_ios s)" for ys
    using that
  proof (induction ys)
    case (Cons y ys)
    then have "is_same_target G y x = Inr False"
      using is_same_target_eq [OF assms(1,2) _ assms(5), of y] assms(6) [of y] assms(7) image_eqI [of "owner x" owner y]
      by fastforce
    then show ?case using Cons by simp
  qed simp
  then have "foldE (\<lambda>y found. bindE (is_same_target G y x) (\<lambda>b. Inr (if b then True else found))) (free_ios s) False = Inr False"
    by simp
  moreover obtain z where "scan_edges_until fst search_target (G, x) = Inr (G, z)" using scan_search(2) [OF assms(1,2)] by blast
  ultimately show ?thesis using assms(3,4) by (simp add: push_free_def the_graph_def is_target_fixed_def is_fixed_def)
qed

lemma free_loop_eq:
  fixes s :: mem_sched
  assumes "wf_vgraph G" "has_ins G"
  shows "graph_p s = Some G \<Longrightarrow> fix_io_res s = [] \<Longrightarrow> (\<And>x. x \<in> set (xs @ free_ios s) \<Longrightarrow> resolvable G x) \<Longrightarrow>
    distinct (map owner (xs @ free_ios s)) \<Longrightarrow>
    free_loop r kept xs s = Inr (s\<lparr>free_ios := free_ios s @ filter (\<lambda>x. io_name x = r) xs,
      lock_ios := kept @ filter (\<lambda>x. io_name x \<noteq> r) xs\<rparr>)"
proof (induction xs arbitrary: kept s)
  case Nil
  then show ?case by simp
next
  case (Cons x xs)
  show ?case
  proof (cases "io_name x = r")
    case True
    have "push_free x s = Inr (s\<lparr>free_ios := free_ios s @ [x]\<rparr>)"
      by (rule push_free_eq [OF assms Cons.prems(1,2)]) (use Cons.prems(3,4) in auto)
    moreover have "free_loop r kept xs (s\<lparr>free_ios := free_ios s @ [x]\<rparr>) =
      Inr ((s\<lparr>free_ios := free_ios s @ [x]\<rparr>)\<lparr>free_ios := free_ios (s\<lparr>free_ios := free_ios s @ [x]\<rparr>) @ filter (\<lambda>x. io_name x = r) xs,
        lock_ios := kept @ filter (\<lambda>x. io_name x \<noteq> r) xs\<rparr>)"
      by (rule Cons.IH) (use Cons.prems in auto)
    ultimately show ?thesis using True by simp
  next
    case False
    have "free_loop r (kept @ [x]) xs s = Inr (s\<lparr>free_ios := free_ios s @ filter (\<lambda>x. io_name x = r) xs,
        lock_ios := (kept @ [x]) @ filter (\<lambda>x. io_name x \<noteq> r) xs\<rparr>)"
      by (rule Cons.IH) (use Cons.prems in auto)
    then show ?thesis using False by simp
  qed
qed

lemma free_block_eq:
  fixes s :: mem_sched
  assumes "wf_vgraph G" "has_ins G"
  shows "graph_p s = Some G \<Longrightarrow> fix_io_res s = [] \<Longrightarrow> (\<And>x. x \<in> set (lock_ios s @ free_ios s) \<Longrightarrow> resolvable G x) \<Longrightarrow>
    distinct (map owner (lock_ios s @ free_ios s)) \<Longrightarrow>
    \<exists>f. free_block ws s = Inr (s\<lparr>free_ios := f, lock_ios := filter (\<lambda>x. io_name x \<notin> io_name ` set ws) (lock_ios s)\<rparr>) \<and>
      mset f = mset (free_ios s) + filter_mset (\<lambda>x. io_name x \<in> io_name ` set ws) (mset (lock_ios s))"
proof (induction ws arbitrary: s)
  case Nil
  then show ?case by (intro exI [of _ "free_ios s"]) (simp add: free_block_def)
next
  case (Cons w ws)
  let ?r = "io_name w"
  let ?t = "s\<lparr>free_ios := free_ios s @ filter (\<lambda>x. io_name x = ?r) (lock_ios s), lock_ios := filter (\<lambda>x. io_name x \<noteq> ?r) (lock_ios s)\<rparr>"
  have step: "free_loop ?r [] (lock_ios s) s = Inr ?t"
    using free_loop_eq [OF assms Cons.prems, of ?r "[]"] by simp
  have ms: "mset (lock_ios ?t @ free_ios ?t) = mset (lock_ios s @ free_ios s)"
  proof -
    have "mset (lock_ios ?t @ free_ios ?t) = (filter_mset (\<lambda>x. io_name x = ?r) (mset (lock_ios s)) +
      filter_mset (\<lambda>x. io_name x \<noteq> ?r) (mset (lock_ios s))) + mset (free_ios s)" by (simp add: add_ac)
    also have "\<dots> = mset (lock_ios s) + mset (free_ios s)" by (simp only: multiset_partition [symmetric])
    finally show ?thesis by simp
  qed
  have "distinct (map owner (lock_ios ?t @ free_ios ?t))"
  proof -
    have "mset (map owner (lock_ios ?t @ free_ios ?t)) = mset (map owner (lock_ios s @ free_ios s))"
      unfolding mset_map by (simp only: ms)
    then show ?thesis using Cons.prems(4) mset_eq_imp_distinct_iff by blast
  qed
  moreover have "\<And>x. x \<in> set (lock_ios ?t @ free_ios ?t) \<Longrightarrow> resolvable G x"
    using Cons.prems(3) mset_eq_setD [OF ms] by blast
  ultimately obtain f where f: "free_block ws ?t = Inr (?t\<lparr>free_ios := f, lock_ios := filter (\<lambda>x. io_name x \<notin> io_name ` set ws) (lock_ios ?t)\<rparr>)"
    "mset f = mset (free_ios ?t) + filter_mset (\<lambda>x. io_name x \<in> io_name ` set ws) (mset (lock_ios ?t))"
    using Cons.IH [of ?t] Cons.prems(1,2) by auto
  have "free_block (w # ws) s = free_block ws ?t" using step by (simp add: free_block_def)
  moreover have "filter (\<lambda>x. io_name x \<notin> io_name ` set ws) (lock_ios ?t) = filter (\<lambda>x. io_name x \<notin> io_name ` set (w # ws)) (lock_ios s)"
    by (simp add: conj_commute)
  moreover have "mset f = mset (free_ios s) + filter_mset (\<lambda>x. io_name x \<in> io_name ` set (w # ws)) (mset (lock_ios s))"
  proof -
    have split: "filter_mset (\<lambda>x. io_name x \<in> io_name ` set (w # ws)) M =
      filter_mset (\<lambda>x. io_name x = ?r) M + filter_mset (\<lambda>x. io_name x \<in> io_name ` set ws) (filter_mset (\<lambda>x. io_name x \<noteq> ?r) M)" for M
      by (induction M) auto
    show ?thesis unfolding split f(2) by (simp add: add_ac)
  qed
  ultimately show ?case using f(1) by (intro exI [of _ f]) simp
qed

section \<open>Writing the plan back\<close>

lemma replace_arc_change: "replace_arc x = change_named (\<lambda>u. u) (\<lambda>_ _. x) (io_name x)"
  by (intro ext) (simp add: replace_arc_def change_named_def io_eq_def case_prod_unfold cong: if_cong)

lemma wt_set_weight:
  assumes "j \<in> arc_ids G"
  shows "wt (set_weight i f G) j = (if j = i then f (wt G j) else wt G j)"
proof -
  obtain a where "map_of (arcs (vg G)) j = Some a" using assms by (metis domD dom_map_of_conv_image_fst)
  then show ?thesis by (cases "j = i") (simp_all add: wt_def set_weight_arcs)
qed

lemma shape_of_ids: "shape_of H = shape_of G \<Longrightarrow> arc_ids H = arc_ids G"
proof -
  assume "shape_of H = shape_of G"
  then have "map (\<lambda>(i, a). (i, io_name (weight a))) (arcs (vg H)) = map (\<lambda>(i, a). (i, io_name (weight a))) (arcs (vg G))"
    by (simp add: shape_of_def)
  then have "map fst (map (\<lambda>(i, a). (i, io_name (weight a))) (arcs (vg H))) = map fst (map (\<lambda>(i, a). (i, io_name (weight a))) (arcs (vg G)))"
    by simp
  then have "map fst (arcs (vg H)) = map fst (arcs (vg G))" by (simp add: comp_def case_prod_unfold)
  then show ?thesis by (metis list.set_map)
qed

lemma shape_of_ins: "shape_of H = shape_of G \<Longrightarrow> has_ins H = has_ins G"
proof -
  assume "shape_of H = shape_of G"
  then have "get_graph_ins (vg H) = get_graph_ins (vg G)" by (rule shape_of_its(6))
  then show ?thesis by (simp add: has_ins_def)
qed

text \<open>The arc that a number stands for keeps its ends.\<close>

lemma shape_of_ends:
  assumes "shape_of H = shape_of G" "wf_vgraph G" "(i, a) \<in> set (arcs (vg G))"
  shows "\<exists>b. (i, b) \<in> set (arcs (vg H)) \<and> arc_bottom b = arc_bottom a \<and> arc_top b = arc_top a \<and> weight b = wt H i"
proof -
  have "map (\<lambda>(i, a). (i, ends a)) (arcs (vg H)) = map (\<lambda>(i, a). (i, ends a)) (arcs (vg G))"
    using shape_of_skel [OF assms(1)] by (simp add: skel_def ends_def)
  then have "map_option ends (map_of (arcs (vg H)) i) = map_option ends (map_of (arcs (vg G)) i)"
    using map_of_map_snd [of ends] by metis
  moreover have "map_of (arcs (vg G)) i = Some a"
    using assms(3) wf_graphD(2) [OF wf_vgraphD(1) [OF assms(2)]] by simp
  ultimately obtain b where b: "map_of (arcs (vg H)) i = Some b" "ends b = ends a" by auto
  then have "(i, b) \<in> set (arcs (vg H))" by (rule_tac map_of_SomeD)
  then show ?thesis using b by (auto simp: ends_def wt_def)
qed

lemma map_ios_eq:
  assumes "distinct is" "map io_name xs = map (name_of G) is" "wf_vgraph G" "has_ins G"
    and "\<And>i. i \<in> set is \<Longrightarrow> \<exists>a. (i, a) \<in> set (arcs (vg G)) \<and> arc_bottom a \<in> reached G"
  shows "\<exists>H. map_ios_to_vgraph xs G = Inr H \<and> shape_of H = shape_of G \<and> vertices (vg H) = vertices (vg G) \<and>
    nodes_exec_order H = nodes_exec_order G \<and> map (wt H) is = xs \<and> (\<forall>j \<in> arc_ids G - set is. wt H j = wt G j)"
  using assms
proof (induction "is" arbitrary: xs G)
  case Nil
  then show ?case by (simp add: map_ios_to_vgraph_def)
next
  case (Cons i "is")
  obtain x ys where xs: "xs = x # ys" "io_name x = name_of G i" "map io_name ys = map (name_of G) is"
    using Cons.prems(2) by auto
  obtain a where a: "(i, a) \<in> set (arcs (vg G))" "arc_bottom a \<in> reached G" using Cons.prems(5) by fastforce
  let ?G = "set_weight i (\<lambda>_. x) G"
  obtain ins where ins: "get_graph_ins (vg G) = Inr ins" "ins \<noteq> []" using Cons.prems(4) by (auto simp: has_ins_def)
  have nm: "io_name (weight a) = io_name x" using name_of_arc [OF Cons.prems(3) a(1)] xs(2) by simp
  have step: "scan_edges_until snd (replace_arc x) ((), G) = Inr ((), ?G)"
    unfolding replace_arc_change by (rule scan_change(1) [OF Cons.prems(3) ins a nm])
  have sh: "shape_of ?G = shape_of G"
    by (rule set_weight_shape_at) (use nm id_unique [OF wf_vgraphD(1) [OF Cons.prems(3)] a(1)] in auto)
  have ids: "set is \<subseteq> arc_ids G" using Cons.prems(5) by force
  have "\<exists>H. map_ios_to_vgraph ys ?G = Inr H \<and> shape_of H = shape_of ?G \<and> vertices (vg H) = vertices (vg ?G) \<and>
    nodes_exec_order H = nodes_exec_order ?G \<and> map (wt H) is = ys \<and> (\<forall>j \<in> arc_ids ?G - set is. wt H j = wt ?G j)"
  proof (rule Cons.IH)
    show "distinct is" using Cons.prems(1) by simp
    show "map io_name ys = map (name_of ?G) is" 
      unfolding xs(3)
    proof (rule map_cong [OF refl])
      fix j
      assume "j \<in> set is"
      then have "j \<in> arc_ids G" using ids by (rule rev_subsetD)
      then show "name_of G j = name_of ?G j" by (rule shape_of_names [OF sh, symmetric])
    qed
    show "wf_vgraph ?G" "has_ins ?G" using shape_of_wf [OF sh] shape_of_ins [OF sh] Cons.prems(3,4) by simp_all
    fix j
    assume "j \<in> set is"
    then obtain b where "(j, b) \<in> set (arcs (vg G))" "arc_bottom b \<in> reached G" using Cons.prems(5) by fastforce
    then show "\<exists>a. (j, a) \<in> set (arcs (vg ?G)) \<and> arc_bottom a \<in> reached ?G"
      using shape_of_ends [OF sh Cons.prems(3)] shape_of_its(5) [OF sh] by metis
  qed
  then obtain H where H: "map_ios_to_vgraph ys ?G = Inr H" "shape_of H = shape_of ?G" "vertices (vg H) = vertices (vg ?G)"
    "nodes_exec_order H = nodes_exec_order ?G" "map (wt H) is = ys" "\<forall>j \<in> arc_ids ?G - set is. wt H j = wt ?G j" by blast
  have i: "i \<in> arc_ids G" "i \<notin> set is" using a(1) Cons.prems(1) by force+
  have "wt H i = x" using H(6) shape_of_ids [OF sh] i wt_set_weight [OF i(1), of i "\<lambda>_. x"] by simp
  moreover have "wt H j = wt G j" if "j \<in> arc_ids G - set (i # is)" for j
    using H(6) shape_of_ids [OF sh] that wt_set_weight [of j G i "\<lambda>_. x"] by auto
  moreover have "map_ios_to_vgraph xs G = Inr H" using step H(1) xs(1) by (simp add: map_ios_to_vgraph_def)
  moreover have "nodes_exec_order ?G = nodes_exec_order G" by (simp add: set_weight_def)
  ultimately show ?case using H(2-5) sh xs(1) by (intro exI [of _ H]) simp
qed

end
