(* ===== verification/Memory_Launch.thy ===== *)
theory Memory_Launch
  imports Memory_Facts
begin

text \<open>
  One launch of the memory scheduler, on graphs without in-place operators: the tensors that the
  operator writes are locked while those it reads still are, then those it reads are freed. The
  invariant of the plan is kept.
\<close>

section \<open>The plan of a virtual graph\<close>

interpretation plan: memory_graph wf_vgraph outs_at name_of bot_of top_of
proof
  fix G :: vgraph and v w i j
  assume wf: "wf_vgraph G"
  show "distinct (outs_at G v)" by (rule wf_graphD(7) [OF wf_vgraphD(1) [OF wf]])
  show "bot_of G i = v" if "i \<in> set (outs_at G v)" using that outs_at_iff [OF wf] by blast
  show "i = j" if "i \<in> set (outs_at G v)" "j \<in> set (outs_at G w)" "name_of G i = name_of G j"
    using name_of_inj [OF wf _ _ that(3)] that(1,2) outs_at_iff [OF wf] by blast
qed

lemma made_iff: "wf_vgraph G \<Longrightarrow> i \<in> plan.made G L \<longleftrightarrow> i \<in> arc_ids G \<and> bot_of G i \<in> set L"
  by (auto simp: plan.made_def outs_at_iff)

section \<open>What a launch reads\<close>

lemma arcs_of_eq: "set is \<subseteq> arc_ids G \<Longrightarrow> arcs_of G is = Inr (map (arc_at G) is)"
  unfolding arcs_of_def by (rule mapE_total) (use deref_at in blast)

lemma ops_at_eq: "wf_vgraph G \<Longrightarrow> set vs \<subseteq> set (vertex_names (vg G)) \<Longrightarrow> ops_at G vs = Inr (map (node_of G) vs)"
  unfolding ops_at_def by (rule mapE_total) (use node_of_name(2) in blast)

lemma unshare_conv_id:
  "length ys = length ns \<Longrightarrow> (\<And>n. n \<in> set ns \<Longrightarrow> op_name n \<noteq> ''ConvEltwise'') \<Longrightarrow> map2 unshare_conv ys ns = ys"
  by (induction ys ns rule: list_induct2) (auto simp: unshare_conv_def)

lemma last_op_plain:
  assumes "wf_vgraph G" "node_name n \<in> set (vertex_names (vg G))"
    and "\<And>v. v \<in> set (vertex_names (vg G)) \<Longrightarrow> \<not> need_self_shared (node_of G v)"
  shows "last_op_is_self_shared G n = Inr (False, [])"
proof -
  let ?f = "\<lambda>i (ret, ios). bindE (deref (vg G) i) (\<lambda>a.
       bindE (vertex_at (vg G) (arc_top a)) (\<lambda>top.
       if op_name top \<noteq> ''Output'' then
         bindE (vertex_at (vg G) (arc_bottom a)) (\<lambda>btm.
         Inr (if need_self_shared btm then (True, ios @ [weight a]) else (ret, ios)))
       else Inr (ret, ios)))"
  have "foldE ?f is (False, []) = Inr (False, [])" if "set is \<subseteq> arc_ids G" for "is"
    using that
  proof (induction "is")
    case (Cons i "is")
    then have i: "i \<in> arc_ids G" by simp
    then have "bot_of G i \<in> set (vertex_names (vg G))" "top_of G i \<in> set (vertex_names (vg G))"
      using wf_graphD(5,6) [OF wf_vgraphD(1) [OF assms(1)] arc_at_mem] by simp_all
    then show ?case using Cons deref_at [OF i] node_of_name(2) [OF assms(1)] assms(3) by simp
  qed simp
  moreover have "set (in_its (vg G) (node_name n)) \<subseteq> arc_ids G" using ins_at_iff [OF assms(1)] by blast
  ultimately show ?thesis
    using assms(2) by (simp add: last_op_is_self_shared_def get_in_arc_its_def has_vertex_iff)
qed

lemma lock_pure_stale: "lock_pure xs free = (ys, f) \<Longrightarrow> list_all2 (\<lambda>x y. \<not> shared y \<longrightarrow> share_from y = share_from x) xs ys"
  by (induction xs arbitrary: free ys f) (fastforce simp: Let_def split: prod.splits if_splits)+

section \<open>The invariant\<close>

definition plain_graph :: "vgraph \<Rightarrow> bool" where
  "plain_graph G \<longleftrightarrow> registed_outs G = [] \<and> (\<forall>v \<in> set (vertex_names (vg G)).
     \<not> need_self_shared (node_of G v) \<and> op_name (node_of G v) \<noteq> ''ConvEltwise'')"

definition sinks :: "vgraph \<Rightarrow> string set" where
  "sinks G = {v. op_name (node_of G v) = ''Output''}"

definition mem_ok :: "vgraph \<Rightarrow> mem_sched \<Rightarrow> string list \<Rightarrow> bool" where
  "mem_ok G0 s L \<longleftrightarrow> fix_io_res s = [] \<and> (\<exists>G. graph_p s = Some G \<and> shape_of G = shape_of G0 \<and>
     vertices (vg G) = vertices (vg G0) \<and> nodes_exec_order G = nodes_exec_order G0 \<and>
     plan.plan_ok G0 (sinks G0) (wt G) (lock_ios s) (free_ios s) L \<and>
     (\<forall>i \<in> arc_ids G0. \<not> shared (wt G i) \<longrightarrow> share_from (wt G i) = share_from (wt G0 i)) \<and>
     (\<forall>i \<in> arc_ids G0. i \<notin> plan.made G0 L \<longrightarrow> wt G i = wt G0 i))"

lemma shape_of_bot_top:
  assumes "shape_of H = shape_of G" "wf_vgraph G" "i \<in> arc_ids G"
  shows "bot_of H i = bot_of G i" "top_of H i = top_of G i"
proof -
  obtain b where "(i, b) \<in> set (arcs (vg H))" "arc_bottom b = bot_of G i" "arc_top b = top_of G i"
    using shape_of_ends [OF assms(1,2) arc_at_mem [OF assms(3)]] by auto
  moreover have "wf_vgraph H" using shape_of_wf [OF assms(1)] assms(2) by simp
  ultimately show "bot_of H i = bot_of G i" "top_of H i = top_of G i" using ends_of_arc by metis+
qed

text \<open>Every planned tensor has an owner that the searches of the code find.\<close>

lemma planned_resolvable:
  assumes "wf_vgraph G0" "shape_of H = shape_of G0" "set L \<subseteq> reached G0" "i \<in> plan.made G0 L"
    and "\<And>i. i \<in> plan.made G0 L \<Longrightarrow> shared (wt H i) \<Longrightarrow>
       \<exists>j \<in> plan.made G0 L. name_of G0 j = share_from (wt H i) \<and> \<not> shared (wt H j)"
  shows "resolvable H (wt H i)"
  unfolding resolvable_def
proof
  assume "shared (wt H i)"
  then obtain j where j: "j \<in> plan.made G0 L" "name_of G0 j = share_from (wt H i)" "\<not> shared (wt H j)"
    using assms(5) [OF assms(4)] by blast
  then have ids: "j \<in> arc_ids G0" "bot_of G0 j \<in> reached G0" using made_iff [OF assms(1)] assms(3) by auto
  then obtain b where b: "(j, b) \<in> set (arcs (vg H))" "arc_bottom b = bot_of G0 j" "weight b = wt H j"
    using shape_of_ends [OF assms(2,1) arc_at_mem [OF ids(1)]] by auto
  moreover have "io_name (wt H j) = share_from (wt H i)" using j(2) shape_of_names [OF assms(2) ids(1)] by (simp add: wt_name)
  ultimately show "\<exists>i' a. (i', a) \<in> set (arcs (vg H)) \<and> arc_bottom a \<in> reached H \<and>
      io_name (weight a) = share_from (wt H i) \<and> \<not> shared (weight a)"
    using j(3) ids(2) shape_of_its(5) [OF assms(2)] by (intro exI [of _ j] exI [of _ b]) simp
qed

section \<open>One launch\<close>

lemma mem_launch_ok:
  assumes wf: "wf_vgraph G0" "has_ins G0" "plain_graph G0" and inv: "mem_ok G0 s L" "set L \<subseteq> reached G0"
    and v: "node_name n = v" "op_name n = op_name (node_of G0 v)" "v \<notin> set L" "v \<in> reached G0" "v \<in> set (vertex_names (vg G0))"
    and tops: "\<And>i. i \<in> set (outs_at G0 v) \<Longrightarrow> top_of G0 i \<notin> insert v (set L)"
  shows "\<exists>t. mem_launch n s = Inr t \<and> mem_ok G0 t (L @ [v]) \<and> exec_que t = exec_que s @ [node_copy n] \<and>
    rw_resources t = tag_free_list (out_names G0 v) (rw_resources s)"
proof -
  obtain G where G: "graph_p s = Some G" "shape_of G = shape_of G0" "vertices (vg G) = vertices (vg G0)"
    "nodes_exec_order G = nodes_exec_order G0" "plan.plan_ok G0 (sinks G0) (wt G) (lock_ios s) (free_ios s) L"
    "\<forall>i \<in> arc_ids G0. \<not> shared (wt G i) \<longrightarrow> share_from (wt G i) = share_from (wt G0 i)"
    "\<forall>i \<in> arc_ids G0. i \<notin> plan.made G0 L \<longrightarrow> wt G i = wt G0 i"
    and fx: "fix_io_res s = []" using inv(1) by (auto simp: mem_ok_def)
  note its = shape_of_its [OF G(2)]
  have wfG: "wf_vgraph G" "has_ins G" using wf shape_of_wf [OF G(2)] shape_of_ins [OF G(2)] by simp_all
  have nodes: "node_of G = node_of G0" by (rule ext) (simp add: node_of_def G(3))
  have plain: "u \<in> set (vertex_names (vg G)) \<Longrightarrow> \<not> need_self_shared (node_of G u) \<and> op_name (node_of G u) \<noteq> ''ConvEltwise''" for u
    using wf(3) its(3) nodes by (simp add: plain_graph_def)
  let ?its = "outs_at G0 v"
  have ids: "set ?its \<subseteq> arc_ids G0" "set ?its \<subseteq> arc_ids G" using outs_at_iff [OF wf(1)] shape_of_ids [OF G(2)] by blast+
  have vG: "v \<in> set (vertex_names (vg G))" using v(5) its(3) by simp
  have tops_in: "set (map (top_of G) ?its) \<subseteq> set (vertex_names (vg G))"
  proof
    fix u
    assume "u \<in> set (map (top_of G) ?its)"
    then obtain i where "i \<in> set ?its" and u: "u = top_of G i" by auto
    then have "i \<in> arc_ids G" using ids(2) by blast
    with u show "u \<in> set (vertex_names (vg G))"
      using wf_graphD(6) [OF wf_vgraphD(1) [OF wfG(1)] arc_at_mem] by simp
  qed
  text \<open>locking and writing the plan\<close>
  let ?xs = "map (wt G) ?its"
  obtain ys f where lock: "lock_pure ?xs (free_ios s) = (ys, f)" by (meson surj_pair)
  have names: "map io_name ?xs = map (name_of G0) ?its"
  proof -
    have "name_of G i = name_of G0 i" if "i \<in> set ?its" for i
      by (rule shape_of_names [OF G(2) subsetD [OF ids(1) that]])
    then show ?thesis by (simp add: wt_name)
  qed
  have len: "length ys = length ?its" "map io_name ys = map (name_of G) ?its"
  proof -
    have "map io_name ys = map io_name ?xs" if "lock_pure xs free = (ys, f)" "xs = ?xs" for xs free
      using that(1) unfolding that(2) [symmetric]
      by (induction xs arbitrary: free ys f) (fastforce simp: Let_def split: prod.splits if_splits)+
    then have "map io_name ys = map io_name ?xs" using lock by blast
    then show "map io_name ys = map (name_of G) ?its" by (simp add: wt_name)
    then show "length ys = length ?its" by (metis length_map)
  qed
  have "\<exists>H. map_ios_to_vgraph ys G = Inr H \<and> shape_of H = shape_of G \<and> vertices (vg H) = vertices (vg G) \<and>
    nodes_exec_order H = nodes_exec_order G \<and> map (wt H) ?its = ys \<and> (\<forall>j \<in> arc_ids G - set ?its. wt H j = wt G j)"
  proof (rule map_ios_eq [OF _ len(2) wfG])
    show "distinct ?its" by (rule wf_graphD(7) [OF wf_vgraphD(1) [OF wf(1)]])
    show "\<exists>a. (i, a) \<in> set (arcs (vg G)) \<and> arc_bottom a \<in> reached G" if "i \<in> set ?its" for i
    proof (intro exI conjI)
      show "(i, arc_at G i) \<in> set (arcs (vg G))" using arc_at_mem that ids(2) by blast
      show "arc_bottom (arc_at G i) \<in> reached G"
        using that outs_at_iff [OF wf(1)] shape_of_bot_top(1) [OF G(2) wf(1)] v(4) its(5) by simp
    qed
  qed
  then obtain H where H: "map_ios_to_vgraph ys G = Inr H" "shape_of H = shape_of G" "vertices (vg H) = vertices (vg G)"
    "nodes_exec_order H = nodes_exec_order G" "map (wt H) ?its = ys" "\<forall>j \<in> arc_ids G - set ?its. wt H j = wt G j" by blast
  have sh: "shape_of H = shape_of G0" using H(2) G(2) by simp
  have wfH: "wf_vgraph H" "has_ins H" using wf shape_of_wf [OF sh] shape_of_ins [OF sh] by simp_all
  have vH: "v \<in> set (vertex_names (vg H))" using v(5) shape_of_its(3) [OF sh] by simp
  have same: "wt H i = wt G i" if "i \<in> plan.made G0 L" for i
  proof -
    have "i \<in> arc_ids G" "i \<notin> set ?its"
      using that made_iff [OF wf(1)] outs_at_iff [OF wf(1)] v(3) shape_of_ids [OF G(2)] by auto
    then show ?thesis using H(6) by simp
  qed
  note pl = plan.plan_lock [OF wf(1) G(5) v(3) tops names lock same H(5)]
  let ?s2 = "sched_free_list (out_names G0 v) (exe_push (node_copy n) s)"
  let ?s3 = "?s2\<lparr>free_ios := f, lock_ios := lock_ios s @ ys, graph_p := Some H\<rparr>"
  have made: "\<exists>i \<in> plan.made G0 (L @ [v]). x = wt H i" if "x \<in> set ((lock_ios s @ ys) @ f)" for x
  proof -
    have "x \<in> wt H ` (plan.made G0 L \<union> set ?its)"
      using that pl(2,3) arg_cong [OF H(5), of set] by (auto simp: plan.live_def)
    then show ?thesis by (auto simp: plan.made_def)
  qed
  have res: "resolvable H x" if "x \<in> set ((lock_ios s @ ys) @ f)" for x
  proof -
    from made [OF that] obtain i where i: "i \<in> plan.made G0 (L @ [v])" "x = wt H i" by blast
    have "set (L @ [v]) \<subseteq> reached G0" using inv(2) v(4) by simp
    then show ?thesis unfolding i(2) using planned_resolvable [OF wf(1) sh _ i(1)] pl(5) by blast
  qed
  text \<open>releasing the inputs\<close>
  let ?ins = "map (wt H) (in_its (vg H) v)"
  have inn: "io_name ` set ?ins = name_of G0 ` {i \<in> arc_ids G0. top_of G0 i = v}"
  proof -
    have "set (in_its (vg H) v) = {i \<in> arc_ids G0. top_of G0 i = v}"
      using ins_at_iff [OF wf(1)] shape_of_its(2) [OF sh] by auto
    moreover have "io_name (wt H i) = name_of G0 i" if "i \<in> arc_ids G0" for i
      using shape_of_names [OF sh that] by (simp add: wt_name)
    ultimately show ?thesis by (simp add: image_image)
  qed
  have rel: "\<exists>t. (if op_name n \<noteq> ''Output'' then free_block ?ins ?s3 else Inr ?s3) = Inr t \<and>
    graph_p t = Some H \<and> fix_io_res t = [] \<and> exec_que t = exec_que s @ [node_copy n] \<and>
    rw_resources t = tag_free_list (out_names G0 v) (rw_resources s) \<and>
    plan.plan_ok G0 (sinks G0) (wt H) (lock_ios t) (free_ios t) (L @ [v])"
  proof (cases "op_name n = ''Output''")
    case True
    then have k: "v \<in> sinks G0" using v(2) by (simp add: sinks_def)
    have "plan.plan_ok G0 (sinks G0) (wt H) (lock_ios s @ ys) f (L @ [v])"
      by (rule plan.plan_release [OF wf(1) G(5) v(3) tops names lock same H(5)]) (use k in auto)
    then show ?thesis using True fx by (intro exI [of _ ?s3]) (simp add: sched_free_list_def exe_push_def)
  next
    case False
    then have k: "v \<notin> sinks G0" using v(2) by (simp add: sinks_def)
    have "\<exists>g. free_block ?ins ?s3 = Inr (?s3\<lparr>free_ios := g,
        lock_ios := filter (\<lambda>x. io_name x \<notin> io_name ` set ?ins) (lock_ios ?s3)\<rparr>) \<and>
      mset g = mset (free_ios ?s3) + filter_mset (\<lambda>x. io_name x \<in> io_name ` set ?ins) (mset (lock_ios ?s3))"
      by (rule free_block_eq [OF wfH]) (use fx res pl(1) in \<open>simp_all add: sched_free_list_def exe_push_def\<close>)
    then obtain g where g: "free_block ?ins ?s3 = Inr (?s3\<lparr>free_ios := g,
        lock_ios := filter (\<lambda>x. io_name x \<notin> io_name ` set ?ins) (lock_ios s @ ys)\<rparr>)"
      "mset g = mset f + filter_mset (\<lambda>x. io_name x \<in> io_name ` set ?ins) (mset (lock_ios s @ ys))"
      by auto
    let ?lk = "filter (\<lambda>x. io_name x \<notin> io_name ` set ?ins) (lock_ios s @ ys)"
    have "mset (?lk @ g) = mset f + (filter_mset (\<lambda>x. io_name x \<in> io_name ` set ?ins) (mset (lock_ios s @ ys)) +
        filter_mset (\<lambda>x. io_name x \<notin> io_name ` set ?ins) (mset (lock_ios s @ ys)))"
      unfolding mset_append [of ?lk] mset_filter g(2) by (simp only: add_ac)
    also have "\<dots> = mset f + mset (lock_ios s @ ys)" by (simp only: multiset_partition [symmetric])
    also have "\<dots> = mset (lock_ios s @ ys @ f)" by (simp add: add_ac)
    finally have ms: "mset (?lk @ g) = mset (lock_ios s @ ys @ f)" .
    have dead: "io_name x \<in> io_name ` set ?ins \<longleftrightarrow> x \<in> wt H ` {i \<in> plan.made G0 L. top_of G0 i = v}"
      if "x \<in> set (lock_ios s @ ys)" for x
    proof -
      have "x \<in> set ((lock_ios s @ ys) @ f)" using that by auto
      from made [OF this] obtain i where i: "i \<in> plan.made G0 (L @ [v])" "x = wt H i" by blast
      then have id: "i \<in> arc_ids G0" and nm: "io_name x = name_of G0 i" using made_iff [OF wf(1)] pl(4) by blast+
      show ?thesis
      proof
        assume "io_name x \<in> io_name ` set ?ins"
        then obtain j where "j \<in> arc_ids G0" "top_of G0 j = v" "name_of G0 i = name_of G0 j" unfolding inn nm by blast
        then have "top_of G0 i = v" using name_of_inj [OF wf(1) id] by metis
        moreover have "i \<in> plan.made G0 L"
        proof -
          have "i \<notin> set ?its" using tops [of i] \<open>top_of G0 i = v\<close> by auto
          then show ?thesis using i(1) by (auto simp: plan.made_def)
        qed
        ultimately show "x \<in> wt H ` {i \<in> plan.made G0 L. top_of G0 i = v}" using i(2) by blast
      next
        assume "x \<in> wt H ` {i \<in> plan.made G0 L. top_of G0 i = v}"
        then obtain j where j: "j \<in> plan.made G0 L" "top_of G0 j = v" "x = wt H j" by blast
        then have "j \<in> arc_ids G0" "io_name x = name_of G0 j" using made_iff [OF wf(1)] pl(4) [of j] by auto
        then show "io_name x \<in> io_name ` set ?ins" unfolding inn using j(2) by blast
      qed
    qed
    have "plan.plan_ok G0 (sinks G0) (wt H) ?lk g (L @ [v])"
    proof (rule plan.plan_release [OF wf(1) G(5) v(3) tops names lock same H(5) ms])
      show "set ?lk = (if v \<in> sinks G0 then set (lock_ios s @ ys)
          else {x \<in> set (lock_ios s @ ys). x \<notin> wt H ` {i \<in> plan.made G0 L. top_of G0 i = v}})"
        unfolding set_filter using k dead by (simp only: if_False) blast
    qed
    then show ?thesis using False fx g(1) by (simp add: sched_free_list_def exe_push_def)
  qed
  then obtain t where t: "(if op_name n \<noteq> ''Output'' then free_block ?ins ?s3 else Inr ?s3) = Inr t"
    "graph_p t = Some H" "fix_io_res t = []" "exec_que t = exec_que s @ [node_copy n]"
    "rw_resources t = tag_free_list (out_names G0 v) (rw_resources s)"
    "plan.plan_ok G0 (sinks G0) (wt H) (lock_ios t) (free_ios t) (L @ [v])" by blast
  have "mem_launch n s = Inr t"
  proof -
    have a: "arcs_of G ?its = Inr (map (arc_at G) ?its)" by (rule arcs_of_eq [OF ids(2)])
    have o: "ops_at G (map (top_of G) ?its) = Inr (map (node_of G) (map (top_of G) ?its))"
      by (rule ops_at_eq [OF wfG(1) tops_in])
    have nn: "map (io_name \<circ> weight) (map (arc_at G) ?its) = out_names G0 v"
      using names by (simp add: out_names_def)
    have ns: "\<not> need_self_shared n" using plain [OF vG] v(2) nodes by (simp add: need_self_shared_def)
    have un: "map2 unshare_conv ys (map (node_of G) (map (top_of G) ?its)) = ys"
      by (rule unshare_conv_id) (use len(1) plain tops_in in auto)
    have lk: "lock_block ?xs ?s2 = (ys, ?s2\<lparr>free_ios := f, lock_ios := lock_ios s @ ys\<rparr>)"
      using lock by (simp add: lock_block_pure sched_free_list_def exe_push_def)
    have fixs: "set_fix_io ?s2 ?xs = ?xs" using fx by (simp add: set_fix_io_def is_fixed_def sched_free_list_def exe_push_def)
    have iw: "in_weights H v = Inr ?ins" by (rule in_weights_eq [OF wfH(1) vH])
    have nodesH: "node_of H = node_of G" by (rule ext) (simp add: node_of_def H(3))
    have last: "last_op_is_self_shared H n = Inr (False, [])"
      by (rule last_op_plain [OF wfH(1)]) (use vH v(1) plain nodesH shape_of_its(3) [OF H(2)] in simp_all)
    have m: "map_ios ys (?s2\<lparr>free_ios := f, lock_ios := lock_ios s @ ys\<rparr>) = Inr ?s3"
      using H(1) G(1) by (simp add: map_ios_def the_graph_def sched_free_list_def exe_push_def)
    have gs: "the_graph ?s3 = Inr H" "the_graph t = Inr H" using t(2) by (simp_all add: the_graph_def)
    have "launch_plain n ?xs (map (node_of G) (map (top_of G) ?its)) ?s2 = Inr t"
      unfolding launch_plain_def lk prod.case un v(1)
      by (simp only: m bindE_simps gs iw t(1) last prod.case if_False)
    moreover have "the_graph (exe_push (node_copy n) s) = Inr G" using G(1) by (simp add: the_graph_def exe_push_def)
    moreover have "get_out_arc_its (vg G) v = Inr ?its"
      using vG its(1) by (simp add: get_out_arc_its_def has_vertex_iff)
    moreover have "map weight (map (arc_at G) ?its) = ?xs" "map arc_top (map (arc_at G) ?its) = map (top_of G) ?its" by simp_all
    ultimately show ?thesis
      unfolding mem_launch_def Let_def v(1)
      by (simp only: bindE_simps a o nn fixs ns if_False)
  qed
  moreover have "mem_ok G0 t (L @ [v])"
    unfolding mem_ok_def
  proof (intro conjI exI ballI impI)
    show "fix_io_res t = []" "graph_p t = Some H" "shape_of H = shape_of G0" by (rule t sh)+
    show "vertices (vg H) = vertices (vg G0)" "nodes_exec_order H = nodes_exec_order G0" using H G by simp_all
    show "plan.plan_ok G0 (sinks G0) (wt H) (lock_ios t) (free_ios t) (L @ [v])" by (rule t(6))
    fix i
    assume i: "i \<in> arc_ids G0"
    then have iG: "i \<in> arc_ids G" using shape_of_ids [OF G(2)] by simp
    show "wt H i = wt G0 i" if "i \<notin> plan.made G0 (L @ [v])"
    proof -
      have "i \<notin> set ?its" "i \<notin> plan.made G0 L" using that by (auto simp: plan.made_def)
      moreover have "wt G i = wt G0 i" using bspec [OF G(7) i] \<open>i \<notin> plan.made G0 L\<close> by blast
      ultimately show ?thesis using bspec [OF H(6), of i] iG by simp
    qed
    show "share_from (wt H i) = share_from (wt G0 i)" if u: "\<not> shared (wt H i)"
    proof (cases "i \<in> set ?its")
      case True
      have "list_all2 (\<lambda>x y. \<not> shared y \<longrightarrow> share_from y = share_from x) ?xs (map (wt H) ?its)"
        using lock_pure_stale [OF lock] H(5) by simp
      then have "share_from (wt H i) = share_from (wt G i)"
        using True u by (auto simp: list_all2_map1 list_all2_map2 list_all2_same)
      moreover have "bot_of G0 i = v" using True outs_at_iff [OF wf(1), of i v] by simp
      then have "i \<notin> plan.made G0 L" using made_iff [OF wf(1), of i L] v(3) by simp
      then have "wt G i = wt G0 i" using bspec [OF G(7) i] by blast
      ultimately show ?thesis by simp
    next
      case False
      then have "wt H i = wt G i" using bspec [OF H(6), of i] iG by simp
      then show ?thesis using bspec [OF G(6) i] u by simp
    qed
  qed
  ultimately show ?thesis using t(4,5) by blast
qed

end
