(* ===== verification/Connect_Table.thy ===== *)
theory Connect_Table
  imports Arc_Access
begin

text \<open>
  \<open>VGraph::connect_table\<close> computes the reachability relation of the graph: its stack search from
  one vertex visits exactly the vertices that can be reached from the stack, since the vertices
  it has seen have their successors seen or on the stack.
\<close>

section \<open>One search\<close>

lemma closed_reach:
  assumes "E `` F \<subseteq> F \<union> S"
  shows "E\<^sup>* `` F \<subseteq> F \<union> E\<^sup>* `` S"
proof
  fix y
  assume "y \<in> E\<^sup>* `` F"
  then obtain x where "(x, y) \<in> E\<^sup>*" "x \<in> F" by blast
  then show "y \<in> F \<union> E\<^sup>* `` S"
  proof (induction rule: rtrancl_induct)
    case base
    then show ?case by simp
  next
    case (step y z)
    then show ?case using assms by (blast intro: rtrancl_into_rtrancl)
  qed
qed

lemma reach_insert: "E\<^sup>* `` insert x S = insert x (E\<^sup>* `` (E `` {x} \<union> S))"
proof -
  have "E\<^sup>* `` {x} = insert x (E\<^sup>* `` (E `` {x}))"
    by (auto elim: converse_rtranclE intro: converse_rtrancl_into_rtrancl)
  then show ?thesis by blast
qed

lemma arc_tops:
  assumes "wf_vgraph G" "v \<in> set (vertex_names (vg G))"
  shows "\<exists>as. bindE (get_out_arc_its (vg G) v) (\<lambda>its. mapE (deref (vg G)) its) = Inr as \<and>
    set (map arc_top as) = edges (vg G) `` {v}"
proof -
  have sub: "set (outs_at G v) \<subseteq> arc_ids G" using outs_at_iff [OF assms(1)] by blast
  have m: "mapE (deref (vg G)) (outs_at G v) = Inr (map (arc_at G) (outs_at G v))"
    by (rule mapE_total) (use sub deref_at in blast)
  have S: "set (map arc_top (map (arc_at G) (outs_at G v))) = edges (vg G) `` {v}"
  proof
    show "set (map arc_top (map (arc_at G) (outs_at G v))) \<subseteq> edges (vg G) `` {v}"
    proof
      fix t
      assume "t \<in> set (map arc_top (map (arc_at G) (outs_at G v)))"
      then obtain i where i: "i \<in> set (outs_at G v)" "t = top_of G i" by auto
      then have "(i, arc_at G i) \<in> set (arcs (vg G))" "bot_of G i = v" using outs_at_iff [OF assms(1)] arc_at_mem by blast+
      then show "t \<in> edges (vg G) `` {v}" using i(2) by (force simp: edges_def ends_def)
    qed
    show "edges (vg G) `` {v} \<subseteq> set (map arc_top (map (arc_at G) (outs_at G v)))"
    proof
      fix t
      assume "t \<in> edges (vg G) `` {v}"
      then obtain i a where a: "(i, a) \<in> set (arcs (vg G))" "arc_bottom a = v" "arc_top a = t"
        by (auto simp: edges_def ends_def)
      then have "i \<in> set (outs_at G v)" "top_of G i = t"
        using outs_at_iff [OF assms(1)] ends_of_arc [OF assms(1) a(1)] by force+
      then show "t \<in> set (map arc_top (map (arc_at G) (outs_at G v)))" by force
    qed
  qed
  have B: "bindE (get_out_arc_its (vg G) v) (\<lambda>its. mapE (deref (vg G)) its) = Inr (map (arc_at G) (outs_at G v))"
    using m assms(2) by (simp add: get_out_arc_its_def has_vertex_iff)
  show ?thesis by (rule exI, rule conjI, rule B, rule S)
qed

lemma connect_loop_reach:
  assumes "wf_vgraph G"
  shows "set stk \<subseteq> set (vertex_names (vg G)) \<Longrightarrow> edges (vg G) `` set flag \<subseteq> set flag \<union> set stk \<Longrightarrow>
    connect_loop G src stk flag table = Inr (\<lambda>(a, b).
      if a = src \<and> b \<in> (edges (vg G))\<^sup>* `` set stk - set flag then Some 1 else table (a, b))"
  using assms
proof (induction G src stk flag table rule: connect_loop.induct)
  case (1 G src flag table)
  then show ?case by (simp add: fun_eq_iff)
next
  case (2 G src v stk flag table)
  let ?E = "edges (vg G)"
  show ?case
  proof (cases "v \<in> set flag")
    case True
    have "?E `` set flag \<subseteq> set flag \<union> set stk" using 2(4) True by auto
    then have ih: "connect_loop G src stk flag table = Inr (\<lambda>(a, b).
      if a = src \<and> b \<in> ?E\<^sup>* `` set stk - set flag then Some 1 else table (a, b))"
      using 2(1) [OF True] 2(3,5) by simp
    have "?E\<^sup>* `` set flag \<subseteq> set flag \<union> ?E\<^sup>* `` set stk" using closed_reach \<open>?E `` set flag \<subseteq> set flag \<union> set stk\<close> .
    then have "?E\<^sup>* `` set (v # stk) - set flag = ?E\<^sup>* `` set stk - set flag" using True by auto
    then show ?thesis using ih True by simp
  next
    case False
    have v: "v \<in> set (vertex_names (vg G))" using 2(3) by simp
    obtain its as where as: "get_out_arc_its (vg G) v = Inr its" "mapE (deref (vg G)) its = Inr as"
      "set (map arc_top as) = ?E `` {v}"
      using arc_tops [OF 2(5) v] by (auto simp: bindE_Inr_iff)
    have "?E `` {v} \<subseteq> set (vertex_names (vg G))" using edges_names [OF wf_vgraphD(1) [OF 2(5)]] by blast
    then have stk: "set (rev (map arc_top as) @ stk) \<subseteq> set (vertex_names (vg G))" using as(3) 2(3) by auto
    have closed: "?E `` set (flag @ [v]) \<subseteq> set (flag @ [v]) \<union> set (rev (map arc_top as) @ stk)"
      using as(3) 2(4) by auto
    have ih: "connect_loop G src (rev (map arc_top as) @ stk) (flag @ [v]) (table((src, v) \<mapsto> 1)) = Inr (\<lambda>(a, b).
      if a = src \<and> b \<in> ?E\<^sup>* `` set (rev (map arc_top as) @ stk) - set (flag @ [v]) then Some 1 else (table((src, v) \<mapsto> 1)) (a, b))"
      by (rule 2(2) [OF False as(1,2) stk closed 2(5)])
    have "set (rev (map arc_top as) @ stk) = ?E `` {v} \<union> set stk" using as(3) by auto
    then have "?E\<^sup>* `` set (v # stk) = insert v (?E\<^sup>* `` set (rev (map arc_top as) @ stk))"
      using reach_insert [of ?E v "set stk"] by simp
    then have "(\<lambda>(a, b). if a = src \<and> b \<in> ?E\<^sup>* `` set (v # stk) - set flag then Some 1 else table (a, b)) =
      (\<lambda>(a, b). if a = src \<and> b \<in> ?E\<^sup>* `` set (rev (map arc_top as) @ stk) - set (flag @ [v]) then Some 1
        else (table((src, v) \<mapsto> 1)) (a, b))"
      using False by (auto simp: fun_eq_iff)
    then show ?thesis using ih False as(1,2) by simp
  qed
qed

section \<open>The table\<close>

lemma zero_table:
  "fold (\<lambda>n0. fold (\<lambda>n1 t. t((n0, n1) \<mapsto> 0)) ns) ms t (a, b) = (if a \<in> set ms \<and> b \<in> set ns then Some 0 else t (a, b))"
proof -
  have row: "fold (\<lambda>n1 t. t((n0, n1) \<mapsto> 0)) ns t (a, b) = (if a = n0 \<and> b \<in> set ns then Some 0 else t (a, b))" for n0 t
    by (induction ns arbitrary: t) auto
  show ?thesis by (induction ms arbitrary: t) (auto simp: row)
qed

lemma connect_table_spec:
  assumes "wf_vgraph G"
  shows "\<exists>t. connect_table G = Inr t \<and> (\<forall>u \<in> set (vertex_names (vg G)). \<forall>v \<in> set (vertex_names (vg G)).
    t (u, v) = Some (if (u, v) \<in> (edges (vg G))\<^sup>* then 1 else 0))"
proof -
  let ?E = "edges (vg G)" and ?V = "set (vertex_names (vg G))"
  let ?f = "\<lambda>n t. bindE (get_out_arc_its (vg G) n) (\<lambda>its.
           bindE (mapE (deref (vg G)) its) (\<lambda>as.
           connect_loop G n (rev (map arc_top as)) [] (t((n, n) \<mapsto> 1))))"
  have row: "?f n t = Inr (\<lambda>(a, b). if a = n \<and> (n, b) \<in> ?E\<^sup>* then Some 1 else t (a, b))" if n: "n \<in> ?V" for n t
  proof -
    obtain its as where as: "get_out_arc_its (vg G) n = Inr its" "mapE (deref (vg G)) its = Inr as"
      "set (map arc_top as) = ?E `` {n}"
      using arc_tops [OF assms n] by (auto simp: bindE_Inr_iff)
    have "?E `` {n} \<subseteq> ?V" using edges_names [OF wf_vgraphD(1) [OF assms]] by blast
    then have l: "connect_loop G n (rev (map arc_top as)) [] (t((n, n) \<mapsto> 1)) = Inr (\<lambda>(a, b).
        if a = n \<and> b \<in> ?E\<^sup>* `` (?E `` {n}) then Some 1 else (t((n, n) \<mapsto> 1)) (a, b))"
      using connect_loop_reach [OF assms, of "rev (map arc_top as)" "[]" n] as(3) by auto
    have "b \<in> ?E\<^sup>* `` (?E `` {n}) \<or> b = n \<longleftrightarrow> (n, b) \<in> ?E\<^sup>*" for b
      using reach_insert [of ?E n "{}"] by auto
    then show ?thesis using as(1,2) l by (auto simp: fun_eq_iff)
  qed
  have "\<exists>t. foldE ?f ns t0 = Inr t \<and> (\<forall>a b. t (a, b) = (if a \<in> set ns \<and> (a, b) \<in> ?E\<^sup>* then Some 1 else t0 (a, b)))"
    if "set ns \<subseteq> ?V" for ns t0
    using that
  proof (induction ns arbitrary: t0)
    case (Cons n ns)
    let ?t1 = "\<lambda>(a, b). if a = n \<and> (n, b) \<in> ?E\<^sup>* then Some 1 else t0 (a, b)"
    have n: "n \<in> ?V" "set ns \<subseteq> ?V" using Cons.prems by simp_all
    obtain t where t: "foldE ?f ns ?t1 = Inr t"
      "\<forall>a b. t (a, b) = (if a \<in> set ns \<and> (a, b) \<in> ?E\<^sup>* then Some 1 else ?t1 (a, b))"
      using Cons.IH [OF n(2), of ?t1] by blast
    have "foldE ?f (n # ns) t0 = Inr t" using t(1) by (simp only: foldE.simps row [OF n(1)] bindE_simps)
    moreover have "t (a, b) = (if a \<in> set (n # ns) \<and> (a, b) \<in> ?E\<^sup>* then Some 1 else t0 (a, b))" for a b
      using t(2) by auto
    ultimately show ?case by blast
  qed simp
  then obtain t where "foldE ?f (vertex_names (vg G)) (fold (\<lambda>n0. fold (\<lambda>n1 t. t((n0, n1) \<mapsto> 0)) (vertex_names (vg G)))
      (vertex_names (vg G)) Map.empty) = Inr t"
    "\<forall>a b. t (a, b) = (if a \<in> ?V \<and> (a, b) \<in> ?E\<^sup>* then Some 1 else
      fold (\<lambda>n0. fold (\<lambda>n1 t. t((n0, n1) \<mapsto> 0)) (vertex_names (vg G))) (vertex_names (vg G)) Map.empty (a, b))"
    by blast
  then show ?thesis by (intro exI [of _ t]) (simp add: connect_table_def Let_def zero_table)
qed

end
