(* ===== verification/Memory_Run.thy ===== *)
theory Memory_Run
  imports Memory_Launch Connect_Table
begin

text \<open>
  The run of the memory scheduler: in a topological order one walk launches every operator, and
  the check of the order that follows finds nothing to correct.
\<close>

section \<open>One walk over the queue\<close>

lemma topo_prefix:
  assumes "topo E (L @ v # vs)" "(u, v) \<in> E"
  shows "u \<in> set L"
proof -
  have "(u, (L @ v # vs) ! length L) \<in> E" using assms(2) by simp
  then have "u \<in> set (take (length L) (L @ v # vs))"
    using assms(1) unfolding topo_def by (metis length_append length_Cons less_add_Suc1 add_Suc_right)
  then show ?thesis by simp
qed

lemma topo_no_back:
  assumes "topo E (L @ v # vs)" "(v, w) \<in> E"
  shows "w \<notin> insert v (set L)"
proof
  assume "w \<in> insert v (set L)"
  then have "w \<in> set (L @ [v])" by simp
  then obtain j where j: "j < length (L @ [v])" "(L @ [v]) ! j = w" by (metis in_set_conv_nth)
  then have j': "j \<le> length L" "j < length (L @ v # vs)" "(L @ v # vs) ! j = w"
    using nth_append [of "L @ [v]" vs j] by simp_all
  then have "v \<in> set (take j (L @ v # vs))" using assms unfolding topo_def by blast
  then have "v \<in> set L" using j'(1) by (auto dest: in_set_takeD)
  then show False using topo_distinct [OF assms(1)] by simp
qed

definition tags_ready :: "vgraph \<Rightarrow> string tag \<Rightarrow> string list \<Rightarrow> bool" where
  "tags_ready G t L \<longleftrightarrow> (\<forall>v \<in> set L. set (out_names G v) \<subseteq> tag_granted t) \<and> (\<forall>v \<in> reached G. set (out_names G v) \<subseteq> dom t)"

lemma mem_ok_wait [simp]: "mem_ok G (s\<lparr>wait_que := q\<rparr>) L = mem_ok G s L"
  by (simp add: mem_ok_def)

lemma mem_pass:
  assumes wf: "wf_vgraph G0" "has_ins G0" "plain_graph G0"
  shows "topo (edges (vg G0)) (L @ map node_name ops) \<Longrightarrow>
    set (L @ map node_name ops) \<subseteq> reached G0 \<inter> set (vertex_names (vg G0)) \<Longrightarrow>
    (\<And>n. n \<in> set ops \<Longrightarrow> op_name n = op_name (node_of G0 (node_name n))) \<Longrightarrow>
    mem_ok G0 s L \<Longrightarrow> tags_ready G0 (rw_resources s) L \<Longrightarrow>
    \<exists>t. launch_pass callable mem_launch [] ops s = Inr t \<and> wait_que t = [] \<and> mem_ok G0 t (L @ map node_name ops) \<and>
      map node_name (exec_que t) = map node_name (exec_que s) @ map node_name ops"
proof (induction ops arbitrary: L s)
  case Nil
  then show ?case by simp
next
  case (Cons n ops)
  let ?v = "node_name n"
  have topo: "topo (edges (vg G0)) (L @ ?v # map node_name ops)" using Cons.prems(1) by simp
  have v: "?v \<in> reached G0" "?v \<in> set (vertex_names (vg G0))" "?v \<notin> set L" "set L \<subseteq> reached G0"
    using Cons.prems(2) topo_distinct [OF topo] by auto
  have tops: "top_of G0 i \<notin> insert ?v (set L)" if "i \<in> set (outs_at G0 ?v)" for i
  proof -
    have "(i, arc_at G0 i) \<in> set (arcs (vg G0))" "bot_of G0 i = ?v"
      using that outs_at_iff [OF wf(1)] arc_at_mem by blast+
    then have "(?v, top_of G0 i) \<in> edges (vg G0)" by (force simp: edges_def ends_def)
    then show ?thesis by (rule topo_no_back [OF topo])
  qed
  obtain t where t: "mem_launch n s = Inr t" "mem_ok G0 t (L @ [?v])" "exec_que t = exec_que s @ [node_copy n]"
    "rw_resources t = tag_free_list (out_names G0 ?v) (rw_resources s)"
    using mem_launch_ok [OF wf Cons.prems(4) v(4) refl _ v(3) v(1,2) tops] Cons.prems(3) by auto
  have ins: "set (in_names G0 ?v) \<subseteq> tag_granted (rw_resources s)"
  proof
    fix r
    assume "r \<in> set (in_names G0 ?v)"
    then obtain i a where a: "(i, a) \<in> set (arcs (vg G0))" "arc_top a = ?v" "io_name (weight a) = r"
      using in_names_iff [OF wf(1)] by blast
    then have "(arc_bottom a, ?v) \<in> edges (vg G0)" by (force simp: edges_def ends_def)
    then have "arc_bottom a \<in> set L" by (rule topo_prefix [OF topo])
    moreover have "r \<in> set (out_names G0 (arc_bottom a))" using out_names_iff [OF wf(1)] a by blast
    ultimately show "r \<in> tag_granted (rw_resources s)" using Cons.prems(5) by (auto simp: tags_ready_def)
  qed
  obtain G where G: "graph_p s = Some G" "shape_of G = shape_of G0" using Cons.prems(4) by (auto simp: mem_ok_def)
  have wfG: "wf_vgraph G" "?v \<in> set (vertex_names (vg G))"
    using shape_of_wf [OF G(2)] shape_of_its(3) [OF G(2)] wf(1) v(2) by simp_all
  have call: "callable n s = Inr (True, s)"
    using callable_eq [OF wfG(1) G(1) wfG(2)] ins shape_of_in_out_names(1) [OF G(2) wf(1)]
    by (simp add: tag_check_list_iff)
  let ?t = "t\<lparr>wait_que := ops\<rparr>"
  have "set (out_names G0 ?v) \<subseteq> dom (rw_resources s)" using Cons.prems(5) v(1) by (auto simp: tags_ready_def)
  then have "tags_ready G0 (rw_resources ?t) (L @ [?v])"
    using Cons.prems(5) t(4) by (auto simp: tags_ready_def tag_free_list_granted tag_free_list_known)
  moreover have "mem_ok G0 ?t (L @ [?v])" using t(2) by simp
  moreover have "topo (edges (vg G0)) ((L @ [?v]) @ map node_name ops)"
    "set ((L @ [?v]) @ map node_name ops) \<subseteq> reached G0 \<inter> set (vertex_names (vg G0))"
    using topo Cons.prems(2) by simp_all
  moreover have "\<And>n. n \<in> set ops \<Longrightarrow> op_name n = op_name (node_of G0 (node_name n))" using Cons.prems(3) by simp
  ultimately obtain u where u: "launch_pass callable mem_launch [] ops ?t = Inr u" "wait_que u = []"
    "mem_ok G0 u ((L @ [?v]) @ map node_name ops)" "map node_name (exec_que u) = map node_name (exec_que ?t) @ map node_name ops"
    using Cons.IH [of "L @ [?v]" ?t] by blast
  have "launch_pass callable mem_launch [] (n # ops) s = Inr u" using call t(1) u(1) by simp
  moreover have "node_name (node_copy n) = ?v" by (cases n) simp
  ultimately show ?case using u(2-4) t(3) by (intro exI [of _ u]) simp
qed

section \<open>The check of the order\<close>

lemma set_weights_skel:
  assumes "foldE (\<lambda>i (st, H). bindE (deref (vg H) i) (\<lambda>a. bindE (vertex_at (vg H) (arc_top a)) (\<lambda>n.
       Inr (if need_self_shared n then arc_top a # st else st, set_weight i (\<lambda>w. w\<lparr>share_from := r\<rparr>) H)))) its (stk, G) = Inr (stk', G')"
  shows "skel (vg G') = skel (vg G)"
  using assms
  by (induction its arbitrary: stk G) auto

lemma follow_skel: "follow k r stk G = Inr H \<Longrightarrow> skel (vg H) = skel (vg G)"
  by (induction k r stk G rule: follow.induct) (fastforce dest: set_weights_skel)+

lemma correct_order_skel: "correct_order k j out G = Inr H \<Longrightarrow> skel (vg H) = skel (vg G)"
proof -
  assume a: "correct_order k j out G = Inr H"
  let ?G1 = "set_weight j (\<lambda>w. w\<lparr>shared := False\<rparr>) G"
  have gather: "skel (vg K') = skel (vg K)"
    if "foldE (\<lambda>i H. bindE (deref (vg H) i) (\<lambda>a.
        Inr (if arc_bottom a \<noteq> arc_bottom out then set_weight i (\<lambda>w. w\<lparr>share_from := io_name (weight out)\<rparr>) H else H))) its K = Inr K'"
    for its K K'
    using that by (induction its arbitrary: K) (auto split: if_splits)
  show ?thesis
    using a unfolding correct_order_def Let_def
    by (auto split: if_splits dest!: follow_skel gather)
qed

lemma check_node_skel: "check_node k table order v us G = Inr H \<Longrightarrow> skel (vg H) = skel (vg G)"
  by (induction us arbitrary: G) (auto split: if_splits dest!: correct_order_skel)

text \<open>Tensors that start without an owner: \<open>share_from\<close> names no arc.\<close>

definition unplanned :: "vgraph \<Rightarrow> bool" where
  "unplanned G \<longleftrightarrow> (\<forall>i \<in> arc_ids G. \<forall>j \<in> arc_ids G. share_from (wt G i) \<noteq> name_of G j)"

lemma precedes_before: "precedes L a b \<Longrightarrow> distinct L \<Longrightarrow> a \<in> set (takeWhile (\<lambda>x. x \<noteq> b) L)"
proof -
  assume "precedes L a b" "distinct L"
  then obtain xs ys where l: "L = xs @ ys" "a \<in> set xs" "b \<in> set ys" by (auto simp: precedes_def)
  then have "b \<notin> set xs" using \<open>distinct L\<close> by auto
  then have "takeWhile (\<lambda>x. x \<noteq> b) L = xs @ takeWhile (\<lambda>x. x \<noteq> b) ys"
    using l(1) by (metis (mono_tags, lifting) takeWhile_append2)
  then show ?thesis using l(2) by simp
qed

lemma precedes_asym: "precedes L a b \<Longrightarrow> precedes L b a \<Longrightarrow> distinct L \<Longrightarrow> False"
  unfolding precedes_def
proof (elim exE conjE)
  fix xs ys us vs
  assume "L = xs @ ys" "a \<in> set xs" "b \<in> set ys" "L = us @ vs" "b \<in> set us" "a \<in> set vs" "distinct L"
  then show False by (auto simp: append_eq_append_conv2)
qed

lemma top_before_eq: "b \<in> set xs \<Longrightarrow> top_before t b xs = Inr (t \<in> set (takeWhile (\<lambda>x. x \<noteq> b) xs))"
  by (induction xs) auto

text \<open>Two tensors that the condition of the check relates have the same owner.\<close>

lemma check_owner:
  assumes "wf_vgraph G0" "shape_of H = shape_of G0" "unplanned G0" "plan.plan_ok G0 K (wt H) lk fr L"
    and "\<And>i. i \<in> arc_ids G0 \<Longrightarrow> \<not> shared (wt H i) \<Longrightarrow> share_from (wt H i) = share_from (wt G0 i)"
    and "i \<in> plan.made G0 L" "j \<in> plan.made G0 L" "shared (wt H j)"
    and "io_name (wt H i) = share_from (wt H j) \<or> share_from (wt H i) = share_from (wt H j)"
  shows "owner (wt H i) = owner (wt H j)"
proof -
  obtain k where k: "k \<in> plan.made G0 L" "name_of G0 k = share_from (wt H j)" "\<not> shared (wt H k)"
    using plan.plan_okD(5) [OF assms(4,7,8)] by blast
  have ids: "i \<in> arc_ids G0" "k \<in> arc_ids G0" using assms(6) k(1) made_iff [OF assms(1)] by blast+
  have nm: "io_name (wt H i) = name_of G0 i" by (rule plan.plan_okD(1) [OF assms(4,6)])
  consider "io_name (wt H i) = share_from (wt H j)" | "share_from (wt H i) = share_from (wt H j)" "shared (wt H i)"
    | "share_from (wt H i) = share_from (wt H j)" "\<not> shared (wt H i)" using assms(9) by blast
  then show ?thesis
  proof cases
    case 1
    then have "i = k" using name_of_inj [OF assms(1) ids] nm k(2) by simp
    then show ?thesis using 1 k(3) assms(8) by simp
  next
    case 2
    then show ?thesis using assms(8) by simp
  next
    case 3
    then have "share_from (wt G0 i) = name_of G0 k" using assms(5) [OF ids(1)] k(2) by simp
    then show ?thesis using assms(3) ids unfolding unplanned_def by blast
  qed
qed

lemma check_node_idle:
  assumes wf: "wf_vgraph G0" "shape_of H = shape_of G0" "unplanned G0" and pl: "plan.plan_ok G0 K (wt H) lk fr L"
    and st: "\<And>i. i \<in> arc_ids G0 \<Longrightarrow> \<not> shared (wt H i) \<Longrightarrow> share_from (wt H i) = share_from (wt G0 i)"
    and L: "topo (edges (vg G0)) L" "set L \<subseteq> set (vertex_names (vg G0))"
    and table: "\<And>u v. u \<in> set L \<Longrightarrow> v \<in> set L \<Longrightarrow> (u, v) \<in> edges (vg G0) \<Longrightarrow> related table u v"
    and v: "v \<in> set us" and us: "L = xs @ us"
  shows "check_node k table L v us H = Inr H"
  using v us
proof (induction us arbitrary: xs)
  case Nil
  then show ?case by simp
next
  case (Cons u us)
  have d: "distinct L" by (rule topo_distinct [OF L(1)])
  show ?case
  proof (cases "u = v \<or> related table u v \<or> related table v u")
    case True
    then show ?thesis using Cons.IH [of "xs @ [u]"] Cons.prems by auto
  next
    case False
    then have uv: "u \<noteq> v" "v \<in> set us" "(u, v) \<notin> edges (vg G0)"
      using Cons.prems table [of u v] by auto
    have ih: "check_node k table L v us H = Inr H" using Cons.IH [of "xs @ [u]"] Cons.prems(2) uv(2) by simp
    have bef: "precedes L u v" unfolding precedes_def
      using Cons.prems(2) uv(2) by (intro exI [of _ "xs @ [u]"] exI [of _ us]) simp
    have mem: "u \<in> set L" "v \<in> set L" using Cons.prems(2) uv(2) by auto
    have wfH: "wf_vgraph H" using shape_of_wf [OF wf(2)] wf(1) by simp
    have names: "u \<in> set (vertex_names (vg H))" "v \<in> set (vertex_names (vg H))"
      using mem L(2) shape_of_its(3) [OF wf(2)] by auto
    have its: "get_in_arc_its (vg H) v = Inr (in_its (vg H) v)" "get_out_arc_its (vg H) u = Inr (outs_at H u)"
      using names by (simp_all add: get_in_arc_its_def get_out_arc_its_def has_vertex_iff)
    show ?thesis
    proof (cases "length (in_its (vg H) v) = 1 \<and> length (outs_at H u) = 1")
      case one: True
      then obtain i j where ij: "in_its (vg H) v = [i]" "outs_at H u = [j]" by (metis One_nat_def length_0_conv length_Suc_conv)
      have i: "i \<in> arc_ids H" "top_of H i = v" using ins_at_iff [OF wfH, of i v] ij by auto
      have j: "j \<in> arc_ids H" "bot_of H j = u" using outs_at_iff [OF wfH, of j u] ij by auto
      have ids: "i \<in> arc_ids G0" "j \<in> arc_ids G0" using i(1) j(1) shape_of_ids [OF wf(2)] by simp_all
      have e: "(bot_of G0 i, v) \<in> edges (vg G0)"
        using arc_at_mem [OF ids(1)] shape_of_bot_top(2) [OF wf(2,1) ids(1)] i(2) by (force simp: edges_def ends_def)
      then have "bot_of G0 i \<in> set L" using topo_pred [OF L(1) e mem(2)] by (metis dual_order.strict_trans nth_mem)
      then have bi: "bot_of H i \<in> set L" using shape_of_bot_top(1) [OF wf(2,1) ids(1)] by simp
      have made: "i \<in> plan.made G0 L" "j \<in> plan.made G0 L"
        using made_iff [OF wf(1)] ids bi j(2) mem(1) shape_of_bot_top(1) [OF wf(2,1)] by auto
      have ok: "\<not> (\<not> top_of H j \<in> set (takeWhile (\<lambda>x. x \<noteq> bot_of H i) L) \<and> shared (wt H j) \<and>
          (io_name (wt H i) = share_from (wt H j) \<or> share_from (wt H i) = share_from (wt H j)))"
      proof
        assume c: "\<not> top_of H j \<in> set (takeWhile (\<lambda>x. x \<noteq> bot_of H i) L) \<and> shared (wt H j) \<and>
          (io_name (wt H i) = share_from (wt H j) \<or> share_from (wt H i) = share_from (wt H j))"
        then have o: "owner (wt H i) = owner (wt H j)" using check_owner [OF wf pl st made] by blast
        have "i \<noteq> j" using e uv(3) j(2) shape_of_bot_top(1) [OF wf(2,1) ids(1)] by auto
        then have "plan.apart G0 L i j" using plan.plan_okD(6) [OF pl made _ o] by blast
        then have "precedes L v u \<or> precedes L (top_of H j) (bot_of H i)"
          unfolding plan.apart_def using shape_of_bot_top [OF wf(2,1)] ids i(2) j(2) by metis
        then show False using precedes_asym [OF bef _ d] precedes_before [OF _ d] c by blast
      qed
      have "deref (vg H) i = Inr (arc_at H i)" "deref (vg H) j = Inr (arc_at H j)" using deref_at i(1) j(1) by blast+
      then show ?thesis using False its ij top_before_eq [OF bi] ok ih by (auto simp del: takeWhile.simps)
    next
      case False
      then show ?thesis using \<open>\<not> (u = v \<or> related table u v \<or> related table v u)\<close> its ih by auto
    qed
  qed
qed

lemma check_memory_idle:
  assumes wf: "wf_vgraph G0" "has_ins G0" "unplanned G0" and ok: "mem_ok G0 s L"
    and L: "topo (edges (vg G0)) L" "set L = reached G0" "nodes_exec_order G0 = L"
  shows "check_memory k s = Inr s"
proof -
  obtain H where H: "graph_p s = Some H" "shape_of H = shape_of G0" "vertices (vg H) = vertices (vg G0)"
    "nodes_exec_order H = nodes_exec_order G0" "plan.plan_ok G0 (sinks G0) (wt H) (lock_ios s) (free_ios s) L"
    "\<forall>i \<in> arc_ids G0. \<not> shared (wt H i) \<longrightarrow> share_from (wt H i) = share_from (wt G0 i)"
    using ok by (auto simp: mem_ok_def)
  have wfH: "wf_vgraph H" "has_ins H" using wf shape_of_wf [OF H(2)] shape_of_ins [OF H(2)] by simp_all
  note w = wf_vgraphD(1,2) [OF wfH(1)]
  obtain t where t: "connect_table H = Inr t" "\<forall>u \<in> set (vertex_names (vg H)). \<forall>v \<in> set (vertex_names (vg H)).
      t (u, v) = Some (if (u, v) \<in> (edges (vg H))\<^sup>* then 1 else 0)" using connect_table_spec [OF wfH(1)] by blast
  obtain ins where ins: "get_graph_ins (vg H) = Inr ins" "ins \<noteq> []" using wfH(2) by (auto simp: has_ins_def)
  have start: "set ins = {b. (\<exists>t. (b, t) \<in> edges (vg H)) \<and> (\<forall>u. (u, b) \<notin> edges (vg H))}"
    by (rule get_graph_ins_spec(1) [OF w ins(1)])
  have rn: "reached H \<subseteq> set (vertex_names (vg H))"
    using reach_names [OF w(1) ins_in_names(1) [OF w ins(1)]] by (simp add: reached_def start)
  have Ln: "set L \<subseteq> set (vertex_names (vg H))" "set L \<subseteq> set (vertex_names (vg G0))"
    using rn L(2) shape_of_its(3,5) [OF H(2)] by simp_all
  let ?f = "\<lambda>v H. bindE (vertex_at (vg H) v) (\<lambda>n. check_node k t L (node_name n) L H)"
  have idle: "?f v H = Inr H" if "v \<in> set L" for v
  proof -
    have v: "v \<in> set (vertex_names (vg H))" using that Ln(1) by blast
    have "node_name (node_copy (node_of H v)) = node_name (node_of H v)" by (cases "node_of H v") simp
    then have nn: "node_name (node_of H v) = v" using node_of_name(1) [OF wfH(1) v] by simp
    have "check_node k t L v L H = Inr H"
    proof (rule check_node_idle [OF wf(1) H(2) wf(3) H(5) _ L(1) Ln(2) _ that])
      show "share_from (wt H i) = share_from (wt G0 i)" if "i \<in> arc_ids G0" "\<not> shared (wt H i)" for i
        using bspec [OF H(6) that(1)] that(2) by blast
      show "related t u v" if "u \<in> set L" "v \<in> set L" "(u, v) \<in> edges (vg G0)" for u v
      proof -
        have "(u, v) \<in> (edges (vg H))\<^sup>*" using that(3) shape_of_its(4) [OF H(2)] by simp
        moreover have "u \<in> set (vertex_names (vg H))" "v \<in> set (vertex_names (vg H))" using that(1,2) Ln(1) by blast+
        ultimately have "t (u, v) = Some 1" using bspec [OF bspec [OF t(2)], of u v] by simp
        then show ?thesis by (simp add: related_def)
      qed
      show "L = [] @ L" by simp
    qed
    then show ?thesis using node_of_name(2) [OF wfH(1) v] nn by simp
  qed
  have "keeps_skel (vg \<circ> (\<lambda>H. H)) (no_status ?f)"
    unfolding keeps_skel_def by (auto simp: no_status_def dest!: check_node_skel)
  from bfs_void_spec [OF this, of H ins "graph_size (vg H)"]
  obtain vs where vs: "set vs = reached H" "scan_nodes (\<lambda>H. H) ?f H = foldE ?f vs H"
    using w ins start by (auto simp: reached_def scan_nodes_def)
  have "foldE ?f us H = Inr H" if "set us \<subseteq> set L" for us
    using that
  proof (induction us)
    case (Cons u us)
    then have "?f u H = Inr H" using idle [of u] by simp
    then show ?case using Cons by simp
  qed simp
  moreover have "set vs \<subseteq> set L" using vs(1) L(2) shape_of_its(5) [OF H(2)] by simp
  ultimately have "scan_nodes (\<lambda>H. H) ?f H = Inr H" using vs(2) by simp
  moreover have "nodes_exec_order H = L" using H(4) L(3) by simp
  ultimately show ?thesis using H(1) t(1) by (simp add: check_memory_def the_graph_def)
qed

section \<open>The run\<close>

lemma push_waits:
  assumes "wf_vgraph G"
  shows "set vs \<subseteq> set (vertex_names (vg G)) \<Longrightarrow>
    foldE (\<lambda>v t. bindE (vertex_at (vg G) v) (\<lambda>n. Inr (wait_push (node_copy n) t))) vs s =
      Inr (s\<lparr>wait_que := wait_que s @ map (\<lambda>v. node_copy (node_of G v)) vs\<rparr>)"
proof (induction vs arbitrary: s)
  case (Cons v vs)
  then show ?case using node_of_name(2) [OF assms, of v] by (simp add: wait_push_def)
qed simp

lemma mem_run_ok:
  fixes s0 :: mem_sched
  assumes wf: "wf_vgraph G" "plain_graph G" "unplanned G"
    and s0: "fresh s0" "fix_io_res s0 = []" "free_ios s0 = []" "lock_ios s0 = []"
    and reg: "reg_io_resource G s0 = Inr s"
    and L: "topo (edges (vg G)) (nodes_exec_order G)" "set (nodes_exec_order G) = reached G"
  shows "\<exists>t. mem_run (Suc k) s = Inr t \<and> mem_ok G t (nodes_exec_order G) \<and>
    map node_name (exec_que t) = nodes_exec_order G"
proof -
  let ?L = "nodes_exec_order G"
  obtain ins where ins: "get_graph_ins (vg G) = Inr ins" using ins_total by blast
  have "ins \<noteq> []"
    using reg ins by (auto simp: reg_io_resource_def scan_edges_def bfs_edge_void_def bfs_edge_def)
  then have hi: "has_ins G" using ins by (simp add: has_ins_def)
  obtain vs "is" t where r: "set vs = reached G" "set vs \<subseteq> set (vertex_names (vg G))"
    "set is = {i. \<exists>a. (i, a) \<in> set (arcs (vg G)) \<and> arc_bottom a \<in> reached G}"
    "s = s0\<lparr>rw_resources := t, wait_que := wait_que s0 @ map (\<lambda>v. node_copy (node_of G v)) vs,
           fix_io_res := fix_io_res s0 @ map fixed_io (registed_outs G), graph_p := Some G\<rparr>"
    "dom t = dom (rw_resources s0) \<union> name_of G ` set is"
    using registered [OF wf(1) reg] by blast
  have Ln: "set ?L \<subseteq> set (vertex_names (vg G))" using r(1,2) L(2) by simp
  let ?ops = "map (\<lambda>v. node_copy (node_of G v)) ?L"
  let ?s1 = "s\<lparr>wait_que := ?ops\<rparr>"
  have push: "foldE (\<lambda>v t. bindE (vertex_at (vg G) v) (\<lambda>n. Inr (wait_push (node_copy n) t))) ?L (s\<lparr>wait_que := []\<rparr>) = Inr ?s1"
    using push_waits [OF wf(1) Ln, of "s\<lparr>wait_que := []\<rparr>"] by simp
  have nn: "map node_name ?ops = ?L" using node_of_name(1) [OF wf(1)] Ln by (auto simp: comp_def intro!: map_idI)
  have ok: "mem_ok G ?s1 []"
    using r(4) s0 wf(2) by (simp add: mem_ok_def plain_graph_def plan.plan_ok_start)
  have "set (out_names G v) \<subseteq> dom t" if "v \<in> reached G" for v
  proof
    fix x
    assume "x \<in> set (out_names G v)"
    then obtain i a where a: "(i, a) \<in> set (arcs (vg G))" "arc_bottom a = v" "io_name (weight a) = x"
      using out_names_iff [OF wf(1)] by blast
    then have "i \<in> set is" "name_of G i = x" using r(3) that name_of_arc [OF wf(1)] by auto
    then show "x \<in> dom t" unfolding r(5) by blast
  qed
  then have tags: "tags_ready G (rw_resources ?s1) []" using r(4) by (simp add: tags_ready_def)
  have "\<exists>t. launch_pass callable mem_launch [] ?ops ?s1 = Inr t \<and> wait_que t = [] \<and> mem_ok G t ([] @ map node_name ?ops) \<and>
      map node_name (exec_que t) = map node_name (exec_que ?s1) @ map node_name ?ops"
  proof (rule mem_pass [OF wf(1) hi wf(2) _ _ _ ok tags])
    show "topo (edges (vg G)) ([] @ map node_name ?ops)" unfolding nn using L(1) by simp
    show "set ([] @ map node_name ?ops) \<subseteq> reached G \<inter> set (vertex_names (vg G))" unfolding nn using L(2) Ln by simp
    fix n
    assume "n \<in> set ?ops"
    then obtain v where v: "n = node_copy (node_of G v)" "v \<in> set ?L" by auto
    then have "node_name n = v" using node_of_name(1) [OF wf(1)] Ln by blast
    then show "op_name n = op_name (node_of G (node_name n))" using v(1) by (cases "node_of G v") simp
  qed
  then obtain u where u: "launch_pass callable mem_launch [] ?ops ?s1 = Inr u" "wait_que u = []" "mem_ok G u ?L"
    "map node_name (exec_que u) = ?L"
    using nn r(4) s0(1) by (auto simp: fresh_def)
  have "spin callable mem_launch k u = Inr u" using u(2) by (cases k) simp_all
  then have "spin callable mem_launch (Suc k) ?s1 = Inr u"
  proof (cases "?ops = []")
    case True
    then have "u = ?s1" using u(1) by simp
    then show ?thesis using True by simp
  next
    case False
    then show ?thesis using u(1) \<open>spin callable mem_launch k u = Inr u\<close> by simp
  qed
  moreover have "check_memory (Suc k) u = Inr u" by (rule check_memory_idle [OF wf(1) hi wf(3) u(3) L refl])
  ultimately have "mem_run (Suc k) s = Inr u" using push r(4) by (simp add: mem_run_def the_graph_def)
  then show ?thesis using u(3,4) by blast
qed

end
