(* ===== verification/ConvEls_Fusion.thy ===== *)
theory ConvEls_Fusion
  imports Dep_Scheduler
begin

text \<open>
  The scheduler that looks for a convolution and an eltwise operator to fuse,
  \<open>framework/graph/llvm/optimizer/conv_elewise_fusion_scheduler.h\<close> and its \<open>.cpp\<close> file. Its
  \<open>callable\<close> holds a convolution back until the other input of the eltwise operator has been
  launched, and records pairs to fuse and an order to force.
\<close>

section \<open>Helper\<close>

record convels_sched = sched +
  replace_pairs :: "(string \<times> string) list"
  need_to_wait :: "string list"
  force_order :: "string \<Rightarrow> node option"

definition helper_ops :: "string list" where
  "helper_ops = [''ConvBatchnormScale'', ''Convolution'']"

definition has_node :: "node \<Rightarrow> bool" where
  "has_node n = list_ex (\<lambda>op. op = op_name n) helper_ops"

definition waits_for :: "string \<Rightarrow> 'm convels_sched_scheme \<Rightarrow> bool" where
  "waits_for v s = (v \<in> set (need_to_wait s))"

definition helper_push_wait :: "string \<Rightarrow> 'm convels_sched_scheme \<Rightarrow> 'm convels_sched_scheme" where
  "helper_push_wait v s = (if \<not> waits_for v s then s\<lparr>need_to_wait := need_to_wait s @ [v]\<rparr> else s)"

text \<open>\<open>release\<close> erases the last entry with the name.\<close>

fun erase_last :: "string \<Rightarrow> string list \<Rightarrow> string list" where
  "erase_last v [] = []"
| "erase_last v (x # xs) = (if v \<in> set xs then x # erase_last v xs else if x = v then xs else x # xs)"

definition helper_release :: "string \<Rightarrow> 'm convels_sched_scheme \<Rightarrow> 'm convels_sched_scheme" where
  "helper_release v s = s\<lparr>need_to_wait := erase_last v (need_to_wait s)\<rparr>"

definition register_pair :: "string \<Rightarrow> string \<Rightarrow> 'm convels_sched_scheme \<Rightarrow> 'm convels_sched_scheme" where
  "register_pair c e s =
     (if (c, e) \<in> set (replace_pairs s) then s else s\<lparr>replace_pairs := replace_pairs s @ [(c, e)]\<rparr>)"

text \<open>\<open>_force_order[v] = n\<close>: the entry is created if it is missing, then assigned.\<close>

definition set_force :: "string \<Rightarrow> node \<Rightarrow> 'm convels_sched_scheme \<Rightarrow> 'm convels_sched_scheme" where
  "set_force v n s = s\<lparr>force_order := (force_order s)(v \<mapsto>
     node_assign (case force_order s v of Some old \<Rightarrow> old | None \<Rightarrow> node_default) n)\<rparr>"

section \<open>Callable\<close>

text \<open>
  The loop over the in-arcs of the eltwise operator. \<open>Inl\<close> inside the result: the function
  returns \<open>false\<close> there; \<open>Inr\<close>: it goes on to the test of the base class.
\<close>

fun hold_loop :: "node \<Rightarrow> node \<Rightarrow> vgraph \<Rightarrow> arc_id list \<Rightarrow> 'm convels_sched_scheme \<Rightarrow>
    (bool \<times> 'm convels_sched_scheme) outcome" where
  "hold_loop n next G [] s = Inr (False, s)"
| "hold_loop n next G (i # is) s =
     bindE (deref (vg G) i) (\<lambda>a.
     if arc_bottom a \<noteq> node_name n then
       (if \<not> waits_for (arc_bottom a) s then
          (let s1 = helper_push_wait (node_name n) s
           in bindE (vertex_at (vg G) (arc_bottom a)) (\<lambda>other.
              if \<not> have_launched node_eq s1 other then
                (if op_name other = ''Split'' \<or> \<not> has_node other then
                   Inr (True, set_force (node_name n) other (register_pair (node_name n) (node_name next) s1))
                 else
                   Inr (True, set_force (arc_bottom a) n (register_pair (arc_bottom a) (node_name next) s1)))
              else Inr (False, helper_release (node_name n) s1)))
        else hold_loop n next G is s)
     else hold_loop n next G is s)"

definition convels_callable :: "node \<Rightarrow> 'm convels_sched_scheme \<Rightarrow> (bool \<times> 'm convels_sched_scheme) outcome" where
  "convels_callable n s =
     bindE (the_graph s) (\<lambda>G.
     bindE (if has_node n then
              bindE (get_out_arc_its (vg G) (node_name n)) (\<lambda>outs.
              bindE (get_in_arc_its (vg G) (node_name n)) (\<lambda>_.
              bindE (check (length outs = 1)) (\<lambda>_.
              bindE (deref (vg G) (hd outs)) (\<lambda>a.
              bindE (vertex_at (vg G) (arc_top a)) (\<lambda>next.
              if op_name next = ''EltwiseRelu'' \<or> op_name next = ''Eltwise'' then
                bindE (get_in_arc_its (vg G) (node_name next)) (\<lambda>ins. hold_loop n next G ins s)
              else Inr (False, s))))))
            else Inr (False, s)) (\<lambda>(held, s1).
     if held then Inr (False, s1)
     else bindE (in_weights G (node_name n)) (\<lambda>io_in.
          Inr (check_access_list s1 (map io_name io_in), s1))))"

section \<open>The forced order\<close>

fun index_in :: "node list \<Rightarrow> node \<Rightarrow> nat" where
  "index_in [] n = 0"
| "index_in (x # xs) n = (if node_eq x n then 0 else Suc (index_in xs n))"

definition push_name :: "string \<Rightarrow> string list \<Rightarrow> string list" where
  "push_name v ret = (if v \<in> set ret then ret else ret @ [v])"

fun order_loop :: "(string \<Rightarrow> node option) \<Rightarrow> node list \<Rightarrow> nat \<Rightarrow> node list \<Rightarrow> string list \<Rightarrow> string list" where
  "order_loop force all i [] ret = ret"
| "order_loop force all i (n # ns) ret =
     (let ret1 = (case force (node_name n) of
                    Some p \<Rightarrow> if index_in all p > i then push_name (node_name p) ret else ret
                  | None \<Rightarrow> ret)
      in order_loop force all (Suc i) ns (push_name (node_name n) ret1))"

definition convels_order :: "'m convels_sched_scheme \<Rightarrow> string list \<times> 'm convels_sched_scheme" where
  "convels_order s = (case get_exec_que s of (ops, s1) \<Rightarrow> (order_loop (force_order s1) ops 0 ops [], s1))"

section \<open>Fusion of the recorded pairs\<close>

definition fuse_conv :: "node \<Rightarrow> node \<Rightarrow> node" where
  "fuse_conv elt conv =
     (let c1 = node_add conv elt;
          c2 = push_merge_name ''merge'' (register_keep (int (length (merge_nodes c1)) - 1) c1);
          c3 = (case merge_nodes elt of [] \<Rightarrow> c2
                | m # _ \<Rightarrow> let d = push_merge_name ''merge_relu_0'' (node_add c2 m)
                          in register_keep (int (length (merge_nodes d)) - 1) d)
      in set_op_name ''ConvEltwise'' c3)"

definition fuse_pair :: "string \<times> string \<Rightarrow> vgraph \<Rightarrow> vgraph outcome" where
  "fuse_pair p G =
     bindE (vertex_at (vg G) (fst p)) (\<lambda>_.
     bindE (vertex_at (vg G) (snd p)) (\<lambda>elt.
     bindE (upd_node (fst p) (fuse_conv elt) G) (\<lambda>G1.
     upd_node (snd p) (\<lambda>e. clear_merge (set_op_name ''Gather'' e)) G1)))"

definition convels_run :: "nat \<Rightarrow> 'm convels_sched_scheme \<Rightarrow> 'm convels_sched_scheme outcome" where
  "convels_run k s =
     bindE (spin convels_callable launch k s) (\<lambda>s1.
     bindE (the_graph s1) (\<lambda>G.
     bindE (foldE fuse_pair (replace_pairs s1) G) (\<lambda>G1.
     case convels_order (s1\<lparr>graph_p := Some G1\<rparr>) of (order, s2) \<Rightarrow>
       Inr (s2\<lparr>graph_p := Some (set_exec_order order G1)\<rparr>))))"

text \<open>The scheduler as its constructor leaves it.\<close>

definition new_convels :: convels_sched where
  "new_convels = \<lparr>exec_que = [], wait_que = [], rw_resources = Map.empty, exec_ops = [],
     graph_p = None, fix_io_res = [], replace_pairs = [], need_to_wait = [], force_order = Map.empty\<rparr>"

end
