(* ===== verification/ConvEls_Properties.thy ===== *)
theory ConvEls_Properties
  imports ConvEls_Fusion Edge_Update Scheduler_Properties
begin

text \<open>The properties of the scheduler for convolution and eltwise fusion: its order and its fused nodes.\<close>

definition with_ops :: "(string \<times> string) list \<Rightarrow> vgraph \<Rightarrow> vgraph" where
  "with_ops ops G = fold (\<lambda>(v, op) H. case upd_node v (set_op_name op) H of Inr K \<Rightarrow> K | Inl _ \<Rightarrow> H) ops G"

definition branch_vgraph :: vgraph where
  "branch_vgraph = with_ops [(''s'', ''Split''), (''z'', ''Split''), (''y'', ''Concat''), (''c1'', ''Convolution''), (''c2'', ''Convolution''), (''e'', ''Eltwise'')]
     (built [''in'', ''s'', ''y'', ''z'', ''c1'', ''c2'', ''e'', ''out'']
       [(''in'', ''s''), (''s'', ''y''), (''s'', ''z''), (''z'', ''y''), (''z'', ''c2''), (''y'', ''c1''),
        (''c1'', ''e''), (''c2'', ''e''), (''e'', ''out'')])"

definition convels_schedule :: "nat \<Rightarrow> vgraph \<Rightarrow> string list outcome" where
  "convels_schedule k G =
     bindE (reg_io_resource G new_convels) (\<lambda>s. bindE (convels_run k s) (\<lambda>t. bindE (the_graph t) (\<lambda>H. Inr (nodes_exec_order H))))"

section \<open>The forced order\<close>

lemma push_name_spec: "distinct ret \<Longrightarrow> distinct (push_name v ret) \<and> set (push_name v ret) = insert v (set ret)"
  by (auto simp: push_name_def)

lemma order_loop_spec:
  "distinct ret \<Longrightarrow> distinct (order_loop f all i ns ret) \<and>
   node_name ` set ns \<union> set ret \<subseteq> set (order_loop f all i ns ret) \<and>
   set (order_loop f all i ns ret) \<subseteq> node_name ` set ns \<union> set ret \<union> {node_name p | v p. f v = Some p}"
proof (induction ns arbitrary: i ret)
  case Nil
  then show ?case by simp
next
  case (Cons n ns)
  let ?r1 = "case f (node_name n) of Some p \<Rightarrow> if index_in all p > i then push_name (node_name p) ret else ret
                  | None \<Rightarrow> ret"
  have r1: "distinct ?r1" "set ret \<subseteq> set ?r1" "set ?r1 \<subseteq> set ret \<union> {node_name p | v p. f v = Some p}"
    using Cons.prems push_name_spec by (auto split: option.splits)
  note r2 = push_name_spec [OF r1(1), of "node_name n"]
  show ?case
    using Cons.IH [of "push_name (node_name n) ?r1" "Suc i"] r1(2,3) r2 by (auto simp: Let_def)
qed

section \<open>Properties\<close>

text \<open>The order that the scheduler for convolution and eltwise fusion reports has every launched operator
  exactly once, when the operators it was told to force were launched too.\<close>

lemma convels_order_permutation:
  assumes "\<forall>v p. force_order s v = Some p \<longrightarrow> node_name p \<in> node_name ` set (exec_ops s @ exec_que s)"
  shows "distinct (fst (convels_order s)) \<and> set (fst (convels_order s)) = node_name ` set (exec_ops s @ exec_que s)"
proof -
  let ?ops = "exec_ops s @ exec_que s"
  have e: "fst (convels_order s) = order_loop (force_order s) ?ops 0 ?ops []"
    by (simp add: convels_order_def get_exec_que_def Let_def)
  have sub: "{node_name p | v p. force_order s v = Some p} \<subseteq> node_name ` set ?ops" using assms by blast
  let ?o = "order_loop (force_order s) ?ops 0 ?ops []"
  have "distinct ?o" "node_name ` set ?ops \<subseteq> set ?o"
    "set ?o \<subseteq> node_name ` set ?ops \<union> {node_name p | v p. force_order s v = Some p}"
    using order_loop_spec [of "[]" "force_order s" ?ops 0 ?ops] by simp_all
  then show ?thesis using sub unfolding e by blast
qed

lemma convels_order_permutation_witness:
  "set (fst (convels_order (new_convels\<lparr>exec_que := [plain_node ''n'', plain_node ''c''],
     force_order := [''n'' \<mapsto> plain_node ''c'']\<rparr>))) = {''n'', ''c''}"
  using convels_order_permutation [of "new_convels\<lparr>exec_que := [plain_node ''n'', plain_node ''c''],
     force_order := [''n'' \<mapsto> plain_node ''c'']\<rparr>"]
  by (auto simp: new_convels_def plain_node_def split: if_splits)

text \<open>The forced order can break dependencies. On this graph, where the dependency scheduler finds an
  order, a convolution \<open>c1\<close> is held back for \<open>c2\<close> and launched after its producer \<open>y\<close>; the order that
  \<open>ConvElsFusionScheduler::get_exec_node_in_order\<close> reports moves it in front of \<open>c2\<close> and so before \<open>y\<close>.\<close>

lemma convels_order_breaks_dependency:
  "schedule_of branch_vgraph = Inr [''in'', ''s'', ''z'', ''c2'', ''y'', ''c1'', ''e'', ''out''] \<and>
   convels_schedule 5 branch_vgraph = Inr [''in'', ''s'', ''z'', ''c1'', ''c2'', ''y'', ''e'', ''out''] \<and>
   has_arc (vg branch_vgraph) ''y'' ''c1''"
proof (intro conjI)
  show "schedule_of branch_vgraph = Inr [''in'', ''s'', ''z'', ''c2'', ''y'', ''c1'', ''e'', ''out'']" by code_simp
  show "convels_schedule 5 branch_vgraph = Inr [''in'', ''s'', ''z'', ''c1'', ''c2'', ''y'', ''e'', ''out'']" by code_simp
  show "has_arc (vg branch_vgraph) ''y'' ''c1''" by code_simp
qed

text \<open>Fusing a recorded pair turns the convolution into a \<open>ConvEltwise\<close> node whose merge list is extended
  by the eltwise node and its first merged node (the activation), with one merge name and one kept index,
  the position of the new entry, for each; the eltwise node becomes a \<open>Gather\<close> without merge list.\<close>

lemma fuse_pair_result:
  assumes "wf_vgraph G" "c \<in> set (vertex_names (vg G))" "e \<in> set (vertex_names (vg G))" "c \<noteq> e"
  shows "\<exists>H. fuse_pair (c, e) G = Inr H \<and> edges (vg H) = edges (vg G) \<and>
    (let conv = node_of G c; elt = node_of G e; k = int (length (merge_nodes conv)); acts = take 1 (merge_nodes elt) in
       op_name (node_of H c) = ''ConvEltwise'' \<and>
       merge_nodes (node_of H c) = merge_nodes conv @ node_copy elt # map node_copy acts \<and>
       merge_node_names (node_of H c) = merge_node_names conv @ ''merge'' # map (\<lambda>_. ''merge_relu_0'') acts \<and>
       idx_keep (node_of H c) = idx_keep conv @ k # map (\<lambda>_. k + 1) acts \<and>
       op_name (node_of H e) = ''Gather'' \<and> merge_nodes (node_of H e) = [])"
proof -
  let ?f = "fuse_conv (node_of G e)" and ?g = "\<lambda>e. clear_merge (set_op_name ''Gather'' e)"
  have nm: "node_name (?f n) = node_name n" "node_name (?g n) = node_name n" for n
    by (cases n; simp add: fuse_conv_def Let_def split: list.splits)+
  obtain G1 where G1: "upd_node c ?f G = Inr G1" "shape_of G1 = shape_of G"
    "\<forall>u. node_of G1 u = (if u = c then ?f (node_of G c) else node_of G u)"
    using upd_node_eq [OF assms(1,2) nm(1)] by auto
  have w1: "wf_vgraph G1" "e \<in> set (vertex_names (vg G1))"
    using shape_of_wf [OF G1(2)] shape_of_its(3) [OF G1(2)] assms(1,3) by simp_all
  obtain H where H: "upd_node e ?g G1 = Inr H" "shape_of H = shape_of G1"
    "\<forall>u. node_of H u = (if u = e then ?g (node_of G1 e) else node_of G1 u)"
    using upd_node_eq [OF w1 nm(2)] by auto
  have "fuse_pair (c, e) G = Inr H"
    using node_of_name(2) [OF assms(1,2)] node_of_name(2) [OF assms(1,3)] G1(1) H(1) by (simp add: fuse_pair_def)
  moreover have "edges (vg H) = edges (vg G)" using shape_of_its(4) [OF H(2)] shape_of_its(4) [OF G1(2)] by simp
  moreover have "node_of H c = ?f (node_of G c)" "node_of H e = ?g (node_of G e)" using H(3) G1(3) assms(4) by simp_all
  ultimately show ?thesis
    by (cases "node_of G c"; cases "node_of G e")
      (auto simp: Let_def fuse_conv_def split: list.splits)
qed

lemma fuse_pair_result_witness:
  "\<exists>H. fuse_pair (''b'', ''d'') demo_vgraph = Inr H \<and> op_name (node_of H ''b'') = ''ConvEltwise''"
proof -
  have "vertex_names (vg demo_vgraph) = [''a'', ''b'', ''c'', ''d'']" by code_simp
  then show ?thesis using fuse_pair_result [OF demo_vgraph_wf, of "''b''" "''d''"] by (auto simp: Let_def)
qed

end
