(* ===== verification/Memory_Properties.thy ===== *)
theory Memory_Properties
  imports Memory_Run ConvEls_Properties
begin

text \<open>The properties of the memory scheduler and of the reachability table it uses.\<close>

definition ordered :: "string list \<Rightarrow> vgraph \<Rightarrow> vgraph" where
  "ordered vs G = set_exec_order vs G"

text \<open>The tensors after a run: name and the tensor whose memory it uses.\<close>

definition owners_after :: "nat \<Rightarrow> vgraph \<Rightarrow> (string \<times> string) list outcome" where
  "owners_after k G =
     bindE (reg_io_resource G new_mem) (\<lambda>s. bindE (mem_run k s) (\<lambda>t. bindE (the_graph t) (\<lambda>H.
     Inr (map (\<lambda>(i, a). (io_name (weight a), owner (weight a))) (arcs (vg H))))))"

definition chain_vgraph :: vgraph where
  "chain_vgraph = ordered [''a'', ''b'', ''c'', ''d''] (built [''a'', ''b'', ''c'', ''d''] [(''a'', ''b''), (''b'', ''c''), (''c'', ''d'')])"

definition split_vgraph :: vgraph where
  "split_vgraph = ordered [''a'', ''s'', ''c'', ''d''] (with_ops [(''s'', ''Split'')]
     (built [''a'', ''s'', ''c'', ''d''] [(''a'', ''s''), (''s'', ''c''), (''c'', ''d'')]))"

lemma wf_set_order [simp]: "wf_vgraph (set_exec_order ns G) = wf_vgraph G"
  by (simp add: wf_vgraph_def set_exec_order_def)

lemma chain_facts:
  "wf_vgraph chain_vgraph" "plain_graph chain_vgraph" "unplanned chain_vgraph"
  "topo (edges (vg chain_vgraph)) (nodes_exec_order chain_vgraph)" "set (nodes_exec_order chain_vgraph) = reached chain_vgraph"
  "nodes_exec_order chain_vgraph = [''a'', ''b'', ''c'', ''d'']"
proof -
  show wf: "wf_vgraph chain_vgraph" unfolding chain_vgraph_def ordered_def wf_set_order by (rule built_wf) code_simp
  show "plain_graph chain_vgraph" by code_simp
  show "unplanned chain_vgraph" by code_simp
  show ns: "nodes_exec_order chain_vgraph = [''a'', ''b'', ''c'', ''d'']" by code_simp
  have "map (ends \<circ> snd) (arcs (vg chain_vgraph)) = [(''a'', ''b''), (''b'', ''c''), (''c'', ''d'')]" by code_simp
  from arg_cong [OF this, of set]
  have e: "edges (vg chain_vgraph) = {(''a'', ''b''), (''b'', ''c''), (''c'', ''d'')}" by (simp add: edges_def)
  show "topo (edges (vg chain_vgraph)) (nodes_exec_order chain_vgraph)"
    unfolding e ns topo_def by (auto simp: less_Suc_eq numeral_eq_Suc)
  have "acyclic (edges (vg chain_vgraph))"
    by (rule acyclicI_order [where f = "\<lambda>v. - (of_char (hd v) :: int)"]) (auto simp: e)
  from reached_acyclic [OF wf this] show "set (nodes_exec_order chain_vgraph) = reached chain_vgraph" unfolding ns e by auto
qed

section \<open>Releasing in-place groups\<close>

lemma rm_tree_fold:
  "fold rm_self_lock_tree es s = s\<lparr>self_tree := map (\<lambda>(k, ios). (k, filter (\<lambda>y. list_all (\<lambda>e. \<not> io_eq y e) es) ios)) (self_tree s)\<rparr>"
  by (induction es arbitrary: s) (auto simp: rm_self_lock_tree_def comp_def case_prod_unfold intro!: filter_cong)

lemma free_self_loop_iff:
  "free_self_loop xs s = Inr t \<longleftrightarrow>
     list_all (\<lambda>x. case map_of (self_tree s) (io_name x) of None \<Rightarrow> False | Some ios \<Rightarrow> ios \<noteq> []) xs \<and> t = s"
  by (induction xs) (auto split: option.splits)

section \<open>Properties\<close>

text \<open>C4: The memory plan is safe. Take a graph whose operators all write new tensors and no tensor has been
  planned yet, and let the execution order be topological. Then the memory scheduler returns after one walk
  over its queue, launches the operators in that order, its check of the order corrects nothing, and of any
  two tensors that end up with the same owner one has been read by its consumer before the producer of
  the other runs: no tensor is overwritten while it is still needed.\<close>

theorem memory_plan_safe:
  assumes "wf_vgraph G" "plain_graph G" "unplanned G" "reg_io_resource G new_mem = Inr s"
    and "topo (edges (vg G)) (nodes_exec_order G)" "set (nodes_exec_order G) = reached G"
  shows "\<exists>t H. mem_run (Suc k) s = Inr t \<and> graph_p t = Some H \<and> edges (vg H) = edges (vg G) \<and>
    map node_name (exec_que t) = nodes_exec_order G \<and>
    (\<forall>i a j b. (i, a) \<in> set (arcs (vg H)) \<and> (j, b) \<in> set (arcs (vg H)) \<and> i \<noteq> j \<and>
       arc_bottom a \<in> reached G \<and> arc_bottom b \<in> reached G \<and> owner (weight a) = owner (weight b) \<longrightarrow>
       precedes (nodes_exec_order G) (arc_top a) (arc_bottom b) \<or> precedes (nodes_exec_order G) (arc_top b) (arc_bottom a))"
proof -
  obtain t H where t: "mem_run (Suc k) s = Inr t" "map node_name (exec_que t) = nodes_exec_order G" "graph_p t = Some H"
    and H: "shape_of H = shape_of G" "plan.plan_ok G (sinks G) (wt H) (lock_ios t) (free_ios t) (nodes_exec_order G)"
    using mem_run_ok [OF assms(1-3) _ _ _ _ assms(4-6), of k] by (auto simp: mem_ok_def new_mem_def fresh_def)
  have wfH: "wf_vgraph H" using shape_of_wf [OF H(1)] assms(1) by simp
  have arc: "i \<in> plan.made G (nodes_exec_order G) \<and> weight a = wt H i \<and> arc_bottom a = bot_of G i \<and> arc_top a = top_of G i"
    if a: "(i, a) \<in> set (arcs (vg H))" "arc_bottom a \<in> reached G" for i a
  proof -
    have i: "i \<in> arc_ids G" using a(1) shape_of_ids [OF H(1)] by force
    then show ?thesis
      using ends_of_arc [OF wfH a(1)] wt_arc [OF wfH a(1)] shape_of_bot_top [OF H(1) assms(1) i]
        made_iff [OF assms(1)] a(2) assms(6) by simp
  qed
  have "precedes (nodes_exec_order G) (arc_top a) (arc_bottom b) \<or> precedes (nodes_exec_order G) (arc_top b) (arc_bottom a)"
    if "(i, a) \<in> set (arcs (vg H)) \<and> (j, b) \<in> set (arcs (vg H)) \<and> i \<noteq> j \<and>
       arc_bottom a \<in> reached G \<and> arc_bottom b \<in> reached G \<and> owner (weight a) = owner (weight b)" for i a j b
    using plan.plan_okD(6) [OF H(2), of i j] arc [of i a] arc [of j b] that by (simp add: plan.apart_def)
  then show ?thesis using t shape_of_its(4) [OF H(1)] by blast
qed

theorem memory_plan_safe_witness:
  "\<exists>s t. reg_io_resource chain_vgraph new_mem = Inr s \<and> mem_run 1 s = Inr t \<and>
     map node_name (exec_que t) = [''a'', ''b'', ''c'', ''d''] \<and>
     owners_after 1 chain_vgraph = Inr [(''a_b'', ''a_b''), (''b_c'', ''b_c''), (''c_d'', ''a_b'')]"
proof -
  have o: "owners_after 1 chain_vgraph = Inr [(''a_b'', ''a_b''), (''b_c'', ''b_c''), (''c_d'', ''a_b'')]" by code_simp
  then obtain s where s: "reg_io_resource chain_vgraph new_mem = Inr s" by (auto simp: owners_after_def)
  show ?thesis
    using memory_plan_safe [OF chain_facts(1-3) s chain_facts(4,5), of 0] s o chain_facts(6) by auto
qed

text \<open>C23: On a graph without in-place operators, \<open>ConvEltwise\<close> or registered outputs (\<open>plain_graph\<close>), in which
  no tensor names another as its owner yet and whose order of execution is a topological order of what the inputs reach, every
  tensor that a returning run of the memory scheduler leaves shared, and whose bottom is reached, names the
  tensor that owns its memory directly: that one is not shared itself, and it is on the same lane.\<close>

theorem memory_plan_owner:
  assumes "wf_vgraph G" "plain_graph G" "unplanned G" "reg_io_resource G new_mem = Inr s"
    and "topo (edges (vg G)) (nodes_exec_order G)" "set (nodes_exec_order G) = reached G"
    and "mem_run (Suc k) s = Inr t" "graph_p t = Some H"
    and "(i, a) \<in> set (arcs (vg H))" "arc_bottom a \<in> reached G" "shared (weight a)"
  shows "\<exists>j b. (j, b) \<in> set (arcs (vg H)) \<and> io_name (weight b) = share_from (weight a) \<and> \<not> shared (weight b) \<and>
    io_lane (weight b) = io_lane (weight a)"
proof -
  obtain t' H' where t: "mem_run (Suc k) s = Inr t'" "graph_p t' = Some H'"
    and H: "shape_of H' = shape_of G" "plan.plan_ok G (sinks G) (wt H') (lock_ios t') (free_ios t') (nodes_exec_order G)"
    using mem_run_ok [OF assms(1-3) _ _ _ _ assms(4-6), of k] by (auto simp: mem_ok_def new_mem_def fresh_def)
  have [simp]: "H' = H" using t assms(7,8) by simp
  have wfH: "wf_vgraph H" using shape_of_wf [OF H(1)] assms(1) by simp
  have i: "i \<in> arc_ids G" using assms(9) shape_of_ids [OF H(1)] by force
  then have "i \<in> plan.made G (nodes_exec_order G)" "weight a = wt H i"
    using ends_of_arc [OF wfH assms(9)] wt_arc [OF wfH assms(9)] shape_of_bot_top [OF H(1) assms(1) i]
      made_iff [OF assms(1)] assms(6,10) by simp_all
  then obtain j where j: "j \<in> plan.made G (nodes_exec_order G)" "name_of G j = share_from (weight a)" "\<not> shared (wt H j)"
    "io_lane (wt H j) = io_lane (weight a)"
    using plan.plan_okD(5) [OF H(2), of i] assms(11) by auto
  have "j \<in> arc_ids H" using j(1) made_iff [OF assms(1)] shape_of_ids [OF H(1)] by auto
  then have "(j, arc_at H j) \<in> set (arcs (vg H))" by (rule arc_at_mem)
  moreover have "io_name (wt H j) = name_of G j" using plan.plan_okD(1) [OF H(2) j(1)] by simp
  ultimately show ?thesis using j(2-4) by (intro exI [of _ j] exI [of _ "arc_at H j"]) simp
qed

theorem memory_plan_owner_witness:
  "\<exists>s t H i a. reg_io_resource chain_vgraph new_mem = Inr s \<and> mem_run 1 s = Inr t \<and> graph_p t = Some H \<and>
     (i, a) \<in> set (arcs (vg H)) \<and> shared (weight a) \<and> share_from (weight a) = ''a_b'' \<and>
     (\<exists>j b. (j, b) \<in> set (arcs (vg H)) \<and> io_name (weight b) = ''a_b'' \<and> \<not> shared (weight b))"
proof -
  let ?f = "\<lambda>(i, a :: (string, io) arc). (arc_bottom a, shared (weight a), share_from (weight a))"
  have "bindE (reg_io_resource chain_vgraph new_mem) (\<lambda>s. bindE (mem_run 1 s) (\<lambda>t. bindE (the_graph t) (\<lambda>H.
      Inr (map ?f (arcs (vg H)))))) = Inr [(''a'', False, []), (''b'', False, []), (''c'', True, ''a_b'')]" by code_simp
  then obtain s t H where s: "reg_io_resource chain_vgraph new_mem = Inr s" "mem_run 1 s = Inr t" "graph_p t = Some H"
    "map ?f (arcs (vg H)) = [(''a'', False, []), (''b'', False, []), (''c'', True, ''a_b'')]"
    by (auto simp: the_graph_def split: option.splits)
  have "(''c'', True, ''a_b'') \<in> ?f ` set (arcs (vg H))" using arg_cong [OF s(4), of set] by simp
  then obtain i a where a: "(i, a) \<in> set (arcs (vg H))" "arc_bottom a = ''c''" "shared (weight a)" "share_from (weight a) = ''a_b''"
    by auto
  have "arc_bottom a \<in> reached chain_vgraph" using a(2) chain_facts(5,6) by (metis list.set_intros)
  then show ?thesis
    using memory_plan_owner [OF chain_facts(1-3) s(1) chain_facts(4,5) _ s(3) a(1) _ a(3), of 0] s(1-3) a by auto
qed

text \<open>\<open>free_self\<close> never releases an in-place group. It returns exactly when every held tensor still has a
  reader in the tree, and then the pools are as they were; as soon as the last reader of a group is gone it
  erases an iterator of \<open>_self_lock\<close> from the other list \<open>_lock\<close>, or faults before that.\<close>

lemma free_self_releases_nothing:
  "free_self es s = Inr t \<longleftrightarrow>
     list_all (\<lambda>x. case map_of (self_tree s) (io_name x) of None \<Rightarrow> False
       | Some ios \<Rightarrow> list_ex (\<lambda>y. list_all (\<lambda>e. \<not> io_eq y e) es) ios) (self_lock s) \<and>
     t = s\<lparr>self_tree := map (\<lambda>(k, ios). (k, filter (\<lambda>y. list_all (\<lambda>e. \<not> io_eq y e) es) ios)) (self_tree s)\<rparr>"
proof -
  have m: "map_of (map (\<lambda>(k, ios). (k, filter P ios)) xs) v = map_option (filter P) (map_of xs v)" for P :: "io \<Rightarrow> bool" and xs v
    by (induction xs) auto
  have "(case map_option (filter P) o' of None \<Rightarrow> False | Some ios \<Rightarrow> ios \<noteq> []) =
      (case o' of None \<Rightarrow> False | Some ios \<Rightarrow> list_ex P ios)" for P :: "io \<Rightarrow> bool" and o'
    by (auto simp: list_ex_iff filter_empty_conv split: option.splits)
  then show ?thesis by (simp add: free_self_def Let_def rm_tree_fold free_self_loop_iff m)
qed

text \<open>So the memory scheduler cannot plan a chain through a \<open>Split\<close>: when the only reader of its output
  has been launched, the run erases an iterator of another list.\<close>

lemma split_run_faults:
  "owners_after 4 split_vgraph = Inl ForeignIterator"
  by code_simp

text \<open>C31: \<open>connect_table\<close> is the reachability relation of the graph: 1 for a pair of vertices that a path joins
  (of any length, also none), 0 for every other pair.\<close>

theorem connect_table_reachability:
  assumes "wf_vgraph G"
  shows "\<exists>t. connect_table G = Inr t \<and> (\<forall>u \<in> set (vertex_names (vg G)). \<forall>v \<in> set (vertex_names (vg G)).
    t (u, v) = Some (if (u, v) \<in> (edges (vg G))\<^sup>* then 1 else 0))"
  by (rule connect_table_spec [OF assms])

theorem connect_table_reachability_witness:
  "\<exists>t. connect_table demo_vgraph = Inr t \<and> t (''a'', ''d'') = Some 1"
proof -
  have n: "vertex_names (vg demo_vgraph) = [''a'', ''b'', ''c'', ''d'']" by code_simp
  have "(''a'', ''d'') \<in> (edges (vg demo_vgraph))\<^sup>*"
    by (rule converse_rtrancl_into_rtrancl [of _ "''b''", OF _ r_into_rtrancl]) (simp_all add: demo_vgraph_edges)
  then show ?thesis using connect_table_reachability [OF demo_vgraph_wf] n by fastforce
qed

end
