(* ===== verification/Device_Buffer.thy ===== *)
theory Device_Buffer
  imports Anakin_Prelude "HOL-Library.Word"
begin

unbundle bit_operations_syntax

text \<open>
  The memory of the host target (\<open>saber/core/target_wrapper.h\<close>) and class \<open>Buffer\<close>
  (\<open>saber/core/buffer.h\<close>), which owns or borrows one block of it. A store is the blocks that
  \<open>malloc\<close> has given out, by address; a pointer is the address of a payload, \<open>None\<close> the
  null pointer. Whether a request is granted is up to the environment: \<open>grants\<close> answers for
  the request of each number.

  The operations of a device wrapper that differ between targets are arguments of the operations
  of \<open>Buffer\<close>: \<open>dev\<close> is what \<open>API::get_device_id\<close> returns, \<open>p2p\<close> is
  \<open>API::sync_memcpy_p2p\<close>. For the host these are \<open>host_device_id\<close> and
  \<open>host_p2p\<close>. Sizes are of type \<open>nat\<close>; the sum that a \<open>size_t\<close> can wrap
  around is the one in \<open>fast_malloc\<close>, on 64-bit words in \<open>malloc_request\<close>. A granted
  request that wrapped is smaller than the payload, and the \<open>memset\<close> that clears the payload
  then writes past the block.
\<close>

section \<open>Status codes\<close>

datatype saber_status = SaberSuccess | SaberNotInitialized | SaberInvalidValue
  | SaberMemAllocFailed | SaberUnKownError | SaberOutOfAuthority | SaberOutOfMem
  | SaberUnImplError | SaberWrongDevice

fun status_value :: "saber_status \<Rightarrow> int" where
  "status_value SaberSuccess = -1"
| "status_value SaberNotInitialized = 1"
| "status_value SaberInvalidValue = 2 ^ 1 + 1"
| "status_value SaberMemAllocFailed = 2 ^ 2 + (2 ^ 1 + 1)"
| "status_value SaberUnKownError = 2 ^ 3 + (2 ^ 2 + (2 ^ 1 + 1))"
| "status_value SaberOutOfAuthority = 2 ^ 4 + (2 ^ 3 + (2 ^ 2 + (2 ^ 1 + 1)))"
| "status_value SaberOutOfMem = 2 ^ 5 + (2 ^ 4 + (2 ^ 3 + (2 ^ 2 + (2 ^ 1 + 1))))"
| "status_value SaberUnImplError = 2 ^ 6 + (2 ^ 5 + (2 ^ 4 + (2 ^ 3 + (2 ^ 2 + (2 ^ 1 + 1)))))"
| "status_value SaberWrongDevice =
     2 ^ 7 + (2 ^ 6 + (2 ^ 5 + (2 ^ 4 + (2 ^ 3 + (2 ^ 2 + (2 ^ 1 + 1))))))"

definition saber_check :: "saber_status \<Rightarrow> unit outcome" where
  "saber_check st = check (status_value st = status_value SaberSuccess)"

section \<open>Aligned allocation\<close>

text \<open>\<open>sizeof(void*) + MALLOC_ALIGN - 1\<close>, the argument of \<open>malloc\<close>, and the address
  \<open>r\<close> of the payload inside the block at \<open>p\<close>.\<close>

definition malloc_offset :: "64 word" where
  "malloc_offset = 8 + 64 - 1"

definition malloc_request :: "64 word \<Rightarrow> 64 word" where
  "malloc_request n = malloc_offset + n"

definition payload_address :: "64 word \<Rightarrow> 64 word" where
  "payload_address p = (p + malloc_offset) AND NOT (64 - 1)"

section \<open>The store\<close>

type_synonym byte = "8 word"
type_synonym ptr = "nat option"

record store =
  blocks :: "nat \<Rightarrow> byte list option"
  next_block :: nat
  grants :: "nat \<Rightarrow> bool"

definition fast_malloc :: "store \<Rightarrow> nat \<Rightarrow> (store \<times> ptr) outcome" where
  "fast_malloc h n =
     (let a = next_block h; h1 = h\<lparr>next_block := Suc a\<rparr>
      in if \<not> grants h a then Inr (h1, None)
         else if unat (malloc_request (word_of_nat n)) < unat malloc_offset + n then Inl OutOfRange
         else Inr (h1\<lparr>blocks := (blocks h)(a \<mapsto> replicate n 0)\<rparr>, Some a))"

definition block_at :: "store \<Rightarrow> ptr \<Rightarrow> byte list outcome" where
  "block_at h p = (case p of None \<Rightarrow> Inl NullDeref
     | Some a \<Rightarrow> (case blocks h a of None \<Rightarrow> Inl DanglingDeref | Some xs \<Rightarrow> Inr xs))"

text \<open>\<open>fast_free\<close> reads the word in front of the payload, so the block has to be live.\<close>

definition fast_free :: "store \<Rightarrow> ptr \<Rightarrow> store outcome" where
  "fast_free h p = (case p of None \<Rightarrow> Inr h
     | Some a \<Rightarrow> bindE (block_at h p) (\<lambda>_. Inr (h\<lparr>blocks := (blocks h)(a := None)\<rparr>)))"

definition write_bytes :: "store \<Rightarrow> ptr \<Rightarrow> nat \<Rightarrow> byte list \<Rightarrow> store outcome" where
  "write_bytes h p off bs =
     bindE (block_at h p) (\<lambda>xs.
     if length xs < off + length bs then Inl OutOfRange
     else Inr (h\<lparr>blocks := (blocks h)(the p \<mapsto> take off xs @ bs @ drop (off + length bs) xs)\<rparr>))"

definition read_bytes :: "store \<Rightarrow> ptr \<Rightarrow> nat \<Rightarrow> nat \<Rightarrow> byte list outcome" where
  "read_bytes h p off n =
     bindE (block_at h p) (\<lambda>xs.
     if length xs < off + n then Inl OutOfRange else Inr (take n (drop off xs)))"

text \<open>The wrapper of the host. Copying no bytes touches no pointer; \<open>memcpy\<close> of ranges that
  overlap is undefined.\<close>

definition mem_alloc :: "store \<Rightarrow> nat \<Rightarrow> (store \<times> ptr) outcome" where
  "mem_alloc h n = fast_malloc h n"

definition mem_free :: "store \<Rightarrow> ptr \<Rightarrow> store outcome" where
  "mem_free h p = (if p \<noteq> None then fast_free h p else Inr h)"

definition mem_set :: "store \<Rightarrow> ptr \<Rightarrow> int \<Rightarrow> nat \<Rightarrow> store outcome" where
  "mem_set h p v n = (if n = 0 then Inr h else write_bytes h p 0 (replicate n (word_of_int v)))"

definition overlapping :: "ptr \<Rightarrow> nat \<Rightarrow> ptr \<Rightarrow> nat \<Rightarrow> nat \<Rightarrow> bool" where
  "overlapping p i q j n = (p = q \<and> i < j + n \<and> j < i + n)"

definition sync_memcpy :: "store \<Rightarrow> ptr \<Rightarrow> nat \<Rightarrow> ptr \<Rightarrow> nat \<Rightarrow> nat \<Rightarrow> store outcome" where
  "sync_memcpy h dst dst_offset src src_offset n =
     (if n = 0 then Inr h
      else if overlapping dst dst_offset src src_offset n then Inl OverlappingCopy
      else bindE (read_bytes h src src_offset n) (write_bytes h dst dst_offset))"

type_synonym p2p = "store \<Rightarrow> ptr \<Rightarrow> ptr \<Rightarrow> nat \<Rightarrow> store outcome"

definition host_p2p :: p2p where
  "host_p2p h dst src n = Inr h"

definition host_device_id :: int where
  "host_device_id = 0"

section \<open>Class Buffer\<close>

record buffer =
  b_id :: int
  b_data :: ptr
  own_data :: bool
  b_count :: nat
  b_capacity :: nat

definition buf_default :: "int \<Rightarrow> buffer" where
  "buf_default dev = \<lparr>b_id = dev, b_data = None, own_data = True, b_count = 0, b_capacity = 0\<rparr>"

definition buf_clean :: "store \<Rightarrow> buffer \<Rightarrow> (store \<times> buffer) outcome" where
  "buf_clean h b =
     bindE (if own_data b \<and> b_capacity b > 0
            then bindE (mem_free h (b_data b)) (\<lambda>h'.
                   Inr (h', b\<lparr>b_count := 0, b_capacity := 0, own_data := True\<rparr>))
            else Inr (h, b)) (\<lambda>(h', b').
     Inr (h', b'\<lparr>b_data := None\<rparr>))"

definition buf_alloc :: "store \<Rightarrow> buffer \<Rightarrow> nat \<Rightarrow> (saber_status \<times> store \<times> buffer) outcome" where
  "buf_alloc h b n =
     bindE (buf_clean h b) (\<lambda>(h1, b1).
     bindE (mem_alloc h1 n) (\<lambda>(h2, p).
     Inr (if p \<noteq> None then SaberSuccess else SaberOutOfMem, h2,
          b1\<lparr>b_data := p, b_capacity := n, own_data := True, b_count := n\<rparr>)))"

definition buf_re_alloc ::
    "int \<Rightarrow> store \<Rightarrow> buffer \<Rightarrow> nat \<Rightarrow> (saber_status \<times> store \<times> buffer) outcome" where
  "buf_re_alloc dev h b n =
     (if n > b_capacity b then
        (if own_data b then
           bindE (check (b_id b = dev)) (\<lambda>_.
           bindE (buf_clean h b) (\<lambda>(h1, b1).
           bindE (mem_alloc h1 n) (\<lambda>(h2, p).
           Inr (SaberSuccess, h2, b1\<lparr>b_data := p, b_capacity := n, b_count := n\<rparr>))))
         else Inr (SaberOutOfAuthority, h, b))
      else Inr (SaberSuccess, h, b\<lparr>b_count := n\<rparr>))"

text \<open>\<open>Buffer(size_t size)\<close>; the member \<open>_id\<close>, set last, is not read before.\<close>

definition buf_sized :: "int \<Rightarrow> store \<Rightarrow> nat \<Rightarrow> (store \<times> buffer) outcome" where
  "buf_sized dev h n =
     (let b = \<lparr>b_id = dev, b_data = None, own_data = True, b_count = n, b_capacity = n\<rparr>
      in if n \<noteq> 0
         then bindE (buf_alloc h b n) (\<lambda>(st, h', b').
              bindE (saber_check st) (\<lambda>_. Inr (h', b'\<lparr>b_id := dev\<rparr>)))
         else Inr (h, b))"

definition buf_of_ptr :: "int \<Rightarrow> ptr \<Rightarrow> nat \<Rightarrow> int \<Rightarrow> buffer outcome" where
  "buf_of_ptr dev data n ident =
     bindE (check (ident = dev)) (\<lambda>_.
     Inr \<lparr>b_id = dev, b_data = data, own_data = False, b_count = n, b_capacity = n\<rparr>)"

text \<open>\<open>shared_from\<close>, also the body of \<open>operator=\<close> and of the copy constructor: it refers
  to the source's data on the same device and copies between devices.\<close>

definition buf_shared_from ::
    "int \<Rightarrow> p2p \<Rightarrow> store \<Rightarrow> buffer \<Rightarrow> buffer \<Rightarrow> (int \<times> store \<times> buffer) outcome" where
  "buf_shared_from dev p2p h b buf =
     (let b1 = b\<lparr>b_count := b_count buf, b_id := dev\<rparr>
      in if b_id buf = dev
         then Inr (1, h, b1\<lparr>b_data := b_data buf, b_capacity := b_count b1, own_data := False\<rparr>)
         else bindE (buf_re_alloc dev h (b1\<lparr>own_data := True\<rparr>) (b_count buf)) (\<lambda>(st, h2, b2).
              bindE (saber_check st) (\<lambda>_.
              bindE (p2p h2 (b_data b2) (b_data buf) (b_count buf)) (\<lambda>h3.
              Inr (0, h3, b2)))))"

definition buf_assign ::
    "int \<Rightarrow> p2p \<Rightarrow> store \<Rightarrow> buffer \<Rightarrow> buffer \<Rightarrow> (store \<times> buffer) outcome" where
  "buf_assign dev p2p h b buf =
     bindE (buf_shared_from dev p2p h b buf) (\<lambda>(_, h', b'). Inr (h', b'))"

text \<open>The copy constructor has no initialisers: \<open>raw\<close> holds the indeterminate values of the
  members of the new object.\<close>

definition buf_copy_ctor ::
    "int \<Rightarrow> p2p \<Rightarrow> buffer \<Rightarrow> store \<Rightarrow> buffer \<Rightarrow> (store \<times> buffer) outcome" where
  "buf_copy_ctor dev p2p raw h buf =
     bindE (check (b_count buf > 0)) (\<lambda>_. buf_assign dev p2p h raw buf)"

definition buf_mem_set ::
    "store \<Rightarrow> buffer \<Rightarrow> int \<Rightarrow> nat \<Rightarrow> (saber_status \<times> store) outcome" where
  "buf_mem_set h b c n =
     (if \<not> own_data b \<or> b_count b < n then Inr (SaberOutOfAuthority, h)
      else bindE (mem_set h (b_data b) c n) (\<lambda>h'. Inr (SaberSuccess, h')))"

text \<open>\<open>sync_copy_from\<close> of another host buffer.\<close>

definition buf_sync_copy ::
    "store \<Rightarrow> buffer \<Rightarrow> buffer \<Rightarrow> (saber_status \<times> store) outcome" where
  "buf_sync_copy h b buf =
     bindE (check (b_capacity b \<ge> b_count buf)) (\<lambda>_.
     bindE (sync_memcpy h (b_data b) 0 (b_data buf) 0 (b_count buf)) (\<lambda>h'.
     Inr (SaberSuccess, h')))"

text \<open>\<open>from_vector\<close>: \<open>bytes\<close> is the object representation of the vector's elements,
  which live outside the buffers.\<close>

definition buf_from_vector ::
    "store \<Rightarrow> buffer \<Rightarrow> byte list \<Rightarrow> (saber_status \<times> store \<times> buffer) outcome" where
  "buf_from_vector h b bytes =
     bindE (if b_capacity b < length bytes
            then bindE (buf_alloc h b (length bytes)) (\<lambda>(_, h1, b1). Inr (h1, b1))
            else Inr (h, b)) (\<lambda>(h1, b1).
     bindE (if bytes = [] then Inr h1 else write_bytes h1 (b_data b1) 0 bytes) (\<lambda>h2.
     Inr (SaberSuccess, h2, b1)))"

text \<open>The destructor.\<close>

definition buf_destroy :: "store \<Rightarrow> buffer \<Rightarrow> store outcome" where
  "buf_destroy h b = bindE (buf_clean h b) (\<lambda>(h', _). Inr h')"

section \<open>Programs over buffers\<close>

text \<open>
  The objects of a program, by the name of the variable that holds them, beside the store. A
  \<open>buffer_op\<close> is a statement of a program that declares, uses and destroys buffers on one
  device; \<open>exec\<close> is its effect. Declaring a name again hides the object it had,
  which is not destroyed. \<open>OfArray x bs\<close> is the constructor that takes a pointer,
  applied to a fresh array with the contents \<open>bs\<close>.
\<close>

record world =
  the_store :: store
  objs :: "string \<Rightarrow> buffer option"

datatype buffer_op = Declare string | Sized string nat | OfArray string "byte list"
  | CopyOf string string | Assign string string | SharedFrom string string
  | Alloc string nat | ReAlloc string nat | MemSet string int nat
  | CopyFrom string string | FromVector string "byte list" | Destroy string

definition obj :: "world \<Rightarrow> string \<Rightarrow> buffer outcome" where
  "obj w x = (case objs w x of None \<Rightarrow> Inl DanglingDeref | Some b \<Rightarrow> Inr b)"

definition set_obj :: "world \<Rightarrow> store \<Rightarrow> string \<Rightarrow> buffer \<Rightarrow> world" where
  "set_obj w h x b = w\<lparr>the_store := h, objs := (objs w)(x \<mapsto> b)\<rparr>"

definition user_array :: "store \<Rightarrow> byte list \<Rightarrow> store \<times> ptr" where
  "user_array h bs = (h\<lparr>next_block := Suc (next_block h), blocks := (blocks h)(next_block h \<mapsto> bs)\<rparr>,
     Some (next_block h))"

fun exec :: "int \<Rightarrow> p2p \<Rightarrow> buffer \<Rightarrow> buffer_op \<Rightarrow> world \<Rightarrow> world outcome" where
  "exec dev p2p raw (Declare x) w = Inr (set_obj w (the_store w) x (buf_default dev))"
| "exec dev p2p raw (Sized x n) w =
     bindE (buf_sized dev (the_store w) n) (\<lambda>(h, b). Inr (set_obj w h x b))"
| "exec dev p2p raw (OfArray x bs) w =
     (let (h, p) = user_array (the_store w) bs
      in bindE (buf_of_ptr dev p (length bs) dev) (\<lambda>b. Inr (set_obj w h x b)))"
| "exec dev p2p raw (CopyOf x y) w =
     bindE (obj w y) (\<lambda>buf.
     bindE (buf_copy_ctor dev p2p raw (the_store w) buf) (\<lambda>(h, b). Inr (set_obj w h x b)))"
| "exec dev p2p raw (Assign x y) w =
     bindE (obj w x) (\<lambda>b. bindE (obj w y) (\<lambda>buf.
     bindE (buf_assign dev p2p (the_store w) b buf) (\<lambda>(h, b'). Inr (set_obj w h x b'))))"
| "exec dev p2p raw (SharedFrom x y) w =
     bindE (obj w x) (\<lambda>b. bindE (obj w y) (\<lambda>buf.
     bindE (buf_shared_from dev p2p (the_store w) b buf) (\<lambda>(_, h, b'). Inr (set_obj w h x b'))))"
| "exec dev p2p raw (Alloc x n) w =
     bindE (obj w x) (\<lambda>b.
     bindE (buf_alloc (the_store w) b n) (\<lambda>(_, h, b'). Inr (set_obj w h x b')))"
| "exec dev p2p raw (ReAlloc x n) w =
     bindE (obj w x) (\<lambda>b.
     bindE (buf_re_alloc dev (the_store w) b n) (\<lambda>(_, h, b'). Inr (set_obj w h x b')))"
| "exec dev p2p raw (MemSet x c n) w =
     bindE (obj w x) (\<lambda>b.
     bindE (buf_mem_set (the_store w) b c n) (\<lambda>(_, h). Inr (w\<lparr>the_store := h\<rparr>)))"
| "exec dev p2p raw (CopyFrom x y) w =
     bindE (obj w x) (\<lambda>b. bindE (obj w y) (\<lambda>buf.
     bindE (buf_sync_copy (the_store w) b buf) (\<lambda>(_, h). Inr (w\<lparr>the_store := h\<rparr>))))"
| "exec dev p2p raw (FromVector x bs) w =
     bindE (obj w x) (\<lambda>b.
     bindE (buf_from_vector (the_store w) b bs) (\<lambda>(_, h, b'). Inr (set_obj w h x b')))"
| "exec dev p2p raw (Destroy x) w =
     bindE (obj w x) (\<lambda>b.
     bindE (buf_destroy (the_store w) b) (\<lambda>h.
     Inr (w\<lparr>the_store := h, objs := (objs w)(x := None)\<rparr>)))"

definition new_world :: "(nat \<Rightarrow> bool) \<Rightarrow> world" where
  "new_world g = \<lparr>the_store = \<lparr>blocks = \<lambda>_. None, next_block = 0, grants = g\<rparr>, objs = \<lambda>_. None\<rparr>"

end
