(* ===== verification/Buffer_Facts.thy ===== *)
theory Buffer_Facts
  imports Device_Buffer
begin

text \<open>
  The facts about buffers: the addresses of \<open>fast_malloc\<close>, what a step may do to the blocks
  of the store (\<open>evolves\<close>), and the invariant \<open>world_ok\<close> of the programs that use
  buffers on one device: capacities fit the blocks, and every owned block is live and owned once.
\<close>

unbundle bit_operations_syntax

section \<open>Addresses\<close>

lemma and_not_63: "(x::64 word) AND NOT (64 - 1) = x - take_bit 6 x"
proof -
  have "(64 - 1 :: 64 word) = mask 6" by (simp add: mask_eq_exp_minus_1)
  moreover have "x AND NOT (mask 6) = x AND NOT (take_bit 6 x)"
    by (rule bit_word_eqI) (auto simp: bit_simps)
  moreover have "x - take_bit 6 x = x AND NOT (take_bit 6 x)"
    by (rule disjunctive_diff_eq_and_not) (rule bit_word_eqI, auto simp: bit_simps)
  ultimately show ?thesis by simp
qed

lemma unat_and_not_63: "unat ((x::64 word) AND NOT (64 - 1)) = unat x - unat x mod 64"
proof -
  have t: "unat (take_bit 6 x) = unat x mod 64"
    by (simp add: unsigned_take_bit_eq take_bit_eq_mod unat_mod)
  have "take_bit 6 x \<le> x" by (simp add: word_le_nat_alt t)
  then show ?thesis unfolding and_not_63 by (simp add: unat_sub t)
qed

lemma payload_address_bounds:
  assumes "unat p + 71 < 2 ^ 64"
  shows "unat (payload_address p) mod 64 = 0" "unat p + 8 \<le> unat (payload_address p)"
    "unat (payload_address p) \<le> unat p + 71"
proof -
  have s: "unat (p + malloc_offset) = unat p + 71"
    using assms by (simp add: malloc_offset_def unat_word_ariths)
  have u: "unat (payload_address p) = (unat p + 71) - (unat p + 71) mod 64"
    unfolding payload_address_def unat_and_not_63 s by simp
  have m: "(unat p + 71) mod 64 \<le> 63" by simp
  show "unat (payload_address p) mod 64 = 0" unfolding u by (simp add: minus_mod_eq_mult_div)
  show "unat p + 8 \<le> unat (payload_address p)" "unat (payload_address p) \<le> unat p + 71"
    using m unfolding u by linarith+
qed

section \<open>Steps of the store\<close>

text \<open>
  A step of a buffer releases the blocks in \<open>F\<close> and keeps every other block with its length;
  new blocks have new addresses.
\<close>

definition fresh_beyond :: "store \<Rightarrow> bool" where
  "fresh_beyond h \<longleftrightarrow> (\<forall>a \<ge> next_block h. blocks h a = None)"

definition evolves :: "store \<Rightarrow> nat set \<Rightarrow> store \<Rightarrow> bool" where
  "evolves h F h' \<longleftrightarrow> next_block h \<le> next_block h' \<and> fresh_beyond h' \<and>
     (\<forall>a < next_block h. if a \<in> F then blocks h' a = None
        else map_option length (blocks h' a) = map_option length (blocks h a))"

lemma evolves_refl: "fresh_beyond h \<Longrightarrow> evolves h {} h"
  by (simp add: evolves_def)

lemma evolves_trans: "evolves h F h1 \<Longrightarrow> evolves h1 {} h2 \<Longrightarrow> evolves h F h2"
  unfolding evolves_def by (auto split: if_splits) (metis less_le_trans option.map_disc_iff)+

text \<open>Requests for which the sum in \<open>fast_malloc\<close> does not wrap around.\<close>

definition fits :: "nat \<Rightarrow> bool" where
  "fits n \<longleftrightarrow> 71 + n < 2 ^ 64"

lemma request_fits:
  assumes "fits n"
  shows "unat (malloc_request (word_of_nat n)) = unat malloc_offset + n"
proof -
  have "unat (word_of_nat n :: 64 word) = n" using assms by (simp add: fits_def unat_of_nat)
  then show ?thesis using assms by (simp add: fits_def malloc_request_def malloc_offset_def unat_word_ariths)
qed

lemma malloc_total:
  assumes "fits n"
  shows "mem_alloc h n = Inr (if grants h (next_block h)
     then (h\<lparr>next_block := Suc (next_block h), blocks := (blocks h)(next_block h \<mapsto> replicate n 0)\<rparr>, Some (next_block h))
     else (h\<lparr>next_block := Suc (next_block h)\<rparr>, None))"
  using request_fits [OF assms] by (simp add: mem_alloc_def fast_malloc_def Let_def)

lemma malloc_overruns:
  assumes "grants h (next_block h)" "n < 2 ^ 64" "\<not> fits n"
  shows "mem_alloc h n = Inl OutOfRange"
proof -
  have u: "unat (word_of_nat n :: 64 word) = n" using assms(2) by (simp add: unat_of_nat)
  have "unat (malloc_request (word_of_nat n)) < 71 + n"
  proof -
    have "unat (malloc_request (word_of_nat n)) = (71 + n) mod 2 ^ 64"
      using u by (simp add: malloc_request_def malloc_offset_def unat_word_ariths)
    also have "\<dots> < 71 + n"
      using assms(3) by (intro less_le_trans [OF mod_less_divisor]) (simp_all add: fits_def)
    finally show ?thesis .
  qed
  then show ?thesis using assms(1) by (simp add: mem_alloc_def fast_malloc_def Let_def malloc_offset_def)
qed

lemma evolves_malloc:
  assumes "fresh_beyond h" "mem_alloc h n = Inr (h', p)"
  shows "evolves h {} h' \<and> (\<forall>a. p = Some a \<longrightarrow> a = next_block h \<and> a < next_block h' \<and>
           blocks h' a = Some (replicate n 0))"
  using assms by (auto simp: evolves_def fresh_beyond_def mem_alloc_def fast_malloc_def Let_def split: if_splits)

lemma evolves_array:
  assumes "fresh_beyond h" "user_array h bs = (h', p)"
  shows "evolves h {} h' \<and> p = Some (next_block h) \<and> next_block h < next_block h' \<and>
         blocks h' (next_block h) = Some bs"
  using assms by (auto simp: evolves_def fresh_beyond_def user_array_def)

lemma evolves_free:
  assumes "fresh_beyond h" "mem_free h p = Inr h'"
  shows "evolves h (set_option p) h'"
  using assms by (auto simp: evolves_def fresh_beyond_def mem_free_def fast_free_def split: option.splits if_splits)

lemma evolves_write:
  assumes "fresh_beyond h" "write_bytes h p off bs = Inr h'"
  shows "evolves h {} h'"
proof -
  obtain xs a where p: "p = Some a" "blocks h a = Some xs" "off + length bs \<le> length xs"
    and h': "h' = h\<lparr>blocks := (blocks h)(a \<mapsto> take off xs @ bs @ drop (off + length bs) xs)\<rparr>"
    using assms(2) by (auto simp: write_bytes_def block_at_def not_less split: option.splits if_splits)
  show ?thesis using assms(1) p unfolding h' by (auto simp: evolves_def fresh_beyond_def)
qed

lemma write_bytes_inside:
  assumes "blocks h a = Some xs" "off + length bs \<le> length xs"
  shows "\<exists>h'. write_bytes h (Some a) off bs = Inr h'"
  using assms by (simp add: write_bytes_def block_at_def)

section \<open>The invariant\<close>

definition owns :: "buffer \<Rightarrow> nat \<Rightarrow> bool" where
  "owns b p \<longleftrightarrow> own_data b \<and> b_capacity b > 0 \<and> b_data b = Some p"

definition buf_ok :: "int \<Rightarrow> store \<Rightarrow> buffer \<Rightarrow> bool" where
  "buf_ok dev h b \<longleftrightarrow> b_id b = dev \<and> b_count b \<le> b_capacity b \<and>
     (\<forall>p. b_data b = Some p \<longrightarrow> p < next_block h \<and>
        (\<forall>xs. blocks h p = Some xs \<longrightarrow> b_capacity b \<le> length xs)) \<and>
     (\<forall>p. owns b p \<longrightarrow> blocks h p \<noteq> None)"

definition world_ok :: "int \<Rightarrow> world \<Rightarrow> bool" where
  "world_ok dev w \<longleftrightarrow> fresh_beyond (the_store w) \<and>
     (\<forall>x b. objs w x = Some b \<longrightarrow> buf_ok dev (the_store w) b) \<and>
     (\<forall>x y b c p. x \<noteq> y \<longrightarrow> objs w x = Some b \<longrightarrow> objs w y = Some c \<longrightarrow> owns b p \<longrightarrow> \<not> owns c p)"

lemma buf_ok_evolves:
  assumes "buf_ok dev h b" "evolves h F h'" "\<And>a. a \<in> F \<Longrightarrow> \<not> owns b a"
  shows "buf_ok dev h' b"
proof -
  have keep: "a < next_block h \<Longrightarrow> a \<notin> F \<Longrightarrow> map_option length (blocks h' a) = map_option length (blocks h a)"
    and gone: "a < next_block h \<Longrightarrow> a \<in> F \<Longrightarrow> blocks h' a = None"
    and le: "next_block h \<le> next_block h'" for a
    using assms(2) by (auto simp: evolves_def)
  have data: "p < next_block h' \<and> (\<forall>xs. blocks h' p = Some xs \<longrightarrow> b_capacity b \<le> length xs)"
    if p: "b_data b = Some p" for p
  proof -
    have ok: "p < next_block h" "\<And>xs. blocks h p = Some xs \<Longrightarrow> b_capacity b \<le> length xs"
      using assms(1) p by (auto simp: buf_ok_def)
    show ?thesis
      using keep [OF ok(1)] gone [OF ok(1)] ok le by (cases "p \<in> F") (auto simp: map_option_case split: option.splits)
  qed
  have own: "blocks h' p \<noteq> None" if p: "owns b p" for p
  proof -
    have "p < next_block h" "blocks h p \<noteq> None"
      using assms(1) p by (auto simp: buf_ok_def owns_def)
    moreover have "p \<notin> F" using assms(3) p by blast
    ultimately show ?thesis using keep [of p] by (cases "blocks h' p") auto
  qed
  show ?thesis using assms(1) data own by (auto simp: buf_ok_def)
qed

text \<open>A step of the object \<open>x\<close> releases at most what \<open>x\<close> owned, and owns afterwards
  what it owned before or a new block.\<close>

lemma world_ok_step:
  assumes "world_ok dev w" "evolves (the_store w) F h'" "buf_ok dev h' b'"
    and "\<And>a. a \<in> F \<Longrightarrow> \<exists>b. objs w x = Some b \<and> owns b a"
    and "\<And>q. owns b' q \<Longrightarrow> next_block (the_store w) \<le> q \<or> (\<exists>b. objs w x = Some b \<and> owns b q)"
  shows "world_ok dev (set_obj w h' x b')"
proof -
  have others: "buf_ok dev h' c" if c: "objs w y = Some c" "y \<noteq> x" for y c
  proof (rule buf_ok_evolves [OF _ assms(2)])
    show "buf_ok dev (the_store w) c" using assms(1) c by (simp add: world_ok_def)
    show "\<not> owns c a" if "a \<in> F" for a
      using assms(1) assms(4) [OF that] c unfolding world_ok_def by metis
  qed
  have apart: "\<not> owns c q" if c: "objs w y = Some c" "y \<noteq> x" and q: "owns b' q" for y c q
  proof
    assume o: "owns c q"
    have "q < next_block (the_store w)"
      using assms(1) c(1) o by (auto simp: world_ok_def buf_ok_def owns_def)
    then obtain b where "objs w x = Some b" "owns b q" using assms(5) [OF q] by auto
    then show False using assms(1) c o unfolding world_ok_def by metis
  qed
  have old: "\<not> owns d q" if "objs w y = Some c" "objs w z = Some d" "y \<noteq> z" "owns c q" for y z c d q
    using assms(1) that unfolding world_ok_def by metis
  have fresh: "fresh_beyond h'" using assms(2) by (simp add: evolves_def)
  show ?thesis
    unfolding world_ok_def set_obj_def
    using fresh others assms(3) apart old by (simp split: if_splits) metis
qed

section \<open>The operations of a buffer keep it\<close>

lemma clean_ok:
  assumes "fresh_beyond h" "buf_ok dev h b"
  obtains h' b' F where "buf_clean h b = Inr (h', b')" "evolves h F h'" "\<And>a. a \<in> F \<Longrightarrow> owns b a"
    "b_data b' = None" "b_id b' = dev" "b_count b' \<le> b_capacity b'"
    "own_data b \<Longrightarrow> own_data b'"
proof (cases "own_data b \<and> b_capacity b > 0")
  case True
  obtain h' where h': "mem_free h (b_data b) = Inr h'"
  proof (cases "b_data b")
    case None
    then show ?thesis using that by (simp add: mem_free_def)
  next
    case (Some p)
    then have "blocks h p \<noteq> None" using True assms(2) by (simp add: buf_ok_def owns_def)
    then show ?thesis using that Some by (auto simp: mem_free_def fast_free_def block_at_def)
  qed
  show ?thesis
  proof (rule that)
    show "buf_clean h b = Inr (h', b\<lparr>b_count := 0, b_capacity := 0, own_data := True, b_data := None\<rparr>)"
      using True h' by (simp add: buf_clean_def)
    show "evolves h (set_option (b_data b)) h'" by (rule evolves_free [OF assms(1) h'])
  qed (use True assms(2) in \<open>auto simp: owns_def buf_ok_def\<close>)
next
  case False
  show ?thesis
  proof (rule that)
    show "buf_clean h b = Inr (h, b\<lparr>b_data := None\<rparr>)" using False by (auto simp: buf_clean_def)
    show "evolves h {} h" by (rule evolves_refl [OF assms(1)])
  qed (use assms(2) in \<open>auto simp: buf_ok_def\<close>)
qed

lemma malloc_buf_ok:
  assumes "\<And>a. p = Some a \<Longrightarrow> a < next_block h2 \<and> blocks h2 a = Some (replicate n 0)"
  shows "buf_ok dev h2 \<lparr>b_id = dev, b_data = p, own_data = True, b_count = n, b_capacity = n\<rparr>"
  using assms by (cases p) (auto simp: buf_ok_def owns_def)

text \<open>\<open>step_ok dev h b h' b'\<close> collects what \<open>world_ok_step\<close> asks of an operation.\<close>

definition step_ok :: "int \<Rightarrow> store \<Rightarrow> buffer option \<Rightarrow> store \<Rightarrow> buffer \<Rightarrow> bool" where
  "step_ok dev h ob h' b' \<longleftrightarrow> (\<exists>F. evolves h F h' \<and> buf_ok dev h' b' \<and>
     (\<forall>a \<in> F. \<exists>b. ob = Some b \<and> owns b a) \<and>
     (\<forall>q. owns b' q \<longrightarrow> next_block h \<le> q \<or> (\<exists>b. ob = Some b \<and> owns b q)))"

lemma world_ok_set:
  assumes "world_ok dev w" "step_ok dev (the_store w) (objs w x) h' b'"
  shows "world_ok dev (set_obj w h' x b')"
proof -
  obtain F where F: "evolves (the_store w) F h'" "buf_ok dev h' b'"
    "\<forall>a \<in> F. \<exists>b. objs w x = Some b \<and> owns b a"
    "\<forall>q. owns b' q \<longrightarrow> next_block (the_store w) \<le> q \<or> (\<exists>b. objs w x = Some b \<and> owns b q)"
    using assms(2) unfolding step_ok_def by auto
  show ?thesis by (rule world_ok_step [OF assms(1) F(1,2)]) (use F(3,4) in auto)
qed

lemma alloc_step:
  assumes "fresh_beyond h" "buf_ok dev h b" "fits n"
  obtains st h' b' where "buf_alloc h b n = Inr (st, h', b')" "step_ok dev h (Some b) h' b'"
    "b_capacity b' = n" "b_count b' = n" "own_data b'" "st = SaberSuccess \<longleftrightarrow> b_data b' \<noteq> None"
    "fresh_beyond h'" "\<And>p. b_data b' = Some p \<Longrightarrow> blocks h' p = Some (replicate n 0)"
proof -
  obtain h1 b1 F where c: "buf_clean h b = Inr (h1, b1)" "evolves h F h1" "\<And>a. a \<in> F \<Longrightarrow> owns b a"
    "b_data b1 = None" "b_id b1 = dev"
    using clean_ok [OF assms(1,2)] by metis
  obtain h2 p where m: "mem_alloc h1 n = Inr (h2, p)" using malloc_total [OF assms(3), of h1] by (simp split: if_splits)
  have f1: "fresh_beyond h1" using c(2) by (simp add: evolves_def)
  note ev = evolves_malloc [OF f1 m]
  have all: "evolves h F h2" using evolves_trans [OF c(2)] ev by simp
  define b2 where "b2 = \<lparr>b_id = dev, b_data = p, own_data = True, b_count = n, b_capacity = n\<rparr>"
  have b2: "buf_ok dev h2 b2" unfolding b2_def by (rule malloc_buf_ok) (use ev in auto)
  have le: "next_block h \<le> next_block h1" using c(2) by (simp add: evolves_def)
  show ?thesis
  proof (rule that)
    show "buf_alloc h b n = Inr (if p \<noteq> None then SaberSuccess else SaberOutOfMem, h2, b2)"
      using c(1,5) m by (simp add: buf_alloc_def b2_def)
    show "step_ok dev h (Some b) h2 b2"
      unfolding step_ok_def using all b2 c(3) ev le by (intro exI [of _ F]) (auto simp: owns_def b2_def)
  qed (use all ev in \<open>auto simp: b2_def evolves_def\<close>)
qed

lemma re_alloc_step:
  assumes "fresh_beyond h" "buf_ok dev h b" "fits n"
  obtains st h' b' where "buf_re_alloc dev h b n = Inr (st, h', b')" "step_ok dev h (Some b) h' b'"
proof (cases "n > b_capacity b \<and> own_data b")
  case True
  obtain st h' b' where a: "buf_alloc h b n = Inr (st, h', b')" "step_ok dev h (Some b) h' b'"
    using alloc_step [OF assms] by metis
  obtain h1 b1 F where c: "buf_clean h b = Inr (h1, b1)" "own_data b1"
    using clean_ok [OF assms(1,2)] True by metis
  have "buf_re_alloc dev h b n = Inr (SaberSuccess, h', b')"
    using True assms(2) a(1) c malloc_total [OF assms(3), of h1] by (auto simp: buf_re_alloc_def buf_alloc_def buf_ok_def split: if_splits)
  with a(2) show ?thesis using that by blast
next
  case False
  define b' where "b' = (if n > b_capacity b then b else b\<lparr>b_count := n\<rparr>)"
  obtain st where "buf_re_alloc dev h b n = Inr (st, h, b')"
  proof (rule that)
    show "buf_re_alloc dev h b n
        = Inr (if n > b_capacity b then SaberOutOfAuthority else SaberSuccess, h, b')"
      using False by (auto simp: buf_re_alloc_def b'_def)
  qed
  moreover have "step_ok dev h (Some b) h b'"
    unfolding step_ok_def using assms evolves_refl [OF assms(1)]
    by (intro exI [of _ "{}"]) (auto simp: b'_def buf_ok_def owns_def)
  ultimately show ?thesis using that by blast
qed

lemma shared_from_step:
  assumes "fresh_beyond h" "buf_ok dev h buf" "b_id buf = dev"
  shows "\<exists>b'. buf_shared_from dev p2p h b buf = Inr (1, h, b') \<and> step_ok dev h ob h b' \<and> \<not> own_data b'"
  using assms evolves_refl [OF assms(1)]
  by (auto simp: buf_shared_from_def step_ok_def buf_ok_def owns_def Let_def
      intro!: exI [of _ "{}"] dest: order_trans)

section \<open>Accesses stay inside the blocks\<close>

lemma block_length:
  assumes "buf_ok dev h b" "block_at h (b_data b) = Inr xs"
  shows "b_capacity b \<le> length xs"
  using assms by (auto simp: buf_ok_def block_at_def split: option.splits)

lemma block_at_fault: "block_at h p = Inl e \<Longrightarrow> e = NullDeref \<or> e = DanglingDeref"
  by (auto simp: block_at_def split: option.splits)

lemma write_within:
  assumes "buf_ok dev h b" "length bs \<le> b_capacity b"
  shows "write_bytes h (b_data b) 0 bs \<noteq> Inl OutOfRange"
  using assms block_length [OF assms(1)] block_at_fault [of h "b_data b"]
  by (cases "block_at h (b_data b)") (fastforce simp: write_bytes_def)+

lemma read_within:
  assumes "buf_ok dev h b" "n \<le> b_capacity b"
  shows "read_bytes h (b_data b) 0 n \<noteq> Inl OutOfRange"
  using assms block_length [OF assms(1)] block_at_fault [of h "b_data b"]
  by (cases "block_at h (b_data b)") (fastforce simp: read_bytes_def)+

lemma read_length: "read_bytes h p off n = Inr bs \<Longrightarrow> length bs = n"
  by (auto simp: read_bytes_def split: if_splits)

lemma mem_set_ok:
  assumes "fresh_beyond h" "buf_ok dev h b"
  shows "buf_mem_set h b c n \<noteq> Inl OutOfRange"
    "buf_mem_set h b c n = Inr (st, h') \<Longrightarrow> evolves h {} h'"
  using assms write_within [OF assms(2), of "replicate n (word_of_int c)"] evolves_refl [OF assms(1)]
    evolves_write [OF assms(1)]
  by (auto simp: buf_mem_set_def mem_set_def bindE_def buf_ok_def split: if_splits sum.splits)

lemma memcpy_ok:
  assumes "fresh_beyond h" "buf_ok dev h b" "buf_ok dev h c" "n \<le> b_capacity b" "n \<le> b_capacity c"
  shows "sync_memcpy h (b_data b) 0 (b_data c) 0 n \<noteq> Inl OutOfRange"
    "sync_memcpy h (b_data b) 0 (b_data c) 0 n = Inr h' \<Longrightarrow> evolves h {} h'"
proof -
  show "sync_memcpy h (b_data b) 0 (b_data c) 0 n \<noteq> Inl OutOfRange"
    using read_within [OF assms(3,5)] write_within [OF assms(2)] read_length assms(4)
    by (auto simp: sync_memcpy_def bindE_def split: sum.splits)
  show "evolves h {} h'" if "sync_memcpy h (b_data b) 0 (b_data c) 0 n = Inr h'"
    using that evolves_refl [OF assms(1)] evolves_write [OF assms(1)]
    by (auto simp: sync_memcpy_def split: if_splits)
qed

lemma sync_copy_ok:
  assumes "fresh_beyond h" "buf_ok dev h b" "buf_ok dev h c"
  shows "buf_sync_copy h b c \<noteq> Inl OutOfRange"
    "buf_sync_copy h b c = Inr (st, h') \<Longrightarrow> evolves h {} h'"
proof -
  have c: "b_count c \<le> b_capacity c" using assms(3) by (simp add: buf_ok_def)
  show "buf_sync_copy h b c \<noteq> Inl OutOfRange"
    using memcpy_ok(1) [OF assms _ c]
    by (auto simp: buf_sync_copy_def check_def bindE_def split: sum.splits if_splits)
  show "evolves h {} h'" if "buf_sync_copy h b c = Inr (st, h')"
    using that memcpy_ok(2) [OF assms _ c] by (auto simp: buf_sync_copy_def)
qed

lemma step_ok_evolves:
  assumes "step_ok dev h ob h' b'" "evolves h' {} h''"
  shows "step_ok dev h ob h'' b'"
proof -
  obtain F where F: "evolves h F h'" "buf_ok dev h' b'" "\<forall>a \<in> F. \<exists>b. ob = Some b \<and> owns b a"
    "\<forall>q. owns b' q \<longrightarrow> next_block h \<le> q \<or> (\<exists>b. ob = Some b \<and> owns b q)"
    using assms(1) unfolding step_ok_def by auto
  have "buf_ok dev h'' b'" by (rule buf_ok_evolves [OF F(2) assms(2)]) simp
  then show ?thesis using F evolves_trans [OF F(1) assms(2)] unfolding step_ok_def by blast
qed

lemma step_ok_refl: "fresh_beyond h \<Longrightarrow> buf_ok dev h b \<Longrightarrow> step_ok dev h (Some b) h b"
  unfolding step_ok_def using evolves_refl by blast

lemma from_vector_ok:
  assumes "fresh_beyond h" "buf_ok dev h b" "fits (length bs)"
  shows "buf_from_vector h b bs \<noteq> Inl OutOfRange"
    "buf_from_vector h b bs = Inr (st, h', b') \<Longrightarrow> step_ok dev h (Some b) h' b'"
proof -
  obtain h1 b1 where 1: "(if b_capacity b < length bs
      then bindE (buf_alloc h b (length bs)) (\<lambda>(_, h1, b1). Inr (h1, b1)) else Inr (h, b)) = Inr (h1, b1)"
    and s: "step_ok dev h (Some b) h1 b1" and cap: "length bs \<le> b_capacity b1"
  proof (cases "b_capacity b < length bs")
    case True
    obtain st h' b' where a: "buf_alloc h b (length bs) = Inr (st, h', b')" "step_ok dev h (Some b) h' b'"
      "b_capacity b' = length bs"
      by (rule alloc_step [OF assms])
    show ?thesis by (rule that [of h' b']) (use True a in simp_all)
  next
    case False
    then show ?thesis using that [of h b] step_ok_refl [OF assms(1,2)] by simp
  qed
  have 2: "fresh_beyond h1" "buf_ok dev h1 b1" using s by (auto simp: step_ok_def evolves_def)
  show "buf_from_vector h b bs \<noteq> Inl OutOfRange"
    using write_within [OF 2(2) cap] unfolding buf_from_vector_def 1
    by (auto simp: bindE_def split: sum.splits if_splits)
  show "step_ok dev h (Some b) h' b'" if "buf_from_vector h b bs = Inr (st, h', b')"
    using that step_ok_evolves [OF s] evolves_write [OF 2(1)] s unfolding buf_from_vector_def 1
    by (auto split: if_splits)
qed

section \<open>Programs keep the invariant\<close>

lemma world_okD:
  assumes "world_ok dev w" "obj w x = Inr b"
  shows "fresh_beyond (the_store w)" "buf_ok dev (the_store w) b" "objs w x = Some b"
  using assms by (auto simp: world_ok_def obj_def split: option.splits)

lemma obj_fault: "obj w x \<noteq> Inl OutOfRange"
  by (simp add: obj_def split: option.splits)

lemma world_ok_store:
  assumes "world_ok dev w" "evolves (the_store w) {} h'"
  shows "world_ok dev (w\<lparr>the_store := h'\<rparr>)"
  using assms buf_ok_evolves [OF _ assms(2)] by (auto simp: world_ok_def evolves_def)

lemma world_ok_forget:
  assumes "world_ok dev w" "evolves (the_store w) F h'" "objs w x = Some b" "\<And>a. a \<in> F \<Longrightarrow> owns b a"
  shows "world_ok dev (w\<lparr>the_store := h', objs := (objs w)(x := None)\<rparr>)"
proof -
  have "world_ok dev (set_obj w h' x (buf_default dev))"
    by (rule world_ok_step [OF assms(1,2)])
      (use assms(3,4) in \<open>auto simp: buf_default_def buf_ok_def owns_def\<close>)
  then show ?thesis unfolding world_ok_def set_obj_def by (simp split: if_splits) metis
qed

lemma sized_ok:
  assumes "fresh_beyond h" "fits n"
  shows "buf_sized dev h n \<noteq> Inl OutOfRange"
    "buf_sized dev h n = Inr (h', b') \<Longrightarrow> step_ok dev h ob h' b'"
proof -
  have new: "fresh_beyond h1 \<and> step_ok dev h ob h1 \<lparr>b_id = dev, b_data = p, own_data = True, b_count = n, b_capacity = n\<rparr>"
    if m: "mem_alloc h n = Inr (h1, p)" for h1 p
  proof -
    note ev = evolves_malloc [OF assms(1) m]
    have "buf_ok dev h1 \<lparr>b_id = dev, b_data = p, own_data = True, b_count = n, b_capacity = n\<rparr>"
      by (rule malloc_buf_ok) (use ev in auto)
    then show ?thesis using ev by (auto simp: step_ok_def owns_def evolves_def)
  qed
  have zero: "step_ok dev h ob h \<lparr>b_id = dev, b_data = None, own_data = True, b_count = n, b_capacity = n\<rparr>"
    using evolves_refl [OF assms(1)] by (auto simp: step_ok_def owns_def buf_ok_def)
  show "buf_sized dev h n \<noteq> Inl OutOfRange"
    by (auto simp: buf_sized_def buf_alloc_def buf_clean_def mem_free_def saber_check_def check_def Let_def malloc_total [OF assms(2)])
  show "step_ok dev h ob h' b'" if "buf_sized dev h n = Inr (h', b')"
    using that new zero
    by (auto simp: buf_sized_def buf_alloc_def buf_clean_def mem_free_def Let_def split: prod.splits if_splits)
qed

text \<open>The size that a statement asks the allocator for.\<close>

fun op_size :: "buffer_op \<Rightarrow> nat" where
  "op_size (Sized x n) = n" | "op_size (Alloc x n) = n" | "op_size (ReAlloc x n) = n"
| "op_size (FromVector x bs) = length bs" | "op_size _ = 0"

text \<open>What a statement must not do: leave the invariant, or access outside a block.\<close>

definition good :: "int \<Rightarrow> world outcome \<Rightarrow> bool" where
  "good dev r \<longleftrightarrow> (\<forall>w'. r = Inr w' \<longrightarrow> world_ok dev w') \<and> r \<noteq> Inl OutOfRange"

lemma good_bind:
  "r \<noteq> Inl OutOfRange \<Longrightarrow> (\<And>y. r = Inr y \<Longrightarrow> good dev (f y)) \<Longrightarrow> good dev (bindE r f)"
  by (cases r) (auto simp: good_def)

lemma good_obj: "(\<And>b. obj w x = Inr b \<Longrightarrow> good dev (f b)) \<Longrightarrow> good dev (bindE (obj w x) f)"
  by (rule good_bind [OF obj_fault])

lemma good_set:
  "world_ok dev w \<Longrightarrow> step_ok dev (the_store w) (objs w x) h b \<Longrightarrow> good dev (Inr (set_obj w h x b))"
  by (simp add: good_def world_ok_set)

lemma good_store:
  "world_ok dev w \<Longrightarrow> evolves (the_store w) {} h \<Longrightarrow> good dev (Inr (w\<lparr>the_store := h\<rparr>))"
  by (simp add: good_def world_ok_store)

lemma exec_declare: "world_ok dev w \<Longrightarrow> good dev (exec dev p2p raw (Declare x) w)"
  unfolding exec.simps
  by (rule good_set) (auto simp: world_ok_def step_ok_def buf_default_def buf_ok_def owns_def intro: evolves_refl)

lemma exec_sized:
  assumes "world_ok dev w" "fits n"
  shows "good dev (exec dev p2p raw (Sized x n) w)"
proof -
  have fr: "fresh_beyond (the_store w)" using assms by (simp add: world_ok_def)
  show ?thesis
    unfolding exec.simps
    by (rule good_bind [OF sized_ok(1) [OF fr assms(2)]])
      (auto intro!: good_set [OF assms(1)] sized_ok(2) [OF fr assms(2)])
qed

lemma exec_array:
  assumes "world_ok dev w"
  shows "good dev (exec dev p2p raw (OfArray x bs) w)"
proof -
  have fr: "fresh_beyond (the_store w)" using assms by (simp add: world_ok_def)
  obtain h p where a: "user_array (the_store w) bs = (h, p)" by fastforce
  have "step_ok dev (the_store w) (objs w x) h
      \<lparr>b_id = dev, b_data = p, own_data = False, b_count = length bs, b_capacity = length bs\<rparr>"
    using evolves_array [OF fr a] by (auto simp: step_ok_def buf_ok_def owns_def)
  then show ?thesis using a good_set [OF assms] by (simp add: buf_of_ptr_def)
qed

lemma shared_from_good:
  assumes "world_ok dev w" "obj w y = Inr buf"
    and "\<And>b'. step_ok dev (the_store w) (objs w x) (the_store w) b' \<Longrightarrow> good dev (f (1, the_store w, b'))"
  shows "good dev (bindE (buf_shared_from dev p2p (the_store w) b buf) f)"
proof -
  note D = world_okD [OF assms(1,2)]
  have "b_id buf = dev" using D(2) by (simp add: buf_ok_def)
  then obtain b' where "buf_shared_from dev p2p (the_store w) b buf = Inr (1, the_store w, b')"
    "step_ok dev (the_store w) (objs w x) (the_store w) b'"
    using shared_from_step [OF D(1,2)] by blast
  then show ?thesis using assms(3) by simp
qed

lemma exec_share:
  assumes "world_ok dev w"
  shows "good dev (exec dev p2p raw (CopyOf x y) w)" "good dev (exec dev p2p raw (Assign x y) w)"
    "good dev (exec dev p2p raw (SharedFrom x y) w)"
proof -
  show "good dev (exec dev p2p raw (CopyOf x y) w)"
    unfolding exec.simps buf_copy_ctor_def buf_assign_def bindE_assoc
    by (intro good_obj good_bind shared_from_good [OF assms, where x = x])
      (auto simp: check_def intro!: good_set [OF assms])
  show "good dev (exec dev p2p raw (Assign x y) w)"
    unfolding exec.simps buf_assign_def bindE_assoc
    by (intro good_obj shared_from_good [OF assms, where x = x]) (auto intro!: good_set [OF assms])
  show "good dev (exec dev p2p raw (SharedFrom x y) w)"
    unfolding exec.simps
    by (intro good_obj shared_from_good [OF assms, where x = x]) (auto intro!: good_set [OF assms])
qed

lemma exec_alloc:
  assumes "world_ok dev w" "fits n"
  shows "good dev (exec dev p2p raw (Alloc x n) w)" "good dev (exec dev p2p raw (ReAlloc x n) w)"
proof -
  note D = world_okD [OF assms(1)]
  show "good dev (exec dev p2p raw (Alloc x n) w)"
    unfolding exec.simps
  proof (rule good_obj)
    fix b assume b: "obj w x = Inr b"
    show "good dev (bindE (buf_alloc (the_store w) b n) (\<lambda>(_, h, b'). Inr (set_obj w h x b')))"
      by (rule alloc_step [OF D(1,2) [OF b] assms(2)]) (auto simp: D(3) [OF b] intro!: good_set [OF assms(1)])
  qed
  show "good dev (exec dev p2p raw (ReAlloc x n) w)"
    unfolding exec.simps
  proof (rule good_obj)
    fix b assume b: "obj w x = Inr b"
    show "good dev (bindE (buf_re_alloc dev (the_store w) b n) (\<lambda>(_, h, b'). Inr (set_obj w h x b')))"
      by (rule re_alloc_step [OF D(1,2) [OF b] assms(2)]) (auto simp: D(3) [OF b] intro!: good_set [OF assms(1)])
  qed
qed

lemma exec_write:
  assumes "world_ok dev w"
  shows "good dev (exec dev p2p raw (MemSet x c n) w)" "good dev (exec dev p2p raw (CopyFrom x y) w)"
    "fits (length bs) \<Longrightarrow> good dev (exec dev p2p raw (FromVector x bs) w)"
proof -
  note D = world_okD [OF assms]
  show "good dev (exec dev p2p raw (MemSet x c n) w)"
    unfolding exec.simps
  proof (rule good_obj)
    fix b assume b: "obj w x = Inr b"
    show "good dev (bindE (buf_mem_set (the_store w) b c n) (\<lambda>(_, h). Inr (w\<lparr>the_store := h\<rparr>)))"
      by (rule good_bind [OF mem_set_ok(1) [OF D(1,2) [OF b]]])
        (auto intro!: good_store [OF assms] mem_set_ok(2) [OF D(1,2) [OF b]])
  qed
  show "good dev (exec dev p2p raw (CopyFrom x y) w)"
    unfolding exec.simps
  proof (intro good_obj)
    fix b buf assume b: "obj w x = Inr b" "obj w y = Inr buf"
    show "good dev (bindE (buf_sync_copy (the_store w) b buf) (\<lambda>(_, h). Inr (w\<lparr>the_store := h\<rparr>)))"
      by (rule good_bind [OF sync_copy_ok(1) [OF D(1,2) [OF b(1)] D(2) [OF b(2)]]])
        (auto intro!: good_store [OF assms] sync_copy_ok(2) [OF D(1,2) [OF b(1)] D(2) [OF b(2)]])
  qed
  show "good dev (exec dev p2p raw (FromVector x bs) w)" if fb: "fits (length bs)"
    unfolding exec.simps
  proof (rule good_obj)
    fix b assume b: "obj w x = Inr b"
    show "good dev (bindE (buf_from_vector (the_store w) b bs) (\<lambda>(_, h, b'). Inr (set_obj w h x b')))"
      by (rule good_bind [OF from_vector_ok(1) [OF D(1,2) [OF b] fb]])
        (auto simp: D(3) [OF b] intro!: good_set [OF assms] from_vector_ok(2) [OF D(1,2) [OF b] fb])
  qed
qed

lemma destroy_ok:
  assumes "world_ok dev w" "objs w x = Some b"
  shows "\<exists>h'. buf_destroy (the_store w) b = Inr h' \<and>
    world_ok dev (w\<lparr>the_store := h', objs := (objs w)(x := None)\<rparr>)"
proof -
  have b: "obj w x = Inr b" using assms(2) by (simp add: obj_def)
  note D = world_okD [OF assms(1) b]
  show ?thesis
  proof (rule clean_ok [OF D(1,2)])
    fix h' b' F
    assume c: "buf_clean (the_store w) b = Inr (h', b')" "evolves (the_store w) F h'" "\<And>a. a \<in> F \<Longrightarrow> owns b a"
    show ?thesis
      using c(1) world_ok_forget [OF assms(1) c(2) assms(2) c(3)] by (simp add: buf_destroy_def)
  qed
qed

lemma exec_destroy:
  assumes "world_ok dev w"
  shows "good dev (exec dev p2p raw (Destroy x) w)"
  unfolding exec.simps
proof (rule good_obj)
  fix b assume b: "obj w x = Inr b"
  show "good dev (bindE (buf_destroy (the_store w) b) (\<lambda>h. Inr (w\<lparr>the_store := h, objs := (objs w)(x := None)\<rparr>)))"
    using destroy_ok [OF assms world_okD(3) [OF assms b]] by (auto simp: good_def)
qed

lemmas exec_good = exec_declare exec_sized exec_array exec_share exec_alloc exec_write exec_destroy

lemma exec_ok: "world_ok dev w \<Longrightarrow> fits (op_size op) \<Longrightarrow> good dev (exec dev p2p raw op w)"
  by (cases op) (simp_all only: exec_good op_size.simps)

lemma new_world_ok: "world_ok dev (new_world g)"
  by (simp add: world_ok_def new_world_def fresh_beyond_def)

lemma program_ok:
  assumes "world_ok dev w" "\<forall>op \<in> set ops. fits (op_size op)"
  shows "good dev (foldE (exec dev p2p raw) ops w)"
  using assms
proof (induction ops arbitrary: w)
  case Nil
  then show ?case by (simp add: good_def)
next
  case (Cons op ops)
  from exec_ok [OF Cons.prems(1), of op p2p raw] Cons.prems(2) have
    "exec dev p2p raw op w \<noteq> Inl OutOfRange" "\<And>w'. exec dev p2p raw op w = Inr w' \<Longrightarrow> world_ok dev w'"
    by (auto simp: good_def)
  then show ?case unfolding foldE.simps by (intro good_bind Cons.IH) (use Cons.prems(2) in auto)
qed

end
