(* ===== verification/Buffer_Properties.thy ===== *)
theory Buffer_Properties
  imports Buffer_Facts
begin

text \<open>
  The properties of the memory layer: programs over buffers on one device are free of double
  frees and of accesses outside a block, aligned addresses, and the ways in which buffers of two
  devices and failed allocations break this.
\<close>

text \<open>C6: A program that declares, copies, assigns, fills, re-allocates and destroys buffers on one
  device, in any order and whatever allocations fail, never accesses a block outside its bounds, and
  in every state it reaches the destructor of every buffer returns: no block is freed twice. No
  request may wrap around in \<open>fast_malloc\<close>, which adds 71 to it: see \<open>malloc_overruns\<close>.\<close>

theorem buffers_safe_on_one_device:
  assumes "foldE (exec dev p2p raw) ops (new_world g) = r" "\<forall>op \<in> set ops. 71 + op_size op < 2 ^ 64"
  shows "r \<noteq> Inl OutOfRange \<and>
    (\<forall>w x b. r = Inr w \<longrightarrow> objs w x = Some b \<longrightarrow> (\<exists>h. buf_destroy (the_store w) b = Inr h))"
proof -
  have "good dev r" using program_ok [OF new_world_ok, of ops dev p2p raw g] assms by (simp add: fits_def)
  then show ?thesis using destroy_ok unfolding good_def by blast
qed

theorem buffers_safe_on_one_device_witness:
  "\<exists>w b h. foldE (exec 0 host_p2p (buf_default 0)) [Sized ''a'' 4, CopyOf ''b'' ''a'', ReAlloc ''a'' 8] (new_world (\<lambda>_. True)) = Inr w
     \<and> objs w ''b'' = Some b \<and> \<not> own_data b \<and> buf_destroy (the_store w) b = Inr h"
proof -
  let ?r = "foldE (exec 0 host_p2p (buf_default 0)) [Sized ''a'' 4, CopyOf ''b'' ''a'', ReAlloc ''a'' 8] (new_world (\<lambda>_. True))"
  let ?b = "\<lparr>b_id = 0, b_data = Some 0, own_data = False, b_count = 4, b_capacity = 4\<rparr>"
  have r: "\<exists>w. ?r = Inr w \<and> objs w ''b'' = Some ?b"
    by (simp add: new_world_def buf_sized_def buf_alloc_def buf_clean_def malloc_total fits_def mem_free_def
        fast_free_def block_at_def Let_def saber_check_def check_def set_obj_def obj_def buf_copy_ctor_def buf_assign_def
        buf_shared_from_def buf_re_alloc_def)
  then obtain w where w: "?r = Inr w" "objs w ''b'' = Some ?b" by blast
  have "\<forall>op \<in> set [Sized ''a'' 4, CopyOf ''b'' ''a'', ReAlloc ''a'' 8]. 71 + op_size op < 2 ^ 64" by simp
  with w buffers_safe_on_one_device [OF w(1)] have "\<exists>h. buf_destroy (the_store w) ?b = Inr h" by blast
  with w show ?thesis by auto
qed

text \<open>C32: Assigning a buffer of another device to a buffer that shares a live block, when the capacity
  suffices, makes it an owner of the block: its destructor frees the block, and the destructor of the
  buffer that owned it before frees it again.\<close>

theorem foreign_assign_claims_shared_block:
  assumes "owns c p" "b_data b = Some p" "\<not> own_data b" "0 < b_capacity b" "b_id buf \<noteq> dev" "b_count buf \<le> b_capacity b"
    and "p2p h (Some p) (b_data buf) (b_count buf) = Inr h'" "blocks h' p \<noteq> None"
  shows "\<exists>b' h1. buf_assign dev p2p h b buf = Inr (h', b') \<and> own_data b' \<and> b_data b' = Some p \<and>
    buf_destroy h' b' = Inr h1 \<and> buf_destroy h1 c = Inl DanglingDeref"
proof -
  define b' where "b' = b\<lparr>b_id := dev, own_data := True, b_count := b_count buf\<rparr>"
  have "buf_assign dev p2p h b buf = Inr (h', b')"
    using assms by (simp add: b'_def buf_assign_def buf_shared_from_def buf_re_alloc_def saber_check_def)
  moreover have "buf_destroy h' b' = Inr (h'\<lparr>blocks := (blocks h')(p := None)\<rparr>)"
    using assms(2,4,8) by (auto simp: b'_def buf_destroy_def buf_clean_def mem_free_def fast_free_def block_at_def)
  moreover have "buf_destroy (h'\<lparr>blocks := (blocks h')(p := None)\<rparr>) c = Inl DanglingDeref"
    using assms(1) by (simp add: owns_def buf_destroy_def buf_clean_def mem_free_def fast_free_def block_at_def)
  ultimately show ?thesis using assms(2) by (intro exI conjI) (auto simp: b'_def)
qed

theorem foreign_assign_claims_shared_block_witness:
  "\<exists>h b h'. buf_assign 0 host_p2p h \<lparr>b_id = 0, b_data = Some 3, own_data = False, b_count = 4, b_capacity = 4\<rparr>
     \<lparr>b_id = 1, b_data = Some 5, own_data = True, b_count = 2, b_capacity = 2\<rparr> = Inr (h, b) \<and>
     buf_destroy h b = Inr h' \<and>
     buf_destroy h' \<lparr>b_id = 0, b_data = Some 3, own_data = True, b_count = 4, b_capacity = 4\<rparr> = Inl DanglingDeref"
proof -
  define h where "h = \<lparr>blocks = [3 \<mapsto> [0, 0, 0, 0], 5 \<mapsto> [0, 0]], next_block = 6, grants = \<lambda>_. True\<rparr>"
  show ?thesis
    using foreign_assign_claims_shared_block [of "\<lparr>b_id = 0, b_data = Some 3, own_data = True, b_count = 4, b_capacity = 4\<rparr>" 3
      "\<lparr>b_id = 0, b_data = Some 3, own_data = False, b_count = 4, b_capacity = 4\<rparr>"
      "\<lparr>b_id = 1, b_data = Some 5, own_data = True, b_count = 2, b_capacity = 2\<rparr>" 0 host_p2p h h]
    by (simp add: host_p2p_def owns_def h_def) blast
qed

text \<open>C33: The address that \<open>fast_malloc\<close> returns is a multiple of 64, leaves room in front of it for the
  pointer to the block, and the payload ends inside the block, provided the request and the block do
  not wrap around the address space.\<close>

theorem payload_address_aligned:
  assumes "unat p + (71 + unat n) < 2 ^ 64"
  shows "unat (payload_address p) mod 64 = 0 \<and> unat p + 8 \<le> unat (payload_address p) \<and>
    unat (payload_address p) + unat n \<le> unat p + unat (malloc_request n)"
proof -
  have r: "unat (malloc_request n) = 71 + unat n"
    using assms by (simp add: malloc_request_def malloc_offset_def unat_word_ariths)
  show ?thesis using payload_address_bounds [of p] assms unfolding r by simp
qed

theorem payload_address_aligned_witness:
  "unat (payload_address 0x1010) = 0x1040 \<and> unat (payload_address 0x1010) + 100 \<le> 0x1010 + unat (malloc_request 100)"
proof -
  have "unat (payload_address 0x1010) = 0x1040" by (simp add: payload_address_def malloc_offset_def)
  then show ?thesis using payload_address_aligned [of "0x1010" 100] by simp
qed

text \<open>When the allocation fails, \<open>Buffer::re_alloc\<close> still reports success: it leaves the buffer with
  the requested size and a null pointer, and the next byte written through it is a null dereference.\<close>

lemma re_alloc_ignores_failure:
  assumes "b_id b = dev" "b_capacity b < n" "own_data b" "buf_clean h b = Inr (h1, b1)"
    and "\<not> grants h1 (next_block h1)"
  shows "\<exists>h' b'. buf_re_alloc dev h b n = Inr (SaberSuccess, h', b') \<and> b_data b' = None \<and>
    b_count b' = n \<and> b_capacity b' = n \<and> buf_mem_set h' b' c n = Inl NullDeref"
proof -
  have "own_data b1" using assms(3,4) by (auto simp: buf_clean_def split: if_splits)
  moreover have "n > 0" using assms(2) by simp
  ultimately show ?thesis
    using assms by (simp add: buf_re_alloc_def mem_alloc_def fast_malloc_def Let_def buf_mem_set_def
        mem_set_def write_bytes_def block_at_def)
qed

lemma re_alloc_ignores_failure_witness:
  "\<exists>h' b'. buf_re_alloc 0 (the_store (new_world (\<lambda>_. False))) (buf_default 0) 16 = Inr (SaberSuccess, h', b') \<and> b_data b' = None \<and>
    b_count b' = 16 \<and> b_capacity b' = 16 \<and> buf_mem_set h' b' 0 16 = Inl NullDeref"
  by (rule re_alloc_ignores_failure [of _ _ _ _ "the_store (new_world (\<lambda>_. False))" "buf_default 0"])
    (simp_all add: buf_default_def buf_clean_def new_world_def)

end
