(* ===== verification/Saber_Tensor.thy ===== *)
theory Saber_Tensor
  imports Saber_Shape Device_Buffer
begin

text \<open>
  Class \<open>Tensor\<close> of \<open>saber/core/tensor.h\<close> for the host targets, with the element types
  of \<open>saber/saber_types.h\<close>, their lengths (\<open>saber/core/data_traits.h\<close>) and the sharing of
  buffers of \<open>saber/core/buffer.h\<close>. A tensor has the shape of the memory (\<open>t_shape\<close>), the
  shape of the region it stands for (\<open>t_valid\<close>) and the position of the region
  (\<open>t_offset\<close>), and a shared pointer to a buffer: a number, \<open>None\<close> for null. The buffers
  are in a table beside the store of their memory; an entry stays when no tensor refers to it any
  more.

  A parameter of type \<open>Shape\<close> is copied on entry; \<open>None\<close> stands for the default
  argument \<open>Shape()\<close>. Events are not modelled: on the host they do nothing.
\<close>

section \<open>Element types\<close>

datatype data_type = AK_INVALID | AK_HALF | AK_FLOAT | AK_DOUBLE | AK_INT8 | AK_INT16 | AK_INT32
  | AK_INT64 | AK_UINT8 | AK_UINT16 | AK_UINT32 | AK_UINT64 | AK_STRING | AK_BOOL | AK_SHAPE | AK_TENSOR

fun type_length :: "data_type \<Rightarrow> nat" where
  "type_length AK_INT8 = 1" | "type_length AK_UINT8 = 1"
| "type_length AK_INT16 = 2" | "type_length AK_UINT16 = 2"
| "type_length AK_INT32 = 4" | "type_length AK_UINT32 = 4"
| "type_length AK_INT64 = 8" | "type_length AK_UINT64 = 8"
| "type_length AK_HALF = 2" | "type_length AK_FLOAT = 4" | "type_length AK_DOUBLE = 8"
| "type_length _ = 4"

fun get_type_size :: "data_type \<Rightarrow> nat" where
  "get_type_size AK_HALF = 2" | "get_type_size AK_FLOAT = 4" | "get_type_size AK_DOUBLE = 8"
| "get_type_size AK_INT8 = 1" | "get_type_size AK_INT16 = 2" | "get_type_size AK_INT32 = 4"
| "get_type_size AK_UINT8 = 1" | "get_type_size _ = 0"

text \<open>The product of a \<open>long long\<close> and a \<open>size_t\<close> is a \<open>size_t\<close> of 64 bits.\<close>

definition size_mult :: "int \<Rightarrow> nat \<Rightarrow> nat" where
  "size_mult c len = nat ((c * int len) mod 2 ^ 64)"

section \<open>The buffers of a process\<close>

record memory =
  ram :: store
  bufs :: "nat \<Rightarrow> buffer option"
  next_buf :: nat

definition new_buf :: "memory \<Rightarrow> store \<Rightarrow> buffer \<Rightarrow> memory \<times> nat" where
  "new_buf m h b = (m\<lparr>ram := h, bufs := (bufs m)(next_buf m \<mapsto> b), next_buf := Suc (next_buf m)\<rparr>,
     next_buf m)"

definition buf_at :: "memory \<Rightarrow> nat option \<Rightarrow> buffer outcome" where
  "buf_at m p = (case p of None \<Rightarrow> Inl NullDeref
     | Some k \<Rightarrow> (case bufs m k of None \<Rightarrow> Inl DanglingDeref | Some b \<Rightarrow> Inr b))"

definition put_buf :: "memory \<Rightarrow> nat option \<Rightarrow> store \<Rightarrow> buffer \<Rightarrow> memory" where
  "put_buf m p h b = m\<lparr>ram := h, bufs := (bufs m)(the p \<mapsto> b)\<rparr>"

text \<open>\<open>MemShare\<close>: on the host the pointer is shared; on a device when the ids agree; otherwise
  the data is copied, by the wrapper's \<open>copy\<close>.\<close>

type_synonym copier = "store \<Rightarrow> buffer \<Rightarrow> buffer \<Rightarrow> (saber_status \<times> store) outcome"

definition mem_share_host :: "nat option \<Rightarrow> (int \<times> nat option)" where
  "mem_share_host src = (1, src)"

definition mem_share_copy ::
    "int \<Rightarrow> copier \<Rightarrow> memory \<Rightarrow> nat option \<Rightarrow> nat option \<Rightarrow> (int \<times> nat option \<times> memory) outcome" where
  "mem_share_copy dev copy m dst src =
     bindE (buf_at m dst) (\<lambda>d. bindE (buf_at m src) (\<lambda>s.
     bindE (buf_re_alloc dev (ram m) d (b_count s)) (\<lambda>(st, h, d').
     bindE (saber_check st) (\<lambda>_.
     let m' = put_buf m dst h d'
     in bindE (buf_at m' src) (\<lambda>s'.
        bindE (copy h d' s') (\<lambda>(st', h').
        bindE (saber_check st') (\<lambda>_. Inr (0, dst, m'\<lparr>ram := h'\<rparr>))))))))"

definition mem_share_device ::
    "int \<Rightarrow> copier \<Rightarrow> memory \<Rightarrow> nat option \<Rightarrow> nat option \<Rightarrow> (int \<times> nat option \<times> memory) outcome" where
  "mem_share_device dev copy m dst src =
     bindE (buf_at m dst) (\<lambda>d. bindE (buf_at m src) (\<lambda>s.
     if b_id d = b_id s then Inr (1, src, m) else mem_share_copy dev copy m dst src))"

datatype transfer = HtoH | DtoD | HtoD | DtoH

definition buffer_mem_share :: "int \<Rightarrow> transfer \<Rightarrow> copier \<Rightarrow> memory \<Rightarrow> nat option \<Rightarrow> nat option
    \<Rightarrow> (int \<times> nat option \<times> memory) outcome" where
  "buffer_mem_share dev flag copy m dst src =
     bindE (check ((src = None) = False)) (\<lambda>_.
     let (m1, dst1) = (if dst = None
                       then let (m', k) = new_buf m (ram m) (buf_default dev) in (m', Some k)
                       else (m, dst))
     in (case flag of
           HtoH \<Rightarrow> let (n, p) = mem_share_host src in Inr (n, p, m1)
         | DtoD \<Rightarrow> mem_share_device dev copy m1 dst1 src
         | _ \<Rightarrow> mem_share_copy dev copy m1 dst1 src))"

section \<open>The state of a tensor\<close>

text \<open>A \<open>float\<close> is its 32-bit pattern, stored with the low byte first.\<close>

type_synonym float_bits = "32 word"

definition float_bytes :: "float_bits \<Rightarrow> byte list" where
  "float_bytes f = map (\<lambda>k. ucast (drop_bit (8 * k) f)) [0, 1, 2, 3]"

record tensor =
  t_dtype :: data_type
  t_type_len :: nat
  t_buf_dtype :: data_type
  t_shape :: shape
  t_valid :: shape
  t_offset :: shape
  t_buf :: "nat option"
  t_subbuf :: bool
  t_shared :: bool
  t_seq :: "int list list"
  t_scale :: "float_bits list"
  t_scale_buf :: buffer
  t_positive :: bool

text \<open>The initialisers of the members.\<close>

definition tensor_init :: "int \<Rightarrow> tensor outcome" where
  "tensor_init dev =
     bindE shape_default (\<lambda>s.
     Inr \<lparr>t_dtype = AK_FLOAT, t_type_len = 4, t_buf_dtype = AK_FLOAT, t_shape = s, t_valid = s, t_offset = s,
          t_buf = None, t_subbuf = False, t_shared = False, t_seq = [], t_scale = [],
          t_scale_buf = buf_default dev, t_positive = False\<rparr>)"

definition tensor_default :: "int \<Rightarrow> memory \<Rightarrow> data_type \<Rightarrow> (memory \<times> tensor) outcome" where
  "tensor_default dev m type =
     bindE (tensor_init dev) (\<lambda>t.
     let (m', k) = new_buf m (ram m) (buf_default dev)
     in Inr (m', t\<lparr>t_dtype := type, t_buf_dtype := type, t_type_len := type_length type,
                   t_buf := Some k, t_subbuf := False\<rparr>))"

text \<open>\<open>_shape = shape; _valid_shape = shape; _offset = Shape::zero(shape)\<close>\<close>

definition set_shapes :: "tensor \<Rightarrow> shape \<Rightarrow> tensor outcome" where
  "set_shapes t shape =
     bindE (shape_assign (t_shape t) shape) (\<lambda>s1.
     bindE (shape_assign (t_valid t) shape) (\<lambda>s2.
     bindE (shape_zero shape) (\<lambda>z. bindE (shape_assign (t_offset t) z) (\<lambda>s3.
     Inr (t\<lparr>t_shape := s1, t_valid := s2, t_offset := s3\<rparr>)))))"

definition tensor_of_shape ::
    "int \<Rightarrow> memory \<Rightarrow> shape \<Rightarrow> data_type \<Rightarrow> (memory \<times> tensor) outcome" where
  "tensor_of_shape dev m shape0 type =
     bindE (tensor_init dev) (\<lambda>t0. bindE (shape_copy shape0) (\<lambda>shape.
     bindE (set_shapes t0 shape) (\<lambda>t.
     let len = type_length type
     in bindE (count shape) (\<lambda>c.
        bindE (buf_sized dev (ram m) (size_mult c len)) (\<lambda>(h, b).
        let (m', k) = new_buf m h b
        in Inr (m', t\<lparr>t_dtype := type, t_buf_dtype := type, t_type_len := len, t_buf := Some k,
                      t_shared := False, t_subbuf := False\<rparr>))))))"

definition tensor_of_ptr :: "int \<Rightarrow> transfer \<Rightarrow> copier \<Rightarrow> memory \<Rightarrow> ptr \<Rightarrow> int \<Rightarrow> shape \<Rightarrow> data_type
    \<Rightarrow> (memory \<times> tensor) outcome" where
  "tensor_of_ptr dev flag copy m data ident shape0 type =
     bindE (tensor_init dev) (\<lambda>t0. bindE (shape_copy shape0) (\<lambda>shape.
     bindE (set_shapes t0 shape) (\<lambda>t.
     let len = type_length type
     in bindE (count shape) (\<lambda>c.
        bindE (buf_of_ptr dev data (size_mult c len) ident) (\<lambda>b.
        let (m1, k) = new_buf m (ram m) b
        in bindE (buffer_mem_share dev flag copy m1 None (Some k)) (\<lambda>(_, p, m2).
           Inr (m2, t\<lparr>t_dtype := type, t_type_len := len, t_buf := p, t_shared := True, t_subbuf := False\<rparr>)))))))"

definition tensor_copy :: "int \<Rightarrow> tensor \<Rightarrow> tensor outcome" where
  "tensor_copy dev src =
     bindE (tensor_init dev) (\<lambda>t.
     bindE (shape_assign (t_shape t) (t_shape src)) (\<lambda>s1.
     bindE (shape_assign (t_valid t) (t_valid src)) (\<lambda>s2.
     bindE (shape_assign (t_offset t) (t_offset src)) (\<lambda>s3.
     Inr (t\<lparr>t_shape := s1, t_valid := s2, t_offset := s3, t_dtype := t_dtype src,
            t_buf_dtype := t_buf_dtype src, t_type_len := t_type_len src, t_buf := t_buf src,
            t_subbuf := t_subbuf src, t_shared := t_shared src, t_seq := t_seq src,
            t_scale := t_scale src\<rparr>)))))"

section \<open>Scale, type and layout\<close>

definition set_scale :: "memory \<Rightarrow> tensor \<Rightarrow> float_bits list \<Rightarrow> (memory \<times> tensor) outcome" where
  "set_scale m t scale =
     bindE (buf_from_vector (ram m) (t_scale_buf t) (concat (map float_bytes scale))) (\<lambda>(_, h, b).
     Inr (m\<lparr>ram := h\<rparr>, t\<lparr>t_scale := scale, t_scale_buf := b\<rparr>))"

definition get_scale :: "tensor \<Rightarrow> float_bits list" where
  "get_scale t = t_scale t"

definition get_scale_data :: "tensor \<Rightarrow> ptr" where
  "get_scale_data t = b_data (t_scale_buf t)"

definition set_dtype ::
    "int \<Rightarrow> memory \<Rightarrow> tensor \<Rightarrow> data_type \<Rightarrow> (saber_status \<times> memory \<times> tensor) outcome" where
  "set_dtype dev m t type =
     (let len = type_length type; t1 = t\<lparr>t_dtype := type, t_type_len := len\<rparr>
      in bindE (buf_at m (t_buf t)) (\<lambda>b. bindE (count (t_shape t)) (\<lambda>c.
         if b_capacity b < size_mult c len then
           (if t_shared t \<or> t_subbuf t then Inl CheckFailed
            else bindE (buf_re_alloc dev (ram m) b (size_mult c len)) (\<lambda>(_, h, b').
                 Inr (SaberSuccess, put_buf m (t_buf t) h b', t1\<lparr>t_buf_dtype := type\<rparr>)))
         else Inr (SaberSuccess, m, t1))))"

definition get_dtype :: "tensor \<Rightarrow> data_type" where
  "get_dtype t = t_dtype t"

definition get_dtype_size :: "tensor \<Rightarrow> nat" where
  "get_dtype_size t = get_type_size (t_dtype t)"

definition get_buf_dtype :: "tensor \<Rightarrow> data_type" where
  "get_buf_dtype t = t_buf_dtype t"

definition get_buf_dtype_size :: "tensor \<Rightarrow> nat" where
  "get_buf_dtype_size t = get_type_size (t_buf_dtype t)"

definition tensor_set_layout ::
    "tensor \<Rightarrow> layout_type \<Rightarrow> int list \<Rightarrow> (saber_status \<times> tensor) outcome" where
  "tensor_set_layout t layout data =
     bindE (set_layout (t_valid t) layout data) (\<lambda>s. Inr (SaberSuccess, t\<lparr>t_valid := s\<rparr>))"

definition tensor_get_layout :: "tensor \<Rightarrow> layout_type outcome" where
  "tensor_get_layout t = get_layout (t_valid t)"

section \<open>Shapes of the memory and of the region\<close>

definition opt_shape :: "shape option \<Rightarrow> shape outcome" where
  "opt_shape os = (case os of None \<Rightarrow> shape_default | Some s \<Rightarrow> shape_copy s)"

definition check_positive :: "shape \<Rightarrow> unit outcome" where
  "check_positive s = bindE (shape_zero s) (\<lambda>z. check (shape_gt s z))"

text \<open>
  What the shape setters do last. A tensor of its own takes the region as its memory when the
  memory is smaller (\<open>smaller\<close> says whether equal counts count as smaller) and moves the offset
  to zero; a region of another tensor has to lie inside its memory. \<open>v\<close> is the parameter
  \<open>valid_shape\<close>, \<open>z\<close> the shape that the memory is compared with.
\<close>

definition place_region :: "(int \<Rightarrow> int \<Rightarrow> bool) \<Rightarrow> tensor \<Rightarrow> shape \<Rightarrow> shape \<Rightarrow> tensor outcome" where
  "place_region smaller t v z =
     (if \<not> t_subbuf t then
        bindE (count (t_shape t)) (\<lambda>c. bindE (count (t_valid t)) (\<lambda>cv.
        bindE (if smaller c cv then shape_assign (t_shape t) (t_valid t) else Inr (t_shape t)) (\<lambda>s.
        bindE (shape_zero v) (\<lambda>zero. bindE (shape_assign (t_offset t) zero) (\<lambda>off.
        Inr (t\<lparr>t_shape := s, t_offset := off\<rparr>))))))
      else
        bindE (shape_zero z) (\<lambda>zero. bindE (shape_eq (t_shape t) zero) (\<lambda>e.
        bindE (if e then shape_assign (t_shape t) v else Inr (t_shape t)) (\<lambda>s.
        bindE (shape_add (t_valid t) (t_offset t)) (\<lambda>sum.
        bindE (check (shape_le sum s)) (\<lambda>_.
        Inr (t\<lparr>t_shape := s\<rparr>)))))))"

text \<open>\<open>if (shape.dims() > 0) ...; if (offset.dims() > 0 && _is_subbuf) ...\<close>, with the
  assignment or \<open>set_shape_without_layout\<close> as \<open>upd\<close>.\<close>

definition take_shapes ::
    "(shape \<Rightarrow> shape \<Rightarrow> shape outcome) \<Rightarrow> tensor \<Rightarrow> shape \<Rightarrow> shape \<Rightarrow> tensor outcome" where
  "take_shapes upd t shape offset =
     bindE (if dims shape > 0 then upd (t_shape t) shape else Inr (t_shape t)) (\<lambda>s.
     bindE (if dims offset > 0 \<and> t_subbuf t then upd (t_offset t) offset else Inr (t_offset t)) (\<lambda>off.
     Inr (t\<lparr>t_shape := s, t_offset := off\<rparr>)))"

definition set_shape :: "tensor \<Rightarrow> shape \<Rightarrow> shape option \<Rightarrow> shape option \<Rightarrow> (saber_status \<times> tensor) outcome" where
  "set_shape t valid0 shape0 offset0 =
     bindE (shape_copy valid0) (\<lambda>v. bindE (opt_shape shape0) (\<lambda>shape. bindE (opt_shape offset0) (\<lambda>offset.
     bindE (take_shapes shape_assign t shape offset) (\<lambda>t1.
     bindE (check_positive v) (\<lambda>_.
     bindE (shape_assign (t_valid t1) v) (\<lambda>vs.
     bindE (place_region (\<le>) (t1\<lparr>t_valid := vs\<rparr>) v vs) (\<lambda>t2.
     Inr (SaberSuccess, t2))))))))"

definition tset_shape_without_layout ::
    "tensor \<Rightarrow> shape \<Rightarrow> shape option \<Rightarrow> shape option \<Rightarrow> (saber_status \<times> tensor) outcome" where
  "tset_shape_without_layout t valid0 shape0 offset0 =
     bindE (shape_copy valid0) (\<lambda>v. bindE (opt_shape shape0) (\<lambda>shape. bindE (opt_shape offset0) (\<lambda>offset.
     bindE (take_shapes set_shape_without_layout t shape offset) (\<lambda>t1.
     bindE (check_positive v) (\<lambda>_.
     bindE (set_shape_without_layout (t_valid t1) v) (\<lambda>vs.
     bindE (place_region (\<le>) (t1\<lparr>t_valid := vs\<rparr>) v vs) (\<lambda>t2.
     Inr (SaberSuccess, t2))))))))"

definition re_alloc ::
    "memory \<Rightarrow> tensor \<Rightarrow> shape \<Rightarrow> data_type \<Rightarrow> (saber_status \<times> memory \<times> tensor) outcome" where
  "re_alloc m t shape0 type =
     bindE (shape_copy shape0) (\<lambda>shape.
     bindE (check ((t_shared t \<or> t_subbuf t) = False)) (\<lambda>_.
     let t1 = (if type \<noteq> AK_INVALID then t\<lparr>t_dtype := type, t_buf_dtype := type\<rparr> else t)\<lparr>t_type_len := type_length type\<rparr>
     in bindE (shape_assign (t_shape t1) shape) (\<lambda>s1.
        bindE (shape_assign (t_valid t1) s1) (\<lambda>s2.
        bindE (shape_zero s1) (\<lambda>z. bindE (shape_assign (t_offset t1) z) (\<lambda>s3.
        bindE (buf_at m (t_buf t)) (\<lambda>b. bindE (count s1) (\<lambda>c.
        bindE (buf_alloc (ram m) b (size_mult c (t_type_len t1))) (\<lambda>(_, h, b').
        Inr (SaberSuccess, put_buf m (t_buf t) h b',
             t1\<lparr>t_shape := s1, t_valid := s2, t_offset := s3\<rparr>))))))))))"

definition reshape :: "int \<Rightarrow> memory \<Rightarrow> tensor \<Rightarrow> shape \<Rightarrow> shape option \<Rightarrow> shape option
    \<Rightarrow> (saber_status \<times> memory \<times> tensor) outcome" where
  "reshape dev m t valid0 shape0 offset0 =
     bindE (shape_copy valid0) (\<lambda>v. bindE (opt_shape shape0) (\<lambda>shape. bindE (opt_shape offset0) (\<lambda>offset.
     bindE (take_shapes shape_assign t shape offset) (\<lambda>t1.
     bindE (check_positive v) (\<lambda>_.
     bindE (shape_assign (t_valid t1) v) (\<lambda>vs.
     bindE (place_region (<) (t1\<lparr>t_valid := vs\<rparr>) v v) (\<lambda>t2.
     bindE (buf_at m (t_buf t2)) (\<lambda>b. bindE (count (t_shape t2)) (\<lambda>c.
     let need = size_mult c (t_type_len t2)
     in bindE (check ((need > b_capacity b \<and> (t_subbuf t2 \<or> t_shared t2)) = False)) (\<lambda>_.
        bindE (buf_re_alloc dev (ram m) b need) (\<lambda>(st, h, b').
        bindE (saber_check st) (\<lambda>_.
        Inr (SaberSuccess, put_buf m (t_buf t2) h b', t2)))))))))))))"

section \<open>Accessors\<close>

definition is_continue_mem :: "tensor \<Rightarrow> bool outcome" where
  "is_continue_mem t = (if \<not> t_subbuf t then Inr True else is_continue (t_valid t) (t_shape t))"

definition capacity :: "memory \<Rightarrow> tensor \<Rightarrow> nat outcome" where
  "capacity m t = bindE (buf_at m (t_buf t)) (\<lambda>b. Inr (b_capacity b))"

definition tensor_count :: "tensor \<Rightarrow> int \<Rightarrow> int \<Rightarrow> int outcome" where
  "tensor_count t start end1 = count_range (t_shape t) start end1"

definition count_valid :: "tensor \<Rightarrow> int \<Rightarrow> int \<Rightarrow> int outcome" where
  "count_valid t start end1 = count_range (t_valid t) start end1"

definition tensor_size :: "tensor \<Rightarrow> int outcome" where
  "tensor_size t = count (t_shape t)"

definition valid_size :: "tensor \<Rightarrow> int outcome" where
  "valid_size t = count (t_valid t)"

definition tensor_dims :: "tensor \<Rightarrow> int" where
  "tensor_dims t = dims (t_valid t)"

definition tensor_shape :: "tensor \<Rightarrow> shape outcome" where
  "tensor_shape t = shape_copy (t_shape t)"

definition valid_shape :: "tensor \<Rightarrow> shape outcome" where
  "valid_shape t = shape_copy (t_valid t)"

definition tensor_offset :: "tensor \<Rightarrow> shape outcome" where
  "tensor_offset t = shape_copy (t_offset t)"

definition tensor_stride :: "tensor \<Rightarrow> shape outcome" where
  "tensor_stride t = (if t_subbuf t then get_stride (t_shape t) else get_stride (t_valid t))"

definition start_index :: "tensor \<Rightarrow> int outcome" where
  "start_index t =
     (if \<not> t_subbuf t then Inr 0
      else bindE (tensor_stride t) (\<lambda>stride.
           foldE (\<lambda>i idx. bindE (at (dat (t_offset t)) i) (\<lambda>o_i. bindE (at (dat stride) i) (\<lambda>s_i.
             Inr (idx + o_i * s_i)))) [0..dims stride - 1] 0))"

definition data_offset :: "tensor \<Rightarrow> int outcome" where
  "data_offset t = start_index t"

definition get_seq_offset :: "tensor \<Rightarrow> int list list" where
  "get_seq_offset t = t_seq t"

definition set_seq_offset :: "tensor \<Rightarrow> int list list \<Rightarrow> tensor" where
  "set_seq_offset t seq = t\<lparr>t_seq := seq\<rparr>"

definition device_id :: "memory \<Rightarrow> tensor \<Rightarrow> int outcome" where
  "device_id m t = bindE (buf_at m (t_buf t)) (\<lambda>b. Inr (b_id b))"

definition tensor_num :: "tensor \<Rightarrow> int outcome" where
  "tensor_num t = num (t_valid t)"

definition tensor_num_index :: "tensor \<Rightarrow> int outcome" where
  "tensor_num_index t = num_index (t_valid t)"

definition tensor_channel :: "tensor \<Rightarrow> int outcome" where
  "tensor_channel t = channel (t_valid t)"

definition tensor_channel_index :: "tensor \<Rightarrow> int outcome" where
  "tensor_channel_index t = channel_index (t_valid t)"

definition tensor_height :: "tensor \<Rightarrow> int outcome" where
  "tensor_height t = height (t_valid t)"

definition tensor_height_index :: "tensor \<Rightarrow> int outcome" where
  "tensor_height_index t = height_index (t_valid t)"

definition tensor_width :: "tensor \<Rightarrow> int outcome" where
  "tensor_width t = width (t_valid t)"

definition tensor_width_index :: "tensor \<Rightarrow> int outcome" where
  "tensor_width_index t = width_index (t_valid t)"

definition grow_shape :: "tensor \<Rightarrow> shape \<Rightarrow> tensor outcome" where
  "grow_shape t v =
     bindE (count (t_shape t)) (\<lambda>c. bindE (count v) (\<lambda>cv.
     bindE (if c < cv then shape_assign (t_shape t) v else Inr (t_shape t)) (\<lambda>s.
     Inr (t\<lparr>t_valid := v, t_shape := s\<rparr>))))"

definition tensor_set_num :: "tensor \<Rightarrow> int \<Rightarrow> tensor outcome" where
  "tensor_set_num t n = bindE (set_num (t_valid t) n) (grow_shape t)"

definition tensor_set_channel :: "tensor \<Rightarrow> int \<Rightarrow> tensor outcome" where
  "tensor_set_channel t c = bindE (set_channel (t_valid t) c) (grow_shape t)"

definition tensor_set_height :: "tensor \<Rightarrow> int \<Rightarrow> tensor outcome" where
  "tensor_set_height t h = bindE (set_height (t_valid t) h) (grow_shape t)"

definition tensor_set_width :: "tensor \<Rightarrow> int \<Rightarrow> tensor outcome" where
  "tensor_set_width t w = bindE (set_width (t_valid t) w) (grow_shape t)"

definition get_posstive_flag :: "tensor \<Rightarrow> bool" where
  "get_posstive_flag t = t_positive t"

definition set_posstive_flag :: "tensor \<Rightarrow> bool \<Rightarrow> tensor" where
  "set_posstive_flag t f = t\<lparr>t_positive := f\<rparr>"

text \<open>\<open>mutable_data\<close> and \<open>data\<close>; the targets modelled are not \<open>MLU\<close>.\<close>

definition tensor_data :: "int \<Rightarrow> memory \<Rightarrow> tensor \<Rightarrow> ptr outcome" where
  "tensor_data dev m t =
     bindE (device_id m t) (\<lambda>i. bindE (check (i = dev)) (\<lambda>_.
     bindE (buf_at m (t_buf t)) (\<lambda>b.
     Inr (if b_capacity b = 0 then None else b_data b))))"

section \<open>Sharing\<close>

definition share_from :: "memory \<Rightarrow> tensor \<Rightarrow> tensor \<Rightarrow> (saber_status \<times> tensor) outcome" where
  "share_from m t tensor =
     bindE (buf_at m (t_buf tensor)) (\<lambda>b. bindE (count (t_shape t)) (\<lambda>c.
     bindE (check (b_capacity b \<ge> size_mult c (t_type_len t))) (\<lambda>_.
     Inr (SaberSuccess, t\<lparr>t_buf := t_buf tensor, t_subbuf := False, t_seq := t_seq tensor, t_shared := True\<rparr>))))"

definition share_sub_buffer :: "tensor \<Rightarrow> tensor \<Rightarrow> shape \<Rightarrow> shape \<Rightarrow> (saber_status \<times> tensor) outcome" where
  "share_sub_buffer t tensor valid0 offset0 =
     bindE (shape_copy valid0) (\<lambda>v. bindE (shape_copy offset0) (\<lambda>offset.
     bindE (shape_add offset v) (\<lambda>sum. bindE (tensor_shape tensor) (\<lambda>mem.
     bindE (check (True = shape_le sum mem)) (\<lambda>_.
     bindE (shape_assign (t_valid t) v) (\<lambda>s1. bindE (shape_assign (t_offset t) offset) (\<lambda>s2.
     bindE (shape_assign (t_shape t) mem) (\<lambda>s3.
     Inr (SaberSuccess, t\<lparr>t_valid := s1, t_offset := s2, t_shape := s3, t_buf := t_buf tensor,
                          t_subbuf := True, t_shared := True, t_seq := t_seq tensor\<rparr>)))))))))"

section \<open>Copy of a region\<close>

text \<open>The last axis on which the region is smaller than the memory, \<open>-1\<close> when there is none.\<close>

fun discontinue :: "int list \<Rightarrow> int list \<Rightarrow> nat \<Rightarrow> int outcome" where
  "discontinue val sh 0 = Inr (-1)"
| "discontinue val sh (Suc i) =
     bindE (at val (int i)) (\<lambda>a. bindE (at sh (int i)) (\<lambda>b.
     if a = b then discontinue val sh i else Inr (int i)))"

definition chunk_length :: "tensor \<Rightarrow> int list \<Rightarrow> int \<Rightarrow> int \<Rightarrow> int outcome" where
  "chunk_length t val axis n =
     (if axis < 0 then bindE (valid_size t) (\<lambda>c. Inr (narrow32 c))
      else foldE (\<lambda>i len. bindE (at val i) (\<lambda>d. Inr (len * d))) [axis..n - 1] 1)"

text \<open>
  The table \<open>count_dst\<close> (or \<open>count_src\<close>): \<open>abs(axis) + 1\<close> entries, the last one 1, the one
  in front of it 1, and in front of that the products of the extents of the next dimensions.
\<close>

definition count_table :: "int list \<Rightarrow> int \<Rightarrow> int list outcome" where
  "count_table val axis =
     bindE (put (replicate (nat (\<bar>axis\<bar> + 1)) 0) \<bar>axis\<bar> 1) (\<lambda>tab0.
     foldE (\<lambda>i tab.
        if i = axis - 1 then put tab i 1
        else bindE (at val (i + 1)) (\<lambda>d. bindE (at tab (i + 1)) (\<lambda>c. put tab i (d * c))))
       (rev [0..axis - 1]) tab0)"

text \<open>The position of chunk \<open>i\<close> in one of the two buffers.\<close>

definition chunk_index :: "int \<Rightarrow> int \<Rightarrow> int \<Rightarrow> int list \<Rightarrow> int list \<Rightarrow> int \<Rightarrow> int outcome" where
  "chunk_index axis ratio len tab stride i =
     bindE (cmod i ratio) (\<lambda>r. bindE (cdiv i ratio) (\<lambda>res0.
     bindE (foldE (\<lambda>j (idx, res).
        bindE (at tab j) (\<lambda>c. bindE (cdiv res c) (\<lambda>d. bindE (at stride j) (\<lambda>s.
        bindE (cmod res c) (\<lambda>res'. Inr (idx + d * s, res'))))))
       [0..axis - 1] (r * len, res0)) (\<lambda>(idx, _). Inr idx)))"

text \<open>
  The common body of \<open>copy_from\<close> and \<open>async_copy_from\<close> after their first checks. \<open>cpy\<close>
  is the wrapper's \<open>sync_memcpy\<close> or \<open>async_memcpy\<close>.
\<close>

type_synonym memcpy = "store \<Rightarrow> ptr \<Rightarrow> nat \<Rightarrow> ptr \<Rightarrow> nat \<Rightarrow> nat \<Rightarrow> store outcome"

definition copy_flat :: "memcpy \<Rightarrow> int \<Rightarrow> memory \<Rightarrow> tensor \<Rightarrow> tensor \<Rightarrow> memory outcome" where
  "copy_flat cpy dev m t src =
     bindE (data_offset t) (\<lambda>dst_off. bindE (data_offset src) (\<lambda>src_off.
     bindE (buf_at m (t_buf t)) (\<lambda>b. bindE (tensor_data dev m src) (\<lambda>p_src.
     bindE (valid_size t) (\<lambda>n.
     bindE (cpy (ram m) (b_data b) (size_mult dst_off (t_type_len t)) p_src
              (size_mult src_off (t_type_len t)) (size_mult n (t_type_len t))) (\<lambda>h.
     Inr (m\<lparr>ram := h\<rparr>)))))))"

definition copy_chunks :: "memcpy \<Rightarrow> int \<Rightarrow> memory \<Rightarrow> tensor \<Rightarrow> tensor \<Rightarrow> memory outcome" where
  "copy_chunks cpy dev m t src =
     bindE (is_continue_mem t) (\<lambda>cont_dst. bindE (is_continue_mem src) (\<lambda>cont_src.
     let val_dst = dat (t_valid t); val_src = dat (t_valid src);
         sh_dst = (if cont_dst then val_dst else dat (t_shape t));
         sh_src = (if cont_src then val_src else dat (t_shape src))
     in bindE (discontinue val_dst sh_dst (length val_dst)) (\<lambda>axis_dst.
        bindE (discontinue val_src sh_src (length val_src)) (\<lambda>axis_src.
        bindE (chunk_length t val_dst axis_dst (tensor_dims t)) (\<lambda>len_dst.
        bindE (chunk_length src val_src axis_src (tensor_dims src)) (\<lambda>len_src.
        let len = (if len_dst < len_src then len_dst else len_src)
        in bindE (valid_size t) (\<lambda>total.
           bindE (cdiv total len) (\<lambda>n. let num = narrow32 n in
           bindE (tensor_stride t) (\<lambda>stride_dst. bindE (tensor_stride src) (\<lambda>stride_src.
           bindE (count_table val_dst axis_dst) (\<lambda>tab_dst. bindE (count_table val_src axis_src) (\<lambda>tab_src.
           bindE (cdiv len_dst len) (\<lambda>ratio_dst. bindE (cdiv len_src len) (\<lambda>ratio_src.
           bindE (data_offset t) (\<lambda>dst_off. bindE (data_offset src) (\<lambda>src_off.
           bindE (buf_at m (t_buf t)) (\<lambda>b. bindE (tensor_data dev m src) (\<lambda>p_src.
           bindE (foldE (\<lambda>i h.
              bindE (chunk_index axis_dst ratio_dst len tab_dst (dat stride_dst) i) (\<lambda>idx_dst.
              bindE (chunk_index axis_src ratio_src len tab_src (dat stride_src) i) (\<lambda>idx_src.
              cpy h (b_data b) (size_mult (dst_off + idx_dst) (t_type_len t))
                p_src (size_mult (src_off + idx_src) (t_type_len t)) (size_mult len (t_type_len t)))))
             [0..num - 1] (ram m)) (\<lambda>h.
           Inr (m\<lparr>ram := h\<rparr>))))))))))))))))))))"

definition copy_region :: "memcpy \<Rightarrow> int \<Rightarrow> memory \<Rightarrow> tensor \<Rightarrow> tensor \<Rightarrow> memory outcome" where
  "copy_region cpy dev m t src =
     bindE (is_continue_mem t) (\<lambda>cont_dst.
     bindE (if cont_dst then is_continue_mem src else Inr False) (\<lambda>both.
     if both then copy_flat cpy dev m t src else copy_chunks cpy dev m t src))"

text \<open>The checks, and the allocation for a destination without memory.\<close>

definition copy_prepare ::
    "int \<Rightarrow> memory \<Rightarrow> tensor \<Rightarrow> tensor \<Rightarrow> (memory \<times> tensor) outcome" where
  "copy_prepare dev m t src =
     bindE (check (t_dtype src = t_dtype t)) (\<lambda>_.
     bindE (valid_size t) (\<lambda>n. bindE (valid_size src) (\<lambda>n'. bindE (check (n = n')) (\<lambda>_.
     bindE (buf_at m (t_buf t)) (\<lambda>b.
     if b_capacity b = 0
     then bindE (reshape dev m t (t_valid t) None None) (\<lambda>(_, m', t'). Inr (m', t'))
     else Inr (m, t))))))"

definition tensor_copy_from ::
    "memcpy \<Rightarrow> int \<Rightarrow> memory \<Rightarrow> tensor \<Rightarrow> tensor \<Rightarrow> (saber_status \<times> memory \<times> tensor) outcome" where
  "tensor_copy_from cpy dev m t src =
     bindE (copy_prepare dev m t src) (\<lambda>(m1, t1).
     bindE (copy_region cpy dev m1 t1 src) (\<lambda>m2. Inr (SaberSuccess, m2, t1)))"

definition tensor_async_copy_from ::
    "memcpy \<Rightarrow> int \<Rightarrow> memory \<Rightarrow> tensor \<Rightarrow> tensor \<Rightarrow> (saber_status \<times> memory \<times> tensor) outcome" where
  "tensor_async_copy_from cpy dev m t src =
     bindE (copy_prepare dev m t src) (\<lambda>(m1, t1).
     bindE (tensor_data dev m1 t1) (\<lambda>p. bindE (tensor_data dev m1 src) (\<lambda>q.
     if p = q then Inr (SaberSuccess, m1, t1)
     else bindE (copy_region cpy dev m1 t1 src) (\<lambda>m2. Inr (SaberSuccess, m2, t1)))))"

end
