(* ===== verification/Region_Index.thy ===== *)
theory Region_Index
  imports Saber_Tensor Shape_Facts
begin

text \<open>
  The index arithmetic of \<open>Tensor::copy_from\<close>. \<open>offset_of val str n\<close> is the address, under
  the strides \<open>str\<close>, of element \<open>n\<close> of a region with extents \<open>val\<close> in row-major order. The
  tables and loops of \<open>copy_from\<close> compute it chunk by chunk.
\<close>

section \<open>Addresses of the elements of a region\<close>

fun offset_of :: "int list \<Rightarrow> int list \<Rightarrow> int \<Rightarrow> int" where
  "offset_of (v # vs) (s # ss) n = (n div prod_list vs) * s + offset_of vs ss (n mod prod_list vs)"
| "offset_of _ _ n = 0"

fun row_pos :: "int list \<Rightarrow> int list \<Rightarrow> int" where
  "row_pos (v # vs) (i # ix) = i * prod_list vs + row_pos vs ix"
| "row_pos _ _ = 0"

fun dense_strides :: "int list \<Rightarrow> int list" where
  "dense_strides [] = []"
| "dense_strides (v # vs) = prod_list vs # dense_strides vs"

definition in_box :: "int list \<Rightarrow> int list \<Rightarrow> bool" where
  "in_box val ix \<longleftrightarrow> list_all2 (\<lambda>v i. 0 \<le> i \<and> i < v) val ix"

definition dot :: "int list \<Rightarrow> int list \<Rightarrow> int" where
  "dot ix ss = sum_list (map2 (*) ix ss)"

abbreviation all_pos :: "int list \<Rightarrow> bool" where
  "all_pos xs \<equiv> (\<forall>x \<in> set xs. 0 < x)"

lemma all_pos_prod: "all_pos xs \<Longrightarrow> 0 < prod_list (xs::int list)"
  by (rule prod_list_pos) blast

lemma length_dense_strides [simp]: "length (dense_strides xs) = length xs"
  by (induction xs) auto

lemma dense_strides_nth: "i < length xs \<Longrightarrow> dense_strides xs ! i = prod_list (drop (Suc i) xs)"
  by (induction xs arbitrary: i) (auto simp: nth_Cons split: nat.splits)

lemma row_pos_bounds:
  assumes "in_box val ix" "all_pos val"
  shows "0 \<le> row_pos val ix \<and> row_pos val ix < prod_list val"
  using assms unfolding in_box_def
proof (induction val ix rule: list_all2_induct)
  case Nil
  then show ?case by simp
next
  case (Cons v vs i ix)
  then have IH: "0 \<le> row_pos vs ix" "row_pos vs ix < prod_list vs" by auto
  have "i * prod_list vs \<le> (v - 1) * prod_list vs"
    using Cons.hyps(1) IH by (intro mult_right_mono) auto
  then have "i * prod_list vs + row_pos vs ix < v * prod_list vs"
    using IH by (simp add: left_diff_distrib)
  then show ?case using IH Cons.hyps(1) by simp
qed

lemma offset_of_row_pos:
  assumes "in_box val ix" "all_pos val" "length ss = length val"
  shows "offset_of val ss (row_pos val ix) = dot ix ss"
  using assms(1)[unfolded in_box_def] assms(2,3)
proof (induction val ix arbitrary: ss rule: list_all2_induct)
  case Nil
  then show ?case by (simp add: dot_def)
next
  case (Cons v vs i ix)
  then obtain s ss' where ss: "ss = s # ss'" "length ss' = length vs" by (cases ss) auto
  have b: "0 \<le> row_pos vs ix" "row_pos vs ix < prod_list vs"
    using row_pos_bounds [of vs ix] Cons.hyps(2) Cons.prems by (auto simp: in_box_def)
  then have "(i * prod_list vs + row_pos vs ix) div prod_list vs = i"
    "(i * prod_list vs + row_pos vs ix) mod prod_list vs = row_pos vs ix"
    by (simp_all add: div_plus_div_distrib_dvd_left add.commute)
  then show ?case using Cons.IH [of ss'] Cons.prems ss by (simp add: dot_def)
qed

text \<open>Every position is that of one index vector.\<close>

fun unrow :: "int list \<Rightarrow> int \<Rightarrow> int list" where
  "unrow [] n = []"
| "unrow (v # vs) n = n div prod_list vs # unrow vs (n mod prod_list vs)"

lemma unrow_props:
  assumes "all_pos val" "0 \<le> n" "n < prod_list val"
  shows "in_box val (unrow val n) \<and> row_pos val (unrow val n) = n"
  using assms
proof (induction val arbitrary: n)
  case Nil
  then show ?case by (simp add: in_box_def)
next
  case (Cons v vs)
  have p: "0 < prod_list vs" using Cons.prems(1) by (simp add: all_pos_prod)
  have "0 \<le> n div prod_list vs" using Cons.prems p by (simp add: pos_imp_zdiv_nonneg_iff)
  moreover have "n div prod_list vs < v"
  proof (rule ccontr)
    assume "\<not> n div prod_list vs < v"
    then have "v * prod_list vs \<le> (n div prod_list vs) * prod_list vs" using p by (intro mult_right_mono) auto
    also have "\<dots> = n - n mod prod_list vs" by (simp add: minus_mod_eq_div_mult)
    also have "\<dots> \<le> n" using p by simp
    finally show False using Cons.prems(3) by simp
  qed
  moreover have "in_box vs (unrow vs (n mod prod_list vs)) \<and> row_pos vs (unrow vs (n mod prod_list vs)) = n mod prod_list vs"
    using Cons.prems(1) p by (intro Cons.IH) auto
  ultimately show ?case by (simp add: in_box_def)
qed

lemma offset_of_dense:
  assumes "all_pos val" "0 \<le> n" "n < prod_list val"
  shows "offset_of val (dense_strides val) n = n"
  using assms
proof (induction val arbitrary: n)
  case Nil
  then show ?case by simp
next
  case (Cons v vs)
  have p: "0 < prod_list vs" using Cons.prems(1) by (simp add: all_pos_prod)
  then have "offset_of vs (dense_strides vs) (n mod prod_list vs) = n mod prod_list vs"
    using Cons.prems(1) by (intro Cons.IH) auto
  then show ?case by simp
qed

lemma offset_of_append:
  assumes "length ss = length us" "all_pos us" "all_pos vs" "0 \<le> n" "n < prod_list (us @ vs)"
  shows "offset_of (us @ vs) (ss @ tt) n
         = offset_of us ss (n div prod_list vs) + offset_of vs tt (n mod prod_list vs)"
  using assms
proof (induction us arbitrary: ss n)
  case Nil
  then show ?case by simp
next
  case (Cons u us)
  then obtain s ss' where ss: "ss = s # ss'" "length ss' = length us" by (cases ss) auto
  let ?U = "prod_list us" and ?V = "prod_list vs"
  have p: "0 < ?U" "0 < ?V" using Cons.prems by (simp_all add: all_pos_prod)
  have "n div (?V * ?U) = n div ?V div ?U" using p by (simp add: zdiv_zmult2_eq)
  then have "n div (?U * ?V) = n div ?V div ?U" by (simp add: mult.commute)
  moreover have "n mod (?U * ?V) = ?V * (n div ?V mod ?U) + n mod ?V"
    using p by (simp add: zmod_zmult2_eq mult.commute [of ?U])
  moreover from this have "n mod (?U * ?V) div ?V = n div ?V mod ?U" "n mod (?U * ?V) mod ?V = n mod ?V"
    using p by (simp_all add: mod_mult_self4)
  moreover have "0 \<le> n mod (?U * ?V)" "n mod (?U * ?V) < prod_list (us @ vs)" using p by simp_all
  ultimately show ?case using Cons.IH [of ss' "n mod (?U * ?V)"] Cons.prems(1-3) ss by simp
qed

section \<open>The tables and loops of copy_from\<close>

definition good_table :: "int list \<Rightarrow> nat \<Rightarrow> int list \<Rightarrow> bool" where
  "good_table val a tab \<longleftrightarrow> length tab = Suc a \<and> (\<forall>j < a. tab ! j = prod_list (drop (Suc j) (take a val)))"

lemma count_table_steps:
  fixes val :: "int list"
  assumes "a \<le> length val" "k \<le> a" "length tab0 = Suc a"
  shows "\<exists>tab. foldE (\<lambda>i tab. if i = int a - 1 then put tab i 1
        else bindE (at val (i + 1)) (\<lambda>d. bindE (at tab (i + 1)) (\<lambda>c. put tab i (d * c))))
       (rev [int k..int a - 1]) tab0 = Inr tab \<and> length tab = Suc a \<and>
     (\<forall>j. k \<le> j \<and> j < a \<longrightarrow> tab ! j = prod_list (drop (Suc j) (take a val)))"
  using assms(2)
proof (induction k rule: inc_induct)
  case base
  have "\<not> (a \<le> j \<and> j < a)" for j by simp
  then show ?case using assms(3) by auto
next
  case (step k)
  let ?f = "\<lambda>i tab. if i = int a - 1 then put tab i 1
        else bindE (at val (i + 1)) (\<lambda>d. bindE (at tab (i + 1)) (\<lambda>c. put tab i (d * c)))"
  from step.IH obtain tab where tab: "foldE ?f (rev [int (Suc k)..int a - 1]) tab0 = Inr tab"
    "length tab = Suc a" "\<And>j. Suc k \<le> j \<Longrightarrow> j < a \<Longrightarrow> tab ! j = prod_list (drop (Suc j) (take a val))"
    by blast
  have up: "[int k..int a - 1] = int k # [int (Suc k)..int a - 1]"
    using step.hyps by (simp add: upto_rec1 add.commute)
  define x where "x = prod_list (drop (Suc k) (take a val))"
  have last: "?f (int k) tab = Inr (tab[k := x])"
  proof (cases "Suc k = a")
    case True
    then show ?thesis using tab(2) by (auto simp: put_def x_def)
  next
    case False
    then have k: "Suc k < a" using step.hyps by simp
    have "x = val ! Suc k * tab ! Suc k"
      using k assms(1) tab(3) [of "Suc k"] prod_list_drop_Cons [of "Suc k" "take a val"] by (simp add: x_def)
    then show ?thesis using k tab(2) assms(1) by (simp add: put_def at_def nat_add_distrib)
  qed
  have "foldE ?f (rev [int k..int a - 1]) tab0 = Inr (tab[k := x])"
    unfolding up by (simp add: foldE_append tab(1) last del: of_nat_Suc)
  moreover have "tab[k := x] ! j = prod_list (drop (Suc j) (take a val))" if "k \<le> j" "j < a" for j
    using that tab(2,3) by (cases "j = k") (auto simp: x_def)
  ultimately show ?case using tab(2) by (intro exI [of _ "tab[k := x]"]) simp
qed

lemma count_table_ok:
  assumes "a \<le> length val"
  shows "\<exists>tab. count_table val (int a) = Inr tab \<and> good_table val a tab"
proof -
  define tab0 where "tab0 = (replicate (Suc a) (0::int))[a := 1]"
  have p: "put (replicate (nat (\<bar>int a\<bar> + 1)) 0) \<bar>int a\<bar> 1 = Inr tab0"
    by (simp add: put_def nat_add_distrib tab0_def)
  have "length tab0 = Suc a" unfolding tab0_def by (simp only: length_list_update length_replicate)
  from count_table_steps [OF assms _ this, of 0] show ?thesis
    unfolding count_table_def p good_table_def by auto
qed

lemma count_table_none: "count_table val (- 1) = Inr [0, 1]"
  by (simp add: count_table_def put_def numeral_2_eq_2)

lemma chunk_loop:
  assumes "good_table val a tab" "a \<le> length val" "a \<le> length str" "all_pos val" "k \<le> a" "0 \<le> res"
  shows "\<exists>r. foldE (\<lambda>j (idx, res). bindE (at tab j) (\<lambda>c. bindE (cdiv res c) (\<lambda>d.
        bindE (at str j) (\<lambda>s. bindE (cmod res c) (\<lambda>res'. Inr (idx + d * s, res'))))))
       [int k..int a - 1] (idx, res) = Inr (idx + offset_of (drop k (take a val)) (drop k (take a str)) res, r)"
  using assms(5,6)
proof (induction "a - k" arbitrary: k idx res)
  case 0
  then show ?case by simp
next
  case (Suc m)
  let ?f = "\<lambda>j (idx, res). bindE (at tab j) (\<lambda>c. bindE (cdiv res c) (\<lambda>d.
        bindE (at str j) (\<lambda>s. bindE (cmod res c) (\<lambda>res'. Inr (idx + d * s, res')))))"
  have k: "k < a" using Suc.hyps(2) by simp
  let ?p = "prod_list (drop (Suc k) (take a val))"
  have pos: "0 < ?p" using assms(4) by (intro prod_list_pos) (auto dest: in_set_dropD in_set_takeD)
  have tab: "at tab (int k) = Inr ?p" using assms(1) k by (simp add: good_table_def)
  have str: "at str (int k) = Inr (str ! k)" using assms(3) k by simp
  have step: "?f (int k) (idx, res) = Inr (idx + res div ?p * str ! k, res mod ?p)"
    using tab str pos Suc.prems(2) by (simp add: cdiv_pos cmod_pos)
  have up: "[int k..int a - 1] = int k # [int (Suc k)..int a - 1]"
    using k by (simp add: upto_rec1 add.commute)
  have d: "drop k (take a val) = val ! k # drop (Suc k) (take a val)"
    "drop k (take a str) = str ! k # drop (Suc k) (take a str)"
    using k assms(2,3) by (simp_all add: Cons_nth_drop_Suc [symmetric])
  have "\<exists>r. foldE ?f [int (Suc k)..int a - 1] (idx + res div ?p * str ! k, res mod ?p)
      = Inr (idx + res div ?p * str ! k + offset_of (drop (Suc k) (take a val)) (drop (Suc k) (take a str)) (res mod ?p), r)"
    by (rule Suc.hyps(1)) (use Suc.hyps(2) k pos in auto)
  then show ?case unfolding up foldE.simps step bindE_simps d offset_of.simps by (simp add: add.assoc)
qed

lemma chunk_index_ok:
  assumes "good_table val a tab" "a \<le> length val" "a \<le> length str" "all_pos val" "0 \<le> i" "0 < ratio"
  shows "chunk_index (int a) ratio len tab str i
         = Inr ((i mod ratio) * len + offset_of (take a val) (take a str) (i div ratio))"
proof -
  have r: "cmod i ratio = Inr (i mod ratio)" "cdiv i ratio = Inr (i div ratio)"
    using assms(5,6) by (simp_all add: cdiv_pos cmod_pos)
  have "0 \<le> i div ratio" using assms(5,6) by (simp add: pos_imp_zdiv_nonneg_iff)
  from chunk_loop [OF assms(1-4), of 0 "i div ratio" "(i mod ratio) * len"] this obtain z where
    "foldE (\<lambda>j (idx, res). bindE (at tab j) (\<lambda>c. bindE (cdiv res c) (\<lambda>d.
        bindE (at str j) (\<lambda>s. bindE (cmod res c) (\<lambda>res'. Inr (idx + d * s, res'))))))
       [0..int a - 1] ((i mod ratio) * len, i div ratio)
     = Inr ((i mod ratio) * len + offset_of (take a val) (take a str) (i div ratio), z)" by auto
  then show ?thesis unfolding chunk_index_def r bindE_simps by simp
qed

lemma chunk_index_none:
  assumes "0 \<le> i" "0 < ratio"
  shows "chunk_index (- 1) ratio len tab str i = Inr ((i mod ratio) * len)"
  using assms by (simp add: chunk_index_def cdiv_pos cmod_pos)

section \<open>The axis of discontinuity\<close>

lemma discontinue_ok:
  assumes "k \<le> length val" "k \<le> length sh"
  shows "(discontinue val sh k = Inr (- 1) \<and> take k val = take k sh) \<or>
    (\<exists>a < k. discontinue val sh k = Inr (int a) \<and> val ! a \<noteq> sh ! a \<and> (\<forall>j. a < j \<and> j < k \<longrightarrow> val ! j = sh ! j))"
  using assms
proof (induction k)
  case 0
  then show ?case by simp
next
  case (Suc k)
  then have r: "at val (int k) = Inr (val ! k)" "at sh (int k) = Inr (sh ! k)" by simp_all
  show ?case
  proof (cases "val ! k = sh ! k")
    case True
    then have "discontinue val sh (Suc k) = discontinue val sh k" using r by simp
    then show ?thesis
      using Suc True by (auto simp: take_Suc_conv_app_nth less_Suc_eq)
  next
    case False
    then show ?thesis using r by (intro disjI2 exI [of _ k]) simp
  qed
qed

lemma discontinue_drop:
  assumes "length sh = length val" "discontinue val sh (length val) = Inr (int a)"
  shows "a < length val \<and> drop (Suc a) val = drop (Suc a) sh"
  using discontinue_ok [of "length val" val sh] assms
  by (auto intro: nth_equalityI)

lemma discontinue_same: "discontinue val val k = Inr (- 1) \<or> length val < k"
  by (induction k) (auto simp: at_def)

end
