(* ===== verification/Tensor_Facts.thy ===== *)
theory Tensor_Facts
  imports Region_Index Buffer_Facts
begin

text \<open>
  The facts about the copy of a region: what a sequence of \<open>memcpy\<close> calls leaves in the
  destination (\<open>copied\<close>), the addresses of the elements of a well-formed tensor, and the
  chunks in which \<open>Tensor::copy_from\<close> moves them.
\<close>

section \<open>Sequences of copies\<close>

text \<open>
  \<open>copied P Q L N xs ys xs'\<close>: the first \<open>N\<close> elements, of \<open>L\<close> bytes each, have
  been copied from the places \<open>Q\<close> of \<open>ys\<close> to the places \<open>P\<close> of \<open>xs\<close>, and nothing else.
\<close>

definition copied :: "(nat \<Rightarrow> nat) \<Rightarrow> (nat \<Rightarrow> nat) \<Rightarrow> nat \<Rightarrow> nat \<Rightarrow> byte list \<Rightarrow> byte list \<Rightarrow> byte list \<Rightarrow> bool" where
  "copied P Q L N xs ys xs' \<longleftrightarrow> length xs' = length xs \<and>
     (\<forall>n < N. \<forall>r < L. xs' ! (P n * L + r) = ys ! (Q n * L + r)) \<and>
     (\<forall>p < length xs. (\<forall>n < N. \<forall>r < L. p \<noteq> P n * L + r) \<longrightarrow> xs' ! p = xs ! p)"

definition spliced :: "byte list \<Rightarrow> nat \<Rightarrow> byte list \<Rightarrow> nat \<Rightarrow> nat \<Rightarrow> byte list" where
  "spliced xs off ys off' n = take off xs @ take n (drop off' ys) @ drop (off + n) xs"

lemma spliced_facts:
  assumes "off + n \<le> length xs" "off' + n \<le> length ys"
  shows "length (spliced xs off ys off' n) = length xs"
    "k < n \<Longrightarrow> spliced xs off ys off' n ! (off + k) = ys ! (off' + k)"
    "p < length xs \<Longrightarrow> p < off \<or> off + n \<le> p \<Longrightarrow> spliced xs off ys off' n ! p = xs ! p"
  using assms by (auto simp: spliced_def nth_append)

lemma copied_chunk:
  assumes c: "copied P Q L N xs ys xs1" and "0 < L"
    and P: "\<And>k. k < len \<Longrightarrow> P (N + k) = P N + k" and Q: "\<And>k. k < len \<Longrightarrow> Q (N + k) = Q N + k"
    and inj: "inj_on P {..<N + len}"
    and small: "\<And>n. n < N + len \<Longrightarrow> P n * L + L \<le> length xs"
    and room: "P N * L + len * L \<le> length xs" "Q N * L + len * L \<le> length ys"
  shows "copied P Q L (N + len) xs ys (spliced xs1 (P N * L) ys (Q N * L) (len * L))"
proof -
  have l1: "length xs1 = length xs" using c by (simp add: copied_def)
  note sp = spliced_facts [OF room(1) [folded l1] room(2)]
  let ?new = "spliced xs1 (P N * L) ys (Q N * L) (len * L)"
  have inside: "n < N + len \<Longrightarrow> r < L \<Longrightarrow> P N * L \<le> P n * L + r \<Longrightarrow> P n * L + r < P N * L + len * L \<Longrightarrow> N \<le> n" for n r
  proof (rule ccontr)
    assume a: "n < N + len" "r < L" "P N * L \<le> P n * L + r" "P n * L + r < P N * L + len * L" "\<not> N \<le> n"
    have "P N < P n + 1"
    proof (rule mult_less_cancel2 [THEN iffD1, THEN conjunct2])
      show "P N * L < (P n + 1) * L" using a(2,3) by simp
    qed
    moreover have "P n < P N + len"
    proof (rule mult_less_cancel2 [THEN iffD1, THEN conjunct2])
      show "P n * L < (P N + len) * L" using a(4) by (simp add: add_mult_distrib)
    qed
    ultimately obtain k where "k < len" "P n = P N + k" by (metis less_eq_Suc_le add.commute le_iff_add nat_add_left_cancel_less not_less_eq_eq Suc_eq_plus1)
    then have "P n = P (N + k)" "N + k < N + len" using P by auto
    then have "n = N + k" using inj a(1) by (auto simp: inj_on_def)
    then show False using a(5) by simp
  qed
  have "?new ! (P n * L + r) = ys ! (Q n * L + r)" if n: "n < N + len" "r < L" for n r
  proof (cases "n < N")
    case True
    have "P n * L + r < P N * L \<or> P N * L + len * L \<le> P n * L + r"
      using inside [OF n] True by (meson not_le)
    moreover have "P n * L + r < length xs1"
      using small [of n] True n(2) l1 by simp
    ultimately show ?thesis using sp(3) c True n(2) by (simp add: copied_def)
  next
    case False
    then obtain k where k: "n = N + k" "k < len" using n(1) by (metis add_less_cancel_left le_iff_add not_le)
    have "k * L + r < len * L"
    proof -
      have "k * L + r < (k + 1) * L" using n(2) by simp
      also have "\<dots> \<le> len * L" using k(2) by (intro mult_le_mono1) simp
      finally show ?thesis .
    qed
    from sp(2) [OF this] show ?thesis using P [OF k(2)] Q [OF k(2)] by (simp add: k(1) add_mult_distrib add.assoc)
  qed
  moreover have "?new ! p = xs ! p" if p: "p < length xs" "\<And>n r. n < N + len \<Longrightarrow> r < L \<Longrightarrow> p \<noteq> P n * L + r" for p
  proof -
    have "p < P N * L \<or> P N * L + len * L \<le> p"
    proof (rule ccontr)
      assume "\<not> ?thesis"
      then obtain q where q: "p = P N * L + q" "q < len * L"
        by (metis add_less_cancel_left le_iff_add not_le)
      have "q div L < len" using q(2) assms(2) by (simp add: less_mult_imp_div_less)
      from P [OF this] have "p = P (N + q div L) * L + q mod L"
        using q(1) by (simp add: add_mult_distrib)
      then show False using p(2) [of "N + q div L" "q mod L"] \<open>q div L < len\<close> assms(2) by simp
    qed
    then have "?new ! p = xs1 ! p" using sp(3) p(1) l1 by simp
    also have "\<dots> = xs ! p" using c p by (simp add: copied_def)
    finally show ?thesis .
  qed
  ultimately show ?thesis using sp(1) l1 unfolding copied_def by simp
qed

text \<open>One \<open>memcpy\<close> between two blocks.\<close>

lemma memcpy_spliced:
  assumes "blocks h d = Some xs" "blocks h s = Some ys" "d \<noteq> s" "off + n \<le> length xs" "off' + n \<le> length ys"
  shows "sync_memcpy h (Some d) off (Some s) off' n = Inr (h\<lparr>blocks := (blocks h)(d \<mapsto> spliced xs off ys off' n)\<rparr>)"
proof (cases "n = 0")
  case True
  then have "spliced xs off ys off' n = xs" by (simp add: spliced_def)
  then show ?thesis using True assms(1) by (simp add: sync_memcpy_def fun_upd_idem)
next
  case False
  then show ?thesis
    using assms by (simp add: sync_memcpy_def overlapping_def read_bytes_def write_bytes_def block_at_def spliced_def)
qed

text \<open>The loop over the chunks.\<close>

lemma chunk_copies:
  assumes h: "blocks h d = Some xs" "blocks h s = Some ys" "d \<noteq> s" and "0 < L"
    and body: "\<And>i h'. i < cnt \<Longrightarrow> body (int i) h' = sync_memcpy h' (Some d) (P (i * len) * L) (Some s) (Q (i * len) * L) (len * L)"
    and P: "\<And>i k. i < cnt \<Longrightarrow> k < len \<Longrightarrow> P (i * len + k) = P (i * len) + k"
    and Q: "\<And>i k. i < cnt \<Longrightarrow> k < len \<Longrightarrow> Q (i * len + k) = Q (i * len) + k"
    and inj: "inj_on P {..<cnt * len}"
    and Pb: "\<And>n. n < cnt * len \<Longrightarrow> P n * L + L \<le> length xs" and Qb: "\<And>n. n < cnt * len \<Longrightarrow> Q n * L + L \<le> length ys"
    and "m \<le> cnt"
  shows "\<exists>xs'. foldE body [0..int m - 1] h = Inr (h\<lparr>blocks := (blocks h)(d \<mapsto> xs')\<rparr>) \<and> copied P Q L (m * len) xs ys xs'"
  using \<open>m \<le> cnt\<close>
proof (induction m)
  case 0
  have "h\<lparr>blocks := (blocks h)(d \<mapsto> xs)\<rparr> = h" using h(1) by (simp add: fun_upd_idem)
  then have "foldE body [0..int 0 - 1] h = Inr (h\<lparr>blocks := (blocks h)(d \<mapsto> xs)\<rparr>)" by simp
  moreover have "copied P Q L (0 * len) xs ys xs" by (simp add: copied_def)
  ultimately show ?case by blast
next
  case (Suc m)
  from Suc.IH [OF Suc_leD [OF Suc.prems]] obtain xs1
    where 1: "foldE body [0..int m - 1] h = Inr (h\<lparr>blocks := (blocks h)(d \<mapsto> xs1)\<rparr>)"
      "copied P Q L (m * len) xs ys xs1" by blast
  have m: "m < cnt" using Suc.prems by simp
  have up: "[0..int (Suc m) - 1] = [0..int m - 1] @ [int m]"
    using upto_rec2 [of 0 "int m"] by simp
  have room: "P (m * len) * L + len * L \<le> length xs" "Q (m * len) * L + len * L \<le> length ys" if "len \<noteq> 0"
  proof -
    have "m * len + (len - 1) < cnt * len"
    proof -
      have "m * len + (len - 1) < (m + 1) * len" using that by simp
      also have "\<dots> \<le> cnt * len" using m by (intro mult_le_mono1) simp
      finally show ?thesis .
    qed
    from Pb [OF this] Qb [OF this] show "P (m * len) * L + len * L \<le> length xs" "Q (m * len) * L + len * L \<le> length ys"
      using P [OF m, of "len - 1"] Q [OF m, of "len - 1"] that
      by (simp_all add: diff_mult_distrib add_mult_distrib split: nat_diff_split)
  qed
  let ?h = "h\<lparr>blocks := (blocks h)(d \<mapsto> xs1)\<rparr>"
  have len1: "length xs1 = length xs" using 1(2) by (simp add: copied_def)
  show ?case
  proof (cases "len = 0")
    case True
    then have "body (int m) ?h = Inr ?h" using body [OF m] by (simp add: sync_memcpy_def)
    then have "foldE body [0..int (Suc m) - 1] h = Inr ?h" unfolding up by (simp add: foldE_append 1(1))
    moreover have "copied P Q L (Suc m * len) xs ys xs1" using 1(2) True by simp
    ultimately show ?thesis by blast
  next
    case False
    let ?xs2 = "spliced xs1 (P (m * len) * L) ys (Q (m * len) * L) (len * L)"
    have "body (int m) ?h = Inr (?h\<lparr>blocks := (blocks ?h)(d \<mapsto> ?xs2)\<rparr>)"
      unfolding body [OF m] by (rule memcpy_spliced) (use h room [OF False] len1 in auto)
    then have run: "foldE body [0..int (Suc m) - 1] h = Inr (h\<lparr>blocks := (blocks h)(d \<mapsto> ?xs2)\<rparr>)"
      unfolding up by (simp add: foldE_append 1(1))
    have le: "m * len + len \<le> cnt * len" using mult_le_mono1 [of "m + 1" cnt len] m by simp
    have "copied P Q L (m * len + len) xs ys ?xs2"
    proof (rule copied_chunk [OF 1(2) assms(4)])
      show "inj_on P {..<m * len + len}" by (rule inj_on_subset [OF inj]) (use le in auto)
      show "P n * L + L \<le> length xs" if "n < m * len + len" for n using Pb that le by simp
    qed (use P [OF m] Q [OF m] room [OF False] in auto)
    then have "copied P Q L (Suc m * len) xs ys ?xs2" by (simp add: add.commute)
    with run show ?thesis by blast
  qed
qed

end
