(* ===== verification/Tensor_Copy.thy ===== *)
theory Tensor_Copy
  imports Tensor_Facts
begin

text \<open>
  Well-formed tensors, the addresses of their elements, and the correctness of the chunks in
  which \<open>Tensor::copy_from\<close> walks over a region that is not contiguous.
\<close>

section \<open>Sums of index times stride\<close>

lemma dot_Cons [simp]: "dot (x # xs) (s # ss) = x * s + dot xs ss" "dot [] ss = 0" "dot xs [] = 0"
  by (simp_all add: dot_def)

lemma dot_dense: "length jx = length S \<Longrightarrow> dot jx (dense_strides S) = row_pos S jx"
  by (induction jx S rule: list_induct2) auto

lemma dot_add: "length xs = length ys \<Longrightarrow> length ys = length ss \<Longrightarrow>
    dot (map2 (+) xs ys) ss = dot xs ss + dot ys ss"
  by (induction xs ys ss rule: list_induct3) (auto simp: algebra_simps)

lemma foldE_dot:
  assumes "length ss = length xs" "k \<le> length xs"
  shows "foldE (\<lambda>i c. bindE (at xs i) (\<lambda>x. bindE (at ss i) (\<lambda>s. Inr (c + x * s))))
     [int k..int (length xs) - 1] c = Inr (c + dot (drop k xs) (drop k ss) :: int)"
  using assms(2)
proof (induction "length xs - k" arbitrary: k c)
  case 0
  then show ?case by simp
next
  case (Suc m)
  let ?f = "\<lambda>i c. bindE (at xs i) (\<lambda>x. bindE (at ss i) (\<lambda>s. Inr (c + x * s)))"
  have k: "k < length xs" using Suc.hyps(2) by simp
  have up: "[int k..int (length xs) - 1] = int k # [int (Suc k)..int (length xs) - 1]"
    using k by (simp add: upto_rec1 add.commute)
  have step: "?f (int k) c = Inr (c + xs ! k * ss ! k)" using k assms(1) by simp
  have IH: "foldE ?f [int (Suc k)..int (length xs) - 1] (c + xs ! k * ss ! k)
      = Inr (c + xs ! k * ss ! k + dot (drop (Suc k) xs) (drop (Suc k) ss))"
    by (rule Suc.hyps(1)) (use Suc.hyps(2) k in auto)
  have "dot (drop k xs) (drop k ss) = xs ! k * ss ! k + dot (drop (Suc k) xs) (drop (Suc k) ss)"
    using k assms(1) by (simp add: Cons_nth_drop_Suc [symmetric])
  then show ?case unfolding up foldE.simps step bindE_simps IH by (simp add: add.assoc)
qed

lemma row_pos_inj:
  assumes "in_box val ix" "in_box val jx" "all_pos val" "row_pos val ix = row_pos val jx"
  shows "ix = jx"
proof -
  have "unrow val (row_pos val ix) = ix" if "in_box val ix" "all_pos val" for val ix
    using that(1)[unfolded in_box_def] that(2)
  proof (induction val ix rule: list_all2_induct)
    case Nil
    then show ?case by simp
  next
    case (Cons v vs i ix)
    have b: "0 \<le> row_pos vs ix" "row_pos vs ix < prod_list vs"
      using row_pos_bounds [of vs ix] Cons by (auto simp: in_box_def)
    then have "(i * prod_list vs + row_pos vs ix) div prod_list vs = i"
      "(i * prod_list vs + row_pos vs ix) mod prod_list vs = row_pos vs ix"
      by (simp_all add: div_plus_div_distrib_dvd_left add.commute)
    then show ?case using Cons by simp
  qed
  from this [OF assms(1,3)] this [OF assms(2,3)] assms(4) show ?thesis by metis
qed

section \<open>Well-formed tensors\<close>

definition fits_region :: "int list \<Rightarrow> int list \<Rightarrow> int list \<Rightarrow> bool" where
  "fits_region off val S \<longleftrightarrow> length off = length S \<and> length val = length S \<and>
     (\<forall>i < length S. 0 \<le> off ! i \<and> off ! i + val ! i \<le> S ! i)"

definition tensor_ok :: "int \<Rightarrow> memory \<Rightarrow> tensor \<Rightarrow> bool" where
  "tensor_ok dev m t \<longleftrightarrow> dense (t_shape t) \<and> dense (t_valid t) \<and> 0 < t_type_len t \<and> t_type_len t \<le> 8 \<and>
     (case buf_at m (t_buf t) of Inl _ \<Rightarrow> False
      | Inr b \<Rightarrow> b_id b = dev \<and> nat (prod_list (dat (t_shape t))) * t_type_len t \<le> b_capacity b \<and>
          (case block_at (ram m) (b_data b) of Inl _ \<Rightarrow> False | Inr xs \<Rightarrow> b_capacity b \<le> length xs)) \<and>
     (if t_subbuf t then fits_region (dat (t_offset t)) (dat (t_valid t)) (dat (t_shape t))
      else prod_list (dat (t_valid t)) \<le> prod_list (dat (t_shape t)))"

lemma dense_pos: "dense s \<Longrightarrow> all_pos (dat s)"
  by (simp add: dense_def positive_def)

lemma tensor_okD:
  assumes "tensor_ok dev m t"
  shows "dense (t_shape t)" "dense (t_valid t)" "0 < t_type_len t" "t_type_len t \<le> 8"
    "t_subbuf t \<Longrightarrow> fits_region (dat (t_offset t)) (dat (t_valid t)) (dat (t_shape t))"
    "\<not> t_subbuf t \<Longrightarrow> prod_list (dat (t_valid t)) \<le> prod_list (dat (t_shape t))"
    "all_pos (dat (t_shape t))" "all_pos (dat (t_valid t))"
proof -
  show d: "dense (t_shape t)" "dense (t_valid t)" using assms by (simp_all add: tensor_ok_def)
  show "all_pos (dat (t_shape t))" "all_pos (dat (t_valid t))" using d by (auto dest: dense_pos)
qed (use assms in \<open>auto simp: tensor_ok_def split: if_splits\<close>)

text \<open>The strides of a tensor and the linear address of element \<open>n\<close> of its region.\<close>

definition strides_of :: "tensor \<Rightarrow> int list" where
  "strides_of t = dense_strides (dat (if t_subbuf t then t_shape t else t_valid t))"

definition origin :: "tensor \<Rightarrow> int" where
  "origin t = (if t_subbuf t then dot (dat (t_offset t)) (strides_of t) else 0)"

definition element_address :: "tensor \<Rightarrow> int \<Rightarrow> int" where
  "element_address t n = origin t + offset_of (dat (t_valid t)) (strides_of t) n"

lemma stride_is_dense: "dense s \<Longrightarrow> \<exists>st. get_stride s = Inr st \<and> dat st = dense_strides (dat s)"
  by (auto simp: get_stride_dense dense_strides_nth intro!: nth_equalityI)

lemma tensor_stride_ok:
  assumes "tensor_ok dev m t"
  shows "\<exists>st. tensor_stride t = Inr st \<and> dat st = strides_of t"
  using assms stride_is_dense [of "t_shape t"] stride_is_dense [of "t_valid t"]
  by (auto simp: tensor_stride_def strides_of_def tensor_ok_def)

lemma data_offset_ok:
  assumes "tensor_ok dev m t"
  shows "data_offset t = Inr (origin t)"
proof (cases "t_subbuf t")
  case False
  then show ?thesis by (simp add: data_offset_def start_index_def origin_def)
next
  case True
  obtain st where st: "tensor_stride t = Inr st" "dat st = strides_of t"
    using tensor_stride_ok [OF assms] by blast
  have len: "length (strides_of t) = length (dat (t_offset t))"
    using assms True by (simp add: tensor_ok_def strides_of_def fits_region_def)
  show ?thesis
    using True st foldE_dot [of "strides_of t" "dat (t_offset t)" 0 0] len
    by (simp add: data_offset_def start_index_def origin_def dims_def)
qed

lemma valid_size_ok: "tensor_ok dev m t \<Longrightarrow> valid_size t = Inr (prod_list (dat (t_valid t)))"
  by (simp add: valid_size_def count_from_dense tensor_ok_def dense_def)

lemma region_box:
  assumes "fits_region off val S" "in_box val ix"
  shows "in_box S (map2 (+) off ix)"
  using assms unfolding fits_region_def in_box_def by (fastforce simp: list_all2_conv_all_nth)

lemma element_address_sub:
  assumes "tensor_ok dev m t" "t_subbuf t" "0 \<le> n" "n < prod_list (dat (t_valid t))"
  defines "jx \<equiv> map2 (+) (dat (t_offset t)) (unrow (dat (t_valid t)) n)"
  shows "element_address t n = row_pos (dat (t_shape t)) jx" "in_box (dat (t_shape t)) jx"
proof -
  note f = tensor_okD(5) [OF assms(1,2)] tensor_okD(2) [OF assms(1)]
  note u = unrow_props [OF dense_pos [OF f(2)] assms(3,4)]
  have len: "length (unrow (dat (t_valid t)) n) = length (dat (t_shape t))"
    "length (strides_of t) = length (dat (t_shape t))"
    using u f(1) assms(2) by (auto simp: in_box_def fits_region_def strides_of_def dest: list_all2_lengthD)
  show box: "in_box (dat (t_shape t)) jx" unfolding jx_def using region_box [OF f(1)] u by blast
  have "offset_of (dat (t_valid t)) (strides_of t) n = dot (unrow (dat (t_valid t)) n) (strides_of t)"
    using offset_of_row_pos [of "dat (t_valid t)" "unrow (dat (t_valid t)) n" "strides_of t"] u
      dense_pos [OF f(2)] f(1) len by (simp add: fits_region_def)
  then have "element_address t n = dot jx (strides_of t)"
    using dot_add [of "dat (t_offset t)" "unrow (dat (t_valid t)) n" "strides_of t"] f(1) len assms(2)
    by (simp add: element_address_def origin_def jx_def fits_region_def)
  also have "\<dots> = row_pos (dat (t_shape t)) jx"
    using dot_dense [of jx "dat (t_shape t)"] len f(1) assms(2)
    by (simp add: strides_of_def jx_def fits_region_def)
  finally show "element_address t n = row_pos (dat (t_shape t)) jx" .
qed

lemma element_address_own:
  assumes "tensor_ok dev m t" "\<not> t_subbuf t" "0 \<le> n" "n < prod_list (dat (t_valid t))"
  shows "element_address t n = n"
  using assms offset_of_dense [of "dat (t_valid t)" n] dense_pos [of "t_valid t"]
  by (simp add: element_address_def origin_def strides_of_def tensor_ok_def)

lemma element_address_bounds:
  assumes "tensor_ok dev m t" "0 \<le> n" "n < prod_list (dat (t_valid t))"
  shows "0 \<le> element_address t n \<and> element_address t n < prod_list (dat (t_shape t))"
proof (cases "t_subbuf t")
  case True
  show ?thesis
    using tensor_okD(7) [OF assms(1)] row_pos_bounds element_address_sub [OF assms(1) True assms(2,3)] by simp
next
  case False
  then show ?thesis
    using element_address_own [OF assms(1) False assms(2,3)] assms by (simp add: tensor_ok_def)
qed

lemma element_address_inj:
  assumes "tensor_ok dev m t" "0 \<le> i" "i < prod_list (dat (t_valid t))" "0 \<le> j" "j < prod_list (dat (t_valid t))"
    and "element_address t i = element_address t j"
  shows "i = j"
proof (cases "t_subbuf t")
  case True
  note pos = tensor_okD(7,8) [OF assms(1)]
  let ?off = "dat (t_offset t)" and ?u = "unrow (dat (t_valid t))"
  note i = element_address_sub [OF assms(1) True assms(2,3)] and j = element_address_sub [OF assms(1) True assms(4,5)]
  have eq: "map2 (+) ?off (?u i) = map2 (+) ?off (?u j)"
    using row_pos_inj [OF i(2) j(2) pos(1)] i(1) j(1) assms(6) by simp
  have len: "length (?u i) = length ?off" "length (?u j) = length ?off"
    using unrow_props [OF pos(2) assms(2,3)] unrow_props [OF pos(2) assms(4,5)] assms(1) True
    by (auto simp: in_box_def tensor_ok_def fits_region_def dest: list_all2_lengthD)
  have "?u i ! k = ?u j ! k" if "k < length ?off" for k
    using arg_cong [OF eq, of "\<lambda>xs. xs ! k"] that len by simp
  then have "?u i = ?u j" using len by (intro nth_equalityI) auto
  then show ?thesis
    using unrow_props [OF pos(2) assms(2,3)] unrow_props [OF pos(2) assms(4,5)] by metis
next
  case False
  then show ?thesis using element_address_own [OF assms(1) False] assms by simp
qed

section \<open>Chunks\<close>

lemma is_continue_total:
  assumes "dense v" "dense r" "length (dat r) = length (dat v)"
  shows "\<exists>b. is_continue v r = Inr b"
proof -
  have "\<exists>b. continue_loop v r k = Inr b" if "k \<le> length (dat v)" for k
    using that
  proof (induction k)
    case (Suc k)
    then show ?case using count_ratio [OF assms(1), of k] by auto
  qed auto
  then show ?thesis using assms by (simp add: is_continue_def dense_def)
qed

lemma continue_mem_total:
  assumes "tensor_ok dev m t"
  shows "\<exists>b. is_continue_mem t = Inr b"
  using tensor_okD [OF assms] is_continue_total [of "t_valid t" "t_shape t"]
  by (cases "t_subbuf t") (auto simp: is_continue_mem_def fits_region_def)

lemma dot_linear:
  assumes "dense s" "length ix = length (dat s)"
  shows "dot ix (dense_strides (dat s)) = linear (stride s) (\<lambda>i. ix ! i) 0 (length (dat s))"
  using assms
  by (auto simp: dot_def linear_def sum_list_sum_nth stride_dense dense_strides_nth atLeast0LessThan intro!: sum.cong)

text \<open>In a contiguous tensor the elements follow each other.\<close>

lemma continue_element_address:
  assumes ok: "tensor_ok dev m t" and cont: "is_continue_mem t = Inr True"
    and n: "0 \<le> n" "n < prod_list (dat (t_valid t))"
  shows "element_address t n = origin t + n"
proof (cases "t_subbuf t")
  case False
  then show ?thesis using element_address_own [OF ok False n] by (simp add: origin_def)
next
  case True
  note D = tensor_okD [OF ok]
  let ?v = "t_valid t" and ?r = "t_shape t"
  let ?ix = "unrow (dat ?v) n"
  note u = unrow_props [OF D(8) n]
  have len: "length (dat ?r) = length (dat ?v)" "length ?ix = length (dat ?v)"
    using D(5) [OF True] u by (auto simp: fits_region_def in_box_def dest: list_all2_lengthD)
  have "in_extent (extent ?v) (\<lambda>i. ?ix ! i) (length (dat ?v))"
    using u by (auto simp: in_extent_def extent_def in_box_def list_all2_conv_all_nth)
  from continue_addresses [OF D(2,1) len(1) _ this] cont True
  have eq: "dot ?ix (dense_strides (dat ?r)) = dot ?ix (dense_strides (dat ?v))"
    using dot_linear [OF D(1), of ?ix] dot_linear [OF D(2), of ?ix] len by (simp add: is_continue_mem_def)
  have "offset_of (dat ?v) (strides_of t) n = dot ?ix (dense_strides (dat ?r))"
    using offset_of_row_pos [of "dat ?v" ?ix "strides_of t"] u D(8) True len by (simp add: strides_of_def)
  also have "\<dots> = n" unfolding eq using dot_dense [OF len(2)] u by simp
  finally show ?thesis by (simp add: element_address_def)
qed

text \<open>
  \<open>chunked t axis L stride\<close>: what the analysis of a tensor by \<open>copy_from\<close> promises. The chunk
  length \<open>L\<close> is the product of the last extents, and in chunks whose length divides it the
  computed position of a chunk is that of its first element, the others following.
\<close>

definition chunked :: "tensor \<Rightarrow> int \<Rightarrow> int \<Rightarrow> int list \<Rightarrow> int list \<Rightarrow> bool" where
  "chunked t axis L tab str \<longleftrightarrow>
     (\<exists>a \<le> length (dat (t_valid t)). L = prod_list (drop a (dat (t_valid t)))) \<and>
     (\<forall>len ratio i. 0 < len \<longrightarrow> L = ratio * len \<longrightarrow> 0 \<le> i \<longrightarrow> (i + 1) * len \<le> prod_list (dat (t_valid t)) \<longrightarrow>
        (\<exists>x. chunk_index axis ratio len tab str i = Inr x \<and>
           (\<forall>k. 0 \<le> k \<longrightarrow> k < len \<longrightarrow> element_address t (i * len + k) = origin t + x + k)))"

lemma chunked_flat:
  assumes "tensor_ok dev m t" "\<And>n. 0 \<le> n \<Longrightarrow> n < prod_list (dat (t_valid t)) \<Longrightarrow> element_address t n = origin t + n"
  shows "chunked t (- 1) (prod_list (dat (t_valid t))) tab str"
  unfolding chunked_def
proof (intro conjI allI impI)
  show "\<exists>a \<le> length (dat (t_valid t)). prod_list (dat (t_valid t)) = prod_list (drop a (dat (t_valid t)))"
    by (intro exI [of _ 0]) simp
  fix len ratio i :: int
  assume a: "0 < len" "prod_list (dat (t_valid t)) = ratio * len" "0 \<le> i" "(i + 1) * len \<le> prod_list (dat (t_valid t))"
  have pos: "0 < prod_list (dat (t_valid t))" using tensor_okD(8) [OF assms(1)] all_pos_prod by blast
  have r: "0 < ratio" using a(1,2) pos by (simp add: zero_less_mult_iff)
  have "i < ratio" using a(1,2,4) by simp
  then have x: "chunk_index (- 1) ratio len tab str i = Inr (i * len)"
    using chunk_index_none [OF a(3) r] a(3) by simp
  have "element_address t (i * len + k) = origin t + i * len + k" if "0 \<le> k" "k < len" for k
    using assms(2) [of "i * len + k"] that a by (simp add: distrib_right)
  then show "\<exists>x. chunk_index (- 1) ratio len tab str i = Inr x \<and>
      (\<forall>k. 0 \<le> k \<longrightarrow> k < len \<longrightarrow> element_address t (i * len + k) = origin t + x + k)"
    using x by auto
qed

lemma chunked_rows:
  assumes ok: "tensor_ok dev m t" and sub: "t_subbuf t"
    and a: "a < length (dat (t_valid t))" "drop (Suc a) (dat (t_valid t)) = drop (Suc a) (dat (t_shape t))"
    and tab: "good_table (dat (t_valid t)) a tab"
  shows "chunked t (int a) (prod_list (drop a (dat (t_valid t)))) tab (strides_of t)"
  unfolding chunked_def
proof (intro conjI allI impI)
  let ?v = "dat (t_valid t)" and ?s = "strides_of t"
  let ?L = "prod_list (drop a ?v)"
  show "\<exists>b \<le> length ?v. ?L = prod_list (drop b ?v)" using a(1) less_imp_le by blast
  fix len ratio i :: int
  assume b: "0 < len" "?L = ratio * len" "0 \<le> i" "(i + 1) * len \<le> prod_list ?v"
  note D = tensor_okD [OF ok]
  have len: "length (dat (t_shape t)) = length ?v" using D(5) [OF sub] by (simp add: fits_region_def)
  have pos: "all_pos (drop a ?v)" "all_pos (take a ?v)" using D(8) by (auto dest: in_set_dropD in_set_takeD)
  have L: "0 < ?L" using all_pos_prod [OF pos(1)] .
  then have r: "0 < ratio" using b(1,2) by (simp add: zero_less_mult_iff)
  have ls: "length ?s = length ?v" using sub len by (simp add: strides_of_def)
  have tail: "drop a ?s = dense_strides (drop a ?v)"
  proof (rule nth_equalityI)
    show "length (drop a ?s) = length (dense_strides (drop a ?v))" using ls by simp
    fix j assume j: "j < length (drop a ?s)"
    have "drop (Suc (a + j)) ?v = drop (Suc (a + j)) (dat (t_shape t))"
      using arg_cong [OF a(2), of "drop j"] by (simp add: add.commute)
    then show "drop a ?s ! j = dense_strides (drop a ?v) ! j"
      using j ls sub len by (simp add: strides_of_def dense_strides_nth add.commute)
  qed
  have x: "chunk_index (int a) ratio len tab ?s i = Inr ((i mod ratio) * len + offset_of (take a ?v) (take a ?s) (i div ratio))"
    by (rule chunk_index_ok [OF tab _ _ D(8) b(3) r]) (use a(1) ls in auto)
  have "element_address t (i * len + k) = origin t + ((i mod ratio) * len + offset_of (take a ?v) (take a ?s) (i div ratio)) + k"
    if k: "0 \<le> k" "k < len" for k
  proof -
    let ?n = "i * len + k"
    have n: "0 \<le> ?n" "?n < prod_list ?v" using k b by (auto simp: distrib_right)
    have m: "(i mod ratio) * len + k < ?L"
    proof -
      have "i mod ratio \<le> ratio - 1" using r by (simp add: zle_diff1_eq)
      then have "(i mod ratio) * len \<le> (ratio - 1) * len" using b(1) by (intro mult_right_mono) auto
      then show ?thesis using k b(2) by (simp add: left_diff_distrib)
    qed
    have eq: "?n = (i div ratio) * ?L + ((i mod ratio) * len + k)"
    proof -
      have "((i div ratio) * ratio + i mod ratio) * len = i * len" by simp
      then have "(i div ratio) * (ratio * len) + (i mod ratio) * len = i * len"
        by (simp only: distrib_right mult.assoc)
      then show ?thesis by (simp add: b(2))
    qed
    have z: "0 \<le> (i mod ratio) * len + k" using r b(1) k by simp
    have dm: "?n div ?L = i div ratio" "?n mod ?L = (i mod ratio) * len + k"
      unfolding eq using L z m by simp_all
    have whole: "take a ?v @ drop a ?v = ?v" "take a ?s @ drop a ?s = ?s" by simp_all
    have lt: "length (take a ?s) = length (take a ?v)" using ls by simp
    have "offset_of ?v ?s ?n = offset_of (take a ?v) (take a ?s) (?n div ?L) + offset_of (drop a ?v) (drop a ?s) (?n mod ?L)"
      using offset_of_append [OF lt pos(2,1), of ?n "drop a ?s"] n unfolding whole by simp
    also have "offset_of (drop a ?v) (drop a ?s) (?n mod ?L) = ?n mod ?L"
      unfolding tail by (rule offset_of_dense [OF pos(1)]) (use L in auto)
    finally show ?thesis by (simp add: element_address_def dm)
  qed
  with x show "\<exists>x. chunk_index (int a) ratio len tab ?s i = Inr x \<and>
      (\<forall>k. 0 \<le> k \<longrightarrow> k < len \<longrightarrow> element_address t (i * len + k) = origin t + x + k)"
    by blast
qed

end
