(* ===== verification/Tensor_Region.thy ===== *)
theory Tensor_Region
  imports Tensor_Copy
begin

text \<open>
  \<open>Tensor::copy_from\<close> on well-formed tensors with the same region: what its analysis of the two
  tensors yields, and that it returns and copies every element of the region and nothing else.
\<close>

lemma size_mult_exact: "0 \<le> a \<Longrightarrow> a < 2 ^ 31 \<Longrightarrow> L \<le> 8 \<Longrightarrow> size_mult a L = nat a * L"
proof -
  assume a: "0 \<le> a" "a < 2 ^ 31" "L \<le> 8"
  have "a * int L \<le> a * 8" using a by (intro mult_left_mono) auto
  then have "a * int L < 2 ^ 64" using a(2) by simp
  then show ?thesis using a(1) by (simp add: size_mult_def nat_mult_distrib)
qed

lemma total_bounds:
  assumes "tensor_ok dev m t"
  shows "0 < prod_list (dat (t_valid t))" "prod_list (dat (t_valid t)) < 2 ^ 31" "prod_list (dat (t_shape t)) < 2 ^ 31"
  using tensor_okD [OF assms] all_pos_prod by (auto simp: dense_def)

lemma tensor_analysis:
  assumes ok: "tensor_ok dev m t" and cont: "is_continue_mem t = Inr cont"
  defines "v \<equiv> dat (t_valid t)"
  shows "\<exists>axis L tab. discontinue v (if cont then v else dat (t_shape t)) (length v) = Inr axis \<and>
    chunk_length t v axis (tensor_dims t) = Inr L \<and> count_table v axis = Inr tab \<and> chunked t axis L tab (strides_of t)"
proof -
  note D = tensor_okD [OF ok] and T = total_bounds [OF ok]
  let ?sh = "if cont then v else dat (t_shape t)"
  have len: "length ?sh = length v"
    using D(5) cont by (auto simp: v_def is_continue_mem_def fits_region_def split: if_splits)
  consider "discontinue v ?sh (length v) = Inr (- 1)" "v = ?sh"
    | a where "discontinue v ?sh (length v) = Inr (int a)" "a < length v" "v ! a \<noteq> ?sh ! a"
    using discontinue_ok [of "length v" v ?sh] len by auto
  then show ?thesis
  proof cases
    case 1
    have "element_address t n = origin t + n" if n: "0 \<le> n" "n < prod_list v" for n
    proof (cases cont)
      case True
      then show ?thesis using continue_element_address [OF ok] cont n by (simp add: v_def)
    next
      case False
      then have "t_subbuf t" using cont by (auto simp: is_continue_mem_def split: if_splits)
      then have "strides_of t = dense_strides v" using 1(2) False by (simp add: strides_of_def)
      then show ?thesis using offset_of_dense [of v n] n D(8) by (simp add: element_address_def v_def)
    qed
    then have "chunked t (- 1) (prod_list v) [0, 1] (strides_of t)"
      unfolding v_def by (rule chunked_flat [OF ok])
    moreover have "chunk_length t v (- 1) (tensor_dims t) = Inr (prod_list v)"
      using T valid_size_ok [OF ok] by (simp add: chunk_length_def narrow32_nonneg v_def)
    ultimately show ?thesis using 1(1) count_table_none by blast
  next
    case (2 a)
    then have nc: "\<not> cont" by auto
    then have sub: "t_subbuf t" using cont by (auto simp: is_continue_mem_def split: if_splits)
    have d: "drop (Suc a) v = drop (Suc a) (dat (t_shape t))"
      using discontinue_drop [OF len 2(1)] nc by simp
    obtain tab where tab: "count_table v (int a) = Inr tab" "good_table v a tab"
      using count_table_ok [of a v] 2(2) by auto
    have "chunked t (int a) (prod_list (drop a v)) tab (strides_of t)"
      unfolding v_def by (rule chunked_rows [OF ok sub]) (use 2(2) d tab(2) in \<open>simp_all add: v_def\<close>)
    moreover have "chunk_length t v (int a) (tensor_dims t) = Inr (prod_list (drop a v))"
      using foldE_count [of "int a" "int (length v)" v 1] 2(2)
      by (simp add: chunk_length_def tensor_dims_def dims_def v_def)
    ultimately show ?thesis using 2(1) tab(1) by blast
  qed
qed

lemma chunk_divides:
  assumes "all_pos v" "L = prod_list (drop a v)" "L' = prod_list (drop b v)" "a \<le> b"
  shows "\<exists>r. 0 < r \<and> L = r * L'"
proof (intro exI conjI)
  show "0 < prod_list (take (b - a) (drop a v))"
    using assms(1) by (intro prod_list_pos) (auto dest: in_set_takeD in_set_dropD)
  have "drop a v = take (b - a) (drop a v) @ drop b v"
    using assms(4) by (metis append_take_drop_id drop_drop le_add_diff_inverse2)
  then show "L = prod_list (take (b - a) (drop a v)) * L'"
    using assms(2,3) by (metis prod_list.append)
qed

lemma common_chunk:
  assumes "all_pos v" "\<exists>a \<le> length v. L = prod_list (drop a v)" "\<exists>b \<le> length v. L' = prod_list (drop b v)"
  defines "len \<equiv> (if L < L' then L else L')"
  shows "0 < len" "\<exists>r > 0. L = r * len" "\<exists>r > 0. L' = r * len" "\<exists>r > 0. prod_list v = r * len"
proof -
  obtain a b where ab: "L = prod_list (drop a v)" "L' = prod_list (drop b v)" using assms(2,3) by auto
  have pos: "0 < L" "0 < L'"
    unfolding ab using assms(1) by (auto intro!: prod_list_pos dest: in_set_dropD)
  then show l: "0 < len" by (simp add: len_def)
  have le: "L' \<le> L" if "L = r * L'" "0 < r" for r
  proof -
    have "1 * L' \<le> r * L'" using that(2) pos by (intro mult_right_mono) auto
    then show ?thesis using that(1) by simp
  qed
  have le': "L \<le> L'" if "L' = r * L" "0 < r" for r
  proof -
    have "1 * L \<le> r * L" using that(2) pos by (intro mult_right_mono) auto
    then show ?thesis using that(1) by simp
  qed
  have tot: "\<exists>r > 0. prod_list v = r * prod_list (drop k v)" for k
    using chunk_divides [OF assms(1), of "prod_list v" 0 _ k] by auto
  show "\<exists>r > 0. prod_list v = r * len"
    using tot [of a] tot [of b] by (simp add: len_def ab)
  have self: "\<exists>r > 0. x = r * x" for x :: int by (intro exI [of _ 1]) simp
  consider "a \<le> b" | "b \<le> a" by linarith
  then have "(\<exists>r > 0. L = r * len) \<and> (\<exists>r > 0. L' = r * len)"
  proof cases
    case 1
    then obtain r where r: "0 < r" "L = r * L'" using chunk_divides [OF assms(1) ab] by auto
    then have "len = L'" using le [OF r(2,1)] by (auto simp: len_def)
    then show ?thesis using r self by auto
  next
    case 2
    then obtain r where r: "0 < r" "L' = r * L" using chunk_divides [OF assms(1) ab(2,1)] by auto
    then have "len = L" using le' [OF r(2,1)] by (auto simp: len_def)
    then show ?thesis using r self by auto
  qed
  then show "\<exists>r > 0. L = r * len" "\<exists>r > 0. L' = r * len" by auto
qed

section \<open>The copy returns and moves the region\<close>

text \<open>What \<open>copy_from\<close> asks of the two tensors, with the blocks and contents involved.\<close>

definition copy_setting :: "int \<Rightarrow> memory \<Rightarrow> tensor \<Rightarrow> tensor \<Rightarrow> nat \<Rightarrow> byte list \<Rightarrow> nat \<Rightarrow> byte list \<Rightarrow> bool" where
  "copy_setting dev m t src p xs q ys \<longleftrightarrow> tensor_ok dev m t \<and> tensor_ok dev m src \<and>
     dat (t_valid src) = dat (t_valid t) \<and> t_dtype src = t_dtype t \<and> t_type_len src = t_type_len t \<and> p \<noteq> q \<and>
     (\<exists>b. buf_at m (t_buf t) = Inr b \<and> b_data b = Some p) \<and> (\<exists>b. buf_at m (t_buf src) = Inr b \<and> b_data b = Some q) \<and>
     blocks (ram m) p = Some xs \<and> blocks (ram m) q = Some ys"

definition place :: "tensor \<Rightarrow> nat \<Rightarrow> nat" where
  "place t n = nat (element_address t (int n))"

definition total :: "tensor \<Rightarrow> nat" where
  "total t = nat (prod_list (dat (t_valid t)))"

lemma buffer_room:
  assumes "tensor_ok dev m t" "buf_at m (t_buf t) = Inr b" "b_data b = Some p" "blocks (ram m) p = Some xs"
  shows "b_id b = dev" "b_capacity b \<noteq> 0" "nat (prod_list (dat (t_shape t))) * t_type_len t \<le> length xs"
proof -
  have f: "b_id b = dev" "nat (prod_list (dat (t_shape t))) * t_type_len t \<le> b_capacity b" "b_capacity b \<le> length xs"
    using assms by (auto simp: tensor_ok_def block_at_def)
  have "0 < nat (prod_list (dat (t_shape t))) * t_type_len t"
    using tensor_okD(3,7) [OF assms(1)] all_pos_prod by simp
  with f show "b_id b = dev" "b_capacity b \<noteq> 0" "nat (prod_list (dat (t_shape t))) * t_type_len t \<le> length xs"
    by linarith+
qed

lemma place_room:
  assumes "tensor_ok dev m t" "buf_at m (t_buf t) = Inr b" "b_data b = Some p" "blocks (ram m) p = Some xs" "n < total t"
  shows "place t n * t_type_len t + t_type_len t \<le> length xs"
proof -
  have "element_address t (int n) < prod_list (dat (t_shape t))" "0 \<le> element_address t (int n)"
    using element_address_bounds [OF assms(1), of "int n"] assms(5) by (auto simp: total_def)
  then have "place t n + 1 \<le> nat (prod_list (dat (t_shape t)))" by (simp add: place_def nat_less_iff Suc_le_eq)
  from mult_le_mono1 [OF this, of "t_type_len t"] buffer_room(3) [OF assms(1-4)] show ?thesis by simp
qed

lemma place_inj:
  assumes "tensor_ok dev m t" "N \<le> total t"
  shows "inj_on (place t) {..<N}"
proof (rule inj_onI)
  fix i j assume a: "i \<in> {..<N}" "j \<in> {..<N}" "place t i = place t j"
  then have r: "0 \<le> int i" "int i < prod_list (dat (t_valid t))" "0 \<le> int j" "int j < prod_list (dat (t_valid t))"
    using assms(2) by (auto simp: total_def)
  then have "element_address t (int i) = element_address t (int j)"
    using a(3) element_address_bounds [OF assms(1) r(1,2)] element_address_bounds [OF assms(1) r(3,4)]
    by (simp add: place_def eq_nat_nat_iff)
  then show "i = j" using element_address_inj [OF assms(1) r] by simp
qed

text \<open>The position of a chunk as \<open>memcpy\<close> receives it.\<close>

lemma chunk_place:
  assumes ok: "tensor_ok dev m t" and a: "0 \<le> a" "a < prod_list (dat (t_valid t))" "element_address t a = origin t + x"
  shows "size_mult (origin t + x) (t_type_len t) = place t (nat a) * t_type_len t"
  using size_mult_exact [of "origin t + x" "t_type_len t"] element_address_bounds [OF ok a(1,2)]
    total_bounds(3) [OF ok] tensor_okD(4) [OF ok] a by (simp add: place_def)

lemma place_run:
  assumes ok: "tensor_ok dev m t" and a: "0 \<le> a" "a + k < prod_list (dat (t_valid t))" "0 \<le> k"
    and e: "element_address t a = origin t + x" "element_address t (a + k) = origin t + x + k"
  shows "place t (nat a + nat k) = place t (nat a) + nat k"
proof -
  have "0 \<le> origin t + x" using element_address_bounds [OF ok a(1)] a e by simp
  moreover have "int (nat a + nat k) = a + k" using a by simp
  ultimately show ?thesis using a e by (simp add: place_def nat_add_distrib)
qed

lemma total_int: "tensor_ok dev m t \<Longrightarrow> int (total t) = prod_list (dat (t_valid t))"
  using total_bounds(1) [of dev m t] by (simp add: total_def)

lemma chunked_at:
  assumes ok: "tensor_ok dev m t" and ch: "chunked t ax L tab str" and l: "0 < len" "L = r * int len"
    and i: "i < cnt" "total t = cnt * len"
  shows "\<exists>x. chunk_index ax r (int len) tab str (int i) = Inr x \<and>
     size_mult (origin t + x) (t_type_len t) = place t (i * len) * t_type_len t \<and>
     (\<forall>k < len. place t (i * len + k) = place t (i * len) + k)"
proof -
  have T: "prod_list (dat (t_valid t)) = int cnt * int len"
    using total_int [OF ok] i(2) by simp
  have le: "(int i + 1) * int len \<le> int cnt * int len"
    using i(1) by (intro mult_right_mono) auto
  obtain x where x: "chunk_index ax r (int len) tab str (int i) = Inr x"
    "\<And>k. 0 \<le> k \<Longrightarrow> k < int len \<Longrightarrow> element_address t (int i * int len + k) = origin t + x + k"
    using ch l le unfolding chunked_def T by (metis of_nat_0_le_iff of_nat_0_less_iff)
  have in_total: "int i * int len + k < prod_list (dat (t_valid t))" if "0 \<le> k" "k < int len" for k
    using le that unfolding T by (simp add: distrib_right)
  have e0: "element_address t (int i * int len) = origin t + x" using x(2) [of 0] l(1) by simp
  have "size_mult (origin t + x) (t_type_len t) = place t (nat (int i * int len)) * t_type_len t"
    by (rule chunk_place [OF ok _ _ e0]) (use in_total [of 0] l(1) in auto)
  moreover have "place t (nat (int i * int len) + nat (int k)) = place t (nat (int i * int len)) + nat (int k)" if "k < len" for k
    by (rule place_run [OF ok _ in_total _ e0 x(2)]) (use that in auto)
  moreover have "nat (int i * int len) = i * len" by (simp add: nat_mult_distrib)
  ultimately show ?thesis using x(1) by auto
qed

text \<open>The loop of \<open>copy_from\<close>, with the analysis of both tensors.\<close>

lemma region_loop:
  assumes S: "copy_setting dev m t src p xs q ys"
    and cd: "chunked t axd Ld tabd strd" "0 < len" "Ld = rd * int len"
    and cs: "chunked src axs Ls tabs strs" "Ls = rs * int len"
    and cnt: "total t = cnt * len"
  shows "\<exists>xs'. foldE (\<lambda>i h.
      bindE (chunk_index axd rd (int len) tabd strd i) (\<lambda>idx_dst.
      bindE (chunk_index axs rs (int len) tabs strs i) (\<lambda>idx_src.
      sync_memcpy h (Some p) (size_mult (origin t + idx_dst) (t_type_len t))
        (Some q) (size_mult (origin src + idx_src) (t_type_len t)) (size_mult (int len) (t_type_len t)))))
    [0..int cnt - 1] (ram m) = Inr ((ram m)\<lparr>blocks := (blocks (ram m))(p \<mapsto> xs')\<rparr>) \<and>
    copied (place t) (place src) (t_type_len t) (total t) xs ys xs'"
proof -
  have ok: "tensor_ok dev m t" "tensor_ok dev m src" and L: "t_type_len src = t_type_len t" and pq: "p \<noteq> q"
    and h: "blocks (ram m) p = Some xs" "blocks (ram m) q = Some ys" and eqt: "total src = total t"
    using S by (auto simp: copy_setting_def total_def)
  obtain b c where b: "buf_at m (t_buf t) = Inr b" "b_data b = Some p" and c: "buf_at m (t_buf src) = Inr c" "b_data c = Some q"
    using S by (auto simp: copy_setting_def)
  note D = chunked_at [OF ok(1) cd(1-3) _ cnt] and C = chunked_at [OF ok(2) cs(1) cd(2) cs(2) _ cnt [folded eqt]]
  have "int len \<le> int cnt * int len \<or> cnt = 0" by (cases cnt) (auto simp: distrib_right)
  then have "int len < 2 ^ 31 \<or> cnt = 0"
    using total_bounds(2) [OF ok(1)] total_int [OF ok(1)] cnt by auto
  then have sl: "size_mult (int len) (t_type_len t) = len * t_type_len t" if "i < cnt" for i
    using that size_mult_exact [of "int len" "t_type_len t"] tensor_okD(4) [OF ok(1)] by auto
  let ?body = "\<lambda>i h. bindE (chunk_index axd rd (int len) tabd strd i) (\<lambda>idx_dst.
      bindE (chunk_index axs rs (int len) tabs strs i) (\<lambda>idx_src.
      sync_memcpy h (Some p) (size_mult (origin t + idx_dst) (t_type_len t))
        (Some q) (size_mult (origin src + idx_src) (t_type_len t)) (size_mult (int len) (t_type_len t))))"
  have "\<exists>xs'. foldE ?body [0..int cnt - 1] (ram m) = Inr ((ram m)\<lparr>blocks := (blocks (ram m))(p \<mapsto> xs')\<rparr>) \<and>
    copied (place t) (place src) (t_type_len t) (cnt * len) xs ys xs'"
  proof (rule chunk_copies [OF h pq, where cnt = cnt])
    show "?body (int i) h' = sync_memcpy h' (Some p) (place t (i * len) * t_type_len t) (Some q)
        (place src (i * len) * t_type_len t) (len * t_type_len t)" if "i < cnt" for i h'
      using D [OF that] C [OF that] sl [OF that] L by auto
    show "place t (i * len + k) = place t (i * len) + k" if "i < cnt" "k < len" for i k
      using D [OF that(1)] that(2) by blast
    show "place src (i * len + k) = place src (i * len) + k" if "i < cnt" "k < len" for i k
      using C [OF that(1)] that(2) by blast
    show "inj_on (place t) {..<cnt * len}" by (rule place_inj [OF ok(1)]) (simp add: cnt)
    show "place t n * t_type_len t + t_type_len t \<le> length xs" if "n < cnt * len" for n
      by (rule place_room [OF ok(1) b h(1)]) (use that cnt in simp)
    show "place src n * t_type_len t + t_type_len t \<le> length ys" if "n < cnt * len" for n
      using place_room [OF ok(2) c h(2), of n] that cnt eqt L by simp
  qed (use tensor_okD(3) [OF ok(1)] in auto)
  then show ?thesis by (simp add: cnt)
qed

lemma setting_parts:
  assumes "copy_setting dev m t src p xs q ys"
  obtains b c where "tensor_ok dev m t" "tensor_ok dev m src" "dat (t_valid src) = dat (t_valid t)"
    "buf_at m (t_buf t) = Inr b" "b_data b = Some p" "tensor_data dev m src = Inr (Some q)"
    "t_dtype src = t_dtype t" "b_capacity b \<noteq> 0"
proof -
  have ok: "tensor_ok dev m t" "tensor_ok dev m src"
    and h: "blocks (ram m) p = Some xs" "blocks (ram m) q = Some ys"
    and eq: "dat (t_valid src) = dat (t_valid t)" "t_dtype src = t_dtype t"
    using assms by (auto simp: copy_setting_def)
  obtain b c where b: "buf_at m (t_buf t) = Inr b" "b_data b = Some p" and c: "buf_at m (t_buf src) = Inr c" "b_data c = Some q"
    using assms by (auto simp: copy_setting_def)
  have "tensor_data dev m src = Inr (Some q)"
    using buffer_room [OF ok(2) c h(2)] c by (simp add: tensor_data_def device_id_def check_def)
  with ok eq b buffer_room(2) [OF ok(1) b h(1)] show ?thesis using that by blast
qed

lemma copy_chunks_ok:
  assumes S: "copy_setting dev m t src p xs q ys"
  shows "\<exists>xs'. copy_chunks sync_memcpy dev m t src = Inr (m\<lparr>ram := (ram m)\<lparr>blocks := (blocks (ram m))(p \<mapsto> xs')\<rparr>\<rparr>) \<and>
    copied (place t) (place src) (t_type_len t) (total t) xs ys xs'"
proof -
  obtain b c where ok: "tensor_ok dev m t" "tensor_ok dev m src" and eq: "dat (t_valid src) = dat (t_valid t)"
    and b: "buf_at m (t_buf t) = Inr b" "b_data b = Some p" and q: "tensor_data dev m src = Inr (Some q)"
    by (rule setting_parts [OF S])
  let ?v = "dat (t_valid t)"
  obtain cd cs where cont: "is_continue_mem t = Inr cd" "is_continue_mem src = Inr cs"
    using continue_mem_total ok by blast
  obtain axd Ld tabd where d: "discontinue ?v (if cd then ?v else dat (t_shape t)) (length ?v) = Inr axd"
    "chunk_length t ?v axd (tensor_dims t) = Inr Ld" "count_table ?v axd = Inr tabd"
    and chd: "chunked t axd Ld tabd (strides_of t)"
    using tensor_analysis [OF ok(1) cont(1)] by blast
  obtain axs Ls tabs where s: "discontinue ?v (if cs then ?v else dat (t_shape src)) (length ?v) = Inr axs"
    "chunk_length src ?v axs (tensor_dims src) = Inr Ls" "count_table ?v axs = Inr tabs"
    and chs: "chunked src axs Ls tabs (strides_of src)"
    using tensor_analysis [OF ok(2) cont(2)] unfolding eq by blast
  define len where "len = (if Ld < Ls then Ld else Ls)"
  note cc = common_chunk [OF tensor_okD(8) [OF ok(1)], of Ld Ls, folded len_def]
  have suffix: "\<exists>a \<le> length ?v. Ld = prod_list (drop a ?v)" "\<exists>a \<le> length ?v. Ls = prod_list (drop a ?v)"
    using chd chs unfolding chunked_def eq by blast+
  obtain rd rs cnt where l: "0 < len" and r: "0 < rd" "Ld = rd * len" "0 < rs" "Ls = rs * len"
    "0 < cnt" "prod_list ?v = cnt * len"
    using cc [OF suffix] by blast
  obtain st ss where str: "tensor_stride t = Inr st" "dat st = strides_of t" "tensor_stride src = Inr ss" "dat ss = strides_of src"
    using tensor_stride_ok ok by metis
  have le: "cnt \<le> prod_list ?v" using l r by simp
  then have n32: "narrow32 cnt = cnt" using total_bounds [OF ok(1)] r(5) by (intro narrow32_nonneg) auto
  have div: "cdiv (prod_list ?v) len = Inr cnt" "cdiv Ld len = Inr rd" "cdiv Ls len = Inr rs"
    using l r by (simp_all add: cdiv_pos)
  have tot: "total t = nat cnt * nat len" using l r by (simp add: total_def nat_mult_distrib)
  note off = data_offset_ok [OF ok(1)] data_offset_ok [OF ok(2)] valid_size_ok [OF ok(1)]
  from region_loop [OF S chd _ _ chs _ tot, of rd rs] l r
  obtain xs' where run: "foldE (\<lambda>i h.
      bindE (chunk_index axd rd len tabd (strides_of t) i) (\<lambda>idx_dst.
      bindE (chunk_index axs rs len tabs (strides_of src) i) (\<lambda>idx_src.
      sync_memcpy h (Some p) (size_mult (origin t + idx_dst) (t_type_len t))
        (Some q) (size_mult (origin src + idx_src) (t_type_len t)) (size_mult len (t_type_len t)))))
    [0..cnt - 1] (ram m) = Inr ((ram m)\<lparr>blocks := (blocks (ram m))(p \<mapsto> xs')\<rparr>)"
    and cp: "copied (place t) (place src) (t_type_len t) (total t) xs ys xs'" by auto
  have "copy_chunks sync_memcpy dev m t src = Inr (m\<lparr>ram := (ram m)\<lparr>blocks := (blocks (ram m))(p \<mapsto> xs')\<rparr>\<rparr>)"
    unfolding copy_chunks_def Let_def eq
    by (simp only: cont d s str off div n32 b q run bindE_simps len_def [symmetric])
  with cp show ?thesis by blast
qed

lemma copy_flat_ok:
  assumes S: "copy_setting dev m t src p xs q ys" and cont: "is_continue_mem t = Inr True" "is_continue_mem src = Inr True"
  shows "\<exists>xs'. copy_flat sync_memcpy dev m t src = Inr (m\<lparr>ram := (ram m)\<lparr>blocks := (blocks (ram m))(p \<mapsto> xs')\<rparr>\<rparr>) \<and>
    copied (place t) (place src) (t_type_len t) (total t) xs ys xs'"
proof -
  obtain b c where ok: "tensor_ok dev m t" "tensor_ok dev m src" and eq: "dat (t_valid src) = dat (t_valid t)"
    and b: "buf_at m (t_buf t) = Inr b" "b_data b = Some p" and q: "tensor_data dev m src = Inr (Some q)"
    by (rule setting_parts [OF S])
  let ?n = "prod_list (dat (t_valid t))"
  note T = total_bounds [OF ok(1)]
  have ch: "chunked t (- 1) ?n [] []" "chunked src (- 1) ?n [] []"
    using chunked_flat [OF ok(1)] continue_element_address [OF ok(1) cont(1)]
      chunked_flat [OF ok(2)] continue_element_address [OF ok(2) cont(2)] by (auto simp: eq)
  have len: "int (total t) = ?n" "0 < total t" using T by (simp_all add: total_int [OF ok(1)] total_def)
  have ix: "chunk_index (- 1) 1 ?n [] [] 0 = Inr 0" by (simp add: chunk_index_none)
  have one: "[0..int 1 - 1] = [0 :: int]" by simp
  have tail: "bindE r (foldE f []) = r" for r :: "store outcome" and f :: "int \<Rightarrow> store \<Rightarrow> store outcome"
    by (cases r) simp_all
  have div: "?n = 1 * int (total t)" "total t = 1 * total t" using len by simp_all
  obtain xs' where run: "sync_memcpy (ram m) (Some p) (size_mult (origin t) (t_type_len t)) (Some q)
      (size_mult (origin src) (t_type_len t)) (size_mult ?n (t_type_len t)) = Inr ((ram m)\<lparr>blocks := (blocks (ram m))(p \<mapsto> xs')\<rparr>)"
    and cp: "copied (place t) (place src) (t_type_len t) (total t) xs ys xs'"
    using region_loop [OF S ch(1) len(2) div(1) ch(2) div]
    unfolding one foldE.simps len(1) ix bindE_simps tail by (auto simp only: add_0_right)
  have "copy_flat sync_memcpy dev m t src = Inr (m\<lparr>ram := (ram m)\<lparr>blocks := (blocks (ram m))(p \<mapsto> xs')\<rparr>\<rparr>)"
    unfolding copy_flat_def
    by (simp only: data_offset_ok [OF ok(1)] data_offset_ok [OF ok(2)] valid_size_ok [OF ok(1)] b q run bindE_simps)
  with cp show ?thesis by blast
qed

lemma copy_from_ok:
  assumes S: "copy_setting dev m t src p xs q ys"
  shows "\<exists>xs'. tensor_copy_from sync_memcpy dev m t src
      = Inr (SaberSuccess, m\<lparr>ram := (ram m)\<lparr>blocks := (blocks (ram m))(p \<mapsto> xs')\<rparr>\<rparr>, t) \<and>
    copied (place t) (place src) (t_type_len t) (total t) xs ys xs'"
proof -
  obtain b c where ok: "tensor_ok dev m t" "tensor_ok dev m src" and eq: "dat (t_valid src) = dat (t_valid t)" "t_dtype src = t_dtype t"
    and b: "buf_at m (t_buf t) = Inr b" "b_capacity b \<noteq> 0"
    by (rule setting_parts [OF S])
  have prep: "copy_prepare dev m t src = Inr (m, t)"
    using b eq by (simp add: copy_prepare_def valid_size_ok [OF ok(1)] valid_size_ok [OF ok(2)])
  obtain cd cs where cont: "is_continue_mem t = Inr cd" "is_continue_mem src = Inr cs"
    using continue_mem_total ok by blast
  have "copy_region sync_memcpy dev m t src
      = (if cd \<and> cs then copy_flat sync_memcpy dev m t src else copy_chunks sync_memcpy dev m t src)"
    by (simp add: copy_region_def cont)
  then obtain xs' where "copy_region sync_memcpy dev m t src = Inr (m\<lparr>ram := (ram m)\<lparr>blocks := (blocks (ram m))(p \<mapsto> xs')\<rparr>\<rparr>)"
    "copied (place t) (place src) (t_type_len t) (total t) xs ys xs'"
    using copy_chunks_ok [OF S] copy_flat_ok [OF S] cont by (cases "cd \<and> cs") auto
  then show ?thesis by (auto simp: tensor_copy_from_def prep)
qed

end
