(* ===== verification/Tensor_Shapes.thy ===== *)
theory Tensor_Shapes
  imports Tensor_Region
begin

text \<open>
  The shape setters and the sharing operations of \<open>Tensor\<close> on well-formed shapes: what they
  return, and that the tensor they leave is well-formed.
\<close>

lemma wf_assign: "wf_shape v \<Longrightarrow> shape_assign s v = Inr v"
  by (simp add: wf_shape_assign)

lemma dense_wf: "dense s \<Longrightarrow> wf_shape s"
  by (simp add: dense_def)

lemma dense_zero: "dense s \<Longrightarrow> shape_zero s = Inr (s\<lparr>dat := map (\<lambda>_. 0) (dat s)\<rparr>)"
  by (rule wf_shape_zero [OF dense_wf])

lemma check_positive_ok: "dense v \<Longrightarrow> check_positive v = Inr ()"
  by (simp add: check_positive_def dense_zero shape_gt_only_size)

lemma no_shape: "opt_shape None = Inr \<lparr>dat = [], lay = LObj Layout_NCHW\<rparr>"
  by (simp add: opt_shape_def shape_default_def)

lemma dense_count: "dense s \<Longrightarrow> count s = Inr (prod_list (dat s))"
  by (simp add: count_from_dense dense_def)

lemma dense_prod: "dense s \<Longrightarrow> 0 < prod_list (dat s)" "dense s \<Longrightarrow> prod_list (dat s) < 2 ^ 31"
  using all_pos_prod dense_pos by (auto simp: dense_def)

lemma zero_wf: "dense s \<Longrightarrow> layout_inner_c (case lay s of LObj l \<Rightarrow> l | _ \<Rightarrow> Layout_W) = -1 \<Longrightarrow>
    wf_shape (s\<lparr>dat := map (\<lambda>_. 0) (dat s)\<rparr>)"
  by (auto simp: dense_def wf_shape_def split: layout_ptr.splits)

lemma assign_zero: "dense s \<Longrightarrow> \<exists>z. shape_assign u (s\<lparr>dat := map (\<lambda>_. 0) (dat s)\<rparr>) = Inr z"
  by (auto simp: dense_def shape_assign_def get_layout_def create_layout_class Let_def dest!: wf_shape_obj)

text \<open>A tensor of its own after \<open>reshape\<close> or \<open>set_shape\<close>.\<close>

lemma place_region_own:
  assumes "\<not> t_subbuf t" "dense (t_shape t)" "dense (t_valid t)" "dense v"
  shows "\<exists>off. place_region smaller t v z = Inr (t\<lparr>t_shape :=
     (if smaller (prod_list (dat (t_shape t))) (prod_list (dat (t_valid t))) then t_valid t else t_shape t), t_offset := off\<rparr>)"
proof -
  obtain off where "shape_assign (t_offset t) (v\<lparr>dat := map (\<lambda>_. 0) (dat v)\<rparr>) = Inr off"
    using assign_zero [OF assms(4)] by blast
  then show ?thesis
    using assms by (auto simp: place_region_def dense_count dense_zero wf_assign dense_wf)
qed

lemma reshape_ok:
  assumes ok: "tensor_ok dev m t" "\<not> t_subbuf t" and v: "dense v"
    and b: "buf_at m (t_buf t) = Inr b" "buf_ok dev (ram m) b" "fresh_beyond (ram m)" "\<And>a. grants (ram m) a"
    and room: "nat (prod_list (dat v)) * t_type_len t \<le> b_capacity b \<or> own_data b \<and> \<not> t_shared t"
  shows "\<exists>m' t'. reshape dev m t v None None = Inr (SaberSuccess, m', t') \<and> tensor_ok dev m' t' \<and> t_valid t' = v"
proof -
  note D = tensor_okD [OF ok(1)]
  let ?S = "if prod_list (dat (t_shape t)) < prod_list (dat v) then v else t_shape t"
  obtain off where off: "place_region (<) (t\<lparr>t_valid := v\<rparr>) v v = Inr (t\<lparr>t_valid := v, t_shape := ?S, t_offset := off\<rparr>)"
    using place_region_own [of "t\<lparr>t_valid := v\<rparr>" v "(<)" v] ok(2) D(1) v
    by (cases "prod_list (dat (t_shape t)) < prod_list (dat v)") auto
  define t' where "t' = t\<lparr>t_valid := v, t_shape := ?S, t_offset := off\<rparr>"
  have S: "dense ?S" using D(1) v by simp
  define need where "need = nat (prod_list (dat ?S)) * t_type_len t"
  have need: "size_mult (prod_list (dat ?S)) (t_type_len t) = need"
    using size_mult_exact [of "prod_list (dat ?S)" "t_type_len t"] dense_prod [OF S] D(4) by (simp add: need_def)
  obtain p xs where p: "b_data b = Some p" "blocks (ram m) p = Some xs" "b_capacity b \<le> length xs"
    and cap: "nat (prod_list (dat (t_shape t))) * t_type_len t \<le> b_capacity b"
    using ok(1) b(1) by (auto simp: tensor_ok_def block_at_def split: sum.splits option.splits)
  have exceed: "need \<le> b_capacity b \<or> own_data b \<and> \<not> t_shared t"
    using room cap by (auto simp: need_def)
  obtain h' b' where r: "buf_re_alloc dev (ram m) b need = Inr (SaberSuccess, h', b')"
    and b': "b_id b' = dev" "need \<le> b_capacity b'" "\<exists>xs. block_at h' (b_data b') = Inr xs \<and> b_capacity b' \<le> length xs"
  proof (cases "need > b_capacity b")
    case True
    obtain h1 b1 F where c: "buf_clean (ram m) b = Inr (h1, b1)" "b_id b1 = dev" "evolves (ram m) F h1"
      using clean_ok [OF b(3,2)] by metis
    have g: "grants h1 = grants (ram m)"
      using c(1) by (auto simp: buf_clean_def mem_free_def fast_free_def block_at_def split: if_splits option.splits)
    have "own_data b" "b_id b = dev" using True exceed b(2) by (auto simp: buf_ok_def)
    moreover have "fits need"
    proof -
      have "need \<le> nat (prod_list (dat ?S)) * 8" using D(4) by (simp add: need_def)
      then show ?thesis using dense_prod [OF S] by (simp add: fits_def)
    qed
    ultimately show ?thesis
      using True c(1,2) b(4) g that by (simp add: buf_re_alloc_def malloc_total block_at_def)
  next
    case False
    then show ?thesis
      using that [of "ram m" "b\<lparr>b_count := need\<rparr>"] p b(2) by (simp add: buf_re_alloc_def block_at_def buf_ok_def)
  qed
  have fits: "need \<le> b_capacity b \<or> \<not> t_shared t" using exceed by blast
  have run: "reshape dev m t v None None = Inr (SaberSuccess, put_buf m (t_buf t) h' b', t')"
    using v fits off b(1) r S ok(2)
    by (simp add: reshape_def dense_wf no_shape take_shapes_def dims_def check_positive_ok wf_assign
        t'_def dense_count need check_def saber_check_def not_less)
  obtain k where k: "t_buf t = Some k" using b(1) by (auto simp: buf_at_def split: option.splits)
  have "tensor_ok dev (put_buf m (t_buf t) h' b') t'"
    using ok(2) D(1,3,4) S v b' k unfolding tensor_ok_def
    by (auto simp: t'_def put_buf_def buf_at_def need_def)
  then show ?thesis using run by (auto simp: t'_def)
qed

text \<open>A part of a tensor.\<close>

lemma zip_loop:
  assumes "length as \<le> length bs" "k \<le> length as" "length as \<le> length xs"
  shows "\<exists>ys. foldE (\<lambda>i xs. bindE (at as i) (\<lambda>a. bindE (at bs i) (\<lambda>b. put xs i (f a b)))) [int k..int (length as) - 1] xs
      = Inr ys \<and> length ys = length xs \<and> (\<forall>i < k. ys ! i = xs ! i) \<and> (\<forall>i. k \<le> i \<and> i < length as \<longrightarrow> ys ! i = f (as ! i) (bs ! i))"
  using assms(2,3)
proof (induction "length as - k" arbitrary: k xs)
  case 0
  then show ?case by auto
next
  case (Suc m)
  let ?f = "\<lambda>i xs. bindE (at as i) (\<lambda>a. bindE (at bs i) (\<lambda>b. put xs i (f a b)))"
  have k: "k < length as" using Suc.hyps(2) by simp
  have up: "[int k..int (length as) - 1] = int k # [int (Suc k)..int (length as) - 1]"
    using k by (simp add: upto_rec1 add.commute)
  define xs1 where "xs1 = xs[k := f (as ! k) (bs ! k)]"
  have step: "?f (int k) xs = Inr xs1" using k assms(1) Suc.prems(2) by (simp add: put_def xs1_def)
  have "\<exists>ys. foldE ?f [int (Suc k)..int (length as) - 1] xs1 = Inr ys \<and> length ys = length xs1 \<and>
      (\<forall>i < Suc k. ys ! i = xs1 ! i) \<and> (\<forall>i. Suc k \<le> i \<and> i < length as \<longrightarrow> ys ! i = f (as ! i) (bs ! i))"
    by (rule Suc.hyps(1)) (use Suc.hyps(2) Suc.prems(2) k in \<open>auto simp: xs1_def\<close>)
  then obtain ys where ys: "foldE ?f [int (Suc k)..int (length as) - 1] xs1 = Inr ys" "length ys = length xs1"
    "\<And>i. i < Suc k \<Longrightarrow> ys ! i = xs1 ! i" "\<And>i. Suc k \<le> i \<Longrightarrow> i < length as \<Longrightarrow> ys ! i = f (as ! i) (bs ! i)" by blast
  have "ys ! i = f (as ! i) (bs ! i)" if "k \<le> i" "i < length as" for i
    using ys(3) [of i] ys(4) [of i] that k Suc.prems(2) by (cases "i = k") (auto simp: xs1_def)
  moreover have "ys ! i = xs ! i" if "i < k" for i using ys(3) [of i] that by (simp add: xs1_def)
  ultimately show ?case
    unfolding up foldE.simps step bindE_simps using ys(1,2) by (auto simp: xs1_def)
qed

lemma shape_add_nth:
  assumes "wf_shape s" "length (dat s) = length (dat t)"
  shows "\<exists>u. shape_add s t = Inr u \<and> length (dat u) = length (dat s) \<and> (\<forall>i < length (dat s). dat u ! i = dat s ! i + dat t ! i)"
  using zip_loop [of "dat s" "dat t" 0 "dat s" "(+)"] assms
  by (auto simp: shape_add_def shape_zipE_def dims_def)

lemma share_sub_iff:
  assumes ok: "tensor_ok dev m src" and v: "dense v" "length (dat off) = length (dat v)" "wf_shape off"
    and b: "buf_at m (t_buf src) = Inr b"
    and run: "share_sub_buffer t src v off = Inr (st, t')"
  shows "st = SaberSuccess" "t_valid t' = v" "t_offset t' = off" "t_buf t' = t_buf src"
    "tensor_ok dev m t' \<longleftrightarrow> (\<forall>d \<in> set (dat off). 0 \<le> d) \<and> 0 < t_type_len t \<and> t_type_len t \<le> 8 \<and>
       nat (prod_list (dat (t_shape src))) * t_type_len t \<le> b_capacity b"
proof -
  note D = tensor_okD [OF ok(1)]
  obtain u where u: "shape_add off v = Inr u" "length (dat u) = length (dat off)"
    "\<And>i. i < length (dat off) \<Longrightarrow> dat u ! i = dat off ! i + dat v ! i"
    using shape_add_nth [OF v(3,2)] by blast
  have le: "shape_le u (t_shape src)"
    and t': "st = SaberSuccess" "t' = t\<lparr>t_valid := v, t_offset := off, t_shape := t_shape src, t_buf := t_buf src,
       t_subbuf := True, t_shared := True, t_seq := t_seq src\<rparr>"
    using run v D(1) by (auto simp: share_sub_buffer_def dense_wf wf_assign tensor_shape_def u(1))
  have fit: "fits_region (dat off) (dat v) (dat (t_shape src)) \<longleftrightarrow> (\<forall>d \<in> set (dat off). 0 \<le> d)"
  proof -
    have l: "length (dat off) = length (dat v)" "length (dat v) = length (dat (t_shape src))"
      using le u(2) v(2) by (simp_all add: shape_le_nth)
    have s: "dat off ! i + dat v ! i \<le> dat (t_shape src) ! i" if "i < length (dat off)" for i
      using le u that by (simp add: shape_le_nth)
    show ?thesis using l s unfolding fits_region_def all_set_conv_all_nth by auto
  qed
  obtain xs where b': "b_id b = dev" "block_at (ram m) (b_data b) = Inr xs" "b_capacity b \<le> length xs"
    using ok b by (auto simp: tensor_ok_def split: sum.splits)
  show "tensor_ok dev m t' \<longleftrightarrow> (\<forall>d \<in> set (dat off). 0 \<le> d) \<and> 0 < t_type_len t \<and> t_type_len t \<le> 8 \<and>
       nat (prod_list (dat (t_shape src))) * t_type_len t \<le> b_capacity b"
    unfolding fit [symmetric] tensor_ok_def t'(2) using b b' D(1) v(1) by auto
  show "st = SaberSuccess" "t_valid t' = v" "t_offset t' = off" "t_buf t' = t_buf src" by (simp_all add: t')
qed

section \<open>Tensors for the witnesses\<close>

definition plain_tensor :: "int list \<Rightarrow> tensor" where
  "plain_tensor xs = \<lparr>t_dtype = AK_FLOAT, t_type_len = 4, t_buf_dtype = AK_FLOAT, t_shape = mk_shape xs Layout_NCHW,
     t_valid = mk_shape xs Layout_NCHW, t_offset = mk_shape (map (\<lambda>_. 0) xs) Layout_NCHW, t_buf = None,
     t_subbuf = False, t_shared = False, t_seq = [], t_scale = [], t_scale_buf = buf_default 0, t_positive = False\<rparr>"

lemma plain_tensor_fields [simp]:
  "t_valid (plain_tensor xs) = mk_shape xs Layout_NCHW" "t_shape (plain_tensor xs) = mk_shape xs Layout_NCHW"
  "t_subbuf (plain_tensor xs) = False" "t_seq (plain_tensor xs) = []"
  by (simp_all add: plain_tensor_def)

lemma nchw_dense: "0 < n \<Longrightarrow> 0 < c \<Longrightarrow> 0 < h \<Longrightarrow> 0 < w \<Longrightarrow> n * (c * (h * w)) < 2 ^ 31 \<Longrightarrow> dense (mk_shape [n, c, h, w] Layout_NCHW)"
  by (simp add: dense_def wf_shape_def unaligned_def positive_def)

end
