(* ===== verification/Tensor_Properties.thy ===== *)
theory Tensor_Properties
  imports Tensor_Shapes
begin

text \<open>
  The properties of tensors: the copy of a region is right when the two regions have the same shape
  and not otherwise, and the operations that give a tensor its memory or a part of another tensor
  make it well-formed.
\<close>

section \<open>Elements by their index\<close>

definition element_pos :: "tensor \<Rightarrow> int list \<Rightarrow> nat" where
  "element_pos t ix = (case tensor_stride t of Inl _ \<Rightarrow> 0
     | Inr st \<Rightarrow> nat (dot (if t_subbuf t then map2 (+) (dat (t_offset t)) ix else ix) (dat st)))"

definition element_at :: "memory \<Rightarrow> tensor \<Rightarrow> int list \<Rightarrow> byte list outcome" where
  "element_at m t ix =
     bindE (buf_at m (t_buf t)) (\<lambda>b.
     read_bytes (ram m) (b_data b) (element_pos t ix * t_type_len t) (t_type_len t))"

lemma element_pos_place:
  assumes ok: "tensor_ok dev m t" and ix: "in_box (dat (t_valid t)) ix"
  shows "element_pos t ix = place t (nat (row_pos (dat (t_valid t)) ix))"
    "nat (row_pos (dat (t_valid t)) ix) < total t"
proof -
  note D = tensor_okD [OF ok]
  note r = row_pos_bounds [OF ix D(8)]
  show "nat (row_pos (dat (t_valid t)) ix) < total t" using r by (simp add: total_def nat_less_iff)
  obtain st where st: "tensor_stride t = Inr st" "dat st = strides_of t" using tensor_stride_ok [OF ok] by blast
  have len: "length ix = length (dat (t_valid t))" using ix by (simp add: in_box_def list_all2_lengthD)
  have ls: "length (strides_of t) = length (dat (t_valid t))"
    using D(5) by (auto simp: strides_of_def fits_region_def)
  have "offset_of (dat (t_valid t)) (strides_of t) (row_pos (dat (t_valid t)) ix) = dot ix (strides_of t)"
    by (rule offset_of_row_pos [OF ix D(8) ls])
  then have "element_address t (row_pos (dat (t_valid t)) ix)
      = dot (if t_subbuf t then map2 (+) (dat (t_offset t)) ix else ix) (strides_of t)"
    using dot_add [of "dat (t_offset t)" ix "strides_of t"] D(5) len ls
    by (auto simp: element_address_def origin_def fits_region_def)
  then show "element_pos t ix = place t (nat (row_pos (dat (t_valid t)) ix))"
    using r st by (simp add: element_pos_def place_def)
qed

lemma place_element_pos:
  assumes ok: "tensor_ok dev m t" and n: "n < total t"
  shows "\<exists>ix. in_box (dat (t_valid t)) ix \<and> place t n = element_pos t ix"
proof -
  note D = tensor_okD [OF ok]
  have "0 \<le> int n" "int n < prod_list (dat (t_valid t))" using n total_int [OF ok] by auto
  from unrow_props [OF D(8) this] element_pos_place [OF ok] show ?thesis
    by (intro exI [of _ "unrow (dat (t_valid t)) (int n)"]) simp
qed

lemma buf_at_ram: "buf_at (m\<lparr>ram := h\<rparr>) p = buf_at m p"
  by (cases p) (simp_all add: buf_at_def)

lemma read_bytes_eq:
  assumes "length xs = length ys'" "off + L \<le> length xs" "off' + L \<le> length ys"
    and "\<And>r. r < L \<Longrightarrow> xs ! (off + r) = ys ! (off' + r)"
  shows "take L (drop off xs) = take L (drop off' ys)"
  using assms by (intro nth_equalityI) auto

section \<open>Example tensors\<close>

text \<open>Byte tensors that are a part of a larger one, and a memory with two blocks.\<close>

definition part_tensor :: "nat \<Rightarrow> int list \<Rightarrow> int list \<Rightarrow> int list \<Rightarrow> tensor" where
  "part_tensor k S v off = \<lparr>t_dtype = AK_INT8, t_type_len = 1, t_buf_dtype = AK_INT8, t_shape = mk_shape S Layout_HW,
     t_valid = mk_shape v Layout_HW, t_offset = mk_shape off Layout_HW, t_buf = Some k, t_subbuf = True,
     t_shared = True, t_seq = [], t_scale = [], t_scale_buf = buf_default 0, t_positive = False\<rparr>"

definition two_blocks :: "byte list \<Rightarrow> byte list \<Rightarrow> memory" where
  "two_blocks xs ys = \<lparr>ram = \<lparr>blocks = [0 \<mapsto> xs, 1 \<mapsto> ys], next_block = 2, grants = \<lambda>_. True\<rparr>,
     bufs = [0 \<mapsto> \<lparr>b_id = 0, b_data = Some 0, own_data = True, b_count = length xs, b_capacity = length xs\<rparr>,
             1 \<mapsto> \<lparr>b_id = 0, b_data = Some 1, own_data = True, b_count = length ys, b_capacity = length ys\<rparr>],
     next_buf = 2\<rparr>"

lemma part_tensor_ok:
  assumes "length S = 2" "length v = 2" "all_pos S" "all_pos v" "prod_list S < 2 ^ 31" "prod_list v < 2 ^ 31"
    "fits_region off v S" "k = 0 \<and> nat (prod_list S) \<le> length xs \<or> k = 1 \<and> nat (prod_list S) \<le> length ys"
  shows "tensor_ok 0 (two_blocks xs ys) (part_tensor k S v off)"
  using assms
  by (auto simp: tensor_ok_def part_tensor_def two_blocks_def dense_def wf_shape_def positive_def unaligned_def
      buf_at_def block_at_def)

lemma fits_region_2: "fits_region [a, b] [c, d] [e, f] \<longleftrightarrow> 0 \<le> a \<and> a + c \<le> e \<and> 0 \<le> b \<and> b + d \<le> f"
  by (auto simp: fits_region_def less_Suc_eq nth_Cons split: nat.splits)

text \<open>C5: \<open>Tensor::copy_from\<close> between two well-formed tensors on one device, with the same type and the
  same shape of their regions, in different blocks, returns, makes every element of the destination's
  region equal to the element of the source with the same index, and leaves every other byte of memory
  as it was, whatever the shapes of the two memories and the positions of the regions in them.\<close>

theorem copy_from_copies_region:
  assumes "tensor_ok dev m t" "tensor_ok dev m src" "dat (t_valid src) = dat (t_valid t)"
    and "t_dtype src = t_dtype t" "t_type_len src = t_type_len t"
    and "buf_at m (t_buf t) = Inr b" "buf_at m (t_buf src) = Inr c" "b_data b = Some p" "b_data c \<noteq> Some p"
  shows "\<exists>m'. tensor_copy_from sync_memcpy dev m t src = Inr (SaberSuccess, m', t) \<and>
    (\<forall>ix. in_box (dat (t_valid t)) ix \<longrightarrow> element_at m' t ix = element_at m src ix) \<and>
    (\<forall>a k. (a = p \<longrightarrow> (\<forall>ix. in_box (dat (t_valid t)) ix \<longrightarrow>
         k < element_pos t ix * t_type_len t \<or> element_pos t ix * t_type_len t + t_type_len t \<le> k)) \<longrightarrow>
       read_bytes (ram m') (Some a) k 1 = read_bytes (ram m) (Some a) k 1)"
proof -
  obtain xs where xs: "blocks (ram m) p = Some xs"
    using assms(1,6,8) by (auto simp: tensor_ok_def block_at_def split: sum.splits option.splits)
  obtain q ys where q: "b_data c = Some q" "blocks (ram m) q = Some ys"
    using assms(2,7) by (auto simp: tensor_ok_def block_at_def split: sum.splits option.splits)
  have S: "copy_setting dev m t src p xs q ys"
    using assms xs q by (auto simp: copy_setting_def)
  from copy_from_ok [OF S] obtain xs' where run: "tensor_copy_from sync_memcpy dev m t src
      = Inr (SaberSuccess, m\<lparr>ram := (ram m)\<lparr>blocks := (blocks (ram m))(p \<mapsto> xs')\<rparr>\<rparr>, t)"
    and cp: "copied (place t) (place src) (t_type_len t) (total t) xs ys xs'" by blast
  let ?m = "m\<lparr>ram := (ram m)\<lparr>blocks := (blocks (ram m))(p \<mapsto> xs')\<rparr>\<rparr>"
  let ?L = "t_type_len t"
  have buf: "buf_at ?m (t_buf t) = Inr b" unfolding buf_at_ram by (rule assms(6))
  have len: "length xs' = length xs" using cp by (simp add: copied_def)
  have tot: "total src = total t" using assms(3) by (simp add: total_def)
  have el: "element_at ?m t ix = element_at m src ix" if ix: "in_box (dat (t_valid t)) ix" for ix
  proof -
    define n where "n = nat (row_pos (dat (t_valid t)) ix)"
    have ix': "in_box (dat (t_valid src)) ix" using ix assms(3) by simp
    note P = element_pos_place [OF assms(1) ix, folded n_def] and Q = element_pos_place [OF assms(2) ix', unfolded assms(3), folded n_def]
    have room: "place t n * ?L + ?L \<le> length xs'" "place src n * ?L + ?L \<le> length ys"
      using place_room [OF assms(1,6,8) xs P(2)] place_room [OF assms(2,7) q Q(2)] assms(5) len by simp_all
    have "take ?L (drop (place t n * ?L) xs') = take ?L (drop (place src n * ?L) ys)"
      by (rule read_bytes_eq [OF refl room]) (use cp P(2) in \<open>simp add: copied_def\<close>)
    then show ?thesis
      using room assms(5,7,8) q buf by (simp add: element_at_def P(1) Q(1) read_bytes_def block_at_def)
  qed
  have rest: "read_bytes (ram ?m) (Some a) k 1 = read_bytes (ram m) (Some a) k 1"
    if out: "a = p \<longrightarrow> (\<forall>ix. in_box (dat (t_valid t)) ix \<longrightarrow> k < element_pos t ix * ?L \<or> element_pos t ix * ?L + ?L \<le> k)" for a k
  proof (cases "a = p \<and> k < length xs")
    case True
    have "k \<noteq> place t n * ?L + r" if "n < total t" "r < ?L" for n r
      using place_element_pos [OF assms(1) that(1)] out True that(2) by force
    then have "xs' ! k = xs ! k" using cp True by (simp add: copied_def)
    then show ?thesis
      using True xs len by (simp add: read_bytes_def block_at_def take_Suc_conv_app_nth hd_drop_conv_nth take_hd_drop)
  next
    case False
    then show ?thesis using xs len by (auto simp: read_bytes_def block_at_def)
  qed
  from run el rest show ?thesis by blast
qed

theorem copy_from_copies_region_witness:
  "\<exists>m'. tensor_copy_from sync_memcpy 0 (two_blocks [0, 0, 0, 0, 0, 0] [1, 2, 3, 4, 5, 6]) (part_tensor 0 [2, 3] [2, 2] [0, 1])
      (part_tensor 1 [3, 2] [2, 2] [1, 0]) = Inr (SaberSuccess, m', part_tensor 0 [2, 3] [2, 2] [0, 1]) \<and>
    element_at m' (part_tensor 0 [2, 3] [2, 2] [0, 1]) [1, 0] = Inr [5]"
proof -
  let ?m = "two_blocks [0, 0, 0, 0, 0, 0] [1, 2, 3, 4, 5, 6]"
  let ?t = "part_tensor 0 [2, 3] [2, 2] [0, 1]" and ?s = "part_tensor 1 [3, 2] [2, 2] [1, 0]"
  have ok: "tensor_ok 0 ?m ?t" "tensor_ok 0 ?m ?s"
    by (rule part_tensor_ok; simp add: fits_region_2)+
  have eq: "dat (t_valid ?s) = dat (t_valid ?t)" "t_dtype ?s = t_dtype ?t" "t_type_len ?s = t_type_len ?t"
    by (simp_all add: part_tensor_def)
  have b: "buf_at ?m (t_buf ?t) = Inr \<lparr>b_id = 0, b_data = Some 0, own_data = True, b_count = 6, b_capacity = 6\<rparr>"
    "buf_at ?m (t_buf ?s) = Inr \<lparr>b_id = 0, b_data = Some 1, own_data = True, b_count = 6, b_capacity = 6\<rparr>"
    by (simp_all add: part_tensor_def two_blocks_def buf_at_def)
  have box: "in_box (dat (t_valid ?t)) [1, 0]" by (simp add: in_box_def part_tensor_def)
  have "element_at ?m ?s [1, 0] = Inr [5]" by code_simp
  then show ?thesis
    using copy_from_copies_region [OF ok eq b, of 0] box by auto
qed

text \<open>Between regions of equal size but different shape \<open>Tensor::copy_from\<close> picks a chunk length that
  need not divide the rows of both: copying the 2 by 3 corner of a 2 by 4 tensor into the 3 by 2 corner of
  a 3 by 3 tensor passes all its checks and then reads behind the end of the source.\<close>

lemma copy_from_other_shape_overruns:
  "tensor_copy_from sync_memcpy 0 (two_blocks (replicate 9 0) (replicate 8 1))
     (part_tensor 0 [3, 3] [3, 2] [0, 0]) (part_tensor 1 [2, 4] [2, 3] [0, 0]) = Inl OutOfRange"
  (is "?r = _")
proof -
  have "(case ?r of Inl e \<Rightarrow> e = OutOfRange | Inr _ \<Rightarrow> False)" by code_simp
  then show ?thesis by (simp split: sum.splits)
qed

text \<open>C30: \<open>Tensor::reshape\<close> of a well-formed tensor that is not a part of another one to any dense shape
  returns and leaves a well-formed tensor of that shape, whose buffer holds every element of the region,
  provided that every allocation is granted and that the shape fits the capacity of the buffer or the
  buffer is owned and the tensor not shared. The new shape may have another layout than the tensor: the
  manual demands the same layout, the code does not test it.\<close>

theorem reshape_keeps_tensor_ok:
  assumes "tensor_ok dev m t" "\<not> t_subbuf t" "dense v"
    and "buf_at m (t_buf t) = Inr b" "buf_ok dev (ram m) b" "fresh_beyond (ram m)" "\<And>a. grants (ram m) a"
    and "nat (prod_list (dat v)) * t_type_len t \<le> b_capacity b \<or> own_data b \<and> \<not> t_shared t"
  shows "\<exists>m' t'. reshape dev m t v None None = Inr (SaberSuccess, m', t') \<and> tensor_ok dev m' t' \<and> t_valid t' = v"
  by (rule reshape_ok [OF assms])

theorem reshape_keeps_tensor_ok_witness:
  "\<exists>m' t'. reshape 0 (two_blocks [1, 2, 3, 4] [5, 6]) ((part_tensor 0 [2, 2] [2, 2] [0, 0])\<lparr>t_subbuf := False, t_shared := False\<rparr>)
     (mk_shape [3, 3] Layout_HW) None None = Inr (SaberSuccess, m', t') \<and> tensor_ok 0 m' t' \<and> t_valid t' = mk_shape [3, 3] Layout_HW"
proof -
  let ?m = "two_blocks [1, 2, 3, 4] [5, 6]"
  let ?p = "part_tensor 0 [2, 2] [2, 2] [0, 0]" and ?b = "\<lparr>b_id = 0, b_data = Some 0, own_data = True, b_count = 4, b_capacity = 4\<rparr>"
  let ?t = "?p\<lparr>t_subbuf := False, t_shared := False\<rparr>"
  have 1: "tensor_ok 0 ?m ?t" "\<not> t_subbuf ?t"
    by (simp_all add: tensor_ok_def part_tensor_def two_blocks_def dense_def wf_shape_def positive_def unaligned_def
        buf_at_def block_at_def)
  have 2: "dense (mk_shape [3, 3] Layout_HW)" by (simp add: dense_def wf_shape_def positive_def unaligned_def)
  have 3: "buf_at ?m (t_buf ?t) = Inr ?b" by (simp add: part_tensor_def two_blocks_def buf_at_def)
  have 4: "buf_ok 0 (ram ?m) ?b" "fresh_beyond (ram ?m)" "grants (ram ?m) a" for a
    by (simp_all add: buf_ok_def owns_def fresh_beyond_def two_blocks_def)
  show ?thesis by (rule reshape_keeps_tensor_ok [OF 1 2 3 4]) (simp add: part_tensor_def)
qed

text \<open>C29: A region of a well-formed tensor that \<open>Tensor::share_sub_buffer\<close> accepts gives a well-formed tensor,
  whose elements all lie inside the shared memory, if and only if no offset is negative and the memory
  holds the elements at the length of the new tensor's type. \<open>share_sub_buffer\<close> itself tests neither: it
  compares the upper ends of the region only.\<close>

theorem share_sub_buffer_ok:
  assumes "tensor_ok dev m src" "dense v" "length (dat off) = length (dat v)" "wf_shape off"
    and "buf_at m (t_buf src) = Inr b" "share_sub_buffer t src v off = Inr (st, t')"
  shows "st = SaberSuccess \<and> t_valid t' = v \<and> t_offset t' = off \<and> t_buf t' = t_buf src \<and>
    (tensor_ok dev m t' \<longleftrightarrow> (\<forall>d \<in> set (dat off). 0 \<le> d) \<and> 0 < t_type_len t \<and> t_type_len t \<le> 8 \<and>
       nat (prod_list (dat (t_shape src))) * t_type_len t \<le> b_capacity b)"
  using share_sub_iff [OF assms] by blast

theorem share_sub_buffer_ok_witness:
  "\<exists>t'. share_sub_buffer (part_tensor 1 [1, 1] [1, 1] [0, 0]) (part_tensor 0 [2, 3] [2, 3] [0, 0])
     (mk_shape [2, 2] Layout_HW) (mk_shape [0, 1] Layout_HW) = Inr (SaberSuccess, t') \<and>
     tensor_ok 0 (two_blocks [1, 2, 3, 4, 5, 6] []) t'"
proof -
  let ?src = "part_tensor 0 [2, 3] [2, 3] [0, 0]" and ?t = "part_tensor 1 [1, 1] [1, 1] [0, 0]"
  let ?m = "two_blocks [1, 2, 3, 4, 5, 6] []" and ?b = "\<lparr>b_id = 0, b_data = Some 0, own_data = True, b_count = 6, b_capacity = 6\<rparr>"
  have ok: "tensor_ok 0 ?m ?src" by (rule part_tensor_ok; simp add: fits_region_2)
  have b: "buf_at ?m (t_buf ?src) = Inr ?b" by (simp add: part_tensor_def two_blocks_def buf_at_def)
  have "(case share_sub_buffer ?t ?src (mk_shape [2, 2] Layout_HW) (mk_shape [0, 1] Layout_HW) of Inl _ \<Rightarrow> False | Inr _ \<Rightarrow> True)"
    by code_simp
  then obtain st t' where run: "share_sub_buffer ?t ?src (mk_shape [2, 2] Layout_HW) (mk_shape [0, 1] Layout_HW) = Inr (st, t')"
    by (cases "share_sub_buffer ?t ?src (mk_shape [2, 2] Layout_HW) (mk_shape [0, 1] Layout_HW)") auto
  from share_sub_buffer_ok [OF ok _ _ _ b run] run show ?thesis
    by (simp add: dense_def wf_shape_def positive_def unaligned_def part_tensor_def)
qed

text \<open>A negative offset is accepted.\<close>

lemma share_sub_buffer_negative:
  "\<exists>t'. share_sub_buffer (part_tensor 1 [1, 1] [1, 1] [0, 0]) (part_tensor 0 [2, 3] [2, 3] [0, 0])
     (mk_shape [2, 2] Layout_HW) (mk_shape [0, -1] Layout_HW) = Inr (SaberSuccess, t') \<and>
     \<not> tensor_ok 0 (two_blocks [1, 2, 3, 4, 5, 6] []) t'"
proof -
  let ?src = "part_tensor 0 [2, 3] [2, 3] [0, 0]" and ?t = "part_tensor 1 [1, 1] [1, 1] [0, 0]"
  let ?m = "two_blocks [1, 2, 3, 4, 5, 6] []" and ?b = "\<lparr>b_id = 0, b_data = Some 0, own_data = True, b_count = 6, b_capacity = 6\<rparr>"
  have ok: "tensor_ok 0 ?m ?src" by (rule part_tensor_ok; simp add: fits_region_2)
  have b: "buf_at ?m (t_buf ?src) = Inr ?b" by (simp add: part_tensor_def two_blocks_def buf_at_def)
  have "(case share_sub_buffer ?t ?src (mk_shape [2, 2] Layout_HW) (mk_shape [0, -1] Layout_HW) of Inl _ \<Rightarrow> False | Inr _ \<Rightarrow> True)"
    by code_simp
  then obtain st t' where run: "share_sub_buffer ?t ?src (mk_shape [2, 2] Layout_HW) (mk_shape [0, -1] Layout_HW) = Inr (st, t')"
    by (cases "share_sub_buffer ?t ?src (mk_shape [2, 2] Layout_HW) (mk_shape [0, -1] Layout_HW)") auto
  have d: "dense (mk_shape [2, 2] Layout_HW)" "wf_shape (mk_shape [0, -1] Layout_HW)"
    by (simp_all add: dense_def wf_shape_def positive_def unaligned_def)
  from share_sub_iff [OF ok d(1) _ d(2) b run] run show ?thesis by simp
qed

text \<open>\<open>re_alloc\<close> with its default type keeps the type but takes the length of an invalid type, 4 bytes.\<close>

lemma re_alloc_default_length:
  assumes "re_alloc m t shape AK_INVALID = Inr (st, m', t')"
  shows "t_dtype t' = t_dtype t \<and> t_type_len t' = 4"
  using assms by (auto simp: re_alloc_def Let_def)

end
