(* ===== verification/Function_Shapes.thy ===== *)
theory Function_Shapes
  imports Saber_Tensor
begin

text \<open>
  The functions \<open>compute_output_shape\<close> of \<open>saber/funcs\<close> set the shapes of the output
  tensors of an operator from those of its inputs. Inputs and outputs are vectors of pointers to
  tensors, numbers here; \<open>tensors\<close> says which tensor a pointer points to. An output may be an
  input (operators that work in place). This theory has the statements these functions are made of
  and the functions that pass the shape of an input on.
\<close>

section \<open>Tensors behind pointers\<close>

type_synonym tensors = "nat \<Rightarrow> tensor"
type_synonym inference = "nat list \<Rightarrow> nat list \<Rightarrow> tensors \<Rightarrow> (saber_status \<times> tensors) outcome"

definition tens :: "tensors \<Rightarrow> nat list \<Rightarrow> int \<Rightarrow> tensor outcome" where
  "tens T xs i = bindE (at xs i) (\<lambda>k. Inr (T k))"

definition in_valid :: "tensors \<Rightarrow> nat list \<Rightarrow> int \<Rightarrow> shape outcome" where
  "in_valid T ins i = bindE (tens T ins i) valid_shape"

text \<open>\<open>input[i]->num()\<close> and the like.\<close>

definition of_in :: "(tensor \<Rightarrow> 'a outcome) \<Rightarrow> tensors \<Rightarrow> nat list \<Rightarrow> int \<Rightarrow> 'a outcome" where
  "of_in f T ins i = bindE (tens T ins i) f"

definition seq_of :: "tensors \<Rightarrow> nat list \<Rightarrow> int \<Rightarrow> int list list outcome" where
  "seq_of T ins i = bindE (tens T ins i) (\<lambda>t. Inr (get_seq_offset t))"

text \<open>\<open>output[i]->set_shape(s)\<close>, \<open>set_shape_without_layout(s)\<close>, \<open>set_seq_offset(q)\<close>.\<close>

definition out_shape :: "nat list \<Rightarrow> int \<Rightarrow> shape \<Rightarrow> tensors \<Rightarrow> (saber_status \<times> tensors) outcome" where
  "out_shape outs i s T =
     bindE (at outs i) (\<lambda>k. bindE (set_shape (T k) s None None) (\<lambda>(st, t). Inr (st, T(k := t))))"

definition out_shape_only :: "nat list \<Rightarrow> int \<Rightarrow> shape \<Rightarrow> tensors \<Rightarrow> (saber_status \<times> tensors) outcome" where
  "out_shape_only outs i s T =
     bindE (at outs i) (\<lambda>k. bindE (tset_shape_without_layout (T k) s None None) (\<lambda>(st, t). Inr (st, T(k := t))))"

definition out_seq :: "nat list \<Rightarrow> int \<Rightarrow> int list list \<Rightarrow> tensors \<Rightarrow> tensors outcome" where
  "out_seq outs i q T = bindE (at outs i) (\<lambda>k. Inr (T(k := set_seq_offset (T k) q)))"

definition copy_seq :: "nat list \<Rightarrow> int \<Rightarrow> nat list \<Rightarrow> int \<Rightarrow> tensors \<Rightarrow> tensors outcome" where
  "copy_seq outs i ins j T = bindE (seq_of T ins j) (\<lambda>q. out_seq outs i q T)"

text \<open>A call whose status is dropped, followed by \<open>return SaberSuccess\<close>.\<close>

definition success :: "(saber_status \<times> tensors) outcome \<Rightarrow> (saber_status \<times> tensors) outcome" where
  "success r = bindE r (\<lambda>(_, T). Inr (SaberSuccess, T))"

text \<open>\<open>shape[i] = v\<close>.\<close>

definition put_at :: "shape \<Rightarrow> int \<Rightarrow> int \<Rightarrow> shape outcome" where
  "put_at s i v = bindE (put (dat s) i v) (\<lambda>xs. Inr (s\<lparr>dat := xs\<rparr>))"

definition nchw :: "int list \<Rightarrow> shape outcome" where
  "nchw v = shape_of_vector v Layout_NCHW"

text \<open>\<open>vector[i]\<close> of a vector of vectors, as in \<open>get_seq_offset()[0]\<close>.\<close>

definition first_seq :: "tensors \<Rightarrow> nat list \<Rightarrow> int \<Rightarrow> int list outcome" where
  "first_seq T ins i = bindE (seq_of T ins i) (\<lambda>q. at q 0)"

section \<open>Functions that keep the shape of an input\<close>

datatype active_type = Active_unknow | Active_sigmoid | Active_relu | Active_tanh | Active_clipped_relu
  | Active_elu | Active_identity | Active_stanh | Active_prelu | Active_gelu | Active_swish

definition activation_shape :: "active_type \<Rightarrow> inference" where
  "activation_shape active ins outs T =
     bindE (in_valid T ins 0) (\<lambda>s.
     bindE (copy_seq outs 0 ins 0 T) (\<lambda>T1.
     bindE (if active = Active_sigmoid \<or> active = Active_relu \<or> active = Active_clipped_relu
            then bindE (at outs 0) (\<lambda>k. Inr (T1(k := set_posstive_flag (T1 k) True))) else Inr T1) (\<lambda>T2.
     out_shape_only outs 0 s T2)))"

definition affine_channel_shape :: inference where
  "affine_channel_shape ins outs T =
     bindE (check (length ins = 1)) (\<lambda>_. bindE (in_valid T ins 0) (\<lambda>s. success (out_shape outs 0 s T)))"

definition arithmetic_shape :: inference where
  "arithmetic_shape ins outs T =
     bindE (in_valid T ins 0) (\<lambda>s. bindE (copy_seq outs 0 ins 0 T) (out_shape outs 0 s))"

definition attention_padding_mask_shape :: inference where
  "attention_padding_mask_shape ins outs T =
     bindE (in_valid T ins 0) (\<lambda>s. bindE (copy_seq outs 0 ins 0 T) (out_shape outs 0 s))"

definition axpy_shape :: inference where
  "axpy_shape ins outs T =
     bindE (check (length ins = 3)) (\<lambda>_. bindE (in_valid T ins 2) (\<lambda>s. out_shape outs 0 s T))"

definition box_clip_shape :: inference where
  "box_clip_shape ins outs T =
     bindE (copy_seq outs 0 ins 1 T) (\<lambda>T1. bindE (in_valid T1 ins 1) (\<lambda>s. out_shape_only outs 0 s T1))"

definition box_coder_shape :: inference where
  "box_coder_shape ins outs T =
     bindE (copy_seq outs 0 ins 1 T) (\<lambda>T1.
     bindE (of_in tensor_num T1 ins 0) (\<lambda>n0. bindE (of_in tensor_num T1 ins 1) (\<lambda>n1.
     bindE (check (n0 = n1)) (\<lambda>_.
     bindE (copy_seq outs 0 ins 0 T1) (\<lambda>T2.
     bindE (in_valid T2 ins 1) (\<lambda>s. out_shape outs 0 s T2))))))"

definition cast_shape :: inference where
  "cast_shape ins outs T = bindE (in_valid T ins 0) (\<lambda>s. out_shape outs 0 s T)"

definition conv_shift_shape :: inference where
  "conv_shift_shape ins outs T =
     bindE (check (length ins = 2)) (\<lambda>_. bindE (in_valid T ins 0) (\<lambda>s. success (out_shape outs 0 s T)))"

definition conv_unpadding_padding_shape :: inference where
  "conv_unpadding_padding_shape ins outs T =
     bindE (in_valid T ins 0) (\<lambda>s. bindE (copy_seq outs 0 ins 0 T) (out_shape outs 0 s))"

definition ctc_align_shape :: inference where
  "ctc_align_shape ins outs T = bindE (in_valid T ins 0) (\<lambda>s. out_shape outs 0 s T)"

definition cumsum_shape :: inference where
  "cumsum_shape ins outs T =
     bindE (in_valid T ins 0) (\<lambda>s. bindE (copy_seq outs 0 ins 0 T) (out_shape outs 0 s))"

definition layer_norm_shape :: inference where
  "layer_norm_shape ins outs T = bindE (in_valid T ins 0) (\<lambda>s. success (out_shape outs 0 s T))"

definition lrn_shape :: inference where
  "lrn_shape ins outs T =
     bindE (check (length ins = 1)) (\<lambda>_. bindE (in_valid T ins 0) (\<lambda>s. success (out_shape outs 0 s T)))"

definition mvn_shape :: inference where
  "mvn_shape ins outs T = bindE (in_valid T ins 0) (\<lambda>s. out_shape outs 0 s T)"

definition normalize_shape :: inference where
  "normalize_shape ins outs T = bindE (in_valid T ins 0) (\<lambda>s. success (out_shape outs 0 s T))"

definition scale_shape :: inference where
  "scale_shape ins outs T = bindE (in_valid T ins 0) (\<lambda>s. out_shape outs 0 s T)"

definition soft_sign_shape :: inference where
  "soft_sign_shape ins outs T =
     bindE (in_valid T ins 0) (\<lambda>s. bindE (copy_seq outs 0 ins 0 T) (out_shape outs 0 s))"

definition softmax_shape :: inference where
  "softmax_shape ins outs T =
     bindE (copy_seq outs 0 ins 0 T) (\<lambda>T1. bindE (in_valid T1 ins 0) (\<lambda>s. out_shape outs 0 s T1))"

definition rcnn_det_output_shape :: inference where
  "rcnn_det_output_shape ins outs T =
     (if length outs > 0 then bindE (in_valid T ins 0) (\<lambda>s. out_shape outs 0 s T) else Inr (SaberSuccess, T))"

definition fusion_shape :: inference where
  "fusion_shape ins outs T = Inr (SaberSuccess, T)"

text \<open>The functions that do so for every pair of input and output.\<close>

definition each_input :: "(int \<Rightarrow> tensors \<Rightarrow> tensors outcome) \<Rightarrow> nat list \<Rightarrow> tensors \<Rightarrow> tensors outcome" where
  "each_input f ins T = foldE f [0..int (length ins) - 1] T"

definition pass_shape :: "nat list \<Rightarrow> nat list \<Rightarrow> int \<Rightarrow> tensors \<Rightarrow> tensors outcome" where
  "pass_shape ins outs i T =
     bindE (in_valid T ins i) (\<lambda>s. bindE (out_shape outs i s T) (\<lambda>(_, T'). Inr T'))"

definition power_shape :: inference where
  "power_shape ins outs T =
     bindE (each_input (pass_shape ins outs) ins T) (\<lambda>T'. Inr (SaberSuccess, T'))"

definition reverse_input_shape :: inference where
  "reverse_input_shape ins outs T =
     bindE (each_input (\<lambda>i T. bindE (pass_shape ins outs i T) (copy_seq outs i ins i)) ins T) (\<lambda>T'.
     Inr (SaberSuccess, T'))"

definition reverse_sequence_shape :: inference where
  "reverse_sequence_shape ins outs T =
     bindE (each_input (\<lambda>i T. bindE (pass_shape ins outs i T) (copy_seq outs i ins i)) ins T) (\<lambda>T'.
     Inr (SaberSuccess, T'))"

definition shuffle_channel_shape :: "int \<Rightarrow> inference" where
  "shuffle_channel_shape groups ins outs T =
     bindE (of_in tensor_channel T ins 0) (\<lambda>c. bindE (cmod c groups) (\<lambda>r.
     if r \<noteq> 0 then Inr (SaberInvalidValue, T)
     else bindE (each_input (pass_shape ins outs) ins T) (\<lambda>T'. Inr (SaberSuccess, T'))))"

text \<open>The element-wise functions compare the named dimensions of the inputs.\<close>

datatype eltwise_type = Eltwise_unknow | Eltwise_prod | Eltwise_sum | Eltwise_max | Eltwise_div | Eltwise_mul

definition same_dims :: "nat list \<Rightarrow> tensors \<Rightarrow> int \<Rightarrow> unit outcome" where
  "same_dims ins T i =
     (let same = (\<lambda>f. bindE (of_in f T ins 0) (\<lambda>a. bindE (of_in f T ins i) (\<lambda>b. check (a = b))))
      in bindE (same tensor_num) (\<lambda>_. bindE (same tensor_channel) (\<lambda>_.
         bindE (same tensor_height) (\<lambda>_. same tensor_width))))"

definition all_same_dims :: "nat list \<Rightarrow> tensors \<Rightarrow> unit outcome" where
  "all_same_dims ins T = foldE (\<lambda>i _. same_dims ins T i) [1..int (length ins) - 1] ()"

definition eltwise_shape :: "eltwise_type \<Rightarrow> nat \<Rightarrow> inference" where
  "eltwise_shape operation n_coeff ins outs T =
     bindE (if operation \<noteq> Eltwise_div \<and> operation \<noteq> Eltwise_mul then all_same_dims ins T else Inr ()) (\<lambda>_.
     bindE (in_valid T ins 0) (\<lambda>s.
     bindE (out_shape outs 0 s T) (\<lambda>(_, T1).
     bindE (if operation = Eltwise_sum then check (n_coeff = length ins) else Inr ()) (\<lambda>_.
     bindE (copy_seq outs 0 ins 0 T1) (\<lambda>T2. Inr (SaberSuccess, T2))))))"

definition eltwise_act_shape :: inference where
  "eltwise_act_shape ins outs T =
     bindE (all_same_dims ins T) (\<lambda>_. bindE (in_valid T ins 0) (\<lambda>s. success (out_shape outs 0 s T)))"

end
