(* ===== verification/Rearrange_Shapes.thy ===== *)
theory Rearrange_Shapes
  imports Function_Shapes
begin

text \<open>
  The output shapes of the operators that rearrange, split, join, reduce or multiply tensors:
  \<open>permute.h\<close>, \<open>flatten.h\<close>, \<open>reshape.h\<close>, \<open>concat.h\<close>, \<open>slice.h\<close>,
  \<open>slice_v2.h\<close>, \<open>expand.h\<close>, \<open>argmax.h\<close>, \<open>one_hot.h\<close>, \<open>reduce.h\<close>,
  \<open>reduce_min.h\<close>, the matrix products, and those with a fixed output.
\<close>

section \<open>Permutation and flattening\<close>

definition permute_dims :: "int list \<Rightarrow> tensors \<Rightarrow> nat list \<Rightarrow> int \<Rightarrow> shape outcome" where
  "permute_dims order T ins i =
     bindE (in_valid T ins i) (\<lambda>out. bindE (in_valid T ins i) (\<lambda>s.
     bindE (check (length (dat s) = length order)) (\<lambda>_.
     foldE (\<lambda>j out. bindE (at order j) (\<lambda>k. bindE (at (dat s) k) (put_at out j)))
       [0..int (length order) - 1] out)))"

definition permute_shape :: "int list \<Rightarrow> inference" where
  "permute_shape order ins outs T =
     bindE (each_input (\<lambda>i T. bindE (permute_dims order T ins i) (\<lambda>out.
       bindE (out_shape outs i out T) (\<lambda>(_, T'). Inr T'))) ins T) (\<lambda>T'. Inr (SaberSuccess, T'))"

definition permute_power_shape :: "int list \<Rightarrow> inference" where
  "permute_power_shape order ins outs T =
     bindE (each_input (\<lambda>i T. bindE (permute_dims order T ins i) (\<lambda>out.
       bindE (out_shape outs i out T) (\<lambda>(_, T'). Inr T'))) ins T) (\<lambda>T'. Inr (SaberSuccess, T'))"

fun flat_layout :: "nat \<Rightarrow> layout_type" where
  "flat_layout n = (if n = 1 then Layout_W else if n = 2 then Layout_NW else if n = 3 then Layout_NHW
     else if n = 4 then Layout_NCHW else Layout_invalid)"

definition flatten_dims :: "shape \<Rightarrow> int \<Rightarrow> int \<Rightarrow> int list outcome" where
  "flatten_dims s start0 end0 =
     bindE (canon_axis s start0) (\<lambda>start_axis. bindE (canon_axis s end0) (\<lambda>end_axis.
     bindE (check (start_axis \<le> end_axis)) (\<lambda>_.
     bindE (mapE (at (dat s)) [0..start_axis - 1]) (\<lambda>xs.
     bindE (count_range s start_axis (end_axis + 1)) (\<lambda>c.
     bindE (mapE (at (dat s)) [end_axis + 1..dims s - 1]) (\<lambda>ys.
     Inr (xs @ [narrow32 c] @ ys)))))))"

definition flatten_shape :: "int \<Rightarrow> int \<Rightarrow> inference" where
  "flatten_shape start0 end0 ins outs T =
     bindE (in_valid T ins 0) (\<lambda>s. bindE (flatten_dims s start0 end0) (\<lambda>v.
     bindE (shape_of_vector v (flat_layout (length v))) (\<lambda>out. out_shape outs 0 out T)))"

section \<open>Reshape\<close>

text \<open>The loop over \<open>shape_params\<close>, with the axis to infer and the product of the others.\<close>

definition reshape_axis :: "int list \<Rightarrow> shape \<Rightarrow> int \<Rightarrow> shape \<times> int \<times> int \<Rightarrow> (shape \<times> int \<times> int) outcome" where
  "reshape_axis params s i acc =
     (case acc of (out, infer_axis, count_axis) \<Rightarrow>
      bindE (at params i) (\<lambda>v.
      if v = 0 then
        bindE (check (i < dims s)) (\<lambda>_. bindE (at (dat s) i) (\<lambda>d. bindE (put_at out i d) (\<lambda>out'.
        Inr (out', infer_axis, count_axis * d))))
      else if v > 0 then bindE (put_at out i v) (\<lambda>out'. Inr (out', infer_axis, count_axis * v))
      else bindE (put_at out i (-1)) (\<lambda>out'. Inr (out', i, count_axis))))"

definition reshape_dims :: "int list \<Rightarrow> layout_type \<Rightarrow> tensor \<Rightarrow> shape outcome" where
  "reshape_dims params layout t =
     bindE shape_default (\<lambda>out0.
     bindE (set_layout (out0\<lparr>dat := replicate (length params) 0\<rparr>) layout []) (\<lambda>out1.
     bindE (is_continue_mem t) (\<lambda>c. bindE (check (c = True)) (\<lambda>_.
     bindE (valid_shape t) (\<lambda>s. bindE (valid_size t) (\<lambda>n.
     bindE (foldE (reshape_axis params s) [0..int (length params) - 1] (out1, -1, 1)) (\<lambda>(out2, infer_axis, count_axis).
     if infer_axis \<ge> 0
     then bindE (cdiv (narrow32 n) count_axis) (put_at out2 infer_axis)
     else Inr out2)))))))"

definition reshape_shape :: "int list \<Rightarrow> layout_type \<Rightarrow> inference" where
  "reshape_shape params layout ins outs T =
     bindE (tens T ins 0) (\<lambda>t. bindE (reshape_dims params layout t) (\<lambda>out.
     bindE (copy_seq outs 0 ins 0 T) (out_shape outs 0 out)))"

text \<open>\<open>ReshapeParam::operator==\<close>: each comparison is looked at when the next one is made.\<close>

fun reshape_param_loop :: "int list \<Rightarrow> int list \<Rightarrow> bool \<Rightarrow> bool" where
  "reshape_param_loop (x # xs) (y # ys) eq = (if \<not> eq then False else reshape_param_loop xs ys (x = y))"
| "reshape_param_loop (x # xs) [] eq = False"
| "reshape_param_loop [] ys eq = True"

definition reshape_param_eq :: "int list \<times> layout_type \<Rightarrow> int list \<times> layout_type \<Rightarrow> bool" where
  "reshape_param_eq p q =
     reshape_param_loop (fst p) (fst q) (length (fst p) = length (fst q) \<and> snd p = snd q)"

section \<open>Concatenation\<close>

definition concat_axis :: "int \<Rightarrow> shape \<Rightarrow> shape \<Rightarrow> shape outcome" where
  "concat_axis axis sh out =
     bindE (foldE (\<lambda>j _.
       bindE (get_layout sh) (\<lambda>a. bindE (get_layout out) (\<lambda>b. bindE (check (a = b)) (\<lambda>_.
       if j = axis then Inr ()
       else bindE (at (dat sh) j) (\<lambda>d.
            if d \<noteq> -1 then bindE (at (dat out) j) (\<lambda>e. check (e = d)) else Inr ())))))
       [0..dims sh - 1] ()) (\<lambda>_.
     bindE (at (dat out) axis) (\<lambda>e. bindE (at (dat sh) axis) (\<lambda>d. put_at out axis (e + d))))"

definition concat_dims :: "int \<Rightarrow> shape list \<Rightarrow> shape outcome" where
  "concat_dims axis shapes =
     bindE (at shapes 0) (\<lambda>s0. bindE (shape_copy s0) (\<lambda>out.
     foldE (\<lambda>sh0 out. bindE (shape_copy sh0) (\<lambda>sh. concat_axis axis sh out)) (tl shapes) out))"

text \<open>The sequence offsets of a concatenation along the batch: lengths of the parts added.\<close>

definition concat_offsets :: "int list list \<Rightarrow> nat \<Rightarrow> int list outcome" where
  "concat_offsets offsets n =
     foldE (\<lambda>i new.
       bindE (foldE (\<lambda>off len. bindE (at off (i + 1)) (\<lambda>b. bindE (at off i) (\<lambda>a. Inr (len + (b - a))))) offsets 0) (\<lambda>len.
       bindE (at new i) (\<lambda>p. Inr (new @ [p + len]))))
       [0..int n - 2] [0]"

definition concat_seq :: "nat list \<Rightarrow> tensors \<Rightarrow> int list list outcome" where
  "concat_seq ins T =
     bindE (first_seq T ins 0) (\<lambda>first.
     bindE (mapE (\<lambda>k. let q = get_seq_offset (T k)
                    in bindE (check (length q \<ge> 1)) (\<lambda>_. bindE (at q 0) (\<lambda>off.
                       bindE (check (length off = length first)) (\<lambda>_. Inr off)))) ins) (\<lambda>offsets.
     bindE (concat_offsets offsets (length first)) (\<lambda>new. Inr [new])))"

definition concat_shape :: "int \<Rightarrow> inference" where
  "concat_shape axis ins outs T =
     bindE (mapE (\<lambda>k. valid_shape (T k)) ins) (\<lambda>shapes. bindE (concat_dims axis shapes) (\<lambda>out.
     bindE (seq_of T ins 0) (\<lambda>q0.
     bindE (if length q0 > 0 \<and> axis = 0 then concat_seq ins T else Inr q0) (\<lambda>q.
     bindE (out_seq outs 0 q T) (out_shape outs 0 out)))))"

section \<open>Slices\<close>

text \<open>\<open>sh = shape_in; sh[axis] = len; output[i]->set_shape(sh)\<close>.\<close>

definition slice_piece :: "int \<Rightarrow> shape \<Rightarrow> nat list \<Rightarrow> int \<Rightarrow> int \<Rightarrow> tensors \<Rightarrow> (saber_status \<times> tensors) outcome" where
  "slice_piece axis s outs i len T = bindE (shape_copy s) (\<lambda>sh0. bindE (put_at sh0 axis len) (\<lambda>sh. out_shape outs i sh T))"

definition slice_at_points ::
    "int \<Rightarrow> shape \<Rightarrow> int \<Rightarrow> int list \<Rightarrow> nat list \<Rightarrow> tensors \<Rightarrow> (saber_status \<times> tensors) outcome" where
  "slice_at_points axis s axis_size points outs T =
     bindE (check (length points + 1 = length outs)) (\<lambda>_.
     bindE (foldE (\<lambda>i (prev, T).
        bindE (at points i) (\<lambda>p. bindE (check (p > prev)) (\<lambda>_. bindE (check (p < axis_size)) (\<lambda>_.
        bindE (slice_piece axis s outs i (p - prev) T) (\<lambda>(_, T'). Inr (p, T'))))))
       [0..int (length points) - 1] (0, T)) (\<lambda>(prev, T1).
     bindE (check (axis_size - prev > 0)) (\<lambda>_.
     slice_piece axis s outs (int (length points)) (axis_size - prev) T1)))"

fun slice_rest :: "shape \<Rightarrow> nat list \<Rightarrow> int \<Rightarrow> int list \<Rightarrow> int list \<Rightarrow> tensors
    \<Rightarrow> (saber_status \<times> int list \<times> tensors) outcome" where
  "slice_rest sh outs step [] points T = Inr (SaberSuccess, points, T)"
| "slice_rest sh outs step (i # is) points T =
     bindE (out_shape outs i sh T) (\<lambda>(st, T').
     if st \<noteq> SaberSuccess then Inr (st, points @ [i * step], T')
     else slice_rest sh outs step is (points @ [i * step]) T')"

definition slice_shape :: "int \<Rightarrow> int list \<Rightarrow> nat list \<Rightarrow> nat list \<Rightarrow> tensors
    \<Rightarrow> (saber_status \<times> int list \<times> tensors) outcome" where
  "slice_shape axis points ins outs T =
     bindE (in_valid T ins 0) (\<lambda>s. bindE (at (dat s) axis) (\<lambda>axis_size.
     bindE (check (length outs > 0 \<or> length points > 0)) (\<lambda>_.
     if length points > 0 then
       bindE (slice_at_points axis s axis_size points outs T) (\<lambda>(st, T'). Inr (st, points, T'))
     else
       bindE (cmod axis_size (int (length outs))) (\<lambda>r. bindE (check (r = 0)) (\<lambda>_.
       bindE (cdiv axis_size (int (length outs))) (\<lambda>step.
       bindE (shape_copy s) (\<lambda>sh0. bindE (put_at sh0 axis step) (\<lambda>sh.
       bindE (out_shape outs 0 sh T) (\<lambda>(_, T1).
       slice_rest sh outs step [1..int (length outs) - 1] [] T1))))))))) "

definition clamp :: "int \<Rightarrow> int \<Rightarrow> int" where
  "clamp x d = min (max (if x < 0 then x + d else x) 0) d"

definition slice_v2_shape :: "int list \<Rightarrow> int list \<Rightarrow> int list \<Rightarrow> inference" where
  "slice_v2_shape starts ends axes ins outs T =
     bindE (in_valid T ins 0) (\<lambda>out0. bindE (in_valid T ins 0) (\<lambda>s.
     bindE (check (length axes = length starts)) (\<lambda>_. bindE (check (length ends = length starts)) (\<lambda>_.
     bindE (foldE (\<lambda>i out.
        bindE (at axes i) (\<lambda>a. bindE (at (dat s) a) (\<lambda>d. bindE (at starts i) (\<lambda>b. bindE (at ends i) (\<lambda>e.
        put_at out a (clamp e d - clamp b d))))))
       [0..int (length starts) - 1] out0) (\<lambda>out.
     bindE (at axes 0) (\<lambda>a0.
     bindE (if a0 \<noteq> 0 then copy_seq outs 0 ins 0 T else Inr T) (out_shape outs 0 out)))))))"

section \<open>Expansion, selection and reduction\<close>

definition expand_shape :: "int list \<Rightarrow> inference" where
  "expand_shape factors ins outs T =
     bindE (check (length ins = 1)) (\<lambda>_. bindE (in_valid T ins 0) (\<lambda>s.
     bindE (check (length (dat s) = length factors)) (\<lambda>_.
     bindE (foldE (\<lambda>i s. bindE (at factors i) (\<lambda>k. bindE (at (dat s) i) (\<lambda>d. put_at s i (k * d)))) [0..dims s - 1] s) (\<lambda>out.
     success (out_shape outs 0 out T)))))"

definition argmax_shape :: "int \<Rightarrow> bool \<Rightarrow> bool \<Rightarrow> int \<Rightarrow> inference" where
  "argmax_shape top_k out_max_val has_axis axis ins outs T =
     bindE (check (top_k \<ge> 1)) (\<lambda>_.
     bindE (if has_axis then
              bindE (check (axis \<ge> 0)) (\<lambda>_. bindE (tens T ins 0) (\<lambda>t.
              bindE (check (axis \<le> tensor_dims t)) (\<lambda>_. bindE (in_valid T ins 0) (\<lambda>s.
              bindE (at (dat s) axis) (\<lambda>d. check (top_k \<le> d))))))
            else bindE (tens T ins 0) (\<lambda>t. bindE (count_valid t 1 (tensor_dims t)) (\<lambda>c. check (top_k \<le> c)))) (\<lambda>_.
     bindE (nchw [1, 1, 1, 1]) (\<lambda>out0.
     bindE (if has_axis then bindE (in_valid T ins 0) (\<lambda>s. bindE (shape_assign out0 s) (\<lambda>out1. put_at out1 axis top_k))
            else bindE (in_valid T ins 0) (\<lambda>s. bindE (at (dat s) 0) (\<lambda>n.
                 bindE (put_at out0 0 n) (\<lambda>out1. bindE (put_at out1 2 top_k) (\<lambda>out2.
                 if out_max_val then put_at out2 1 2 else Inr out2))))) (\<lambda>out.
     out_shape outs 0 out T))))"

definition one_hot_shape :: "int \<Rightarrow> inference" where
  "one_hot_shape new_dim ins outs T =
     bindE (tens T ins 0) (\<lambda>t. bindE (check (tensor_dims t \<ge> 2)) (\<lambda>_.
     bindE (in_valid T ins 0) (\<lambda>s. bindE (at (dat s) (tensor_dims t - 1)) (\<lambda>d. bindE (check (d = 1)) (\<lambda>_.
     bindE (check (new_dim > 0)) (\<lambda>_.
     bindE (put_at s (dims s - 1) new_dim) (\<lambda>out.
     bindE (copy_seq outs 0 ins 0 T) (out_shape_only outs 0 out))))))))"

text \<open>\<open>output_shape[reduce_dim[i]] = 1\<close>, with negative axes counted from the end.\<close>

definition reduce_axis :: "int list \<Rightarrow> int \<Rightarrow> int \<Rightarrow> shape \<Rightarrow> shape outcome" where
  "reduce_axis reduce_dim input_dim i out =
     bindE (at reduce_dim i) (\<lambda>r.
     if r < 0 then bindE (check (r + input_dim \<ge> 0)) (\<lambda>_. bindE (check (r + input_dim < input_dim)) (\<lambda>_.
                   put_at out (r + input_dim) 1))
     else bindE (check (r < input_dim)) (\<lambda>_. put_at out r 1))"

definition reduce_axes :: "int list \<Rightarrow> shape \<Rightarrow> shape outcome" where
  "reduce_axes reduce_dim s =
     bindE (check (int (length reduce_dim) < dims s)) (\<lambda>_.
     foldE (reduce_axis reduce_dim (dims s)) [0..int (length reduce_dim) - 1] s)"

definition reduce_shape :: "int list \<Rightarrow> bool \<Rightarrow> nat list \<Rightarrow> nat list \<Rightarrow> tensors
    \<Rightarrow> (saber_status \<times> int list \<times> tensors) outcome" where
  "reduce_shape reduce_dim reduce_all ins outs T =
     bindE (in_valid T ins 0) (\<lambda>s.
     if reduce_all then
       bindE (nchw (replicate (length (dat s)) 1)) (\<lambda>out. bindE (out_shape outs 0 out T) (\<lambda>(st, T').
       Inr (st, if length reduce_dim \<noteq> length (dat s) then [0..dims s - 1] else reduce_dim, T')))
     else
       bindE (in_valid T ins 0) (\<lambda>s'. bindE (reduce_axes reduce_dim s') (\<lambda>out.
       bindE (out_shape outs 0 out T) (\<lambda>(st, T'). Inr (st, reduce_dim, T')))))"

definition reduce_min_shape :: "int list \<Rightarrow> bool \<Rightarrow> inference" where
  "reduce_min_shape reduce_dim keep_dim ins outs T =
     bindE (in_valid T ins 0) (\<lambda>s.
     bindE (if reduce_dim \<noteq> [] then reduce_axes reduce_dim s else nchw [1, 1, 1, 1]) (\<lambda>out.
     bindE (if \<not> keep_dim then bindE (count out) (\<lambda>c. nchw [narrow32 c, 1, 1, 1]) else Inr out) (\<lambda>out'.
     out_shape outs 0 out' T)))"

section \<open>Matrix products\<close>

text \<open>\<open>mat_mul.h\<close> sets the sizes \<open>_b\<close>, \<open>_m\<close>, \<open>_n\<close>, \<open>_k\<close> of its parameter.\<close>

definition mat_mul_shape :: "bool \<Rightarrow> bool \<Rightarrow> nat list \<Rightarrow> nat list \<Rightarrow> tensors
    \<Rightarrow> (saber_status \<times> (int \<times> int \<times> int \<times> int) \<times> tensors) outcome" where
  "mat_mul_shape trans_x trans_y ins outs T =
     bindE (check (length ins = 2)) (\<lambda>_.
     bindE (of_in tensor_num T ins 0) (\<lambda>n0. bindE (of_in tensor_num T ins 1) (\<lambda>n1. bindE (check (n0 = n1)) (\<lambda>_.
     bindE (of_in tensor_channel T ins 0) (\<lambda>c0. bindE (of_in tensor_channel T ins 1) (\<lambda>c1. bindE (check (c0 = c1)) (\<lambda>_.
     bindE (in_valid T ins 0) (\<lambda>_.
     bindE (of_in tensor_height T ins 0) (\<lambda>h0. bindE (of_in tensor_width T ins 0) (\<lambda>w0.
     bindE (of_in tensor_height T ins 1) (\<lambda>h1. bindE (of_in tensor_width T ins 1) (\<lambda>w1.
     let m = (if trans_x then w0 else h0); k0 = (if trans_x then h0 else w0);
         n = (if trans_y then h1 else w1); k1 = (if trans_y then w1 else h1)
     in bindE (check (k0 = k1)) (\<lambda>_. bindE (nchw [n0, c0, m, n]) (\<lambda>out.
        bindE (out_shape outs 0 out T) (\<lambda>(st, T'). Inr (st, (n0 * c0, m, n, k0), T'))))))))))))))))"

definition aligned_mat_mul_shape :: "bool \<Rightarrow> bool \<Rightarrow> nat list \<Rightarrow> nat list \<Rightarrow> tensors
    \<Rightarrow> (saber_status \<times> (int \<times> int \<times> int) \<times> tensors) outcome" where
  "aligned_mat_mul_shape trans_x trans_y ins outs T =
     bindE (first_seq T ins 0) (\<lambda>seq0. bindE (first_seq T ins 1) (\<lambda>seq1.
     bindE (tens T ins 0) (\<lambda>t0. bindE (count_valid t0 1 (tensor_dims t0)) (\<lambda>a.
     bindE (tens T ins 1) (\<lambda>t1. bindE (count_valid t1 1 (tensor_dims t1)) (\<lambda>b.
     bindE (at seq0 1) (\<lambda>batch_a. bindE (at seq1 1) (\<lambda>batch_b.
     let inner_a = narrow32 a; inner_b = narrow32 b;
         m = (if trans_x then inner_a else batch_a); n = (if trans_y then batch_b else inner_b);
         k_a = (if trans_x then batch_a else inner_a); k_b = (if trans_y then inner_b else batch_b)
     in bindE (check (k_a = k_b)) (\<lambda>_.
        bindE (nchw [(int (length seq0) - 1) * m, n, 1, 1]) (\<lambda>out.
        bindE (copy_seq outs 0 ins 0 T) (\<lambda>T1.
        bindE (out_shape outs 0 out T1) (\<lambda>(st, T'). Inr (st, (m, n, k_a), T')))))))))))))"

definition fc_shape :: "int \<Rightarrow> int \<Rightarrow> tensor \<Rightarrow> inference" where
  "fc_shape axis num_output weights ins outs T =
     bindE (tens T ins 0) (\<lambda>t. bindE (count_valid t 0 axis) (\<lambda>m0. bindE (count_valid t axis (tensor_dims t)) (\<lambda>k0.
     bindE (valid_size weights) (\<lambda>w0.
     let m = narrow32 m0; k = narrow32 k0; w = narrow32 w0
     in bindE (if num_output \<le> 0 then cdiv w k else Inr num_output) (\<lambda>n.
        bindE (cdiv w n) (\<lambda>q. bindE (check (q = k)) (\<lambda>_.
        bindE (nchw [m, n, 1, 1]) (\<lambda>out.
        bindE (copy_seq outs 0 ins 0 T) (out_shape_only outs 0 out)))))))))"

section \<open>Other fixed outputs\<close>

definition maxout_shape :: "int \<Rightarrow> inference" where
  "maxout_shape groups ins outs T =
     bindE (check (groups \<ge> 1)) (\<lambda>_. bindE (of_in tensor_channel T ins 0) (\<lambda>c. bindE (check (c \<ge> groups)) (\<lambda>_.
     bindE (of_in tensor_num T ins 0) (\<lambda>n. bindE (cdiv c groups) (\<lambda>oc.
     bindE (of_in tensor_height T ins 0) (\<lambda>h. bindE (of_in tensor_width T ins 0) (\<lambda>w.
     bindE (nchw [n, oc, h, w]) (\<lambda>out. out_shape outs 0 out T))))))))"

definition mean_shape :: inference where
  "mean_shape ins outs T =
     bindE (of_in valid_size T ins 0) (\<lambda>c. bindE (check (c > 0)) (\<lambda>_.
     bindE (nchw [1, 1, 1, 1]) (\<lambda>out. out_shape outs 0 out T)))"

definition cos_sim_shape :: inference where
  "cos_sim_shape ins outs T =
     bindE (of_in tensor_num T ins 0) (\<lambda>n. bindE (nchw [n, 1, 1, 1]) (\<lambda>out.
     bindE (copy_seq outs 0 ins 0 T) (out_shape outs 0 out)))"

definition crf_decoding_shape :: inference where
  "crf_decoding_shape ins outs T =
     bindE (in_valid T ins 0) (\<lambda>out.
     bindE (of_in tensor_channel_index T ins 0) (\<lambda>c_id. bindE (of_in tensor_height_index T ins 0) (\<lambda>h_id.
     bindE (of_in tensor_width_index T ins 0) (\<lambda>w_id.
     bindE (put_at out c_id 1) (\<lambda>out1. bindE (put_at out1 h_id 1) (\<lambda>out2. bindE (put_at out2 w_id 1) (\<lambda>out3.
     out_shape outs 0 out3 T)))))))"

definition coord2patch_shape :: "int \<Rightarrow> int \<Rightarrow> inference" where
  "coord2patch_shape output_h output_w ins outs T =
     bindE (check (length ins > 1)) (\<lambda>_. bindE (in_valid T ins 1) (\<lambda>out.
     bindE (put_at out 2 output_h) (\<lambda>out1. bindE (put_at out1 3 output_w) (\<lambda>out2.
     success (out_shape outs 0 out2 T)))))"

text \<open>\<open>(pow(4, pyramid_height) - 1) / 3\<close> is exact in \<open>double\<close> and converted to \<open>int\<close>.\<close>

definition spp_width :: "int \<Rightarrow> int" where
  "spp_width pyramid_height = (if pyramid_height < 0 then 0 else (4 ^ nat pyramid_height - 1) div 3)"

definition spp_shape :: "int \<Rightarrow> inference" where
  "spp_shape pyramid_height ins outs T =
     bindE (in_valid T ins 0) (\<lambda>out.
     bindE (of_in tensor_height_index T ins 0) (\<lambda>h_id. bindE (of_in tensor_width_index T ins 0) (\<lambda>w_id.
     bindE (put_at out h_id 1) (\<lambda>out1. bindE (put_at out1 w_id (spp_width pyramid_height)) (\<lambda>out2.
     out_shape outs 0 out2 T)))))"

end
