(* ===== verification/Inference_Facts.thy ===== *)
theory Inference_Facts
  imports Rearrange_Shapes Tensor_Shapes
begin

text \<open>
  Facts about the statements of \<open>compute_output_shape\<close>: what setting the shape of an output does
  to the tensors, and the loops that cut a shape into pieces along an axis or join shapes.
\<close>

section \<open>Setting the shape of an output\<close>

text \<open>A tensor that is no region of another one and whose memory has a count takes every dense shape.\<close>

definition settable :: "tensor \<Rightarrow> bool" where
  "settable t \<longleftrightarrow> \<not> t_subbuf t \<and> (\<exists>c. count (t_shape t) = Inr c)"

lemma set_shape_settable:
  assumes "settable t" "dense v"
  shows "\<exists>t'. set_shape t v None None = Inr (SaberSuccess, t') \<and> settable t' \<and>
     dat (t_valid t') = dat v \<and> lay (t_valid t') = lay v \<and> wf_shape (t_valid t') \<and> t_seq t' = t_seq t"
proof -
  let ?vs = "(t_valid t)\<lparr>dat := dat v, lay := lay v\<rparr>"
  have vs: "?vs = v" by (cases v) (simp add: shape.defs)
  obtain c where c: "count (t_shape t) = Inr c" "\<not> t_subbuf t" using assms(1) by (auto simp: settable_def)
  obtain off where off: "shape_assign (t_offset t) (v\<lparr>dat := map (\<lambda>_. 0) (dat v)\<rparr>) = Inr off"
    using assign_zero [OF assms(2)] by blast
  let ?S = "if c \<le> prod_list (dat v) then (t_shape t)\<lparr>dat := dat v, lay := lay v\<rparr> else t_shape t"
  have S: "(t_shape t)\<lparr>dat := dat v, lay := lay v\<rparr> = v" by (cases v) (simp add: shape.defs)
  have "set_shape t v None None = Inr (SaberSuccess, t\<lparr>t_valid := v, t_shape := ?S, t_offset := off\<rparr>)"
    using assms(2) c off
    by (simp add: set_shape_def dense_wf no_shape take_shapes_def dims_def check_positive_ok wf_assign vs
        place_region_def dense_count dense_zero S)
  moreover have "\<exists>c'. count ?S = Inr c'" using c(1) dense_count [OF assms(2)] by (simp add: S)
  ultimately show ?thesis
    using c(2) assms(2) by (auto simp: settable_def dense_wf)
qed

lemma shape_same: "dat s = dat t \<Longrightarrow> lay s = lay t \<Longrightarrow> (s :: shape) = t"
  by (cases s; cases t) simp

lemma out_shape_settable:
  assumes "settable (T k)" "dense v" "at outs i = Inr k"
  shows "\<exists>t'. out_shape outs i v T = Inr (SaberSuccess, T(k := t')) \<and> settable t' \<and> t_valid t' = v \<and> t_seq t' = t_seq (T k)"
proof -
  obtain t' where t': "set_shape (T k) v None None = Inr (SaberSuccess, t')" "settable t'"
    "dat (t_valid t') = dat v" "lay (t_valid t') = lay v" "t_seq t' = t_seq (T k)"
    using set_shape_settable [OF assms(1,2)] by blast
  then show ?thesis
    using assms(3) by (auto simp: out_shape_def intro: shape_same)
qed

section \<open>Pieces of a shape\<close>

definition piece :: "shape \<Rightarrow> int \<Rightarrow> int \<Rightarrow> shape" where
  "piece s axis n = s\<lparr>dat := (dat s)[nat axis := n]\<rparr>"

lemma prod_list_update:
  "i < length xs \<Longrightarrow> prod_list (xs[i := n]) * xs ! i = n * prod_list (xs :: int list)"
proof (induction xs arbitrary: i)
  case (Cons x xs)
  then show ?case by (cases i) (auto simp: mult.left_commute mult.assoc)
qed simp

lemma piece_dense:
  assumes s: "dense s" "0 \<le> axis" "nat axis < length (dat s)" and n: "0 < n" "n \<le> dat s ! nat axis"
    and inner: "nat axis \<noteq> 4"
  shows "dense (piece s axis n)"
proof -
  have pos: "0 < dat s ! nat axis" using n by simp
  have all: "\<forall>d \<in> set (dat s). 0 < d" using s(1) by (simp add: dense_def positive_def)
  have P: "prod_list ((dat s)[nat axis := n]) * dat s ! nat axis = n * prod_list (dat s)"
    by (rule prod_list_update [OF s(3)])
  have "n * prod_list (dat s) \<le> dat s ! nat axis * prod_list (dat s)"
    using n(2) dense_prod(1) [OF s(1)] by (intro mult_right_mono) auto
  then have "prod_list ((dat s)[nat axis := n]) * dat s ! nat axis \<le> prod_list (dat s) * dat s ! nat axis"
    unfolding P by (simp only: mult.commute)
  then have "prod_list ((dat s)[nat axis := n]) \<le> prod_list (dat s)" using pos by simp
  then have "prod_list ((dat s)[nat axis := n]) < 2 ^ 31" using dense_prod(2) [OF s(1)] by linarith
  moreover have "\<forall>d \<in> set ((dat s)[nat axis := n]). 0 < d"
    using all n(1) set_update_subset_insert [of "dat s" "nat axis" n] by blast
  moreover have "wf_shape (piece s axis n)"
    using dense_wf [OF s(1)] inner by (auto simp: wf_shape_def piece_def split: layout_ptr.splits)
  ultimately show ?thesis
    using s(1) by (simp add: dense_def piece_def positive_def unaligned_def)
qed

lemma put_at_piece:
  "0 \<le> axis \<Longrightarrow> nat axis < length (dat s) \<Longrightarrow> put_at s axis n = Inr (piece s axis n)"
  by (simp add: put_at_def put_def piece_def)

lemma piece_piece [simp]: "piece (piece s axis m) axis n = piece s axis n"
  by (simp add: piece_def)

lemma piece_own: "nat axis < length (dat s) \<Longrightarrow> piece s axis (dat s ! nat axis) = s"
  by (simp add: piece_def)

section \<open>Concatenation of pieces\<close>

lemma foldE_unit: "(\<And>x. x \<in> set xs \<Longrightarrow> f x () = Inr ()) \<Longrightarrow> foldE f xs () = Inr ()"
  by (induction xs) auto

lemma concat_axis_piece:
  assumes s: "wf_shape s" "0 \<le> axis" "nat axis < length (dat s)" "nat axis \<noteq> 4"
  shows "concat_axis axis (piece s axis n) (piece s axis m) = Inr (piece s axis (m + n))"
proof -
  obtain l where l: "lay s = LObj l" using wf_shape_obj [OF s(1)] by auto
  have g: "get_layout (piece s axis k) = Inr l" for k
    using l by (simp add: get_layout_def piece_def)
  have loop: "foldE (\<lambda>j _. bindE (get_layout (piece s axis n)) (\<lambda>a. bindE (get_layout (piece s axis m)) (\<lambda>b.
       bindE (check (a = b)) (\<lambda>_.
       if j = axis then Inr ()
       else bindE (at (dat (piece s axis n)) j) (\<lambda>d.
            if d \<noteq> -1 then bindE (at (dat (piece s axis m)) j) (\<lambda>e. check (e = d)) else Inr ())))))
       [0..dims (piece s axis n) - 1] () = Inr ()"
    by (rule foldE_unit) (auto simp: g [unfolded piece_def] at_def piece_def dims_def eq_nat_nat_iff s(2))
  have a: "at (dat (piece s axis k)) axis = Inr k" for k using s(2,3) by (simp add: at_def piece_def)
  have p: "put_at (piece s axis m) axis k = Inr (piece s axis k)" for k
    using s(2,3) by (simp add: put_at_def put_def piece_def)
  show ?thesis unfolding concat_axis_def loop bindE_simps a p ..
qed

lemma concat_pieces:
  assumes s: "dense s" "0 \<le> axis" "nat axis < length (dat s)" "nat axis \<noteq> 4"
    and ns: "ns \<noteq> []" "\<forall>n \<in> set ns. 0 < n \<and> n \<le> dat s ! nat axis"
  shows "concat_dims axis (map (piece s axis) ns) = Inr (piece s axis (sum_list ns))"
proof -
  have copy: "shape_copy (piece s axis n) = Inr (piece s axis n)" if "n \<in> set ns" for n
    using piece_dense [OF s(1-3) _ _ s(4)] ns(2) that by (simp add: dense_wf)
  have loop: "foldE (\<lambda>sh0 out. bindE (shape_copy sh0) (\<lambda>sh. concat_axis axis sh out)) (map (piece s axis) ks) (piece s axis m)
      = Inr (piece s axis (m + sum_list ks))" if "set ks \<subseteq> set ns" for ks m
    using that
  proof (induction ks arbitrary: m)
    case (Cons k ks)
    then show ?case
      using copy concat_axis_piece [OF dense_wf [OF s(1)] s(2-4)] by (simp add: add.assoc)
  qed simp
  obtain n ks where n: "ns = n # ks" using ns(1) by (cases ns) auto
  have "set ks \<subseteq> set ns" using n by auto
  then show ?thesis
    using copy loop [of ks n] unfolding n by (simp add: concat_dims_def at_def)
qed


section \<open>Slices\<close>

text \<open>The lengths of the pieces between consecutive points.\<close>

fun gaps :: "int \<Rightarrow> int list \<Rightarrow> int list" where
  "gaps prev [] = []"
| "gaps prev (p # ps) = (p - prev) # gaps p ps"

lemma gaps_sum: "sum_list (gaps prev ps) = last (prev # ps) - prev"
  by (induction ps arbitrary: prev) auto

definition all_settable :: "tensors \<Rightarrow> nat list \<Rightarrow> bool" where
  "all_settable T outs \<longleftrightarrow> (\<forall>k \<in> set outs. settable (T k))"

lemma slice_piece_settable:
  assumes s: "dense s" "0 \<le> axis" "nat axis < length (dat s)" "nat axis \<noteq> 4"
    and n: "0 < n" "n \<le> dat s ! nat axis" and T: "all_settable T outs" and i: "i < length outs"
  shows "\<exists>t'. slice_piece axis s outs (int i) n T = Inr (SaberSuccess, T(outs ! i := t')) \<and> settable t' \<and>
    t_valid t' = piece s axis n \<and> t_seq t' = t_seq (T (outs ! i))"
proof -
  have "settable (T (outs ! i))" using T i by (simp add: all_settable_def)
  from out_shape_settable [of T "outs ! i", OF this piece_dense [OF s(1-3) n s(4)]] i
  show ?thesis by (simp add: slice_piece_def dense_wf [OF s(1)] put_at_piece [OF s(2,3)])
qed

text \<open>What the loops leave in the outputs from position \<open>k\<close>.\<close>

definition cut_from :: "shape \<Rightarrow> int \<Rightarrow> nat list \<Rightarrow> nat \<Rightarrow> tensors \<Rightarrow> tensors \<Rightarrow> int list \<Rightarrow> bool" where
  "cut_from s axis outs k T T' ns \<longleftrightarrow>
     all_settable T' outs \<and> (\<forall>x. t_seq (T' x) = t_seq (T x)) \<and>
     (\<forall>x. x \<notin> set (take (length ns) (drop k outs)) \<longrightarrow> T' x = T x) \<and>
     (\<forall>i < length ns. t_valid (T' (outs ! (k + i))) = piece s axis (ns ! i))"

lemma cut_from_Nil: "all_settable T outs \<Longrightarrow> cut_from s axis outs k T T []"
  by (simp add: cut_from_def)

lemma cut_from_Cons:
  assumes d: "distinct outs" "k + Suc (length ns) \<le> length outs" and T: "all_settable T outs"
    and t': "settable t'" "t_valid t' = piece s axis n" "t_seq t' = t_seq (T (outs ! k))"
    and rest: "cut_from s axis outs (Suc k) (T(outs ! k := t')) T' ns"
  shows "cut_from s axis outs k T T' (n # ns)"
proof -
  have dr: "drop k outs = outs ! k # drop (Suc k) outs" using d(2) by (simp add: Cons_nth_drop_Suc)
  have "distinct (drop k outs)" using d(1) by simp
  then have out: "outs ! k \<notin> set (take (length ns) (drop (Suc k) outs))"
    unfolding dr by (auto dest: in_set_takeD)
  have "T' (outs ! k) = t'" using rest out by (simp add: cut_from_def)
  then have first: "t_valid (T' (outs ! k)) = piece s axis n" using t'(2) by simp
  have "t_valid (T' (outs ! (k + i))) = piece s axis ((n # ns) ! i)" if "i < length (n # ns)" for i
  proof (cases i)
    case 0
    then show ?thesis using first by simp
  next
    case (Suc j)
    then show ?thesis using rest that by (simp add: cut_from_def)
  qed
  moreover have "T' x = T x" if "x \<notin> set (take (length (n # ns)) (drop k outs))" for x
  proof -
    have "x \<noteq> outs ! k" "x \<notin> set (take (length ns) (drop (Suc k) outs))" using that unfolding dr by auto
    then show ?thesis using rest by (simp add: cut_from_def)
  qed
  moreover have "t_seq (T' x) = t_seq (T x)" for x
    using rest t'(3) by (simp add: cut_from_def)
  ultimately show ?thesis using rest unfolding cut_from_def by blast
qed

lemma slice_points_loop:
  assumes s: "dense s" "0 \<le> axis" "nat axis < length (dat s)" "nat axis \<noteq> 4"
    and len: "len = dat s ! nat axis" and d: "distinct outs"
  shows "foldE (\<lambda>i (prev, T).
        bindE (at points i) (\<lambda>p. bindE (check (p > prev)) (\<lambda>_. bindE (check (p < len)) (\<lambda>_.
        bindE (slice_piece axis s outs i (p - prev) T) (\<lambda>(_, T'). Inr (p, T'))))))
       [int k..int (length points) - 1] (prev, T) = Inr (prev', T') \<Longrightarrow>
    k \<le> length points \<Longrightarrow> length points < length outs \<Longrightarrow> 0 \<le> prev \<Longrightarrow> all_settable T outs \<Longrightarrow>
    prev' = last (prev # drop k points) \<and> prev \<le> prev' \<and> (\<forall>n \<in> set (gaps prev (drop k points)). 0 < n \<and> n \<le> len) \<and>
    cut_from s axis outs k T T' (gaps prev (drop k points))"
proof (induction "length points - k" arbitrary: k prev T)
  case 0
  then show ?case by (auto simp: cut_from_Nil)
next
  case (Suc m)
  let ?f = "\<lambda>i (prev, T).
        bindE (at points i) (\<lambda>p. bindE (check (p > prev)) (\<lambda>_. bindE (check (p < len)) (\<lambda>_.
        bindE (slice_piece axis s outs i (p - prev) T) (\<lambda>(_, T'). Inr (p, T')))))"
  have k: "k < length points" using Suc.hyps(2) by simp
  have up: "[int k..int (length points) - 1] = int k # [int (Suc k)..int (length points) - 1]"
    using k by (simp add: upto_rec1 add.commute)
  let ?p = "points ! k"
  have dr: "drop k points = ?p # drop (Suc k) points" using k by (simp add: Cons_nth_drop_Suc)
  obtain acc where step: "?f (int k) (prev, T) = Inr acc"
    and rest: "foldE ?f [int (Suc k)..int (length points) - 1] acc = Inr (prev', T')"
    using Suc.prems(1) unfolding up foldE.simps by (rule bindE_InrE)
  have p: "prev < ?p" "?p < len" using step k by auto
  have ko: "k < length outs" using k Suc.prems(3) by simp
  have n: "0 < ?p - prev" "?p - prev \<le> dat s ! nat axis" using p Suc.prems(4) len by auto
  obtain t' where t': "slice_piece axis s outs (int k) (?p - prev) T = Inr (SaberSuccess, T(outs ! k := t'))" "settable t'"
    "t_valid t' = piece s axis (?p - prev)" "t_seq t' = t_seq (T (outs ! k))"
    using slice_piece_settable [OF s n Suc.prems(5) ko] by blast
  have acc: "acc = (?p, T(outs ! k := t'))" using step k p t'(1) by simp
  have T1: "all_settable (T(outs ! k := t')) outs" using Suc.prems(5) t'(2) by (simp add: all_settable_def)
  have IH: "prev' = last (?p # drop (Suc k) points) \<and> ?p \<le> prev' \<and>
      (\<forall>n \<in> set (gaps ?p (drop (Suc k) points)). 0 < n \<and> n \<le> len) \<and>
      cut_from s axis outs (Suc k) (T(outs ! k := t')) T' (gaps ?p (drop (Suc k) points))"
    by (rule Suc.hyps(1) [OF _ rest [unfolded acc]]) (use Suc.hyps(2) Suc.prems k p T1 in auto)
  have L: "length (gaps a xs) = length xs" for a xs by (induction xs arbitrary: a) auto
  have "cut_from s axis outs k T T' ((?p - prev) # gaps ?p (drop (Suc k) points))"
    by (rule cut_from_Cons [OF d _ Suc.prems(5) t'(2,3,4)]) (use IH L k Suc.prems(3) in auto)
  then show ?case using IH p n len unfolding dr by auto
qed

lemma length_gaps [simp]: "length (gaps a xs) = length xs"
  by (induction xs arbitrary: a) auto

lemma cut_from_snoc:
  assumes d: "distinct outs" "k + length ns < length outs"
    and cut: "cut_from s axis outs k T T1 ns"
    and t': "settable t'" "t_valid t' = piece s axis n" "t_seq t' = t_seq (T1 (outs ! (k + length ns)))"
  shows "cut_from s axis outs k T (T1(outs ! (k + length ns) := t')) (ns @ [n])"
proof -
  let ?j = "k + length ns"
  have tk: "take (Suc (length ns)) (drop k outs) = take (length ns) (drop k outs) @ [outs ! ?j]"
    using d(2) by (simp add: take_Suc_conv_app_nth)
  have ne: "outs ! (k + i) \<noteq> outs ! ?j" if "i < length ns" for i
    using d that by (simp add: nth_eq_iff_index_eq)
  have "t_valid ((T1(outs ! ?j := t')) (outs ! (k + i))) = piece s axis ((ns @ [n]) ! i)" if "i < length (ns @ [n])" for i
  proof (cases "i < length ns")
    case True
    then show ?thesis using cut ne [OF True] by (simp add: cut_from_def nth_append)
  next
    case False
    then have "i = length ns" using that by simp
    then show ?thesis using t'(2) by simp
  qed
  moreover have "(T1(outs ! ?j := t')) x = T x" if "x \<notin> set (take (length (ns @ [n])) (drop k outs))" for x
    using that cut unfolding length_append_singleton tk by (auto simp: cut_from_def)
  moreover have "t_seq ((T1(outs ! ?j := t')) x) = t_seq (T x)" for x
    using cut t'(3) by (simp add: cut_from_def)
  moreover have "all_settable (T1(outs ! ?j := t')) outs"
    using cut t'(1) by (simp add: cut_from_def all_settable_def)
  ultimately show ?thesis unfolding cut_from_def by blast
qed

lemma slice_points_cut:
  assumes s: "dense s" "0 \<le> axis" "nat axis < length (dat s)" "nat axis \<noteq> 4"
    and len: "len = dat s ! nat axis" and d: "distinct outs" and T: "all_settable T outs"
    and run: "slice_at_points axis s len points outs T = Inr (st, T')"
  shows "st = SaberSuccess \<and> (\<exists>ns. length ns = length outs \<and> (\<forall>n \<in> set ns. 0 < n \<and> n \<le> len) \<and>
    sum_list ns = len \<and> cut_from s axis outs 0 T T' ns)"
proof -
  obtain acc where L: "length points + 1 = length outs"
    and loop: "foldE (\<lambda>i (prev, T).
        bindE (at points i) (\<lambda>p. bindE (check (p > prev)) (\<lambda>_. bindE (check (p < len)) (\<lambda>_.
        bindE (slice_piece axis s outs i (p - prev) T) (\<lambda>(_, T'). Inr (p, T'))))))
       [0..int (length points) - 1] (0, T) = Inr acc"
    and last0: "(case acc of (prev, T1) \<Rightarrow> bindE (check (len - prev > 0)) (\<lambda>_.
       slice_piece axis s outs (int (length points)) (len - prev) T1)) = Inr (st, T')"
    using run unfolding slice_at_points_def by (auto simp del: foldE.simps)
  obtain prev T1 where acc: "acc = (prev, T1)" by (cases acc)
  have last: "0 < len - prev" "slice_piece axis s outs (int (length points)) (len - prev) T1 = Inr (st, T')"
    using last0 unfolding acc by auto
  have fact: "prev = last (0 # drop 0 points) \<and> 0 \<le> prev \<and> (\<forall>n \<in> set (gaps 0 (drop 0 points)). 0 < n \<and> n \<le> len) \<and>
    cut_from s axis outs 0 T T1 (gaps 0 (drop 0 points))"
    using loop unfolding acc by (intro slice_points_loop [OF s len d]) (use L T in auto)
  let ?ns = "gaps 0 points"
  have i: "length points < length outs" using L by simp
  have T1: "all_settable T1 outs" using fact by (simp add: cut_from_def)
  have n: "0 < len - prev" "len - prev \<le> dat s ! nat axis" using last(1) fact len by auto
  obtain t' where t': "slice_piece axis s outs (int (length points)) (len - prev) T1 = Inr (SaberSuccess, T1(outs ! length points := t'))"
    "settable t'" "t_valid t' = piece s axis (len - prev)" "t_seq t' = t_seq (T1 (outs ! length points))"
    using slice_piece_settable [OF s n T1 i] by blast
  have out: "st = SaberSuccess" "T' = T1(outs ! length points := t')" using t'(1) last(2) by auto
  have "cut_from s axis outs 0 T (T1(outs ! (0 + length ?ns) := t')) (?ns @ [len - prev])"
    by (rule cut_from_snoc [OF d]) (use i fact t' in auto)
  then have "cut_from s axis outs 0 T T' (?ns @ [len - prev])" by (simp add: out(2))
  moreover have "sum_list (?ns @ [len - prev]) = len" using fact by (simp add: gaps_sum)
  moreover have "\<forall>n \<in> set (?ns @ [len - prev]). 0 < n \<and> n \<le> len" using fact last(1) by auto
  moreover have "length (?ns @ [len - prev]) = length outs" using L by simp
  ultimately show ?thesis using out(1) by blast
qed

lemma slice_rest_cut:
  assumes s: "dense (piece s axis step)" and d: "distinct outs"
  shows "slice_rest (piece s axis step) outs step [int k..int (length outs) - 1] pts T = Inr (st, ps, T') \<Longrightarrow>
    k \<le> length outs \<Longrightarrow> all_settable T outs \<Longrightarrow>
    st = SaberSuccess \<and> cut_from s axis outs k T T' (replicate (length outs - k) step)"
proof (induction "length outs - k" arbitrary: k pts T)
  case 0
  then show ?case by (auto simp: cut_from_Nil)
next
  case (Suc m)
  have k: "k < length outs" using Suc.hyps(2) by simp
  have up: "[int k..int (length outs) - 1] = int k # [int (Suc k)..int (length outs) - 1]"
    using k by (simp add: upto_rec1 add.commute)
  have "settable (T (outs ! k))" using Suc.prems(3) k by (simp add: all_settable_def)
  from out_shape_settable [of T "outs ! k", OF this s, of outs "int k"] k
  obtain t' where t': "out_shape outs (int k) (piece s axis step) T = Inr (SaberSuccess, T(outs ! k := t'))" "settable t'"
    "t_valid t' = piece s axis step" "t_seq t' = t_seq (T (outs ! k))" by auto
  have rest: "slice_rest (piece s axis step) outs step [int (Suc k)..int (length outs) - 1] (pts @ [int k * step])
      (T(outs ! k := t')) = Inr (st, ps, T')"
    using Suc.prems(1) unfolding up slice_rest.simps t'(1) by simp
  have T1: "all_settable (T(outs ! k := t')) outs" using Suc.prems(3) t'(2) by (simp add: all_settable_def)
  have IH: "st = SaberSuccess \<and> cut_from s axis outs (Suc k) (T(outs ! k := t')) T' (replicate (length outs - Suc k) step)"
    by (rule Suc.hyps(1) [OF _ rest _ T1]) (use Suc.hyps(2) k in auto)
  have "cut_from s axis outs k T T' (step # replicate (length outs - Suc k) step)"
    by (rule cut_from_Cons [OF d _ Suc.prems(3) t'(2-4)]) (use IH k in auto)
  moreover have "step # replicate (length outs - Suc k) step = replicate (length outs - k) step"
    using k by (metis Suc_diff_Suc replicate_Suc)
  ultimately show ?case using IH by simp
qed

section \<open>Reshape\<close>

text \<open>The comparison of two parameters of \<open>reshape\<close> ignores the last dimension.\<close>

lemma reshape_param_loop_iff:
  "length xs = length ys \<Longrightarrow> reshape_param_loop xs ys eq \<longleftrightarrow> xs = [] \<or> eq \<and> butlast xs = butlast ys"
proof (induction xs arbitrary: ys eq)
  case (Cons x xs)
  then obtain y zs where "ys = y # zs" "length xs = length zs" by (cases ys) auto
  then show ?case using Cons.IH [of zs "x = y"] by auto
qed simp

lemma reshape_param_ignores_last:
  "length ps = length qs \<Longrightarrow> reshape_param_eq (ps, l) (qs, l) \<longleftrightarrow> butlast ps = butlast qs"
  by (auto simp: reshape_param_eq_def reshape_param_loop_iff)

text \<open>A target of fewer than four dimensions: the default layout of the new shape is read past its end.\<close>

lemma reshape_short_reads_out_of_range:
  "(case reshape_dims [2, -1] Layout_HW (plain_tensor [1, 2, 3, 4]) of Inl e \<Rightarrow> e = OutOfRange | Inr _ \<Rightarrow> False)"
  by code_simp

end
