(* ===== verification/Sequence_Shapes.thy ===== *)
theory Sequence_Shapes
  imports Function_Shapes
begin

text \<open>
  The output shapes and sequence offsets of the operators on sequences: a tensor with offsets
  \<open>[o\<^sub>0, ..., o\<^sub>k]\<close> holds \<open>k\<close> sequences, the \<open>i\<close>-th in the rows from \<open>o\<^sub>i\<close> to \<open>o\<^sub>i\<^sub>+\<^sub>1\<close>.
  \<open>sequence_concat.h\<close>, \<open>sequence_expand.h\<close>, \<open>sequence_pool.h\<close> and their kin, the
  recurrent layers and \<open>embedding.h\<close>.
\<close>

section \<open>Concatenation, expansion, pooling\<close>

text \<open>The loop adds up the end offsets of the sequences, \<open>get_seq_offset()[0][i + 1]\<close>.\<close>

definition sequence_concat_offsets :: "tensors \<Rightarrow> nat list \<Rightarrow> int \<Rightarrow> int list outcome" where
  "sequence_concat_offsets T ins seq_len =
     bindE (foldE (\<lambda>i (cur, offs).
        bindE (foldE (\<lambda>j cur. bindE (first_seq T ins j) (\<lambda>q. bindE (at q (i + 1)) (\<lambda>x. Inr (cur + x))))
          [0..int (length ins) - 1] cur) (\<lambda>cur'. Inr (cur', offs @ [cur'])))
       [0..seq_len - 1] (0, [0])) (\<lambda>(_, offs). Inr offs)"

definition sequence_concat_shape :: inference where
  "sequence_concat_shape ins outs T =
     bindE (in_valid T ins 0) (\<lambda>s. bindE (of_in tensor_num_index T ins 0) (\<lambda>num_idx. bindE (check (num_idx = 0)) (\<lambda>_.
     bindE (foldE (\<lambda>i s. bindE (of_in tensor_num T ins i) (\<lambda>n. bindE (at (dat s) 0) (\<lambda>d. put_at s 0 (d + n))))
       [1..int (length ins) - 1] s) (\<lambda>out.
     bindE (first_seq T ins 0) (\<lambda>q0.
     bindE (sequence_concat_offsets T ins (int (length q0) - 1)) (\<lambda>offs.
     bindE (out_seq outs 0 [offs] T) (out_shape outs 0 out)))))))"

text \<open>The loops of \<open>sequence_expand\<close>: for each sequence, its length once for each row of the reference.\<close>

definition expand_offsets :: "int list \<Rightarrow> int list \<Rightarrow> (int \<times> int list) outcome" where
  "expand_offsets input_seq ref_seq =
     (if ref_seq = [] then Inl OutOfRange
      else foldE (\<lambda>i (cum, offs).
        bindE (at input_seq (i + 1)) (\<lambda>b. bindE (at input_seq i) (\<lambda>a.
        bindE (at ref_seq i) (\<lambda>r. bindE (at ref_seq (i + 1)) (\<lambda>r'.
        Inr (cum + int (nat (r' - r)) * (b - a), offs @ replicate (nat (r' - r)) (b - a)))))))
       [0..int (length ref_seq) - 2] (0, [0]))"

definition sequence_expand_shape :: inference where
  "sequence_expand_shape ins outs T =
     bindE (in_valid T ins 0) (\<lambda>out0. bindE (check (length ins = 2)) (\<lambda>_. bindE (in_valid T ins 0) (\<lambda>s.
     bindE (seq_of T ins 0) (\<lambda>q0.
     if length q0 = 0 then
       bindE (shape_assign out0 s) (\<lambda>out1.
       bindE (seq_of T ins 1) (\<lambda>q1.
       bindE (if length q1 > 0
              then bindE (at q1 0) (\<lambda>ref. bindE (at ref (int (length ref) - 1)) (\<lambda>x.
                   bindE (put_at out1 0 x) (\<lambda>out2. bindE (copy_seq outs 0 ins 1 T) (\<lambda>T1. Inr (out2, T1)))))
              else Inr (out1, T)) (\<lambda>(out, T1). out_shape outs 0 out T1)))
     else
       bindE (first_seq T ins 0) (\<lambda>input_seq. bindE (first_seq T ins 1) (\<lambda>ref_seq.
       bindE (check (length input_seq = length ref_seq)) (\<lambda>_.
       bindE (expand_offsets input_seq ref_seq) (\<lambda>(cum, offs).
       bindE (put_at out0 0 cum) (\<lambda>out.
       bindE (out_seq outs 0 [offs] T) (out_shape outs 0 out))))))))))"

definition sequence_pool_shape :: inference where
  "sequence_pool_shape ins outs T =
     bindE (in_valid T ins 0) (\<lambda>s. bindE (of_in tensor_num_index T ins 0) (\<lambda>num_idx. bindE (seq_of T ins 0) (\<lambda>q.
     bindE (if length q \<ge> 1 \<and> length (hd q) > 1 then Inr (int (length (hd q)) - 1) else of_in tensor_num T ins 0) (\<lambda>n.
     bindE (put_at s num_idx n) (\<lambda>out.
     bindE (copy_seq outs 0 ins 0 T) (out_shape outs 0 out))))))"

text \<open>A \<open>size_t\<close> divided by an \<open>int\<close>, which is converted to \<open>size_t\<close>.\<close>

definition size_div :: "int \<Rightarrow> int \<Rightarrow> int outcome" where
  "size_div a b = (if b = 0 then Inl DivByZero else Inr (narrow32 (a div (b mod 2 ^ 64))))"

definition sequence_pool_concat_shape :: "int \<Rightarrow> inference" where
  "sequence_pool_concat_shape slot_num ins outs T =
     bindE (of_in tensor_width T ins 0) (\<lambda>xdim. bindE (seq_of T ins 0) (\<lambda>q.
     bindE (if length q \<ge> 1 \<and> length (hd q) > 1 then size_div (int (length (hd q)) - 1) slot_num else of_in tensor_num T ins 0) (\<lambda>batch.
     bindE (of_in tensor_width T ins 0) (\<lambda>w.
     bindE (nchw [batch, slot_num * w, 1, 1]) (\<lambda>out. out_shape outs 0 out T)))))"

definition seq_concat_pool_soft_sign_shape :: inference where
  "seq_concat_pool_soft_sign_shape ins outs T =
     bindE (first_seq T ins 0) (\<lambda>q. let seq_num = int (length q) - 1 in
     bindE (of_in valid_size T ins 0) (\<lambda>c. bindE (of_in tensor_num T ins 0) (\<lambda>n. bindE (cdiv c n) (\<lambda>emb.
     bindE (nchw [seq_num, narrow32 emb, 1, 1]) (\<lambda>out.
     bindE (out_seq outs 0 [0 # [0..seq_num - 1]] T) (out_shape outs 0 out))))))"

definition sequence_conv_shape :: "tensor \<Rightarrow> inference" where
  "sequence_conv_shape filter_tensor ins outs T =
     bindE (in_valid T ins 0) (\<lambda>s.
     bindE (of_in tensor_num T ins 0) (\<lambda>n. bindE (set_num s n) (\<lambda>s1.
     bindE (tensor_width filter_tensor) (\<lambda>w. bindE (set_channel s1 w) (\<lambda>s2.
     bindE (set_height s2 1) (\<lambda>s3. bindE (set_width s3 1) (\<lambda>s4.
     bindE (copy_seq outs 0 ins 0 T) (out_shape outs 0 s4))))))))"

text \<open>In both cases the offsets are those of \<open>input[1]\<close>.\<close>

definition topk_avg_pooling_shape :: "int list \<Rightarrow> int \<Rightarrow> bool \<Rightarrow> inference" where
  "topk_avg_pooling_shape top_ks feat_map_num by_row ins outs T =
     bindE (of_in tensor_num T ins (if by_row then 1 else 2)) (\<lambda>dim0.
     bindE (copy_seq outs 0 ins 1 T) (\<lambda>T1.
     bindE (first_seq T1 outs 0) (\<lambda>q. bindE (at q (int (length q) - 1)) (\<lambda>rows.
     bindE (nchw [rows, feat_map_num * int (length top_ks), 1, 1]) (\<lambda>out. out_shape outs 0 out T1)))))"

definition topk_pooling_shape :: "int \<Rightarrow> inference" where
  "topk_pooling_shape top_k ins outs T =
     bindE (of_in tensor_num T ins 0) (\<lambda>n. bindE (of_in tensor_channel T ins 0) (\<lambda>c.
     bindE (nchw [n, c * top_k, 1, 1]) (\<lambda>out.
     bindE (copy_seq outs 0 ins 0 T) (out_shape outs 0 out))))"

section \<open>Embedding and recurrent layers\<close>

definition embedding_shape :: "int \<Rightarrow> int \<Rightarrow> inference" where
  "embedding_shape emb_dim num_direct ins outs T =
     bindE (of_in valid_size T ins 0) (\<lambda>c. bindE (nchw [narrow32 c, emb_dim, 1, 1]) (\<lambda>out.
     bindE (check (int (length outs) = num_direct)) (\<lambda>_.
     bindE (foldE (\<lambda>i T. bindE (copy_seq outs i ins 0 T) (\<lambda>T1. bindE (out_shape_only outs i out T1) (\<lambda>(_, T2). Inr T2)))
       [0..int (length outs) - 1] T) (\<lambda>T'. Inr (SaberSuccess, T')))))"

text \<open>\<open>bias()->valid_size() / k\<close>; the bias is \<open>None\<close> when the pointer is null.\<close>

definition hidden_size :: "tensor option \<Rightarrow> int \<Rightarrow> int outcome" where
  "hidden_size bias k = (case bias of None \<Rightarrow> Inl NullDeref
     | Some t \<Rightarrow> bindE (valid_size t) (\<lambda>c. bindE (cdiv c k) (\<lambda>q. Inr (narrow32 q))))"

definition gru_shape :: "tensor option \<Rightarrow> int \<Rightarrow> inference" where
  "gru_shape bias num_direction ins outs T =
     bindE (of_in tensor_num T ins 0) (\<lambda>n. bindE (of_in tensor_channel T ins 0) (\<lambda>_.
     bindE (of_in tensor_height T ins 0) (\<lambda>_. bindE (of_in tensor_width T ins 0) (\<lambda>_.
     bindE (check (length ins \<ge> 1)) (\<lambda>_. bindE (check (bias \<noteq> None)) (\<lambda>_.
     bindE (hidden_size bias 3) (\<lambda>h.
     bindE (of_in tensor_get_layout T ins 0) (\<lambda>l. bindE (shape_of_vector [n, h * num_direction, 1, 1] l) (\<lambda>out.
     bindE (out_shape outs 0 out T) (\<lambda>(_, T1).
     bindE (copy_seq outs 0 ins 0 T1) (\<lambda>T2. Inr (SaberSuccess, T2))))))))))))"

definition copy_seq_outputs :: "nat list \<Rightarrow> nat list \<Rightarrow> tensors \<Rightarrow> tensors outcome" where
  "copy_seq_outputs outs ins T =
     bindE (copy_seq outs 0 ins 0 T) (\<lambda>T1. if length outs \<ge> 2 then copy_seq outs 1 ins 0 T1 else Inr T1)"

definition lstm_shape :: "tensor option \<Rightarrow> bool \<Rightarrow> int \<Rightarrow> inference" where
  "lstm_shape bias with_peephole num_direction ins outs T =
     bindE (of_in tensor_num T ins 0) (\<lambda>n. bindE (hidden_size bias (if with_peephole then 7 else 4)) (\<lambda>h.
     bindE (of_in tensor_get_layout T ins 0) (\<lambda>l. bindE (shape_of_vector [n, h, num_direction, 1] l) (\<lambda>out.
     bindE (copy_seq_outputs outs ins T) (out_shape_only outs 0 out)))))"

definition lstmp_shape :: "int \<Rightarrow> int \<Rightarrow> inference" where
  "lstmp_shape project_dim num_direction ins outs T =
     bindE (of_in tensor_num T ins 0) (\<lambda>n.
     bindE (of_in tensor_get_layout T ins 0) (\<lambda>l. bindE (shape_of_vector [n, project_dim, num_direction, 1] l) (\<lambda>out.
     bindE (copy_seq_outputs outs ins T) (out_shape_only outs 0 out))))"

definition attension_lstm_shape :: "tensor option \<Rightarrow> int \<Rightarrow> inference" where
  "attension_lstm_shape bias num_direction ins outs T =
     bindE (check (length ins \<ge> 1)) (\<lambda>_. bindE (hidden_size bias 4) (\<lambda>h.
     bindE (of_in tensor_num T ins 0) (\<lambda>n. bindE (nchw [n, h * num_direction, 1, 1]) (\<lambda>out.
     bindE (out_shape outs 0 out T) (\<lambda>(_, T1).
     bindE (copy_seq outs 0 ins 0 T1) (\<lambda>T2. Inr (SaberSuccess, T2)))))))"

end
