(* ===== verification/Inference_Properties.thy ===== *)
theory Inference_Properties
  imports Inference_Facts Sequence_Shapes
begin

text \<open>
  What the shape functions of different operators promise each other.
\<close>

section \<open>Slice and concatenation\<close>

lemma slice_cut:
  assumes s: "dense s" "0 \<le> axis" "nat axis < length (dat s)" "nat axis \<noteq> 4"
    and input: "t_valid (T x) = s" and d: "distinct outs" and T: "all_settable T outs"
    and run: "slice_shape axis points [x] outs T = Inr (st, ps, T')"
  shows "st = SaberSuccess \<and> outs \<noteq> [] \<and> (\<exists>ns. length ns = length outs \<and>
    (\<forall>n \<in> set ns. 0 < n \<and> n \<le> dat s ! nat axis) \<and> sum_list ns = dat s ! nat axis \<and> cut_from s axis outs 0 T T' ns)"
proof -
  let ?len = "dat s ! nat axis"
  have in0: "in_valid T [x] 0 = Inr s"
    using input s(1) by (simp add: in_valid_def tens_def at_def valid_shape_def dense_wf)
  have len: "at (dat s) axis = Inr ?len" using s(2,3) by (simp add: at_def)
  have pos: "0 < ?len" using s(1,3) by (auto simp: dense_def positive_def)
  show ?thesis
  proof (cases "length points > 0")
    case True
    then have pts: "slice_at_points axis s ?len points outs T = Inr (st, T')" "ps = points"
      using run in0 len by (auto simp: slice_shape_def)
    then have "outs \<noteq> []" by (auto simp: slice_at_points_def)
    with slice_points_cut [OF s refl d T pts(1)] show ?thesis by blast
  next
    case False
    let ?m = "int (length outs)"
    from run have m: "length outs > 0" using False in0 len by (auto simp: slice_shape_def)
    then have div: "cmod ?len ?m = Inr (?len mod ?m)" "cdiv ?len ?m = Inr (?len div ?m)"
      using pos by (auto intro: cmod_pos cdiv_pos)
    let ?step = "?len div ?m"
    have md: "?len mod ?m = 0" using run False in0 len m by (auto simp: slice_shape_def div)
    have eq: "?m * ?step = ?len" using md by (metis add.right_neutral mult_div_mod_eq)
    have "?step \<noteq> 0" using eq pos by auto
    then have sp: "0 < ?step" using pos m by (simp add: order_less_le pos_imp_zdiv_nonneg_iff)
    have le: "?step \<le> ?len" using zdiv_mono2 [of ?len 1 ?m] pos m by simp
    have dp: "dense (piece s axis ?step)" by (rule piece_dense [OF s(1-3) sp le s(4)])
    have "settable (T (outs ! 0))" using T m by (simp add: all_settable_def)
    moreover have "at outs 0 = Inr (outs ! 0)" using m by (simp add: at_def)
    ultimately
    obtain t' where t': "out_shape outs 0 (piece s axis ?step) T = Inr (SaberSuccess, T(outs ! 0 := t'))" "settable t'"
      "t_valid t' = piece s axis ?step" "t_seq t' = t_seq (T (outs ! 0))"
      using out_shape_settable [of T "outs ! 0", OF _ dp, of outs 0] by blast
    have "slice_shape axis points [x] outs T = slice_rest (piece s axis ?step) outs ?step [1..?m - 1] [] (T(outs ! 0 := t'))"
      using False m by (simp add: slice_shape_def in0 len div md dense_wf [OF s(1)] put_at_piece [OF s(2,3)] t'(1))
    then have rest: "slice_rest (piece s axis ?step) outs ?step [int 1..?m - 1] [] (T(outs ! 0 := t')) = Inr (st, ps, T')"
      using run by simp
    have T1: "all_settable (T(outs ! 0 := t')) outs" using T t'(2) by (simp add: all_settable_def)
    have r: "st = SaberSuccess \<and> cut_from s axis outs 1 (T(outs ! 0 := t')) T' (replicate (length outs - 1) ?step)"
      by (rule slice_rest_cut [OF dp d rest _ T1]) (use m in \<open>simp add: Suc_le_eq\<close>)
    have "cut_from s axis outs 0 T T' (?step # replicate (length outs - 1) ?step)"
      by (rule cut_from_Cons [OF d _ T t'(2-4)]) (use r m in auto)
    moreover have rep: "?step # replicate (length outs - 1) ?step = replicate (length outs) ?step"
      using m by (metis One_nat_def Suc_pred replicate_Suc)
    ultimately have "cut_from s axis outs 0 T T' (replicate (length outs) ?step)" by simp
    moreover have "sum_list (replicate (length outs) ?step) = ?len" using eq by (simp add: sum_list_replicate)
    moreover have "\<forall>n \<in> set (replicate (length outs) ?step). 0 < n \<and> n \<le> ?len" using sp le by simp
    ultimately show ?thesis using r m by (metis length_replicate length_greater_0_conv)
  qed
qed

text \<open>C8: slice then concatenation along the same axis gives the shape of the input back. For an
  input with a dense shape and distinct output tensors that are no regions of others, a run of
  the shape function of \<open>slice\<close> that does not abort, with slice points or in equal parts,
  reports success, and the shape function of \<open>concat\<close> on the pieces then succeeds and sets the
  shape of the input.\<close>

theorem slice_concat_roundtrip:
  assumes "dense (t_valid (T x))" "0 \<le> axis" "nat axis < length (dat (t_valid (T x)))" "nat axis \<noteq> 4"
    and "distinct outs" "all_settable T outs" "settable (T y)" "y \<notin> set outs"
    and "axis = 0 \<longrightarrow> t_seq (T (hd outs)) = []"
    and run: "slice_shape axis points [x] outs T = Inr (st, ps, T')"
  shows "st = SaberSuccess \<and> (\<exists>T''. concat_shape axis outs [y] T' = Inr (SaberSuccess, T'') \<and>
    t_valid (T'' y) = t_valid (T x))"
proof -
  let ?s = "t_valid (T x)"
  obtain ns where st: "st = SaberSuccess" "outs \<noteq> []"
    and ns: "length ns = length outs" "\<forall>n \<in> set ns. 0 < n \<and> n \<le> dat ?s ! nat axis" "sum_list ns = dat ?s ! nat axis"
    and cut: "cut_from ?s axis outs 0 T T' ns"
    using slice_cut [OF assms(1-4) refl assms(5,6) run] by auto
  have val: "t_valid (T' (outs ! i)) = piece ?s axis (ns ! i)" if "i < length outs" for i
    using cut that ns(1) by (simp add: cut_from_def)
  have "mapE (\<lambda>k. valid_shape (T' k)) outs = Inr (map (\<lambda>k. t_valid (T' k)) outs)"
  proof (rule mapE_total)
    fix k assume "k \<in> set outs"
    then obtain i where "i < length outs" "k = outs ! i" by (auto simp: in_set_conv_nth)
    moreover have "dense (piece ?s axis (ns ! i))" if "i < length outs" for i
      using piece_dense [OF assms(1-3) _ _ assms(4)] ns(1,2) that by simp
    ultimately show "valid_shape (T' k) = Inr (t_valid (T' k))"
      by (simp add: val valid_shape_def dense_wf)
  qed
  also have "map (\<lambda>k. t_valid (T' k)) outs = map (piece ?s axis) ns"
    by (rule nth_equalityI) (use val ns(1) in auto)
  finally have shapes: "mapE (\<lambda>k. valid_shape (T' k)) outs = Inr (map (piece ?s axis) ns)" .
  have ns_ne: "ns \<noteq> []" using st(2) ns(1) by auto
  have out: "concat_dims axis (map (piece ?s axis) ns) = Inr ?s"
    using concat_pieces [OF assms(1-4) ns_ne ns(2)] ns(3) piece_own [OF assms(3)] by simp
  have seq: "seq_of T' outs 0 = Inr (t_seq (T (hd outs)))"
    using st(2) cut by (simp add: seq_of_def tens_def at_def get_seq_offset_def cut_from_def hd_conv_nth)
  define T1 where "T1 = T'(y := set_seq_offset (T' y) (t_seq (T (hd outs))))"
  have q: "out_seq [y] 0 (t_seq (T (hd outs))) T' = Inr T1"
    by (simp add: out_seq_def at_def T1_def)
  have "T' y = T y" using cut assms(8) by (auto simp: cut_from_def dest: in_set_takeD)
  then have "settable (T1 y)"
    using assms(7) by (simp add: T1_def settable_def set_seq_offset_def)
  from out_shape_settable [of T1 y, OF this assms(1), of "[y]" 0]
  obtain t' where "out_shape [y] 0 ?s T1 = Inr (SaberSuccess, T1(y := t'))" "t_valid t' = ?s"
    by (auto simp: at_def)
  then have "concat_shape axis outs [y] T' = Inr (SaberSuccess, T1(y := t'))"
    using assms(9) by (auto simp: concat_shape_def shapes out seq q)
  then show ?thesis using st(1) \<open>t_valid t' = ?s\<close> by simp
qed

theorem slice_concat_roundtrip_witness:
  "\<exists>st ps T' T''. slice_shape 1 [1, 3] [0] [1, 2, 3] (\<lambda>_. plain_tensor [1, 4, 2, 2]) = Inr (st, ps, T') \<and> st = SaberSuccess \<and>
     concat_shape 1 [1, 2, 3] [4] T' = Inr (SaberSuccess, T'') \<and> t_valid (T'' 4) = mk_shape [1, 4, 2, 2] Layout_NCHW"
proof -
  let ?T = "\<lambda>_ :: nat. plain_tensor [1, 4, 2, 2]"
  have "(case slice_shape 1 [1, 3] [0] [1, 2, 3] ?T of Inl _ \<Rightarrow> False | Inr _ \<Rightarrow> True)" by code_simp
  then obtain st ps T' where run: "slice_shape 1 [1, 3] [0] [1, 2, 3] ?T = Inr (st, ps, T')"
    by (auto split: sum.splits)
  have d: "dense (t_valid (?T 0))" by (simp add: dense_def wf_shape_def unaligned_def positive_def)
  have ok: "settable (plain_tensor [1, 4, 2, 2])"
    using dense_count [OF d] by (simp add: settable_def)
  have "st = SaberSuccess \<and> (\<exists>T''. concat_shape 1 [1, 2, 3] [4] T' = Inr (SaberSuccess, T'') \<and> t_valid (T'' 4) = t_valid (?T 0))"
    by (rule slice_concat_roundtrip [OF d _ _ _ _ _ _ _ _ run]) (use ok in \<open>auto simp: all_settable_def\<close>)
  with run show ?thesis by auto
qed

section \<open>Sequence offsets\<close>

lemma sum_over_inputs:
  assumes "\<forall>k \<in> set ins. t_seq (T k) = [offs k] \<and> Suc i < length (offs k)"
  shows "foldE (\<lambda>j cur. bindE (first_seq T ins j) (\<lambda>q. bindE (at q (int i + 1)) (\<lambda>x. Inr (cur + x))))
          [0..int (length ins) - 1] cur = Inr (cur + (\<Sum>j \<leftarrow> ins. offs j ! Suc i))"
proof -
  let ?f = "\<lambda>j cur. bindE (first_seq T ins j) (\<lambda>q. bindE (at q (int i + 1)) (\<lambda>x. Inr (cur + x)))"
  have "foldE ?f [0..int k - 1] cur = Inr (cur + (\<Sum>j \<leftarrow> take k ins. offs j ! Suc i))" if "k \<le> length ins" for k
    using that
  proof (induction k)
    case 0
    then show ?case by simp
  next
    case (Suc k)
    have up: "[0..int (Suc k) - 1] = [0..int k - 1] @ [int k]" by (simp add: upto_rec2)
    have k: "k < length ins" using Suc.prems by simp
    have off: "t_seq (T (ins ! k)) = [offs (ins ! k)]" "Suc i < length (offs (ins ! k))" using assms k by auto
    have "first_seq T ins (int k) = Inr (offs (ins ! k))"
      using k off by (simp add: first_seq_def seq_of_def tens_def get_seq_offset_def at_def)
    moreover have "at (offs (ins ! k)) (int i + 1) = Inr (offs (ins ! k) ! Suc i)"
      using off(2) by (simp add: at_def nat_add_distrib)
    ultimately have step: "?f (int k) c = Inr (c + offs (ins ! k) ! Suc i)" for c by simp
    show ?case unfolding up foldE_append Suc.IH [OF Suc_leD [OF Suc.prems]] bindE_simps foldE.simps step
      using k by (simp add: take_Suc_conv_app_nth)
  qed
  from this [OF order_refl] show ?thesis by simp
qed

lemma sum_list_all_pos: "xs \<noteq> [] \<Longrightarrow> (\<And>x. x \<in> set xs \<Longrightarrow> 0 < f x) \<Longrightarrow> 0 < (\<Sum>x \<leftarrow> xs. f x :: int)"
proof (induction xs)
  case (Cons x xs)
  then show ?case by (cases "xs = []") (auto intro: add_pos_pos)
qed simp

text \<open>the sequence offsets of \<open>sequence_concat\<close> run past the rows. For inputs of \<open>m\<close>
  sequences each, the offset of the end of the \<open>k\<close>-th output sequence is the sum of the end offsets of all
  input sequences up to it, where the rows written are the sum of their lengths; with two or more
  sequences the last offset is larger than the number of rows.\<close>

lemma sequence_concat_offsets_overshoot:
  assumes "ins \<noteq> []" "\<forall>k \<in> set ins. t_seq (T k) = [offs k] \<and> length (offs k) = Suc m \<and> offs k ! 0 = 0 \<and> sorted_wrt (<) (offs k)"
    and "2 \<le> m"
  shows "\<exists>res. sequence_concat_offsets T ins (int m) = Inr res \<and> length res = Suc m \<and>
     (\<forall>k \<le> m. res ! k = (\<Sum>i < k. \<Sum>j \<leftarrow> ins. offs j ! Suc i)) \<and> (\<Sum>j \<leftarrow> ins. offs j ! m) < res ! m"
proof -
  define E where "E i = (\<Sum>j \<leftarrow> ins. offs j ! Suc i)" for i
  let ?inner = "\<lambda>i cur. foldE (\<lambda>j cur. bindE (first_seq T ins j) (\<lambda>q. bindE (at q (i + 1)) (\<lambda>x. Inr (cur + x))))
          [0..int (length ins) - 1] cur"
  let ?f = "\<lambda>i (cur, res). bindE (?inner i cur) (\<lambda>cur'. Inr (cur', res @ [cur']))"
  have inner: "?inner (int i) cur = Inr (cur + E i)" if "i < m" for i cur
    unfolding E_def by (rule sum_over_inputs) (use assms(2) that in auto)
  have loop: "foldE ?f [0..int k - 1] (0, [0]) = Inr (\<Sum>i < k. E i, map (\<lambda>k. \<Sum>i < k. E i) [0..<Suc k])" if "k \<le> m" for k
    using that
  proof (induction k)
    case 0
    then show ?case by simp
  next
    case (Suc k)
    have up: "[0..int (Suc k) - 1] = [0..int k - 1] @ [int k]" by (simp add: upto_rec2)
    show ?case unfolding up foldE_append Suc.IH [OF Suc_leD [OF Suc.prems]] bindE_simps foldE.simps
      using inner [of k] Suc.prems by (simp add: add.commute)
  qed
  let ?res = "map (\<lambda>k. \<Sum>i < k. E i) [0..<Suc m]"
  have "sequence_concat_offsets T ins (int m) = Inr ?res"
    using loop [OF order_refl] by (simp add: sequence_concat_offsets_def)
  moreover have "(\<Sum>j \<leftarrow> ins. offs j ! m) < ?res ! m"
  proof -
    have "m = Suc (Suc (m - 2))" using assms(3) by simp
    then obtain m' where m': "m = Suc (Suc m')" ..
    have pos: "0 < offs j ! Suc i" if "j \<in> set ins" "i < m" for i j
    proof -
      from assms(2) that(1) have o: "length (offs j) = Suc m" "offs j ! 0 = 0" "sorted_wrt (<) (offs j)" by blast+
      show ?thesis using sorted_wrt_nth_less [OF o(3), of 0 "Suc i"] o(1,2) that(2) by simp
    qed
    have E: "0 < E i" if "i < m" for i
      unfolding E_def by (rule sum_list_all_pos) (use assms(1) pos that in auto)
    have "?res ! m = (\<Sum>i < Suc m'. E i) + E (Suc m')" using m' by (simp add: nth_append)
    moreover have "0 < (\<Sum>i < Suc m'. E i)" by (rule sum_pos) (use E m' in auto)
    moreover have "E (Suc m') = (\<Sum>j \<leftarrow> ins. offs j ! m)" by (simp add: E_def m')
    ultimately show ?thesis by simp
  qed
  moreover have "?res ! k = (\<Sum>i < k. \<Sum>j \<leftarrow> ins. offs j ! Suc i)" if "k \<le> m" for k
    using that by (simp add: E_def nth_map [of k "[0..<Suc m]"] del: upt_Suc)
  moreover have "length ?res = Suc m" by (simp del: upt_Suc)
  ultimately show ?thesis by blast
qed

lemma sequence_concat_offsets_overshoot_witness:
  "\<exists>res. sequence_concat_offsets (\<lambda>_. (plain_tensor [4, 1, 1, 1])\<lparr>t_seq := [[0, 2, 4]]\<rparr>) [0, 1] 2 = Inr res \<and> 8 < res ! 2"
proof -
  let ?T = "\<lambda>_ :: nat. (plain_tensor [4, 1, 1, 1])\<lparr>t_seq := [[0, 2, 4]]\<rparr>"
  have "\<exists>res. sequence_concat_offsets ?T [0, 1] (int 2) = Inr res \<and> length res = Suc 2 \<and>
     (\<forall>k \<le> 2. res ! k = (\<Sum>i < k. \<Sum>j \<leftarrow> [0, 1 :: nat]. [0, 2, 4] ! Suc i)) \<and> (\<Sum>j \<leftarrow> [0, 1 :: nat]. [0, 2, 4] ! 2) < res ! 2"
    by (rule sequence_concat_offsets_overshoot) simp_all
  then show ?thesis by auto
qed

end
