(* ===== verification/Window_Shapes.thy ===== *)
theory Window_Shapes
  imports Function_Shapes
begin

text \<open>
  The output shapes of the operators that slide a window over the image, or stretch, pad and crop
  it: \<open>conv_compute_shape\<close> and \<open>deconv_compute_shape\<close> of \<open>saber/funcs/funcs_utils.h\<close>
  with the convolutions, and the functions of \<open>im2sequence.h\<close>, \<open>unpool.h\<close>,
  \<open>crop.h\<close>, \<open>pad.h\<close>, \<open>pad2d.h\<close>, \<open>pixel_shuffle.h\<close>, \<open>transpose.h\<close> and
  the region-of-interest operators.
\<close>

section \<open>Convolutions\<close>

record conv_param =
  cp_weight :: tensor
  cp_group :: int
  cp_pad_h :: int
  cp_pad_w :: int
  cp_stride_h :: int
  cp_stride_w :: int
  cp_dilation_h :: int
  cp_dilation_w :: int

text \<open>\<open>(dim + pad - (dilation * (window - 1) + 1)) / stride + 1\<close>.\<close>

definition window_count :: "int \<Rightarrow> int \<Rightarrow> int \<Rightarrow> int \<Rightarrow> int \<Rightarrow> int outcome" where
  "window_count dim pad dilation window stride =
     (let extent = dilation * (window - 1) + 1
      in bindE (cdiv (dim + pad - extent) stride) (\<lambda>q. Inr (q + 1)))"

definition conv_compute_shape :: "shape \<Rightarrow> conv_param \<Rightarrow> shape outcome" where
  "conv_compute_shape in0 p =
     bindE (shape_copy in0) (\<lambda>inp. bindE (shape_copy inp) (\<lambda>out.
     bindE (check (length (dat inp) \<ge> 4)) (\<lambda>_.
     bindE (num_index out) (\<lambda>num_idx. bindE (channel_index out) (\<lambda>channel_idx.
     bindE (height_index out) (\<lambda>height_idx. bindE (width_index out) (\<lambda>width_idx.
     bindE (num inp) (\<lambda>n. bindE (put_at out num_idx n) (\<lambda>out1.
     bindE (tensor_num (cp_weight p)) (\<lambda>k. bindE (put_at out1 channel_idx k) (\<lambda>out2.
     bindE (height inp) (\<lambda>h. bindE (tensor_height (cp_weight p)) (\<lambda>wh.
     bindE (window_count h (2 * cp_pad_h p) (cp_dilation_h p) wh (cp_stride_h p)) (\<lambda>oh.
     bindE (put_at out2 height_idx oh) (\<lambda>out3.
     bindE (width inp) (\<lambda>w. bindE (tensor_width (cp_weight p)) (\<lambda>ww.
     bindE (window_count w (2 * cp_pad_w p) (cp_dilation_w p) ww (cp_stride_w p)) (\<lambda>ow.
     put_at out3 width_idx ow))))))))))))))))))"

text \<open>\<open>(dim - 1) * stride + (dilation * (window - 1) + 1) - 2 * pad\<close>.\<close>

definition window_span :: "int \<Rightarrow> int \<Rightarrow> int \<Rightarrow> int \<Rightarrow> int \<Rightarrow> int" where
  "window_span dim pad dilation window stride =
     (dim - 1) * stride + (dilation * (window - 1) + 1) - 2 * pad"

definition deconv_compute_shape :: "shape \<Rightarrow> conv_param \<Rightarrow> shape outcome" where
  "deconv_compute_shape in0 p =
     bindE (shape_copy in0) (\<lambda>inp. bindE (shape_copy inp) (\<lambda>out.
     bindE (check (length (dat inp) \<ge> 4)) (\<lambda>_.
     bindE (num_index out) (\<lambda>num_idx. bindE (channel_index out) (\<lambda>channel_idx.
     bindE (height_index out) (\<lambda>height_idx. bindE (width_index out) (\<lambda>width_idx.
     bindE (num inp) (\<lambda>n. bindE (put_at out num_idx n) (\<lambda>out1.
     bindE (tensor_num (cp_weight p)) (\<lambda>k. bindE (put_at out1 channel_idx (k * cp_group p)) (\<lambda>out2.
     bindE (tensor_height (cp_weight p)) (\<lambda>wh. bindE (height inp) (\<lambda>h.
     bindE (tensor_width (cp_weight p)) (\<lambda>ww. bindE (width inp) (\<lambda>w.
     bindE (put_at out2 height_idx (window_span h (cp_pad_h p) (cp_dilation_h p) wh (cp_stride_h p))) (\<lambda>out3.
     put_at out3 width_idx (window_span w (cp_pad_w p) (cp_dilation_w p) ww (cp_stride_w p))))))))))))))))))"

definition conv_shape :: "conv_param \<Rightarrow> inference" where
  "conv_shape p ins outs T =
     bindE (in_valid T ins 0) (\<lambda>s. bindE (conv_compute_shape s p) (\<lambda>cs.
     bindE (copy_seq outs 0 ins 0 T) (\<lambda>T1.
     bindE (of_in tensor_get_layout T1 outs 0) (\<lambda>l. bindE (cvt_shape cs l) (\<lambda>result.
     out_shape_only outs 0 result T1)))))"

definition conv_eltwise_shape :: "conv_param \<Rightarrow> inference" where
  "conv_eltwise_shape p ins outs T =
     bindE (in_valid T ins 0) (\<lambda>s. bindE (conv_compute_shape s p) (\<lambda>cs. out_shape_only outs 0 cs T))"

definition deconv_shape :: "conv_param \<Rightarrow> inference" where
  "deconv_shape p ins outs T =
     bindE (in_valid T ins 0) (\<lambda>s. bindE (deconv_compute_shape s p) (\<lambda>ds. out_shape_only outs 0 ds T))"

definition deformable_conv_shape :: "conv_param \<Rightarrow> inference" where
  "deformable_conv_shape p ins outs T =
     bindE (in_valid T ins 0) (\<lambda>out. bindE (in_valid T ins 1) (\<lambda>offset_shape.
     bindE (in_valid T ins 0) (\<lambda>s. bindE (check (\<not> length (dat s) < 4)) (\<lambda>_.
     bindE (of_in tensor_num_index T ins 0) (\<lambda>num_idx. bindE (of_in tensor_channel_index T ins 0) (\<lambda>channel_idx.
     bindE (of_in tensor_height_index T ins 0) (\<lambda>height_idx. bindE (of_in tensor_width_index T ins 0) (\<lambda>width_idx.
     bindE (of_in tensor_num T ins 0) (\<lambda>n. bindE (put_at out num_idx n) (\<lambda>out1.
     bindE (tensor_num (cp_weight p)) (\<lambda>k. bindE (put_at out1 channel_idx k) (\<lambda>out2.
     bindE (of_in tensor_height T ins 0) (\<lambda>h. bindE (tensor_height (cp_weight p)) (\<lambda>wh.
     bindE (window_count h (2 * cp_pad_h p) (cp_dilation_h p) wh (cp_stride_h p)) (\<lambda>oh.
     bindE (put_at out2 height_idx oh) (\<lambda>out3.
     bindE (of_in tensor_width T ins 0) (\<lambda>w. bindE (tensor_width (cp_weight p)) (\<lambda>ww.
     bindE (window_count w (2 * cp_pad_w p) (cp_dilation_w p) ww (cp_stride_w p)) (\<lambda>ow.
     bindE (put_at out3 width_idx ow) (\<lambda>out4. out_shape outs 0 out4 T))))))))))))))))))))"

section \<open>Windows as a sequence\<close>

record im2seq_param =
  is_window_h :: int
  is_window_w :: int
  is_pad_up :: int
  is_pad_down :: int
  is_pad_left :: int
  is_pad_right :: int
  is_stride_h :: int
  is_stride_w :: int
  is_dilation_h :: int
  is_dilation_w :: int

text \<open>The offset vector starts with the \<open>n + 1\<close> zeros it was constructed with.\<close>

definition im2sequence_offsets :: "int \<Rightarrow> int \<Rightarrow> int list" where
  "im2sequence_offsets n step = replicate (nat (n + 1)) 0 @ map (\<lambda>i. i * step) [0..n]"

definition im2sequence_shape :: "im2seq_param \<Rightarrow> inference" where
  "im2sequence_shape p ins outs T =
     bindE (in_valid T ins 0) (\<lambda>out. bindE (in_valid T ins 0) (\<lambda>s.
     bindE (check (\<not> length (dat s) < 4)) (\<lambda>_.
     bindE (of_in tensor_num_index T ins 0) (\<lambda>num_idx. bindE (of_in tensor_channel_index T ins 0) (\<lambda>channel_idx.
     bindE (of_in tensor_height_index T ins 0) (\<lambda>height_idx. bindE (of_in tensor_width_index T ins 0) (\<lambda>width_idx.
     bindE (of_in tensor_height T ins 0) (\<lambda>h.
     bindE (window_count h (is_pad_up p + is_pad_down p) (is_dilation_h p) (is_window_h p) (is_stride_h p)) (\<lambda>oh.
     bindE (of_in tensor_width T ins 0) (\<lambda>w.
     bindE (window_count w (is_pad_left p + is_pad_right p) (is_dilation_w p) (is_window_w p) (is_stride_w p)) (\<lambda>ow.
     bindE (of_in tensor_num T ins 0) (\<lambda>n. bindE (put_at out num_idx (n * oh * ow)) (\<lambda>out1.
     bindE (of_in tensor_channel T ins 0) (\<lambda>c. bindE (put_at out1 channel_idx (c * is_window_h p * is_window_w p)) (\<lambda>out2.
     bindE (put_at out2 height_idx 1) (\<lambda>out3. bindE (put_at out3 width_idx 1) (\<lambda>out4.
     bindE (out_shape outs 0 out4 T) (\<lambda>(_, T1).
     bindE (of_in tensor_num T1 ins 0) (\<lambda>n1.
     bindE (if n1 + 1 < 0 then Inl OutOfRange else out_seq outs 0 [im2sequence_offsets n1 (oh * ow)] T1) (\<lambda>T2.
     Inr (SaberSuccess, T2)))))))))))))))))))))"

section \<open>Other changes of the image\<close>

text \<open>\<open>unpool.h\<close>.\<close>

definition unpool_shape :: "int \<times> int \<Rightarrow> int \<times> int \<Rightarrow> int \<times> int \<Rightarrow> inference" where
  "unpool_shape window pad stride ins outs T =
     bindE (in_valid T ins 0) (\<lambda>out.
     bindE (of_in tensor_height_index T ins 0) (\<lambda>h_id. bindE (of_in tensor_width_index T ins 0) (\<lambda>w_id.
     bindE (of_in tensor_height T ins 0) (\<lambda>h.
     bindE (put_at out h_id ((h - 1) * fst stride + fst window - 2 * fst pad)) (\<lambda>out1.
     bindE (of_in tensor_width T ins 0) (\<lambda>w.
     bindE (put_at out1 w_id ((w - 1) * snd stride + snd window - 2 * snd pad)) (\<lambda>out2.
     success (out_shape outs 0 out2 T))))))))"

definition crop_shape :: "int list \<Rightarrow> inference" where
  "crop_shape target ins outs T =
     bindE (of_in tensor_num_index T ins 0) (\<lambda>n_id. bindE (of_in tensor_channel_index T ins 0) (\<lambda>c_id.
     bindE (of_in tensor_height_index T ins 0) (\<lambda>h_id. bindE (of_in tensor_width_index T ins 0) (\<lambda>w_id.
     if length ins = 1 then
       bindE (in_valid T ins 0) (\<lambda>out. bindE (of_in tensor_num T ins 0) (\<lambda>n. bindE (put_at out n_id n) (\<lambda>out1.
       bindE (at target 1) (\<lambda>c. bindE (put_at out1 c_id c) (\<lambda>out2.
       bindE (at target 2) (\<lambda>h. bindE (put_at out2 h_id h) (\<lambda>out3.
       bindE (at target 3) (\<lambda>w. bindE (put_at out3 w_id w) (\<lambda>out4. out_shape outs 0 out4 T)))))))))
     else
       bindE (in_valid T ins 1) (\<lambda>out. bindE (of_in tensor_num T ins 0) (\<lambda>n. bindE (put_at out n_id n) (\<lambda>out1.
       bindE (of_in tensor_channel T ins 0) (\<lambda>c. bindE (put_at out1 c_id c) (\<lambda>out2.
       bindE (of_in tensor_height T ins 1) (\<lambda>h. bindE (put_at out2 h_id h) (\<lambda>out3.
       bindE (of_in tensor_width T ins 1) (\<lambda>w. bindE (put_at out3 w_id w) (\<lambda>out4. out_shape outs 0 out4 T))))))))))))) "

text \<open>\<open>output_shape[id] += pad[0] + pad[1]\<close>.\<close>

definition widen :: "int list \<Rightarrow> int \<Rightarrow> shape \<Rightarrow> shape outcome" where
  "widen pad i s =
     bindE (at pad 0) (\<lambda>a. bindE (at pad 1) (\<lambda>b. bindE (at (dat s) i) (\<lambda>d. put_at s i (d + (a + b)))))"

definition pad_shape :: "int list \<Rightarrow> int list \<Rightarrow> int list \<Rightarrow> inference" where
  "pad_shape pad_c pad_h pad_w ins outs T =
     bindE (check (2 = length pad_c)) (\<lambda>_. bindE (check (2 = length pad_h)) (\<lambda>_. bindE (check (2 = length pad_w)) (\<lambda>_.
     bindE (in_valid T ins 0) (\<lambda>out.
     bindE (of_in tensor_channel_index T ins 0) (\<lambda>c_id. bindE (of_in tensor_height_index T ins 0) (\<lambda>h_id.
     bindE (of_in tensor_width_index T ins 0) (\<lambda>w_id.
     bindE (widen pad_c c_id out) (\<lambda>out1. bindE (widen pad_h h_id out1) (\<lambda>out2. bindE (widen pad_w w_id out2) (\<lambda>out3.
     success (out_shape outs 0 out3 T)))))))))))"

definition pad2d_shape :: "int list \<Rightarrow> int list \<Rightarrow> inference" where
  "pad2d_shape pad_h pad_w ins outs T =
     bindE (of_in tensor_height T ins 0) (\<lambda>h. bindE (at pad_h 0) (\<lambda>h0. bindE (at pad_h 1) (\<lambda>h1.
     bindE (of_in tensor_width T ins 0) (\<lambda>w. bindE (at pad_w 0) (\<lambda>w0. bindE (at pad_w 1) (\<lambda>w1.
     bindE (of_in tensor_num T ins 0) (\<lambda>n. bindE (of_in tensor_channel T ins 0) (\<lambda>c.
     bindE (nchw [n, c, h + h0 + h1, w + w0 + w1]) (\<lambda>s. out_shape outs 0 s T)))))))))"

definition pixel_shuffle_shape :: "int \<Rightarrow> int \<Rightarrow> bool \<Rightarrow> inference" where
  "pixel_shuffle_shape rh rw channel_first ins outs T =
     bindE (in_valid T ins 0) (\<lambda>s. bindE (shape_copy s) (\<lambda>out.
     bindE (channel s) (\<lambda>c.
     bindE (cmod c (rw * rh)) (\<lambda>r. bindE (check (r = 0)) (\<lambda>_.
     bindE (cdiv c (rw * rh)) (\<lambda>oc.
     bindE (height s) (\<lambda>h. bindE (width s) (\<lambda>w.
     let oh = h * rh; ow = w * rw
     in bindE (put_at out 1 (if channel_first then oc else oh)) (\<lambda>out1.
        bindE (put_at out1 2 (if channel_first then oh else ow)) (\<lambda>out2.
        bindE (put_at out2 3 (if channel_first then ow else oc)) (\<lambda>out3.
        out_shape outs 0 out3 T)))))))))))"

definition transpose_shape :: inference where
  "transpose_shape ins outs T =
     bindE (in_valid T ins 0) (\<lambda>out.
     bindE (of_in tensor_num T ins 0) (\<lambda>n. bindE (set_num out n) (\<lambda>out1.
     bindE (of_in tensor_channel T ins 0) (\<lambda>c. bindE (set_channel out1 c) (\<lambda>out2.
     bindE (of_in tensor_width T ins 0) (\<lambda>w. bindE (set_height out2 w) (\<lambda>out3.
     bindE (of_in tensor_height T ins 0) (\<lambda>h. bindE (set_width out3 h) (\<lambda>out4.
     out_shape outs 0 out4 T)))))))))"

section \<open>Regions of interest\<close>

definition roi_align_shape :: "int \<Rightarrow> int \<Rightarrow> inference" where
  "roi_align_shape pooled_h pooled_w ins outs T =
     bindE (in_valid T ins 0) (\<lambda>out. bindE (check (length ins = 2)) (\<lambda>_.
     bindE (of_in tensor_num_index T ins 0) (\<lambda>n_id. bindE (of_in tensor_height_index T ins 0) (\<lambda>h_id.
     bindE (of_in tensor_width_index T ins 0) (\<lambda>w_id.
     bindE (of_in tensor_num T ins 1) (\<lambda>n. bindE (put_at out n_id n) (\<lambda>out1.
     bindE (put_at out1 h_id pooled_h) (\<lambda>out2. bindE (put_at out2 w_id pooled_w) (\<lambda>out3.
     out_shape outs 0 out3 T)))))))))"

definition roi_pooling_shape :: "int \<Rightarrow> int \<Rightarrow> inference" where
  "roi_pooling_shape pooled_h pooled_w ins outs T =
     bindE (check (length ins = 2)) (\<lambda>_. bindE (in_valid T ins 0) (\<lambda>out.
     bindE (of_in tensor_num_index T ins 0) (\<lambda>n_id. bindE (of_in tensor_height_index T ins 0) (\<lambda>h_id.
     bindE (of_in tensor_width_index T ins 0) (\<lambda>w_id.
     bindE (of_in tensor_num T ins 1) (\<lambda>n. bindE (put_at out n_id n) (\<lambda>out1.
     bindE (put_at out1 h_id pooled_h) (\<lambda>out2. bindE (put_at out2 w_id pooled_w) (\<lambda>out3.
     success (out_shape outs 0 out3 T))))))))))"

definition sroi_align_shape :: "int \<Rightarrow> int \<Rightarrow> inference" where
  "sroi_align_shape pooled_h pooled_w ins outs T =
     bindE (in_valid T ins 0) (\<lambda>out. bindE (check (length ins = 2)) (\<lambda>_.
     bindE (of_in tensor_num_index T ins 0) (\<lambda>n_id. bindE (of_in tensor_channel_index T ins 0) (\<lambda>c_id.
     bindE (of_in tensor_height_index T ins 0) (\<lambda>h_id. bindE (of_in tensor_width_index T ins 0) (\<lambda>w_id.
     bindE (of_in tensor_num T ins 1) (\<lambda>n. bindE (put_at out n_id n) (\<lambda>out1.
     bindE (of_in tensor_channel T ins 0) (\<lambda>c. bindE (put_at out1 c_id c) (\<lambda>out2.
     bindE (put_at out2 h_id pooled_h) (\<lambda>out3. bindE (put_at out3 w_id pooled_w) (\<lambda>out4.
     out_shape_only outs 0 out4 T))))))))))))"

definition ps_roi_pooling_shape :: "int \<Rightarrow> int \<Rightarrow> bool \<Rightarrow> inference" where
  "ps_roi_pooling_shape pooled_w pooled_h global ins outs T =
     bindE (check (length ins \<ge> 2)) (\<lambda>_. bindE (in_valid T ins 0) (\<lambda>s.
     bindE (of_in tensor_num T ins 1) (\<lambda>rois. bindE (shape_copy s) (\<lambda>out.
     let sz = pooled_w * pooled_h
     in bindE (channel s) (\<lambda>c. bindE (cmod c sz) (\<lambda>r. bindE (check (r = 0)) (\<lambda>_.
        bindE (cdiv c sz) (\<lambda>new_c.
        bindE (set_width out (if global then 1 else pooled_w)) (\<lambda>out1.
        bindE (set_height out1 (if global then 1 else pooled_h)) (\<lambda>out2.
        bindE (set_channel out2 new_c) (\<lambda>out3. bindE (set_num out3 rois) (\<lambda>out4.
        out_shape outs 0 out4 T))))))))))))"

end
