(* ===== verification/Float_Div.thy ===== *)
theory Float_Div
  imports Complex_Main "HOL-Library.Log_Nat"
begin

text \<open>
  Division of integers in single precision, as the pooling operators use it:
  \<open>ceilf(static_cast<float>(a) / b)\<close>. A value of type \<open>float\<close> is the rational number it
  stands for; \<open>round_float\<close> rounds to 24 significant bits, to the even neighbour in the middle.
  The exponents of quotients of 32-bit integers are far from the limits of the format, so that
  overflow and subnormal numbers do not arise. For operands below \<open>2\<^sup>2\<^sup>4\<close> the results are those of
  exact division.
\<close>

section \<open>Rounding\<close>

text \<open>The exponent \<open>e\<close> with \<open>2\<^sup>2\<^sup>3 * 2\<^sup>e \<le> \<bar>x\<bar> < 2\<^sup>2\<^sup>4 * 2\<^sup>e\<close>.\<close>

definition float_exponent :: "rat \<Rightarrow> int" where
  "float_exponent x =
     (let (p, q) = quotient_of \<bar>x\<bar>;
          e = int (floorlog 2 (nat p)) - int (floorlog 2 (nat q)) - 24
      in if \<bar>x\<bar> \<ge> 2 powi (e + 24) then e + 1 else e)"

definition round_even :: "rat \<Rightarrow> int" where
  "round_even y =
     (let f = \<lfloor>y\<rfloor>; d = y - of_int f
      in if d < 1 / 2 then f else if d > 1 / 2 then f + 1 else if even f then f else f + 1)"

definition round_float :: "rat \<Rightarrow> rat" where
  "round_float x =
     (if x = 0 then 0
      else of_int (round_even (x / 2 powi (float_exponent x))) * 2 powi (float_exponent x))"

definition float_quot :: "int \<Rightarrow> int \<Rightarrow> rat" where
  "float_quot a b = round_float (round_float (of_int a) / round_float (of_int b))"

section \<open>Exactness for small operands\<close>

lemma floorlog_int:
  assumes "0 < (p::int)"
  shows "2 powi (int (floorlog 2 (nat p)) - 1) \<le> (of_int p :: rat)" "(of_int p :: rat) < 2 powi (int (floorlog 2 (nat p)))"
proof -
  define n where "n = floorlog 2 (nat p)"
  have b: "2 ^ (n - 1) \<le> nat p" "nat p < 2 ^ n"
    using floorlog_bounds [of "nat p" 2] assms by (auto simp: n_def)
  have "0 < n" using b(2) assms by (cases n) auto
  then have i: "int n - 1 = int (n - 1)" by simp
  have "(of_nat (2 ^ (n - 1)) :: rat) \<le> of_nat (nat p)" using b(1) by (simp only: of_nat_le_iff)
  then show "2 powi (int (floorlog 2 (nat p)) - 1) \<le> (of_int p :: rat)"
    using assms unfolding n_def [symmetric] i by (simp add: power_int_of_nat)
  have "(of_nat (nat p) :: rat) < of_nat (2 ^ n)" using b(2) by (simp only: of_nat_less_iff)
  then show "(of_int p :: rat) < 2 powi (int (floorlog 2 (nat p)))"
    using assms unfolding n_def [symmetric] by (simp add: power_int_of_nat)
qed

lemma float_exponent_bounds:
  assumes "x \<noteq> 0"
  shows "2 ^ 23 * 2 powi (float_exponent x) \<le> \<bar>x\<bar>" "\<bar>x\<bar> < 2 ^ 24 * 2 powi (float_exponent x)"
proof -
  obtain p q where pq: "quotient_of \<bar>x\<bar> = (p, q)" by fastforce
  have q: "0 < q" using quotient_of_denom_pos [OF pq] .
  have x: "\<bar>x\<bar> = of_int p / of_int q" using quotient_of_div [OF pq] .
  have p: "0 < p"
  proof -
    have "0 < (of_int p / of_int q :: rat)" using assms x by simp
    then show ?thesis using q by (simp add: zero_less_divide_iff)
  qed
  define n where "n = int (floorlog 2 (nat p))"
  define k where "k = int (floorlog 2 (nat q))"
  have P: "2 powi (n - 1) \<le> (of_int p :: rat)" "(of_int p :: rat) < 2 powi n"
    using floorlog_int [OF p] by (simp_all add: n_def)
  have Q: "2 powi (k - 1) \<le> (of_int q :: rat)" "(of_int q :: rat) < 2 powi k"
    using floorlog_int [OF q] by (simp_all add: k_def)
  have lo: "2 powi (n - k - 1) \<le> \<bar>x\<bar>"
  proof -
    have "2 powi (n - k - 1) * (of_int q :: rat) \<le> 2 powi (n - k - 1) * 2 powi k"
      using Q(2) by (intro mult_left_mono) auto
    also have "\<dots> = 2 powi (n - 1)" by (simp add: power_int_add [symmetric])
    also have "\<dots> \<le> of_int p" by (rule P(1))
    finally show ?thesis using q unfolding x by (simp add: pos_le_divide_eq)
  qed
  have hi: "\<bar>x\<bar> < 2 powi (n - k + 1)"
  proof -
    have "(of_int p :: rat) < 2 powi n" by (rule P(2))
    also have "\<dots> = 2 powi (n - k + 1) * 2 powi (k - 1)" by (simp add: power_int_add [symmetric])
    also have "\<dots> \<le> 2 powi (n - k + 1) * of_int q" using Q(1) by (intro mult_left_mono) auto
    finally show ?thesis using q unfolding x by (simp add: pos_divide_less_eq)
  qed
  define e where "e = n - k - 24"
  have E: "float_exponent x = (if \<bar>x\<bar> \<ge> 2 powi (e + 24) then e + 1 else e)"
    by (simp add: float_exponent_def pq e_def n_def k_def)
  have pw: "2 ^ 23 * 2 powi a = (2 powi (a + 23) :: rat)" "2 ^ 24 * 2 powi a = (2 powi (a + 24) :: rat)" for a
    by (simp_all add: power_int_add)
  have ee: "n - k - 1 = e + 23" "n - k + 1 = e + 25" by (simp_all add: e_def)
  show "2 ^ 23 * 2 powi (float_exponent x) \<le> \<bar>x\<bar>" "\<bar>x\<bar> < 2 ^ 24 * 2 powi (float_exponent x)"
    using lo hi unfolding E pw ee by (auto simp: add.assoc)
qed

lemma round_even_error: "\<bar>of_int (round_even y) - y\<bar> \<le> 1 / 2"
proof -
  have "of_int \<lfloor>y\<rfloor> \<le> y" "y < of_int \<lfloor>y\<rfloor> + 1" by linarith+
  then show ?thesis by (auto simp: round_even_def Let_def abs_le_iff)
qed

lemma round_even_int: "round_even (of_int n) = n"
  by (simp add: round_even_def)

lemma round_float_error: "\<bar>round_float x - x\<bar> \<le> \<bar>x\<bar> / 2 ^ 24"
proof (cases "x = 0")
  case True
  then show ?thesis by (simp add: round_float_def)
next
  case False
  let ?e = "2 powi (float_exponent x) :: rat"
  have pos: "0 < ?e" by simp
  have "round_float x - x = (of_int (round_even (x / ?e)) - x / ?e) * ?e"
    using False pos by (simp add: round_float_def left_diff_distrib)
  then have "\<bar>round_float x - x\<bar> = \<bar>of_int (round_even (x / ?e)) - x / ?e\<bar> * ?e"
    using pos by (simp add: abs_mult)
  also have "\<dots> \<le> 1 / 2 * ?e" using round_even_error pos by (intro mult_right_mono) auto
  also have "\<dots> \<le> \<bar>x\<bar> / 2 ^ 24" using float_exponent_bounds(1) [OF False] by simp
  finally show ?thesis .
qed

lemma round_float_int:
  assumes "\<bar>n\<bar> < 2 ^ 24"
  shows "round_float (of_int n) = of_int n"
proof (cases "n = 0")
  case True
  then show ?thesis by (simp add: round_float_def)
next
  case False
  let ?x = "of_int n :: rat"
  have x: "?x \<noteq> 0" using False by simp
  have "2 ^ 23 * 2 powi (float_exponent ?x) \<le> \<bar>?x\<bar>" by (rule float_exponent_bounds(1) [OF x])
  also have "\<bar>?x\<bar> < 2 ^ 24" using assms by (metis of_int_abs of_int_less_iff of_int_numeral of_int_power)
  finally have lt: "2 powi (float_exponent ?x) < (2 :: rat)" by simp
  have "float_exponent ?x \<le> 0"
  proof (rule ccontr)
    assume "\<not> ?thesis"
    then have "(2 :: rat) powi 1 \<le> 2 powi (float_exponent ?x)" by (intro power_int_increasing) auto
    with lt show False by simp
  qed
  then obtain k where k: "float_exponent ?x = - int k" by (metis neg_le_0_iff_le nonneg_int_cases minus_minus neg_0_le_iff_le)
  have "?x / 2 powi (- int k) = of_int (n * 2 ^ k)" by (simp add: power_int_minus power_int_of_nat divide_inverse)
  moreover have "(of_int (n * 2 ^ k) :: rat) * 2 powi (- int k) = ?x"
    by (simp add: power_int_minus power_int_of_nat)
  ultimately show ?thesis using x by (simp only: round_float_def k round_even_int if_False)
qed

text \<open>The rounded quotient lies between the same integers as the exact one.\<close>

lemma float_quot_near:
  assumes "\<bar>a\<bar> < 2 ^ 24" "0 < b" "b < 2 ^ 24"
  shows "float_quot a b = round_float (of_int a / of_int b)"
    "\<bar>float_quot a b - of_int a / of_int b\<bar> < 1 / of_int b"
proof -
  show q: "float_quot a b = round_float (of_int a / of_int b)"
    using assms by (simp add: float_quot_def round_float_int)
  have "\<bar>of_int a / of_int b\<bar> / 2 ^ 24 < (1 / of_int b :: rat)"
  proof -
    have "\<bar>of_int a :: rat\<bar> < 2 ^ 24" using assms(1) by (metis of_int_abs of_int_less_iff of_int_numeral of_int_power)
    then show ?thesis using assms(2) by (simp add: abs_divide field_simps)
  qed
  with round_float_error [of "of_int a / of_int b"] show "\<bar>float_quot a b - of_int a / of_int b\<bar> < 1 / of_int b"
    unfolding q by linarith
qed

lemma float_quot_floor:
  assumes "\<bar>a\<bar> < 2 ^ 24" "0 < b" "b < 2 ^ 24"
  shows "\<lfloor>float_quot a b\<rfloor> = a div b" "\<lceil>float_quot a b\<rceil> = - ((- a) div b)"
proof -
  let ?x = "of_int a / of_int b :: rat"
  note near = float_quot_near [OF assms]
  have b: "0 < (of_int b :: rat)" using assms(2) by simp
  have x: "?x = of_int (a div b) + of_int (a mod b) / of_int b"
  proof -
    have "(of_int a :: rat) = of_int (a div b) * of_int b + of_int (a mod b)"
      by (metis div_mult_mod_eq of_int_add of_int_mult)
    then show ?thesis using b by (simp add: field_simps)
  qed
  have "\<lfloor>float_quot a b\<rfloor> = a div b \<and> \<lceil>float_quot a b\<rceil> = - ((- a) div b)"
  proof (cases "a mod b = 0")
    case True
    then obtain k where k: "a = b * k" by auto
    have "\<bar>k\<bar> < 2 ^ 24"
    proof -
      have "\<bar>k\<bar> \<le> \<bar>b * k\<bar>" using assms(2) by (simp add: abs_mult mult_le_cancel_right1)
      then show ?thesis using assms(1) k by simp
    qed
    then have "float_quot a b = of_int k" using near(1) k b by (simp add: round_float_int)
    moreover have "(- a) div b = - k" "a div b = k" using assms(2) k by (simp_all flip: mult_minus_right)
    ultimately show ?thesis by simp
  next
    case False
    have m: "1 \<le> a mod b" "a mod b \<le> b - 1" using False assms(2) pos_mod_sign [of b a] pos_mod_bound [of b a] by linarith+
    have "1 / of_int b \<le> (of_int (a mod b) / of_int b :: rat)" "of_int (a mod b) / of_int b \<le> (1 - 1 / of_int b :: rat)"
    proof -
      have "(1 :: rat) \<le> of_int (a mod b)" using m(1) by simp
      then show "1 / of_int b \<le> (of_int (a mod b) / of_int b :: rat)" using b by (simp add: divide_right_mono)
      have "(of_int (a mod b) :: rat) \<le> of_int b - 1" using m(2) by (metis of_int_1 of_int_diff of_int_le_iff)
      then have "(of_int (a mod b) / of_int b :: rat) \<le> (of_int b - 1) / of_int b" using b by (intro divide_right_mono) auto
      then show "of_int (a mod b) / of_int b \<le> (1 - 1 / of_int b :: rat)" using b by (simp add: diff_divide_distrib)
    qed
    then have r: "of_int (a div b) < float_quot a b" "float_quot a b < of_int (a div b) + 1"
      using near(2) x by linarith+
    have f: "\<lfloor>float_quot a b\<rfloor> = a div b" using r by (simp add: floor_eq_iff)
    have c: "\<lceil>float_quot a b\<rceil> = a div b + 1" using r by (simp add: ceiling_eq_iff)
    have "(- a) div b = - (a div b) - 1" using False assms(2) by (simp add: zdiv_zminus1_eq_if)
    then show ?thesis using f c by simp
  qed
  then show "\<lfloor>float_quot a b\<rfloor> = a div b" "\<lceil>float_quot a b\<rceil> = - ((- a) div b)" by auto
qed

end
