(* ===== verification/Pool_Shapes.thy ===== *)
theory Pool_Shapes
  imports Window_Shapes Float_Div
begin

text \<open>
  The output shapes of the pooling operators (\<open>pool_compute_shape\<close> of
  \<open>saber/funcs/funcs_utils.h\<close>, \<open>pooling.h\<close>, \<open>pooling_with_index.h\<close>,
  \<open>conv_pooling.h\<close>) and of \<open>resize.h\<close>, which compute in single precision. Global pooling
  writes the window and the stride it used back into the parameter.
\<close>

section \<open>Pooling\<close>

record pool_param =
  pp_window_h :: int
  pp_window_w :: int
  pp_pad_h :: int
  pp_pad_w :: int
  pp_stride_h :: int
  pp_stride_w :: int
  pp_global :: bool
  pp_floor :: bool

definition pooling_padded :: "pool_param \<Rightarrow> bool" where
  "pooling_padded p \<longleftrightarrow> pp_pad_h p \<noteq> 0 \<or> pp_pad_w p \<noteq> 0"

text \<open>The conversion of a \<open>float\<close> to \<open>int\<close> drops the fraction.\<close>

definition float_to_int :: "rat \<Rightarrow> int" where
  "float_to_int x = (if 0 \<le> x then \<lfloor>x\<rfloor> else \<lceil>x\<rceil>)"

text \<open>\<open>static_cast<int>(static_cast<float>(d + 2 * pad - w) / stride) + 1\<close>, with \<open>ceilf\<close> or
  without it. A zero stride gives an infinite quotient, which has no value of type \<open>int\<close>.\<close>

definition pool_count :: "bool \<Rightarrow> int \<Rightarrow> int \<Rightarrow> int \<Rightarrow> int \<Rightarrow> int outcome" where
  "pool_count down d pad window stride =
     (if stride = 0 then Inl DivByZero
      else let q = float_quot (d + 2 * pad - window) stride
           in Inr ((if down then float_to_int q else \<lceil>q\<rceil>) + 1))"

text \<open>The last window must start inside the image or its leading padding.\<close>

definition pool_clip :: "pool_param \<Rightarrow> int \<Rightarrow> int \<Rightarrow> int \<Rightarrow> int \<Rightarrow> int" where
  "pool_clip p d pad stride n =
     (if pooling_padded p \<and> (n - 1) * stride \<ge> d + pad then n - 1 else n)"

definition pool_globally :: "int \<Rightarrow> int \<Rightarrow> pool_param \<Rightarrow> pool_param" where
  "pool_globally h w p =
     p\<lparr>pp_stride_h := h, pp_stride_w := w, pp_window_h := h, pp_window_w := w\<rparr>"

text \<open>The numbers of windows \<open>pool_compute_shape\<close> and \<open>Pooling\<close> compute; \<open>fixup\<close> is what
  \<open>Pooling\<close> does with a number that is not positive.\<close>

definition pool_extent :: "(int \<Rightarrow> int) \<Rightarrow> pool_param \<Rightarrow> int \<Rightarrow> int \<Rightarrow> (int \<times> int \<times> pool_param) outcome" where
  "pool_extent fixup p h w =
     bindE (if pp_global p then Inr (1, 1, pool_globally h w p)
            else bindE (pool_count (pp_floor p) h (pp_pad_h p) (pp_window_h p) (pp_stride_h p)) (\<lambda>oh.
                 bindE (pool_count (pp_floor p) w (pp_pad_w p) (pp_window_w p) (pp_stride_w p)) (\<lambda>ow.
                 Inr (if pp_floor p then (fixup oh, fixup ow, p) else (oh, ow, p))))) (\<lambda>(oh, ow, p').
     Inr (pool_clip p h (pp_pad_h p) (pp_stride_h p) oh,
          pool_clip p w (pp_pad_w p) (pp_stride_w p) ow, p'))"

definition pool_compute_shape :: "shape \<Rightarrow> pool_param \<Rightarrow> (shape \<times> pool_param) outcome" where
  "pool_compute_shape in0 p =
     bindE (shape_copy in0) (\<lambda>inp. bindE (shape_copy inp) (\<lambda>out.
     bindE (height inp) (\<lambda>h. bindE (width inp) (\<lambda>w.
     bindE (pool_extent (\<lambda>n. n) p h w) (\<lambda>(oh, ow, p').
     bindE (height_index out) (\<lambda>height_idx. bindE (width_index out) (\<lambda>width_idx.
     bindE (put_at out height_idx oh) (\<lambda>out1.
     bindE (put_at out1 width_idx ow) (\<lambda>out2. Inr (out2, p'))))))))))"

text \<open>An operator that may change its parameter returns it beside the status and the tensors.\<close>

definition pooling_shape :: "pool_param \<Rightarrow> nat list \<Rightarrow> nat list \<Rightarrow> tensors
    \<Rightarrow> (pool_param \<times> saber_status \<times> tensors) outcome" where
  "pooling_shape p ins outs T =
     bindE (in_valid T ins 0) (\<lambda>out.
     bindE (of_in tensor_height T ins 0) (\<lambda>h. bindE (of_in tensor_width T ins 0) (\<lambda>w.
     bindE (pool_extent (\<lambda>n. if n \<le> 0 then 1 else n) p h w) (\<lambda>(oh, ow, p').
     bindE (set_height out oh) (\<lambda>out1. bindE (set_width out1 ow) (\<lambda>out2.
     bindE (out_shape_only outs 0 out2 T) (\<lambda>r. Inr (p', r))))))))"

definition pooling_with_index_shape :: "pool_param \<Rightarrow> inference" where
  "pooling_with_index_shape p ins outs T =
     bindE (in_valid T ins 0) (\<lambda>out.
     bindE (of_in tensor_height T ins 0) (\<lambda>h. bindE (of_in tensor_width T ins 0) (\<lambda>w.
     bindE (pool_count False h (pp_pad_h p) (if pp_global p then h else pp_window_h p) (pp_stride_h p)) (\<lambda>oh.
     bindE (pool_count False w (pp_pad_w p) (if pp_global p then w else pp_window_w p) (pp_stride_w p)) (\<lambda>ow.
     bindE (of_in tensor_height_index T ins 0) (\<lambda>height_idx. bindE (of_in tensor_width_index T ins 0) (\<lambda>width_idx.
     bindE (put_at out height_idx (pool_clip p h (pp_pad_h p) (pp_stride_h p) oh)) (\<lambda>out1.
     bindE (put_at out1 width_idx (pool_clip p w (pp_pad_w p) (pp_stride_w p) ow)) (\<lambda>out2.
     bindE (out_shape outs 1 out2 T) (\<lambda>(_, T1). out_shape outs 0 out2 T1))))))))))"

definition conv_pooling_shape :: "conv_param \<Rightarrow> pool_param \<Rightarrow> nat list \<Rightarrow> nat list \<Rightarrow> tensors
    \<Rightarrow> (pool_param \<times> saber_status \<times> tensors) outcome" where
  "conv_pooling_shape c p ins outs T =
     bindE (in_valid T ins 0) (\<lambda>s. bindE (conv_compute_shape s c) (\<lambda>cs.
     bindE (pool_compute_shape cs p) (\<lambda>(ps, p'). bindE (out_shape outs 0 ps T) (\<lambda>r. Inr (p', r)))))"

section \<open>Resizing\<close>

record resize_param =
  rz_out_width :: int
  rz_out_height :: int
  rz_width_scale :: rat
  rz_height_scale :: rat

text \<open>\<open>floor(dim * scale)\<close>, the product in single precision.\<close>

definition scaled_dim :: "int \<Rightarrow> rat \<Rightarrow> int" where
  "scaled_dim d scale = \<lfloor>round_float (round_float (of_int d) * scale)\<rfloor>"

definition resize_dim :: "int \<Rightarrow> rat \<Rightarrow> int outcome \<Rightarrow> int outcome" where
  "resize_dim target scale d =
     (if target \<noteq> -1 then Inr target else bindE d (\<lambda>n. Inr (scaled_dim n scale)))"

definition put_if :: "int \<Rightarrow> int outcome \<Rightarrow> shape \<Rightarrow> shape outcome" where
  "put_if i v s = (if i > -1 then bindE v (put_at s i) else Inr s)"

definition resize_shape :: "resize_param \<Rightarrow> inference" where
  "resize_shape p ins outs T =
     bindE (in_valid T ins 0) (\<lambda>out.
     bindE (of_in tensor_num_index T ins 0) (\<lambda>n_id. bindE (of_in tensor_channel_index T ins 0) (\<lambda>c_id.
     bindE (of_in tensor_height_index T ins 0) (\<lambda>h_id. bindE (of_in tensor_width_index T ins 0) (\<lambda>w_id.
     bindE (check (h_id \<ge> 0)) (\<lambda>_. bindE (check (w_id \<ge> 0)) (\<lambda>_.
     bindE (check ((rz_out_width p \<noteq> -1 \<and> rz_out_height p \<noteq> -1)
       \<or> (rz_width_scale p > 0 \<and> rz_height_scale p > 0))) (\<lambda>_.
     bindE (put_if n_id (of_in tensor_num T ins 0) out) (\<lambda>out1.
     bindE (put_if c_id (of_in tensor_channel T ins 0) out1) (\<lambda>out2.
     bindE (put_if h_id (resize_dim (rz_out_height p) (rz_height_scale p) (of_in tensor_height T ins 0)) out2) (\<lambda>out3.
     bindE (put_if w_id (resize_dim (rz_out_width p) (rz_width_scale p) (of_in tensor_width T ins 0)) out3) (\<lambda>out4.
     out_shape outs 0 out4 T))))))))))))"

end
