(* ===== verification/Window_Facts.thy ===== *)
theory Window_Facts
  imports Pool_Shapes Shape_Facts
begin

text \<open>
  The counts of windows: convolution and deconvolution with the same window undo each other, and
  the pooling windows cover the image.
\<close>

section \<open>Convolution\<close>

lemma conv_image:
  assumes "named4 l" "layout_inner_c l = -1"
    and "tensor_num (cp_weight p) = Inr k" "tensor_height (cp_weight p) = Inr kh" "tensor_width (cp_weight p) = Inr kw"
    and "window_count h (2 * cp_pad_h p) (cp_dilation_h p) kh (cp_stride_h p) = Inr oh"
    and "window_count w (2 * cp_pad_w p) (cp_dilation_w p) kw (cp_stride_w p) = Inr ow"
  shows "conv_compute_shape (mk_shape (image_of l n c h w) l) p = Inr (mk_shape (image_of l n k oh ow) l)"
proof -
  have "wf_shape (mk_shape (image_of l n c h w) l)" by (rule image_wf [OF assms(1)])
  then show ?thesis
    using assms by (cases l) (simp_all add: conv_compute_shape_def dim_defs at_def put_at_def put_def eval_nat_numeral)
qed

lemma deconv_image:
  assumes "named4 l" "layout_inner_c l = -1"
    and "tensor_num (cp_weight p) = Inr k" "tensor_height (cp_weight p) = Inr kh" "tensor_width (cp_weight p) = Inr kw"
  shows "deconv_compute_shape (mk_shape (image_of l n c h w) l) p
     = Inr (mk_shape (image_of l n (k * cp_group p) (window_span h (cp_pad_h p) (cp_dilation_h p) kh (cp_stride_h p))
         (window_span w (cp_pad_w p) (cp_dilation_w p) kw (cp_stride_w p))) l)"
proof -
  have "wf_shape (mk_shape (image_of l n c h w) l)" by (rule image_wf [OF assms(1)])
  then show ?thesis
    using assms by (cases l) (simp_all add: deconv_compute_shape_def dim_defs at_def put_at_def put_def eval_nat_numeral)
qed

text \<open>The windows tile the padded dimension without a rest.\<close>

definition tiles :: "int \<Rightarrow> int \<Rightarrow> int \<Rightarrow> int \<Rightarrow> int \<Rightarrow> bool" where
  "tiles d pad dilation window step \<longleftrightarrow>
     0 < step \<and> dilation * (window - 1) + 1 \<le> d + 2 * pad \<and> step dvd d + 2 * pad - (dilation * (window - 1) + 1)"

lemma window_roundtrip:
  assumes "tiles d pad dilation window step"
  shows "\<exists>m. window_count d (2 * pad) dilation window step = Inr m \<and> 0 < m \<and> window_span m pad dilation window step = d"
proof -
  define r where "r = d + 2 * pad - (dilation * (window - 1) + 1)"
  have r: "0 < step" "0 \<le> r" "step dvd r" using assms by (simp_all add: tiles_def r_def)
  then have "window_count d (2 * pad) dilation window step = Inr (r div step + 1)"
    unfolding window_count_def Let_def r_def [symmetric] by (simp add: cdiv_pos)
  moreover have "r div step * step = r" using r(3) by simp
  then have "window_span (r div step + 1) pad dilation window step = d"
    by (simp add: window_span_def r_def)
  moreover have "0 < r div step + 1" using r by (simp add: pos_imp_zdiv_nonneg_iff add_nonneg_pos)
  ultimately show ?thesis by blast
qed

section \<open>Pooling\<close>

text \<open>A dimension, padding, window and stride the statement on pooling is about, and what the number
  of windows promises: the last window starts inside the padded dimension and the windows reach its end.\<close>

definition pool_fits :: "int \<Rightarrow> int \<Rightarrow> int \<Rightarrow> int \<Rightarrow> bool" where
  "pool_fits d pad window step \<longleftrightarrow>
     0 < d \<and> 0 < step \<and> step \<le> window \<and> 0 \<le> pad \<and> pad < window \<and> window \<le> d + 2 * pad \<and> d + 2 * pad < 2 ^ 24"

definition pool_covers :: "int \<Rightarrow> int \<Rightarrow> int \<Rightarrow> int \<Rightarrow> int \<Rightarrow> bool" where
  "pool_covers d pad window step n \<longleftrightarrow>
     0 < n \<and> (n - 1) * step < d + pad \<and> d + pad \<le> (n - 1) * step + window"

lemma pool_count_ceil:
  assumes "pool_fits d pad window step"
  obtains n where "pool_count False d pad window step = Inr n" "0 < n"
    "(n - 2) * step < d + 2 * pad - window" "d + 2 * pad - window \<le> (n - 1) * step"
proof -
  define a where "a = d + 2 * pad - window"
  have a: "0 \<le> a" "\<bar>a\<bar> < 2 ^ 24" "0 < step" "step < 2 ^ 24" using assms by (auto simp: pool_fits_def a_def)
  define m where "m = \<lceil>float_quot a step\<rceil>"
  have m: "m = - ((- a) div step)" using float_quot_floor(2) [OF a(2-4)] by (simp add: m_def)
  have "(- a) div step * step \<le> - a"
    using minus_mod_eq_div_mult [of "- a" step] pos_mod_sign [OF a(3), of "- a"] by linarith
  then have lo: "a \<le> m * step" by (simp add: m)
  have "- a < (- a) div step * step + step"
    using minus_mod_eq_div_mult [of "- a" step] pos_mod_bound [OF a(3), of "- a"] by linarith
  then have hi: "(m - 1) * step < a" by (simp add: m algebra_simps)
  have "0 \<le> m * step" using a(1) lo by linarith
  then have "0 \<le> m" using a(3) by (simp add: zero_le_mult_iff)
  then show ?thesis
    using that [of "m + 1"] lo hi a(3) by (simp add: pool_count_def Let_def a_def [symmetric] m_def [symmetric])
qed

lemma pool_clip_covers:
  assumes f: "pool_fits d pad window step" and p: "pad = 0 \<or> pooling_padded p"
    and n: "0 < n" "(n - 2) * step < d + 2 * pad - window" "d + 2 * pad - window \<le> (n - 1) * step"
  shows "pool_covers d pad window step (pool_clip p d pad step n)"
proof (cases "pooling_padded p \<and> (n - 1) * step \<ge> d + pad")
  case True
  have s: "0 < step" "step \<le> window" "0 \<le> pad" "pad < window" "0 < d" using f by (auto simp: pool_fits_def)
  have eq: "(n - 1) * step = (n - 2) * step + step" by (simp add: algebra_simps)
  have "0 < (n - 1) * step" using True s by linarith
  then have "0 < n - 1" using s(1) by (simp add: zero_less_mult_iff)
  moreover have "(n - 2) * step < d + pad" using n(2) s by linarith
  moreover have "d + pad \<le> (n - 2) * step + window" using True eq s(2) by linarith
  ultimately show ?thesis using True by (simp add: pool_clip_def pool_covers_def)
next
  case False
  have s: "0 < step" "step \<le> window" "0 \<le> pad" "pad < window" "0 < d" using f by (auto simp: pool_fits_def)
  have eq: "(n - 1) * step = (n - 2) * step + step" by (simp add: algebra_simps)
  have "(n - 1) * step < d + pad"
  proof (cases "pooling_padded p")
    case True
    then show ?thesis using False by simp
  next
    case False
    then have "pad = 0" using p by simp
    then show ?thesis using n(2) eq s by linarith
  qed
  moreover have "d + pad \<le> (n - 1) * step + window" using n(3) s(3) by linarith
  ultimately show ?thesis using False n(1) by (simp add: pool_clip_def pool_covers_def)
qed

lemma pool_image:
  assumes "named4 l" "layout_inner_c l = -1" "pool_extent (\<lambda>n. n) p h w = Inr (oh, ow, p')"
  shows "pool_compute_shape (mk_shape (image_of l n c h w) l) p = Inr (mk_shape (image_of l n c oh ow) l, p')"
proof -
  have "wf_shape (mk_shape (image_of l n c h w) l)" by (rule image_wf [OF assms(1)])
  then show ?thesis
    using assms by (cases l) (simp_all add: pool_compute_shape_def dim_defs at_def put_at_def put_def eval_nat_numeral)
qed

text \<open>Without padding a stride above the window gives a last window outside the image.\<close>

lemma pool_window_outside:
  "pool_extent (\<lambda>n. n) \<lparr>pp_window_h = 1, pp_window_w = 1, pp_pad_h = 0, pp_pad_w = 0, pp_stride_h = 2, pp_stride_w = 2,
     pp_global = False, pp_floor = False\<rparr> 4 4
   = Inr (3, 3, \<lparr>pp_window_h = 1, pp_window_w = 1, pp_pad_h = 0, pp_pad_w = 0, pp_stride_h = 2, pp_stride_w = 2,
     pp_global = False, pp_floor = False\<rparr>) \<and> (3 - 1) * 2 \<ge> (4 :: int)"
  by (simp add: pool_extent_def pool_count_def float_quot_floor Let_def pool_clip_def pooling_padded_def)

section \<open>Layouts with inner channels\<close>

text \<open>The number of filters is written to the outer channels, so that the output has too many channels.\<close>

lemma conv_inner_channel:
  assumes "named4 l" "layout_inner_c l \<noteq> -1" "inner_ok l c"
    and "tensor_num (cp_weight p) = Inr k" "tensor_height (cp_weight p) = Inr kh" "tensor_width (cp_weight p) = Inr kw"
    and "window_count h (2 * cp_pad_h p) (cp_dilation_h p) kh (cp_stride_h p) = Inr oh"
    and "window_count w (2 * cp_pad_w p) (cp_dilation_w p) kw (cp_stride_w p) = Inr ow"
  shows "bindE (conv_compute_shape (mk_shape (image_of l n c h w) l) p) channel = Inr (k * layout_inner_c l)"
proof -
  have "wf_shape (mk_shape (image_of l n c h w) l)" by (rule image_wf [OF assms(1)])
  then show ?thesis
    using assms by (cases l) (simp_all add: conv_compute_shape_def dim_defs Anakin_Prelude.at_def put_at_def put_def eval_nat_numeral)
qed

end
