(* ===== verification/Window_Properties.thy ===== *)
theory Window_Properties
  imports Window_Facts Tensor_Shapes
begin

text \<open>
  What the operators with windows promise: deconvolution undoes the shape of a convolution, and
  pooling covers the image.
\<close>

section \<open>Convolution and deconvolution\<close>

text \<open>A convolution with a stride of two, padded by one.\<close>

definition demo_conv :: "int list \<Rightarrow> conv_param" where
  "demo_conv weights = \<lparr>cp_weight = plain_tensor weights, cp_group = 1, cp_pad_h = 1, cp_pad_w = 1, cp_stride_h = 2,
     cp_stride_w = 2, cp_dilation_h = 1, cp_dilation_w = 1\<rparr>"

text \<open>C27: deconvolution undoes the shape of a convolution. For an image in a layout without inner
  channels, when the windows tile the padded image without a rest in both directions and the
  deconvolution has the same window, stride, padding and dilation and as many filters and groups as
  the image has channels, the shape of the deconvolution of the convolved shape is the shape of the
  image.\<close>

theorem conv_deconv_roundtrip:
  assumes "wf_shape s" "positive s" "lay s = LObj l" "named4 l" "layout_inner_c l = -1"
    and "height s = Inr h" "width s = Inr w" "channel s = Inr c"
    and weights: "tensor_num (cp_weight p) = Inr k" "tensor_height (cp_weight p) = Inr kh" "tensor_width (cp_weight p) = Inr kw"
    and weights': "tensor_num (cp_weight q) = Inr k'" "tensor_height (cp_weight q) = Inr kh" "tensor_width (cp_weight q) = Inr kw"
    and "k' * cp_group q = c"
    and same: "cp_pad_h q = cp_pad_h p" "cp_pad_w q = cp_pad_w p" "cp_stride_h q = cp_stride_h p" "cp_stride_w q = cp_stride_w p"
      "cp_dilation_h q = cp_dilation_h p" "cp_dilation_w q = cp_dilation_w p"
    and "tiles h (cp_pad_h p) (cp_dilation_h p) kh (cp_stride_h p)" "tiles w (cp_pad_w p) (cp_dilation_w p) kw (cp_stride_w p)"
  shows "bindE (conv_compute_shape s p) (\<lambda>t. deconv_compute_shape t q) = Inr s"
proof -
  obtain n c0 h0 w0 where s: "s = mk_shape (image_of l n c0 h0 w0) l" "inner_ok l c0"
    using wf_image [OF assms(1-4)] by metis
  have eq: "c0 = c" "h0 = h" "w0 = w" using image_reads [OF assms(4) s(2)] assms(6-8) by (auto simp: s(1))
  obtain oh where oh: "window_count h (2 * cp_pad_h p) (cp_dilation_h p) kh (cp_stride_h p) = Inr oh"
    "window_span oh (cp_pad_h p) (cp_dilation_h p) kh (cp_stride_h p) = h"
    using window_roundtrip [OF assms(22)] by blast
  obtain ow where ow: "window_count w (2 * cp_pad_w p) (cp_dilation_w p) kw (cp_stride_w p) = Inr ow"
    "window_span ow (cp_pad_w p) (cp_dilation_w p) kw (cp_stride_w p) = w"
    using window_roundtrip [OF assms(23)] by blast
  have "conv_compute_shape s p = Inr (mk_shape (image_of l n k oh ow) l)"
    using conv_image [OF assms(4,5) weights oh(1) ow(1)] by (simp add: s(1) eq)
  moreover have "deconv_compute_shape (mk_shape (image_of l n k oh ow) l) q = Inr s"
    using deconv_image [OF assms(4,5) weights'] same oh(2) ow(2) assms(15) by (simp add: s(1) eq)
  ultimately show ?thesis by simp
qed

theorem conv_deconv_roundtrip_witness:
  "bindE (conv_compute_shape (mk_shape [1, 3, 5, 5] Layout_NCHW) (demo_conv [8, 3, 3, 3])) (\<lambda>t. deconv_compute_shape t (demo_conv [3, 8, 3, 3]))
   = Inr (mk_shape [1, 3, 5, 5] Layout_NCHW)"
  by (rule conv_deconv_roundtrip [where l = Layout_NCHW and h = 5 and w = 5 and c = 3 and k = 8 and k' = 3 and kh = 3 and kw = 3])
    (simp_all add: demo_conv_def dim_defs tensor_num_def tensor_height_def tensor_width_def Anakin_Prelude.at_def
       wf_shape_def Shape_Facts.positive_def tiles_def)

section \<open>Pooling\<close>

definition demo_pool :: "int \<Rightarrow> pool_param" where
  "demo_pool pad = \<lparr>pp_window_h = 3, pp_window_w = 3, pp_pad_h = pad, pp_pad_w = pad, pp_stride_h = 2, pp_stride_w = 2,
     pp_global = False, pp_floor = False\<rparr>"

text \<open>C26: pooling with \<open>ceilf\<close>, computed in single precision, covers the image. When both
  directions are below \<open>2\<^sup>2\<^sup>4\<close> with a stride of at most the window and a padding smaller than the
  window, the shape of the output has in each direction a positive number of windows, the last of
  them starts inside the image and its leading padding, and together they reach the end of it.\<close>

theorem pool_windows_cover:
  assumes "wf_shape s" "positive s" "lay s = LObj l" "named4 l" "layout_inner_c l = -1"
    and "height s = Inr h" "width s = Inr w" "\<not> pp_global p" "\<not> pp_floor p"
    and "pool_fits h (pp_pad_h p) (pp_window_h p) (pp_stride_h p)" "pool_fits w (pp_pad_w p) (pp_window_w p) (pp_stride_w p)"
  shows "\<exists>t oh ow. pool_compute_shape s p = Inr (t, p) \<and> height t = Inr oh \<and> width t = Inr ow \<and> lay t = lay s \<and>
     pool_covers h (pp_pad_h p) (pp_window_h p) (pp_stride_h p) oh \<and>
     pool_covers w (pp_pad_w p) (pp_window_w p) (pp_stride_w p) ow"
proof -
  obtain n c h0 w0 where s: "s = mk_shape (image_of l n c h0 w0) l" "inner_ok l c"
    using wf_image [OF assms(1-4)] by metis
  have eq: "h0 = h" "w0 = w" using image_reads [OF assms(4) s(2)] assms(6,7) by (auto simp: s(1))
  obtain oh where oh: "pool_count False h (pp_pad_h p) (pp_window_h p) (pp_stride_h p) = Inr oh" "0 < oh"
    "(oh - 2) * pp_stride_h p < h + 2 * pp_pad_h p - pp_window_h p" "h + 2 * pp_pad_h p - pp_window_h p \<le> (oh - 1) * pp_stride_h p"
    using pool_count_ceil [OF assms(10)] .
  obtain ow where ow: "pool_count False w (pp_pad_w p) (pp_window_w p) (pp_stride_w p) = Inr ow" "0 < ow"
    "(ow - 2) * pp_stride_w p < w + 2 * pp_pad_w p - pp_window_w p" "w + 2 * pp_pad_w p - pp_window_w p \<le> (ow - 1) * pp_stride_w p"
    using pool_count_ceil [OF assms(11)] .
  let ?oh = "pool_clip p h (pp_pad_h p) (pp_stride_h p) oh" and ?ow = "pool_clip p w (pp_pad_w p) (pp_stride_w p) ow"
  have "pool_extent (\<lambda>n. n) p h0 w0 = Inr (?oh, ?ow, p)"
    using assms(8,9) oh(1) ow(1) by (simp add: pool_extent_def eq)
  from pool_image [OF assms(4,5) this] have run: "pool_compute_shape s p = Inr (mk_shape (image_of l n c ?oh ?ow) l, p)"
    by (simp add: s(1))
  have "pool_covers h (pp_pad_h p) (pp_window_h p) (pp_stride_h p) ?oh" "pool_covers w (pp_pad_w p) (pp_window_w p) (pp_stride_w p) ?ow"
    by (rule pool_clip_covers [OF assms(10) _ oh(2-4)] pool_clip_covers [OF assms(11) _ ow(2-4)]; simp add: pooling_padded_def)+
  moreover have "height (mk_shape (image_of l n c ?oh ?ow) l) = Inr ?oh" "width (mk_shape (image_of l n c ?oh ?ow) l) = Inr ?ow"
    by (rule image_reads [OF assms(4) s(2)])+
  ultimately show ?thesis using run assms(3)
    by (intro exI [of _ "mk_shape (image_of l n c ?oh ?ow) l"] exI [of _ ?oh] exI [of _ ?ow]) simp
qed

theorem pool_windows_cover_witness:
  "\<exists>t oh ow. pool_compute_shape (mk_shape [1, 3, 7, 6] Layout_NCHW) (demo_pool 1) = Inr (t, demo_pool 1) \<and>
     height t = Inr oh \<and> width t = Inr ow \<and> lay t = LObj Layout_NCHW \<and> pool_covers 7 1 3 2 oh \<and> pool_covers 6 1 3 2 ow"
  using pool_windows_cover [of "mk_shape [1, 3, 7, 6] Layout_NCHW" Layout_NCHW 7 6 "demo_pool 1"]
  by (simp add: demo_pool_def dim_defs Anakin_Prelude.at_def wf_shape_def Shape_Facts.positive_def pool_fits_def)

end
