(* ===== verification/Detection_Shapes.thy ===== *)
theory Detection_Shapes
  imports Function_Shapes
begin

text \<open>
  The output shapes of the detection operators: boxes and their scores, anchors and proposals.
\<close>

definition anchor_generator_shape :: "nat \<Rightarrow> nat \<Rightarrow> inference" where
  "anchor_generator_shape n_sizes n_ratios ins outs T =
     bindE (check (length ins = 1)) (\<lambda>_. bindE (check (length outs = 2)) (\<lambda>_.
     bindE (of_in tensor_height T ins 0) (\<lambda>h. bindE (of_in tensor_width T ins 0) (\<lambda>w.
     bindE (nchw [h, w, narrow32 (int (n_sizes * n_ratios)), 4]) (\<lambda>s.
     bindE (out_shape outs 0 s T) (\<lambda>(_, T1). success (out_shape outs 1 s T1)))))))"

definition detection_output_shape :: "bool \<Rightarrow> int \<Rightarrow> inference" where
  "detection_output_shape share_location keep_top_k ins outs T =
     bindE (if share_location
            then bindE (of_in tensor_num T ins 0) (\<lambda>n. nchw [1, 1, keep_top_k * n, 7])
            else bindE (seq_of T ins 0) (\<lambda>q. bindE (check (length q > 0)) (\<lambda>_. bindE (at q 0) (\<lambda>off.
                 bindE (check (length off > 0)) (\<lambda>_. nchw [1, 1, keep_top_k * (int (length off) - 1), 7]))))) (\<lambda>out.
     out_shape outs 0 out T)"

text \<open>\<open>dfmb_psroi_align.h\<close>; \<open>group\<close>, \<open>pooled\<close> and \<open>part\<close> are heights and widths.\<close>

definition dfmb_psroi_align_shape :: "int \<Rightarrow> int \<times> int \<Rightarrow> int \<times> int \<Rightarrow> int \<times> int \<Rightarrow> inference" where
  "dfmb_psroi_align_shape output_dim grp pooled part ins outs T =
     bindE (of_in tensor_channel T ins 0) (\<lambda>c0. bindE (check (c0 = output_dim * fst grp * snd grp)) (\<lambda>_.
     bindE (of_in tensor_channel T ins 1) (\<lambda>c1. bindE (check (c1 = 5)) (\<lambda>_.
     bindE (if length ins \<ge> 3 then
        bindE (of_in tensor_channel T ins 2) (\<lambda>c2. bindE (cmod c2 2) (\<lambda>r. bindE (check (r = 0)) (\<lambda>_.
        bindE (cdiv c2 2) (\<lambda>classes. bindE (cmod output_dim classes) (\<lambda>r'. bindE (check (r' = 0)) (\<lambda>_.
        bindE (of_in tensor_height T ins 2) (\<lambda>h. bindE (check (fst part = h)) (\<lambda>_.
        bindE (of_in tensor_width T ins 2) (\<lambda>w. check (snd part = w))))))))))
      else Inr ()) (\<lambda>_.
     bindE (of_in tensor_num T ins 1) (\<lambda>n. bindE (nchw [n, output_dim, fst pooled, snd pooled]) (\<lambda>out.
     out_shape outs 0 out T)))))))"

definition generate_proposals_shape :: "int \<Rightarrow> inference" where
  "generate_proposals_shape post_nms_top_n ins outs T =
     bindE (of_in tensor_num T ins 2) (\<lambda>n. bindE (nchw [n * post_nms_top_n, 5, 1, 1]) (\<lambda>out.
     bindE (out_seq outs 0 [map (\<lambda>i. i * post_nms_top_n) [0..n]] T) (\<lambda>T1.
     bindE (of_in tensor_num T1 ins 2) (\<lambda>n1. bindE (nchw [n1 * post_nms_top_n, 1, 1, 1]) (\<lambda>out1.
     bindE (out_shape outs 1 out1 T1) (\<lambda>(_, T2). out_shape outs 0 out T2))))))"

definition priorbox_shape :: "int \<Rightarrow> inference" where
  "priorbox_shape prior_num ins outs T =
     bindE (of_in tensor_width T ins 0) (\<lambda>w. bindE (of_in tensor_height T ins 0) (\<lambda>h.
     bindE (shape_of_vector [1, 2, w * h * prior_num * 4] Layout_NHW) (\<lambda>out. out_shape outs 0 out T)))"

definition proposal_scale_shape :: "bool \<Rightarrow> bool \<Rightarrow> bool \<Rightarrow> inference" where
  "proposal_scale_shape size_orien corner_3d corner_2d ins outs T =
     (let c1 = (if size_orien then 3 + 4 else 3)
      in bindE (if corner_3d then bindE (check size_orien) (\<lambda>_. Inr (c1 + 24)) else Inr c1) (\<lambda>c2.
         bindE (if corner_2d then bindE (check corner_3d) (\<lambda>_. Inr (c2 + 16)) else Inr c2) (\<lambda>c3.
         bindE (nchw [1, c3, 1, 1]) (\<lambda>out. out_shape outs 0 out T))))"

definition each_output :: "shape \<Rightarrow> nat list \<Rightarrow> tensors \<Rightarrow> tensors outcome" where
  "each_output s outs T =
     foldE (\<lambda>i T. bindE (out_shape outs i s T) (\<lambda>(_, T'). Inr T')) [0..int (length outs) - 1] T"

definition rcnn_proposal_shape :: "bool \<Rightarrow> int \<Rightarrow> inference" where
  "rcnn_proposal_shape output_score num_class ins outs T =
     bindE (nchw [300, if output_score then 5 + num_class + 1 else 5, 1, 1]) (\<lambda>s.
     bindE (each_output s outs T) (\<lambda>T'. Inr (SaberSuccess, T')))"

definition rpn_proposal_ssd_shape :: "bool \<Rightarrow> inference" where
  "rpn_proposal_ssd_shape output_score ins outs T =
     bindE (nchw [300, if output_score then 6 else 5, 1, 1]) (\<lambda>s.
     bindE (each_output s outs T) (\<lambda>T'. Inr (SaberSuccess, T')))"

definition rois_anchor_feature_shape :: "int \<Rightarrow> nat \<Rightarrow> int \<Rightarrow> inference" where
  "rois_anchor_feature_shape num_anchor_scales n_ratios ft_per_anchor ins outs T =
     bindE (of_in tensor_num T ins 0) (\<lambda>n. bindE (check (n > 0)) (\<lambda>_.
     bindE (tens T ins 0) (\<lambda>t. bindE (count_valid t 1 (tensor_dims t)) (\<lambda>d.
     bindE (check (narrow32 d \<ge> 5)) (\<lambda>_.
     bindE (nchw [n, num_anchor_scales * int n_ratios * ft_per_anchor, 1, 1]) (\<lambda>out. out_shape outs 0 out T))))))"

definition sproposal_shape :: "int \<Rightarrow> inference" where
  "sproposal_shape post_nms_topn ins outs T =
     bindE (nchw [post_nms_topn, 5, 1, 1]) (\<lambda>out. out_shape_only outs 0 out T)"

definition yolo_box_shape :: "nat \<Rightarrow> int \<Rightarrow> inference" where
  "yolo_box_shape n_anchors class_num ins outs T =
     bindE (in_valid T ins 0) (\<lambda>x. bindE (in_valid T ins 1) (\<lambda>img.
     let anchor_num = int (n_anchors div 2)
     in bindE (at (dat x) 1) (\<lambda>x1. bindE (check (x1 = anchor_num * (5 + class_num))) (\<lambda>_.
        bindE (at (dat img) 0) (\<lambda>i0. bindE (at (dat x) 0) (\<lambda>x0. bindE (check (i0 = x0)) (\<lambda>_.
        bindE (at (dat img) 1) (\<lambda>i1. bindE (check (i1 = 2)) (\<lambda>_.
        bindE (check (n_anchors > 0)) (\<lambda>_. bindE (check (n_anchors mod 2 = 0)) (\<lambda>_. bindE (check (class_num > 0)) (\<lambda>_.
        bindE (at (dat x) 2) (\<lambda>x2. bindE (at (dat x) 3) (\<lambda>x3.
        let box_num = x2 * x3 * anchor_num
        in bindE (shape_of_vector [x0, box_num, 4] Layout_NHW) (\<lambda>boxes.
           bindE (out_shape outs 0 boxes T) (\<lambda>(_, T1).
           bindE (shape_of_vector [x0, box_num, class_num] Layout_NHW) (\<lambda>scores.
           success (out_shape outs 1 scores T1))))))))))))))))))"

end
