(* ===== verification/Base_Func.thy ===== *)
theory Base_Func
  imports Complex_Main Function_Shapes
begin

text \<open>
  The class \<open>BaseFunc\<close> of \<open>saber/funcs/base.h\<close>, from which every operator of
  \<open>saber/funcs\<close> derives: it owns the kernels of the operator, picks one of them, and on each
  call prepares it again when the parameter or the shapes of the inputs have changed. The members of
  the derived class (\<open>init_impl\<close>, the two picks), the kernels and the comparison of the parameters
  are the fields of \<open>functor_ops\<close>; a kernel has a state of its own, and its operations may change the
  parameter, the tensors and the memory.
\<close>

section \<open>Combining status codes\<close>

text \<open>\<open>SaberStatus(a | b)\<close>, on the numbers of the enumeration.\<close>

definition all_statuses :: "saber_status list" where
  "all_statuses = [SaberSuccess, SaberNotInitialized, SaberInvalidValue, SaberMemAllocFailed, SaberUnKownError,
     SaberOutOfAuthority, SaberOutOfMem, SaberUnImplError, SaberWrongDevice]"

unbundle bit_operations_syntax

definition status_or :: "saber_status \<Rightarrow> saber_status \<Rightarrow> saber_status" where
  "status_or a b =
     the (find (\<lambda>s. status_value s = (status_value a OR status_value b)) all_statuses)"

section \<open>The class\<close>

datatype impl_enum = VENDER_IMPL | SABER_IMPL

datatype impl_strategy = STATIC | RUNTIME | SPECIFY | UNKNOWN

text \<open>What an operation of a kernel works on: the parameter, the tensors behind the pointers, the memory.\<close>

type_synonym 'p setting = "'p \<times> tensors \<times> memory"
type_synonym ('k, 'p) kernel_op =
  "'k \<Rightarrow> nat list \<Rightarrow> nat list \<Rightarrow> 'p setting \<Rightarrow> (saber_status \<times> 'k \<times> 'p setting) outcome"

record ('k, 'p) functor_ops =
  init_impl :: "impl_enum \<Rightarrow> saber_status \<times> 'k list"
  pick_static :: "'p \<Rightarrow> int"
  pick_specify :: "impl_enum \<Rightarrow> int"
  param_eq :: "'p \<Rightarrow> 'p \<Rightarrow> bool"
  k_init :: "('k, 'p) kernel_op"
  k_create :: "('k, 'p) kernel_op"
  k_dispatch :: "('k, 'p) kernel_op"
  average_ms :: "nat \<Rightarrow> rat"

text \<open>\<open>_best_impl\<close>: not initialised, one of the kernels owned, or a deleted one.\<close>

datatype best_impl = Best_unset | Best_deleted | Best nat

record ('k, 'p) base_func =
  bf_param :: 'p
  bf_best :: best_impl
  bf_last :: "shape list"
  bf_impl :: "'k list"
  bf_strategy :: impl_strategy

definition input_shapes :: "nat list \<Rightarrow> tensors \<Rightarrow> shape list outcome" where
  "input_shapes ins T = mapE (\<lambda>k. valid_shape (T k)) ins"

text \<open>\<open>for (auto imp : _impl)\<close>, with the status of each kernel.\<close>

fun each_kernel :: "nat list \<Rightarrow> nat list \<Rightarrow> ('k, 'p) kernel_op \<Rightarrow> 'k list \<Rightarrow> 'p setting
    \<Rightarrow> (saber_status list \<times> 'k list \<times> 'p setting) outcome" where
  "each_kernel ins outs f [] e = Inr ([], [], e)"
| "each_kernel ins outs f (k # ks) e =
     bindE (f k ins outs e) (\<lambda>(st, k', e1). bindE (each_kernel ins outs f ks e1) (\<lambda>(sts, ks', e2).
     Inr (st # sts, k' # ks', e2)))"

section \<open>Picking a kernel\<close>

text \<open>\<open>_runtime_ts\<close> dispatches of one kernel; a timed kernel is ranked by its average when
  the status is \<open>SaberSuccess\<close> and last otherwise.\<close>

fun timed_runs :: "nat \<Rightarrow> saber_status \<Rightarrow> ('k, 'p) kernel_op \<Rightarrow> ('k, 'p) kernel_op" where
  "timed_runs 0 st f k ins outs e = Inr (st, k, e)"
| "timed_runs (Suc n) st f k ins outs e =
     bindE (f k ins outs e) (\<lambda>(st', k', e'). timed_runs n (status_or st st') f k' ins outs e')"

definition measured :: "(nat \<Rightarrow> rat) \<Rightarrow> saber_status list \<Rightarrow> rat list" where
  "measured ms sts = map (\<lambda>i. if sts ! i = SaberSuccess then ms i else 99999) [0..<length sts]"

definition fastest :: "rat list \<Rightarrow> nat" where
  "fastest costs = snd (fold (\<lambda>i (cost, idx). if cost > costs ! i then (costs ! i, i) else (cost, idx))
     [0..<length costs] (99999, 0))"

definition pick_best_runtime :: "('k, 'p) functor_ops \<Rightarrow> nat list \<Rightarrow> nat list \<Rightarrow> ('k, 'p) base_func \<Rightarrow> 'p setting
    \<Rightarrow> (('k, 'p) base_func \<times> 'p setting) outcome" where
  "pick_best_runtime F ins outs bf e =
     bindE (each_kernel ins outs (k_dispatch F) (bf_impl bf) e) (\<lambda>(_, ks1, e1).
     bindE (each_kernel ins outs (timed_runs 10 SaberUnImplError (k_dispatch F)) ks1 e1) (\<lambda>(sts, ks2, e2).
     let idx = fastest (measured (average_ms F) sts)
     in bindE (Anakin_Prelude.at ks2 (int idx)) (\<lambda>_. Inr (bf\<lparr>bf_impl := ks2, bf_best := Best idx\<rparr>, e2))))"

definition pick_at :: "int \<Rightarrow> ('k, 'p) base_func \<Rightarrow> ('k, 'p) base_func outcome" where
  "pick_at i bf = bindE (Anakin_Prelude.at (bf_impl bf) i) (\<lambda>_. Inr (bf\<lparr>bf_best := Best (nat i)\<rparr>))"

definition pick_best :: "('k, 'p) functor_ops \<Rightarrow> impl_enum \<Rightarrow> nat list \<Rightarrow> nat list \<Rightarrow> ('k, 'p) base_func \<Rightarrow> 'p setting
    \<Rightarrow> (('k, 'p) base_func \<times> 'p setting) outcome" where
  "pick_best F en ins outs bf e =
     (case bf_strategy bf of
        STATIC \<Rightarrow> bindE (pick_at (pick_static F (bf_param bf)) bf) (\<lambda>bf'. Inr (bf', e))
      | RUNTIME \<Rightarrow> pick_best_runtime F ins outs bf e
      | SPECIFY \<Rightarrow> bindE (pick_at (pick_specify F en) bf) (\<lambda>bf'. Inr (bf', e))
      | UNKNOWN \<Rightarrow> Inr (bf, e))"

section \<open>Initialisation\<close>

text \<open>The kernels are created; without one of the strategies the status is \<open>SaberInvalidValue\<close>.\<close>

definition make_impls :: "('k, 'p) functor_ops \<Rightarrow> impl_strategy \<Rightarrow> impl_enum \<Rightarrow> saber_status \<times> 'k list" where
  "make_impls F strategy en =
     (case strategy of
        SPECIFY \<Rightarrow> init_impl F en
      | UNKNOWN \<Rightarrow> (SaberInvalidValue, [])
      | _ \<Rightarrow> (let (st1, ks1) = init_impl F VENDER_IMPL; (st2, ks2) = init_impl F SABER_IMPL
              in (status_or st1 st2, ks1 @ ks2)))"

definition base_init :: "('k, 'p) functor_ops \<Rightarrow> impl_strategy \<Rightarrow> impl_enum \<Rightarrow> nat list \<Rightarrow> nat list
    \<Rightarrow> ('k, 'p) base_func \<Rightarrow> 'p setting \<Rightarrow> (saber_status \<times> ('k, 'p) base_func \<times> 'p setting) outcome" where
  "base_init F strategy en ins outs bf e =
     (let (p, T, m) = e
      in bindE (input_shapes ins T) (\<lambda>last.
         let (st, ks) = make_impls F strategy en;
             bf1 = bf\<lparr>bf_param := p, bf_last := last, bf_strategy := strategy, bf_impl := ks,
                      bf_best := (case bf_best bf of Best_unset \<Rightarrow> Best_unset | _ \<Rightarrow> Best_deleted)\<rparr>
         in if st \<noteq> SaberSuccess then Inr (st, bf1, e)
            else bindE (each_kernel ins outs (k_init F) ks e) (\<lambda>(sts, ks', e1).
                 let st' = foldl status_or st sts; bf2 = bf1\<lparr>bf_impl := ks'\<rparr>
                 in if st' \<noteq> SaberSuccess then Inr (st', bf2, e1)
                    else bindE (pick_best F en ins outs bf2 e1) (\<lambda>(bf3, e2).
                         Inr (SaberSuccess, bf3\<lparr>bf_param := fst e2\<rparr>, e2)))))"

section \<open>Calls\<close>

text \<open>\<open>_best_impl->op(...)\<close>.\<close>

definition on_best :: "('k, 'p) kernel_op \<Rightarrow> nat list \<Rightarrow> nat list \<Rightarrow> ('k, 'p) base_func \<Rightarrow> 'p setting
    \<Rightarrow> (saber_status \<times> ('k, 'p) base_func \<times> 'p setting) outcome" where
  "on_best f ins outs bf e =
     (case bf_best bf of
        Best_unset \<Rightarrow> Inl NullDeref
      | Best_deleted \<Rightarrow> Inl DanglingDeref
      | Best i \<Rightarrow> bindE (Anakin_Prelude.at (bf_impl bf) (int i)) (\<lambda>k. bindE (f k ins outs e) (\<lambda>(st, k', e').
          Inr (st, bf\<lparr>bf_impl := (bf_impl bf)[i := k']\<rparr>, e'))))"

text \<open>\<open>output[i]->reshape(output[i]->valid_shape())\<close>.\<close>

definition reshape_outputs :: "int \<Rightarrow> nat list \<Rightarrow> tensors \<Rightarrow> memory \<Rightarrow> (tensors \<times> memory) outcome" where
  "reshape_outputs dev outs T m =
     foldE (\<lambda>k (T, m). bindE (valid_shape (T k)) (\<lambda>v. bindE (reshape dev m (T k) v None None) (\<lambda>(_, m', t).
       Inr (T(k := t), m')))) outs (T, m)"

definition reset_output_shape :: "int \<Rightarrow> ('k, 'p) functor_ops \<Rightarrow> nat list \<Rightarrow> nat list \<Rightarrow> ('k, 'p) base_func
    \<Rightarrow> 'p setting \<Rightarrow> (saber_status \<times> ('k, 'p) base_func \<times> 'p setting) outcome" where
  "reset_output_shape dev F ins outs bf e =
     (let (p, T, m) = e
      in bindE (reshape_outputs dev outs T m) (\<lambda>(T', m'). on_best (k_create F) ins outs bf (p, T', m')))"

fun shapes_same :: "shape list \<Rightarrow> shape list \<Rightarrow> bool outcome" where
  "shapes_same [] [] = Inr True"
| "shapes_same (s # ss) (t # ts) = bindE (shape_eq s t) (\<lambda>b. if b then shapes_same ss ts else Inr False)"
| "shapes_same _ _ = Inr False"

definition base_call :: "int \<Rightarrow> ('k, 'p) functor_ops \<Rightarrow> nat list \<Rightarrow> nat list \<Rightarrow> ('k, 'p) base_func
    \<Rightarrow> 'p setting \<Rightarrow> (saber_status \<times> ('k, 'p) base_func \<times> 'p setting) outcome" where
  "base_call dev F ins outs bf e =
     (let (p, T, m) = e
      in bindE (input_shapes ins T) (\<lambda>now.
         bindE (if length now = length (bf_last bf) then shapes_same (bf_last bf) now else Inr False) (\<lambda>same.
         if param_eq F (bf_param bf) p \<and> same then on_best (k_dispatch F) ins outs bf e
         else bindE (reset_output_shape dev F ins outs (bf\<lparr>bf_param := p, bf_last := now\<rparr>) e) (\<lambda>(_, bf', e').
              on_best (k_dispatch F) ins outs bf' e'))))"

end
