(* ===== verification/Base_Properties.thy ===== *)
theory Base_Properties
  imports Base_Func Tensor_Shapes
begin

text \<open>
  What \<open>BaseFunc\<close> promises: the status that initialisation reports, and that a call runs a kernel
  prepared for its parameter and shapes.
\<close>

section \<open>Status codes\<close>

text \<open>Two codes combine to the larger one, except that \<open>SaberSuccess\<close>, whose bits are all ones, wins.\<close>

lemma status_or_value:
  "status_or a b = (if a = SaberSuccess \<or> b = SaberSuccess then SaberSuccess
     else if status_value a \<le> status_value b then b else a)"
  by (cases a; cases b; hypsubst; code_simp)

lemma status_or_success: "status_or a b = SaberSuccess \<longleftrightarrow> a = SaberSuccess \<or> b = SaberSuccess"
  unfolding status_or_value by (cases "a = SaberSuccess"; cases "b = SaberSuccess") auto

lemma statuses_success: "foldl status_or SaberSuccess sts = SaberSuccess"
  by (induction sts) (simp_all add: status_or_value)

lemma timed_runs_success:
  "timed_runs n st f k ins outs e = Inr (st', k', e') \<Longrightarrow> st = SaberSuccess \<Longrightarrow> st' = SaberSuccess"
  by (induction n st f k ins outs e rule: timed_runs.induct) (auto simp: status_or_success)

section \<open>An operator for the witnesses\<close>

text \<open>A kernel remembers what it was created for; its \<open>init\<close> fails.\<close>

definition echo_ops :: "((nat \<times> shape list) option, nat) functor_ops" where
  "echo_ops = \<lparr>init_impl = \<lambda>_. (SaberSuccess, [None]), pick_static = \<lambda>_. 0, pick_specify = \<lambda>_. 0, param_eq = (=),
     k_init = \<lambda>k ins outs e. Inr (SaberUnKownError, k, e),
     k_create = \<lambda>k ins outs (p, T, m). Inr (SaberSuccess, Some (p, map (\<lambda>k. t_valid (T k)) ins), (p, T, m)),
     k_dispatch = \<lambda>k ins outs e. Inr (SaberSuccess, k, e), average_ms = \<lambda>_. 1\<rparr>"

definition empty_memory :: memory where
  "empty_memory = \<lparr>ram = \<lparr>blocks = Map.empty, next_block = 0, grants = \<lambda>_. True\<rparr>, bufs = Map.empty, next_buf = 0\<rparr>"

definition demo_func :: "(nat \<times> shape list) option \<Rightarrow> ((nat \<times> shape list) option, nat) base_func" where
  "demo_func k = \<lparr>bf_param = 7, bf_best = Best 0, bf_last = [mk_shape [1, 2, 3, 4] Layout_NCHW], bf_impl = [k],
     bf_strategy = SPECIFY\<rparr>"

lemma plain_wf: "length xs = 4 \<Longrightarrow> wf_shape (t_valid (plain_tensor xs))"
  by (simp add: wf_shape_def)

lemmas echo_simps = echo_ops_def demo_func_def on_best_def Anakin_Prelude.at_def

section \<open>Initialisation\<close>

text \<open>C24: \<open>init\<close> reports what the creation of the kernels reports and nothing else: when one of
  the \<open>init_impl\<close> succeeded, a run that returns reports success, whatever the \<open>init\<close> of the
  kernels returned. The codes are combined with \<open>|\<close>, and the bits of \<open>SaberSuccess\<close> are all
  ones, so no error survives.\<close>

theorem init_hides_kernel_errors:
  assumes "base_init F strategy en ins outs bf e = Inr (st, bf', e')"
  shows "st = fst (make_impls F strategy en)"
  using assms by (auto simp: base_init_def Let_def statuses_success split: prod.splits if_splits)

theorem init_hides_kernel_errors_witness:
  "\<exists>bf' e'. base_init echo_ops SPECIFY SABER_IMPL [0] [] (demo_func None) (7, \<lambda>_. plain_tensor [1, 2, 3, 4], empty_memory)
     = Inr (SaberSuccess, bf', e')"
proof -
  obtain st bf' e' where run: "base_init echo_ops SPECIFY SABER_IMPL [0] [] (demo_func None)
      (7, \<lambda>_. plain_tensor [1, 2, 3, 4], empty_memory) = Inr (st, bf', e')"
    using plain_wf [of "[1, 2, 3, 4]"]
    by (simp add: base_init_def input_shapes_def valid_shape_def echo_simps make_impls_def status_or_value pick_best_def pick_at_def)
  from init_hides_kernel_errors [OF run] have "st = SaberSuccess" by (simp add: make_impls_def echo_simps)
  with run show ?thesis by blast
qed

section \<open>Calls\<close>

text \<open>\<open>prep k p ss\<close> says that kernel \<open>k\<close> is prepared for parameter \<open>p\<close> and input shapes
  \<open>ss\<close>. An operator is ready when its best kernel is prepared for what it has recorded.\<close>

definition ready :: "('k \<Rightarrow> 'p \<Rightarrow> shape list \<Rightarrow> bool) \<Rightarrow> ('k, 'p) base_func \<Rightarrow> bool" where
  "ready prep bf \<longleftrightarrow> (\<exists>i. bf_best bf = Best i \<and> i < length (bf_impl bf) \<and>
     prep (bf_impl bf ! i) (bf_param bf) (bf_last bf))"

lemma shape_copy_same: "shape_copy s = Inr t \<Longrightarrow> wf_shape s \<Longrightarrow> t = s"
  by simp

lemma assign_own: "wf_shape s \<Longrightarrow> shape_assign s s = Inr s"
  by (simp add: wf_shape_assign)

lemma place_region_valid: "place_region smaller t v z = Inr t' \<Longrightarrow> t_valid t' = t_valid t"
  unfolding place_region_def by (cases "t_subbuf t") (auto split: if_splits)

lemma reshape_own_valid:
  assumes "reshape dev m t (t_valid t) None None = Inr (st, m', t')" "wf_shape (t_valid t)"
  shows "t_valid t' = t_valid t"
proof -
  obtain t2 where t2: "place_region (<) (t\<lparr>t_valid := t_valid t\<rparr>) (t_valid t) (t_valid t) = Inr t2" "t' = t2"
    using assms by (auto simp: reshape_def no_shape take_shapes_def dims_def assign_own Let_def)
  then show ?thesis using place_region_valid [OF t2(1)] by simp
qed

lemma reshape_outputs_valid:
  assumes "reshape_outputs dev outs T m = Inr (T', m')" "\<forall>k. wf_shape (t_valid (T k))"
  shows "t_valid (T' k) = t_valid (T k)"
  using assms unfolding reshape_outputs_def
proof (induction outs arbitrary: T m)
  case Nil
  then show ?case by simp
next
  case (Cons x outs)
  let ?f = "\<lambda>k (T, m). bindE (valid_shape (T k)) (\<lambda>v. bindE (reshape dev m (T k) v None None) (\<lambda>(_, m', t).
       Inr (T(k := t), m')))"
  have "bindE (?f x (T, m)) (foldE ?f outs) = Inr (T', m')" using Cons.prems(1) by (simp only: foldE.simps)
  then obtain acc where a: "?f x (T, m) = Inr acc" "foldE ?f outs acc = Inr (T', m')" by (rule bindE_InrE)
  obtain st m1 t where r: "reshape dev m (T x) (t_valid (T x)) None None = Inr (st, m1, t)" and acc: "acc = (T(x := t), m1)"
    using a(1) Cons.prems(2) by (auto simp: valid_shape_def)
  note rest = a(2) [unfolded acc]
  have v: "t_valid t = t_valid (T x)" using reshape_own_valid [OF r] Cons.prems(2) by blast
  have "t_valid (T' k) = t_valid ((T(x := t)) k)"
    by (rule Cons.IH [OF rest]) (use v Cons.prems(2) in simp)
  then show ?case using v by simp
qed

lemma input_shapes_wf: "\<forall>k. wf_shape (t_valid (T k)) \<Longrightarrow> input_shapes ins T = Inr (map (\<lambda>k. t_valid (T k)) ins)"
  unfolding input_shapes_def by (rule mapE_total) (simp add: valid_shape_def)

lemma on_best_ready:
  assumes "ready prep bf" "on_best f ins outs bf e = Inr (st, bf', e')"
  obtains i k k' where "bf_best bf = Best i" "i < length (bf_impl bf)" "k = bf_impl bf ! i" "prep k (bf_param bf) (bf_last bf)"
    "f k ins outs e = Inr (st, k', e')" "bf' = bf\<lparr>bf_impl := (bf_impl bf)[i := k']\<rparr>"
  using assms by (auto simp: ready_def on_best_def)

text \<open>The two ways of a call: with what is recorded, or after recording and preparing anew.\<close>

lemma base_call_cases:
  assumes "base_call dev F ins outs bf (p, T, m) = Inr (st, bf', e')" "\<forall>k. wf_shape (t_valid (T k))"
  obtains (same) "param_eq F (bf_param bf) p" "shapes_same (bf_last bf) (map (\<lambda>k. t_valid (T k)) ins) = Inr True"
      "on_best (k_dispatch F) ins outs bf (p, T, m) = Inr (st, bf', e')"
  | (anew) T1 m1 st1 bf1 e1 where "reshape_outputs dev outs T m = Inr (T1, m1)"
      "on_best (k_create F) ins outs (bf\<lparr>bf_param := p, bf_last := map (\<lambda>k. t_valid (T k)) ins\<rparr>) (p, T1, m1) = Inr (st1, bf1, e1)"
      "on_best (k_dispatch F) ins outs bf1 e1 = Inr (st, bf', e')"
proof -
  let ?now = "map (\<lambda>k. t_valid (T k)) ins"
  let ?go = "bindE (reset_output_shape dev F ins outs (bf\<lparr>bf_param := p, bf_last := ?now\<rparr>) (p, T, m)) (\<lambda>(_, bf', e').
              on_best (k_dispatch F) ins outs bf' e')"
  obtain b where b: "(if length ?now = length (bf_last bf) then shapes_same (bf_last bf) ?now else Inr False) = Inr b"
    and run: "(if param_eq F (bf_param bf) p \<and> b then on_best (k_dispatch F) ins outs bf (p, T, m) else ?go) = Inr (st, bf', e')"
    using assms(1) unfolding base_call_def by (auto simp: input_shapes_wf [OF assms(2)])
  show ?thesis
  proof (cases "param_eq F (bf_param bf) p \<and> b")
    case True
    then show ?thesis using same b run by (simp split: if_splits)
  next
    case False
    from run have "?go = Inr (st, bf', e')" unfolding if_not_P [OF False] .
    then show ?thesis using anew by (auto simp: reset_output_shape_def)
  qed
qed

text \<open>C7: a call runs a kernel that is prepared for what it is called with. In an operator whose best
  kernel is prepared for the recorded parameter and shapes, and when \<open>create\<close> prepares a kernel for the
  parameter and the input shapes it is given, reports success and \<open>dispatch\<close> leaves it prepared, each call
  that returns ends with the dispatch of a kernel prepared for the parameter (the same one or one that
  \<open>operator==\<close> takes for it) and for the input shapes (compared with \<open>operator==\<close> of \<open>Shape\<close>), and
  leaves the operator ready for the next call.\<close>

theorem call_runs_prepared_kernel:
  assumes "ready prep bf" "\<forall>k. wf_shape (t_valid (T k))"
    and create: "\<And>k q T m st k' e'. k_create F k ins outs (q, T, m) = Inr (st, k', e') \<Longrightarrow>
      st = SaberSuccess \<and> prep k' q (map (\<lambda>k. t_valid (T k)) ins)"
    and dispatch: "\<And>k q ss e st k' e'. prep k q ss \<Longrightarrow> k_dispatch F k ins outs e = Inr (st, k', e') \<Longrightarrow> prep k' q ss"
    and run: "base_call dev F ins outs bf (p, T, m) = Inr (st, bf', e')"
  shows "ready prep bf' \<and> (bf_param bf' = p \<or> param_eq F (bf_param bf') p) \<and>
    (bf_last bf' = map (\<lambda>k. t_valid (T k)) ins \<or> shapes_same (bf_last bf') (map (\<lambda>k. t_valid (T k)) ins) = Inr True) \<and>
    (\<exists>k k' e1. prep k (bf_param bf') (bf_last bf') \<and> k_dispatch F k ins outs e1 = Inr (st, k', e'))"
  using run assms(2)
proof (cases rule: base_call_cases)
  case same
  obtain i k k' where r: "bf_best bf = Best i" "i < length (bf_impl bf)" "prep k (bf_param bf) (bf_last bf)"
    "k_dispatch F k ins outs (p, T, m) = Inr (st, k', e')" "bf' = bf\<lparr>bf_impl := (bf_impl bf)[i := k']\<rparr>"
    using on_best_ready [OF assms(1) same(3)] by metis
  have "prep k' (bf_param bf) (bf_last bf)" by (rule dispatch [OF r(3,4)])
  then have "ready prep bf'" using r(1,2,5) by (simp add: ready_def)
  moreover have "bf_param bf' = bf_param bf" "bf_last bf' = bf_last bf" using r(5) by simp_all
  ultimately show ?thesis using same(1,2) r(3,4) by metis
next
  case (anew T1 m1 st1 bf1 e1)
  let ?now = "map (\<lambda>k. t_valid (T k)) ins"
  have shapes: "map (\<lambda>k. t_valid (T1 k)) ins = ?now" using reshape_outputs_valid [OF anew(1) assms(2)] by simp
  obtain i k1 where c: "bf_best bf = Best i" "i < length (bf_impl bf)"
    "k_create F (bf_impl bf ! i) ins outs (p, T1, m1) = Inr (st1, k1, e1)"
    "bf1 = (bf\<lparr>bf_param := p, bf_last := ?now\<rparr>)\<lparr>bf_impl := (bf_impl bf)[i := k1]\<rparr>"
    using assms(1) anew(2) by (auto simp: ready_def on_best_def)
  have "prep k1 p ?now" using create [OF c(3)] shapes by simp
  then have ready1: "ready prep bf1" using c by (simp add: ready_def)
  obtain j k k' where r: "bf_best bf1 = Best j" "j < length (bf_impl bf1)" "prep k (bf_param bf1) (bf_last bf1)"
    "k_dispatch F k ins outs e1 = Inr (st, k', e')" "bf' = bf1\<lparr>bf_impl := (bf_impl bf1)[j := k']\<rparr>"
    using on_best_ready [OF ready1 anew(3)] by metis
  have "prep k' (bf_param bf1) (bf_last bf1)" by (rule dispatch [OF r(3,4)])
  then have "ready prep bf'" using r(1,2,5) by (simp add: ready_def)
  moreover have "bf_param bf' = p" "bf_last bf' = ?now" using r(5) c(4) by simp_all
  moreover have "bf_param bf1 = p" "bf_last bf1 = ?now" using c(4) by simp_all
  ultimately show ?thesis using r(3,4) by metis
qed

theorem call_runs_prepared_kernel_witness:
  "\<exists>bf' e'. base_call 0 echo_ops [0] [] (demo_func (Some (7, [mk_shape [1, 2, 3, 4] Layout_NCHW])))
       (7, \<lambda>_. plain_tensor [1, 2, 3, 5], empty_memory) = Inr (SaberSuccess, bf', e') \<and>
     ready (\<lambda>k p ss. k = Some (p, ss)) bf'"
proof -
  let ?bf = "demo_func (Some (7, [mk_shape [1, 2, 3, 4] Layout_NCHW]))" and ?T = "\<lambda>_ :: nat. plain_tensor [1, 2, 3, 5]"
  let ?prep = "\<lambda>k p ss. k = Some (p, ss)"
  have wf: "\<forall>k :: nat. wf_shape (t_valid (plain_tensor [1, 2, 3, 5]))" by (simp add: wf_shape_def)
  obtain bf' e' where run: "base_call 0 echo_ops [0] [] ?bf (7, ?T, empty_memory) = Inr (SaberSuccess, bf', e')"
    using plain_wf [of "[1, 2, 3, 5]"]
    by (simp add: base_call_def input_shapes_def valid_shape_def echo_simps shape_eq_def get_layout_def
        reset_output_shape_def reshape_outputs_def)
  have r: "ready ?prep ?bf" by (simp add: ready_def demo_func_def)
  have "ready ?prep bf'"
    by (rule conjunct1 [OF call_runs_prepared_kernel [OF r wf _ _ run]]) (simp_all add: echo_ops_def)
  with run show ?thesis by blast
qed

lemma shape_eq_wf: "wf_shape s \<Longrightarrow> wf_shape t \<Longrightarrow> shape_eq s t = Inr (s = t)"
  by (cases s; cases t) (auto dest!: wf_shape_obj simp: shape_eq_def get_layout_def list_all2_eq)

lemma shapes_same_total:
  "\<forall>s \<in> set ss. wf_shape s \<Longrightarrow> \<forall>t \<in> set ts. wf_shape t \<Longrightarrow> \<exists>b. shapes_same ss ts = Inr b"
  by (induction ss ts rule: shapes_same.induct) (auto simp: shape_eq_wf)

text \<open>C25: a failing \<open>create\<close> is forgotten. When a call finds another parameter, it
  dispatches the kernel whatever status \<open>create\<close> returned, reports the status of that dispatch, and records
  the new parameter and shapes; the next call with the same ones dispatches directly and does not
  create again.\<close>

theorem failed_create_forgotten:
  assumes "\<forall>k. wf_shape (t_valid (T k))" "bf_best bf = Best i" "i < length (bf_impl bf)"
    and "\<forall>s \<in> set (bf_last bf). wf_shape s" "\<not> param_eq F (bf_param bf) p" "reshape_outputs dev outs T m = Inr (T1, m1)"
    and "k_create F (bf_impl bf ! i) ins outs (p, T1, m1) = Inr (st1, k1, e1)"
    and "k_dispatch F k1 ins outs e1 = Inr (st, k2, e2)"
    and next_call: "param_eq F p q" "\<forall>k. t_valid (T' k) = t_valid (T k)"
  shows "\<exists>bf'. base_call dev F ins outs bf (p, T, m) = Inr (st, bf', e2) \<and>
    base_call dev F ins outs bf' (q, T', m') = on_best (k_dispatch F) ins outs bf' (q, T', m')"
proof -
  let ?now = "map (\<lambda>k. t_valid (T k)) ins"
  define bf' where "bf' = bf\<lparr>bf_param := p, bf_last := ?now, bf_impl := (bf_impl bf)[i := k2]\<rparr>"
  have "shapes_same ss ss = Inr True" if "\<forall>s \<in> set ss. wf_shape s" for ss
    using that by (induction ss) (simp_all add: shape_eq_wf)
  then have same: "shapes_same ?now ?now = Inr True" using assms(1) by simp
  have "\<exists>b. shapes_same (bf_last bf) ?now = Inr b" by (rule shapes_same_total) (use assms(1,4) in auto)
  then obtain b where "(if length ?now = length (bf_last bf) then shapes_same (bf_last bf) ?now else Inr False) = Inr b"
    by (cases "length ?now = length (bf_last bf)") auto
  then have "base_call dev F ins outs bf (p, T, m) = Inr (st, bf', e2)"
    using assms(2-8) by (simp add: base_call_def input_shapes_wf [OF assms(1)] reset_output_shape_def on_best_def bf'_def
      Anakin_Prelude.at_def)
  moreover have "base_call dev F ins outs bf' (q, T', m') = on_best (k_dispatch F) ins outs bf' (q, T', m')"
    using assms(1) next_call same by (simp add: base_call_def input_shapes_wf bf'_def)
  ultimately show ?thesis by blast
qed

theorem failed_create_forgotten_witness:
  "\<exists>bf'. base_call 0 (echo_ops\<lparr>k_create := \<lambda>k ins outs e. Inr (SaberOutOfMem, k, e)\<rparr>) [0] [] (demo_func None)
       (8, \<lambda>_. plain_tensor [1, 2, 3, 4], empty_memory) = Inr (SaberSuccess, bf', (8, \<lambda>_. plain_tensor [1, 2, 3, 4], empty_memory)) \<and>
     base_call 0 (echo_ops\<lparr>k_create := \<lambda>k ins outs e. Inr (SaberOutOfMem, k, e)\<rparr>) [0] [] bf'
       (8, \<lambda>_. plain_tensor [1, 2, 3, 4], empty_memory)
     = on_best (k_dispatch (echo_ops\<lparr>k_create := \<lambda>k ins outs e. Inr (SaberOutOfMem, k, e)\<rparr>)) [0] [] bf'
       (8, \<lambda>_. plain_tensor [1, 2, 3, 4], empty_memory)"
  by (rule failed_create_forgotten [where i = 0 and ?T1.0 = "\<lambda>_. plain_tensor [1, 2, 3, 4]" and ?m1.0 = empty_memory
        and ?k1.0 = None and ?k2.0 = None and ?st1.0 = SaberOutOfMem and ?e1.0 = "(8, \<lambda>_. plain_tensor [1, 2, 3, 4], empty_memory)"])
    (simp_all add: echo_ops_def demo_func_def wf_shape_def reshape_outputs_def)

end
