(* ===== verification/Move_Kernels.thy ===== *)
theory Move_Kernels
  imports Rearrange_Shapes Window_Shapes
begin

text \<open>
  The kernels of \<open>saber/funcs/impl/x86\<close> that move elements without computing with them: slice,
  concatenation, permutation, transposition, channel shuffle, pixel shuffle, expansion, cropping, padding
  and the reversal of sequences. The elements are of any type. \<open>elements\<close> maps the pointer of a
  tensor to what its \<open>data()\<close> points to; the blocks of different tensors do not overlap. A kernel
  returns the status, the tensors (whose sequence offsets it may set) and the elements.
\<close>

section \<open>Access to elements\<close>

type_synonym 'a elements = "nat \<Rightarrow> 'a list"
type_synonym 'a dispatch = "nat list \<Rightarrow> nat list \<Rightarrow> tensors \<Rightarrow> 'a elements \<Rightarrow> (saber_status \<times> tensors \<times> 'a elements) outcome"

definition el_at :: "'a elements \<Rightarrow> nat \<Rightarrow> int \<Rightarrow> 'a outcome" where
  "el_at D k i = at (D k) i"

definition el_put :: "nat \<Rightarrow> int \<Rightarrow> 'a \<Rightarrow> 'a elements \<Rightarrow> 'a elements outcome" where
  "el_put k i x D = bindE (put (D k) i x) (\<lambda>xs. Inr (D(k := xs)))"

text \<open>\<open>out_data[i] = in_data[j]\<close>.\<close>

definition el_move :: "nat \<Rightarrow> int \<Rightarrow> nat \<Rightarrow> int \<Rightarrow> 'a elements \<Rightarrow> 'a elements outcome" where
  "el_move k i l j D = bindE (el_at D l j) (\<lambda>x. el_put k i x D)"

text \<open>\<open>memcpy(dst + i, src + j, n * sizeof(...))\<close>; the lengths of one call are those of elements. A copy of
  elements onto themselves leaves them as they are; other overlaps are undefined behaviour.\<close>

definition el_copy :: "nat \<Rightarrow> int \<Rightarrow> nat \<Rightarrow> int \<Rightarrow> int \<Rightarrow> 'a elements \<Rightarrow> 'a elements outcome" where
  "el_copy k i l j n D =
     (if n < 0 \<or> i < 0 \<or> j < 0 \<or> i + n > int (length (D k)) \<or> j + n > int (length (D l)) then Inl OutOfRange
      else if k = l \<and> i \<noteq> j \<and> i < j + n \<and> j < i + n then Inl OverlappingCopy
      else Inr (D(k := take (nat i) (D k) @ take (nat n) (drop (nat j) (D l)) @ drop (nat (i + n)) (D k))))"

text \<open>\<open>for (int i = 0; i < n; i++)\<close>.\<close>

definition loop :: "int \<Rightarrow> (int \<Rightarrow> 's \<Rightarrow> 's outcome) \<Rightarrow> 's \<Rightarrow> 's outcome" where
  "loop n f s = foldE f [0..n - 1] s"

text \<open>\<open>copy_from\<close> between tensors that are no regions: the types and the numbers of elements must agree.\<close>

definition copy_whole :: "nat \<Rightarrow> nat \<Rightarrow> tensors \<Rightarrow> 'a elements \<Rightarrow> 'a elements outcome" where
  "copy_whole o' x T D =
     bindE (check (get_dtype (T x) = get_dtype (T o'))) (\<lambda>_.
     bindE (valid_size (T o')) (\<lambda>n. bindE (valid_size (T x)) (\<lambda>n'. bindE (check (n = n')) (\<lambda>_.
     el_copy o' 0 x 0 n D))))"

section \<open>Slice and concatenation\<close>

text \<open>\<open>SaberSlice::create\<close>: the rows in front of the axis and the elements behind it.\<close>

definition slice_create :: "int \<Rightarrow> nat list \<Rightarrow> tensors \<Rightarrow> (int \<times> int) outcome" where
  "slice_create axis ins T =
     bindE (tens T ins 0) (\<lambda>t. bindE (count_valid t 0 axis) (\<lambda>a. bindE (count_valid t (axis + 1) (tensor_dims t)) (\<lambda>b.
     Inr (narrow32 a, narrow32 b))))"

text \<open>The body of the loop over the outputs; \<open>off\<close> is \<open>offset_slice_axis\<close>.\<close>

definition slice_output :: "int \<Rightarrow> int \<Rightarrow> int \<Rightarrow> int \<Rightarrow> nat \<Rightarrow> nat \<Rightarrow> tensors \<Rightarrow> int \<times> 'a elements
    \<Rightarrow> (int \<times> 'a elements) outcome" where
  "slice_output slice_num slice_size axis in_axis x k T acc =
     (case acc of (off, D) \<Rightarrow>
      bindE (valid_shape (T k)) (\<lambda>s. bindE (at (dat s) axis) (\<lambda>out_axis.
      let out_size = out_axis * slice_size
      in bindE (loop (out_size * slice_num) (\<lambda>j D.
           bindE (cdiv j out_size) (\<lambda>num_slice. bindE (cmod j out_size) (\<lambda>slice_index.
           el_move k j x (slice_index + (num_slice * in_axis + off) * slice_size) D))) D) (\<lambda>D'.
         Inr (off + out_axis, D')))))"

text \<open>A single output shares the buffer of the input, in memory \<open>m\<close>.\<close>

definition slice_dispatch :: "memory \<Rightarrow> int \<times> int \<Rightarrow> int \<Rightarrow> 'a dispatch" where
  "slice_dispatch m sizes axis ins outs T D =
     bindE (in_valid T ins 0) (\<lambda>s. bindE (at ins 0) (\<lambda>x.
     if length outs = 1 then
       bindE (at outs 0) (\<lambda>k. bindE (share_from m (T k) (T x)) (\<lambda>(_, t). Inr (SaberSuccess, T(k := t), D(k := D x))))
     else
       bindE (at (dat s) axis) (\<lambda>in_axis.
       bindE (foldE (\<lambda>k. slice_output (fst sizes) (snd sizes) axis in_axis x k T) outs (0, D)) (\<lambda>(_, D').
       Inr (SaberSuccess, T, D')))))"

definition concat_create :: "int \<Rightarrow> nat list \<Rightarrow> tensors \<Rightarrow> (int \<times> int) outcome" where
  "concat_create axis ins T =
     bindE (tens T ins 0) (\<lambda>t. bindE (count_valid t 0 axis) (\<lambda>a. bindE (count_valid t (axis + 1) (tensor_dims t)) (\<lambda>b.
     Inr (narrow32 a, narrow32 b))))"

text \<open>\<open>concat_kernel\<close> and the loop over the rows of one input.\<close>

definition concat_input :: "int \<Rightarrow> int \<Rightarrow> int \<Rightarrow> int \<Rightarrow> nat \<Rightarrow> nat \<Rightarrow> tensors \<Rightarrow> int \<times> 'a elements
    \<Rightarrow> (int \<times> 'a elements) outcome" where
  "concat_input num_concats input_size axis out_axis k x T acc =
     (case acc of (off, D) \<Rightarrow>
      bindE (valid_shape (T x)) (\<lambda>s. bindE (at (dat s) axis) (\<lambda>in_axis.
      bindE (loop num_concats (\<lambda>n D.
         if k = x \<and> (n * out_axis + off) * input_size = n * in_axis * input_size then Inr D
         else el_copy k ((n * out_axis + off) * input_size) x (n * in_axis * input_size) (in_axis * input_size) D) D) (\<lambda>D'.
      Inr (off + in_axis, D')))))"

definition concat_dispatch :: "int \<times> int \<Rightarrow> int \<Rightarrow> 'a dispatch" where
  "concat_dispatch sizes axis ins outs T D =
     bindE (in_valid T outs 0) (\<lambda>os. bindE (at (dat os) axis) (\<lambda>out_axis. bindE (at outs 0) (\<lambda>k.
     bindE (of_in tensor_get_layout T ins 0) (\<lambda>l.
     bindE (if l = Layout_NCHW_C8R then
              bindE (foldE (\<lambda>x _. bindE (tensor_get_layout (T x)) (\<lambda>l'. check (l' = Layout_NCHW_C8R))) (tl ins) ()) (\<lambda>_.
              bindE (of_in tensor_get_layout T outs 0) (\<lambda>l'. check (l' = Layout_NCHW_C8R)))
            else Inr ()) (\<lambda>_.
     if length ins = 1 then
       bindE (at ins 0) (\<lambda>x. bindE (copy_whole k x T D) (\<lambda>D'. Inr (SaberSuccess, T, D')))
     else
       bindE (foldE (\<lambda>x. concat_input (fst sizes) (snd sizes) axis out_axis k x T) ins (0, D)) (\<lambda>(_, D').
       bindE (copy_seq outs 0 ins 0 T) (\<lambda>T'. Inr (SaberSuccess, T', D'))))))))"

section \<open>Permutations\<close>

text \<open>\<open>SaberPermute::init\<close>: the distinct axes must be as many as the dimensions, and the kernel
  remembers whether the order is not the identity. The axes are collected in a member that starts empty: this
  is the first \<open>init\<close> of a kernel. \<open>create\<close> fills tensors that \<open>dispatch\<close> does not use.\<close>

definition permute_init :: "int list \<Rightarrow> nat list \<Rightarrow> tensors \<Rightarrow> bool outcome" where
  "permute_init order ins T =
     bindE (in_valid T ins 0) (\<lambda>s.
     bindE (mapE (at order) [0..dims s - 1]) (\<lambda>os.
     bindE (check (length (dat s) = length (remdups os))) (\<lambda>_.
     Inr (os \<noteq> [0..dims s - 1]))))"

text \<open>The input position of output position \<open>j\<close>: the digits of \<open>j\<close> in the output strides, each times
  the input stride of the axis it comes from.\<close>

definition permute_source :: "int list \<Rightarrow> int list \<Rightarrow> int list \<Rightarrow> int \<Rightarrow> int \<Rightarrow> int outcome" where
  "permute_source order new_steps old_steps num_axes j =
     bindE (loop num_axes (\<lambda>i (in_idx, id).
        bindE (at order i) (\<lambda>ord. bindE (at new_steps i) (\<lambda>new_step. bindE (at old_steps ord) (\<lambda>old_step.
        bindE (cdiv id new_step) (\<lambda>q. bindE (cmod id new_step) (\<lambda>r. Inr (in_idx + q * old_step, r))))))) (0, j)) (\<lambda>(in_idx, _).
     Inr in_idx)"

text \<open>The same for memory that is not contiguous: both positions from the digits in the valid shape.\<close>

definition permute_positions :: "int list \<Rightarrow> int list \<Rightarrow> int list \<Rightarrow> int list \<Rightarrow> int \<Rightarrow> int \<Rightarrow> (int \<times> int) outcome" where
  "permute_positions order new_steps old_steps new_valid num_axes j =
     bindE (foldE (\<lambda>i (in_idx, out_idx, vstride).
        bindE (at order i) (\<lambda>ord. bindE (at new_steps i) (\<lambda>new_step. bindE (at old_steps ord) (\<lambda>old_step.
        bindE (at new_valid i) (\<lambda>v. bindE (cdiv j vstride) (\<lambda>q. bindE (cmod q v) (\<lambda>id.
        Inr (in_idx + id * old_step, out_idx + id * new_step, vstride * v))))))))
       (rev [0..num_axes - 1]) (0, 0, 1)) (\<lambda>(in_idx, out_idx, _). Inr (in_idx, out_idx))"

definition both_continue :: "nat \<Rightarrow> nat \<Rightarrow> tensors \<Rightarrow> bool outcome" where
  "both_continue x k T =
     bindE (is_continue_mem (T x)) (\<lambda>a. if a then is_continue_mem (T k) else Inr False)"

definition permute_dispatch :: "bool \<Rightarrow> int list \<Rightarrow> 'a dispatch" where
  "permute_dispatch need_permute order ins outs T D =
     bindE (at ins 0) (\<lambda>x. bindE (at outs 0) (\<lambda>k.
     if \<not> need_permute then bindE (copy_whole k x T D) (\<lambda>D'. Inr (SaberSuccess, T, D'))
     else
       bindE (valid_size (T k)) (\<lambda>out_size.
       bindE (valid_shape (T x)) (\<lambda>s. bindE (tensor_stride (T k)) (\<lambda>new_steps. bindE (tensor_stride (T x)) (\<lambda>old_steps.
       bindE (valid_shape (T k)) (\<lambda>new_valid.
       bindE (both_continue x k T) (\<lambda>c.
       bindE (if c then
                loop (narrow32 out_size) (\<lambda>j D.
                  bindE (permute_source order (dat new_steps) (dat old_steps) (dims s) j) (\<lambda>i. el_move k j x i D)) D
              else
                loop (narrow32 out_size) (\<lambda>j D.
                  bindE (permute_positions order (dat new_steps) (dat old_steps) (dat new_valid) (dims s) j) (\<lambda>(i, j').
                  el_move k j' x i D)) D) (\<lambda>D'.
       Inr (SaberSuccess, T, D'))))))))))"

definition transpose_dispatch :: "'a dispatch" where
  "transpose_dispatch ins outs T D =
     bindE (at ins 0) (\<lambda>x. bindE (at outs 0) (\<lambda>k.
     bindE (tensor_width (T k)) (\<lambda>w_out. bindE (tensor_height (T k)) (\<lambda>h_out.
     bindE (tensor_channel (T k)) (\<lambda>c_out. bindE (tensor_num (T k)) (\<lambda>n_out.
     bindE (tensor_width (T x)) (\<lambda>w_in. bindE (tensor_height (T x)) (\<lambda>h_in.
     bindE (tensor_channel (T x)) (\<lambda>c_in. bindE (tensor_num (T x)) (\<lambda>n_in.
     bindE (check (c_in = c_out)) (\<lambda>_. bindE (check (n_in = n_out)) (\<lambda>_.
     bindE (check (h_in = w_out)) (\<lambda>_. bindE (check (w_in = h_out)) (\<lambda>_.
     bindE (loop (n_in * c_in) (\<lambda>m. loop h_in (\<lambda>j. loop w_in (\<lambda>i.
        el_move k (m * (h_out * w_out) + (i * w_out + j)) x (m * (h_in * w_in) + (j * w_in + i))))) D) (\<lambda>D'.
     Inr (SaberSuccess, T, D'))))))))))))))))"

text \<open>\<open>shuffle_kernel\<close> on one image, whose elements start at \<open>base\<close>.\<close>

definition shuffle_kernel :: "nat \<Rightarrow> nat \<Rightarrow> int \<Rightarrow> int \<Rightarrow> int \<Rightarrow> int \<Rightarrow> 'a elements \<Rightarrow> 'a elements outcome" where
  "shuffle_kernel k x base group_row group_col len =
     loop group_row (\<lambda>i. loop group_col (\<lambda>j.
       el_copy k (base + (j * group_row + i) * len) x (base + (i * group_col + j) * len) len))"

definition shuffle_channel_dispatch :: "int \<Rightarrow> 'a dispatch" where
  "shuffle_channel_dispatch groups ins outs T D =
     bindE (at ins 0) (\<lambda>x.
     bindE (tensor_num (T x)) (\<lambda>n. bindE (tensor_channel (T x)) (\<lambda>c.
     bindE (tensor_height (T x)) (\<lambda>h. bindE (tensor_width (T x)) (\<lambda>w.
     bindE (cdiv c groups) (\<lambda>group_col. bindE (at outs 0) (\<lambda>k.
     bindE (loop n (\<lambda>i. shuffle_kernel k x (i * (c * h * w)) groups group_col (h * w)) D) (\<lambda>D'.
     Inr (SaberSuccess, T, D')))))))))"

text \<open>\<open>SaberPixelShuffle::create\<close>: the order and the strides of the input and the output seen as
  six-dimensional; the shape \<open>_out_new_sh\<close> that the loop for other memory reads is never set.\<close>

definition pixel_shuffle_create :: "int \<Rightarrow> int \<Rightarrow> bool \<Rightarrow> nat list \<Rightarrow> tensors \<Rightarrow> (int \<times> int list \<times> int list \<times> int list) outcome" where
  "pixel_shuffle_create rh rw channel_first ins T =
     bindE (in_valid T ins 0) (\<lambda>s. bindE (channel s) (\<lambda>c. bindE (cdiv c (rw * rh)) (\<lambda>new_c.
     bindE (num s) (\<lambda>n. bindE (height s) (\<lambda>h. bindE (width s) (\<lambda>w.
     bindE shape_default (\<lambda>e.
     let in_new = (if channel_first then [n, new_c, rh, rw, h, w] else [n, h, w, rh, rw, new_c]);
         out_new = (if channel_first then [n, new_c, h, rh, w, rw] else [n, h, rh, w, rw, new_c])
     in bindE (get_stride (e\<lparr>dat := in_new\<rparr>)) (\<lambda>in_steps. bindE (get_stride (e\<lparr>dat := out_new\<rparr>)) (\<lambda>out_steps.
        Inr (dims s + 2, if channel_first then [0, 1, 4, 2, 5, 3] else [0, 1, 3, 2, 4, 5], dat in_steps, dat out_steps))))))))))"

definition pixel_shuffle_dispatch :: "int \<times> int list \<times> int list \<times> int list \<Rightarrow> 'a dispatch" where
  "pixel_shuffle_dispatch made ins outs T D =
     (case made of (num_axes, order, in_steps, out_steps) \<Rightarrow>
      bindE (at ins 0) (\<lambda>x. bindE (at outs 0) (\<lambda>k.
      bindE (valid_size (T k)) (\<lambda>out_size.
      bindE (both_continue x k T) (\<lambda>c.
      bindE (if c then
               loop (narrow32 out_size) (\<lambda>j D.
                 bindE (permute_source order out_steps in_steps num_axes j) (\<lambda>i. el_move k j x i D)) D
             else
               loop (narrow32 out_size) (\<lambda>j D.
                 bindE (permute_positions order out_steps in_steps [] num_axes j) (\<lambda>(i, j'). el_move k j' x i D)) D) (\<lambda>D'.
      Inr (SaberSuccess, T, D')))))))"

section \<open>Expansion\<close>

text \<open>One dimension: \<open>src\<close> is the input for the last one and the output itself for the others.\<close>

definition expand_axis :: "nat \<Rightarrow> nat \<Rightarrow> int \<Rightarrow> int \<Rightarrow> int \<Rightarrow> 'a elements \<Rightarrow> 'a elements outcome" where
  "expand_axis k src outer_num t inner_num =
     loop outer_num (\<lambda>j. loop t (\<lambda>n. el_copy k ((j * t + n) * inner_num) src (j * inner_num) inner_num))"

definition expand_dispatch :: "int list \<Rightarrow> 'a dispatch" where
  "expand_dispatch expand_times ins outs T D =
     bindE (at ins 0) (\<lambda>x. bindE (at outs 0) (\<lambda>k.
     bindE (valid_shape (T k)) (\<lambda>_. bindE (valid_shape (T x)) (\<lambda>s.
     let d = int (length expand_times); i = d - 1
     in bindE (count_range s 0 i) (\<lambda>outer_num. bindE (at (dat s) i) (\<lambda>inner_num. bindE (at expand_times i) (\<lambda>t.
        bindE (expand_axis k x (narrow32 outer_num) t inner_num D) (\<lambda>D1.
        bindE (foldE (\<lambda>i (inner_num, D).
            bindE (count_range s 0 i) (\<lambda>outer_num. bindE (at (dat s) i) (\<lambda>e. bindE (at expand_times i) (\<lambda>t.
            bindE (expand_axis k k (narrow32 outer_num) t (inner_num * e) D) (\<lambda>D'.
            Inr (inner_num * e * t, D'))))))
          (rev [0..d - 2]) (inner_num * t, D1)) (\<lambda>(_, D2).
        Inr (SaberSuccess, T, D2))))))))))"

section \<open>Cropping and padding\<close>

text \<open>\<open>SaberCrop::create\<close>: the offsets and ends of the channels, rows and columns, and the offset
  vector it may fill with zeros.\<close>

definition crop_create :: "int \<Rightarrow> int list \<Rightarrow> int list \<Rightarrow> nat list \<Rightarrow> tensors
    \<Rightarrow> (saber_status \<times> int list \<times> (int \<times> int \<times> int) \<times> (int \<times> int \<times> int)) outcome" where
  "crop_create axis offset0 target ins T =
     bindE (if length ins = 2 then bindE (in_valid T ins 1) (\<lambda>s. Inr (dat s)) else Inr target) (\<lambda>sh.
     bindE (check (length sh = 4)) (\<lambda>_.
     let offset = (if offset0 = [] then replicate (nat (4 - axis)) 0 else offset0)
     in if axis = 1 then
          bindE (check (length offset = 3)) (\<lambda>_.
          Inr (SaberSuccess, offset, (offset ! 0, offset ! 1, offset ! 2),
               (sh ! 1 + offset ! 0, sh ! 2 + offset ! 1, sh ! 3 + offset ! 2)))
        else if axis = 2 then
          bindE (check (length offset = 2)) (\<lambda>_.
          Inr (SaberSuccess, offset, (0, offset ! 0, offset ! 1), (sh ! 1, sh ! 2 + offset ! 0, sh ! 3 + offset ! 1)))
        else if axis = 3 then
          bindE (check (length offset = 1)) (\<lambda>_.
          Inr (SaberSuccess, offset, (0, 0, offset ! 0), (sh ! 1, sh ! 2, sh ! 3 + offset ! 0)))
        else Inr (SaberInvalidValue, offset, (0, 0, 0), (0, 0, 0))))"

definition crop_dispatch :: "int \<times> int \<times> int \<Rightarrow> int \<times> int \<times> int \<Rightarrow> 'a dispatch" where
  "crop_dispatch offs ends ins outs T D =
     (case (offs, ends) of ((c_off, h_off, w_off), (c_end, h_end, w_end)) \<Rightarrow>
      bindE (at ins 0) (\<lambda>x. bindE (at outs 0) (\<lambda>k.
      bindE (tensor_num (T x)) (\<lambda>n. bindE (tensor_channel (T x)) (\<lambda>in_c.
      bindE (tensor_height (T x)) (\<lambda>in_h. bindE (tensor_width (T x)) (\<lambda>in_w.
      bindE (loop n (\<lambda>i. foldE (\<lambda>j. foldE (\<lambda>r. foldE (\<lambda>l (p, D).
           bindE (el_move k p x (i * in_c * in_h * in_w + j * in_h * in_w + r * in_w + l) D) (\<lambda>D'. Inr (p + 1, D')))
         [w_off..w_end - 1]) [h_off..h_end - 1]) [c_off..c_end - 1]) (0, D)) (\<lambda>(_, D').
      Inr (SaberSuccess, T, D')))))))))"

text \<open>\<open>SaberPad::create\<close>: the strides of the named dimensions.\<close>

definition named_strides :: "tensor \<Rightarrow> (int \<times> int \<times> int \<times> int) outcome" where
  "named_strides t =
     bindE (tensor_stride t) (\<lambda>st.
     bindE (tensor_num_index t) (\<lambda>a. bindE (tensor_channel_index t) (\<lambda>b.
     bindE (tensor_height_index t) (\<lambda>c. bindE (tensor_width_index t) (\<lambda>d.
     bindE (at (dat st) a) (\<lambda>n. bindE (at (dat st) b) (\<lambda>ch. bindE (at (dat st) c) (\<lambda>h. bindE (at (dat st) d) (\<lambda>w.
     Inr (n, ch, h, w))))))))))"

definition times8 :: "int \<times> int \<times> int \<times> int \<Rightarrow> int \<times> int \<times> int \<times> int" where
  "times8 s = (case s of (n, c, h, w) \<Rightarrow> (n, c * 8, h * 8, w * 8))"

definition pad_create :: "int list \<Rightarrow> int list \<Rightarrow> int list \<Rightarrow> nat list \<Rightarrow> nat list \<Rightarrow> tensors
    \<Rightarrow> ((int \<times> int \<times> int \<times> int) \<times> (int \<times> int \<times> int \<times> int)) outcome" where
  "pad_create pad_c pad_h pad_w ins outs T =
     bindE (check (2 = length pad_c)) (\<lambda>_. bindE (check (2 = length pad_h)) (\<lambda>_. bindE (check (2 = length pad_w)) (\<lambda>_.
     bindE (of_in named_strides T outs 0) (\<lambda>out_s. bindE (of_in named_strides T ins 0) (\<lambda>in_s.
     bindE (of_in tensor_get_layout T ins 0) (\<lambda>l. bindE (of_in tensor_get_layout T outs 0) (\<lambda>l'.
     bindE (check (l = l')) (\<lambda>_.
     if l = Layout_NCHW_C8R then
       bindE (of_in tensor_channel T ins 0) (\<lambda>c. bindE (check (c mod 8 = 0)) (\<lambda>_. Inr (times8 in_s, times8 out_s)))
     else Inr (in_s, out_s)))))))))"

definition pos4 :: "int \<times> int \<times> int \<times> int \<Rightarrow> int \<Rightarrow> int \<Rightarrow> int \<Rightarrow> int \<Rightarrow> int" where
  "pos4 s n c h w = (case s of (sn, sc, sh, sw) \<Rightarrow> n * sn + c * sc + h * sh + w * sw)"

definition outside :: "int \<Rightarrow> int \<Rightarrow> bool" where
  "outside i d \<longleftrightarrow> i < 0 \<or> i \<ge> d"

definition pad_dispatch :: "'a \<Rightarrow> (int \<times> int \<times> int \<times> int) \<times> (int \<times> int \<times> int \<times> int) \<Rightarrow> int list \<Rightarrow> int list \<Rightarrow> int list
    \<Rightarrow> 'a dispatch" where
  "pad_dispatch zero strides pad_c pad_h pad_w ins outs T D =
     bindE (at ins 0) (\<lambda>x. bindE (at outs 0) (\<lambda>k.
     bindE (valid_shape (T k)) (\<lambda>os. bindE (valid_shape (T x)) (\<lambda>is0.
     bindE (num os) (\<lambda>out_n. bindE (channel os) (\<lambda>out_c. bindE (height os) (\<lambda>out_h. bindE (width os) (\<lambda>out_w.
     bindE (at pad_h 0) (\<lambda>top. bindE (at pad_w 0) (\<lambda>left. bindE (at pad_c 0) (\<lambda>c0. bindE (at pad_c 1) (\<lambda>c1.
     bindE (channel is0) (\<lambda>in_c. bindE (height is0) (\<lambda>in_h. bindE (width is0) (\<lambda>in_w.
     bindE (tensor_get_layout (T x)) (\<lambda>l. bindE (tensor_get_layout (T k)) (\<lambda>l'.
     bindE (
       if l = Layout_NCHW \<and> l' = Layout_NCHW then
         loop out_n (\<lambda>n. loop out_c (\<lambda>c. loop out_h (\<lambda>h. loop out_w (\<lambda>w D.
           if outside (c - c0) in_c \<or> outside (h - top) in_h \<or> outside (w - left) in_w
           then el_put k (pos4 (snd strides) n c h w) zero D
           else el_move k (pos4 (snd strides) n c h w) x (pos4 (fst strides) n (c - c0) (h - top) (w - left)) D)))) D
       else if l = Layout_NCHW_C8R \<and> l' = Layout_NCHW_C8R then
         bindE (check (out_c mod 8 = 0)) (\<lambda>_. bindE (check (c0 = 0)) (\<lambda>_. bindE (check (c1 = 0)) (\<lambda>_.
         loop out_n (\<lambda>n. loop (out_c div 8) (\<lambda>c. loop out_h (\<lambda>h. loop out_w (\<lambda>w. loop 8 (\<lambda>inner D.
           if outside (h - top) in_h \<or> outside (w - left) in_w
           then el_put k (pos4 (snd strides) n c h w + inner) zero D
           else el_move k (pos4 (snd strides) n c h w + inner) x (pos4 (fst strides) n c (h - top) (w - left) + inner) D))))) D)))
       else Inl CheckFailed) (\<lambda>D'.
     Inr (SaberSuccess, T, D')))))))))))))))))))"

section \<open>Sequences\<close>

text \<open>\<open>offset_vec[offset_vec.size() - 1]\<close>, and the loop over the sequences of an offset vector, which
  must not be empty.\<close>

definition last_seq :: "tensor \<Rightarrow> int list outcome" where
  "last_seq t = at (get_seq_offset t) (int (length (get_seq_offset t)) - 1)"

definition each_sequence :: "int list \<Rightarrow> (int \<Rightarrow> int \<Rightarrow> int \<Rightarrow> 's \<Rightarrow> 's outcome) \<Rightarrow> 's \<Rightarrow> 's outcome" where
  "each_sequence offs f s =
     (if offs = [] then Inl OutOfRange
      else loop (int (length offs) - 1) (\<lambda>i s. bindE (at offs i) (\<lambda>a. bindE (at offs (i + 1)) (\<lambda>b. f i a b s))) s)"

definition reverse_sequence_dispatch :: "'a dispatch" where
  "reverse_sequence_dispatch ins outs T D =
     bindE (check (length ins = 1)) (\<lambda>_.
     bindE (at ins 0) (\<lambda>x. bindE (last_seq (T x)) (\<lambda>offs. bindE (at outs 0) (\<lambda>k.
     bindE (valid_shape (T x)) (\<lambda>s. bindE (at (dat s) 1) (\<lambda>word_size.
     bindE (each_sequence offs (\<lambda>i a b. loop (b - a) (\<lambda>j.
        el_copy k (word_size * (a + (b - a) - j - 1)) x (word_size * (a + j)) word_size)) D) (\<lambda>D'.
     Inr (SaberSuccess, T, D'))))))))"

definition reverse_input_dispatch :: "'a dispatch" where
  "reverse_input_dispatch ins outs T D =
     bindE (loop (int (length ins)) (\<lambda>q D.
       bindE (at ins q) (\<lambda>x. bindE (last_seq (T x)) (\<lambda>offs. bindE (at outs q) (\<lambda>k.
       each_sequence offs (\<lambda>i a b. loop (b - a) (\<lambda>j. el_move k (b - 1 - j) x (a + j))) D)))) D) (\<lambda>D'.
     Inr (SaberSuccess, T, D'))"

definition sequence_concat_dispatch :: "'a dispatch" where
  "sequence_concat_dispatch ins outs T D =
     bindE (at outs 0) (\<lambda>k.
     bindE (of_in valid_size T ins 0) (\<lambda>v. bindE (of_in tensor_num T ins 0) (\<lambda>n. bindE (cdiv v n) (\<lambda>emb0.
     bindE (first_seq T ins 0) (\<lambda>q0.
     let emb = narrow32 emb0; seq_num = int (length q0) - 1
     in bindE (foldE (\<lambda>i _.
          bindE (of_in valid_size T ins i) (\<lambda>v. bindE (of_in tensor_num T ins i) (\<lambda>n. bindE (cdiv v n) (\<lambda>e.
          bindE (first_seq T ins i) (\<lambda>q.
          bindE (check (emb = narrow32 e)) (\<lambda>_. check (seq_num = int (length q) - 1)))))))
          [1..int (length ins) - 1] ()) (\<lambda>_.
        bindE (loop seq_num (\<lambda>i. loop (int (length ins)) (\<lambda>j (p, D).
          bindE (first_seq T ins j) (\<lambda>q. bindE (at q i) (\<lambda>a. bindE (at q (i + 1)) (\<lambda>b. bindE (at ins j) (\<lambda>x.
          bindE (el_copy k p x (a * emb) ((b - a) * emb) D) (\<lambda>D'. Inr (p + (b - a) * emb, D')))))))) (0, D)) (\<lambda>(_, D').
        Inr (SaberSuccess, T, D'))))))))"

definition sequence_expand_dispatch :: "'a dispatch" where
  "sequence_expand_dispatch ins outs T D =
     bindE (first_seq T ins 1) (\<lambda>ref. bindE (of_in valid_size T ins 0) (\<lambda>v.
     bindE (at ins 0) (\<lambda>x. bindE (at outs 0) (\<lambda>k.
     bindE (of_in tensor_num T ins 0) (\<lambda>n. bindE (cdiv v n) (\<lambda>d0. bindE (seq_of T ins 0) (\<lambda>q0.
     let d = narrow32 d0
     in if length q0 = 0 then
          bindE (each_sequence ref (\<lambda>i a b. foldE (\<lambda>j. el_copy k (j * d) x (i * d) d) [a..b - 1]) D) (\<lambda>D'.
          bindE (out_seq outs 0 [ref] T) (\<lambda>T'. Inr (SaberSuccess, T', D')))
        else
          bindE (at q0 0) (\<lambda>cur.
          bindE (each_sequence ref (\<lambda>i a b s.
             bindE (at cur i) (\<lambda>c. bindE (at cur (i + 1)) (\<lambda>c'.
             foldE (\<lambda>j (cum, offs, D).
               bindE (el_copy k (cum * d) x (i * d) (d * (c' - c)) D) (\<lambda>D'.
               Inr (cum + (c' - c), offs @ [cum + (c' - c)], D'))) [a..b - 1] s))) (0, [], D)) (\<lambda>(_, offs, D').
          bindE (out_seq outs 0 [offs] T) (\<lambda>T'. Inr (SaberSuccess, T', D')))))))))))"

section \<open>Slices with steps and windows\<close>

text \<open>\<open>SaberSliceV2::create\<close>: the starts and ends, clamped to the dimension.\<close>

definition clamp_to :: "int \<Rightarrow> int \<Rightarrow> int" where
  "clamp_to x d = min (max (if x < 0 then x + d else x) 0) d"

definition slice_v2_create :: "int list \<Rightarrow> int list \<Rightarrow> int list \<Rightarrow> nat list \<Rightarrow> tensors \<Rightarrow> (int list \<times> int list) outcome" where
  "slice_v2_create starts ends axes ins T =
     bindE (check (length axes = length starts)) (\<lambda>_. bindE (check (length ends = length starts)) (\<lambda>_.
     bindE (in_valid T ins 0) (\<lambda>s.
     bindE (mapE (\<lambda>(b, a). bindE (at (dat s) a) (\<lambda>d. Inr (clamp_to b d))) (zip starts axes)) (\<lambda>bs.
     bindE (mapE (\<lambda>(e, a). bindE (at (dat s) a) (\<lambda>d. Inr (clamp_to e d))) (zip ends axes)) (\<lambda>es.
     Inr (bs, es))))))"

text \<open>The input position of output position \<open>i\<close>.\<close>

definition slice_v2_source :: "int list \<Rightarrow> int list \<Rightarrow> int list \<Rightarrow> int list \<Rightarrow> int \<Rightarrow> int \<Rightarrow> int \<Rightarrow> int \<Rightarrow> int outcome" where
  "slice_v2_source starts axes new_shape in_stride inner out_outer in_outer i =
     bindE (cdiv i out_outer) (\<lambda>out_id. bindE (cmod i inner) (\<lambda>inner_id. bindE (cdiv i inner) (\<lambda>new_i.
     bindE (foldE (\<lambda>k (in_offset, new_i).
        bindE (at axes k) (\<lambda>a. bindE (at new_shape a) (\<lambda>d. bindE (cmod new_i d) (\<lambda>cur_id. bindE (cdiv new_i d) (\<lambda>q.
        bindE (at starts k) (\<lambda>b. bindE (at in_stride a) (\<lambda>st. Inr (in_offset + (cur_id + b) * st, q))))))))
       (rev [0..int (length starts) - 1]) (inner_id + out_id * in_outer, new_i)) (\<lambda>(in_offset, _).
     Inr in_offset))))"

definition slice_v2_dispatch :: "int list \<Rightarrow> int list \<Rightarrow> 'a dispatch" where
  "slice_v2_dispatch starts axes ins outs T D =
     bindE (at ins 0) (\<lambda>x. bindE (valid_shape (T x)) (\<lambda>_.
     bindE (check (length outs = 1)) (\<lambda>_. bindE (at outs 0) (\<lambda>k.
     bindE (tensor_stride (T k)) (\<lambda>_. bindE (tensor_stride (T x)) (\<lambda>in_stride.
     bindE (at axes (int (length axes) - 1)) (\<lambda>back. bindE (at axes 0) (\<lambda>front.
     bindE (count_valid (T x) (back + 1) (tensor_dims (T x))) (\<lambda>inner.
     bindE (count_valid (T k) front (tensor_dims (T x))) (\<lambda>out_outer.
     bindE (count_valid (T x) front (tensor_dims (T x))) (\<lambda>in_outer.
     bindE (valid_size (T k)) (\<lambda>n. bindE (valid_shape (T k)) (\<lambda>os.
     bindE (loop (narrow32 n) (\<lambda>i D.
        bindE (slice_v2_source starts axes (dat os) (dat in_stride) (narrow32 inner) (narrow32 out_outer) (narrow32 in_outer) i)
          (\<lambda>j. el_move k i x j D)) D) (\<lambda>D'.
     Inr (SaberSuccess, T, D')))))))))))))))"

text \<open>\<open>for (int i = a; i < b; i += s)\<close>, which ends for a positive step only.\<close>

definition steps :: "int \<Rightarrow> int \<Rightarrow> int \<Rightarrow> int list outcome" where
  "steps a b s =
     (if \<not> a < b then Inr [] else if s \<le> 0 then Inl OutOfFuel
      else Inr (map (\<lambda>i. a + i * s) [0..(b - a - 1) div s]))"

definition each_step :: "int \<Rightarrow> int \<Rightarrow> int \<Rightarrow> (int \<Rightarrow> 's \<Rightarrow> 's outcome) \<Rightarrow> 's \<Rightarrow> 's outcome" where
  "each_step a b s f st = bindE (steps a b s) (\<lambda>is. foldE f is st)"

text \<open>\<open>SaberIm2Sequence::create\<close>: the input dimensions, the extents of the window and the size
  of the output. The padding enters the sizes only.\<close>

record im2seq_sizes =
  iz_n :: int
  iz_c :: int
  iz_h :: int
  iz_w :: int
  iz_ext_h :: int
  iz_ext_w :: int
  iz_out_h :: int
  iz_out_w :: int

definition im2sequence_create :: "im2seq_param \<Rightarrow> nat list \<Rightarrow> tensors \<Rightarrow> im2seq_sizes outcome" where
  "im2sequence_create p ins T =
     bindE (of_in tensor_num T ins 0) (\<lambda>n. bindE (of_in tensor_channel T ins 0) (\<lambda>c.
     bindE (of_in tensor_height T ins 0) (\<lambda>h. bindE (of_in tensor_width T ins 0) (\<lambda>w.
     let ext_h = is_dilation_h p * (is_window_h p - 1) + 1; ext_w = is_dilation_w p * (is_window_w p - 1) + 1
     in bindE (cdiv (h + is_pad_up p + is_pad_down p - ext_h) (is_stride_h p)) (\<lambda>qh.
        bindE (cdiv (w + is_pad_left p + is_pad_right p - ext_w) (is_stride_w p)) (\<lambda>qw.
        Inr \<lparr>iz_n = n, iz_c = c, iz_h = h, iz_w = w, iz_ext_h = ext_h, iz_ext_w = ext_w,
             iz_out_h = qh + 1, iz_out_w = qw + 1\<rparr>))))))"

text \<open>The loops over one window; \<open>m\<close> counts its elements.\<close>

definition im2sequence_window :: "im2seq_param \<Rightarrow> im2seq_sizes \<Rightarrow> nat \<Rightarrow> nat \<Rightarrow> int \<Rightarrow> int \<Rightarrow> int \<Rightarrow> int \<Rightarrow> 'a elements
    \<Rightarrow> 'a elements outcome" where
  "im2sequence_window p z k x out0 in0 y l D =
     (let w_pad = iz_w z + is_pad_left p + is_pad_right p;
          sh = (if is_dilation_h p \<noteq> 0 then is_dilation_h p else 1);
          sw = (if is_dilation_w p \<noteq> 0 then is_dilation_w p else 1)
      in bindE (each_step y (y + iz_ext_h z) sh (\<lambda>wd_h. each_step l (l + iz_ext_w z) sw (\<lambda>wd_w (m, D).
           bindE (el_move k (out0 + m) x (in0 + wd_h * w_pad + wd_w) D) (\<lambda>D'. Inr (m + 1, D')))) (0, D)) (\<lambda>(_, D').
         Inr D'))"

definition im2sequence_dispatch :: "im2seq_param \<Rightarrow> im2seq_sizes \<Rightarrow> 'a dispatch" where
  "im2sequence_dispatch p z ins outs T D =
     bindE (at outs 0) (\<lambda>k. bindE (tensor_channel (T k)) (\<lambda>out_cols. bindE (at ins 0) (\<lambda>x.
     let h_pad = iz_h z + is_pad_up p + is_pad_down p; w_pad = iz_w z + is_pad_left p + is_pad_right p;
         wd_num = iz_out_h z * iz_out_w z; wd_size = is_window_h p * is_window_w p
     in bindE (loop (iz_n z) (\<lambda>i D. bindE (cmod 0 wd_num) (\<lambda>r0.
          bindE (loop (iz_c z) (\<lambda>j. each_step 0 (h_pad - iz_ext_h z + 1) (is_stride_h p) (\<lambda>y.
             each_step 0 (w_pad - iz_ext_w z + 1) (is_stride_w p) (\<lambda>l (wd_id, row, D).
               bindE (im2sequence_window p z k x (row * out_cols + j * wd_size)
                 (i * iz_c z * h_pad * w_pad + j * h_pad * w_pad) y l D) (\<lambda>D'.
               bindE (cmod (wd_id + 1) wd_num) (\<lambda>r. Inr (wd_id + 1, i * wd_num + r, D'))))))
            (0, i * wd_num + r0, D)) (\<lambda>(_, _, D'). Inr D'))) D) (\<lambda>D'.
        Inr (SaberSuccess, T, D')))))"

end
