(* ===== verification/Move_Facts.thy ===== *)
theory Move_Facts
  imports Move_Kernels Tensor_Shapes
begin

text \<open>
  A calculus for kernels that move elements. \<open>moved k x P D D'\<close> says that of the elements only those
  of tensor \<open>k\<close> changed, that position \<open>d\<close> of \<open>k\<close> got position \<open>s\<close> of \<open>x\<close> for each pair
  \<open>(d, s)\<close> of \<open>P\<close>, and that the other positions kept theirs. A statement that \<open>does\<close> the pairs
  \<open>P\<close> can be composed into loops as long as no position is written with two different sources.
\<close>

section \<open>Sets of moves\<close>

definition moved :: "nat \<Rightarrow> nat \<Rightarrow> (int \<times> int) set \<Rightarrow> 'a elements \<Rightarrow> 'a elements \<Rightarrow> bool" where
  "moved k x P D D' \<longleftrightarrow> (\<forall>m. m \<noteq> k \<longrightarrow> D' m = D m) \<and> length (D' k) = length (D k) \<and>
     (\<forall>(d, s) \<in> P. 0 \<le> d \<and> d < int (length (D k)) \<and> D' k ! nat d = D x ! nat s) \<and>
     (\<forall>p < length (D k). int p \<notin> fst ` P \<longrightarrow> D' k ! p = D k ! p)"

definition does :: "nat \<Rightarrow> nat \<Rightarrow> nat \<Rightarrow> nat \<Rightarrow> (int \<times> int) set \<Rightarrow> ('a elements \<Rightarrow> 'a elements outcome) \<Rightarrow> bool" where
  "does k x a b P f \<longleftrightarrow>
     (\<forall>D. length (D k) = a \<and> length (D x) = b \<longrightarrow> (\<exists>D'. f D = Inr D' \<and> moved k x P D D'))"

lemma moved_empty: "moved k x {} D D"
  by (simp add: moved_def)

lemma moved_at: "moved k x P D D' \<Longrightarrow> (d, s) \<in> P \<Longrightarrow> D' k ! nat d = D x ! nat s"
  by (auto simp: moved_def)

lemma moved_other:
  "moved k x P D D' \<Longrightarrow> 0 \<le> p \<Longrightarrow> p < int (length (D k)) \<Longrightarrow> p \<notin> fst ` P \<Longrightarrow> D' k ! nat p = D k ! nat p"
  by (simp add: moved_def)

lemma moved_union:
  assumes P: "moved k x P D D1" and Q: "moved k x Q D1 D2" and ne: "k \<noteq> x" and sv: "single_valued (P \<union> Q)"
  shows "moved k x (P \<union> Q) D D2"
proof -
  have x: "D1 x = D x" using P ne by (simp add: moved_def)
  have len: "length (D1 k) = length (D k)" using P by (simp add: moved_def)
  have keepQ: "D2 k ! p = D1 k ! p" if "p < length (D k)" "int p \<notin> fst ` Q" for p
    using Q that len by (simp add: moved_def)
  have keepP: "D1 k ! p = D k ! p" if "p < length (D k)" "int p \<notin> fst ` P" for p
    using P that by (simp add: moved_def)
  have pairP: "0 \<le> d \<and> d < int (length (D k)) \<and> D1 k ! nat d = D x ! nat s" if "(d, s) \<in> P" for d s
    using P that by (auto simp: moved_def)
  have pairQ: "0 \<le> d \<and> d < int (length (D k)) \<and> D2 k ! nat d = D x ! nat s" if "(d, s) \<in> Q" for d s
    using Q that x len by (auto simp: moved_def)
  have pair: "0 \<le> d \<and> d < int (length (D k)) \<and> D2 k ! nat d = D x ! nat s" if "(d, s) \<in> P \<union> Q" for d s
  proof (cases "d \<in> fst ` Q")
    case True
    then obtain s' where s': "(d, s') \<in> Q" by force
    then have "s' = s" using that sv by (meson UnI2 single_valuedD)
    then show ?thesis using pairQ s' by blast
  next
    case False
    then have "(d, s) \<in> P" using that by force
    then have pp: "0 \<le> d \<and> d < int (length (D k)) \<and> D1 k ! nat d = D x ! nat s" by (rule pairP)
    then have "nat d < length (D k)" "int (nat d) \<notin> fst ` Q" using False by auto
    then have "D2 k ! nat d = D1 k ! nat d" by (rule keepQ)
    then show ?thesis using pp by simp
  qed
  have rest: "D2 k ! p = D k ! p" if "p < length (D k)" "int p \<notin> fst ` (P \<union> Q)" for p
    using keepP keepQ that by (simp add: image_Un)
  have "\<forall>m. m \<noteq> k \<longrightarrow> D2 m = D m" "length (D2 k) = length (D k)"
    using P Q by (simp_all add: moved_def)
  then show ?thesis unfolding moved_def using pair rest by blast
qed

lemma does_move:
  assumes "0 \<le> d" "d < int a" "0 \<le> s" "s < int b"
  shows "does k x a b {(d, s)} (el_move k d x s)"
  unfolding does_def
proof (intro allI impI)
  fix D :: "'a elements"
  assume L: "length (D k) = a \<and> length (D x) = b"
  have "el_move k d x s D = Inr (D(k := (D k)[nat d := D x ! nat s]))"
    using assms L by (simp add: el_move_def el_at_def el_put_def at_def put_def)
  moreover have "moved k x {(d, s)} D (D(k := (D k)[nat d := D x ! nat s]))"
    using assms L by (auto simp: moved_def nth_list_update)
  ultimately show "\<exists>D'. el_move k d x s D = Inr D' \<and> moved k x {(d, s)} D D'" by blast
qed

definition block_moves :: "int \<Rightarrow> int \<Rightarrow> int \<Rightarrow> (int \<times> int) set" where
  "block_moves d s n = (\<lambda>r. (d + r, s + r)) ` {0..<n}"

lemma does_copy:
  assumes "0 \<le> n" "0 \<le> d" "d + n \<le> int a" "0 \<le> s" "s + n \<le> int b" "k \<noteq> x"
  shows "does k x a b (block_moves d s n) (el_copy k d x s n)"
  unfolding does_def
proof (intro allI impI)
  fix D :: "'a elements"
  assume L: "length (D k) = a \<and> length (D x) = b"
  let ?ys = "take (nat d) (D k) @ take (nat n) (drop (nat s) (D x)) @ drop (nat (d + n)) (D k)"
  have len: "length (take (nat d) (D k)) = nat d" "length (take (nat n) (drop (nat s) (D x))) = nat n"
    using assms L by auto
  have all: "length ?ys = length (D k)" using assms L len by auto
  have "el_copy k d x s n D = Inr (D(k := ?ys))" using assms L by (simp add: el_copy_def)
  moreover have "moved k x (block_moves d s n) D (D(k := ?ys))"
    unfolding moved_def
  proof (intro conjI allI impI ballI)
    show "length ((D(k := ?ys)) k) = length (D k)" using all by simp
    fix z assume "z \<in> block_moves d s n"
    then obtain r where r: "z = (d + r, s + r)" "0 \<le> r" "r < n" by (auto simp: block_moves_def)
    have "?ys ! nat (d + r) = take (nat n) (drop (nat s) (D x)) ! nat r"
      using len r assms by (simp add: nth_append nat_add_distrib)
    also have "\<dots> = D x ! nat (s + r)" using r assms L by (simp add: nat_add_distrib)
    finally show "case z of (d, s) \<Rightarrow> 0 \<le> d \<and> d < int (length (D k)) \<and> (D(k := ?ys)) k ! nat d = D x ! nat s"
      using r assms L by simp
  next
    fix p assume p: "p < length (D k)" "int p \<notin> fst ` block_moves d s n"
    have "int p < d \<or> d + n \<le> int p"
    proof (rule ccontr)
      assume "\<not> ?thesis"
      then have "int p = fst (d + (int p - d), s + (int p - d))" "int p - d \<in> {0..<n}" by auto
      then show False using p(2) unfolding block_moves_def by blast
    qed
    then show "(D(k := ?ys)) k ! p = D k ! p"
    proof
      assume "int p < d"
      then show ?thesis using len assms by (simp add: nth_append)
    next
      assume h: "d + n \<le> int p"
      then have "\<not> p < nat d" "\<not> p - nat d < nat n" "p - nat d - nat n = p - nat (d + n)" "nat (d + n) \<le> p"
        using assms by (auto simp: nat_add_distrib)
      then show ?thesis using len p(1) by (simp add: nth_append)
    qed
  qed auto
  ultimately show "\<exists>D'. el_copy k d x s n D = Inr D' \<and> moved k x (block_moves d s n) D D'" by blast
qed

lemma does_run:
  assumes "does k x a b P f" "length (D k) = a" "length (D x) = b"
  obtains D' where "f D = Inr D'" "moved k x P D D'"
  using assms by (auto simp: does_def)

lemma does_list:
  fixes f :: "'i \<Rightarrow> 'a elements \<Rightarrow> 'a elements outcome"
  assumes ne: "k \<noteq> x" and each: "\<And>i. i \<in> set is \<Longrightarrow> does k x a b (P i) (f i)"
  shows "single_valued (\<Union>i \<in> set is. P i) \<Longrightarrow> does k x a b (\<Union>i \<in> set is. P i) (foldE f is)"
  using each
proof (induction "is")
  case Nil
  then show ?case by (simp add: does_def moved_empty)
next
  case (Cons i js)
  have sv: "single_valued (\<Union>i \<in> set js. P i)" by (rule single_valued_subset [OF _ Cons.prems(1)]) auto
  have rest: "does k x a b (\<Union>i \<in> set js. P i) (foldE f js)" by (rule Cons.IH [OF sv]) (use Cons.prems(2) in auto)
  have first: "does k x a b (P i) (f i)" using Cons.prems(2) by simp
  show ?case unfolding does_def
  proof (intro allI impI)
    fix D :: "'a elements"
    assume L: "length (D k) = a \<and> length (D x) = b"
    obtain D1 where D1: "f i D = Inr D1" "moved k x (P i) D D1" using does_run [OF first] L by blast
    have L1: "length (D1 k) = a" "length (D1 x) = b" using D1(2) L ne by (auto simp: moved_def)
    obtain D2 where D2: "foldE f js D1 = Inr D2" "moved k x (\<Union>i \<in> set js. P i) D1 D2"
      using does_run [OF rest L1] by blast
    have "moved k x (P i \<union> (\<Union>i \<in> set js. P i)) D D2"
      by (rule moved_union [OF D1(2) D2(2) ne]) (use Cons.prems(1) in simp)
    then show "\<exists>D'. foldE f (i # js) D = Inr D' \<and> moved k x (\<Union>i \<in> set (i # js). P i) D D'"
      using D1(1) D2(1) by simp
  qed
qed

lemma does_loop:
  assumes "k \<noteq> x" "\<And>i. 0 \<le> i \<Longrightarrow> i < n \<Longrightarrow> does k x a b (P i) (f i)" "single_valued (\<Union>i \<in> {0..<n}. P i)"
  shows "does k x a b (\<Union>i \<in> {0..<n}. P i) (loop n f)"
proof -
  have s: "set [0..n - 1] = {0..<n}" by auto
  show ?thesis unfolding loop_def using does_list [of k x "[0..n - 1]" a b P f] assms unfolding s by simp
qed

end
