(* ===== verification/Permute_Facts.thy ===== *)
theory Permute_Facts
  imports Move_Facts Inference_Facts
begin

text \<open>
  The permutation kernel on dense tensors of their own: where an element of the output comes from, in
  terms of index vectors.
\<close>

section \<open>Index vectors under a permutation of the axes\<close>

definition permuted :: "int list \<Rightarrow> int list \<Rightarrow> int list" where
  "permuted order xs = map (\<lambda>a. xs ! nat a) order"

definition axes_order :: "nat \<Rightarrow> int list \<Rightarrow> bool" where
  "axes_order n order \<longleftrightarrow> distinct order \<and> set order = {0..<int n}"

lemma axes_order_length: "axes_order n order \<Longrightarrow> length order = n"
  by (metis axes_order_def distinct_card card_atLeastLessThan_int diff_zero nat_int)

lemma length_permuted [simp]: "length (permuted order xs) = length order"
  by (simp add: permuted_def)

lemma dot_permuted:
  assumes o: "axes_order n order" and l: "length xs = n" "length ys = n"
  shows "dot (permuted order xs) (permuted order ys) = dot xs ys"
proof -
  have "dot (permuted order xs) (permuted order ys) = sum_list (map (\<lambda>a. xs ! nat a * ys ! nat a) order)"
    unfolding dot_def permuted_def by (induction order) auto
  also have "\<dots> = (\<Sum>a \<in> {0..<int n}. xs ! nat a * ys ! nat a)"
    using o by (simp add: axes_order_def sum_list_distinct_conv_sum_set)
  also have "\<dots> = (\<Sum>a \<in> {0..<n}. xs ! a * ys ! a)"
    by (rule sum.reindex_bij_witness [of _ int nat]) auto
  also have "\<dots> = dot xs ys"
    using l by (auto simp: dot_def sum_list_sum_nth intro!: sum.cong)
  finally show ?thesis .
qed

lemma prod_permuted:
  assumes o: "axes_order n order" and l: "length xs = n"
  shows "prod_list (permuted order xs) = prod_list xs"
proof -
  have "prod_list (permuted order xs) = (\<Prod>a \<in> {0..<int n}. xs ! nat a)"
    using o prod.distinct_set_conv_list [of order "\<lambda>a. xs ! nat a"] by (simp add: axes_order_def permuted_def)
  also have "\<dots> = (\<Prod>a \<in> {0..<n}. xs ! a)"
    by (rule prod.reindex_bij_witness [of _ int nat]) auto
  also have "\<dots> = prod_list xs"
    using l by (simp add: prod.list_conv_set_nth)
  finally show ?thesis .
qed

lemma permuted_box:
  assumes "axes_order n order" "length xs = n" "in_box xs ix"
  shows "in_box (permuted order xs) (permuted order ix)"
  using assms unfolding in_box_def permuted_def axes_order_def
  by (auto simp: list_all2_conv_all_nth dest!: nth_mem)

lemma permuted_onto:
  assumes o: "axes_order n order" and l: "length xs = n" and y: "in_box (permuted order xs) y"
  obtains ix where "in_box xs ix" "permuted order ix = y"
proof -
  note len = axes_order_length [OF o]
  have ly: "length y = n" using list_all2_lengthD [OF y [unfolded in_box_def]] len by simp
  have "\<exists>i < n. order ! i = int a" if "a < n" for a
  proof -
    have "int a \<in> set order" using o that by (simp add: axes_order_def)
    then show ?thesis using len by (auto simp: in_set_conv_nth)
  qed
  then obtain p where p: "\<And>a. a < n \<Longrightarrow> p a < n \<and> order ! p a = int a" by metis
  have inv: "p (nat (order ! i)) = i" "nat (order ! i) < n" if "i < n" for i
  proof -
    have "order ! i \<in> set order" using that len by simp
    then have r: "0 \<le> order ! i" "nat (order ! i) < n" using o by (auto simp: axes_order_def)
    then have "order ! p (nat (order ! i)) = order ! i" using p [OF r(2)] by simp
    then show "p (nat (order ! i)) = i" "nat (order ! i) < n"
      using p [OF r(2)] that o len r(2) by (auto simp: axes_order_def nth_eq_iff_index_eq)
  qed
  let ?ix = "map (\<lambda>a. y ! p a) [0..<n]"
  have "permuted order ?ix = y"
    using inv len ly by (auto simp: permuted_def intro!: nth_equalityI)
  moreover have "in_box xs ?ix"
  proof -
    have "0 \<le> y ! p a \<and> y ! p a < xs ! a" if "a < n" for a
    proof -
      have "p a < length y" "permuted order xs ! p a = xs ! a" using p [OF that] ly len by (simp_all add: permuted_def)
      then show ?thesis using list_all2_nthD2 [OF y [unfolded in_box_def], of "p a"] by simp
    qed
    then show ?thesis using l by (simp add: in_box_def list_all2_conv_all_nth)
  qed
  ultimately show ?thesis by (rule that [rotated])
qed

lemma unrow_row_pos: "in_box val ix \<Longrightarrow> all_pos val \<Longrightarrow> unrow val (row_pos val ix) = ix"
  using unrow_props [of val "row_pos val ix"] row_pos_bounds [of val ix] row_pos_inj by blast

section \<open>The position a result is read from\<close>

lemma permute_source_loop:
  assumes pos: "all_pos S" and l: "length order = length S"
    and o: "\<forall>a \<in> set order. 0 \<le> a \<and> a < int (length old)"
    and "k \<le> length S" "0 \<le> e" "e < prod_list (drop k S)"
  shows "\<exists>r. foldE (\<lambda>i (in_idx, e).
        bindE (at order i) (\<lambda>ord. bindE (at (dense_strides S) i) (\<lambda>new_step. bindE (at old ord) (\<lambda>old_step.
        bindE (cdiv e new_step) (\<lambda>q. bindE (cmod e new_step) (\<lambda>r. Inr (in_idx + q * old_step, r)))))))
       [int k..int (length S) - 1] (acc, e)
      = Inr (acc + dot (unrow (drop k S) e) (permuted (drop k order) old), r)"
  using assms(4-6)
proof (induction "length S - k" arbitrary: k acc e)
  case 0
  then show ?case by simp
next
  case (Suc m)
  have k: "k < length S" using Suc.hyps(2) by simp
  let ?c = "prod_list (drop (Suc k) S)"
  have up: "[int k..int (length S) - 1] = int k # [int (Suc k)..int (length S) - 1]"
    using k by (simp add: upto_rec1 add.commute)
  have c: "0 < ?c" by (rule all_pos_prod) (use pos in \<open>auto dest: in_set_dropD\<close>)
  have dS: "drop k S = S ! k # drop (Suc k) S" and dO: "drop k order = order ! k # drop (Suc k) order"
    using k l by (simp_all add: Cons_nth_drop_Suc)
  have ord: "0 \<le> order ! k" "order ! k < int (length old)" using o k l by auto
  have q: "cdiv e ?c = Inr (e div ?c)" "cmod e ?c = Inr (e mod ?c)"
    using c Suc.prems(2) by (simp_all add: cdiv_pos cmod_pos)
  have ats: "at order (int k) = Inr (order ! k)" "at (dense_strides S) (int k) = Inr ?c"
    "at old (order ! k) = Inr (old ! nat (order ! k))"
    using k l ord by (simp_all add: at_def dense_strides_nth)
  have "\<exists>r. foldE (\<lambda>i (in_idx, e).
        bindE (at order i) (\<lambda>ord. bindE (at (dense_strides S) i) (\<lambda>new_step. bindE (at old ord) (\<lambda>old_step.
        bindE (cdiv e new_step) (\<lambda>q. bindE (cmod e new_step) (\<lambda>r. Inr (in_idx + q * old_step, r)))))))
       [int (Suc k)..int (length S) - 1] (acc + e div ?c * old ! nat (order ! k), e mod ?c)
      = Inr (acc + e div ?c * old ! nat (order ! k)
          + dot (unrow (drop (Suc k) S) (e mod ?c)) (permuted (drop (Suc k) order) old), r)"
    by (rule Suc.hyps(1)) (use Suc.hyps(2) c k in auto)
  then obtain r where r: "foldE (\<lambda>i (in_idx, e).
        bindE (at order i) (\<lambda>ord. bindE (at (dense_strides S) i) (\<lambda>new_step. bindE (at old ord) (\<lambda>old_step.
        bindE (cdiv e new_step) (\<lambda>q. bindE (cmod e new_step) (\<lambda>r. Inr (in_idx + q * old_step, r)))))))
       [int (Suc k)..int (length S) - 1] (acc + e div ?c * old ! nat (order ! k), e mod ?c)
      = Inr (acc + e div ?c * old ! nat (order ! k)
          + dot (unrow (drop (Suc k) S) (e mod ?c)) (permuted (drop (Suc k) order) old), r)" by blast
  have "unrow (drop k S) e = e div ?c # unrow (drop (Suc k) S) (e mod ?c)" unfolding dS by simp
  moreover have "permuted (drop k order) old = old ! nat (order ! k) # permuted (drop (Suc k) order) old"
    unfolding dO by (simp add: permuted_def)
  ultimately show ?case
    unfolding up foldE.simps using r by (simp add: ats q)
qed

lemma permute_source_ok:
  assumes "all_pos S" "axes_order (length S) order" "length old = length S" "0 \<le> j" "j < prod_list S"
  shows "permute_source order (dense_strides S) old (int (length S)) j = Inr (dot (unrow S j) (permuted order old))"
  using permute_source_loop [of S order old 0 j 0] axes_order_length [OF assms(2)] assms
  by (auto simp: permute_source_def loop_def axes_order_def)

text \<open>The output position of an index vector is filled from the position of the vector it permutes.\<close>

lemma permute_source_index:
  assumes S: "all_pos S" and o: "axes_order (length S) order" and ix: "in_box S ix"
  defines "So \<equiv> permuted order S"
  shows "permute_source order (dense_strides So) (dense_strides S) (int (length S)) (row_pos So (permuted order ix))
         = Inr (row_pos S ix)"
proof -
  note n = axes_order_length [OF o]
  have So: "all_pos So" "length So = length S"
    using S o n by (auto simp: So_def permuted_def axes_order_def)
  have box: "in_box So (permuted order ix)" unfolding So_def by (rule permuted_box [OF o refl ix])
  note b = row_pos_bounds [OF box So(1)]
  have l: "length ix = length S" using ix by (simp add: in_box_def list_all2_lengthD)
  have "permute_source order (dense_strides So) (dense_strides S) (int (length So)) (row_pos So (permuted order ix))
      = Inr (dot (permuted order ix) (permuted order (dense_strides S)))"
    using permute_source_ok [of So order "dense_strides S" "row_pos So (permuted order ix)"] So o b
      unrow_row_pos [OF box So(1)] by simp
  also have "dot (permuted order ix) (permuted order (dense_strides S)) = dot ix (dense_strides S)"
    by (rule dot_permuted [OF o]) (simp_all add: l)
  also have "\<dots> = row_pos S ix" by (rule dot_dense [OF l])
  finally show ?thesis unfolding So(2) .
qed

section \<open>The shape inferred for the output\<close>

text \<open>A dense shape whose layout fixes no dimension.\<close>

definition plain :: "shape \<Rightarrow> bool" where
  "plain s \<longleftrightarrow> dense s \<and> (\<forall>l. lay s = LObj l \<longrightarrow> layout_inner_c l = -1)"

lemma plain_dense: "plain s \<Longrightarrow> dense s"
  by (simp add: plain_def)

lemma permuted_dense:
  assumes s: "plain s" and o: "axes_order (length (dat s)) order"
  shows "plain (s\<lparr>dat := permuted order (dat s)\<rparr>)"
proof -
  have "\<forall>d \<in> set (permuted order (dat s)). 0 < d"
    using o dense_pos [OF plain_dense [OF s]] by (auto simp: permuted_def axes_order_def)
  moreover have "layout_inner_c l = -1" if "lay s = LObj l" for l
    using s that by (simp add: plain_def)
  ultimately show ?thesis
    using s prod_permuted [OF o refl] axes_order_length [OF o]
    by (auto simp: plain_def dense_def wf_shape_def unaligned_def positive_def split: layout_ptr.splits)
qed

lemma permute_fill:
  assumes l: "length order = length (dat s)" and o: "\<forall>a \<in> set order. 0 \<le> a \<and> a < int (length xs)"
    and "k \<le> length order"
  shows "foldE (\<lambda>j out. bindE (at order j) (\<lambda>k. bindE (at xs k) (put_at out j))) [int k..int (length order) - 1] s
    = Inr (s\<lparr>dat := take k (dat s) @ permuted (drop k order) xs\<rparr>)"
  using assms
proof (induction "length order - k" arbitrary: k s)
  case 0
  then show ?case by (simp add: permuted_def)
next
  case (Suc m)
  have k: "k < length order" using Suc.hyps(2) by simp
  have up: "[int k..int (length order) - 1] = int k # [int (Suc k)..int (length order) - 1]"
    using k by (simp add: upto_rec1 add.commute)
  have ord: "0 \<le> order ! k" "order ! k < int (length xs)" using Suc.prems(2) k by auto
  let ?s = "s\<lparr>dat := (dat s)[k := xs ! nat (order ! k)]\<rparr>"
  have first: "bindE (at order (int k)) (\<lambda>k'. bindE (at xs k') (put_at s (int k))) = Inr ?s"
    using k ord Suc.prems(1) by (simp add: at_def put_at_def put_def)
  have rest: "foldE (\<lambda>j out. bindE (at order j) (\<lambda>k. bindE (at xs k) (put_at out j))) [int (Suc k)..int (length order) - 1] ?s
    = Inr (?s\<lparr>dat := take (Suc k) (dat ?s) @ permuted (drop (Suc k) order) xs\<rparr>)"
    by (rule Suc.hyps(1)) (use Suc.hyps(2) Suc.prems k in auto)
  have "take (Suc k) (dat ?s) @ permuted (drop (Suc k) order) xs = take k (dat s) @ permuted (drop k order) xs"
    using k Suc.prems(1) by (simp add: take_Suc_conv_app_nth permuted_def flip: Cons_nth_drop_Suc)
  then show ?case unfolding up foldE.simps first bindE_simps rest by simp
qed

lemma set_shape_dtype:
  assumes "set_shape t v None None = Inr (st, t')"
  shows "t_dtype t' = t_dtype t"
  using assms
  by (auto simp: set_shape_def no_shape take_shapes_def place_region_def dims_def elim!: bindE_InrE split: if_splits)

lemma out_shape_dtype:
  assumes "out_shape outs i v T = Inr (st, T(k := t'))" "at outs i = Inr k"
  shows "t_dtype t' = t_dtype (T k)"
proof -
  obtain u where u: "set_shape (T k) v None None = Inr (st, u)" "T(k := u) = T(k := t')"
    using assms by (auto simp: out_shape_def elim!: bindE_InrE)
  have "u = t'" using fun_upd_eqD [OF u(2)] .
  then show ?thesis using set_shape_dtype [OF u(1)] by simp
qed

lemma permute_shape_ok:
  assumes s: "plain (t_valid (T x))" and o: "axes_order (length (dat (t_valid (T x)))) order" and k: "settable (T k)" "k \<noteq> x"
  shows "\<exists>t'. permute_shape order [x] [k] T = Inr (SaberSuccess, T(k := t')) \<and> settable t' \<and> t_dtype t' = t_dtype (T k) \<and>
    t_valid t' = (t_valid (T x))\<lparr>dat := permuted order (dat (t_valid (T x)))\<rparr>"
proof -
  let ?s = "t_valid (T x)" let ?v = "?s\<lparr>dat := permuted order (dat ?s)\<rparr>"
  have "permute_dims order T [x] 0 = Inr ?v"
    using permute_fill [of order ?s "dat ?s" 0] axes_order_length [OF o] o plain_dense [OF s]
    by (simp add: permute_dims_def in_valid_def tens_def valid_shape_def at_def dense_wf axes_order_def check_def)
  moreover obtain t' where t': "out_shape [k] 0 ?v T = Inr (SaberSuccess, T(k := t'))" "settable t'" "t_valid t' = ?v"
    using out_shape_settable [of T k ?v "[k]" 0] k plain_dense [OF permuted_dense [OF s o]] by (auto simp: at_def)
  ultimately show ?thesis using out_shape_dtype [OF t'(1)] by (intro exI [of _ t']) (simp add: permute_shape_def each_input_def at_def)
qed

end
