(* ===== verification/Shuffle_Facts.thy ===== *)
theory Shuffle_Facts
  imports Move_Facts
begin

text \<open>
  The channel shuffle: where an element comes from, as a function of its position, and the slicing and
  joining of data along an axis.
\<close>

section \<open>Positions in mixed radix\<close>

lemma radix_div: "0 \<le> r \<Longrightarrow> r < b \<Longrightarrow> (a * b + r) div b = (a :: int)"
  by simp

lemma radix_mod: "0 \<le> r \<Longrightarrow> r < b \<Longrightarrow> (a * b + r) mod b = (r :: int)"
  by simp

lemma radix_bound:
  assumes "0 \<le> a" "a < m" "0 \<le> r" "r < (b :: int)"
  shows "0 \<le> a * b + r \<and> a * b + r < m * b"
proof -
  have "(a + 1) * b \<le> m * b" using assms by (intro mult_right_mono) auto
  then show ?thesis using assms by (auto simp: distrib_right)
qed

lemma radix_digits:
  assumes "0 < b" "0 \<le> p" "p < m * (b :: int)"
  shows "p = p div b * b + p mod b" "0 \<le> p div b" "p div b < m" "0 \<le> p mod b" "p mod b < b"
proof -
  show "p div b < m"
  proof (rule ccontr)
    assume "\<not> p div b < m"
    then have "m * b \<le> p div b * b" using assms(1) by (intro mult_right_mono) auto
    also have "\<dots> \<le> p" using assms(1) pos_mod_sign [of b p] div_mult_mod_eq [of p b] by linarith
    finally show False using assms(3) by simp
  qed
qed (use assms in \<open>simp_all add: pos_imp_zdiv_nonneg_iff\<close>)

lemma functional_moves: "(\<And>d s. (d, s) \<in> P \<Longrightarrow> s = f d) \<Longrightarrow> single_valued P"
  by (auto simp: single_valued_def)

section \<open>Channel shuffle\<close>

text \<open>The channel an output channel comes from, and the position an output position comes from.\<close>

definition shuffled :: "int \<Rightarrow> int \<Rightarrow> int \<Rightarrow> int" where
  "shuffled g q c = c mod g * q + c div g"

definition shuffle_source :: "int \<Rightarrow> int \<Rightarrow> int \<Rightarrow> int \<Rightarrow> int" where
  "shuffle_source g q len p =
     p div (g * q * len) * (g * q * len) + (shuffled g q (p mod (g * q * len) div len) * len + p mod (g * q * len) mod len)"

lemma shuffled_bound: "0 < g \<Longrightarrow> 0 \<le> c \<Longrightarrow> c < q * g \<Longrightarrow> 0 \<le> shuffled g q c \<and> shuffled g q c < g * q"
  unfolding shuffled_def using radix_digits [of g c q] radix_bound [of "c mod g" g "c div g" q] by simp

lemma shuffled_back:
  assumes "0 < g" "0 \<le> c" "c < q * g"
  shows "shuffled q g (shuffled g q c) = c"
  using radix_digits [OF assms] by (simp add: shuffled_def)

lemma shuffle_source_at:
  assumes "0 < g" "0 < q" "0 \<le> i" "i < g" "0 \<le> j" "j < q" "0 \<le> r" "r < len"
  shows "shuffle_source g q len (a * (g * q * len) + ((j * g + i) * len + r)) = a * (g * q * len) + ((i * q + j) * len + r)"
proof -
  have c: "0 \<le> j * g + i \<and> j * g + i < q * g" by (rule radix_bound) (use assms in auto)
  have b: "0 \<le> (j * g + i) * len + r \<and> (j * g + i) * len + r < g * q * len"
    using radix_bound [of "j * g + i" "g * q" r len] c assms by (simp add: mult.commute)
  have "shuffled g q (j * g + i) = i * q + j" using assms by (simp add: shuffled_def)
  then show ?thesis
    using b assms(7,8) unfolding shuffle_source_def by (simp only: radix_div radix_mod)
qed

lemma shuffle_position:
  fixes p :: int
  assumes "0 < g" "0 < q" "0 < len" "0 \<le> p" "p < n * (g * q * len)"
  obtains a i j r where "0 \<le> a" "a < n" "0 \<le> i" "i < g" "0 \<le> j" "j < q" "0 \<le> r" "r < len"
    "p = a * (g * q * len) + ((j * g + i) * len + r)"
proof -
  let ?C = "g * q * len" let ?m = "p mod ?C" let ?c = "?m div len"
  have C: "0 < ?C" using assms by simp
  note P = radix_digits [OF C assms(4,5)]
  have m: "?m < q * g * len" using P(5) by (simp add: mult.commute)
  note M = radix_digits [OF assms(3) P(4) m]
  note K = radix_digits [OF assms(1) M(2,3)]
  have "p = p div ?C * ?C + ((?c div g * g + ?c mod g) * len + ?m mod len)"
    using P(1) M(1) K(1) by simp
  then show ?thesis by (rule that [OF P(2,3) K(4,5) K(2,3) M(4,5)])
qed

lemma shuffle_source_back:
  assumes "0 < g" "0 < q" "0 < len" "0 \<le> p" "p < n * (g * q * len)"
  shows "0 \<le> shuffle_source g q len p \<and> shuffle_source g q len p < n * (g * q * len)"
    "shuffle_source g q len (shuffle_source q g len p) = p"
proof -
  obtain a i j r where d: "0 \<le> a" "a < n" "0 \<le> i" "i < g" "0 \<le> j" "j < q" "0 \<le> r" "r < len"
    "p = a * (g * q * len) + ((j * g + i) * len + r)"
    by (rule shuffle_position [OF assms])
  have "0 \<le> i * q + j \<and> i * q + j < g * q" by (rule radix_bound) (use d in auto)
  then have "0 \<le> (i * q + j) * len + r \<and> (i * q + j) * len + r < g * q * len"
    by (intro radix_bound) (use d in auto)
  then show "0 \<le> shuffle_source g q len p \<and> shuffle_source g q len p < n * (g * q * len)"
    unfolding d(9) shuffle_source_at [OF assms(1,2) d(3-8)] by (intro radix_bound) (use d in auto)
next
  have c: "q * g * len = g * q * len" by simp
  obtain a i j r where d: "0 \<le> a" "a < n" "0 \<le> i" "i < q" "0 \<le> j" "j < g" "0 \<le> r" "r < len"
    "p = a * (q * g * len) + ((j * q + i) * len + r)"
    using shuffle_position [OF assms(2,1,3,4)] assms(5) unfolding c by metis
  show "shuffle_source g q len (shuffle_source q g len p) = p"
    unfolding d(9) shuffle_source_at [OF assms(2,1) d(3-8)]
    using shuffle_source_at [OF assms(1,2) d(5,6,3,4,7,8)] unfolding c .
qed

text \<open>The kernel moves exactly these pairs.\<close>

lemma does_shuffle:
  assumes g: "0 < g" "0 < q" "0 < len" "0 \<le> n" and ne: "k \<noteq> x"
    and a: "n * (g * q * len) \<le> int a" and b: "n * (g * q * len) \<le> int b"
  shows "does k x a b ((\<lambda>p. (p, shuffle_source g q len p)) ` {0..<n * (g * q * len)})
    (loop n (\<lambda>i. shuffle_kernel k x (i * (g * q * len)) g q len))"
proof -
  let ?C = "g * q * len"
  let ?B = "\<lambda>m i j. block_moves (m * ?C + (j * g + i) * len) (m * ?C + (i * q + j) * len) len"
  let ?P = "\<Union>m \<in> {0..<n}. \<Union>i \<in> {0..<g}. \<Union>j \<in> {0..<q}. ?B m i j"
  have pairs: "(d, s) \<in> ?P \<longleftrightarrow> (0 \<le> d \<and> d < n * ?C \<and> s = shuffle_source g q len d)" for d s
  proof
    assume "(d, s) \<in> ?P"
    then obtain m i j r where z: "0 \<le> m" "m < n" "0 \<le> i" "i < g" "0 \<le> j" "j < q" "0 \<le> r" "r < len"
      "d = m * ?C + ((j * g + i) * len + r)" "s = m * ?C + ((i * q + j) * len + r)"
      by (auto simp: block_moves_def)
    have "0 \<le> j * g + i \<and> j * g + i < q * g" by (rule radix_bound) (use z in auto)
    then have "0 \<le> (j * g + i) * len + r \<and> (j * g + i) * len + r < q * g * len"
      by (intro radix_bound) (use z in auto)
    then have "0 \<le> d \<and> d < n * ?C"
      unfolding z(9) by (intro radix_bound) (use z in \<open>auto simp: mult.commute\<close>)
    then show "0 \<le> d \<and> d < n * ?C \<and> s = shuffle_source g q len d"
      unfolding z(9,10) using shuffle_source_at [OF g(1,2) z(3-8)] by simp
  next
    assume d: "0 \<le> d \<and> d < n * ?C \<and> s = shuffle_source g q len d"
    then obtain m i j r where z: "0 \<le> m" "m < n" "0 \<le> i" "i < g" "0 \<le> j" "j < q" "0 \<le> r" "r < len"
      "d = m * ?C + ((j * g + i) * len + r)"
      using shuffle_position [OF g(1-3)] by metis
    have "s = m * ?C + ((i * q + j) * len + r)" using d shuffle_source_at [OF g(1,2) z(3-8)] z(9) by simp
    then have "(d, s) = (m * ?C + (j * g + i) * len + r, m * ?C + (i * q + j) * len + r)" using z(9) by simp
    then have "(d, s) \<in> ?B m i j" using z(7,8) unfolding block_moves_def by (intro image_eqI) auto
    then show "(d, s) \<in> ?P" using z(1-6) by (intro UN_I) auto
  qed
  have sv: "single_valued Q" if "Q \<subseteq> ?P" for Q
    by (rule functional_moves [of _ "shuffle_source g q len"]) (use that pairs in blast)
  have block: "does k x a b (?B m i j) (el_copy k (m * ?C + (j * g + i) * len) x (m * ?C + (i * q + j) * len) len)"
    if z: "0 \<le> m" "m < n" "0 \<le> i" "i < g" "0 \<le> j" "j < q" for m i j
  proof -
    have c: "(m + 1) * ?C \<le> n * ?C" using z g by (intro mult_right_mono) auto
    have "0 \<le> j * g + i \<and> j * g + i < q * g" "0 \<le> i * q + j \<and> i * q + j < g * q"
      using radix_bound [of j q i g] radix_bound [of i g j q] z by auto
    then have "0 \<le> (j * g + i) * len" "(j * g + i + 1) * len \<le> q * g * len" "0 \<le> (i * q + j) * len" "(i * q + j + 1) * len \<le> g * q * len"
      using g by (auto intro!: mult_right_mono)
    then have u: "0 \<le> (j * g + i) * len" "(j * g + i) * len + len \<le> ?C" "0 \<le> (i * q + j) * len" "(i * q + j) * len + len \<le> ?C"
      by (simp_all add: algebra_simps)
    have "0 \<le> m * ?C" "m * ?C + ?C \<le> n * ?C" using z(1) g c by (simp_all add: distrib_right)
    then show ?thesis using u a b g ne by (intro does_copy) linarith+
  qed
  let ?P2 = "\<lambda>m. \<Union>i \<in> {0..<g}. \<Union>j \<in> {0..<q}. ?B m i j"
  have up2: "?P2 m \<subseteq> ?P" if "0 \<le> m" "m < n" for m
    using UN_upper [of m "{0..<n}" ?P2] that by simp
  have up1: "(\<Union>j \<in> {0..<q}. ?B m i j) \<subseteq> ?P2 m" if "0 \<le> i" "i < g" for m i
    using UN_upper [of i "{0..<g}" "\<lambda>i. \<Union>j \<in> {0..<q}. ?B m i j"] that by simp
  have s1: "single_valued (\<Union>j \<in> {0..<q}. ?B m i j)" if "0 \<le> m" "m < n" "0 \<le> i" "i < g" for m i
    by (rule sv [OF subset_trans [OF up1 [OF that(3,4)] up2 [OF that(1,2)]]])
  have s2: "single_valued (?P2 m)" if "0 \<le> m" "m < n" for m by (rule sv [OF up2 [OF that]])
  have "does k x a b ?P (loop n (\<lambda>m. loop g (\<lambda>i. loop q (\<lambda>j. el_copy k (m * ?C + (j * g + i) * len) x (m * ?C + (i * q + j) * len) len))))"
    by (intro does_loop block s1 s2 sv ne subset_refl)
  moreover have "?P = (\<lambda>p. (p, shuffle_source g q len p)) ` {0..<n * ?C}"
  proof (rule set_eqI)
    fix z :: "int \<times> int"
    obtain d s where z: "z = (d, s)" by (cases z)
    show "z \<in> ?P \<longleftrightarrow> z \<in> (\<lambda>p. (p, shuffle_source g q len p)) ` {0..<n * ?C}" unfolding z pairs by auto
  qed
  ultimately show ?thesis unfolding shuffle_kernel_def by simp
qed

section \<open>One call on a tensor of four dimensions\<close>

definition nchw_own :: "tensor \<Rightarrow> int \<Rightarrow> int \<Rightarrow> int \<Rightarrow> int \<Rightarrow> bool" where
  "nchw_own t n c h w \<longleftrightarrow> t_valid t = mk_shape [n, c, h, w] Layout_NCHW"

lemma nchw_dims:
  assumes "nchw_own t n c h w"
  shows "tensor_num t = Inr n" "tensor_channel t = Inr c" "tensor_height t = Inr h" "tensor_width t = Inr w"
  using assms
  by (simp_all add: nchw_own_def tensor_num_def tensor_channel_def tensor_height_def tensor_width_def
      num_def channel_def height_def width_def num_index_def channel_index_def height_index_def width_index_def
      index_of_def dim_or_one_def deref_layout_def at_def)

lemma shuffle_dispatch_ok:
  assumes t: "nchw_own (T x) n (g * q) h w" and p: "0 < n" "0 < g" "0 < q" "0 < h" "0 < w" and ne: "k \<noteq> x"
    and len: "n * (g * q * (h * w)) \<le> int (length (D k))" "n * (g * q * (h * w)) \<le> int (length (D x))"
  shows "\<exists>D'. shuffle_channel_dispatch g [x] [k] T D = Inr (SaberSuccess, T, D') \<and>
    moved k x ((\<lambda>p. (p, shuffle_source g q (h * w) p)) ` {0..<n * (g * q * (h * w))}) D D'"
proof -
  have hw: "0 < h * w" "0 \<le> n" using p by simp_all
  obtain D' where D': "loop n (\<lambda>i. shuffle_kernel k x (i * (g * q * (h * w))) g q (h * w)) D = Inr D'"
    "moved k x ((\<lambda>p. (p, shuffle_source g q (h * w) p)) ` {0..<n * (g * q * (h * w))}) D D'"
    using does_run [OF does_shuffle [OF p(2,3) hw ne len] refl refl] by blast
  have q: "cdiv (g * q) g = Inr q" using p by (simp add: cdiv_pos)
  have at1: "at [x] 0 = Inr x" "at [k] 0 = Inr k" by (simp_all add: at_def)
  have a: "g * q * h * w = g * q * (h * w)" by simp
  show ?thesis
    unfolding shuffle_channel_dispatch_def at1 bindE_simps nchw_dims [OF t] q a
    using D' by (intro exI [of _ D']) simp
qed

end
