(* ===== verification/Slice_Facts.thy ===== *)
theory Slice_Facts
  imports Shuffle_Facts Inference_Facts
begin

text \<open>
  The loops of the slice and the concatenation kernels over their outputs and inputs. Of a tensor with
  \<open>N\<close> rows in front of the axis, \<open>A\<close> along it and \<open>Z\<close> elements behind it, the piece of extent
  \<open>w\<close> from \<open>off\<close> holds at position \<open>j\<close> the element at \<open>piece_source A Z off w j\<close>.
\<close>

section \<open>One piece\<close>

definition piece_source :: "int \<Rightarrow> int \<Rightarrow> int \<Rightarrow> int \<Rightarrow> int \<Rightarrow> int" where
  "piece_source A Z off w j = j mod (w * Z) + (j div (w * Z) * A + off) * Z"

lemma piece_source_at:
  assumes "0 \<le> n" "0 \<le> a" "a < w" "0 \<le> r" "r < Z"
  shows "piece_source A Z off w (n * (w * Z) + (a * Z + r)) = (n * A + (off + a)) * Z + r"
proof -
  have b: "0 \<le> a * Z + r \<and> a * Z + r < w * Z" by (rule radix_bound) (use assms in auto)
  then have d: "(n * (w * Z) + (a * Z + r)) mod (w * Z) = a * Z + r" "(n * (w * Z) + (a * Z + r)) div (w * Z) = n"
    using radix_mod radix_div by blast+
  show ?thesis unfolding piece_source_def d by (simp add: algebra_simps)
qed

lemma piece_source_bound:
  assumes "0 < w" "0 < Z" "0 \<le> off" "off + w \<le> A" "0 \<le> j" "j < N * (w * Z)"
  shows "0 \<le> piece_source A Z off w j \<and> piece_source A Z off w j < N * A * Z"
proof -
  have wz: "0 < w * Z" using assms by simp
  note P = radix_digits [OF wz assms(5,6)]
  have "off * Z + w * Z \<le> A * Z" using assms(2,4) mult_right_mono [of "off + w" A Z] by (simp add: distrib_right)
  then have "0 \<le> j mod (w * Z) + off * Z" "j mod (w * Z) + off * Z < A * Z" using P(4,5) assms(2,3) by auto
  then have "0 \<le> j div (w * Z) * (A * Z) + (j mod (w * Z) + off * Z) \<and> j div (w * Z) * (A * Z) + (j mod (w * Z) + off * Z) < N * (A * Z)"
    by (intro radix_bound P)
  moreover have "piece_source A Z off w j = j div (w * Z) * (A * Z) + (j mod (w * Z) + off * Z)"
    by (simp add: piece_source_def algebra_simps)
  ultimately show ?thesis by (simp add: mult.assoc)
qed

section \<open>The loop of the slice over its outputs\<close>

text \<open>\<open>sliced A Z N off X os ws D\<close> says that the tensors \<open>os\<close> hold the pieces of extents \<open>ws\<close> of \<open>X\<close>
  from \<open>off\<close> on.\<close>

fun sliced :: "int \<Rightarrow> int \<Rightarrow> int \<Rightarrow> int \<Rightarrow> 'a list \<Rightarrow> nat list \<Rightarrow> int list \<Rightarrow> 'a elements \<Rightarrow> bool" where
  "sliced A Z N off X (o' # os) (w # ws) D \<longleftrightarrow>
     (\<forall>j. 0 \<le> j \<and> j < N * (w * Z) \<longrightarrow> D o' ! nat j = X ! nat (piece_source A Z off w j)) \<and> sliced A Z N (off + w) X os ws D"
| "sliced A Z N off X _ _ D \<longleftrightarrow> True"

lemma sliced_cong:
  "length os = length ws \<Longrightarrow> (\<And>m. m \<in> set os \<Longrightarrow> D' m = D m) \<Longrightarrow> sliced A Z N off X os ws D' = sliced A Z N off X os ws D"
  by (induction os ws arbitrary: off rule: list_induct2) auto

text \<open>The shapes of the pieces and the room their tensors have.\<close>

fun pieces_fit :: "shape \<Rightarrow> int \<Rightarrow> int \<Rightarrow> tensors \<Rightarrow> 'a elements \<Rightarrow> nat list \<Rightarrow> int list \<Rightarrow> bool" where
  "pieces_fit s axis R T D (o' # os) (w # ws) \<longleftrightarrow>
     0 < w \<and> t_valid (T o') = piece s axis w \<and> R * w \<le> int (length (D o')) \<and> pieces_fit s axis R T D os ws"
| "pieces_fit s axis R T D _ _ \<longleftrightarrow> True"

lemma pieces_fit_cong:
  "length os = length ws \<Longrightarrow> (\<And>m. m \<in> set os \<Longrightarrow> length (D' m) = length (D m)) \<Longrightarrow>
   pieces_fit s axis R T D' os ws = pieces_fit s axis R T D os ws"
  by (induction os ws rule: list_induct2) auto

lemma fit_pos: "length os = length ws \<Longrightarrow> pieces_fit s axis R T D os ws \<Longrightarrow> w \<in> set ws \<Longrightarrow> 0 < w"
  by (induction os ws rule: list_induct2) auto

lemma slice_output_ok:
  assumes s: "dense (piece s axis w)" "0 \<le> axis" "nat axis < length (dat s)"
    and o: "t_valid (T k) = piece s axis w" "k \<noteq> x" and p: "0 < w" "0 < Z" "0 \<le> off" "off + w \<le> A" "0 \<le> N"
    and len: "N * Z * w \<le> int (length (D k))" "N * A * Z \<le> int (length (D x))"
  shows "\<exists>D'. slice_output N Z axis A x k T (off, D) = Inr (off + w, D') \<and> (\<forall>m. m \<noteq> k \<longrightarrow> D' m = D m) \<and>
    length (D' k) = length (D k) \<and> (\<forall>j. 0 \<le> j \<and> j < N * (w * Z) \<longrightarrow> D' k ! nat j = D x ! nat (piece_source A Z off w j))"
proof -
  have wz: "0 < w * Z" using p by simp
  let ?f = "\<lambda>j D. bindE (cdiv j (w * Z)) (\<lambda>a. bindE (cmod j (w * Z)) (\<lambda>b. el_move k j x (b + (a * A + off) * Z) D))"
  have each: "does k x (length (D k)) (length (D x)) {(j, piece_source A Z off w j)} (?f j)" if j: "0 \<le> j" "j < w * Z * N" for j
  proof -
    have jn: "j < N * (w * Z)" using j(2) by (simp add: mult.commute)
    note b = piece_source_bound [OF p(1-4) j(1) jn]
    have r: "cdiv j (w * Z) = Inr (j div (w * Z))" "cmod j (w * Z) = Inr (j mod (w * Z))"
      using j(1) wz by (simp_all add: cdiv_pos cmod_pos)
    have "j < N * Z * w" using jn by (simp add: mult.commute mult.left_commute)
    then show ?thesis
      unfolding r bindE_simps piece_source_def [symmetric]
      by (intro does_move) (use j b len in auto)
  qed
  have sv: "single_valued (\<Union>j \<in> {0..<w * Z * N}. {(j, piece_source A Z off w j)})" by (auto simp: single_valued_def)
  obtain D' where D': "loop (w * Z * N) ?f D = Inr D'" "moved k x (\<Union>j \<in> {0..<w * Z * N}. {(j, piece_source A Z off w j)}) D D'"
    using does_run [OF does_loop [OF o(2) each sv] refl refl] by blast
  have "D' k ! nat j = D x ! nat (piece_source A Z off w j)" if "0 \<le> j" "j < N * (w * Z)" for j
    by (rule moved_at [OF D'(2)]) (use that in \<open>auto simp: mult.commute\<close>)
  moreover have "valid_shape (T k) = Inr (piece s axis w)"
    using dense_wf [OF s(1)] by (simp add: valid_shape_def o(1))
  moreover have "at (dat (piece s axis w)) axis = Inr w" using s(2,3) by (simp add: at_def piece_def)
  ultimately show ?thesis
    using D' by (intro exI [of _ D']) (simp add: slice_output_def Let_def moved_def)
qed

lemma slice_loop:
  assumes s: "dense s" "0 \<le> axis" "nat axis < length (dat s)" "nat axis \<noteq> 4" and A: "A = dat s ! nat axis" and p: "0 < Z" "0 \<le> N"
  shows "length os = length ws \<Longrightarrow> distinct os \<Longrightarrow> x \<notin> set os \<Longrightarrow> pieces_fit s axis (N * Z) T D os ws \<Longrightarrow>
    0 \<le> off \<Longrightarrow> off + sum_list ws \<le> A \<Longrightarrow> N * A * Z \<le> int (length (D x)) \<Longrightarrow>
    \<exists>D'. foldE (\<lambda>k. slice_output N Z axis A x k T) os (off, D) = Inr (off + sum_list ws, D') \<and>
      (\<forall>m. m \<notin> set os \<longrightarrow> D' m = D m) \<and> (\<forall>m. length (D' m) = length (D m)) \<and> sliced A Z N off (D x) os ws D'"
proof (induction os ws arbitrary: off D rule: list_induct2)
  case Nil
  then show ?case by simp
next
  case (Cons k os w ws)
  have ws: "0 \<le> sum_list ws" using fit_pos [OF Cons.hyps(1), of s axis "N * Z" T D] Cons.prems(3)
    by (intro sum_list_nonneg) (force intro: less_imp_le)
  have w: "0 < w" "t_valid (T k) = piece s axis w" "N * Z * w \<le> int (length (D k))" "off + w \<le> A" "w \<le> dat s ! nat axis" "k \<noteq> x"
    using Cons.prems ws A by auto
  note dp = piece_dense [OF s(1-3) w(1,5) s(4)]
  obtain D1 where D1: "slice_output N Z axis A x k T (off, D) = Inr (off + w, D1)" "\<forall>m. m \<noteq> k \<longrightarrow> D1 m = D m"
    "length (D1 k) = length (D k)" "\<forall>j. 0 \<le> j \<and> j < N * (w * Z) \<longrightarrow> D1 k ! nat j = D x ! nat (piece_source A Z off w j)"
    using slice_output_ok [where T = T and k = k and x = x and D = D, OF dp s(2,3) w(2,6,1) p(1) Cons.prems(4) w(4) p(2) w(3) Cons.prems(6)] by blast
  have len: "length (D1 m) = length (D m)" for m using D1(2,3) by (cases "m = k") auto
  have x: "D1 x = D x" using D1(2) not_sym [OF w(6)] by blast
  have "pieces_fit s axis (N * Z) T D1 os ws"
    using Cons.prems(3) pieces_fit_cong [OF Cons.hyps(1), of D1 D] len by simp
  then obtain D2 where D2: "foldE (\<lambda>k. slice_output N Z axis A x k T) os (off + w, D1) = Inr (off + w + sum_list ws, D2)"
    "\<forall>m. m \<notin> set os \<longrightarrow> D2 m = D1 m" "\<forall>m. length (D2 m) = length (D1 m)" "sliced A Z N (off + w) (D x) os ws D2"
    using Cons.IH [of D1 "off + w"] Cons.prems w x len by auto
  have "D2 k = D1 k" using D2(2) Cons.prems(1) by simp
  then show ?case using D1 D2 len by (intro exI [of _ D2]) (auto simp: add.assoc)
qed

section \<open>The loop of the concatenation over its inputs\<close>

lemma concat_input_ok:
  assumes s: "dense (piece s axis w)" "0 \<le> axis" "nat axis < length (dat s)"
    and o: "t_valid (T x) = piece s axis w" "k \<noteq> x" and p: "0 < w" "0 < Z" "0 \<le> off" "off + w \<le> A" "0 \<le> N"
    and len: "N * A * Z \<le> int (length (D k))" "N * Z * w \<le> int (length (D x))"
  shows "\<exists>D'. concat_input N Z axis A k x T (off, D) = Inr (off + w, D') \<and> (\<forall>m. m \<noteq> k \<longrightarrow> D' m = D m) \<and>
    length (D' k) = length (D k) \<and>
    (\<forall>n a r. 0 \<le> n \<and> n < N \<and> 0 \<le> a \<and> a < A \<and> 0 \<le> r \<and> r < Z \<longrightarrow> D' k ! nat ((n * A + a) * Z + r) =
       (if off \<le> a \<and> a < off + w then D x ! nat (n * (w * Z) + ((a - off) * Z + r)) else D k ! nat ((n * A + a) * Z + r)))"
proof -
  let ?P = "\<lambda>n. block_moves ((n * A + off) * Z) (n * w * Z) (w * Z)"
  let ?Q = "\<Union>n \<in> {0..<N}. ?P n"
  have wz: "0 < w * Z" and A: "0 < A" using p by auto
  have offZ: "0 \<le> off * Z" "off * Z + w * Z \<le> A * Z"
    using p mult_right_mono [of "off + w" A Z] by (simp_all add: distrib_right)
  have each: "does k x (length (D k)) (length (D x)) (?P n) (el_copy k ((n * A + off) * Z) x (n * w * Z) (w * Z))"
    if n: "0 \<le> n" "n < N" for n
  proof -
    have "(n + 1) * (A * Z) \<le> N * (A * Z)" "(n + 1) * (w * Z) \<le> N * (w * Z)"
      using n wz A p(2) by (auto intro!: mult_right_mono)
    then have u: "n * (A * Z) + A * Z \<le> N * (A * Z)" "n * (w * Z) + w * Z \<le> N * (w * Z)" by (simp_all add: distrib_right)
    have e: "(n * A + off) * Z = n * (A * Z) + off * Z" "n * w * Z = n * (w * Z)" "N * A * Z = N * (A * Z)" "N * Z * w = N * (w * Z)"
      by (simp_all add: algebra_simps)
    have "0 \<le> n * (A * Z)" "0 \<le> n * (w * Z)" using n wz A p(2) by auto
    then show ?thesis
      unfolding e using u offZ len [unfolded e] wz o(2) by (intro does_copy) linarith+
  qed
  have pair: "\<exists>n a r. 0 \<le> n \<and> n < N \<and> 0 \<le> a \<and> a < w \<and> 0 \<le> r \<and> r < Z \<and> d = (n * A + (off + a)) * Z + r \<and> t = n * (w * Z) + (a * Z + r)"
    if mem: "(d, t) \<in> ?Q" for d t
  proof -
    obtain n where n0: "n \<in> {0..<N}" "(d, t) \<in> ?P n" using mem by blast
    then obtain i where i: "i \<in> {0..<w * Z}" "(d, t) = ((n * A + off) * Z + i, n * w * Z + i)"
      unfolding block_moves_def by blast
    have n: "0 \<le> n" "n < N" "0 \<le> i" "i < w * Z" "d = (n * A + off) * Z + i" "t = n * w * Z + i"
      using n0(1) i by auto
    note I = radix_digits [OF p(2) n(3,4)]
    have "d = (n * A + (off + i div Z)) * Z + i mod Z" "t = n * (w * Z) + (i div Z * Z + i mod Z)"
      using n(5,6) I(1) by (simp_all add: algebra_simps)
    then show ?thesis using n(1,2) I(2-5) by blast
  qed
  have at_digits: "n = n' \<and> a = a' \<and> r = r'"
    if "(n * A + a) * Z + r = (n' * A + a') * Z + r'" "0 \<le> r" "r < Z" "0 \<le> r'" "r' < Z" "0 \<le> a" "a < A" "0 \<le> a'" "a' < A" for n n' a a' r r'
  proof -
    have "r = r'" "n * A + a = n' * A + a'" using that(1) radix_mod [of r Z] radix_mod [of r' Z] radix_div [of r Z] radix_div [of r' Z] that(2-5) by metis+
    then show ?thesis using radix_mod [of a A] radix_mod [of a' A] radix_div [of a A] radix_div [of a' A] that(6-9) by metis
  qed
  have sv: "single_valued ?Q"
  proof (rule single_valuedI)
    fix d t u assume "(d, t) \<in> ?Q" "(d, u) \<in> ?Q"
    then obtain n a r n' a' r' where v: "0 \<le> n" "0 \<le> a" "a < w" "0 \<le> r" "r < Z" "d = (n * A + (off + a)) * Z + r" "t = n * (w * Z) + (a * Z + r)"
      "0 \<le> a'" "a' < w" "0 \<le> r'" "r' < Z" "d = (n' * A + (off + a')) * Z + r'" "u = n' * (w * Z) + (a' * Z + r')"
      using pair by meson
    have "n = n' \<and> off + a = off + a' \<and> r = r'" by (rule at_digits) (use v p in auto)
    then show "t = u" using v by simp
  qed
  obtain D' where D': "loop N (\<lambda>n. el_copy k ((n * A + off) * Z) x (n * w * Z) (w * Z)) D = Inr D'" "moved k x ?Q D D'"
    using does_run [OF does_loop [OF o(2) each sv] refl refl] by blast
  have "D' k ! nat ((n * A + a) * Z + r) = (if off \<le> a \<and> a < off + w then D x ! nat (n * (w * Z) + ((a - off) * Z + r)) else D k ! nat ((n * A + a) * Z + r))"
    if z: "0 \<le> n" "n < N" "0 \<le> a" "a < A" "0 \<le> r" "r < Z" for n a r
  proof (cases "off \<le> a \<and> a < off + w")
    case True
    have i: "0 \<le> (a - off) * Z + r \<and> (a - off) * Z + r < w * Z" by (rule radix_bound) (use True z in auto)
    have "((n * A + a) * Z + r, n * (w * Z) + ((a - off) * Z + r))
        = ((n * A + off) * Z + ((a - off) * Z + r), n * w * Z + ((a - off) * Z + r))" by (simp add: algebra_simps)
    also have "\<dots> \<in> ?P n" using i unfolding block_moves_def by (intro image_eqI) auto
    finally have "((n * A + a) * Z + r, n * (w * Z) + ((a - off) * Z + r)) \<in> ?Q" using z by (intro UN_I [of n]) auto
    then show ?thesis using moved_at [OF D'(2)] True by simp
  next
    case False
    let ?p = "(n * A + a) * Z + r"
    have "0 \<le> n * A + a \<and> n * A + a < N * A" by (rule radix_bound) (use z in auto)
    then have p: "0 \<le> ?p \<and> ?p < N * A * Z" by (intro radix_bound) (use z in auto)
    have "?p \<notin> fst ` ?Q"
    proof
      assume "?p \<in> fst ` ?Q"
      then obtain q where q: "?p = fst q" "q \<in> ?Q" by (rule imageE)
      have "(fst q, snd q) \<in> ?Q" using q(2) by (simp only: prod.collapse)
      then obtain t where "(?p, t) \<in> ?Q" unfolding q(1) by blast
      then obtain n' a' r' where v: "0 \<le> a'" "a' < w" "0 \<le> r'" "r' < Z" "?p = (n' * A + (off + a')) * Z + r'" using pair by meson
      have "n = n' \<and> a = off + a' \<and> r = r'" by (rule at_digits) (use v z \<open>0 \<le> off\<close> \<open>off + w \<le> A\<close> in auto)
      then show False using False v by auto
    qed
    then have "D' k ! nat ?p = D k ! nat ?p" using moved_other [OF D'(2)] p len(1) by simp
    then show ?thesis unfolding if_not_P [OF False] .
  qed
  moreover have "valid_shape (T x) = Inr (piece s axis w)" using dense_wf [OF s(1)] by (simp add: valid_shape_def o(1))
  moreover have "at (dat (piece s axis w)) axis = Inr w" using s(2,3) by (simp add: at_def piece_def)
  ultimately show ?thesis
    using D' o(2) by (intro exI [of _ D']) (simp add: concat_input_def moved_def)
qed

definition joined :: "int \<Rightarrow> int \<Rightarrow> int \<Rightarrow> int \<Rightarrow> int \<Rightarrow> 'a list \<Rightarrow> 'a list \<Rightarrow> 'a list \<Rightarrow> bool" where
  "joined A Z N off off' X ys ys' \<longleftrightarrow>
     (\<forall>n a r. 0 \<le> n \<and> n < N \<and> 0 \<le> a \<and> a < A \<and> 0 \<le> r \<and> r < Z \<longrightarrow> ys' ! nat ((n * A + a) * Z + r) =
       (if off \<le> a \<and> a < off' then X ! nat ((n * A + a) * Z + r) else ys ! nat ((n * A + a) * Z + r)))"

lemma joinedD:
  "joined A Z N off off' X ys ys' \<Longrightarrow> 0 \<le> n \<Longrightarrow> n < N \<Longrightarrow> 0 \<le> a \<Longrightarrow> a < A \<Longrightarrow> 0 \<le> r \<Longrightarrow> r < Z \<Longrightarrow>
   ys' ! nat ((n * A + a) * Z + r) = (if off \<le> a \<and> a < off' then X ! nat ((n * A + a) * Z + r) else ys ! nat ((n * A + a) * Z + r))"
  unfolding joined_def by blast

lemma joined_refl: "joined A Z N off off X ys ys"
  unfolding joined_def
proof (intro allI impI)
  fix n a r :: int
  have "\<not> (off \<le> a \<and> a < off)" by simp
  then show "ys ! nat ((n * A + a) * Z + r) = (if off \<le> a \<and> a < off then X ! nat ((n * A + a) * Z + r) else ys ! nat ((n * A + a) * Z + r))"
    by (simp only: if_False)
qed

lemma joined_trans:
  assumes "joined A Z N off mid X ys zs" "joined A Z N mid off' X zs us" "off \<le> mid" "mid \<le> off'"
  shows "joined A Z N off off' X ys us"
  unfolding joined_def
proof (intro allI impI)
  fix n a r :: int
  assume z: "0 \<le> n \<and> n < N \<and> 0 \<le> a \<and> a < A \<and> 0 \<le> r \<and> r < Z"
  then show "us ! nat ((n * A + a) * Z + r) = (if off \<le> a \<and> a < off' then X ! nat ((n * A + a) * Z + r) else ys ! nat ((n * A + a) * Z + r))"
    using joinedD [OF assms(1), of n a r] joinedD [OF assms(2), of n a r] assms(3,4) by auto
qed

lemma concat_loop:
  assumes s: "dense s" "0 \<le> axis" "nat axis < length (dat s)" "nat axis \<noteq> 4" and A: "A = dat s ! nat axis" and p: "0 < Z" "0 \<le> N"
  shows "length os = length ws \<Longrightarrow> z \<notin> set os \<Longrightarrow> pieces_fit s axis (N * Z) T D os ws \<Longrightarrow> sliced A Z N off X os ws D \<Longrightarrow>
    0 \<le> off \<Longrightarrow> off + sum_list ws \<le> A \<Longrightarrow> N * A * Z \<le> int (length (D z)) \<Longrightarrow>
    \<exists>D'. foldE (\<lambda>x. concat_input N Z axis A z x T) os (off, D) = Inr (off + sum_list ws, D') \<and>
      (\<forall>m. m \<noteq> z \<longrightarrow> D' m = D m) \<and> length (D' z) = length (D z) \<and> joined A Z N off (off + sum_list ws) X (D z) (D' z)"
proof (induction os ws arbitrary: off D rule: list_induct2)
  case Nil
  then show ?case by (simp add: joined_refl)
next
  case (Cons k os w ws)
  have ws: "0 \<le> sum_list ws" using fit_pos [OF Cons.hyps(1), of s axis "N * Z" T D] Cons.prems(2)
    by (intro sum_list_nonneg) (force intro: less_imp_le)
  have w: "0 < w" "t_valid (T k) = piece s axis w" "N * Z * w \<le> int (length (D k))" "off + w \<le> A" "w \<le> dat s ! nat axis" "z \<noteq> k"
    using Cons.prems ws A by auto
  note dp = piece_dense [OF s(1-3) w(1,5) s(4)]
  obtain D1 where D1: "concat_input N Z axis A z k T (off, D) = Inr (off + w, D1)" "\<forall>m. m \<noteq> z \<longrightarrow> D1 m = D m"
    "length (D1 z) = length (D z)"
    "\<forall>n a r. 0 \<le> n \<and> n < N \<and> 0 \<le> a \<and> a < A \<and> 0 \<le> r \<and> r < Z \<longrightarrow> D1 z ! nat ((n * A + a) * Z + r) =
       (if off \<le> a \<and> a < off + w then D k ! nat (n * (w * Z) + ((a - off) * Z + r)) else D z ! nat ((n * A + a) * Z + r))"
    using concat_input_ok [where T = T and k = z and x = k and D = D, OF dp s(2,3) w(2,6,1) p(1) Cons.prems(4) w(4) p(2) Cons.prems(6) w(3)]
    by blast
  have src: "D k ! nat (n * (w * Z) + ((a - off) * Z + r)) = X ! nat ((n * A + a) * Z + r)"
    if v: "0 \<le> n" "n < N" "0 \<le> r" "r < Z" "off \<le> a" "a < off + w" for n a r
  proof -
    have "0 \<le> (a - off) * Z + r \<and> (a - off) * Z + r < w * Z" by (rule radix_bound) (use v in auto)
    then have "0 \<le> n * (w * Z) + ((a - off) * Z + r) \<and> n * (w * Z) + ((a - off) * Z + r) < N * (w * Z)"
      by (intro radix_bound) (use v in auto)
    then have "D k ! nat (n * (w * Z) + ((a - off) * Z + r)) = X ! nat (piece_source A Z off w (n * (w * Z) + ((a - off) * Z + r)))"
      using Cons.prems(3) by simp
    also have "piece_source A Z off w (n * (w * Z) + ((a - off) * Z + r)) = (n * A + a) * Z + r"
      using piece_source_at [of n "a - off" w r Z A off] v by simp
    finally show ?thesis .
  qed
  have j: "joined A Z N off (off + w) X (D z) (D1 z)"
    unfolding joined_def using D1(4) src by auto
  have eq: "D1 m = D m" if "m \<in> set os" for m using that D1(2) Cons.prems(1) by auto
  have "pieces_fit s axis (N * Z) T D1 os ws" "sliced A Z N (off + w) X os ws D1"
    using Cons.prems(2,3) pieces_fit_cong [OF Cons.hyps(1), of D1 D] sliced_cong [OF Cons.hyps(1), of D1 D] eq by simp_all
  then obtain D2 where D2: "foldE (\<lambda>x. concat_input N Z axis A z x T) os (off + w, D1) = Inr (off + w + sum_list ws, D2)"
    "\<forall>m. m \<noteq> z \<longrightarrow> D2 m = D1 m" "length (D2 z) = length (D1 z)" "joined A Z N (off + w) (off + w + sum_list ws) X (D1 z) (D2 z)"
    using Cons.IH [of D1 "off + w"] Cons.prems w D1(3) by auto
  have "joined A Z N off (off + w + sum_list ws) X (D z) (D2 z)"
    by (rule joined_trans [OF j D2(4)]) (use w ws in auto)
  then show ?case using D1 D2 by (intro exI [of _ D2]) (auto simp: add.assoc)
qed

section \<open>The sizes the kernels are created with\<close>

lemma sizes_of_piece:
  assumes "t_valid t = piece s axis w" "dense (piece s axis w)" "0 \<le> axis" "nat axis < length (dat s)"
  shows "count_valid t 0 axis = Inr (prod_list (take (nat axis) (dat s)))"
    "count_valid t (axis + 1) (tensor_dims t) = Inr (prod_list (drop (Suc (nat axis)) (dat s)))"
proof -
  have wf: "wf_shape (piece s axis w)" "unaligned (piece s axis w)" using assms(2) by (auto simp: dense_def)
  have d: "dims (piece s axis w) = int (length (dat s))" by (simp add: dims_def piece_def)
  have n: "nat (axis + 1) = Suc (nat axis)" "nat (int (length (dat s)) - (axis + 1)) = length (dat s) - Suc (nat axis)"
    using assms(3,4) by linarith+
  show "count_valid t 0 axis = Inr (prod_list (take (nat axis) (dat s)))"
    using count_range_dense [OF wf, of 0 axis] d assms(1,3,4) by (simp add: count_valid_def piece_def)
  show "count_valid t (axis + 1) (tensor_dims t) = Inr (prod_list (drop (Suc (nat axis)) (dat s)))"
    using count_range_dense [OF wf, of "axis + 1" "int (length (dat s))"] d assms(1,3,4)
    by (simp add: count_valid_def tensor_dims_def n) (simp add: piece_def)
qed

end
