(* ===== verification/Move_Properties.thy ===== *)
theory Move_Properties
  imports Permute_Facts Slice_Facts Sequence_Shapes
begin

text \<open>
  What the data movement kernels compute, for tensors that are no regions, and where they go wrong.
\<close>

section \<open>Permutation\<close>

text \<open>The abstract tensor: the element at an index vector.\<close>

definition entry :: "tensor \<Rightarrow> 'a list \<Rightarrow> int list \<Rightarrow> 'a" where
  "entry t xs ix = xs ! nat (row_pos (dat (t_valid t)) ix)"

text \<open>The steps of one call: the shape of the output, the initialisation of the kernel, its dispatch.\<close>

definition permute_run :: "int list \<Rightarrow> nat \<Rightarrow> nat \<Rightarrow> tensors \<Rightarrow> 'a elements \<Rightarrow> (saber_status \<times> tensors \<times> 'a elements) outcome" where
  "permute_run order x k T D =
     bindE (permute_shape order [x] [k] T) (\<lambda>(_, T'). bindE (permute_init order [x] T') (\<lambda>need.
     permute_dispatch need order [x] [k] T' D))"

lemma mapE_at:
  "mapE (at xs) [int k..int (length xs) - 1] = Inr (drop k xs)" if "k \<le> length xs"
  using that
proof (induction "length xs - k" arbitrary: k)
  case (Suc m)
  then have k: "k < length xs" by simp
  then have up: "[int k..int (length xs) - 1] = int k # [int (Suc k)..int (length xs) - 1]"
    by (simp add: upto_rec1 add.commute)
  have "mapE (at xs) [int (Suc k)..int (length xs) - 1] = Inr (drop (Suc k) xs)"
    by (rule Suc.hyps(1)) (use Suc.hyps(2) k in auto)
  then show ?case unfolding up using k by (simp add: at_def Cons_nth_drop_Suc)
qed simp

lemma permute_init_ok:
  assumes "dense (t_valid (T x))" "axes_order (length (dat (t_valid (T x)))) order"
  shows "permute_init order [x] T = Inr (order \<noteq> [0..int (length order) - 1])"
  using assms mapE_at [of 0 order] axes_order_length [OF assms(2)]
  by (simp add: permute_init_def in_valid_def tens_def valid_shape_def at_def dense_wf check_def dims_def axes_order_def distinct_remdups_id)

lemma own_stride:
  assumes "dense (t_valid t)" "\<not> t_subbuf t"
  obtains st where "tensor_stride t = Inr st" "dat st = dense_strides (dat (t_valid t))"
  using stride_is_dense [OF assms(1)] assms(2) by (auto simp: tensor_stride_def)

text \<open>The loop over the output on contiguous memory.\<close>

lemma permute_loop:
  assumes S: "all_pos S" and o: "axes_order (length S) order" and ne: "k \<noteq> x"
    and len: "prod_list S \<le> int (length (D k))" "prod_list S \<le> int (length (D x))"
  defines "So \<equiv> permuted order S"
  shows "\<exists>D'. loop (prod_list S) (\<lambda>j D. bindE (permute_source order (dense_strides So) (dense_strides S) (int (length S)) j)
        (\<lambda>i. el_move k j x i D)) D = Inr D' \<and> (\<forall>m. m \<noteq> k \<longrightarrow> D' m = D m) \<and>
     (\<forall>ix. in_box S ix \<longrightarrow> D' k ! nat (row_pos So (permuted order ix)) = D x ! nat (row_pos S ix))"
proof -
  have So: "all_pos So" "length So = length S" "prod_list So = prod_list S"
    using S o axes_order_length [OF o] prod_permuted [OF o refl] by (auto simp: So_def permuted_def axes_order_def)
  let ?src = "\<lambda>j. dot (unrow So j) (permuted order (dense_strides S))"
  let ?f = "\<lambda>j D. bindE (permute_source order (dense_strides So) (dense_strides S) (int (length S)) j) (\<lambda>i. el_move k j x i D)"
  have src: "permute_source order (dense_strides So) (dense_strides S) (int (length S)) j = Inr (?src j)"
    if "0 \<le> j" "j < prod_list S" for j
    using permute_source_ok [of So order "dense_strides S" j] So o that by simp
  have bound: "0 \<le> ?src j \<and> ?src j < prod_list S" if j: "0 \<le> j" "j < prod_list S" for j
  proof -
    have y: "in_box So (unrow So j)" using unrow_props [OF So(1) j(1)] j(2) So(3) by simp
    obtain ix where ix: "in_box S ix" "permuted order ix = unrow So j"
      using permuted_onto [OF o refl y [unfolded So_def]] unfolding So_def by blast
    have "length ix = length S" using ix(1) by (simp add: in_box_def list_all2_lengthD)
    then have "?src j = row_pos S ix"
      using dot_permuted [OF o, of ix "dense_strides S"] dot_dense [of ix S] unfolding ix(2) by simp
    then show ?thesis using row_pos_bounds [OF ix(1) S] by simp
  qed
  have each: "does k x (length (D k)) (length (D x)) {(j, ?src j)} (?f j)" if "0 \<le> j" "j < prod_list S" for j
    unfolding src [OF that] bindE_simps
    by (rule does_move) (use that bound [OF that] len in auto)
  have sv: "single_valued (\<Union>j \<in> {0..<prod_list S}. {(j, ?src j)})" by (auto simp: single_valued_def)
  obtain D' where D': "loop (prod_list S) ?f D = Inr D'" "moved k x (\<Union>j \<in> {0..<prod_list S}. {(j, ?src j)}) D D'"
    using does_run [OF does_loop [OF ne each sv] refl refl] by blast
  have "D' k ! nat (row_pos So (permuted order ix)) = D x ! nat (row_pos S ix)" if ix: "in_box S ix" for ix
  proof -
    have box: "in_box So (permuted order ix)" unfolding So_def by (rule permuted_box [OF o refl ix])
    note b = row_pos_bounds [OF box So(1)]
    have "permute_source order (dense_strides So) (dense_strides S) (int (length S)) (row_pos So (permuted order ix))
        = Inr (row_pos S ix)"
      unfolding So_def by (rule permute_source_index [OF S o ix])
    then have "?src (row_pos So (permuted order ix)) = row_pos S ix" using src b So(3) by simp
    then have "(row_pos So (permuted order ix), row_pos S ix) \<in> (\<Union>j \<in> {0..<prod_list S}. {(j, ?src j)})"
      using b So(3) by force
    then show ?thesis by (rule moved_at [OF D'(2)])
  qed
  then show ?thesis using D' by (auto simp: moved_def)
qed

lemma permuted_id: "permuted [0..int (length xs) - 1] xs = xs"
proof (rule nth_equalityI)
  fix i assume "i < length (permuted [0..int (length xs) - 1] xs)"
  then have "i < length xs" by simp
  then have "[0..int (length xs) - 1] ! i = int i" by (simp add: nth_upto)
  then show "permuted [0..int (length xs) - 1] xs ! i = xs ! i"
    using \<open>i < length xs\<close> by (simp add: permuted_def)
qed simp

lemma copy_whole_ok:
  assumes dt: "t_dtype (T x) = t_dtype (T k)" and v: "dense (t_valid (T k))" "dense (t_valid (T x))"
    "prod_list (dat (t_valid (T k))) = prod_list (dat (t_valid (T x)))" and ne: "k \<noteq> x"
    and len: "prod_list (dat (t_valid (T k))) \<le> int (length (D k))" "prod_list (dat (t_valid (T k))) \<le> int (length (D x))"
  shows "\<exists>D'. copy_whole k x T D = Inr D' \<and> (\<forall>m. m \<noteq> k \<longrightarrow> D' m = D m) \<and>
    (\<forall>p. 0 \<le> p \<and> p < prod_list (dat (t_valid (T k))) \<longrightarrow> D' k ! nat p = D x ! nat p)"
proof -
  let ?n = "prod_list (dat (t_valid (T k)))"
  have n: "0 \<le> ?n" using dense_prod(1) [OF v(1)] by simp
  obtain D' where D': "el_copy k 0 x 0 ?n D = Inr D'" "moved k x (block_moves 0 0 ?n) D D'"
    using does_run [OF does_copy [of ?n 0 "length (D k)" 0 "length (D x)" k x] refl refl] n len ne by auto
  have "D' k ! nat p = D x ! nat p" if "0 \<le> p" "p < ?n" for p
    by (rule moved_at [OF D'(2)]) (use that in \<open>force simp: block_moves_def\<close>)
  then show ?thesis
    using D' dt v by (auto simp: copy_whole_def get_dtype_def valid_size_def dense_count check_def moved_def)
qed

text \<open>C9: The permutation kernel implements the permutation of abstract tensors. For an input that is
  no region, of a dense shape without aligned channels, and an order that is a permutation of its axes,
  the steps of a call return: the output has the permuted shape, its element at the permuted index vector
  is the element of the input at the index vector, and no other tensor changes.\<close>

theorem permute_refines:
  assumes x: "plain (t_valid (T x))" "\<not> t_subbuf (T x)" and k: "settable (T k)" "k \<noteq> x" "t_dtype (T k) = t_dtype (T x)"
    and o: "axes_order (length (dat (t_valid (T x)))) order"
    and len: "prod_list (dat (t_valid (T x))) \<le> int (length (D k))" "prod_list (dat (t_valid (T x))) \<le> int (length (D x))"
  shows "\<exists>T' D'. permute_run order x k T D = Inr (SaberSuccess, T', D') \<and>
    dat (t_valid (T' k)) = permuted order (dat (t_valid (T x))) \<and> (\<forall>m. m \<noteq> k \<longrightarrow> T' m = T m \<and> D' m = D m) \<and>
    (\<forall>ix. in_box (dat (t_valid (T x))) ix \<longrightarrow> entry (T' k) (D' k) (permuted order ix) = entry (T x) (D x) ix)"
proof -
  let ?s = "t_valid (T x)" let ?S = "dat ?s" let ?v = "?s\<lparr>dat := permuted order ?S\<rparr>"
  note n = axes_order_length [OF o]
  obtain t' where t': "permute_shape order [x] [k] T = Inr (SaberSuccess, T(k := t'))" "settable t'"
    "t_dtype t' = t_dtype (T k)" "t_valid t' = ?v"
    using permute_shape_ok [of T x order k] x o k by blast
  let ?T = "T(k := t')"
  have Tx: "?T x = T x" and Tk: "?T k = t'" using k(2) by auto
  have v: "dense ?s" "dense ?v" "prod_list (permuted order ?S) = prod_list ?S"
    using x plain_dense permuted_dense [OF x(1) o] prod_permuted [OF o refl] by auto
  have init: "permute_init order [x] ?T = Inr (order \<noteq> [0..int (length order) - 1])"
    by (rule permute_init_ok) (use v o Tx in simp_all)
  have "\<exists>D'. permute_dispatch (order \<noteq> [0..int (length order) - 1]) order [x] [k] ?T D = Inr (SaberSuccess, ?T, D') \<and>
      (\<forall>m. m \<noteq> k \<longrightarrow> D' m = D m) \<and> (\<forall>ix. in_box ?S ix \<longrightarrow> entry t' (D' k) (permuted order ix) = entry (T x) (D x) ix)"
  proof (cases "order = [0..int (length order) - 1]")
    case True
    have id: "permuted order xs = xs" if "length xs = length ?S" for xs
      using permuted_id [of xs] True n that by simp
    obtain D' where D': "copy_whole k x ?T D = Inr D'" "\<forall>m. m \<noteq> k \<longrightarrow> D' m = D m"
      "\<And>p. 0 \<le> p \<Longrightarrow> p < prod_list ?S \<Longrightarrow> D' k ! nat p = D x ! nat p"
      using copy_whole_ok [of ?T x k D] v k t' len Tx Tk id [of ?S] by auto
    have "entry t' (D' k) (permuted order ix) = entry (T x) (D x) ix" if ix: "in_box ?S ix" for ix
      using D'(3) row_pos_bounds [OF ix dense_pos [OF v(1)]] id [of ix] id [of ?S] t'(4) ix
      by (simp add: entry_def in_box_def list_all2_lengthD)
    then show ?thesis
      using D'(1,2) True by (intro exI [of _ D']) (simp add: permute_dispatch_def at_def)
  next
    case False
    obtain D' where D': "loop (prod_list ?S) (\<lambda>j D. bindE (permute_source order (dense_strides (permuted order ?S)) (dense_strides ?S) (int (length ?S)) j)
        (\<lambda>i. el_move k j x i D)) D = Inr D'" "\<forall>m. m \<noteq> k \<longrightarrow> D' m = D m"
      "\<And>ix. in_box ?S ix \<Longrightarrow> D' k ! nat (row_pos (permuted order ?S) (permuted order ix)) = D x ! nat (row_pos ?S ix)"
      using permute_loop [OF dense_pos [OF v(1)] o k(2) len] by blast
    have own: "\<not> t_subbuf t'" using t'(2) by (simp add: settable_def)
    have dt: "dense (t_valid t')" using v(2) unfolding t'(4) .
    obtain a where a0: "tensor_stride t' = Inr a" "dat a = dense_strides (dat (t_valid t'))" by (rule own_stride [OF dt own])
    have a: "tensor_stride t' = Inr a" "dat a = dense_strides (permuted order ?S)" using a0 by (simp_all add: t'(4))
    obtain b where b: "tensor_stride (T x) = Inr b" "dat b = dense_strides ?S" by (rule own_stride [OF v(1) x(2)])
    have nar: "narrow32 (prod_list ?S) = prod_list ?S"
      using dense_prod [OF v(1)] by (simp add: narrow32_nonneg)
    have ats: "at [x] 0 = Inr x" "at [k] 0 = Inr k" by (simp_all add: at_def)
    have sizes: "valid_size t' = Inr (prod_list ?S)"
      using v(2,3) by (simp add: valid_size_def t'(4) dense_count)
    have shapes: "valid_shape (T x) = Inr ?s" "valid_shape t' = Inr ?v"
      using dense_wf [OF v(1)] dense_wf [OF v(2)] by (simp_all add: valid_shape_def t'(4))
    have cont: "both_continue x k ?T = Inr True"
      unfolding both_continue_def Tx Tk is_continue_mem_def using own x(2) by simp
    have d: "dims ?s = int (length ?S)" by (simp add: dims_def)
    note facts = ats Tx Tk sizes shapes a(1) b(1) cont d
    have "permute_dispatch True order [x] [k] ?T D = Inr (SaberSuccess, ?T, D')"
      unfolding permute_dispatch_def facts bindE_simps a(2) b(2) nar not_True_eq_False if_False if_True D'(1) by (rule refl)
    then show ?thesis using D'(2,3) False t'(4) by (auto simp: entry_def)
  qed
  then show ?thesis using t'(1,4) init by (auto simp: permute_run_def)
qed

section \<open>Channel shuffle\<close>

text \<open>C28: The channel shuffle is undone by the shuffle with the number of channels of a group. For an
  NCHW input of \<open>g * q\<close> channels, shuffling it with \<open>g\<close> groups into one tensor and that one with
  \<open>q\<close> groups into a third returns, and the third holds the elements of the input.\<close>

theorem shuffle_channel_roundtrip:
  assumes t: "nchw_own (T x) n (g * q) h w" "nchw_own (T k) n (g * q) h w" and p: "0 < n" "0 < g" "0 < q" "0 < h" "0 < w"
    and ne: "k \<noteq> x" "z \<noteq> k" "z \<noteq> x"
    and len: "\<And>m. m \<in> {x, k, z} \<Longrightarrow> length (D m) = nat (n * (g * q * (h * w)))"
  shows "\<exists>D1 D2. shuffle_channel_dispatch g [x] [k] T D = Inr (SaberSuccess, T, D1) \<and>
    shuffle_channel_dispatch q [k] [z] T D1 = Inr (SaberSuccess, T, D2) \<and> D2 z = D x"
proof -
  let ?N = "n * (g * q * (h * w))"
  have hw: "0 < h * w" and N: "0 \<le> ?N" using p by simp_all
  have c: "q * g = g * q" by simp
  have L: "int (length (D m)) = ?N" if "m \<in> {x, k, z}" for m using len [OF that] N by simp
  obtain D1 where D1: "shuffle_channel_dispatch g [x] [k] T D = Inr (SaberSuccess, T, D1)"
    "moved k x ((\<lambda>p. (p, shuffle_source g q (h * w) p)) ` {0..<?N}) D D1"
    using shuffle_dispatch_ok [of T x n g q h w k D] t(1) p ne(1) L by auto
  have L1: "length (D1 k) = length (D k)" "D1 z = D z" using D1(2) ne by (simp_all add: moved_def)
  obtain D2 where D2: "shuffle_channel_dispatch q [k] [z] T D1 = Inr (SaberSuccess, T, D2)"
    "moved z k ((\<lambda>p. (p, shuffle_source q g (h * w) p)) ` {0..<?N}) D1 D2"
    using shuffle_dispatch_ok [of T k n q g h w z D1] t(2) p ne(2) L L1 by (auto simp: c)
  have "D2 z ! i = D x ! i" if i: "i < length (D x)" for i
  proof -
    have r: "0 \<le> int i" "int i < ?N" "int i < n * (q * g * (h * w))" using i L [of x] by (simp_all add: c)
    let ?s = "shuffle_source q g (h * w) (int i)"
    have s: "?s \<in> {0..<?N}" using shuffle_source_back(1) [OF p(3,2) hw r(1,3)] by (simp add: c)
    have "D2 z ! nat (int i) = D1 k ! nat ?s" by (rule moved_at [OF D2(2)]) (use r in auto)
    also have "\<dots> = D x ! nat (shuffle_source g q (h * w) ?s)"
      by (rule moved_at [OF D1(2)]) (use s in blast)
    also have "\<dots> = D x ! i" using shuffle_source_back(2) [OF p(2,3) hw r(1,2)] by simp
    finally show ?thesis by simp
  qed
  moreover have "length (D2 z) = length (D x)" using D2(2) L1 len [of x] len [of z] by (simp add: moved_def)
  ultimately show ?thesis using D1(1) D2(1) by (auto intro: nth_equalityI)
qed

section \<open>Slice and concatenation\<close>

lemma prod_segments:
  "i < length xs \<Longrightarrow> prod_list (xs[i := w]) = prod_list (take i xs) * prod_list (drop (Suc i) xs) * (w :: int)"
  by (simp add: upd_conv_take_nth_drop mult.commute mult.left_commute)

definition holds_piece :: "shape \<Rightarrow> int \<Rightarrow> tensors \<Rightarrow> 'a elements \<Rightarrow> nat \<Rightarrow> int \<Rightarrow> bool" where
  "holds_piece s axis T D k w \<longleftrightarrow>
     0 < w \<and> t_valid (T k) = piece s axis w \<and> length (D k) = nat (prod_list (dat (piece s axis w)))"

lemma pieces_fit_all:
  assumes "nat axis < length (dat s)" "list_all2 (holds_piece s axis T D) os ws"
  shows "pieces_fit s axis (prod_list (take (nat axis) (dat s)) * prod_list (drop (Suc (nat axis)) (dat s))) T D os ws"
  using assms(2)
proof (induction rule: list_all2_induct)
  case (Cons k os w ws)
  then show ?case using prod_segments [OF assms(1), of w] by (simp add: holds_piece_def piece_def)
qed simp

text \<open>C10: The concatenation kernel undoes the slice kernel on the data. If at least two outputs have the
  shapes of pieces that fill the axis of the input and every tensor has room for its elements, the kernels
  created for these shapes return, and the concatenation of the slices holds the elements of the input.\<close>

theorem slice_concat_data:
  assumes s: "dense s" "0 \<le> axis" "nat axis < length (dat s)" "nat axis \<noteq> 4"
    and x: "t_valid (T x) = s" "length (D x) = nat (prod_list (dat s))"
    and z: "t_valid (T z) = s" "length (D z) = nat (prod_list (dat s))" "z \<noteq> x"
    and outs: "2 \<le> length outs" "distinct outs" "x \<notin> set outs" "z \<notin> set outs"
    and ws: "list_all2 (holds_piece s axis T D) outs ws" "sum_list ws = dat s ! nat axis"
  shows "\<exists>n n' D1 T' D2. slice_create axis [x] T = Inr n \<and> slice_dispatch m n axis [x] outs T D = Inr (SaberSuccess, T, D1) \<and>
    concat_create axis outs T = Inr n' \<and> concat_dispatch n' axis outs [z] T D1 = Inr (SaberSuccess, T', D2) \<and> D2 z = D x"
proof -
  let ?A = "dat s ! nat axis" let ?N = "prod_list (take (nat axis) (dat s))" let ?Z = "prod_list (drop (Suc (nat axis)) (dat s))"
  have pos: "all_pos (dat s)" by (rule dense_pos [OF s(1)])
  have NZ: "0 < ?N" "0 < ?Z" "0 < ?A"
    using pos s(3) by (auto intro!: all_pos_prod dest: in_set_takeD in_set_dropD)
  have total: "prod_list (dat s) = ?N * ?A * ?Z"
    using prod_segments [OF s(3), of ?A] by (simp add: mult.commute mult.left_commute)
  have lens: "length outs = length ws" using ws(1) by (rule list_all2_lengthD)
  note fit = pieces_fit_all [OF s(3) ws(1)]
  have Dx: "?N * ?A * ?Z \<le> int (length (D x))" using x(2) total NZ by simp
  obtain k os where out0: "outs = k # os" "os \<noteq> []" using outs(1) by (cases outs) fastforce+
  obtain w us where "ws = w # us" using lens out0(1) by (cases ws) auto
  note out = out0(1) this out0(2)
  have k: "t_valid (T k) = piece s axis w" "0 < w" using ws(1) out by (auto simp: holds_piece_def)
  have us: "0 \<le> sum_list us" using fit_pos [OF lens fit] out by (intro sum_list_nonneg) (force intro: less_imp_le)
  have dk: "dense (piece s axis w)" using piece_dense [OF s(1-3) k(2) _ s(4)] ws(2) us out by simp
  have whole: "piece s axis ?A = s" by (rule piece_own [OF s(3)])
  have small: "narrow32 ?N = ?N" "narrow32 ?Z = ?Z"
  proof -
    have "?N * (?A * ?Z) < 2 ^ 31" "?Z * (?N * ?A) < 2 ^ 31" using dense_prod(2) [OF s(1)] total by (simp_all add: mult.commute mult.left_commute)
    moreover have "?N * 1 \<le> ?N * (?A * ?Z)" "?Z * 1 \<le> ?Z * (?N * ?A)"
      using NZ by (intro mult_left_mono; simp add: int_one_le_iff_zero_less)+
    ultimately have "?N < 2 ^ 31" "?Z < 2 ^ 31" by linarith+
    then show "narrow32 ?N = ?N" "narrow32 ?Z = ?Z" using NZ by (simp_all add: narrow32_nonneg)
  qed
  have made: "slice_create axis [x] T = Inr (?N, ?Z)" "concat_create axis outs T = Inr (?N, ?Z)"
    using sizes_of_piece [of "T x" s axis ?A] sizes_of_piece [OF k(1) dk s(2,3)] s x(1) whole small out
    by (simp_all add: slice_create_def concat_create_def tens_def at_def)
  obtain D1 where D1: "foldE (\<lambda>k. slice_output ?N ?Z axis ?A x k T) outs (0, D) = Inr (?A, D1)"
    "\<forall>m. m \<notin> set outs \<longrightarrow> D1 m = D m" "\<forall>m. length (D1 m) = length (D m)" "sliced ?A ?Z ?N 0 (D x) outs ws D1"
    using slice_loop [OF s refl NZ(2) less_imp_le [OF NZ(1)] lens outs(2,3) fit _ _ Dx] ws(2) by auto
  have "slice_dispatch m (?N, ?Z) axis [x] outs T D = Inr (SaberSuccess, T, D1)"
    using D1(1) out x(1) s dense_wf [OF s(1)]
    by (simp add: slice_dispatch_def in_valid_def tens_def valid_shape_def at_def)
  moreover have "pieces_fit s axis (?N * ?Z) T D1 outs ws" using fit pieces_fit_cong [OF lens, of D1 D] D1(3) by simp
  then obtain D2 where D2: "foldE (\<lambda>x. concat_input ?N ?Z axis ?A z x T) outs (0, D1) = Inr (?A, D2)"
    "length (D2 z) = length (D1 z)" "joined ?A ?Z ?N 0 ?A (D x) (D1 z) (D2 z)"
    using concat_loop [OF s refl NZ(2) less_imp_le [OF NZ(1)] lens outs(4), of T D1 0 "D x"] D1(3,4) ws(2) z(2) total NZ by auto
  have "D2 z ! i = D x ! i" if i: "i < length (D x)" for i
  proof -
    have r: "0 \<le> int i" "int i < ?N * ?A * ?Z" using i Dx unfolding x(2) total by linarith+
    note R = radix_digits [OF NZ(2) r]
    note Q = radix_digits [OF NZ(3) R(2,3)]
    have "int i = (int i div ?Z div ?A * ?A + int i div ?Z mod ?A) * ?Z + int i mod ?Z" using R(1) Q(1) by simp
    then show ?thesis using joinedD [OF D2(3) Q(2-5) R(4,5)] Q(4,5) by (metis nat_int)
  qed
  then have "D2 z = D x" using D2(2) D1(3) x(2) z(2) by (intro nth_equalityI) auto
  moreover have "\<exists>T'. concat_dispatch (?N, ?Z) axis outs [z] T D1 = Inr (SaberSuccess, T', D2)"
  proof -
    obtain l where l: "lay (piece s axis w) = LObj l" "layout_aligned_length l = -1"
      using dk by (auto simp: dense_def unaligned_def dest!: wf_shape_obj)
    then have "tensor_get_layout (T k) = Inr l" "l \<noteq> Layout_NCHW_C8R" by (auto simp: tensor_get_layout_def get_layout_def k(1))
    then show ?thesis
      using D2(1) out z(1) s dense_wf [OF s(1)]
      by (simp add: concat_dispatch_def in_valid_def tens_def valid_shape_def at_def of_in_def copy_seq_def seq_of_def out_seq_def)
  qed
  ultimately show ?thesis using made by blast
qed

section \<open>Kernels that go wrong\<close>

definition shaped :: "int list list \<Rightarrow> tensors" where
  "shaped xs k = plain_tensor (if k < length xs then xs ! k else [])"

definition elems :: "'a list list \<Rightarrow> 'a elements" where
  "elems xs k = (if k < length xs then xs ! k else [])"

definition two_sequences :: tensors where
  "two_sequences k = (plain_tensor [if k < 2 then 3 else 5, 1, 1, 1])\<lparr>t_seq := [[0, 2, 3]]\<rparr>"

text \<open>The expansion kernel overwrites rows it has yet to expand: for an axis other than the last one
  it copies within the output, from the front. Two rows with the elements 1 and 2, expanded twice along the
  second axis, give four times 1 and not 1, 1, 2, 2, in the inferred shape of two rows of two.\<close>

lemma expand_overwrites_rows:
  "(case bindE (expand_shape [1, 2, 1, 1] [0] [1] (shaped [[2, 1, 1, 1], [2, 1, 1, 1]]))
      (\<lambda>(_, T). expand_dispatch [1, 2, 1, 1] [0] [1] T (elems [[1, 2], [0, 0, 0, 0 :: int]])) of
    Inl _ \<Rightarrow> False
  | Inr (st, T, D) \<Rightarrow> st = SaberSuccess \<and> dat (t_valid (T 1)) = [2, 2, 1, 1] \<and> D 1 = [1, 1, 1, 1])"
  by code_simp

text \<open>The last axis is expanded from the input: two rows are repeated in order.\<close>

lemma expand_last_axis:
  "(case expand_dispatch [1, 1, 1, 2] [0] [1] (shaped [[2, 1, 1, 1], [2, 1, 1, 2]]) (elems [[1, 2], [0, 0, 0, 0 :: int]]) of
    Inl _ \<Rightarrow> False | Inr (st, T, D) \<Rightarrow> st = SaberSuccess \<and> D 1 = [1, 1, 2, 2])"
  by code_simp

text \<open>The sequence expansion copies from the wrong rows. For sequences of two rows and of one row with
  the elements 1, 2 and 3, to be repeated twice and once, it reads the third row at the index of the sequence
  and gives 1, 2, 1, 2, 2 and not 1, 2, 1, 2, 3; the offsets it leaves do not start with 0.\<close>

lemma sequence_expand_reads_wrong_row:
  "(case sequence_expand_dispatch [0, 1] [2] two_sequences (elems [[1, 2, 3], [], [0, 0, 0, 0, 0 :: int]]) of
    Inl _ \<Rightarrow> False
  | Inr (st, T, D) \<Rightarrow> st = SaberSuccess \<and> D 2 = [1, 2, 1, 2, 2] \<and> t_seq (T 2) = [[2, 4, 5]])"
  by code_simp

text \<open>The slice over two axes that are not neighbours ignores the axes between them: the columns 0 of both
  channels are 0, 2, 4, 6.\<close>

lemma slice_v2_skips_axis:
  "(case slice_v2_dispatch [0, 0] [1, 3] [0] [1] (shaped [[1, 2, 2, 2], [1, 2, 2, 1]])
      (elems [[0, 1, 2, 3, 4, 5, 6, 7], [0, 0, 0, 0 :: int]]) of
    Inl _ \<Rightarrow> False | Inr (st, T, D) \<Rightarrow> st = SaberSuccess \<and> D 1 = [0, 4, 0, 4])"
  by code_simp

text \<open>The windows of \<open>im2sequence\<close> are those of the padded image, which the input is not: with one row of
  padding above a single row the kernel reads behind the input.\<close>

definition padded_window :: im2seq_param where
  "padded_window = \<lparr>is_window_h = 1, is_window_w = 1, is_pad_up = 1, is_pad_down = 0, is_pad_left = 0, is_pad_right = 0,
     is_stride_h = 1, is_stride_w = 1, is_dilation_h = 1, is_dilation_w = 1\<rparr>"

lemma im2sequence_reads_padding:
  "(case bindE (im2sequence_create padded_window [0] (shaped [[1, 1, 1, 1], [2, 1, 1, 1]])) (\<lambda>z.
      im2sequence_dispatch padded_window z [0] [1] (shaped [[1, 1, 1, 1], [2, 1, 1, 1]]) (elems [[7], [0, 0 :: int]])) of
    Inl e \<Rightarrow> e = OutOfRange | Inr _ \<Rightarrow> False)"
  by code_simp

section \<open>Witnesses\<close>

theorem permute_refines_witness:
  "\<exists>T' D'. permute_run [0, 2, 3, 1] 0 1 (shaped [[1, 2, 2, 1], [1, 1, 1, 1]]) (elems [[1, 2, 3, 4 :: int], [0, 0, 0, 0]])
      = Inr (SaberSuccess, T', D') \<and> dat (t_valid (T' 1)) = [1, 2, 1, 2] \<and> entry (T' 1) (D' 1) [0, 0, 0, 1] = 3"
proof -
  let ?T = "shaped [[1, 2, 2, 1], [1, 1, 1, 1]]" let ?D = "elems [[1, 2, 3, 4 :: int], [0, 0, 0, 0]]" let ?o = "[0, 2, 3, 1] :: int list"
  have T: "t_valid (?T 0) = mk_shape [1, 2, 2, 1] Layout_NCHW" "\<not> t_subbuf (?T 0)" "t_dtype (?T 1) = t_dtype (?T 0)"
    by (simp_all add: shaped_def plain_tensor_def)
  have D: "?D 0 = [1, 2, 3, 4]" "length (?D 1) = 4" by (simp_all add: elems_def)
  have p: "plain (t_valid (?T 0))" using nchw_dense [of 1 2 2 1] by (simp add: plain_def T)
  have k: "settable (?T 1)" using nchw_dense [of 1 1 1 1] by (simp add: settable_def shaped_def dense_count)
  have o: "axes_order (length (dat (t_valid (?T 0)))) ?o" by (auto simp: axes_order_def T)
  obtain T' D' where r: "permute_run ?o 0 1 ?T ?D = Inr (SaberSuccess, T', D')"
    "dat (t_valid (T' 1)) = permuted ?o (dat (t_valid (?T 0)))"
    "\<And>ix. in_box (dat (t_valid (?T 0))) ix \<Longrightarrow> entry (T' 1) (D' 1) (permuted ?o ix) = entry (?T 0) (?D 0) ix"
    using permute_refines [OF p T(2) k _ T(3) o, of ?D] D by (auto simp: T)
  have "entry (T' 1) (D' 1) [0, 0, 0, 1] = 3"
    using r(3) [of "[0, 1, 0, 0]"] by (simp add: T D in_box_def permuted_def entry_def)
  moreover have "dat (t_valid (T' 1)) = [1, 2, 1, 2]" using r(2) by (simp add: T permuted_def)
  ultimately show ?thesis using r(1) by blast
qed

theorem shuffle_channel_roundtrip_witness:
  "\<exists>D1 D2. shuffle_channel_dispatch 2 [0] [1] (\<lambda>_. plain_tensor [1, 6, 1, 1]) (\<lambda>_. [1, 2, 3, 4, 5, 6 :: int]) = Inr (SaberSuccess, \<lambda>_. plain_tensor [1, 6, 1, 1], D1) \<and>
    shuffle_channel_dispatch 3 [1] [2] (\<lambda>_. plain_tensor [1, 6, 1, 1]) D1 = Inr (SaberSuccess, \<lambda>_. plain_tensor [1, 6, 1, 1], D2) \<and> D2 2 = [1, 2, 3, 4, 5, 6]"
  using shuffle_channel_roundtrip [of "\<lambda>_. plain_tensor [1, 6, 1, 1]" 0 1 2 3 1 1 1 2 "\<lambda>_. [1, 2, 3, 4, 5, 6 :: int]"]
  by (simp add: nchw_own_def)

theorem slice_concat_data_witness:
  "\<forall>m. \<exists>n n' D1 T' D2. slice_create 1 [0] (shaped [[1, 3, 1, 1], [1, 1, 1, 1], [1, 2, 1, 1], [1, 3, 1, 1]]) = Inr n \<and>
    slice_dispatch m n 1 [0] [1, 2] (shaped [[1, 3, 1, 1], [1, 1, 1, 1], [1, 2, 1, 1], [1, 3, 1, 1]]) (elems [[5, 6, 7], [0], [0, 0], [0, 0, 0 :: int]])
      = Inr (SaberSuccess, shaped [[1, 3, 1, 1], [1, 1, 1, 1], [1, 2, 1, 1], [1, 3, 1, 1]], D1) \<and>
    concat_create 1 [1, 2] (shaped [[1, 3, 1, 1], [1, 1, 1, 1], [1, 2, 1, 1], [1, 3, 1, 1]]) = Inr n' \<and>
    concat_dispatch n' 1 [1, 2] [3] (shaped [[1, 3, 1, 1], [1, 1, 1, 1], [1, 2, 1, 1], [1, 3, 1, 1]]) D1 = Inr (SaberSuccess, T', D2) \<and> D2 3 = [5, 6, 7]"
  using slice_concat_data [of "mk_shape [1, 3, 1, 1] Layout_NCHW" 1 "shaped [[1, 3, 1, 1], [1, 1, 1, 1], [1, 2, 1, 1], [1, 3, 1, 1]]" 0
      "elems [[5, 6, 7], [0], [0, 0], [0, 0, 0 :: int]]" 3 "[1, 2]" "[1, 2]"] nchw_dense [of 1 3 1 1]
  by (simp add: shaped_def elems_def holds_piece_def piece_def)

end
