(* ===== verification/Fusion_Pattern.thy ===== *)
theory Fusion_Pattern
  imports Virtual_Graph
begin

text \<open>
  The fusion of operators in a row: \<open>framework/graph/llvm/fusion/graph_pattern.h\<close> and \<open>.cpp\<close>, and the
  registered patterns of \<open>fusion_op_register.cpp\<close>. A pattern is a graph of its own; a chain of operators of
  the virtual graph that looks like it is replaced by one operator. \<open>_pattern_create\<close> is set and never called.
\<close>

section \<open>Patterns\<close>

datatype fusion = Fusion_None | IN_ORDER | IN_PARELLEL | GRAPH

text \<open>\<open>_type\<close> has no initialiser: \<open>None\<close> is the indeterminate value.\<close>

record pattern =
  pat_graph :: "(string, node, io) graph"
  fusion_op_name :: string
  pat_kind :: "fusion option"
  pat_level :: int

definition new_pattern :: pattern where
  "new_pattern = \<lparr>pat_graph = empty_graph, fusion_op_name = '''', pat_kind = None, pat_level = 0\<rparr>"

definition pat_name :: "string \<Rightarrow> pattern \<Rightarrow> pattern" where
  "pat_name n p = p\<lparr>fusion_op_name := n\<rparr>"

definition pat_type :: "fusion \<Rightarrow> pattern \<Rightarrow> pattern" where
  "pat_type t p = p\<lparr>pat_kind := Some t\<rparr>"

definition add_op_node :: "string \<Rightarrow> string \<Rightarrow> pattern \<Rightarrow> pattern" where
  "add_op_node nn op p =
     p\<lparr>pat_level := pat_level p + 1,
       pat_graph := add_vertex nn (set_op_name op (Node nn '''' None None [] [] [] 0 False)) (pat_graph p)\<rparr>"

text \<open>An arc of the given ends whose tensor has its name.\<close>

definition named_arc :: "string \<Rightarrow> string \<Rightarrow> (string, io) arc" where
  "named_arc b t = (let a = \<lparr>arc_bottom = b, arc_top = t, weight = io_default\<rparr>
     in a\<lparr>weight := io_default\<lparr>io_name := arc_name a\<rparr>\<rparr>)"

definition add_connect :: "string \<Rightarrow> string \<Rightarrow> pattern \<Rightarrow> pattern outcome" where
  "add_connect b t p =
     bindE (add_in_arc (named_arc b t) (pat_graph p)) (\<lambda>g. bindE (add_out_arc (named_arc b t) g) (\<lambda>g'.
     Inr (p\<lparr>pat_graph := g'\<rparr>)))"

section \<open>The registry\<close>

record registry =
  type_ids :: "string list"
  container :: "string \<Rightarrow> pattern option"

definition empty_registry :: registry where
  "empty_registry = \<lparr>type_ids = [], container = Map.empty\<rparr>"

definition register :: "string \<Rightarrow> registry \<Rightarrow> registry" where
  "register n r =
     (case container r n of None \<Rightarrow> \<lparr>type_ids = type_ids r @ [n], container = (container r)(n \<mapsto> new_pattern)\<rparr> | Some _ \<Rightarrow> r)"

definition get_pattern :: "registry \<Rightarrow> string \<Rightarrow> pattern outcome" where
  "get_pattern r n = (case container r n of None \<Rightarrow> Inl CheckFailed | Some p \<Rightarrow> Inr p)"

definition get_list_op_name_of :: "registry \<Rightarrow> fusion \<Rightarrow> string list outcome" where
  "get_list_op_name_of r t =
     foldE (\<lambda>n ns. bindE (get_pattern r n) (\<lambda>p. Inr (if pat_kind p = Some t then ns @ [n] else ns))) (type_ids r) []"

text \<open>\<open>srt\<close> is \<open>std::sort\<close> by decreasing level; the order of equal levels is unspecified.\<close>

definition get_list_op_name_in_fusion_order_of ::
    "((string \<times> int) list \<Rightarrow> (string \<times> int) list) \<Rightarrow> registry \<Rightarrow> fusion \<Rightarrow> string list outcome" where
  "get_list_op_name_in_fusion_order_of srt r t =
     bindE (get_list_op_name_of r t) (\<lambda>ns.
     bindE (mapE (\<lambda>n. bindE (get_pattern r n) (\<lambda>p. Inr (n, pat_level p))) ns) (\<lambda>xs.
     Inr (map fst (srt xs))))"

text \<open>The chain of calls behind \<open>REGISTER_GRAPH_FUSION_PATTERN\<close>, whose object is the registered one.\<close>

definition register_pattern :: "string \<times> fusion \<times> (string \<times> string) list \<times> (string \<times> string) list \<Rightarrow> registry \<Rightarrow> registry outcome" where
  "register_pattern d r =
     (case d of (n, t, ops, connects) \<Rightarrow>
      bindE (Inr (register n r)) (\<lambda>r1.
      bindE (get_pattern r1 n) (\<lambda>p.
      bindE (foldE (\<lambda>(b, tp). add_connect b tp) connects (fold (\<lambda>(nn, op). add_op_node nn op) ops (pat_type t (pat_name n p)))) (\<lambda>p'.
      Inr (r1\<lparr>container := (container r1)(n \<mapsto> p')\<rparr>)))))"

definition registered :: "(string \<times> fusion \<times> (string \<times> string) list \<times> (string \<times> string) list) list" where
  "registered = [
    (''DeconvRelu'', IN_ORDER, [(''conv_0'', ''Deconvolution''), (''relu_0'', ''ReLU'')], [(''conv_0'', ''relu_0'')]),
    (''DeconvBatchnormScaleRelu'', IN_ORDER,
      [(''conv_0'', ''Deconvolution''), (''batchnorm_0'', ''BatchNorm''), (''scale_0'', ''Scale''), (''relu_0'', ''ReLU'')],
      [(''conv_0'', ''batchnorm_0''), (''batchnorm_0'', ''scale_0''), (''scale_0'', ''relu_0'')]),
    (''DeconvBatchnormScale'', IN_ORDER,
      [(''conv_0'', ''Deconvolution''), (''batchnorm_0'', ''BatchNorm''), (''scale_0'', ''Scale'')],
      [(''conv_0'', ''batchnorm_0''), (''batchnorm_0'', ''scale_0'')]),
    (''DeconvBatchnorm'', IN_ORDER, [(''conv_0'', ''Deconvolution''), (''batchnorm_0'', ''BatchNorm'')], [(''conv_0'', ''batchnorm_0'')]),
    (''ConvRelu'', IN_ORDER, [(''conv_0'', ''Convolution''), (''relu_0'', ''ReLU'')], [(''conv_0'', ''relu_0'')]),
    (''PermutePower'', IN_ORDER, [(''permute_0'', ''Permute''), (''power_0'', ''Power'')], [(''permute_0'', ''power_0'')]),
    (''ConvReluPool'', IN_ORDER,
      [(''conv_0'', ''Convolution''), (''relu_0'', ''ReLU''), (''pooling_0'', ''Pooling'')],
      [(''conv_0'', ''relu_0''), (''relu_0'', ''pooling_0'')]),
    (''ConvBatchnormScaleReluPool'', IN_ORDER,
      [(''conv_0'', ''Convolution''), (''batchnorm_0'', ''BatchNorm''), (''scale_0'', ''Scale''), (''relu_0'', ''ReLU''), (''pooling_0'', ''Pooling'')],
      [(''conv_0'', ''batchnorm_0''), (''batchnorm_0'', ''scale_0''), (''scale_0'', ''relu_0''), (''relu_0'', ''pooling_0'')]),
    (''ConvBatchnormScaleRelu'', IN_ORDER,
      [(''conv_0'', ''Convolution''), (''batchnorm_0'', ''BatchNorm''), (''scale_0'', ''Scale''), (''relu_0'', ''ReLU'')],
      [(''conv_0'', ''batchnorm_0''), (''batchnorm_0'', ''scale_0''), (''scale_0'', ''relu_0'')]),
    (''ConvBatchnormScale'', IN_ORDER,
      [(''conv_0'', ''Convolution''), (''batchnorm_0'', ''BatchNorm''), (''scale_0'', ''Scale'')],
      [(''conv_0'', ''batchnorm_0''), (''batchnorm_0'', ''scale_0'')]),
    (''ConvScale'', IN_ORDER, [(''conv_0'', ''Convolution''), (''scale_0'', ''Scale'')], [(''conv_0'', ''scale_0'')]),
    (''ConvScaleRelu'', IN_ORDER,
      [(''conv_0'', ''Convolution''), (''scale_0'', ''Scale''), (''relu_0'', ''ReLU'')],
      [(''conv_0'', ''scale_0''), (''scale_0'', ''relu_0'')]),
    (''ConvBatchnorm'', IN_ORDER, [(''conv_0'', ''Convolution''), (''batchnorm_0'', ''BatchNorm'')], [(''conv_0'', ''batchnorm_0'')]),
    (''EltwiseRelu'', IN_ORDER, [(''eltwise_0'', ''Eltwise''), (''relu_0'', ''ReLU'')], [(''eltwise_0'', ''relu_0'')]),
    (''EltwiseActivation'', IN_ORDER, [(''eltwise_0'', ''Eltwise''), (''prelu_0'', ''Activation'')], [(''eltwise_0'', ''prelu_0'')]),
    (''ConvAffineChannel'', IN_ORDER, [(''conv_0'', ''Convolution''), (''affine_channel_0'', ''AffineChannel'')], [(''conv_0'', ''affine_channel_0'')]),
    (''ConvAffineChannelRelu'', IN_ORDER,
      [(''conv_0'', ''Convolution''), (''affine_channel_0'', ''AffineChannel''), (''relu_0'', ''ReLU'')],
      [(''conv_0'', ''affine_channel_0''), (''affine_channel_0'', ''relu_0'')]),
    (''SeqConcatSeqPoolSoftSign'', IN_ORDER,
      [(''seq_concat_0'', ''SequenceConcat''), (''seq_pool_0'', ''SequencePool''), (''soft_sign_0'', ''SoftSign'')],
      [(''seq_concat_0'', ''seq_pool_0''), (''seq_pool_0'', ''soft_sign_0'')]),
    (''ConvFusion'', IN_PARELLEL, [(''conv_0'', ''ConvBatchnormScaleRelu'')], []),
    (''DenseDense'', IN_ORDER, [(''dense_0'', ''Dense''), (''dense_1'', ''Dense'')], [(''dense_0'', ''dense_1'')])]"

definition fusion_registry :: "registry outcome" where
  "fusion_registry = foldE register_pattern registered empty_registry"

section \<open>Fusion of a chain\<close>

fun set_merge_names :: "string list \<Rightarrow> node \<Rightarrow> node" where
  "set_merge_names xs (Node n op fn pr ms ks mns l w) = Node n op fn pr ms ks xs l w"

text \<open>
  The while loop of \<open>IN_ORDER\<close>: one unit of fuel for each operator that is matched. The state holds
  \<open>vgraph_next_node\<close>, \<open>node_merge\<close> and \<open>pattern_node_name_saves\<close>; \<open>None\<close> is \<open>return -1\<close>. The loop also
  ends when the graph has no further operator and the pattern has.
\<close>

fun in_order_loop :: "nat \<Rightarrow> (string, node, io) graph \<Rightarrow> vgraph \<Rightarrow> arc_id list \<Rightarrow> arc_id list \<Rightarrow> node \<times> node \<times> string list
    \<Rightarrow> (node \<times> node \<times> string list) option outcome" where
  "in_order_loop k P G [] vits s = Inr (Some s)"
| "in_order_loop k P G (p # pits) [] s = Inr (Some s)"
| "in_order_loop 0 P G (p # pits) (v # vits) s = Inl OutOfFuel"
| "in_order_loop (Suc k) P G (p # pits) (v # vits) (nxt, merge, saves) =
     (if pits \<noteq> [] \<or> vits \<noteq> [] then Inr None
      else
        bindE (deref (vg G) v) (\<lambda>va.
        if \<not> check_pass G (arc_bottom va) (arc_top va) then Inr None
        else
          bindE (deref P p) (\<lambda>pa.
          bindE (vertex_at P (arc_top pa)) (\<lambda>pn. bindE (vertex_at (vg G) (arc_top va)) (\<lambda>vn.
          if op_name pn \<noteq> op_name vn then Inr None
          else
            bindE (get_out_arc_its P (node_name pn)) (\<lambda>pits'. bindE (get_out_arc_its (vg G) (node_name vn)) (\<lambda>vits'.
            in_order_loop k P G pits' vits' (node_assign nxt vn, node_add merge (node_assign nxt vn), saves @ [node_name pn]))))))))"

text \<open>Updating the in-arc of one operator behind the chain: the first that comes from the last operator.\<close>

fun find_index :: "('a \<Rightarrow> bool outcome) \<Rightarrow> 'a list \<Rightarrow> nat \<Rightarrow> nat option outcome" where
  "find_index f [] i = Inr None"
| "find_index f (x # xs) i = bindE (f x) (\<lambda>b. if b then Inr (Some i) else find_index f xs (Suc i))"

definition redirect_in :: "string \<Rightarrow> string \<Rightarrow> string \<Rightarrow> vgraph \<Rightarrow> vgraph outcome" where
  "redirect_in merged last_name t G =
     bindE (get_in_arc_its (vg G) t) (\<lambda>its.
     bindE (find_index (\<lambda>i. bindE (deref (vg G) i) (\<lambda>a. Inr (arc_bottom a = last_name))) its 0) (\<lambda>idx.
     case idx of None \<Rightarrow> Inr G
     | Some i \<Rightarrow>
         bindE (update_in_arc (named_arc merged t) i (vg G)) (\<lambda>g.
         Inr (set_weight (its ! i) (\<lambda>w. w\<lparr>io_name := arc_name (named_arc merged t)\<rparr>) (G\<lparr>vg := g\<rparr>)))))"

definition drop_node :: "node \<Rightarrow> vgraph \<Rightarrow> vgraph outcome" where
  "drop_node n G = bindE (remove_vertex (node_name n) (vg G)) (\<lambda>g. Inr (G\<lparr>vg := g\<rparr>))"

definition connect_top :: "string \<Rightarrow> string \<Rightarrow> string \<Rightarrow> vgraph \<Rightarrow> vgraph outcome" where
  "connect_top merged old_bottom t G =
     bindE (add_out_arc (named_arc merged t) (vg G)) (\<lambda>g.
     Inr (add_fusion_edge_map (merged @ ''_'' @ t) (old_bottom @ ''_'' @ t) (G\<lparr>vg := g\<rparr>)))"

text \<open>\<open>param_node\<close> is a reference to the vertex \<open>v\<close>, which dangles when the vertex was removed.\<close>

definition store_node :: "string \<Rightarrow> node \<Rightarrow> vgraph \<Rightarrow> vgraph outcome" where
  "store_node v n G = (if has_vertex (vg G) v then upd_node v (\<lambda>m. node_assign m n) G else Inl DanglingDeref)"

definition replace_chain :: "string \<Rightarrow> string \<Rightarrow> node \<times> node \<times> string list \<Rightarrow> vgraph \<Rightarrow> vgraph outcome" where
  "replace_chain op v s G =
     (case s of (last_node, merge, saves) \<Rightarrow>
      let merged = set_op_name op merge
      in bindE (get_out_arc_its (vg G) (node_name last_node)) (\<lambda>its.
         bindE (mapE (\<lambda>i. bindE (deref (vg G) i) (\<lambda>a. Inr (arc_top a))) its) (\<lambda>tops.
         bindE (foldE (redirect_in (node_name merged) (node_name last_node)) tops G) (\<lambda>G1.
         bindE (foldE drop_node (merge_nodes merged) G1) (\<lambda>G2.
         bindE (foldE (connect_top (node_name merged) (node_name last_node)) tops G2) (\<lambda>G3.
         store_node v (set_merge_names saves merged) G3))))))"

text \<open>The functor of the search: it is given the pattern, and one unit of fuel for each operator of it.\<close>

definition search_in_order :: "pattern \<Rightarrow> string \<Rightarrow> vgraph \<Rightarrow> vgraph outcome" where
  "search_in_order p v G =
     (let P = pat_graph p
      in bindE (vertex_at (vg G) v) (\<lambda>param.
         bindE (get_graph_ins P) (\<lambda>ins. bindE (check (length ins = 1)) (\<lambda>_. bindE (vertex_at P (ins ! 0)) (\<lambda>pt.
         if op_name pt \<noteq> op_name param then Inr G
         else
           bindE (get_out_arc_its P (node_name pt)) (\<lambda>pits. bindE (get_out_arc_its (vg G) (node_name param)) (\<lambda>vits.
           if length pits \<noteq> 1 \<or> length vits \<noteq> 1 then Inr G
           else
             bindE (deref P (pits ! 0)) (\<lambda>pa. bindE (vertex_at P (arc_top pa)) (\<lambda>_.
             bindE (deref (vg G) (vits ! 0)) (\<lambda>va. bindE (vertex_at (vg G) (arc_top va)) (\<lambda>vn.
             bindE (in_order_loop (graph_size P) P G pits vits (node_copy vn, node_copy param, [])) (\<lambda>r.
             case r of None \<Rightarrow> Inr G | Some s \<Rightarrow> replace_chain (fusion_op_name p) v s G))))))))))))"

definition fuse_in_order :: "pattern \<Rightarrow> vgraph \<Rightarrow> vgraph outcome" where
  "fuse_in_order p G = scan_nodes id (search_in_order p) G"

end
