(* ===== verification/Loose_Graph.thy ===== *)
theory Loose_Graph
  imports Graph_Facts
begin

text \<open>
  Graphs in the middle of a fusion. An arc that was redirected to another bottom is still in the list of
  out-arcs of its old bottom: \<open>loose M L X g\<close> says that the graph is well-formed but for the arcs \<open>X\<close>,
  which start at \<open>M\<close>, are in no list of out-arcs but that of \<open>L\<close>, and are missing from that of \<open>M\<close>.
\<close>

section \<open>Loose arcs\<close>

definition loose :: "'n \<Rightarrow> 'n \<Rightarrow> arc_id set \<Rightarrow> ('n, 'v, 'w) graph \<Rightarrow> bool" where
  "loose M L X g \<longleftrightarrow>
     distinct (vertex_names g) \<and>
     distinct (map fst (arcs g)) \<and> (\<forall>(i, a) \<in> set (arcs g). i < next_id g) \<and>
     distinct (map (ends \<circ> snd) (arcs g)) \<and>
     (\<forall>(i, a) \<in> set (arcs g). arc_bottom a \<in> set (vertex_names g) \<and> arc_top a \<in> set (vertex_names g)) \<and>
     (\<forall>v. distinct (in_its g v)) \<and> (\<forall>v i. i \<in> set (in_its g v) \<longleftrightarrow> (\<exists>a. (i, a) \<in> set (arcs g) \<and> arc_top a = v)) \<and>
     (\<forall>v. distinct (out_its g v)) \<and>
     (\<forall>v i. i \<in> set (out_its g v) \<longrightarrow> (\<exists>a. (i, a) \<in> set (arcs g) \<and> (i \<notin> X \<longrightarrow> arc_bottom a = v))) \<and>
     (\<forall>(i, a) \<in> set (arcs g). i \<notin> X \<longrightarrow> i \<in> set (out_its g (arc_bottom a))) \<and>
     (\<forall>(i, a) \<in> set (arcs g). i \<in> X \<longrightarrow> arc_bottom a = M) \<and>
     (\<forall>v. \<forall>i \<in> X. i \<in> set (out_its g v) \<longrightarrow> v = L) \<and>
     (\<forall>v i. i \<in> set (out_its g v) \<longrightarrow> v \<in> set (vertex_names g))"

lemma looseD:
  assumes "loose M L X g"
  shows "distinct (vertex_names g)" "distinct (map fst (arcs g))"
    "\<And>i a. (i, a) \<in> set (arcs g) \<Longrightarrow> i < next_id g" "distinct (map (ends \<circ> snd) (arcs g))"
    "\<And>i a. (i, a) \<in> set (arcs g) \<Longrightarrow> arc_bottom a \<in> set (vertex_names g)"
    "\<And>i a. (i, a) \<in> set (arcs g) \<Longrightarrow> arc_top a \<in> set (vertex_names g)"
    "\<And>v. distinct (in_its g v)" "\<And>v i. i \<in> set (in_its g v) \<longleftrightarrow> (\<exists>a. (i, a) \<in> set (arcs g) \<and> arc_top a = v)"
    "\<And>v. distinct (out_its g v)"
    "\<And>v i. i \<in> set (out_its g v) \<Longrightarrow> \<exists>a. (i, a) \<in> set (arcs g) \<and> (i \<notin> X \<longrightarrow> arc_bottom a = v)"
    "\<And>i a. (i, a) \<in> set (arcs g) \<Longrightarrow> i \<notin> X \<Longrightarrow> i \<in> set (out_its g (arc_bottom a))"
    "\<And>i a. (i, a) \<in> set (arcs g) \<Longrightarrow> i \<in> X \<Longrightarrow> arc_bottom a = M"
    "\<And>v i. i \<in> X \<Longrightarrow> i \<in> set (out_its g v) \<Longrightarrow> v = L"
    "\<And>v i. i \<in> set (out_its g v) \<Longrightarrow> v \<in> set (vertex_names g)"
  using assms unfolding loose_def by (blast | force)+

lemma looseI:
  assumes "distinct (vertex_names g)" "distinct (map fst (arcs g))"
    "\<And>i a. (i, a) \<in> set (arcs g) \<Longrightarrow> i < next_id g" "distinct (map (ends \<circ> snd) (arcs g))"
    "\<And>i a. (i, a) \<in> set (arcs g) \<Longrightarrow> arc_bottom a \<in> set (vertex_names g)"
    "\<And>i a. (i, a) \<in> set (arcs g) \<Longrightarrow> arc_top a \<in> set (vertex_names g)"
    "\<And>v. distinct (in_its g v)" "\<And>v i. i \<in> set (in_its g v) \<longleftrightarrow> (\<exists>a. (i, a) \<in> set (arcs g) \<and> arc_top a = v)"
    "\<And>v. distinct (out_its g v)"
    "\<And>v i. i \<in> set (out_its g v) \<Longrightarrow> \<exists>a. (i, a) \<in> set (arcs g) \<and> (i \<notin> X \<longrightarrow> arc_bottom a = v)"
    "\<And>i a. (i, a) \<in> set (arcs g) \<Longrightarrow> i \<notin> X \<Longrightarrow> i \<in> set (out_its g (arc_bottom a))"
    "\<And>i a. (i, a) \<in> set (arcs g) \<Longrightarrow> i \<in> X \<Longrightarrow> arc_bottom a = M"
    "\<And>v i. i \<in> X \<Longrightarrow> i \<in> set (out_its g v) \<Longrightarrow> v = L"
    "\<And>v i. i \<in> set (out_its g v) \<Longrightarrow> v \<in> set (vertex_names g)"
  shows "loose M L X g"
  unfolding loose_def using assms by (intro conjI) (blast | force)+

text \<open>Without loose arcs the graph is well-formed and linked.\<close>

lemma loose_none: "loose M L {} g \<longleftrightarrow> wf_graph g \<and> linked g"
proof
  assume l: "loose M L {} g"
  note d = looseD [OF l]
  have "wf_graph g" by (rule wf_graphI) (use d in blast)+
  moreover have "linked g" unfolding linked_def using d(8,11) by blast
  ultimately show "wf_graph g \<and> linked g" ..
next
  assume w: "wf_graph g \<and> linked g"
  note d = wf_graphD [OF conjunct1 [OF w]]
  have l: "i \<in> set (out_its g (arc_bottom a)) \<and> i \<in> set (in_its g (arc_top a))" if "(i, a) \<in> set (arcs g)" for i a
    using w that unfolding linked_def by blast
  have o: "v \<in> set (vertex_names g)" if "i \<in> set (out_its g v)" for i v using d(5,8) that by metis
  show "loose M L {} g"
  proof (rule looseI)
    show "i \<in> set (in_its g v) \<longleftrightarrow> (\<exists>a. (i, a) \<in> set (arcs g) \<and> arc_top a = v)" for v i
      using d(10) l by blast
  qed (use d l o in blast)+
qed

lemma loose_id: "loose M L X g \<Longrightarrow> (i, a) \<in> set (arcs g) \<Longrightarrow> (i, b) \<in> set (arcs g) \<Longrightarrow> a = b"
  using looseD(2) by (meson eq_key_imp_eq_value)

lemma loose_arc:
  assumes "loose M L X g" "(i, a) \<in> set (arcs g)" "(j, b) \<in> set (arcs g)" "ends a = ends b"
  shows "i = j \<and> a = b"
proof -
  have "inj_on (ends \<circ> snd) (set (arcs g))" using looseD(4) [OF assms(1)] by (simp add: distinct_map)
  then show ?thesis using assms(2-4) by (auto dest!: inj_onD [where x = "(i, a)" and y = "(j, b)"])
qed

section \<open>Removing a vertex\<close>

lemma erase_some:
  assumes "distinct (map fst (arcs g))" "distinct (map (ends \<circ> snd) (arcs g))" "distinct is"
    and "\<And>i. i \<in> set is \<Longrightarrow> \<exists>a. (i, a) \<in> set (arcs g)"
  shows "foldE (\<lambda>i h. bindE (deref h i) (\<lambda>a.
            Inr (if Q a then remove_arc (arc_bottom a) (arc_top a) h else h))) is g
         = Inr (g\<lparr>arcs := filter (\<lambda>(j, a). \<not> (j \<in> set is \<and> Q a)) (arcs g)\<rparr>)"
  using assms
proof (induction "is" arbitrary: g)
  case Nil
  then show ?case by simp
next
  case (Cons i "is")
  obtain a where a: "(i, a) \<in> set (arcs g)" using Cons.prems(4) by auto
  have uniq: "b = a" if "(i, b) \<in> set (arcs g)" for b
    using that a Cons.prems(1) by (meson eq_key_imp_eq_value)
  let ?g = "if Q a then erase_node i g else g"
  have step: "bindE (deref g i) (\<lambda>a. Inr (if Q a then remove_arc (arc_bottom a) (arc_top a) g else g)) = Inr ?g"
    using deref_mem [OF Cons.prems(1) a] erase_node_find [OF Cons.prems(2) a] by simp
  have IH: "foldE (\<lambda>i h. bindE (deref h i) (\<lambda>a.
            Inr (if Q a then remove_arc (arc_bottom a) (arc_top a) h else h))) is ?g
      = Inr (?g\<lparr>arcs := filter (\<lambda>(j, a). \<not> (j \<in> set is \<and> Q a)) (arcs ?g)\<rparr>)"
    by (rule Cons.IH)
      (use Cons.prems in \<open>auto simp: erase_node_def intro!: distinct_filter_map\<close>)
  have "filter (\<lambda>(j, a). \<not> (j \<in> set is \<and> Q a)) (arcs ?g) = filter (\<lambda>(j, a). \<not> (j \<in> set (i # is) \<and> Q a)) (arcs g)"
    using uniq Cons.prems(3) by (auto simp: erase_node_def intro!: filter_cong)
  then show ?case unfolding foldE.simps step bindE_simps IH by (auto simp: erase_node_def)
qed

text \<open>A vertex at which no loose arc starts is removed as in a well-formed graph.\<close>

lemma loose_remove:
  assumes l: "loose M L X g" and v: "has_vertex g v" "(v, v) \<notin> edges g" "v \<noteq> M"
    and tops: "\<And>i a. (i, a) \<in> set (arcs g) \<Longrightarrow> i \<in> X \<Longrightarrow> arc_top a \<noteq> v"
  shows "remove_vertex v g = Inr (g\<lparr>vertices := filter (\<lambda>(n, _). n \<noteq> v) (vertices g),
     arcs := filter (\<lambda>(_, a). arc_bottom a \<noteq> v \<and> arc_top a \<noteq> v) (arcs g),
     out_its := (\<lambda>n. if n = v then [] else filter (\<lambda>i. \<not> touches g v i) (out_its g n)),
     in_its := (\<lambda>n. if n = v then [] else filter (\<lambda>i. \<not> touches g v i) (in_its g n))\<rparr>)"
proof -
  note d = looseD [OF l]
  let ?g = "g\<lparr>vertices := filter (\<lambda>(n, _). n \<noteq> v) (vertices g)\<rparr>"
  let ?p = "g\<lparr>vertices := filter (\<lambda>(n, _). n \<noteq> v) (vertices g),
     out_its := (\<lambda>n. if n \<in> set (vertex_names ?g) then filter (\<lambda>i. \<not> touches g v i) (out_its g n) else out_its g n),
     in_its := (\<lambda>n. if n \<in> set (vertex_names ?g) then filter (\<lambda>i. \<not> touches g v i) (in_its g n) else in_its g n)\<rparr>"
  have dn: "distinct (vertex_names ?g)" using d(1) by (simp add: vertex_names_def distinct_filter_map)
  have names: "set (vertex_names ?g) = set (vertex_names g) - {v}" by (auto simp: vertex_names_def)
  have t: "touches ?g v = touches g v" by (simp add: touches_def fun_eq_iff)
  have purge: "foldE (purge_vertex v) (vertex_names ?g) ?g = Inr ?p"
  proof -
    have "foldE (purge_vertex v) (vertex_names ?g) ?g = Inr (?g\<lparr>
       out_its := (\<lambda>n. if n \<in> set (vertex_names ?g) then filter (\<lambda>i. \<not> touches ?g v i) (out_its ?g n) else out_its ?g n),
       in_its := (\<lambda>n. if n \<in> set (vertex_names ?g) then filter (\<lambda>i. \<not> touches ?g v i) (in_its ?g n) else in_its ?g n)\<rparr>)"
    proof (rule purge_all [OF _ dn])
      show "\<exists>a. (i, a) \<in> set (arcs ?g)" if "i \<in> set (in_its ?g n)" for n i using d(8) that by auto
      show "\<exists>a. (i, a) \<in> set (arcs ?g)" if "i \<in> set (out_its ?g n)" for n i
        using d(10) [of i n] that by auto
    qed (use d(2) in simp)
    moreover have "out_its ?g = out_its g" "in_its ?g = in_its g" by simp_all
    ultimately show ?thesis unfolding t by presburger
  qed
  have pv: "in_its ?p v = in_its g v" "out_its ?p v = out_its g v" "arcs ?p = arcs g" using names by simp_all
  let ?h = "?p\<lparr>arcs := filter (\<lambda>(j, a). \<not> (j \<in> set (in_its g v) \<and> arc_top a = v)) (arcs g)\<rparr>"
  have ins: "foldE (\<lambda>i h. bindE (deref h i) (\<lambda>a. Inr (if arc_top a = v then remove_arc (arc_bottom a) (arc_top a) h else h)))
      (in_its ?p v) ?p = Inr ?h"
    using erase_some [of ?p "in_its g v" "\<lambda>a. arc_top a = v"] d(2,4,7,8) unfolding pv by auto
  have keep: "\<exists>a. (i, a) \<in> set (arcs ?h)" if i: "i \<in> set (out_its g v)" for i
  proof -
    obtain a where a: "(i, a) \<in> set (arcs g)" "i \<notin> X \<longrightarrow> arc_bottom a = v" using d(10) [OF i] by blast
    have "arc_top a \<noteq> v"
    proof
      assume tv: "arc_top a = v"
      then have "i \<notin> X" using tops [OF a(1)] by blast
      then have "ends a = (v, v)" using a(2) tv by (simp add: ends_def)
      then show False using v(2) a(1) by (force simp: edges_def)
    qed
    then show ?thesis using a(1) by auto
  qed
  have h: "out_its ?h v = out_its g v" "distinct (map fst (arcs ?h))" "distinct (map (ends \<circ> snd) (arcs ?h))"
    using names d(2,4) by (auto intro!: distinct_filter_map)
  have out: "foldE (\<lambda>i h. bindE (deref h i) (\<lambda>a. Inr (if arc_bottom a = v then remove_arc (arc_bottom a) (arc_top a) h else h)))
      (out_its ?h v) ?h = Inr (?h\<lparr>arcs := filter (\<lambda>(j, a). \<not> (j \<in> set (out_its g v) \<and> arc_bottom a = v)) (arcs ?h)\<rparr>)"
    unfolding h(1) by (rule erase_some [OF h(2,3) d(9) keep])
  have gone: "filter (\<lambda>(j, a). \<not> (j \<in> set (out_its g v) \<and> arc_bottom a = v)) (arcs ?h)
      = filter (\<lambda>(_, a). arc_bottom a \<noteq> v \<and> arc_top a \<noteq> v) (arcs g)"
  proof -
    have "(\<not> (i \<in> set (in_its g v) \<and> arc_top a = v) \<and> \<not> (i \<in> set (out_its g v) \<and> arc_bottom a = v))
        \<longleftrightarrow> (arc_bottom a \<noteq> v \<and> arc_top a \<noteq> v)" if ia: "(i, a) \<in> set (arcs g)" for i a
      using d(8) [of i v] d(11) [OF ia] d(12) [OF ia] ia v(3) by blast
    then show ?thesis by (auto intro!: filter_cong)
  qed
  have none: "out_its g n = [] \<and> in_its g n = []" if "n \<notin> set (vertex_names g)" for n
  proof -
    have "i \<notin> set (out_its g n)" for i using d(14) [of i n] that by metis
    moreover have "i \<notin> set (in_its g n)" for i using d(8) [of i n] d(6) that by metis
    ultimately show ?thesis by (metis list.set_intros(1) neq_Nil_conv)
  qed
  have run: "remove_vertex v g = Inr (?h\<lparr>arcs := filter (\<lambda>(_, a). arc_bottom a \<noteq> v \<and> arc_top a \<noteq> v) (arcs g),
      out_its := (out_its ?h)(v := []), in_its := (in_its ?h)(v := [])\<rparr>)"
    unfolding remove_vertex_def Let_def purge bindE_simps ins out gone using v(1) by simp
  show ?thesis
    unfolding run using none names by (auto simp: fun_eq_iff intro!: graph.equality)
qed

lemma filter_fst_unique:
  "distinct (map fst xs) \<Longrightarrow> (i, a) \<in> set xs \<Longrightarrow> (\<exists>b. (i, b) \<in> set (filter (\<lambda>(_, a). P a) xs) \<and> Q b) \<longleftrightarrow> P a \<and> Q a"
  by (auto dest: eq_key_imp_eq_value)

lemma loose_removed:
  assumes l: "loose M L X g" and v: "v \<noteq> M"
    and tops: "\<And>i a. (i, a) \<in> set (arcs g) \<Longrightarrow> i \<in> X \<Longrightarrow> arc_top a \<noteq> v"
  defines "g' \<equiv> g\<lparr>vertices := filter (\<lambda>(n, _). n \<noteq> v) (vertices g),
     arcs := filter (\<lambda>(_, a). arc_bottom a \<noteq> v \<and> arc_top a \<noteq> v) (arcs g),
     out_its := (\<lambda>n. if n = v then [] else filter (\<lambda>i. \<not> touches g v i) (out_its g n)),
     in_its := (\<lambda>n. if n = v then [] else filter (\<lambda>i. \<not> touches g v i) (in_its g n))\<rparr>"
  shows "loose M L X g'" "set (vertex_names g') = set (vertex_names g) - {v}"
    "edges g' = {(a, b) \<in> edges g. a \<noteq> v \<and> b \<noteq> v}"
proof -
  note d = looseD [OF l]
  have mem: "(i, a) \<in> set (arcs g') \<longleftrightarrow> (i, a) \<in> set (arcs g) \<and> arc_bottom a \<noteq> v \<and> arc_top a \<noteq> v" for i a
    by (auto simp: g'_def)
  have t: "touches g v i \<longleftrightarrow> (arc_bottom a = v \<or> arc_top a = v)" if "(i, a) \<in> set (arcs g)" for i a
    by (rule touches_arc [OF d(2) that])
  show names: "set (vertex_names g') = set (vertex_names g) - {v}" by (auto simp: g'_def vertex_names_def)
  show "edges g' = {(a, b) \<in> edges g. a \<noteq> v \<and> b \<noteq> v}" by (force simp: edges_def mem ends_def g'_def image_iff)
  have out: "i \<in> set (out_its g' n) \<longleftrightarrow> n \<noteq> v \<and> i \<in> set (out_its g n) \<and> \<not> touches g v i" for i n
    by (simp add: g'_def)
  have ins: "i \<in> set (in_its g' n) \<longleftrightarrow> n \<noteq> v \<and> i \<in> set (in_its g n) \<and> \<not> touches g v i" for i n
    by (simp add: g'_def)
  show "loose M L X g'"
  proof (rule looseI)
    show "distinct (vertex_names g')" using d(1) by (simp add: g'_def vertex_names_def distinct_filter_map)
    show "distinct (map fst (arcs g'))" "distinct (map (ends \<circ> snd) (arcs g'))"
      using d(2,4) by (auto simp: g'_def intro!: distinct_filter_map)
    have "next_id g' = next_id g" by (simp add: g'_def)
    then show "i < next_id g'" if "(i, a) \<in> set (arcs g')" for i a using that d(3) mem by metis
    show "arc_bottom a \<in> set (vertex_names g')" "arc_top a \<in> set (vertex_names g')" if "(i, a) \<in> set (arcs g')" for i a
      using that d(5,6) mem names by auto
    show "distinct (in_its g' n)" "distinct (out_its g' n)" for n using d(7,9) by (simp_all add: g'_def)
    show "i \<in> set (in_its g' n) \<longleftrightarrow> (\<exists>a. (i, a) \<in> set (arcs g') \<and> arc_top a = n)" for i n
      using t mem ins d(8) by metis
    show "\<exists>a. (i, a) \<in> set (arcs g') \<and> (i \<notin> X \<longrightarrow> arc_bottom a = n)" if i: "i \<in> set (out_its g' n)" for i n
    proof -
      obtain a where a: "(i, a) \<in> set (arcs g)" "i \<notin> X \<longrightarrow> arc_bottom a = n" using d(10) [of i n] i out by blast
      then show ?thesis using t [OF a(1)] i out mem by blast
    qed
    show "i \<in> set (out_its g' (arc_bottom a))" if "(i, a) \<in> set (arcs g')" "i \<notin> X" for i a
      using that mem out t d(11) by blast
    show "arc_bottom a = M" if "(i, a) \<in> set (arcs g')" "i \<in> X" for i a using that mem d(12) by blast
    show "n = L" if "i \<in> X" "i \<in> set (out_its g' n)" for i n using that out d(13) by blast
    show "n \<in> set (vertex_names g')" if "i \<in> set (out_its g' n)" for i n using that out d(14) names by auto
  qed
qed

section \<open>Redirecting an arc and connecting it again\<close>

definition change_arc :: "arc_id \<Rightarrow> ('n, 'w) arc \<Rightarrow> ('n, 'v, 'w) graph \<Rightarrow> ('n, 'v, 'w) graph" where
  "change_arc i b g = g\<lparr>arcs := map (\<lambda>(j, a). (j, if j = i then b else a)) (arcs g)\<rparr>"

lemma loose_redirect:
  assumes l: "loose M L X g" and a: "(i, a) \<in> set (arcs g)" "arc_bottom a = L" and M: "M \<in> set (vertex_names g)" "M \<noteq> L"
    and b: "arc_bottom b = M" "arc_top b = arc_top a" and free: "(M, arc_top a) \<notin> edges g"
  shows "loose M L (insert i X) (change_arc i b g)" "vertices (change_arc i b g) = vertices g"
    "edges (change_arc i b g) = edges g - {(L, arc_top a)} \<union> {(M, arc_top a)}"
    "(j, c) \<in> set (arcs (change_arc i b g)) \<longleftrightarrow> (if j = i then c = b else (j, c) \<in> set (arcs g))"
proof -
  note d = looseD [OF l]
  let ?g = "change_arc i b g"
  show mem: "(j, c) \<in> set (arcs ?g) \<longleftrightarrow> (if j = i then c = b else (j, c) \<in> set (arcs g))" for j c
    using a(1) by (force simp: change_arc_def)
  have iX: "i \<notin> X" using d(12) [OF a(1)] a(2) M(2) by metis
  have its [simp]: "out_its ?g = out_its g" "in_its ?g = in_its g" "next_id ?g = next_id g" "vertex_names ?g = vertex_names g"
    and keys: "map fst (arcs ?g) = map fst (arcs g)"
    by (auto simp: change_arc_def vertex_names_def)
  show "vertices ?g = vertices g" by (simp add: change_arc_def)
  have uniq: "c = a" if "(i, c) \<in> set (arcs g)" for c using loose_id [OF l] that a(1) by blast
  show E: "edges ?g = edges g - {(L, arc_top a)} \<union> {(M, arc_top a)}"
  proof (rule set_eqI)
    fix e :: "'a \<times> 'a"
    have "e \<in> edges ?g \<longleftrightarrow> (\<exists>j c. (j, c) \<in> set (arcs ?g) \<and> ends c = e)" by (force simp: edges_def)
    also have "\<dots> \<longleftrightarrow> e = ends b \<or> (\<exists>j c. j \<noteq> i \<and> (j, c) \<in> set (arcs g) \<and> ends c = e)" unfolding mem by auto
    also have "\<dots> \<longleftrightarrow> e = (M, arc_top a) \<or> (e \<in> edges g \<and> e \<noteq> (L, arc_top a))"
    proof -
      have "(\<exists>j c. j \<noteq> i \<and> (j, c) \<in> set (arcs g) \<and> ends c = e) \<longleftrightarrow> e \<in> edges g \<and> e \<noteq> ends a"
      proof
        assume "\<exists>j c. j \<noteq> i \<and> (j, c) \<in> set (arcs g) \<and> ends c = e"
        then obtain j c where j: "j \<noteq> i" "(j, c) \<in> set (arcs g)" "ends c = e" by blast
        then have "e \<noteq> ends a" using loose_arc [OF l j(2) a(1)] by blast
        then show "e \<in> edges g \<and> e \<noteq> ends a" using j by (force simp: edges_def)
      next
        assume e: "e \<in> edges g \<and> e \<noteq> ends a"
        then obtain j c where "(j, c) \<in> set (arcs g)" "ends c = e" by (auto simp: edges_def)
        moreover have "j \<noteq> i" using calculation uniq e by blast
        ultimately show "\<exists>j c. j \<noteq> i \<and> (j, c) \<in> set (arcs g) \<and> ends c = e" by blast
      qed
      then show ?thesis using a(2) b by (simp add: ends_def)
    qed
    finally show "e \<in> edges ?g \<longleftrightarrow> e \<in> edges g - {(L, arc_top a)} \<union> {(M, arc_top a)}" using M(2) by auto
  qed
  show "loose M L (insert i X) ?g"
  proof (rule looseI)
    have "inj_on (ends \<circ> snd) (set (arcs ?g))"
    proof (rule inj_onI)
      fix p q assume pq: "p \<in> set (arcs ?g)" "q \<in> set (arcs ?g)" "(ends \<circ> snd) p = (ends \<circ> snd) q"
      obtain j c k e where pq': "p = (j, c)" "q = (k, e)" by (cases p; cases q) blast
      have new: "ends x \<noteq> ends b" if "(y, x) \<in> set (arcs g)" for x y
        using that free b by (force simp: edges_def ends_def)
      show "p = q" using pq new unfolding pq' mem by (auto simp: mem split: if_splits dest: loose_arc [OF l])
    qed
    then show "distinct (map (ends \<circ> snd) (arcs ?g))"
      using d(2) keys by (metis distinct_map)
    have old: "i' = i \<and> c = b \<or> i' \<noteq> i \<and> (i', c) \<in> set (arcs g)" if "(i', c) \<in> set (arcs ?g)" for i' c
      using that unfolding mem by (cases "i' = i") simp_all
    show "i' < next_id ?g" if "(i', c) \<in> set (arcs ?g)" for i' c using old [OF that] d(3) a(1) by auto
    show "arc_bottom c \<in> set (vertex_names ?g)" "arc_top c \<in> set (vertex_names ?g)" if "(i', c) \<in> set (arcs ?g)" for i' c
      using old [OF that] d(5,6) a(1) b M(1) by auto
    show "i' \<in> set (in_its ?g v) \<longleftrightarrow> (\<exists>c. (i', c) \<in> set (arcs ?g) \<and> arc_top c = v)" for v i'
    proof (cases "i' = i")
      case True
      have "i \<in> set (in_its g v) \<longleftrightarrow> v = arc_top a" using d(8) [of i v] a(1) uniq by blast
      moreover have "(\<exists>c. (i, c) \<in> set (arcs ?g) \<and> arc_top c = v) \<longleftrightarrow> v = arc_top a" using b(2) by (simp add: mem eq_commute)
      ultimately show ?thesis by (simp add: True)
    next
      case False
      then show ?thesis using d(8) [of i' v] mem by simp
    qed
    show "\<exists>c. (i', c) \<in> set (arcs ?g) \<and> (i' \<notin> insert i X \<longrightarrow> arc_bottom c = v)" if "i' \<in> set (out_its ?g v)" for v i'
    proof (cases "i' = i")
      case True
      then show ?thesis using mem by auto
    next
      case False
      then show ?thesis using d(10) [of i' v] that mem by auto
    qed
    show "i' \<in> set (out_its ?g (arc_bottom c))" if "(i', c) \<in> set (arcs ?g)" "i' \<notin> insert i X" for i' c
      using old [OF that(1)] that(2) d(11) by auto
    show "arc_bottom c = M" if "(i', c) \<in> set (arcs ?g)" "i' \<in> insert i X" for i' c
      using old [OF that(1)] that(2) d(12) b(1) by auto
    show "v = L" if "i' \<in> insert i X" "i' \<in> set (out_its ?g v)" for i' v
    proof (cases "i' = i")
      case True
      then have "\<exists>c. (i, c) \<in> set (arcs g) \<and> arc_bottom c = v" using d(10) [of i v] that(2) iX by auto
      then show ?thesis using uniq a(2) by blast
    qed (use that d(13) in auto)
  qed (use d keys in auto)
qed

lemma loose_connect:
  assumes l: "loose M L X g" and a: "(i, a) \<in> set (arcs g)" "ends a = (M, t)" and i: "i \<in> X" "L \<notin> set (vertex_names g)" and c: "ends c = (M, t)"
  shows "\<exists>g'. add_out_arc c g = Inr g' \<and> loose M L (X - {i}) g' \<and> vertices g' = vertices g \<and> arcs g' = arcs g"
proof -
  note d = looseD [OF l]
  have e: "arc_bottom a = M" "arc_top a = t" "arc_bottom c = M" "arc_top c = t" using a(2) c by (auto simp: ends_def)
  have f: "find_arc g M t = Some i" using find_node_unique [OF d(4) a(1)] e by (simp add: find_arc_def)
  have no: "i \<notin> set (out_its g v)" for v using d(13) [OF i(1)] d(14) i(2) by blast
  let ?g = "g\<lparr>out_its := (out_its g)(M := out_its g M @ [i])\<rparr>"
  have "add_out_arc c g = Inr ?g" using f no e by (simp add: add_out_arc_def push_arc_def has_arc_def)
  moreover have "loose M L (X - {i}) ?g"
  proof (rule looseI)
    have names: "vertex_names ?g = vertex_names g" by (simp add: vertex_names_def)
    have out: "j \<in> set (out_its ?g v) \<longleftrightarrow> j \<in> set (out_its g v) \<or> (v = M \<and> j = i)" for j v by auto
    show "distinct (vertex_names ?g)" "distinct (map fst (arcs ?g))" "distinct (map (ends \<circ> snd) (arcs ?g))"
      using d(1,2,4) by (simp_all add: vertex_names_def)
    show "j < next_id ?g" "arc_bottom b \<in> set (vertex_names ?g)" "arc_top b \<in> set (vertex_names ?g)"
      if "(j, b) \<in> set (arcs ?g)" for j b using that d(3,5,6) unfolding names by auto
    show "distinct (in_its ?g v)" "j \<in> set (in_its ?g v) \<longleftrightarrow> (\<exists>b. (j, b) \<in> set (arcs ?g) \<and> arc_top b = v)" for v j
      using d(7,8) by auto
    show "distinct (out_its ?g v)" for v using d(9) no by auto
    show "\<exists>b. (j, b) \<in> set (arcs ?g) \<and> (j \<notin> X - {i} \<longrightarrow> arc_bottom b = v)" if "j \<in> set (out_its ?g v)" for v j
    proof (cases "j = i")
      case True
      then have "v = M" using that no out by blast
      then show ?thesis using a(1) e(1) True by auto
    next
      case False
      then have "j \<in> set (out_its g v)" using that out by blast
      then show ?thesis using d(10) [of j v] False by auto
    qed
    show "j \<in> set (out_its ?g (arc_bottom b))" if "(j, b) \<in> set (arcs ?g)" "j \<notin> X - {i}" for j b
    proof (cases "j = i")
      case True
      then have "b = a" using that(1) a(1) loose_id [OF l] by simp
      then show ?thesis using True e(1) by simp
    next
      case False
      then show ?thesis using that d(11) [of j b] out by simp
    qed
    show "arc_bottom b = M" if "(j, b) \<in> set (arcs ?g)" "j \<in> X - {i}" for j b using that d(12) by auto
    show "v = L" if "j \<in> X - {i}" "j \<in> set (out_its ?g v)" for v j using that d(13) out by blast
    show "v \<in> set (vertex_names ?g)" if "j \<in> set (out_its ?g v)" for v j
      using that out d(14) d(5) [OF a(1)] e(1) unfolding names by blast
  qed
  ultimately show ?thesis by auto
qed

end
