(* ===== verification/Contraction.thy ===== *)
theory Contraction
  imports Main
begin

text \<open>
  The contraction of a chain in a directed graph, given as its relation: what the fusion of operators
  promises. The nodes \<open>ns\<close> behind \<open>u\<close> disappear, and \<open>u\<close> gets the successors of the last one.
\<close>

fun chain :: "('n \<times> 'n) set \<Rightarrow> 'n \<Rightarrow> 'n list \<Rightarrow> bool" where
  "chain E u [] \<longleftrightarrow> True"
| "chain E u (w # ws) \<longleftrightarrow>
     (u, w) \<in> E \<and> (\<forall>x. (u, x) \<in> E \<longrightarrow> x = w) \<and> (\<forall>x. (x, w) \<in> E \<longrightarrow> x = u) \<and> chain E w ws"

definition contracted :: "'n \<Rightarrow> 'n list \<Rightarrow> ('n \<times> 'n) set \<Rightarrow> ('n \<times> 'n) set" where
  "contracted u ns E = {(a, b) \<in> E. a \<notin> set ns \<and> b \<notin> set ns} \<union> {(u, t) | t. (last (u # ns), t) \<in> E}"

text \<open>The bounded quantifiers of the definition must not be used for rewriting.\<close>

lemma chain_ConsD:
  assumes "chain E u (w # ws)"
  shows "(u, w) \<in> E" "\<And>x. (u, x) \<in> E \<Longrightarrow> x = w" "\<And>x. (x, w) \<in> E \<Longrightarrow> x = u" "chain E w ws"
  using assms unfolding chain.simps by blast+

declare chain.simps(2) [simp del]

lemma chain_reach: "chain E u ns \<Longrightarrow> w \<in> set ns \<Longrightarrow> (u, w) \<in> E\<^sup>+"
proof (induction ns arbitrary: u)
  case (Cons x xs)
  note c = chain_ConsD [OF Cons.prems(1)]
  show ?case
  proof (cases "w = x")
    case True
    then show ?thesis using c(1) by simp
  next
    case False
    then have "(x, w) \<in> E\<^sup>+" using Cons.IH [OF c(4)] Cons.prems(2) by simp
    then show ?thesis using c(1) by (rule trancl_into_trancl2 [rotated])
  qed
qed simp

lemma chain_last:
  assumes "chain E u ns"
  shows "(u, last (u # ns)) \<in> E\<^sup>*"
proof (cases "ns = []")
  case False
  then have "last ns \<in> set ns" by simp
  then show ?thesis using chain_reach [OF assms] False by (simp add: trancl_into_rtrancl)
qed simp

lemma chain_fresh:
  assumes "acyclic E" "chain E u ns"
  shows "u \<notin> set ns" "distinct ns"
proof -
  show "u \<notin> set ns" using chain_reach [OF assms(2)] assms(1) unfolding acyclic_def by blast
  show "distinct ns"
    using assms(2)
  proof (induction ns arbitrary: u)
    case (Cons w ws)
    note c = chain_ConsD(4) [OF Cons.prems]
    have "w \<notin> set ws" using chain_reach [OF c] assms(1) unfolding acyclic_def by blast
    then show ?case using Cons.IH [OF c] by simp
  qed simp
qed

text \<open>The predecessor of a node of the chain, and the successor of all but the last.\<close>

lemma chain_pred: "chain E u ns \<Longrightarrow> w \<in> set ns \<Longrightarrow> (x, w) \<in> E \<Longrightarrow> x \<in> insert u (set (butlast ns))"
proof (induction ns arbitrary: u)
  case (Cons y ys)
  note c = chain_ConsD [OF Cons.prems(1)]
  show ?case
  proof (cases "w = y")
    case True
    then have "x = u" using c(3) Cons.prems(3) by blast
    then show ?thesis by simp
  next
    case False
    then have w: "w \<in> set ys" using Cons.prems(2) by simp
    then have "x \<in> insert y (set (butlast ys))" "ys \<noteq> []" using Cons.IH [OF c(4) w Cons.prems(3)] by auto
    then show ?thesis by auto
  qed
qed simp

lemma chain_succ: "chain E u ns \<Longrightarrow> w \<in> insert u (set ns) \<Longrightarrow> w \<noteq> last (u # ns) \<Longrightarrow> (w, x) \<in> E \<Longrightarrow> x \<in> set ns"
proof (induction ns arbitrary: u)
  case (Cons y ys)
  note c = chain_ConsD [OF Cons.prems(1)]
  show ?case
  proof (cases "w = u")
    case True
    then have "x = y" using c(2) Cons.prems(4) by blast
    then show ?thesis by simp
  next
    case False
    then have w: "w \<in> insert y (set ys)" using Cons.prems(2) by simp
    have "w \<noteq> last (y # ys)" using Cons.prems(3) by simp
    then have "x \<in> set ys" using Cons.IH [OF c(4) w] Cons.prems(4) by blast
    then show ?thesis by simp
  qed
qed simp

text \<open>The last node has no arc into the chain.\<close>

lemma chain_last_out:
  assumes "acyclic E" "chain E u ns" "(last (u # ns), t) \<in> E" "ns \<noteq> []"
  shows "t \<notin> set ns" "t \<noteq> u"
proof -
  have p: "(u, t) \<in> E\<^sup>+" using chain_last [OF assms(2)] assms(3) by (rule rtrancl_into_trancl1)
  show "t \<noteq> u" using p assms(1) unfolding acyclic_def by blast
  show "t \<notin> set ns"
  proof
    assume t: "t \<in> set ns"
    have "last (u # ns) \<in> insert u (set (butlast ns))" by (rule chain_pred [OF assms(2) t assms(3)])
    moreover have "last (u # ns) = last ns" "last ns \<in> set ns" using assms(4) by auto
    ultimately have "last ns \<in> set (butlast ns)" using chain_fresh(1) [OF assms(1,2)] by auto
    then show False
      using chain_fresh(2) [OF assms(1,2)] assms(4) by (metis append_butlast_last_id distinct_append disjoint_iff list.set_intros(1))
  qed
qed

section \<open>Contraction keeps reachability\<close>

lemma contracted_sub:
  assumes "chain E u ns" "(a, b) \<in> contracted u ns E"
  shows "(a, b) \<in> E\<^sup>+"
  using assms(2) chain_last [OF assms(1)] by (auto simp: contracted_def intro: rtrancl_into_trancl1)

lemma contracted_acyclic: "acyclic E \<Longrightarrow> chain E u ns \<Longrightarrow> acyclic (contracted u ns E)"
proof -
  assume a: "acyclic E" "chain E u ns"
  have "contracted u ns E \<subseteq> E\<^sup>+" using contracted_sub [OF a(2)] by auto
  then have "(contracted u ns E)\<^sup>+ \<subseteq> E\<^sup>+" using trancl_mono_subset trancl_trans_induct by (metis subsetI trancl_id trancl_mono trans_trancl)
  then show ?thesis using a(1) by (auto simp: acyclic_def)
qed

definition image_of_chain :: "'n \<Rightarrow> 'n list \<Rightarrow> 'n \<Rightarrow> 'n" where
  "image_of_chain u ns a = (if a \<in> set ns then u else a)"

lemma contracted_step:
  assumes ac: "acyclic E" and c: "chain E u ns" and e: "(a, b) \<in> E"
  shows "(image_of_chain u ns a, image_of_chain u ns b) \<in> (contracted u ns E)\<^sup>*"
proof -
  note u = chain_fresh(1) [OF ac c]
  consider "a \<in> set ns" "b \<in> set ns" | "a \<notin> set ns" "b \<in> set ns" | "a \<in> set ns" "b \<notin> set ns" | "a \<notin> set ns" "b \<notin> set ns"
    by blast
  then show ?thesis
  proof cases
    case 2
    then have "a = u" using chain_pred [OF c _ e] by (auto dest: in_set_butlastD)
    then show ?thesis using 2 u by (simp add: image_of_chain_def)
  next
    case 3
    then have "a = last (u # ns)" using chain_succ [OF c _ _ e] by blast
    then show ?thesis using 3 e by (auto simp: image_of_chain_def contracted_def)
  qed (use e in \<open>auto simp: image_of_chain_def contracted_def\<close>)
qed

lemma contracted_reach:
  assumes ac: "acyclic E" and c: "chain E u ns" and ab: "a \<notin> set ns" "b \<notin> set ns"
  shows "(a, b) \<in> (contracted u ns E)\<^sup>* \<longleftrightarrow> (a, b) \<in> E\<^sup>*"
proof
  assume "(a, b) \<in> (contracted u ns E)\<^sup>*"
  then show "(a, b) \<in> E\<^sup>*"
    by (induction rule: rtrancl_induct) (auto dest: contracted_sub [OF c] trancl_into_rtrancl intro: rtrancl_trans)
next
  assume "(a, b) \<in> E\<^sup>*"
  then have "(image_of_chain u ns a, image_of_chain u ns b) \<in> (contracted u ns E)\<^sup>*"
    by (induction rule: rtrancl_induct) (auto intro: rtrancl_trans contracted_step [OF ac c])
  then show "(a, b) \<in> (contracted u ns E)\<^sup>*" using ab by (simp add: image_of_chain_def)
qed

text \<open>Predecessors are renamed: a node keeps how many it has.\<close>

lemma contracted_preds:
  assumes "acyclic E" "chain E u ns" "ns \<noteq> []" "(x, w) \<in> contracted u ns E"
  shows "w \<notin> set ns" "x \<notin> set ns" "\<exists>y. (y, w) \<in> E \<and> x = image_of_chain u ns y"
  using chain_last_out [OF assms(1,2) _ assms(3)] chain_fresh(1) [OF assms(1,2)] assms(3,4)
  by (auto simp: contracted_def image_of_chain_def)

end
