(* ===== verification/Fusion_Facts.thy ===== *)
theory Fusion_Facts
  imports Fusion_Pattern Loose_Graph Contraction
begin

text \<open>
  The replacement of a chain by its first operator: step by step the graph stays well-formed but for the
  arcs behind the chain, and at the end its relation is the contraction of the chain.
\<close>

section \<open>The arcs behind the chain\<close>

definition ids :: "('n, 'v, 'w) graph \<Rightarrow> 'n \<Rightarrow> 'n set \<Rightarrow> arc_id set" where
  "ids g u T = {i. \<exists>a. (i, a) \<in> set (arcs g) \<and> arc_bottom a = u \<and> arc_top a \<in> T}"

abbreviation loosened :: "'n \<Rightarrow> 'n \<Rightarrow> 'n set \<Rightarrow> ('n, 'v, 'w) graph \<Rightarrow> bool" where
  "loosened u l T g \<equiv> loose u l (ids g u T) g"

lemma ids_empty [simp]: "ids g u {} = {}"
  by (simp add: ids_def)

lemma find_index_first:
  assumes "\<And>x. x \<in> set xs \<Longrightarrow> f x = Inr (Q x)" "y \<in> set xs" "Q y" "\<And>x. x \<in> set xs \<Longrightarrow> Q x \<Longrightarrow> x = y"
  shows "\<exists>n. find_index f xs k = Inr (Some (k + n)) \<and> n < length xs \<and> xs ! n = y"
  using assms
proof (induction xs arbitrary: k)
  case (Cons x xs)
  show ?case
  proof (cases "Q x")
    case True
    have "x = y" by (rule Cons.prems(4)) (use True in simp_all)
    then show ?thesis using Cons.prems(1) [of x] True by (intro exI [of _ 0]) simp
  next
    case False
    then have y: "y \<in> set xs" using Cons.prems(2,3) by auto
    have "\<exists>n. find_index f xs (Suc k) = Inr (Some (Suc k + n)) \<and> n < length xs \<and> xs ! n = y"
    proof (rule Cons.IH [OF _ y Cons.prems(3)])
      show "f z = Inr (Q z)" if "z \<in> set xs" for z by (rule Cons.prems(1)) (use that in simp)
      show "z = y" if "z \<in> set xs" "Q z" for z by (rule Cons.prems(4)) (use that in simp_all)
    qed
    then obtain n where "find_index f xs (Suc k) = Inr (Some (Suc k + n))" "n < length xs" "xs ! n = y" by blast
    then show ?thesis using Cons.prems(1) [of x] False by (intro exI [of _ "Suc n"]) simp
  qed
qed simp

lemma redirect_in_run:
  assumes l: "loose u l X (vg G)" and a: "(i, a) \<in> set (arcs (vg G))" "ends a = (l, t)" and u: "u \<in> set (vertex_names (vg G))"
  shows "redirect_in u l t G = Inr (G\<lparr>vg := change_arc i (a\<lparr>arc_bottom := u,
           weight := (weight a)\<lparr>io_name := arc_name (named_arc u t)\<rparr>\<rparr>) (vg G)\<rparr>)"
proof -
  note d = looseD [OF l]
  let ?its = "in_its (vg G) t"
  have e: "arc_bottom a = l" "arc_top a = t" using a(2) by (auto simp: ends_def)
  have t: "t \<in> set (vertex_names (vg G))" using d(6) [OF a(1)] e by simp
  have mem: "i \<in> set ?its" using d(8) a(1) e by blast
  have der: "\<exists>c. (j, c) \<in> set (arcs (vg G)) \<and> arc_top c = t \<and> deref (vg G) j = Inr c" if "j \<in> set ?its" for j
    using d(8) [of j t] that deref_mem [OF d(2)] by blast
  let ?q = "\<lambda>j. arc_bottom (the (map_of (arcs (vg G)) j)) = l"
  have "\<exists>n. find_index (\<lambda>j. bindE (deref (vg G) j) (\<lambda>a. Inr (arc_bottom a = l))) ?its 0 = Inr (Some (0 + n)) \<and> n < length ?its \<and> ?its ! n = i"
  proof (rule find_index_first [OF _ mem, where Q = ?q])
    fix j assume j: "j \<in> set ?its"
    then obtain c where c: "(j, c) \<in> set (arcs (vg G))" "arc_top c = t" "deref (vg G) j = Inr c" using der by blast
    then have mc: "map_of (arcs (vg G)) j = Some c" using d(2) by simp
    then show "bindE (deref (vg G) j) (\<lambda>a. Inr (arc_bottom a = l)) = Inr (?q j)" using c by simp
    show "j = i" if "?q j"
      using that mc c loose_arc [OF l c(1) a(1)] e by (simp add: ends_def)
  next
    show "?q i" using a(1) e d(2) by simp
  qed
  then obtain n where n: "find_index (\<lambda>j. bindE (deref (vg G) j) (\<lambda>a. Inr (arc_bottom a = l))) ?its 0 = Inr (Some n)"
    "n < length ?its" "?its ! n = i" by auto
  have na: "arc_bottom (named_arc u t) = u" "arc_top (named_arc u t) = t" by (simp_all add: named_arc_def)
  have upd: "update_in_arc (named_arc u t) n (vg G) = Inr (map_arc i (\<lambda>b. b\<lparr>arc_bottom := u\<rparr>) (vg G))"
    using u t n(2,3) deref_mem [OF d(2) a(1)] by (simp add: update_in_arc_def na get_in_arc_its_def has_vertex_iff)
  have "redirect_in u l t G = Inr (set_weight i (\<lambda>w. w\<lparr>io_name := arc_name (named_arc u t)\<rparr>) (G\<lparr>vg := map_arc i (\<lambda>b. b\<lparr>arc_bottom := u\<rparr>) (vg G)\<rparr>))"
    using t by (simp add: redirect_in_def get_in_arc_its_def has_vertex_iff n upd)
  also have "set_weight i (\<lambda>w. w\<lparr>io_name := arc_name (named_arc u t)\<rparr>) (G\<lparr>vg := map_arc i (\<lambda>b. b\<lparr>arc_bottom := u\<rparr>) (vg G)\<rparr>)
      = G\<lparr>vg := change_arc i (a\<lparr>arc_bottom := u, weight := (weight a)\<lparr>io_name := arc_name (named_arc u t)\<rparr>\<rparr>) (vg G)\<rparr>"
  proof -
    have "c = a" if "(i, c) \<in> set (arcs (vg G))" for c by (rule loose_id [OF l that a(1)])
    then show ?thesis
      by (auto simp: set_weight_def map_arc_def change_arc_def intro!: vgraph.equality graph.equality)
  qed
  finally show ?thesis .
qed

lemma redirect_step:
  assumes l: "loosened u l T (vg G)" and e: "(l, t) \<in> edges (vg G)" "(u, t) \<notin> edges (vg G)"
    and u: "u \<in> set (vertex_names (vg G))" "u \<noteq> l"
  shows "\<exists>g. redirect_in u l t G = Inr (G\<lparr>vg := g\<rparr>) \<and> loosened u l (insert t T) g \<and> vertices g = vertices (vg G) \<and>
           edges g = edges (vg G) - {(l, t)} \<union> {(u, t)}"
proof -
  obtain i a where a: "(i, a) \<in> set (arcs (vg G))" "ends a = (l, t)" using e(1) by (auto simp: edges_def)
  then have at: "arc_bottom a = l" "arc_top a = t" by (auto simp: ends_def)
  let ?b = "a\<lparr>arc_bottom := u, weight := (weight a)\<lparr>io_name := arc_name (named_arc u t)\<rparr>\<rparr>"
  have b: "arc_bottom ?b = u" "arc_top ?b = arc_top a" by simp_all
  note r = loose_redirect [OF l a(1) at(1) u b, unfolded at, OF e(2)]
  have "insert i (ids (vg G) u T) = ids (change_arc i ?b (vg G)) u (insert t T)"
  proof (rule set_eqI)
    fix j
    have new: "arc_top c \<noteq> t" if "(j, c) \<in> set (arcs (vg G))" "arc_bottom c = u" for j c
      using that e(2) by (force simp: edges_def ends_def)
    show "j \<in> insert i (ids (vg G) u T) \<longleftrightarrow> j \<in> ids (change_arc i ?b (vg G)) u (insert t T)"
    proof (cases "j = i")
      case True
      then show ?thesis using at by (auto simp: ids_def r(4))
    next
      case False
      then show ?thesis using new by (auto simp: ids_def r(4))
    qed
  qed
  then show ?thesis using redirect_in_run [OF l a u(1)] r(1-3) by auto
qed

lemma redirect_all:
  assumes "loosened u l T (vg G)" "distinct ts" "u \<in> set (vertex_names (vg G))" "u \<noteq> l"
    and "\<And>t. t \<in> set ts \<Longrightarrow> (l, t) \<in> edges (vg G) \<and> (u, t) \<notin> edges (vg G)"
  shows "\<exists>g. foldE (redirect_in u l) ts G = Inr (G\<lparr>vg := g\<rparr>) \<and> loosened u l (set ts \<union> T) g \<and> vertices g = vertices (vg G) \<and>
           edges g = edges (vg G) - {l} \<times> set ts \<union> {u} \<times> set ts"
  using assms
proof (induction ts arbitrary: G T)
  case Nil
  then show ?case by (intro exI [of _ "vg G"]) simp
next
  case (Cons t ts)
  obtain g where g: "redirect_in u l t G = Inr (G\<lparr>vg := g\<rparr>)" "loosened u l (insert t T) g" "vertices g = vertices (vg G)"
      "edges g = edges (vg G) - {(l, t)} \<union> {(u, t)}"
    using redirect_step [OF Cons.prems(1) _ _ Cons.prems(3,4), of t] Cons.prems(5) [of t] by auto
  have "\<exists>h. foldE (redirect_in u l) ts (G\<lparr>vg := g\<rparr>) = Inr ((G\<lparr>vg := g\<rparr>)\<lparr>vg := h\<rparr>) \<and> loosened u l (set ts \<union> insert t T) h \<and>
      vertices h = vertices (vg (G\<lparr>vg := g\<rparr>)) \<and> edges h = edges (vg (G\<lparr>vg := g\<rparr>)) - {l} \<times> set ts \<union> {u} \<times> set ts"
    by (rule Cons.IH) (use Cons.prems g in \<open>auto simp: vertex_names_def\<close>)
  then obtain h where h: "foldE (redirect_in u l) ts (G\<lparr>vg := g\<rparr>) = Inr (G\<lparr>vg := h\<rparr>)" "loosened u l (set ts \<union> insert t T) h"
      "vertices h = vertices g" "edges h = edges g - {l} \<times> set ts \<union> {u} \<times> set ts" by auto
  have "edges h = edges (vg G) - {l} \<times> set (t # ts) \<union> {u} \<times> set (t # ts)"
    unfolding h(4) g(4) using Cons.prems(4) by auto
  then show ?case using g h by (intro exI [of _ h]) (simp add: insert_commute)
qed

section \<open>Removing the chain\<close>

lemma drop_step:
  assumes l: "loosened u l T (vg G)" and w: "node_name n = w" "w \<noteq> u" "w \<notin> T" "(w, w) \<notin> edges (vg G)"
  shows "\<exists>g. drop_node n G = Inr (G\<lparr>vg := g\<rparr>) \<and> loosened u l T g \<and> vertices g = filter (\<lambda>(m, _). m \<noteq> w) (vertices (vg G)) \<and>
           edges g = {(a, b) \<in> edges (vg G). a \<noteq> w \<and> b \<noteq> w}"
proof (cases "has_vertex (vg G) w")
  case True
  have tops: "arc_top a \<noteq> w" if "(i, a) \<in> set (arcs (vg G))" "i \<in> ids (vg G) u T" for i a
    using loose_id [OF l that(1)] that(2) w(3) by (auto simp: ids_def)
  let ?g = "(vg G)\<lparr>vertices := filter (\<lambda>(n, _). n \<noteq> w) (vertices (vg G)),
     arcs := filter (\<lambda>(_, a). arc_bottom a \<noteq> w \<and> arc_top a \<noteq> w) (arcs (vg G)),
     out_its := (\<lambda>n. if n = w then [] else filter (\<lambda>i. \<not> touches (vg G) w i) (out_its (vg G) n)),
     in_its := (\<lambda>n. if n = w then [] else filter (\<lambda>i. \<not> touches (vg G) w i) (in_its (vg G) n))\<rparr>"
  have run: "remove_vertex w (vg G) = Inr ?g" by (rule loose_remove [OF l True w(4,2) tops])
  note r = loose_removed [OF l w(2) tops]
  have "ids ?g u T = ids (vg G) u T" using w(2,3) by (auto simp: ids_def)
  then have "loosened u l T ?g" using r(1) by simp
  then show ?thesis using run r(3) w(1) by (intro exI [of _ ?g]) (simp add: drop_node_def)
next
  case False
  then have no: "w \<notin> set (vertex_names (vg G))" by (simp add: has_vertex_iff)
  then have "filter (\<lambda>(m, _). m \<noteq> w) (vertices (vg G)) = vertices (vg G)" by (force simp: vertex_names_def filter_id_conv)
  moreover have "{(a, b) \<in> edges (vg G). a \<noteq> w \<and> b \<noteq> w} = edges (vg G)"
    using no looseD(5,6) [OF l] by (force simp: edges_def ends_def)
  ultimately show ?thesis using False w(1) l by (intro exI [of _ "vg G"]) (simp add: drop_node_def remove_vertex_def)
qed

lemma drop_all:
  assumes "loosened u l T (vg G)" "\<And>w. w \<in> node_name ` set ns \<Longrightarrow> w \<noteq> u \<and> w \<notin> T \<and> (w, w) \<notin> edges (vg G)"
  shows "\<exists>g. foldE drop_node ns G = Inr (G\<lparr>vg := g\<rparr>) \<and> loosened u l T g \<and>
           vertices g = filter (\<lambda>(m, _). m \<notin> node_name ` set ns) (vertices (vg G)) \<and>
           edges g = {(a, b) \<in> edges (vg G). a \<notin> node_name ` set ns \<and> b \<notin> node_name ` set ns}"
  using assms
proof (induction ns arbitrary: G)
  case Nil
  then show ?case by (intro exI [of _ "vg G"]) simp
next
  case (Cons n ns)
  obtain g where g: "drop_node n G = Inr (G\<lparr>vg := g\<rparr>)" "loosened u l T g"
      "vertices g = filter (\<lambda>(m, _). m \<noteq> node_name n) (vertices (vg G))"
      "edges g = {(a, b) \<in> edges (vg G). a \<noteq> node_name n \<and> b \<noteq> node_name n}"
    using drop_step [OF Cons.prems(1) refl, of n] Cons.prems(2) [of "node_name n"] by auto
  have "\<exists>h. foldE drop_node ns (G\<lparr>vg := g\<rparr>) = Inr ((G\<lparr>vg := g\<rparr>)\<lparr>vg := h\<rparr>) \<and> loosened u l T h \<and>
      vertices h = filter (\<lambda>(m, _). m \<notin> node_name ` set ns) (vertices (vg (G\<lparr>vg := g\<rparr>))) \<and>
      edges h = {(a, b) \<in> edges (vg (G\<lparr>vg := g\<rparr>)). a \<notin> node_name ` set ns \<and> b \<notin> node_name ` set ns}"
    by (rule Cons.IH) (use Cons.prems g in auto)
  then obtain h where h: "foldE drop_node ns (G\<lparr>vg := g\<rparr>) = Inr (G\<lparr>vg := h\<rparr>)" "loosened u l T h"
      "vertices h = filter (\<lambda>(m, _). m \<notin> node_name ` set ns) (vertices g)"
      "edges h = {(a, b) \<in> edges g. a \<notin> node_name ` set ns \<and> b \<notin> node_name ` set ns}" by auto
  have "vertices h = filter (\<lambda>(m, _). m \<notin> node_name ` set (n # ns)) (vertices (vg G))"
    unfolding h(3) g(3) by (auto simp: filter_filter intro!: filter_cong)
  moreover have "edges h = {(a, b) \<in> edges (vg G). a \<notin> node_name ` set (n # ns) \<and> b \<notin> node_name ` set (n # ns)}"
    unfolding h(4) g(4) by auto
  ultimately show ?case using g(1) h(1,2) by (intro exI [of _ h]) simp
qed

section \<open>Connecting the first operator\<close>

lemma connect_all:
  assumes "loosened u l (set ts) (vg G)" "distinct ts" "\<And>t. t \<in> set ts \<Longrightarrow> (u, t) \<in> edges (vg G)" "l \<notin> set (vertex_names (vg G))"
  shows "\<exists>G'. foldE (connect_top u l) ts G = Inr G' \<and> wf_graph (vg G') \<and> linked (vg G') \<and> vertices (vg G') = vertices (vg G) \<and>
           edges (vg G') = edges (vg G) \<and> registed_outs G' = registed_outs G"
  using assms
proof (induction ts arbitrary: G)
  case Nil
  then show ?case using loose_none [of u l "vg G"] by simp
next
  case (Cons t ts)
  obtain i a where a: "(i, a) \<in> set (arcs (vg G))" "ends a = (u, t)" using Cons.prems(3) [of t] by (auto simp: edges_def)
  have ends: "arc_bottom a = u" "arc_top a = t" using a(2) by (auto simp: ends_def)
  have i: "i \<in> ids (vg G) u (set (t # ts))" using a(1) ends by (auto simp: ids_def)
  have na: "ends (named_arc u t) = (u, t)" by (simp add: ends_def named_arc_def)
  obtain g where g: "add_out_arc (named_arc u t) (vg G) = Inr g" "loose u l (ids (vg G) u (set (t # ts)) - {i}) g"
      "vertices g = vertices (vg G)" "arcs g = arcs (vg G)"
    using loose_connect [OF Cons.prems(1) a i Cons.prems(4) na] by blast
  have "ids (vg G) u (set (t # ts)) - {i} = ids g u (set ts)"
  proof (rule set_eqI)
    fix j
    have other: "arc_top c = t \<Longrightarrow> arc_bottom c = u \<Longrightarrow> j = i" if "(j, c) \<in> set (arcs (vg G))" for c
      using loose_arc [OF Cons.prems(1) that a(1)] a(2) by (simp add: ends_def)
    have same: "c = a" if "(i, c) \<in> set (arcs (vg G))" for c using loose_id [OF Cons.prems(1) that a(1)] .
    show "j \<in> ids (vg G) u (set (t # ts)) - {i} \<longleftrightarrow> j \<in> ids g u (set ts)"
      using other same ends Cons.prems(2) by (auto simp: ids_def g(4))
  qed
  then have l: "loosened u l (set ts) g" using g(2) by simp
  let ?G = "add_fusion_edge_map (u @ ''_'' @ t) (l @ ''_'' @ t) (G\<lparr>vg := g\<rparr>)"
  have v: "vg ?G = g" "registed_outs ?G = registed_outs G" by (simp_all add: add_fusion_edge_map_def)
  have E: "edges g = edges (vg G)" by (simp add: edges_def g(4))
  have "\<exists>G'. foldE (connect_top u l) ts ?G = Inr G' \<and> wf_graph (vg G') \<and> linked (vg G') \<and> vertices (vg G') = vertices (vg ?G) \<and>
           edges (vg G') = edges (vg ?G) \<and> registed_outs G' = registed_outs ?G"
  proof (rule Cons.IH)
    show "loosened u l (set ts) (vg ?G)" using l v(1) by simp
    show "distinct ts" using Cons.prems(2) by simp
    show "(u, s) \<in> edges (vg ?G)" if "s \<in> set ts" for s using Cons.prems(3) [of s] that v(1) E by simp
    show "l \<notin> set (vertex_names (vg ?G))" using Cons.prems(4) v(1) g(3) by (simp add: vertex_names_def)
  qed
  moreover have "connect_top u l t G = Inr ?G" using g(1) by (simp add: connect_top_def)
  ultimately show ?case using v g(3) E by simp
qed

end
