(* ===== verification/Chain_Facts.thy ===== *)
theory Chain_Facts
  imports Fusion_Facts Traversal_Facts
begin

section \<open>The replacement\<close>

text \<open>Writing a vertex leaves the rest of the graph alone.\<close>

lemma set_vertex_skel: "skel (set_vertex v x g) = skel g"
  by (auto simp: skel_def set_vertex_def vertex_names_def)

lemma set_vertex_keeps:
  "wf_graph (set_vertex v x g) = wf_graph g" "linked (set_vertex v x g) = linked g" "edges (set_vertex v x g) = edges g"
  using skel_wf(1,2) [OF set_vertex_skel] by (simp_all add: edges_def set_vertex_def)

lemma succs_distinct:
  assumes "wf_graph g"
  shows "distinct (succs_of g v)"
proof -
  note d = wf_graphD [OF assms]
  have "inj_on (\<lambda>i. arc_top (the (map_of (arcs g) i))) (set (out_its g v))"
  proof (rule inj_onI)
    fix i j assume ij: "i \<in> set (out_its g v)" "j \<in> set (out_its g v)"
      and e: "arc_top (the (map_of (arcs g) i)) = arc_top (the (map_of (arcs g) j))"
    obtain a b where a: "(i, a) \<in> set (arcs g)" "arc_bottom a = v" and b: "(j, b) \<in> set (arcs g)" "arc_bottom b = v"
      using d(8) [OF ij(1)] d(8) [OF ij(2)] by blast
    have "ends a = ends b" using e a b d(2) by (simp add: ends_def)
    then show "i = j" using arc_unique [OF assms a(1) b(1)] by simp
  qed
  then show ?thesis using d(7) by (simp add: succs_of_def distinct_map)
qed

lemma tops_of:
  assumes "wf_graph g"
  shows "mapE (\<lambda>i. bindE (deref g i) (\<lambda>a. Inr (arc_top a))) (out_its g v) = Inr (succs_of g v)"
  unfolding succs_of_def
proof (rule mapE_total)
  fix i assume "i \<in> set (out_its g v)"
  then obtain a where "(i, a) \<in> set (arcs g)" using wf_graphD(8) [OF assms] by blast
  then show "bindE (deref g i) (\<lambda>a. Inr (arc_top a)) = Inr (arc_top (the (map_of (arcs g) i)))"
    using deref_mem [OF wf_graphD(2) [OF assms]] wf_graphD(2) [OF assms] by simp
qed

definition store :: "string \<Rightarrow> node \<Rightarrow> string list \<Rightarrow> (string \<times> node) list \<Rightarrow> (string \<times> node) list" where
  "store u x ns vs = map (\<lambda>(m, y). (m, if m = u then node_assign y x else y)) (filter (\<lambda>(m, _). m \<notin> set ns) vs)"

lemma store_node_run:
  assumes "u \<in> set (vertex_names (vg G))" "distinct (vertex_names (vg G))"
  shows "\<exists>g. store_node u x G = Inr (G\<lparr>vg := g\<rparr>) \<and> wf_graph g = wf_graph (vg G) \<and> linked g = linked (vg G) \<and> edges g = edges (vg G) \<and>
           vertices g = store u x [] (vertices (vg G))"
proof -
  obtain y where y: "map_of (vertices (vg G)) u = Some y"
    using assms(1) by (metis vertex_names_def map_of_eq_None_iff list.set_map not_Some_eq)
  let ?g = "set_vertex u (node_assign y x) (vg G)"
  have "store_node u x G = Inr (G\<lparr>vg := ?g\<rparr>)"
    using y by (simp add: store_node_def has_vertex_def upd_node_def vertex_at_def)
  moreover have "z = y" if "(u, z) \<in> set (vertices (vg G))" for z
    using that y assms(2) by (simp add: vertex_names_def)
  then have "vertices ?g = store u x [] (vertices (vg G))" by (auto simp: set_vertex_def store_def)
  ultimately show ?thesis by (intro exI [of _ ?g]) (simp add: set_vertex_keeps)
qed

lemma replace_chain_run:
  fixes G :: vgraph and last_node merge :: node
  assumes wf: "wf_graph (vg G)" "linked (vg G)" "acyclic (edges (vg G))"
    and c: "chain (edges (vg G)) u ns" "ns \<noteq> []"
    and names: "node_name last_node = last ns" "node_name merge = u"
      "node_name ` set (merge_nodes merge) = set ns \<union> old" "old \<inter> set (vertex_names (vg G)) = {}"
  shows "\<exists>G'. replace_chain op u (last_node, merge, saves) G = Inr G' \<and> wf_graph (vg G') \<and> linked (vg G') \<and>
    edges (vg G') = contracted u ns (edges (vg G)) \<and>
    vertices (vg G') = store u (set_merge_names saves (set_op_name op merge)) ns (vertices (vg G)) \<and>
    registed_outs G' = registed_outs G"
proof -
  let ?E = "edges (vg G)" and ?V = "set (vertex_names (vg G))" and ?l = "last ns"
  let ?ts = "succs_of (vg G) ?l" and ?m = "set_op_name op merge"
  note fresh = chain_fresh [OF wf(3) c(1)]
  have V: "u \<in> ?V" "set ns \<subseteq> ?V"
  proof -
    obtain w ws where "ns = w # ws" using c(2) by (cases ns) auto
    then show "u \<in> ?V" using c(1) edges_names(1) [OF wf(1)] chain_ConsD(1) by metis
    show "set ns \<subseteq> ?V"
    proof
      fix w assume "w \<in> set ns"
      then have "(u, w) \<in> ?E\<^sup>+" by (rule chain_reach [OF c(1)])
      then show "w \<in> ?V" by (cases rule: tranclE) (use edges_names(2) [OF wf(1)] in blast)+
    qed
  qed
  have l: "?l \<in> set ns" "last (u # ns) = ?l" using c(2) by simp_all
  have ul: "u \<noteq> ?l" using fresh(1) l(1) by metis
  have ts: "t \<in> set ?ts \<longleftrightarrow> (?l, t) \<in> ?E" for t using succs_of_edges [OF wf(1)] wf(2) by blast
  have m: "node_name ?m = u" "merge_nodes ?m = merge_nodes merge" using names(2) by (cases merge; simp)+
  have out: "t \<notin> set ns \<and> t \<noteq> u" if "t \<in> set ?ts" for t
    using chain_last_out [OF wf(3) c(1) _ c(2), of t] that ts l(2) by simp
  have tops: "bindE (get_out_arc_its (vg G) ?l) (\<lambda>its. bindE (mapE (\<lambda>i. bindE (deref (vg G) i) (\<lambda>a. Inr (arc_top a))) its) k)
      = k ?ts" for k :: "string list \<Rightarrow> vgraph outcome"
    using V(2) l(1) by (auto simp: get_out_arc_its_def has_vertex_iff tops_of [OF wf(1)])
  have loose0: "loosened u ?l {} (vg G)" using wf(1,2) by (simp add: loose_none)
  have only: "(u, t) \<in> ?E \<Longrightarrow> t \<in> set ns" for t using chain_succ [OF c(1), of u t] ul l(2) by simp
  obtain g1 where g1: "foldE (redirect_in u ?l) ?ts G = Inr (G\<lparr>vg := g1\<rparr>)" "loosened u ?l (set ?ts) g1"
      "vertices g1 = vertices (vg G)" "edges g1 = ?E - {?l} \<times> set ?ts \<union> {u} \<times> set ?ts"
    using redirect_all [OF loose0 succs_distinct [OF wf(1)] V(1) ul, of ?l] ts out only by auto
  have loops: "(w, w) \<notin> ?E" for w using wf(3) unfolding acyclic_def by blast
  have wns: "w \<noteq> u \<and> w \<notin> set ?ts \<and> (w, w) \<notin> edges g1" if "w \<in> node_name ` set (merge_nodes merge)" for w
  proof (cases "w \<in> set ns")
    case True
    then show ?thesis using fresh(1) out loops g1(4) by auto
  next
    case False
    then have "w \<notin> ?V" using that names(3,4) by blast
    moreover have "t \<in> ?V" if "t \<in> set ?ts" for t using that ts edges_names(2) [OF wf(1)] by blast
    ultimately show ?thesis using V(1) loops g1(4) by auto
  qed
  obtain g2 where g2: "foldE drop_node (merge_nodes merge) (G\<lparr>vg := g1\<rparr>) = Inr (G\<lparr>vg := g2\<rparr>)" "loosened u ?l (set ?ts) g2"
      "vertices g2 = filter (\<lambda>(m, _). m \<notin> set ns \<union> old) (vertices g1)"
      "edges g2 = {(a, b) \<in> edges g1. a \<notin> set ns \<union> old \<and> b \<notin> set ns \<union> old}"
    using drop_all [where u = u and l = ?l and T = "set ?ts" and G = "G\<lparr>vg := g1\<rparr>" and ns = "merge_nodes merge"] g1(2) wns unfolding names(3) by auto
  have v2: "vertices g2 = filter (\<lambda>(m, _). m \<notin> set ns) (vertices (vg G))"
    unfolding g2(3) g1(3) using names(4) by (force simp: vertex_names_def intro!: filter_cong)
  have E2: "edges g2 = contracted u ns ?E"
  proof -
    have "a \<notin> old \<and> b \<notin> old" if "(a, b) \<in> ?E" for a b using that edges_names [OF wf(1)] names(4) by blast
    moreover have "u \<notin> old" using V(1) names(4) by blast
    ultimately show ?thesis unfolding g2(4) g1(4) contracted_def l(2) using ts out l(1) fresh(1) by auto
  qed
  have l2: "?l \<notin> set (vertex_names g2)" using l(1) by (auto simp: vertex_names_def v2)
  have "\<exists>G'. foldE (connect_top u ?l) ?ts (G\<lparr>vg := g2\<rparr>) = Inr G' \<and> wf_graph (vg G') \<and> linked (vg G') \<and>
      vertices (vg G') = vertices (vg (G\<lparr>vg := g2\<rparr>)) \<and> edges (vg G') = edges (vg (G\<lparr>vg := g2\<rparr>)) \<and> registed_outs G' = registed_outs (G\<lparr>vg := g2\<rparr>)"
  proof (rule connect_all [OF _ succs_distinct [OF wf(1)]])
    show "(u, t) \<in> edges (vg (G\<lparr>vg := g2\<rparr>))" if "t \<in> set ?ts" for t
      using that E2 ts l(2) by (simp add: contracted_def)
  qed (use g2(2) l2 in simp_all)
  then obtain G3 where G3: "foldE (connect_top u ?l) ?ts (G\<lparr>vg := g2\<rparr>) = Inr G3" "wf_graph (vg G3)" "linked (vg G3)"
      "vertices (vg G3) = vertices g2" "edges (vg G3) = edges g2" "registed_outs G3 = registed_outs G" by auto
  have u3: "u \<in> set (vertex_names (vg G3))" using V(1) fresh(1) by (auto simp: vertex_names_def G3(4) v2)
  obtain g4 where g4: "store_node u (set_merge_names saves ?m) G3 = Inr (G3\<lparr>vg := g4\<rparr>)" "wf_graph g4" "linked g4" "edges g4 = edges (vg G3)"
      "vertices g4 = store u (set_merge_names saves ?m) [] (vertices (vg G3))"
    using store_node_run [OF u3 wf_graphD(1) [OF G3(2)]] G3(2,3) by blast
  have "replace_chain op u (last_node, merge, saves) G = Inr (G3\<lparr>vg := g4\<rparr>)"
    unfolding replace_chain_def Let_def prod.case tops m names(1) g1(1) g2(1) bindE_simps G3(1) g4(1) by (rule refl)
  moreover have "vertices g4 = store u (set_merge_names saves ?m) ns (vertices (vg G))"
    unfolding g4(5) G3(4) v2 by (simp add: store_def)
  ultimately show ?thesis using g4(2-4) G3(5,6) E2 by auto
qed

end
