(* ===== verification/Match_Facts.thy ===== *)
theory Match_Facts
  imports Chain_Facts
begin

text \<open>
  The search for a chain: what the loop finds is a chain of the graph, and \<open>ready\<close>, the invariant of the
  whole fusion, survives the search at an operator.
\<close>

section \<open>Patterns that are chains\<close>

text \<open>The operators behind the arcs \<open>its\<close> of a pattern are exactly the listed ones, in a row.\<close>

fun pat_path :: "(string, node, io) graph \<Rightarrow> arc_id list \<Rightarrow> (string \<times> string) list \<Rightarrow> bool" where
  "pat_path P its [] \<longleftrightarrow> its = []"
| "pat_path P its ((x, op) # xs) \<longleftrightarrow>
     (case its of [p] \<Rightarrow>
        (case bindE (deref P p) (\<lambda>a. bindE (vertex_at P (arc_top a)) (\<lambda>n. bindE (get_out_arc_its P (node_name n)) (\<lambda>its'. Inr (n, its')))) of
           Inr (n, its') \<Rightarrow> node_name n = x \<and> op_name n = op \<and> pat_path P its' xs
         | Inl _ \<Rightarrow> False)
      | _ \<Rightarrow> False)"

lemma pat_path_Cons:
  assumes "pat_path P its ((x, op) # xs)"
  shows "\<exists>p a n its'. its = [p] \<and> deref P p = Inr a \<and> vertex_at P (arc_top a) = Inr n \<and> get_out_arc_its P x = Inr its' \<and>
    node_name n = x \<and> op_name n = op \<and> pat_path P its' xs"
proof -
  obtain p where p: "its = [p]" using assms by (auto split: list.splits)
  then show ?thesis using assms by (auto simp: bindE_def split: sum.splits)
qed

text \<open>The operators that the registered patterns have behind their first one, and their first ones.\<close>

definition chain_ops :: "string list" where
  "chain_ops = [''ReLU'', ''BatchNorm'', ''Scale'', ''Power'', ''Pooling'', ''Activation'', ''AffineChannel'',
     ''SequencePool'', ''SoftSign'', ''Dense'']"

definition head_ops :: "string list" where
  "head_ops = [''Deconvolution'', ''Convolution'', ''Permute'', ''Eltwise'', ''SequenceConcat'', ''Dense'']"

definition chain_pattern :: "string \<Rightarrow> (string \<times> string) list \<Rightarrow> pattern \<Rightarrow> bool" where
  "chain_pattern x path p \<longleftrightarrow>
     (let P = pat_graph p
      in get_graph_ins P = Inr [x] \<and> path \<noteq> [] \<and> length path \<le> graph_size P \<and> set (map snd path) \<subseteq> set chain_ops \<and>
         fusion_op_name p \<notin> set chain_ops \<and>
         (case bindE (vertex_at P x) (\<lambda>n. bindE (get_out_arc_its P (node_name n)) (\<lambda>its. Inr (n, its))) of
            Inr (n, its) \<Rightarrow> op_name n \<in> set head_ops \<and> pat_path P its path | Inl _ \<Rightarrow> False))"

lemma chain_patternD:
  assumes "chain_pattern x path p"
  shows "get_graph_ins (pat_graph p) = Inr [x]" "path \<noteq> []" "length path \<le> graph_size (pat_graph p)"
    "snd ` set path \<subseteq> set chain_ops" "fusion_op_name p \<notin> set chain_ops"
    "\<exists>n its. vertex_at (pat_graph p) x = Inr n \<and> get_out_arc_its (pat_graph p) (node_name n) = Inr its \<and> op_name n \<in> set head_ops \<and>
       pat_path (pat_graph p) its path"
  using assms unfolding chain_pattern_def Let_def by (auto simp: bindE_def split: sum.splits)

section \<open>The invariant\<close>

definition op_at :: "(string, node, io) graph \<Rightarrow> string \<Rightarrow> string" where
  "op_at g v = (case map_of (vertices g) v of Some n \<Rightarrow> op_name n | None \<Rightarrow> '''')"

definition absorbed :: "(string, node, io) graph \<Rightarrow> string set" where
  "absorbed g = (\<Union>(_, n) \<in> set (vertices g). node_name ` set (merge_nodes n))"

text \<open>
  A virtual graph that the fusion can work on: the graph has no cycle, vertices have their own names,
  the names in \<open>merge_nodes\<close> are no vertices, the operators that occur behind the first one of a pattern
  are not fused yet and have one in-arc at most, and some arc starts at an operator of no pattern (the inputs of the net).
\<close>

definition ready :: "vgraph \<Rightarrow> bool" where
  "ready G \<longleftrightarrow> wf_graph (vg G) \<and> linked (vg G) \<and> acyclic (edges (vg G)) \<and>
     (\<forall>(v, n) \<in> set (vertices (vg G)). node_name n = v) \<and>
     absorbed (vg G) \<inter> set (vertex_names (vg G)) = {} \<and>
     (\<forall>(v, n) \<in> set (vertices (vg G)). op_name n \<in> set chain_ops \<longrightarrow> merge_nodes n = []) \<and>
     (\<forall>w x y. op_at (vg G) w \<in> set chain_ops \<longrightarrow> (x, w) \<in> edges (vg G) \<longrightarrow> (y, w) \<in> edges (vg G) \<longrightarrow> x = y) \<and>
     (\<exists>(x, y) \<in> edges (vg G). op_at (vg G) x \<notin> set head_ops \<union> set chain_ops)"

lemma readyD:
  assumes "ready G"
  shows "wf_graph (vg G)" "linked (vg G)" "acyclic (edges (vg G))" "\<And>v n. (v, n) \<in> set (vertices (vg G)) \<Longrightarrow> node_name n = v"
    "absorbed (vg G) \<inter> set (vertex_names (vg G)) = {}"
    "\<And>v n. (v, n) \<in> set (vertices (vg G)) \<Longrightarrow> op_name n \<in> set chain_ops \<Longrightarrow> merge_nodes n = []"
    "\<And>w x y. op_at (vg G) w \<in> set chain_ops \<Longrightarrow> (x, w) \<in> edges (vg G) \<Longrightarrow> (y, w) \<in> edges (vg G) \<Longrightarrow> x = y"
    "\<exists>(x, y) \<in> edges (vg G). op_at (vg G) x \<notin> set head_ops \<union> set chain_ops"
  using assms unfolding ready_def by blast+

lemma node_copy_name [simp]: "node_name (node_copy n) = node_name n" "op_name (node_copy n) = op_name n"
  by (cases n; simp)+

lemma node_copy_merge [simp]: "merge_nodes (node_copy n) = map node_copy (merge_nodes n)"
  by (cases n) simp

lemma node_assign_sel [simp]: "node_name (node_assign a b) = node_name b" "op_name (node_assign a b) = op_name b"
  "merge_nodes (node_assign a b) = map node_copy (merge_nodes b)"
  by (simp_all add: node_assign_def)

lemma node_add_sel [simp]: "node_name (node_add a b) = node_name a" "op_name (node_add a b) = op_name a"
  "merge_nodes (node_add a b) = merge_nodes a @ [node_copy b]"
  by (cases a; simp)+

lemma node_at_vertex:
  assumes "ready G" "v \<in> set (vertex_names (vg G))"
  shows "\<exists>n. vertex_at (vg G) v = Inr n \<and> (v, n) \<in> set (vertices (vg G)) \<and> node_name n = v \<and> op_at (vg G) v = op_name n"
proof -
  obtain n where n: "map_of (vertices (vg G)) v = Some n"
    using assms(2) by (metis vertex_names_def map_of_eq_None_iff list.set_map not_Some_eq)
  then have "(v, n) \<in> set (vertices (vg G))" by (rule map_of_SomeD)
  then show ?thesis using n readyD(4) [OF assms(1)] by (simp add: vertex_at_def op_at_def)
qed

text \<open>The only arc out of an operator.\<close>

lemma single_out:
  assumes "wf_graph g" "linked g" "out_its g v = [i]"
  shows "\<exists>a. deref g i = Inr a \<and> arc_bottom a = v \<and> (v, arc_top a) \<in> edges g \<and> (\<forall>x. (v, x) \<in> edges g \<longrightarrow> x = arc_top a)"
proof -
  note d = wf_graphD [OF assms(1)]
  obtain a where a: "(i, a) \<in> set (arcs g)" "arc_bottom a = v" using d(8) [of i v] assms(3) by auto
  have "x = arc_top a" if "(v, x) \<in> edges g" for x
  proof -
    obtain j b where b: "(j, b) \<in> set (arcs g)" "arc_bottom b = v" "arc_top b = x" using \<open>(v, x) \<in> edges g\<close> by (auto simp: edges_def ends_def)
    then have "j \<in> set (out_its g v)" using assms(2) by (auto simp: linked_def)
    then have "j = i" using assms(3) by simp
    then show ?thesis using b a(1) d(2) by (metis eq_key_imp_eq_value)
  qed
  moreover have "(v, arc_top a) \<in> edges g" using a by (force simp: edges_def ends_def)
  ultimately show ?thesis using deref_mem [OF d(2) a(1)] a(2) by blast
qed

section \<open>What the loop finds\<close>

definition found :: "vgraph \<Rightarrow> (string \<times> string) list \<Rightarrow> string \<Rightarrow> node \<times> node \<times> string list \<Rightarrow> node \<times> node \<times> string list \<Rightarrow> string list \<Rightarrow> bool" where
  "found G path v s t ns \<longleftrightarrow>
     chain (edges (vg G)) v ns \<and> map (op_at (vg G)) ns = map snd (take (length ns) path) \<and> length ns \<le> length path \<and>
     (length ns = length path \<or> out_its (vg G) (last (v # ns)) = []) \<and>
     node_name (fst t) = (if ns = [] then node_name (fst s) else last ns) \<and> node_name (fst (snd t)) = node_name (fst (snd s)) \<and>
     map node_name (merge_nodes (fst (snd t))) = map node_name (merge_nodes (fst (snd s))) @ ns \<and>
     snd (snd t) = snd (snd s) @ map fst (take (length ns) path)"

lemma loop_finds:
  assumes r: "ready G" and P: "pat_path P pits path" "length path \<le> k" "snd ` set path \<subseteq> set chain_ops" and v: "v \<in> set (vertex_names (vg G))"
  shows "\<exists>r. in_order_loop k P G pits (out_its (vg G) v) s = Inr r \<and>
    (case r of None \<Rightarrow> True | Some t \<Rightarrow> \<exists>ns. found G path v s t ns \<and> (path \<noteq> [] \<and> out_its (vg G) v \<noteq> [] \<longrightarrow> ns \<noteq> []))"
  using P v
proof (induction path arbitrary: k pits v s)
  case Nil
  then show ?case by (auto simp: found_def intro!: exI [of _ "[]"])
next
  case (Cons xo path)
  obtain x op where xo: "xo = (x, op)" by (cases xo)
  obtain nxt merge saves where s: "s = (nxt, merge, saves)" by (cases s)
  obtain k' where k: "k = Suc k'" using Cons.prems(2) by (cases k) auto
  obtain p a n pits' where p: "pits = [p]" "deref P p = Inr a" "vertex_at P (arc_top a) = Inr n" "get_out_arc_its P x = Inr pits'"
      "node_name n = x" "op_name n = op" "pat_path P pits' path"
    using pat_path_Cons [OF Cons.prems(1) [unfolded xo]] by blast
  show ?case
  proof (cases "out_its (vg G) v")
    case Nil
    then show ?thesis using p(1) s by (auto simp: found_def k intro!: exI [of _ "[]"])
  next
    case (Cons i "is")
    show ?thesis
    proof (cases "is = []")
      case False
      then show ?thesis using Cons p(1) s k by simp
    next
      case True
      then have o: "out_its (vg G) v = [i]" using Cons by simp
      obtain b where b: "deref (vg G) i = Inr b" "arc_bottom b = v" "(v, arc_top b) \<in> edges (vg G)"
          "\<And>y. (v, y) \<in> edges (vg G) \<Longrightarrow> y = arc_top b"
        using single_out [OF readyD(1,2) [OF r] o] by blast
      let ?w = "arc_top b"
      have w: "?w \<in> set (vertex_names (vg G))" using b(3) edges_names(2) [OF readyD(1) [OF r]] by blast
      obtain m where m: "vertex_at (vg G) ?w = Inr m" "node_name m = ?w" "op_at (vg G) ?w = op_name m"
        using node_at_vertex [OF r w] by blast
      let ?s = "(node_assign nxt m, node_add merge (node_assign nxt m), saves @ [x])"
      have run: "in_order_loop k P G pits (out_its (vg G) v) s =
          (if \<not> check_pass G v ?w then Inr None else if op \<noteq> op_name m then Inr None
           else in_order_loop k' P G pits' (out_its (vg G) ?w) ?s)"
      proof -
        have "get_out_arc_its (vg G) ?w = Inr (out_its (vg G) ?w)" using w by (simp add: get_out_arc_its_def has_vertex_iff)
        then show ?thesis by (simp add: p o b(1,2) s k m(1,2))
      qed
      show ?thesis
      proof (cases "check_pass G v ?w \<and> op = op_name m")
        case False
        then show ?thesis unfolding run by auto
      next
        case True
        have kp: "length path \<le> k'" "snd ` set path \<subseteq> set chain_ops" using Cons.prems(2,3) k by simp_all
        obtain r' where r': "in_order_loop k' P G pits' (out_its (vg G) ?w) ?s = Inr r'"
            "case r' of None \<Rightarrow> True | Some t \<Rightarrow> \<exists>ns. found G path ?w ?s t ns \<and> (path \<noteq> [] \<and> out_its (vg G) ?w \<noteq> [] \<longrightarrow> ns \<noteq> [])"
          using Cons.IH [OF p(7) kp w, of ?s] by blast
        show ?thesis
        proof (cases r')
          case None
          then show ?thesis using True r'(1) unfolding run by simp
        next
          case (Some t)
          then obtain ns where f: "found G path ?w ?s t ns" using r'(2) by auto
          have opm: "op_name m \<in> set chain_ops" using Cons.prems(3) True xo by simp
          have "\<forall>y. (y, ?w) \<in> edges (vg G) \<longrightarrow> y = v"
            using readyD(7) [OF r, of ?w] b(3) opm m(3) by simp
          then have "chain (edges (vg G)) v (?w # ns)"
            unfolding chain.simps(2) using b(3,4) f unfolding found_def by blast
          moreover have "node_name (fst t) = last (?w # ns)"
            using f m(2) by (simp add: found_def)
          ultimately have "found G ((x, op) # path) v s t (?w # ns)"
            using f True m(2,3) s by (auto simp: found_def)
          then show ?thesis using Some True r'(1) xo unfolding run by auto
        qed
      qed
    qed
  qed
qed


section \<open>Occurrences\<close>

definition occurs :: "vgraph \<Rightarrow> (string \<times> string) list \<Rightarrow> string \<Rightarrow> string list \<Rightarrow> bool" where
  "occurs G path v ns \<longleftrightarrow>
     chain (edges (vg G)) v ns \<and> map (op_at (vg G)) ns = map snd path \<and>
     (\<forall>e \<in> set (zip (v # ns) ns). e \<notin> set (registed_outs G))"

text \<open>The operator at which the pattern starts.\<close>

definition head_op :: "string \<Rightarrow> pattern \<Rightarrow> string" where
  "head_op x p = (case vertex_at (pat_graph p) x of Inr n \<Rightarrow> op_name n | Inl _ \<Rightarrow> '''')"

lemma out_single:
  assumes "wf_graph g" "linked g" "(v, w) \<in> edges g" "\<And>x. (v, x) \<in> edges g \<Longrightarrow> x = w"
  shows "\<exists>i a. out_its g v = [i] \<and> deref g i = Inr a \<and> arc_bottom a = v \<and> arc_top a = w"
proof -
  note d = wf_graphD [OF assms(1)]
  obtain i a where a: "(i, a) \<in> set (arcs g)" "arc_bottom a = v" "arc_top a = w"
    using assms(3) by (auto simp: edges_def ends_def)
  have i: "i \<in> set (out_its g v)" using assms(2) a by (auto simp: linked_def)
  have "j = i" if j: "j \<in> set (out_its g v)" for j
  proof -
    obtain b where b: "(j, b) \<in> set (arcs g)" "arc_bottom b = v" using d(8) [OF j] by blast
    then have "(v, arc_top b) \<in> edges g" by (force simp: edges_def ends_def)
    then have "ends b = ends a" using assms(4) a b(2) by (simp add: ends_def)
    then show ?thesis using arc_unique [OF assms(1) b(1) a(1)] by simp
  qed
  then have "set (out_its g v) = {i}" using i by blast
  moreover obtain j js where js: "out_its g v = j # js" using i by (cases "out_its g v") auto
  ultimately have "j = i" "set js \<subseteq> {i}" by auto
  moreover have "j \<notin> set js" using d(7) [of v] js by simp
  ultimately have "out_its g v = [i]" using js by (cases js) auto
  then show ?thesis using deref_mem [OF d(2) a(1)] a(2,3) by blast
qed

lemma loop_complete:
  assumes r: "ready G" and P: "pat_path P pits path" "length path \<le> k" and o: "occurs G path v ns"
  shows "\<exists>t. in_order_loop k P G pits (out_its (vg G) v) s = Inr (Some t)"
  using P o
proof (induction path arbitrary: k pits v ns s)
  case Nil
  then show ?case by (cases s) simp
next
  case (Cons xo path)
  obtain x op where xo: "xo = (x, op)" by (cases xo)
  obtain nxt merge saves where s: "s = (nxt, merge, saves)" by (cases s)
  obtain k' where k: "k = Suc k'" using Cons.prems(2) by (cases k) auto
  obtain p a n pits' where p: "pits = [p]" "deref P p = Inr a" "vertex_at P (arc_top a) = Inr n" "get_out_arc_its P x = Inr pits'"
      "node_name n = x" "op_name n = op" "pat_path P pits' path"
    using pat_path_Cons [OF Cons.prems(1) [unfolded xo]] by blast
  obtain w ws where ns: "ns = w # ws" using Cons.prems(3) by (cases ns) (auto simp: occurs_def)
  have c: "chain (edges (vg G)) v (w # ws)" using Cons.prems(3) by (simp add: occurs_def ns)
  note cc = chain_ConsD [OF c]
  obtain i b where b: "out_its (vg G) v = [i]" "deref (vg G) i = Inr b" "arc_bottom b = v" "arc_top b = w"
    using out_single [OF readyD(1,2) [OF r] cc(1,2)] by blast
  have w: "w \<in> set (vertex_names (vg G))" using cc(1) edges_names(2) [OF readyD(1) [OF r]] by blast
  obtain m where m: "vertex_at (vg G) w = Inr m" "node_name m = w" "op_at (vg G) w = op_name m"
    using node_at_vertex [OF r w] by blast
  have op: "op = op_name m" and pass: "check_pass G v w" and o': "occurs G path w ws"
    using Cons.prems(3) cc(4) m(3) by (auto simp: occurs_def ns xo check_pass_def)
  have out: "get_out_arc_its (vg G) w = Inr (out_its (vg G) w)" using w by (simp add: get_out_arc_its_def has_vertex_iff)
  have run: "in_order_loop k P G pits (out_its (vg G) v) s =
      in_order_loop k' P G pits' (out_its (vg G) w) (node_assign nxt m, node_add merge (node_assign nxt m), saves @ [x])"
    using pass by (simp add: p b k s m(1,2) op out)
  have "length path \<le> k'" using Cons.prems(2) k by simp
  then show ?case unfolding run by (rule Cons.IH [OF p(7) _ o'])
qed

section \<open>The search at an operator\<close>

definition fused :: "pattern \<Rightarrow> string \<Rightarrow> string list \<Rightarrow> vgraph \<Rightarrow> vgraph \<Rightarrow> bool" where
  "fused p v ns G H \<longleftrightarrow>
     ns \<noteq> [] \<and> v \<in> set (vertex_names (vg G)) \<and> chain (edges (vg G)) v ns \<and>
     op_at (vg G) v \<in> set head_ops \<and> op_at (vg G) ` set ns \<subseteq> set chain_ops \<and>
     wf_graph (vg H) \<and> linked (vg H) \<and> edges (vg H) = contracted v ns (edges (vg G)) \<and> registed_outs H = registed_outs G \<and>
     (\<exists>n m. (v, m) \<in> set (vertices (vg G)) \<and> vertices (vg H) = store v n ns (vertices (vg G)) \<and> op_name n = fusion_op_name p \<and>
        node_name n = v \<and> node_name ` set (merge_nodes n) = set ns \<union> node_name ` set (merge_nodes m))"

lemma set_merge_names_sel [simp]: "node_name (set_merge_names xs n) = node_name n" "op_name (set_merge_names xs n) = op_name n"
  "merge_nodes (set_merge_names xs n) = merge_nodes n"
  by (cases n; simp)+

lemma set_op_name_sel [simp]: "node_name (set_op_name x n) = node_name n" "op_name (set_op_name x n) = x"
  "merge_nodes (set_op_name x n) = merge_nodes n"
  by (cases n; simp)+

lemma search_run:
  assumes r: "ready G" and p: "chain_pattern x path p" and v: "v \<in> set (vertex_names (vg G))"
  shows "search_in_order p v G = Inr G \<and> \<not> (\<exists>ns. op_at (vg G) v = head_op x p \<and> occurs G path v ns) \<or>
    (\<exists>ns H. search_in_order p v G = Inr H \<and> fused p v ns G H)"
proof -
  let ?P = "pat_graph p"
  note d = chain_patternD [OF p]
  obtain n its where n: "vertex_at ?P x = Inr n" "get_out_arc_its ?P (node_name n) = Inr its" "op_name n \<in> set head_ops" "pat_path ?P its path"
    using d(6) by blast
  obtain y op rest where path: "path = (y, op) # rest" using d(2) by (cases path) auto
  obtain q a pn where q: "its = [q]" "deref ?P q = Inr a" "vertex_at ?P (arc_top a) = Inr pn"
    using pat_path_Cons [OF n(4) [unfolded path]] by blast
  obtain m where m: "vertex_at (vg G) v = Inr m" "(v, m) \<in> set (vertices (vg G))" "node_name m = v" "op_at (vg G) v = op_name m"
    using node_at_vertex [OF r v] by blast
  have vits: "get_out_arc_its (vg G) v = Inr (out_its (vg G) v)" using v by (simp add: get_out_arc_its_def has_vertex_iff)
  show ?thesis
  proof (cases "op_name n = op_name m \<and> length (out_its (vg G) v) = 1")
    case False
    have "\<not> (\<exists>ns. op_at (vg G) v = head_op x p \<and> occurs G path v ns)"
    proof
      assume "\<exists>ns. op_at (vg G) v = head_op x p \<and> occurs G path v ns"
      then obtain ns where o: "op_at (vg G) v = head_op x p" "occurs G path v ns" by blast
      then obtain w ws where "chain (edges (vg G)) v (w # ws)" using path by (cases ns) (auto simp: occurs_def)
      then have "length (out_its (vg G) v) = 1" using out_single [OF readyD(1,2) [OF r] chain_ConsD(1,2)] by fastforce
      then show False using False o(1) m(4) n(1) by (simp add: head_op_def)
    qed
    moreover have "search_in_order p v G = Inr G"
      using False vits by (auto simp: search_in_order_def Let_def m(1,3) d(1) n(1,2) check_def)
    ultimately show ?thesis by blast
  next
    case True
    then obtain i where i: "out_its (vg G) v = [i]" by (auto simp: length_Suc_conv)
    obtain b where b: "deref (vg G) i = Inr b" "(v, arc_top b) \<in> edges (vg G)"
      using single_out [OF readyD(1,2) [OF r] i] by blast
    have w: "arc_top b \<in> set (vertex_names (vg G))" using b(2) edges_names(2) [OF readyD(1) [OF r]] by blast
    obtain k where k: "vertex_at (vg G) (arc_top b) = Inr k" using node_at_vertex [OF r w] by blast
    let ?s = "(node_copy k, node_copy m, [])"
    have run: "search_in_order p v G = bindE (in_order_loop (graph_size ?P) ?P G its (out_its (vg G) v) ?s) (\<lambda>r.
        case r of None \<Rightarrow> Inr G | Some s \<Rightarrow> replace_chain (fusion_op_name p) v s G)"
      using vits True by (simp add: search_in_order_def Let_def m(1,3) d(1) n(1,2) check_def q i b(1) k)
    obtain t where t: "in_order_loop (graph_size ?P) ?P G its (out_its (vg G) v) ?s = Inr t"
        "case t of None \<Rightarrow> True | Some t \<Rightarrow> \<exists>ns. found G path v ?s t ns \<and> (path \<noteq> [] \<and> out_its (vg G) v \<noteq> [] \<longrightarrow> ns \<noteq> [])"
      using loop_finds [OF r n(4) d(3,4) v, of ?s] by blast
    show ?thesis
    proof (cases t)
      case None
      then have "\<not> (\<exists>ns. occurs G path v ns)" using loop_complete [OF r n(4) d(3), of v _ ?s] t(1) by auto
      then show ?thesis using None t(1) unfolding run by simp
    next
      case (Some t')
      then obtain ns where f: "found G path v ?s t' ns" "ns \<noteq> []" using t(2) d(2) i by auto
      obtain last_node merge saves where t': "t' = (last_node, merge, saves)" by (cases t')
      have c: "chain (edges (vg G)) v ns" using f(1) by (simp add: found_def)
      let ?old = "node_name ` set (merge_nodes m)"
      have sel: "node_name last_node = last ns" "node_name merge = v" "node_name ` set (merge_nodes merge) = set ns \<union> ?old"
      proof -
        have "map node_name (merge_nodes merge) = map node_name (map node_copy (merge_nodes m)) @ ns"
          using f(1) by (simp add: found_def t')
        from arg_cong [OF this, of set] show "node_name ` set (merge_nodes merge) = set ns \<union> ?old" by (auto simp: image_image)
      qed (use f m(3) in \<open>simp_all add: found_def t'\<close>)
      have old: "?old \<inter> set (vertex_names (vg G)) = {}"
        using readyD(5) [OF r] m(2) by (force simp: absorbed_def)
      obtain H where H: "replace_chain (fusion_op_name p) v (last_node, merge, saves) G = Inr H" "wf_graph (vg H)" "linked (vg H)"
          "edges (vg H) = contracted v ns (edges (vg G))"
          "vertices (vg H) = store v (set_merge_names saves (set_op_name (fusion_op_name p) merge)) ns (vertices (vg G))"
          "registed_outs H = registed_outs G"
        using replace_chain_run [OF readyD(1-3) [OF r] c f(2) sel old] by blast
      have ops: "op_at (vg G) ` set ns \<subseteq> set chain_ops"
      proof -
        have "set (map (op_at (vg G)) ns) = set (map snd (take (length ns) path))" using f(1) unfolding found_def by simp
        also have "\<dots> \<subseteq> snd ` set path" by (auto dest: in_set_takeD)
        finally show ?thesis using d(4) by auto
      qed
      have "\<exists>n m. (v, m) \<in> set (vertices (vg G)) \<and> vertices (vg H) = store v n ns (vertices (vg G)) \<and> op_name n = fusion_op_name p \<and>
          node_name n = v \<and> node_name ` set (merge_nodes n) = set ns \<union> node_name ` set (merge_nodes m)"
        using m(2) H(5) sel(2,3) by (intro exI [of _ "set_merge_names saves (set_op_name (fusion_op_name p) merge)"] exI [of _ m]) simp
      then have "fused p v ns G H"
        unfolding fused_def using f(2) v c ops H(2-4,6) n(3) True m(4) by auto
      moreover have "search_in_order p v G = Inr H" unfolding run t(1) Some t' using H(1) by simp
      ultimately show ?thesis by blast
    qed
  qed
qed

end
