(* ===== verification/Fusion_Run.thy ===== *)
theory Fusion_Run
  imports Match_Facts
begin

text \<open>
  The breadth-first search that fuses: it returns on every graph that is \<open>ready\<close>, keeps it ready, and
  between the operators that are left the paths are those of the graph it started from.
\<close>

section \<open>One replacement\<close>

definition contracts :: "vgraph \<Rightarrow> vgraph \<Rightarrow> bool" where
  "contracts G H \<longleftrightarrow>
     set (vertex_names (vg H)) \<subseteq> set (vertex_names (vg G)) \<and>
     set (vertex_names (vg H)) \<union> absorbed (vg H) = set (vertex_names (vg G)) \<union> absorbed (vg G) \<and>
     (\<forall>a b. a \<in> set (vertex_names (vg H)) \<longrightarrow> b \<in> set (vertex_names (vg H)) \<longrightarrow>
        ((a, b) \<in> (edges (vg H))\<^sup>* \<longleftrightarrow> (a, b) \<in> (edges (vg G))\<^sup>*)) \<and>
     (\<forall>(v, n) \<in> set (vertices (vg H)). (v, n) \<in> set (vertices (vg G)) \<or> merge_nodes n \<noteq> []) \<and>
     registed_outs H = registed_outs G"

lemma contracts_refl: "contracts G G"
  by (auto simp: contracts_def)

lemma contractsD:
  assumes "contracts G H"
  shows "set (vertex_names (vg H)) \<subseteq> set (vertex_names (vg G))"
    "set (vertex_names (vg H)) \<union> absorbed (vg H) = set (vertex_names (vg G)) \<union> absorbed (vg G)"
    "\<And>a b. a \<in> set (vertex_names (vg H)) \<Longrightarrow> b \<in> set (vertex_names (vg H)) \<Longrightarrow>
        (a, b) \<in> (edges (vg H))\<^sup>* \<longleftrightarrow> (a, b) \<in> (edges (vg G))\<^sup>*"
    "\<And>v n. (v, n) \<in> set (vertices (vg H)) \<Longrightarrow> (v, n) \<in> set (vertices (vg G)) \<or> merge_nodes n \<noteq> []"
    "registed_outs H = registed_outs G"
  using assms unfolding contracts_def by blast+

lemma contracts_trans:
  assumes "contracts F G" "contracts G H"
  shows "contracts F H"
proof -
  note a = contractsD [OF assms(1)] and b = contractsD [OF assms(2)]
  show ?thesis
    unfolding contracts_def
  proof (intro conjI allI impI)
    show "set (vertex_names (vg H)) \<subseteq> set (vertex_names (vg F))" using b(1) a(1) by (rule subset_trans)
    show "set (vertex_names (vg H)) \<union> absorbed (vg H) = set (vertex_names (vg F)) \<union> absorbed (vg F)"
      using b(2) a(2) by (rule trans)
    show "(x, y) \<in> (edges (vg H))\<^sup>* \<longleftrightarrow> (x, y) \<in> (edges (vg F))\<^sup>*"
      if xy: "x \<in> set (vertex_names (vg H))" "y \<in> set (vertex_names (vg H))" for x y
    proof -
      have "x \<in> set (vertex_names (vg G))" "y \<in> set (vertex_names (vg G))" using xy b(1) by (auto dest: subsetD)
      then have "(x, y) \<in> (edges (vg G))\<^sup>* \<longleftrightarrow> (x, y) \<in> (edges (vg F))\<^sup>*" by (rule a(3))
      with b(3) [OF xy] show ?thesis by (rule trans)
    qed
    show "\<forall>(v, n) \<in> set (vertices (vg H)). (v, n) \<in> set (vertices (vg F)) \<or> merge_nodes n \<noteq> []"
      using a(4) b(4) by (clarify, metis)
    show "registed_outs H = registed_outs F" using b(5) a(5) by (rule trans)
  qed
qed

lemma fusedD:
  assumes "fused p v ns G H"
  shows "ns \<noteq> []" "v \<in> set (vertex_names (vg G))" "chain (edges (vg G)) v ns"
    "op_at (vg G) v \<in> set head_ops" "op_at (vg G) ` set ns \<subseteq> set chain_ops"
    "wf_graph (vg H)" "linked (vg H)" "edges (vg H) = contracted v ns (edges (vg G))" "registed_outs H = registed_outs G"
    "\<exists>n m. (v, m) \<in> set (vertices (vg G)) \<and> vertices (vg H) = store v n ns (vertices (vg G)) \<and> op_name n = fusion_op_name p \<and>
        node_name n = v \<and> node_name ` set (merge_nodes n) = set ns \<union> node_name ` set (merge_nodes m)"
  using assms unfolding fused_def by blast+

lemma store_mem:
  "(w, z) \<in> set (store v n ns vs) \<longleftrightarrow> w \<notin> set ns \<and> (\<exists>y. (w, y) \<in> set vs \<and> z = (if w = v then node_assign y n else y))"
  by (induction vs) (auto simp: store_def)

lemma store_names: "map fst (store v n ns vs) = filter (\<lambda>w. w \<notin> set ns) (map fst vs)"
  by (induction vs) (auto simp: store_def)

lemma op_at_mem:
  assumes "distinct (vertex_names g)" "(v, n) \<in> set (vertices g)"
  shows "op_at g v = op_name n"
  using assms by (simp add: op_at_def vertex_names_def)

lemma op_at_none: "v \<notin> set (vertex_names g) \<Longrightarrow> op_at g v = ''''"
  by (auto simp: op_at_def vertex_names_def map_of_eq_None_iff [THEN iffD2])

lemma vertex_mem: "w \<in> set (vertex_names g) \<Longrightarrow> \<exists>n. (w, n) \<in> set (vertices g)"
  by (auto simp: vertex_names_def)

lemma fused_names:
  assumes "ready G" "fused p v ns G H"
  shows "set (vertex_names (vg H)) = set (vertex_names (vg G)) - set ns" "v \<notin> set ns"
    "v \<in> set (vertex_names (vg H))"
proof -
  note d = fusedD [OF assms(2)]
  show n: "set (vertex_names (vg H)) = set (vertex_names (vg G)) - set ns"
  proof -
    obtain n where "vertices (vg H) = store v n ns (vertices (vg G))" using d(10) by blast
    then have "vertex_names (vg H) = filter (\<lambda>w. w \<notin> set ns) (vertex_names (vg G))" by (simp add: vertex_names_def store_names)
    then show ?thesis by auto
  qed
  show "v \<notin> set ns" by (rule chain_fresh(1) [OF readyD(3) [OF assms(1)] d(3)])
  then show "v \<in> set (vertex_names (vg H))" using n d(2) by blast
qed

lemma fused_op:
  assumes "ready G" "fused p v ns G H" "w \<in> set (vertex_names (vg H))"
  shows "op_at (vg H) w = (if w = v then fusion_op_name p else op_at (vg G) w)"
proof -
  note d = fusedD [OF assms(2)]
  obtain n where n: "vertices (vg H) = store v n ns (vertices (vg G))" "op_name n = fusion_op_name p" using d(10) by blast
  obtain z where z: "(w, z) \<in> set (vertices (vg H))" using vertex_mem [OF assms(3)] by blast
  then obtain y where y: "(w, y) \<in> set (vertices (vg G))" "z = (if w = v then node_assign y n else y)"
    unfolding n(1) store_mem by blast
  show ?thesis
    using op_at_mem [OF wf_graphD(1) [OF d(6)] z] op_at_mem [OF wf_graphD(1) [OF readyD(1) [OF assms(1)]] y(1)] y(2) n(2) by auto
qed

lemma fused_absorbed:
  assumes r: "ready G" and f: "fused p v ns G H"
  shows "absorbed (vg H) = absorbed (vg G) \<union> set ns"
proof -
  note d = fusedD [OF f]
  obtain n m where n: "(v, m) \<in> set (vertices (vg G))" "vertices (vg H) = store v n ns (vertices (vg G))"
      "node_name ` set (merge_nodes n) = set ns \<union> node_name ` set (merge_nodes m)" using d(10) by blast
  note wd = wf_graphD(1) [OF readyD(1) [OF r]]
  have none: "merge_nodes y = []" if "(w, y) \<in> set (vertices (vg G))" "w \<in> set ns" for w y
    using readyD(6) [OF r that(1)] d(5) that op_at_mem [OF wd that(1)] by auto
  have uniq: "y = m" if "(v, y) \<in> set (vertices (vg G))" for y
    using that n(1) wd by (metis eq_key_imp_eq_value vertex_names_def)
  have val: "node_name ` set (merge_nodes (node_assign y n)) = set ns \<union> node_name ` set (merge_nodes m)" for y
    using n(3) by (simp add: image_image)
  show ?thesis
  proof (intro set_eqI iffI)
    fix x assume "x \<in> absorbed (vg H)"
    then obtain w z where z: "(w, z) \<in> set (vertices (vg H))" "x \<in> node_name ` set (merge_nodes z)" unfolding absorbed_def by blast
    then obtain y where y: "(w, y) \<in> set (vertices (vg G))" "z = (if w = v then node_assign y n else y)"
      unfolding n(2) store_mem by blast
    show "x \<in> absorbed (vg G) \<union> set ns"
    proof (cases "w = v")
      case True
      then have "x \<in> set ns \<union> node_name ` set (merge_nodes m)" using z(2) y(2) val by simp
      then show ?thesis using n(1) unfolding absorbed_def by blast
    next
      case False
      then show ?thesis using z(2) y unfolding absorbed_def by auto
    qed
  next
    fix x assume x: "x \<in> absorbed (vg G) \<union> set ns"
    have v: "(v, node_assign m n) \<in> set (vertices (vg H))" unfolding n(2) store_mem using n(1) fused_names(2) [OF r f] by auto
    show "x \<in> absorbed (vg H)"
    proof (cases "x \<in> set ns \<union> node_name ` set (merge_nodes m)")
      case True
      then show ?thesis using v val unfolding absorbed_def by blast
    next
      case False
      then obtain w y where y: "(w, y) \<in> set (vertices (vg G))" "x \<in> node_name ` set (merge_nodes y)" using x unfolding absorbed_def by blast
      then have "w \<noteq> v" "w \<notin> set ns" using False uniq none by auto
      then have "(w, y) \<in> set (vertices (vg H))" unfolding n(2) store_mem using y(1) by auto
      then show ?thesis using y(2) unfolding absorbed_def by blast
    qed
  qed
qed

lemma fused_ready:
  assumes r: "ready G" and f: "fused p v ns G H" and op: "fusion_op_name p \<notin> set chain_ops"
  shows "ready H"
  unfolding ready_def
proof (intro conjI allI impI)
  note d = fusedD [OF f] and q = readyD [OF r] and V = fused_names [OF r f]
  obtain n where n: "vertices (vg H) = store v n ns (vertices (vg G))" "node_name n = v" "op_name n = fusion_op_name p" using d(10) by blast
  show "wf_graph (vg H)" "linked (vg H)" by (rule d)+
  show "acyclic (edges (vg H))" unfolding d(8) by (rule contracted_acyclic [OF q(3) d(3)])
  have node: "node_name z = w \<and> (op_name z \<in> set chain_ops \<longrightarrow> merge_nodes z = [])" if z: "(w, z) \<in> set (vertices (vg H))" for w z
  proof -
    obtain y where y: "(w, y) \<in> set (vertices (vg G))" "z = (if w = v then node_assign y n else y)"
      using z unfolding n(1) store_mem by blast
    show ?thesis using q(4) [OF y(1)] q(6) [OF y(1)] y(2) n(2,3) op by auto
  qed
  then show "\<forall>(w, z) \<in> set (vertices (vg H)). node_name z = w"
    "\<forall>(w, z) \<in> set (vertices (vg H)). op_name z \<in> set chain_ops \<longrightarrow> merge_nodes z = []" by blast+
  show "absorbed (vg H) \<inter> set (vertex_names (vg H)) = {}"
    unfolding fused_absorbed [OF r f] V(1) using q(5) by blast
  have kept: "w \<in> set (vertex_names (vg H)) \<and> w \<noteq> v \<and> op_at (vg G) w = op_at (vg H) w" if "op_at (vg H) w \<in> set chain_ops" for w
  proof -
    have "w \<in> set (vertex_names (vg H))"
    proof (rule ccontr)
      assume "w \<notin> set (vertex_names (vg H))"
      then have "op_at (vg H) w = ''''" by (rule op_at_none)
      then show False using that by (simp add: chain_ops_def)
    qed
    then show ?thesis using fused_op [OF r f, of w] that op by (auto split: if_splits)
  qed
  show "x = y" if w: "op_at (vg H) w \<in> set chain_ops" and xy: "(x, w) \<in> edges (vg H)" "(y, w) \<in> edges (vg H)" for w x y
  proof -
    obtain x' where x': "(x', w) \<in> edges (vg G)" "x = image_of_chain v ns x'"
      using contracted_preds(3) [OF q(3) d(3,1) xy(1) [unfolded d(8)]] by blast
    obtain y' where y': "(y', w) \<in> edges (vg G)" "y = image_of_chain v ns y'"
      using contracted_preds(3) [OF q(3) d(3,1) xy(2) [unfolded d(8)]] by blast
    have "op_at (vg G) w \<in> set chain_ops" using kept [OF w] w by simp
    then have "x' = y'" using q(7) x'(1) y'(1) by blast
    then show ?thesis using x'(2) y'(2) by simp
  qed
  obtain a b where ab: "(a, b) \<in> edges (vg G)" "op_at (vg G) a \<notin> set head_ops \<union> set chain_ops" using q(8) by blast
  have a: "a \<noteq> v" "a \<notin> set ns" using ab(2) d(4,5) by auto
  have "b \<notin> set ns" using chain_pred [OF d(3) _ ab(1)] a in_set_butlastD by fastforce
  then have "(a, b) \<in> edges (vg H)" unfolding d(8) contracted_def using ab(1) a(2) by blast
  moreover have "op_at (vg H) a = op_at (vg G) a"
    using fused_op [OF r f, of a] edges_names(1) [OF d(6) calculation] a(1) by simp
  ultimately show "\<exists>(x, y) \<in> edges (vg H). op_at (vg H) x \<notin> set head_ops \<union> set chain_ops" using ab(2) by (metis (mono_tags, lifting) case_prodI)
qed

lemma fused_contracts:
  assumes r: "ready G" and f: "fused p v ns G H"
  shows "contracts G H"
  unfolding contracts_def
proof (intro conjI allI impI)
  note d = fusedD [OF f] and q = readyD [OF r] and V = fused_names [OF r f]
  show "set (vertex_names (vg H)) \<subseteq> set (vertex_names (vg G))" using V(1) by blast
  have "set ns \<subseteq> set (vertex_names (vg G))"
  proof
    fix w assume w: "w \<in> set ns"
    show "w \<in> set (vertex_names (vg G))"
    proof (rule ccontr)
      assume "w \<notin> set (vertex_names (vg G))"
      then have "op_at (vg G) w = ''''" by (rule op_at_none)
      then show False using d(5) w by (force simp: chain_ops_def)
    qed
  qed
  then show "set (vertex_names (vg H)) \<union> absorbed (vg H) = set (vertex_names (vg G)) \<union> absorbed (vg G)"
    unfolding fused_absorbed [OF r f] V(1) by blast
  show "(a, b) \<in> (edges (vg H))\<^sup>* \<longleftrightarrow> (a, b) \<in> (edges (vg G))\<^sup>*"
    if "a \<in> set (vertex_names (vg H))" "b \<in> set (vertex_names (vg H))" for a b
    unfolding d(8) by (rule contracted_reach [OF q(3) d(3)]) (use that V(1) in blast)+
  obtain n where n: "vertices (vg H) = store v n ns (vertices (vg G))" "set ns \<subseteq> node_name ` set (merge_nodes n)" using d(10) by blast
  show "\<forall>(w, z) \<in> set (vertices (vg H)). (w, z) \<in> set (vertices (vg G)) \<or> merge_nodes z \<noteq> []"
  proof (clarify)
    fix w z assume z: "(w, z) \<in> set (vertices (vg H))" "(w, z) \<notin> set (vertices (vg G))" "merge_nodes z = []"
    then obtain y where "(w, y) \<in> set (vertices (vg G))" "z = (if w = v then node_assign y n else y)"
      unfolding n(1) store_mem by blast
    then have "merge_nodes n = []" using z(2,3) by (auto split: if_splits)
    then show False using n(2) d(1) by simp
  qed
  show "registed_outs H = registed_outs G" by (rule d(9))
qed


section \<open>The search over the graph\<close>

text \<open>
  \<open>d\<close> are the operators that were visited, \<open>q\<close> the queue: what was seen is an input or has a visited
  predecessor, so the operators of a chain behind an unvisited one are not in the queue.
\<close>

definition seen :: "string list \<Rightarrow> string list \<Rightarrow> vgraph \<Rightarrow> bool" where
  "seen d q G \<longleftrightarrow>
     distinct (d @ q) \<and> set (d @ q) \<subseteq> set (vertex_names (vg G)) \<and>
     (\<forall>w \<in> set (d @ q). (\<exists>x. (x, w) \<in> edges (vg G)) \<longrightarrow> (\<exists>x \<in> set d. (x, w) \<in> edges (vg G))) \<and>
     (\<forall>w x. w \<in> set d \<longrightarrow> (w, x) \<in> edges (vg G) \<longrightarrow> x \<in> set (d @ q)) \<and>
     (\<forall>w x. (w, x) \<in> edges (vg G) \<longrightarrow> (\<forall>y. (y, w) \<notin> edges (vg G)) \<longrightarrow> w \<in> set (d @ q))"

lemma seenD:
  assumes "seen d q G"
  shows "distinct (d @ q)" "set (d @ q) \<subseteq> set (vertex_names (vg G))"
    "\<And>w x. w \<in> set (d @ q) \<Longrightarrow> (x, w) \<in> edges (vg G) \<Longrightarrow> \<exists>x \<in> set d. (x, w) \<in> edges (vg G)"
    "\<And>w x. w \<in> set d \<Longrightarrow> (w, x) \<in> edges (vg G) \<Longrightarrow> x \<in> set (d @ q)"
    "\<And>w x. (w, x) \<in> edges (vg G) \<Longrightarrow> (\<And>y. (y, w) \<notin> edges (vg G)) \<Longrightarrow> w \<in> set (d @ q)"
  using assms unfolding seen_def by blast+

lemma chain_unseen:
  assumes "seen d q G" "chain (edges (vg G)) v ns" "v \<notin> set d"
  shows "set ns \<inter> set (d @ q) = {}"
  using assms(2,3)
proof (induction ns arbitrary: v)
  case (Cons w ws)
  note c = chain_ConsD [OF Cons.prems(1)]
  have w: "w \<notin> set (d @ q)"
  proof
    assume "w \<in> set (d @ q)"
    then obtain x where "x \<in> set d" "(x, w) \<in> edges (vg G)" using seenD(3) [OF assms(1) _ c(1)] by blast
    then show False using c(3) Cons.prems(2) by blast
  qed
  then have "set ws \<inter> set (d @ q) = {}" by (intro Cons.IH [OF c(4)]) simp
  then show ?case using w by simp
qed simp

lemma contracted_pred_iff:
  assumes "acyclic E" "chain E u ns" "w \<notin> set ns"
  shows "(\<exists>x. (x, w) \<in> contracted u ns E) \<longleftrightarrow> (\<exists>x. (x, w) \<in> E)"
proof
  assume "\<exists>x. (x, w) \<in> contracted u ns E"
  then show "\<exists>x. (x, w) \<in> E" by (auto simp: contracted_def)
next
  assume "\<exists>x. (x, w) \<in> E"
  then obtain x where x: "(x, w) \<in> E" by blast
  show "\<exists>x. (x, w) \<in> contracted u ns E"
  proof (cases "x \<in> set ns")
    case True
    then have "x = last (u # ns)" using chain_succ [OF assms(2) _ _ x] assms(3) by blast
    then show ?thesis using x by (auto simp: contracted_def)
  next
    case False
    then show ?thesis using x assms(3) by (auto simp: contracted_def)
  qed
qed

lemma fused_seen:
  assumes r: "ready G" and f: "fused p v ns G H" and s: "seen d (v # q) G"
  shows "distinct (d @ v # q)" "set (d @ v # q) \<subseteq> set (vertex_names (vg H))"
    "\<And>w x. w \<in> set (d @ v # q) \<Longrightarrow> (x, w) \<in> edges (vg H) \<Longrightarrow> \<exists>x \<in> set d. (x, w) \<in> edges (vg H)"
    "\<And>w x. w \<in> set d \<Longrightarrow> (w, x) \<in> edges (vg H) \<Longrightarrow> x \<in> set (d @ v # q)"
    "\<And>w x. (w, x) \<in> edges (vg H) \<Longrightarrow> (\<And>y. (y, w) \<notin> edges (vg H)) \<Longrightarrow> w \<in> set (d @ v # q)"
proof -
  note a = seenD [OF s] and d = fusedD [OF f] and V = fused_names [OF r f]
  note ac = readyD(3) [OF r]
  show "distinct (d @ v # q)" by (rule a(1))
  have vd: "v \<notin> set d" using a(1) by simp
  note un = chain_unseen [OF s d(3) vd]
  show "set (d @ v # q) \<subseteq> set (vertex_names (vg H))" unfolding V(1) using a(2) un by blast
  show "\<exists>x \<in> set d. (x, w) \<in> edges (vg H)" if w: "w \<in> set (d @ v # q)" and x: "(x, w) \<in> edges (vg H)" for w x
  proof -
    have wn: "w \<notin> set ns" using w un by blast
    have "\<exists>x. (x, w) \<in> edges (vg G)" using contracted_pred_iff [OF ac d(3) wn] x unfolding d(8) by blast
    then obtain y where "y \<in> set d" "(y, w) \<in> edges (vg G)" using a(3) [OF w] by blast
    then show ?thesis unfolding d(8) contracted_def using un wn by auto
  qed
  show "x \<in> set (d @ v # q)" if w: "w \<in> set d" and x: "(w, x) \<in> edges (vg H)" for w x
  proof -
    have "w \<noteq> v" using w vd by blast
    then have "(w, x) \<in> edges (vg G)" using x unfolding d(8) contracted_def by blast
    then show ?thesis using a(4) w by blast
  qed
  show "w \<in> set (d @ v # q)" if x: "(w, x) \<in> edges (vg H)" and no: "\<And>y. (y, w) \<notin> edges (vg H)" for w x
  proof -
    have wn: "w \<notin> set ns" using edges_names(1) [OF d(6) x] V(1) by blast
    then have none: "(y, w) \<notin> edges (vg G)" for y using contracted_pred_iff [OF ac d(3)] no unfolding d(8) by blast
    have "\<exists>x. (w, x) \<in> edges (vg G)"
    proof (cases "w = v")
      case True
      obtain n ms where "ns = n # ms" using d(1) by (cases ns) auto
      then show ?thesis using chain_ConsD(1) d(3) True by metis
    next
      case False
      then show ?thesis using x unfolding d(8) contracted_def by blast
    qed
    then show ?thesis using a(5) none by blast
  qed
qed

text \<open>The successors of the visited operator join the queue.\<close>

lemma seen_next:
  assumes g: "wf_graph (vg H)" "linked (vg H)" and v: "v \<in> set (vertex_names (vg H))"
    and a: "distinct (d @ v # q)" "set (d @ v # q) \<subseteq> set (vertex_names (vg H))"
    "\<And>w x. w \<in> set (d @ v # q) \<Longrightarrow> (x, w) \<in> edges (vg H) \<Longrightarrow> \<exists>x \<in> set d. (x, w) \<in> edges (vg H)"
    "\<And>w x. w \<in> set d \<Longrightarrow> (w, x) \<in> edges (vg H) \<Longrightarrow> x \<in> set (d @ v # q)"
    "\<And>w x. (w, x) \<in> edges (vg H) \<Longrightarrow> (\<And>y. (y, w) \<notin> edges (vg H)) \<Longrightarrow> w \<in> set (d @ v # q)"
  shows "\<exists>q'. fold push_new (succs_of (vg H) v) (q, d @ v # q) = (q', (d @ [v]) @ q') \<and> seen (d @ [v]) q' H"
proof -
  obtain new where new: "fold push_new (succs_of (vg H) v) (q, d @ v # q) = (q @ new, (d @ v # q) @ new)"
      "distinct new" "set new = set (succs_of (vg H) v) - set (d @ v # q)"
    using push_new_fold [of "succs_of (vg H) v" q "d @ v # q"] by auto
  have sc: "x \<in> set (succs_of (vg H) v) \<longleftrightarrow> (v, x) \<in> edges (vg H)" for x using succs_of_edges [OF g(1)] g(2) by blast
  have all: "set ((d @ [v]) @ q @ new) = set (d @ v # q) \<union> set new" by auto
  have "seen (d @ [v]) (q @ new) H"
    unfolding seen_def
  proof (intro conjI ballI allI impI)
    show "distinct ((d @ [v]) @ q @ new)" using a(1) new(2,3) by auto
    show "set ((d @ [v]) @ q @ new) \<subseteq> set (vertex_names (vg H))"
      unfolding all using a(2) new(3) sc edges_names(2) [OF g(1)] by auto
    show "\<exists>x \<in> set (d @ [v]). (x, w) \<in> edges (vg H)"
      if w: "w \<in> set ((d @ [v]) @ q @ new)" and x: "\<exists>x. (x, w) \<in> edges (vg H)" for w
    proof (cases "w \<in> set new")
      case True
      then show ?thesis using new(3) sc by auto
    next
      case False
      then have "w \<in> set (d @ v # q)" using w all by blast
      then show ?thesis using a(3) x by fastforce
    qed
    show "x \<in> set ((d @ [v]) @ q @ new)" if w: "w \<in> set (d @ [v])" and x: "(w, x) \<in> edges (vg H)" for w x
    proof (cases "w = v")
      case True
      then show ?thesis using x sc new(3) by auto
    next
      case False
      then have "x \<in> set (d @ v # q)" using w x a(4) by simp
      then show ?thesis using all by blast
    qed
    show "w \<in> set ((d @ [v]) @ q @ new)" if x: "(w, x) \<in> edges (vg H)" and no: "\<forall>y. (y, w) \<notin> edges (vg H)" for w x
      unfolding all using a(5) [OF x] no by blast
  qed
  then show ?thesis using new(1) by (intro exI [of _ "q @ new"]) simp
qed

end
