(* ===== verification/Fusion_Search.thy ===== *)
theory Fusion_Search
  imports Fusion_Run
begin

text \<open>
  The whole search: it returns, its result is a contraction of the graph, and an operator at which the
  pattern occurs is fused or has become part of another fused operator.
\<close>

section \<open>Occurrences survive other replacements\<close>

lemma chain_contracted:
  assumes "chain E u ns" "chain E v ms" "ms \<noteq> []" "v \<notin> insert u (set ns)" "insert u (set ns) \<inter> set ms = {}"
  shows "chain (contracted v ms E) u ns"
  using assms(1,4,5)
proof (induction ns arbitrary: u)
  case (Cons w ws)
  note c = chain_ConsD [OF Cons.prems(1)]
  have l: "last (v # ms) \<noteq> u" using Cons.prems(3) assms(3) by (metis disjoint_iff insertI1 last_ConsR last_in_set)
  have "(u, w) \<in> contracted v ms E" using c(1) Cons.prems(3) by (simp add: contracted_def)
  moreover have "\<forall>x. (u, x) \<in> contracted v ms E \<longrightarrow> x = w" using c(2) Cons.prems(2) by (auto simp: contracted_def)
  moreover have "\<forall>x. (x, w) \<in> contracted v ms E \<longrightarrow> x = u" using c(3) l unfolding contracted_def by blast
  moreover have "chain (contracted v ms E) w ws" by (rule Cons.IH [OF c(4)]) (use Cons.prems(2,3) in auto)
  ultimately show ?case unfolding chain.simps(2) by blast
qed simp

lemma chains_disjoint:
  assumes "chain E u ns" "chain E v ms" "u \<noteq> v" "u \<notin> set ms" "v \<notin> set ns"
  shows "set ns \<inter> set ms = {}"
  using assms(1,3-5)
proof (induction ns arbitrary: u)
  case (Cons w ws)
  note c = chain_ConsD [OF Cons.prems(1)]
  have w: "w \<notin> set ms"
  proof
    assume "w \<in> set ms"
    then have "u \<in> insert v (set (butlast ms))" by (rule chain_pred [OF assms(2) _ c(1)])
    then show False using Cons.prems(2,3) by (auto dest: in_set_butlastD)
  qed
  then have "set ws \<inter> set ms = {}" using Cons.prems(4) by (intro Cons.IH [OF c(4)]) auto
  then show ?case using w by simp
qed simp

lemma zip_mem: "e \<in> set (zip (v # ns) ns) \<Longrightarrow> snd e \<in> set ns"
  by (metis in_set_zipE prod.collapse)

lemma fused_occurs:
  assumes r: "ready G" and f: "fused p v ms G H" and s: "seen d (v # q) G" and u: "u \<notin> set d" "u \<noteq> v" "u \<notin> set ms"
    and o: "occurs G path u ns"
  shows "occurs H path u ns"
proof -
  note d = fusedD [OF f] and V = fused_names [OF r f]
  have c: "chain (edges (vg G)) u ns" using o by (simp add: occurs_def)
  have v: "v \<notin> set ns" using chain_unseen [OF s c u(1)] by auto
  have dis: "set ns \<inter> set ms = {}" by (rule chains_disjoint [OF c d(3) u(2,3) v])
  have "chain (edges (vg H)) u ns"
    unfolding d(8) by (rule chain_contracted [OF c d(3,1)]) (use u v dis in auto)
  moreover have "map (op_at (vg H)) ns = map (op_at (vg G)) ns"
  proof (rule map_cong [OF refl])
    fix w assume w: "w \<in> set ns"
    have "(u, w) \<in> (edges (vg G))\<^sup>+" by (rule chain_reach [OF c w])
    then have "w \<in> set (vertex_names (vg G))" by (cases rule: tranclE) (use edges_names(2) [OF readyD(1) [OF r]] in blast)+
    then have "w \<in> set (vertex_names (vg H))" using V(1) w dis by blast
    moreover have "w \<noteq> v" using v w by blast
    ultimately show "op_at (vg H) w = op_at (vg G) w" using fused_op [OF r f] by simp
  qed
  ultimately show ?thesis using o d(9) unfolding occurs_def by presburger
qed

section \<open>The loop\<close>

text \<open>What becomes of an operator \<open>u\<close> at which the pattern occurs.\<close>

definition awaits :: "string \<Rightarrow> (string \<times> string) list \<Rightarrow> pattern \<Rightarrow> string \<Rightarrow> string list \<Rightarrow> string list \<Rightarrow> vgraph \<Rightarrow> bool" where
  "awaits x path p u ns d G \<longleftrightarrow>
     (u \<in> set (vertex_names (vg G)) \<longrightarrow>
        (if u \<in> set d then op_at (vg G) u = fusion_op_name p else op_at (vg G) u = head_op x p \<and> occurs G path u ns))"

lemma search_step:
  assumes r: "ready G" and p: "chain_pattern x path p" and s: "seen d (v # q) G"
  shows "\<exists>H q'. search_in_order p v G = Inr H \<and> ready H \<and> contracts G H \<and> v \<in> set (vertex_names (vg H)) \<and>
    fold push_new (succs_of (vg H) v) (q, d @ v # q) = (q', (d @ [v]) @ q') \<and> seen (d @ [v]) q' H \<and>
    (\<forall>u ns. awaits x path p u ns d G \<longrightarrow> awaits x path p u ns (d @ [v]) H)"
proof -
  have v: "v \<in> set (vertex_names (vg G))" "v \<notin> set d" using seenD(1,2) [OF s] by auto
  consider (same) "search_in_order p v G = Inr G" "\<not> (\<exists>ns. op_at (vg G) v = head_op x p \<and> occurs G path v ns)"
    | (fuse) ms H where "search_in_order p v G = Inr H" "fused p v ms G H"
    using search_run [OF r p v(1)] by blast
  then show ?thesis
  proof cases
    case same
    have "\<exists>q'. fold push_new (succs_of (vg G) v) (q, d @ v # q) = (q', (d @ [v]) @ q') \<and> seen (d @ [v]) q' G"
      by (rule seen_next [OF readyD(1,2) [OF r] v(1)]) (use seenD [OF s] in blast)+
    moreover have "awaits x path p u ns (d @ [v]) G" if "awaits x path p u ns d G" for u ns
      using that same(2) v by (cases "u = v") (auto simp: awaits_def)
    ultimately show ?thesis using same(1) r v(1) contracts_refl by blast
  next
    case fuse
    note V = fused_names [OF r fuse(2)] and d = fusedD [OF fuse(2)]
    have rH: "ready H" by (rule fused_ready [OF r fuse(2) chain_patternD(5) [OF p]])
    have "\<exists>q'. fold push_new (succs_of (vg H) v) (q, d @ v # q) = (q', (d @ [v]) @ q') \<and> seen (d @ [v]) q' H"
      by (rule seen_next [OF d(6,7) V(3)]) (use fused_seen [OF r fuse(2) s] in blast)+
    moreover have "awaits x path p u ns (d @ [v]) H" if a: "awaits x path p u ns d G" for u ns
      unfolding awaits_def
    proof
      assume uH: "u \<in> set (vertex_names (vg H))"
      then have uG: "u \<in> set (vertex_names (vg G))" "u \<notin> set ms" using V(1) by blast+
      note op = fused_op [OF r fuse(2) uH]
      consider "u = v" | "u \<noteq> v" "u \<in> set d" | "u \<noteq> v" "u \<notin> set d" by blast
      then show "if u \<in> set (d @ [v]) then op_at (vg H) u = fusion_op_name p
          else op_at (vg H) u = head_op x p \<and> occurs H path u ns"
      proof cases
        case 1
        then show ?thesis using op by simp
      next
        case 2
        then show ?thesis using op a uG(1) by (simp add: awaits_def)
      next
        case 3
        then show ?thesis using op a uG fused_occurs [OF r fuse(2) s] by (simp add: awaits_def)
      qed
    qed
    ultimately show ?thesis using fuse(1) rH V(3) fused_contracts [OF r fuse(2)] by blast
  qed
qed

lemma loop_fuses:
  assumes p: "chain_pattern x path p"
  shows "ready G \<Longrightarrow> seen d q G \<Longrightarrow> length (vertex_names (vg G)) \<le> k + length d \<Longrightarrow>
    \<exists>H d'. bfs_loop k (vg \<circ> id) (no_status (search_in_order p)) q (d @ q) G = Inr H \<and> ready H \<and> contracts G H \<and>
      seen d' [] H \<and> set (d @ q) \<subseteq> set d' \<and> (\<forall>u ns. awaits x path p u ns d G \<longrightarrow> awaits x path p u ns d' H)"
proof (induction k arbitrary: d q G)
  case 0
  have "q = []"
  proof (rule ccontr)
    assume "q \<noteq> []"
    then have "length d < length (d @ q)" by simp
    also have "\<dots> = card (set (d @ q))" using seenD(1) [OF 0(2)] by (metis distinct_card)
    also have "\<dots> \<le> card (set (vertex_names (vg G)))" by (rule card_mono [OF _ seenD(2) [OF 0(2)]]) simp
    also have "\<dots> \<le> length d" using 0(3) card_length [of "vertex_names (vg G)"] by simp
    finally show False by simp
  qed
  then show ?case using 0 contracts_refl by auto
next
  case (Suc k)
  show ?case
  proof (cases q)
    case Nil
    then show ?thesis using Suc.prems contracts_refl by auto
  next
    case (Cons v q0)
    have s: "seen d (v # q0) G" using Suc.prems(2) Cons by simp
    obtain H q' where H: "search_in_order p v G = Inr H" "ready H" "contracts G H" "v \<in> set (vertex_names (vg H))"
        "fold push_new (succs_of (vg H) v) (q0, d @ v # q0) = (q', (d @ [v]) @ q')" "seen (d @ [v]) q' H"
        "\<And>u ns. awaits x path p u ns d G \<Longrightarrow> awaits x path p u ns (d @ [v]) H"
      using search_step [OF Suc.prems(1) p s] by blast
    note w = readyD(1) [OF H(2)]
    have nm: "length (vertex_names (vg H)) \<le> length (vertex_names (vg G))"
      using contractsD(1) [OF H(3)] wf_graphD(1) [OF w] wf_graphD(1) [OF readyD(1) [OF Suc.prems(1)]]
      by (metis List.finite_set card_mono distinct_card)
    then have fuel: "length (vertex_names (vg H)) \<le> k + length (d @ [v])" using Suc.prems(3) by simp
    obtain I d' where I: "bfs_loop k (vg \<circ> id) (no_status (search_in_order p)) q' ((d @ [v]) @ q') H = Inr I" "ready I" "contracts H I"
        "seen d' [] I" "set ((d @ [v]) @ q') \<subseteq> set d'" "\<And>u ns. awaits x path p u ns (d @ [v]) H \<Longrightarrow> awaits x path p u ns d' I"
      using Suc.IH [OF H(2,6) fuel] by blast
    obtain as where as: "mapE (deref (vg H)) (out_its (vg H) v) = Inr as" "map arc_top as = succs_of (vg H) v"
      using succs_of_deref [OF w] by blast
    have push: "fold (\<lambda>a. push_new (arc_top a)) as (q0, d @ v # q0) = (q', (d @ [v]) @ q')"
      using H(5) fold_map [of push_new arc_top as] as(2) by (simp add: comp_def)
    have "v \<in> set (vertex_names (vg G))" using seenD(2) [OF s] by simp
    from vertex_at_names [OF this] obtain y where y: "vertex_at (vg G) v = Inr y" by (elim exE)
    have "bfs_loop (Suc k) (vg \<circ> id) (no_status (search_in_order p)) q (d @ q) G
        = bfs_loop k (vg \<circ> id) (no_status (search_in_order p)) q' ((d @ [v]) @ q') H"
    proof -
      have o: "get_out_arc_its (vg H) v = Inr (out_its (vg H) v)" using H(4) by (simp add: get_out_arc_its_def has_vertex_iff)
      have ret: "OK \<noteq> EXIT" by simp
      show ?thesis
        unfolding Cons bfs_loop.simps(3) no_status_def o_apply id_apply y bindE_simps H(1) prod.case if_not_P [OF ret] o as(1) push
        by (rule refl)
    qed
    then have run: "bfs_loop (Suc k) (vg \<circ> id) (no_status (search_in_order p)) q (d @ q) G = Inr I" using I(1) by simp
    have c: "contracts G I" by (rule contracts_trans [OF H(3) I(3)])
    have "set (d @ q) \<subseteq> set (d @ [v]) \<union> set q'"
    proof -
      obtain new where "fold push_new (succs_of (vg H) v) (q0, d @ v # q0) = (q0 @ new, (d @ v # q0) @ new)"
        using push_new_fold [of "succs_of (vg H) v" q0 "d @ v # q0"] by (elim exE conjE)
      then have "q' = q0 @ new" using H(5) by simp
      then show ?thesis using Cons by auto
    qed
    then have "set (d @ q) \<subseteq> set d'" using I(5) by auto
    moreover have "awaits x path p u ns d' I" if "awaits x path p u ns d G" for u ns by (rule I(6) [OF H(7) [OF that]])
    ultimately show ?thesis using run I(2,4) c by (intro exI [of _ I] exI [of _ d'] conjI allI impI)
  qed
qed

section \<open>From the inputs\<close>

lemma source_before:
  assumes "finite E" "acyclic E" "(y, u) \<in> E"
  shows "\<exists>z. (z, u) \<in> E\<^sup>+ \<and> (\<forall>x. (x, z) \<notin> E)"
proof -
  have "wf E" using assms(1,2) by (rule finite_acyclic_wf)
  then show ?thesis
    using assms(3)
  proof (induction y arbitrary: u rule: wf_induct_rule)
    case (less y)
    show ?case
    proof (cases "\<exists>x. (x, y) \<in> E")
      case True
      then obtain x where x: "(x, y) \<in> E" by blast
      obtain z where "(z, y) \<in> E\<^sup>+" "\<forall>x. (x, z) \<notin> E" using less.IH [OF x x] by blast
      then show ?thesis using less.prems trancl_into_trancl by meson
    next
      case False
      then show ?thesis using less.prems by blast
    qed
  qed
qed

lemma edges_finite [simp]: "finite (edges g)"
  by (simp add: edges_def)

lemma fuse_in_order_run:
  assumes r: "ready G" and p: "chain_pattern x path p"
  shows "\<exists>H. fuse_in_order p G = Inr H \<and> ready H \<and> contracts G H \<and>
    (\<forall>u ns. op_at (vg G) u = head_op x p \<longrightarrow> occurs G path u ns \<longrightarrow>
       u \<in> absorbed (vg H) \<or> (u \<in> set (vertex_names (vg H)) \<and> op_at (vg H) u = fusion_op_name p))"
proof -
  note q = readyD [OF r]
  obtain ins where ins: "get_graph_ins (vg G) = Inr ins" by (simp add: get_graph_ins_def ins_loop_total)
  have src: "set ins = {b. (\<exists>t. (b, t) \<in> edges (vg G)) \<and> (\<forall>u. (u, b) \<notin> edges (vg G))}"
    by (rule get_graph_ins_spec(1) [OF q(1,2) ins])
  have source: "w \<in> set ins \<or> (\<exists>z \<in> set ins. (z, w) \<in> (edges (vg G))\<^sup>+)" if wt: "(w, t) \<in> edges (vg G)" for w t
  proof (cases "\<exists>y. (y, w) \<in> edges (vg G)")
    case True
    then obtain z where z: "(z, w) \<in> (edges (vg G))\<^sup>+" "\<forall>x. (x, z) \<notin> edges (vg G)"
      using source_before [OF edges_finite q(3)] by blast
    then obtain y where "(z, y) \<in> edges (vg G)" by (meson tranclD)
    then show ?thesis using z src by blast
  next
    case False
    then show ?thesis using src wt by blast
  qed
  have ne: "ins \<noteq> []" using q(8) source by fastforce
  obtain que where que: "fold push_new ins ([], []) = (que, que)" "distinct que" "set que = set ins" using start_queue by metis
  have s: "seen [] que G"
    unfolding seen_def using que(2,3) src edges_names(1) [OF q(1)] by auto
  have "length (vertex_names (vg G)) \<le> graph_size (vg G) + length ([] :: string list)" by (simp add: graph_size_def vertex_names_def)
  then obtain H d where H: "bfs_loop (graph_size (vg G)) (vg \<circ> id) (no_status (search_in_order p)) que ([] @ que) G = Inr H"
      "ready H" "contracts G H" "seen d [] H" "set ([] @ que) \<subseteq> set d"
      "\<And>u ns. awaits x path p u ns [] G \<Longrightarrow> awaits x path p u ns d H"
    using loop_fuses [OF p r s] by blast
  have run: "fuse_in_order p G = Inr H"
    using H(1) ins ne que(1) by (simp add: fuse_in_order_def scan_nodes_def bfs_void_def bfs_def check_def)
  have "u \<in> absorbed (vg H) \<or> (u \<in> set (vertex_names (vg H)) \<and> op_at (vg H) u = fusion_op_name p)"
    if u: "op_at (vg G) u = head_op x p" "occurs G path u ns" for u ns
  proof -
    obtain w ws where "ns = w # ws" using u(2) chain_patternD(2) [OF p] by (cases ns) (auto simp: occurs_def)
    then have uw: "(u, w) \<in> edges (vg G)" using u(2) chain_ConsD(1) by (auto simp: occurs_def)
    have "u \<in> set (vertex_names (vg G))" by (rule edges_names(1) [OF q(1) uw])
    then have VA: "u \<in> set (vertex_names (vg H)) \<union> absorbed (vg H)" using contractsD(2) [OF H(3)] by blast
    show ?thesis
    proof (cases "u \<in> set (vertex_names (vg H))")
      case True
      have "u \<in> set d"
      proof (cases "u \<in> set ins")
        case True
        then show ?thesis using H(5) que(3) by auto
      next
        case False
        then obtain z where z: "z \<in> set ins" "(z, u) \<in> (edges (vg G))\<^sup>+" using source [OF uw] by blast
        have zd: "z \<in> set d" using z(1) H(5) que(3) by auto
        then have "z \<in> set (vertex_names (vg H))" using seenD(2) [OF H(4)] by auto
        then have "(z, u) \<in> (edges (vg H))\<^sup>*" using contractsD(3) [OF H(3)] True z(2) by (simp add: trancl_into_rtrancl)
        then show ?thesis by (induction rule: rtrancl_induct) (use zd seenD(4) [OF H(4)] in auto)
      qed
      moreover have "awaits x path p u ns d H" by (rule H(6)) (use u in \<open>simp add: awaits_def\<close>)
      ultimately show ?thesis using True by (simp add: awaits_def)
    qed (use VA in blast)
  qed
  then show ?thesis using run H(2,3) by blast
qed

end
