(* ===== verification/Parallel_Fusion.thy ===== *)
theory Parallel_Fusion
  imports Fusion_Pattern
begin

text \<open>
  The fusion of operators in parallel: the functor \<open>IN_PARELLEL\<close> of
  \<open>framework/graph/llvm/fusion/graph_pattern.cpp\<close>, which merges the successors of an operator that are
  all the one operator of the pattern, and \<open>VGraph::Match\<close> of \<open>virtual_graph.cpp\<close>. The functor's first search
  (\<open>search_vgraph\<close>) is never called.
\<close>

section \<open>Merging the successors of an operator\<close>

fun clear_merge_nodes :: "node \<Rightarrow> node" where
  "clear_merge_nodes (Node n op fn pr ms ks mns l w) = Node n op fn pr [] ks mns l w"

definition top_nodes_named :: "string \<Rightarrow> string \<Rightarrow> vgraph \<Rightarrow> node list outcome" where
  "top_nodes_named op v G =
     bindE (get_out_arc_its (vg G) v) (\<lambda>its.
     foldE (\<lambda>i ns. bindE (deref (vg G) i) (\<lambda>a. bindE (vertex_at (vg G) (arc_top a)) (\<lambda>n.
              Inr (if op_name n = op then ns @ [node_copy n] else ns)))) its [])"

text \<open>\<open>pattern_node_name_saves\<close>: one digit is appended, also behind the ninth operator.\<close>

definition numbered_names :: "string \<Rightarrow> nat \<Rightarrow> string list" where
  "numbered_names x k = map (\<lambda>i. x @ ''_'' @ [char_of (i + 48)]) [1..<k]"

definition note_name :: "string \<Rightarrow> string list \<Rightarrow> string list" where
  "note_name x xs = (if x \<in> set xs then xs else xs @ [x])"

definition redirect_out :: "string \<Rightarrow> string \<Rightarrow> string \<Rightarrow> vgraph \<Rightarrow> vgraph outcome" where
  "redirect_out merged old b G =
     bindE (get_out_arc_its (vg G) b) (\<lambda>its.
     bindE (find_index (\<lambda>i. bindE (deref (vg G) i) (\<lambda>a. Inr (arc_top a = old))) its 0) (\<lambda>idx.
     case idx of None \<Rightarrow> Inr G
     | Some i \<Rightarrow>
         bindE (update_out_arc (named_arc b merged) i (vg G)) (\<lambda>g.
         Inr (set_weight (its ! i) (\<lambda>w. w\<lparr>io_name := arc_name (named_arc b merged)\<rparr>) (G\<lparr>vg := g\<rparr>)))))"

text \<open>One out-arc of a merged operator, and one in-arc; an arc that the merged operator has already stays.\<close>

definition move_out_arc :: "string \<Rightarrow> string \<Rightarrow> arc_id \<Rightarrow> string list \<times> vgraph \<Rightarrow> (string list \<times> vgraph) outcome" where
  "move_out_arc merged old i s =
     (case s of (tops, G) \<Rightarrow>
      bindE (deref (vg G) i) (\<lambda>a.
      bindE (get_in_arc_its (vg G) (arc_top a)) (\<lambda>its.
      bindE (find_index (\<lambda>j. bindE (deref (vg G) j) (\<lambda>b. Inr (arc_bottom b = merged))) its 0) (\<lambda>has.
      if has \<noteq> None then Inr (note_name (arc_top a) tops, G)
      else bindE (redirect_in merged old (arc_top a) G) (\<lambda>G'. Inr (note_name (arc_top a) tops, G'))))))"

definition move_in_arc :: "string \<Rightarrow> string \<Rightarrow> arc_id \<Rightarrow> string list \<times> vgraph \<Rightarrow> (string list \<times> vgraph) outcome" where
  "move_in_arc merged old i s =
     (case s of (ins, G) \<Rightarrow>
      bindE (deref (vg G) i) (\<lambda>a.
      bindE (get_out_arc_its (vg G) (arc_bottom a)) (\<lambda>its.
      bindE (find_index (\<lambda>j. bindE (deref (vg G) j) (\<lambda>b. Inr (arc_top b = merged))) its 0) (\<lambda>has.
      if has \<noteq> None then Inr (note_name (arc_bottom a) ins, G)
      else bindE (redirect_out merged old (arc_bottom a) G) (\<lambda>G'. Inr (note_name (arc_bottom a) ins, G'))))))"

definition move_arcs :: "(vgraph \<Rightarrow> string \<Rightarrow> arc_id list outcome) \<Rightarrow>
    (string \<Rightarrow> string \<Rightarrow> arc_id \<Rightarrow> string list \<times> vgraph \<Rightarrow> (string list \<times> vgraph) outcome) \<Rightarrow>
    string \<Rightarrow> node list \<Rightarrow> vgraph \<Rightarrow> (string list \<times> vgraph) outcome" where
  "move_arcs its_of move merged ns G =
     foldE (\<lambda>n (xs, G). if node_name n = merged then Inr (xs, G)
              else bindE (its_of G (node_name n)) (\<lambda>its. foldE (move merged (node_name n)) its (xs, G))) ns ([], G)"

definition search_from_onenode :: "pattern \<Rightarrow> string \<Rightarrow> vgraph \<Rightarrow> vgraph outcome" where
  "search_from_onenode p v G =
     (case vertices (pat_graph p) of
        [] \<Rightarrow> Inl DanglingDeref
      | (merge_name, pn) # rest \<Rightarrow>
        if rest \<noteq> [] then Inr G
        else bindE (top_nodes_named (op_name pn) v G) (\<lambda>ns.
          case ns of
            [] \<Rightarrow> Inr G
          | n0 # others \<Rightarrow>
            if others = [] then Inr G
            else
              let merged = fold (\<lambda>n m. node_add m n) others (clear_merge_nodes (node_copy n0));
                  saves = numbered_names merge_name (length ns)
              in bindE (move_arcs (\<lambda>G. get_out_arc_its (vg G)) move_out_arc (node_name merged) ns G) (\<lambda>(tops, G1).
                 bindE (move_arcs (\<lambda>G. get_in_arc_its (vg G)) move_in_arc (node_name merged) ns G1) (\<lambda>(ins, G2).
                 bindE (foldE drop_node others G2) (\<lambda>G3.
                 bindE (foldE (\<lambda>t G. bindE (add_out_arc (named_arc (node_name merged) t) (vg G)) (\<lambda>g. Inr (G\<lparr>vg := g\<rparr>))) tops G3) (\<lambda>G4.
                 bindE (foldE (\<lambda>b G. bindE (add_in_arc (named_arc b (node_name merged)) (vg G)) (\<lambda>g. Inr (G\<lparr>vg := g\<rparr>))) ins G4) (\<lambda>G5.
                 upd_node (node_name merged)
                   (\<lambda>m. node_assign m (set_merge_names saves (set_op_name (fusion_op_name p) merged))) G5)))))))"

text \<open>The loops behind the search read all arcs and log differences.\<close>

definition test_arcs :: "vgraph \<Rightarrow> vgraph outcome" where
  "test_arcs G =
     bindE (mapE (\<lambda>v. bindE (get_out_arc_its (vg G) v) (mapE (deref (vg G)))) (vertex_names (vg G))) (\<lambda>_.
     bindE (mapE (\<lambda>v. bindE (get_in_arc_its (vg G) v) (mapE (deref (vg G)))) (vertex_names (vg G))) (\<lambda>_. Inr G))"

definition fuse_parallel :: "pattern \<Rightarrow> vgraph \<Rightarrow> vgraph outcome" where
  "fuse_parallel p G =
     bindE (connect_table G) (\<lambda>_.
     bindE (dfs_void (graph_size (vg G)) vg (search_from_onenode p) G) test_arcs)"

section \<open>Match\<close>

definition match_pattern :: "pattern \<Rightarrow> vgraph \<Rightarrow> vgraph outcome" where
  "match_pattern p G =
     (case pat_kind p of
        Some IN_ORDER \<Rightarrow> fuse_in_order p G
      | Some IN_PARELLEL \<Rightarrow> fuse_parallel p G
      | Some GRAPH \<Rightarrow> Inr G
      | _ \<Rightarrow> Inr G)"

section \<open>The patterns of a target\<close>

datatype place = NV | X86 | ARM | AMD | BM | MLU
datatype precision = FP32 | FP16 | INT8

text \<open>The patterns that the loop of \<open>Graph::Optimize\<close> leaves out.\<close>

definition skips_pattern :: "place \<Rightarrow> precision \<Rightarrow> string \<Rightarrow> bool" where
  "skips_pattern t pr n =
     (let pool = n = ''ConvReluPool'' \<or> n = ''ConvBatchnormScaleReluPool''
      in if t = X86 \<and> pool then True
         else if t = NV \<and> INT8 = pr \<and> pool then True
         else if t = ARM \<and> INT8 = pr \<and> pool then True
         else False)"

definition match_patterns :: "((string \<times> int) list \<Rightarrow> (string \<times> int) list) \<Rightarrow> place \<Rightarrow> precision \<Rightarrow> registry \<Rightarrow> vgraph \<Rightarrow> vgraph outcome" where
  "match_patterns srt t pr r G =
     bindE (get_list_op_name_in_fusion_order_of srt r IN_ORDER) (\<lambda>ns.
     foldE (\<lambda>n G. if skips_pattern t pr n then Inr G else bindE (get_pattern r n) (\<lambda>p. match_pattern p G)) ns G)"

end
