(* ===== verification/Fusion_Properties.thy ===== *)
theory Fusion_Properties
  imports Fusion_Search Parallel_Fusion ConvEls_Properties
begin

text \<open>
  The properties of the fusion: every registered pattern is a chain, so that the loop over the patterns of
  a target returns and contracts the graph, and what the functors do to graphs outside of this.
\<close>

section \<open>The registered patterns\<close>

definition pattern_ok :: "registry \<Rightarrow> string \<times> fusion \<times> (string \<times> string) list \<times> (string \<times> string) list \<Rightarrow> bool" where
  "pattern_ok r d =
     (case d of (n, t, ops, _) \<Rightarrow>
      (case get_pattern r n of
         Inr p \<Rightarrow> pat_kind p = Some t \<and> (t = IN_ORDER \<longrightarrow> chain_pattern (fst (hd ops)) (tl ops) p \<and> fusion_op_name p = n)
       | Inl _ \<Rightarrow> False))"

lemma registry_value:
  "(case fusion_registry of Inr r \<Rightarrow> type_ids r = map fst registered \<and> list_all (pattern_ok r) registered | Inl _ \<Rightarrow> False)"
  by code_simp

lemma registry_patterns:
  obtains r where "fusion_registry = Inr r" "type_ids r = map fst registered" "list_all (pattern_ok r) registered"
proof (cases fusion_registry)
  case (Inr r)
  have "type_ids r = map fst registered \<and> list_all (pattern_ok r) registered"
    using registry_value unfolding Inr sum.case .
  then show ?thesis using Inr that by blast
next
  case (Inl e)
  have False using registry_value unfolding Inl sum.case .
  then show ?thesis ..
qed

lemma registered_pattern:
  assumes "type_ids r = map fst registered" "list_all (pattern_ok r) registered" "n \<in> set (type_ids r)"
  shows "\<exists>p. get_pattern r n = Inr p \<and> (pat_kind p = Some IN_ORDER \<longrightarrow> (\<exists>x path. chain_pattern x path p))"
proof -
  obtain d where d: "d \<in> set registered" "fst d = n" using assms(1,3) by auto
  then have "pattern_ok r d" using assms(2) by (simp add: list_all_iff)
  then show ?thesis using d(2) by (cases d) (auto simp: pattern_ok_def split: sum.splits)
qed

lemma listed_names:
  assumes "type_ids r = map fst registered" "list_all (pattern_ok r) registered" "\<And>xs. set (srt xs) \<subseteq> set xs"
  shows "\<exists>ns. get_list_op_name_in_fusion_order_of srt r t = Inr ns \<and>
    (\<forall>n \<in> set ns. n \<in> set (type_ids r) \<and> (\<exists>p. get_pattern r n = Inr p \<and> pat_kind p = Some t))"
proof -
  let ?f = "\<lambda>n ns. bindE (get_pattern r n) (\<lambda>p. Inr (if pat_kind p = Some t then ns @ [n] else ns))"
  have "\<exists>ns. foldE ?f ms acc = Inr ns \<and> (\<forall>n \<in> set ns. n \<in> set (type_ids r) \<and> (\<exists>p. get_pattern r n = Inr p \<and> pat_kind p = Some t))"
    if "set ms \<subseteq> set (type_ids r)" "\<forall>n \<in> set acc. n \<in> set (type_ids r) \<and> (\<exists>p. get_pattern r n = Inr p \<and> pat_kind p = Some t)" for ms acc
    using that
  proof (induction ms arbitrary: acc)
    case (Cons m ms)
    obtain p where p: "get_pattern r m = Inr p" using registered_pattern [OF assms(1,2), of m] Cons.prems(1) by auto
    have "\<exists>ns. foldE ?f ms (if pat_kind p = Some t then acc @ [m] else acc) = Inr ns \<and>
        (\<forall>n \<in> set ns. n \<in> set (type_ids r) \<and> (\<exists>p. get_pattern r n = Inr p \<and> pat_kind p = Some t))"
      by (rule Cons.IH) (use Cons.prems p in auto)
    then show ?case using p by simp
  qed simp
  from this [of "type_ids r" "[]"] obtain ns where ns: "get_list_op_name_of r t = Inr ns"
      "\<forall>n \<in> set ns. n \<in> set (type_ids r) \<and> (\<exists>p. get_pattern r n = Inr p \<and> pat_kind p = Some t)"
    by (auto simp: get_list_op_name_of_def)
  let ?xs = "map (\<lambda>n. (n, pat_level (projr (get_pattern r n)))) ns"
  have "mapE (\<lambda>n. bindE (get_pattern r n) (\<lambda>p. Inr (n, pat_level p))) ns = Inr ?xs"
    by (rule mapE_total) (use ns(2) in fastforce)
  then have "get_list_op_name_in_fusion_order_of srt r t = Inr (map fst (srt ?xs))"
    using ns(1) by (simp add: get_list_op_name_in_fusion_order_of_def)
  moreover have "n \<in> set (type_ids r) \<and> (\<exists>p. get_pattern r n = Inr p \<and> pat_kind p = Some t)" if n: "n \<in> set (map fst (srt ?xs))" for n
  proof -
    have "n \<in> fst ` set ?xs" using n assms(3) [of ?xs] by auto
    then show ?thesis using ns(2) by auto
  qed
  ultimately show ?thesis by blast
qed

text \<open>C11: Fusing by a pattern that is a chain returns on every graph that is ready for it. The result is
  ready again and a contraction: the operators are split into those that are left and those that a fused
  operator has absorbed, operators that absorbed nothing are unchanged, and the paths between the operators
  that are left are those of the original graph.\<close>

theorem fuse_in_order_contracts:
  assumes "ready G" "chain_pattern x path p"
  shows "\<exists>H. fuse_in_order p G = Inr H \<and> ready H \<and> contracts G H"
  using fuse_in_order_run [OF assms] by blast

text \<open>C12: Every occurrence of the pattern is fused in the end: the operator it starts with has become the
  fused operator, unless another fused operator has absorbed it.\<close>

theorem fuse_in_order_fuses:
  assumes "ready G" "chain_pattern x path p" "op_at (vg G) u = head_op x p" "occurs G path u ns"
  shows "\<exists>H. fuse_in_order p G = Inr H \<and>
    (u \<in> absorbed (vg H) \<or> (u \<in> set (vertex_names (vg H)) \<and> op_at (vg H) u = fusion_op_name p))"
  using fuse_in_order_run [OF assms(1,2)] assms(3,4) by blast

text \<open>C13: The loop of \<open>Graph::Optimize\<close> over the registered patterns returns for every target, precision and
  sorting of the patterns, and contracts the graph.\<close>

theorem match_patterns_contracts:
  assumes "ready G" "\<And>xs. set (srt xs) \<subseteq> set xs"
  shows "\<exists>r H. fusion_registry = Inr r \<and> match_patterns srt t pr r G = Inr H \<and> ready H \<and> contracts G H"
proof -
  obtain r where r: "fusion_registry = Inr r" "type_ids r = map fst registered" "list_all (pattern_ok r) registered"
    by (rule registry_patterns)
  obtain ns where ns: "get_list_op_name_in_fusion_order_of srt r IN_ORDER = Inr ns"
      "\<forall>n \<in> set ns. n \<in> set (type_ids r) \<and> (\<exists>p. get_pattern r n = Inr p \<and> pat_kind p = Some IN_ORDER)"
    using listed_names [OF r(2,3) assms(2)] by blast
  let ?f = "\<lambda>n G. if skips_pattern t pr n then Inr G else bindE (get_pattern r n) (\<lambda>p. match_pattern p G)"
  have "\<exists>H. foldE ?f ms F = Inr H \<and> ready H \<and> contracts F H"
    if "ready F" "\<forall>n \<in> set ms. \<exists>p x path. get_pattern r n = Inr p \<and> pat_kind p = Some IN_ORDER \<and> chain_pattern x path p" for ms F
    using that
  proof (induction ms arbitrary: F)
    case Nil
    then show ?case using contracts_refl by auto
  next
    case (Cons m ms)
    obtain p x path where p: "get_pattern r m = Inr p" "pat_kind p = Some IN_ORDER" "chain_pattern x path p" using Cons.prems(2) by auto
    have "\<exists>F'. ?f m F = Inr F' \<and> ready F' \<and> contracts F F'"
    proof (cases "skips_pattern t pr m")
      case True
      then show ?thesis using Cons.prems(1) contracts_refl by auto
    next
      case False
      then show ?thesis using fuse_in_order_run [OF Cons.prems(1) p(3)] p(1,2) by (auto simp: match_pattern_def)
    qed
    then obtain F' where F': "?f m F = Inr F'" "ready F'" "contracts F F'" by blast
    obtain H where "foldE ?f ms F' = Inr H" "ready H" "contracts F' H" using Cons.IH [OF F'(2)] Cons.prems(2) by auto
    then show ?case using F' contracts_trans by (intro exI [of _ H]) simp
  qed
  moreover have "\<exists>p x path. get_pattern r n = Inr p \<and> pat_kind p = Some IN_ORDER \<and> chain_pattern x path p" if "n \<in> set ns" for n
    using ns(2) that registered_pattern [OF r(2,3), of n] by force
  ultimately obtain H where "foldE ?f ns G = Inr H" "ready H" "contracts G H" using assms(1) by blast
  then show ?thesis using r(1) ns(1) by (auto simp: match_patterns_def)
qed

section \<open>Examples\<close>

text \<open>An executable test for \<open>ready\<close> on graphs without fused operators whose arcs go forward in a list.\<close>

definition rank_in :: "string list \<Rightarrow> string \<Rightarrow> nat" where
  "rank_in ord v = length (takeWhile (\<lambda>w. w \<noteq> v) ord)"

definition ready_check :: "string list \<Rightarrow> vgraph \<Rightarrow> bool" where
  "ready_check ord G \<longleftrightarrow>
     list_all (\<lambda>(v, n). node_name n = v \<and> merge_nodes n = []) (vertices (vg G)) \<and>
     list_all (\<lambda>(_, a). rank_in ord (arc_bottom a) < rank_in ord (arc_top a)) (arcs (vg G)) \<and>
     list_all (\<lambda>(_, a). list_all (\<lambda>(_, b). arc_top a = arc_top b \<and> op_at (vg G) (arc_top a) \<in> set chain_ops \<longrightarrow> arc_bottom a = arc_bottom b)
       (arcs (vg G))) (arcs (vg G)) \<and>
     list_ex (\<lambda>(_, a). op_at (vg G) (arc_bottom a) \<notin> set head_ops \<union> set chain_ops) (arcs (vg G))"

lemma edges_iff: "(x, y) \<in> edges g \<longleftrightarrow> (\<exists>i a. (i, a) \<in> set (arcs g) \<and> arc_bottom a = x \<and> arc_top a = y)"
  by (force simp: edges_def ends_def)

lemma ready_checkD:
  assumes "ready_check ord G"
  shows "\<And>v n. (v, n) \<in> set (vertices (vg G)) \<Longrightarrow> node_name n = v \<and> merge_nodes n = []"
    "\<And>i a. (i, a) \<in> set (arcs (vg G)) \<Longrightarrow> rank_in ord (arc_bottom a) < rank_in ord (arc_top a)"
    "\<And>i a j b. (i, a) \<in> set (arcs (vg G)) \<Longrightarrow> (j, b) \<in> set (arcs (vg G)) \<Longrightarrow> arc_top a = arc_top b \<Longrightarrow>
       op_at (vg G) (arc_top a) \<in> set chain_ops \<Longrightarrow> arc_bottom a = arc_bottom b"
    "\<exists>i a. (i, a) \<in> set (arcs (vg G)) \<and> op_at (vg G) (arc_bottom a) \<notin> set head_ops \<union> set chain_ops"
proof -
  note c = assms [unfolded ready_check_def]
  show "\<And>v n. (v, n) \<in> set (vertices (vg G)) \<Longrightarrow> node_name n = v \<and> merge_nodes n = []"
    using c [THEN conjunct1] unfolding list_all_iff by blast
  show "\<And>i a. (i, a) \<in> set (arcs (vg G)) \<Longrightarrow> rank_in ord (arc_bottom a) < rank_in ord (arc_top a)"
    using c [THEN conjunct2, THEN conjunct1] unfolding list_all_iff by blast
  show "\<And>i a j b. (i, a) \<in> set (arcs (vg G)) \<Longrightarrow> (j, b) \<in> set (arcs (vg G)) \<Longrightarrow> arc_top a = arc_top b \<Longrightarrow>
       op_at (vg G) (arc_top a) \<in> set chain_ops \<Longrightarrow> arc_bottom a = arc_bottom b"
    using c [THEN conjunct2, THEN conjunct2, THEN conjunct1] unfolding list_all_iff by blast
  show "\<exists>i a. (i, a) \<in> set (arcs (vg G)) \<and> op_at (vg G) (arc_bottom a) \<notin> set head_ops \<union> set chain_ops"
    using c [THEN conjunct2, THEN conjunct2, THEN conjunct2] unfolding list_ex_iff by blast
qed

lemma ready_checked:
  assumes "wf_graph (vg G)" "linked (vg G)" "ready_check ord G"
  shows "ready G"
  unfolding ready_def
proof (intro conjI allI impI)
  note c = ready_checkD [OF assms(3)]
  show "wf_graph (vg G)" "linked (vg G)" by (rule assms)+
  have nm: "node_name n = v \<and> merge_nodes n = []" if "(v, n) \<in> set (vertices (vg G))" for v n by (rule c(1) [OF that])
  then show "\<forall>(v, n) \<in> set (vertices (vg G)). node_name n = v"
    "\<forall>(v, n) \<in> set (vertices (vg G)). op_name n \<in> set chain_ops \<longrightarrow> merge_nodes n = []" by blast+
  have "absorbed (vg G) = {}" using nm by (auto simp: absorbed_def)
  then show "absorbed (vg G) \<inter> set (vertex_names (vg G)) = {}" by simp
  have "rank_in ord x < rank_in ord y" if "(x, y) \<in> edges (vg G)" for x y using that c(2) unfolding edges_iff by blast
  then have "edges (vg G) \<subseteq> measure (rank_in ord)" by auto
  then show "acyclic (edges (vg G))" by (meson acyclic_subset wf_acyclic wf_measure)
  show "x = y" if "op_at (vg G) w \<in> set chain_ops" "(x, w) \<in> edges (vg G)" "(y, w) \<in> edges (vg G)" for w x y
  proof -
    obtain i a where a: "(i, a) \<in> set (arcs (vg G))" "arc_bottom a = x" "arc_top a = w" using \<open>(x, w) \<in> edges (vg G)\<close> unfolding edges_iff by blast
    obtain j b where b: "(j, b) \<in> set (arcs (vg G))" "arc_bottom b = y" "arc_top b = w" using \<open>(y, w) \<in> edges (vg G)\<close> unfolding edges_iff by blast
    show ?thesis using c(3) [OF a(1) b(1)] a(2,3) b(2,3) \<open>op_at (vg G) w \<in> set chain_ops\<close> by simp
  qed
  show "\<exists>(x, y) \<in> edges (vg G). op_at (vg G) x \<notin> set head_ops \<union> set chain_ops"
  proof -
    obtain i a where a: "(i, a) \<in> set (arcs (vg G))" "op_at (vg G) (arc_bottom a) \<notin> set head_ops \<union> set chain_ops" using c(4) by blast
    then have "(arc_bottom a, arc_top a) \<in> edges (vg G)" unfolding edges_iff by blast
    then show ?thesis using a(2) by blast
  qed
qed

lemma with_ops_skel: "skel (vg (with_ops ops G)) = skel (vg G)"
  unfolding with_ops_def
  by (induction ops arbitrary: G)
    (auto simp: upd_node_def bindE_def set_vertex_skel split: sum.splits)

lemma ready_example:
  assumes "well_named (built vs es)" "ready_check ord (with_ops ops (built vs es))"
  shows "ready (with_ops ops (built vs es))"
proof (rule ready_checked [OF _ _ assms(2)])
  have "wf_graph (vg (built vs es))" "linked (vg (built vs es))" using wf_vgraphD(1,2) [OF built_wf [OF assms(1)]] by blast+
  then show "wf_graph (vg (with_ops ops (built vs es)))" "linked (vg (with_ops ops (built vs es)))"
    using skel_wf(1,2) [OF with_ops_skel] by blast+
qed

definition registered_as :: "string \<Rightarrow> pattern" where
  "registered_as n = projr (bindE fusion_registry (\<lambda>r. get_pattern r n))"

text \<open>A convolution and its rectifier between an input and an output.\<close>

definition conv_relu_net :: vgraph where
  "conv_relu_net = with_ops [(''in'', ''Input''), (''c'', ''Convolution''), (''r'', ''ReLU''), (''out'', ''Output'')]
     (built [''in'', ''c'', ''r'', ''out''] [(''in'', ''c''), (''c'', ''r''), (''r'', ''out'')])"

lemma conv_relu_net_ready: "ready conv_relu_net"
  unfolding conv_relu_net_def by (rule ready_example [where ord = "[''in'', ''c'', ''r'', ''out'']"]) code_simp+

lemma conv_relu_pattern: "chain_pattern ''conv_0'' [(''relu_0'', ''ReLU'')] (registered_as ''ConvRelu'')"
  by code_simp

lemma conv_relu_occurs: "occurs conv_relu_net [(''relu_0'', ''ReLU'')] ''c'' [''r'']"
proof -
  have "map (ends \<circ> snd) (arcs (vg conv_relu_net)) = [(''in'', ''c''), (''c'', ''r''), (''r'', ''out'')]" by code_simp
  then have E: "edges (vg conv_relu_net) = {(''in'', ''c''), (''c'', ''r''), (''r'', ''out'')}"
    unfolding edges_def by (metis list.set_map list.simps(15) empty_set)
  have "chain (edges (vg conv_relu_net)) ''c'' [''r'']" unfolding E by (simp add: chain.simps(2))
  moreover have "op_at (vg conv_relu_net) ''r'' = ''ReLU''" "registed_outs conv_relu_net = []" by code_simp+
  ultimately show ?thesis by (simp add: occurs_def)
qed

theorem fuse_in_order_contracts_witness:
  "\<exists>H. fuse_in_order (registered_as ''ConvRelu'') conv_relu_net = Inr H \<and> contracts conv_relu_net H"
  using fuse_in_order_contracts [OF conv_relu_net_ready conv_relu_pattern] by blast

theorem fuse_in_order_fuses_witness:
  "\<exists>H. fuse_in_order (registered_as ''ConvRelu'') conv_relu_net = Inr H \<and>
     (''c'' \<in> absorbed (vg H) \<or> (''c'' \<in> set (vertex_names (vg H)) \<and> op_at (vg H) ''c'' = ''ConvRelu''))"
proof -
  have "op_at (vg conv_relu_net) ''c'' = head_op ''conv_0'' (registered_as ''ConvRelu'')" by code_simp
  moreover have "fusion_op_name (registered_as ''ConvRelu'') = ''ConvRelu''" by code_simp
  ultimately show ?thesis
    using fuse_in_order_fuses [OF conv_relu_net_ready conv_relu_pattern _ conv_relu_occurs] by simp
qed

theorem match_patterns_contracts_witness:
  "\<exists>r H. fusion_registry = Inr r \<and> match_patterns (sort_key (\<lambda>(_, l). - l)) X86 FP32 r conv_relu_net = Inr H \<and> contracts conv_relu_net H"
  using match_patterns_contracts [OF conv_relu_net_ready, of "sort_key (\<lambda>(_, l). - l)" X86 FP32] by force

section \<open>What the fusion does not look at\<close>

definition fused_by :: "string \<Rightarrow> vgraph \<Rightarrow> ((string \<times> string \<times> string list) list \<times> (string \<times> string) list) outcome" where
  "fused_by n G = bindE (match_pattern (registered_as n) G) (\<lambda>H.
     Inr (map (\<lambda>(v, x). (v, op_name x, merge_node_names x)) (vertices (vg H)), map (ends \<circ> snd) (arcs (vg H))))"

text \<open>The loop that compares a chain with a pattern ends with success when the net has no further operator:
  a convolution with a batch normalisation at the end of a net becomes the operator of the whole pattern
  with scale and rectifier.\<close>

definition conv_bn_net :: vgraph where
  "conv_bn_net = with_ops [(''in'', ''Input''), (''c'', ''Convolution''), (''b'', ''BatchNorm'')]
     (built [''in'', ''c'', ''b''] [(''in'', ''c''), (''c'', ''b'')])"

lemma fusion_takes_prefix:
  "fused_by ''ConvBatchnormScaleRelu'' conv_bn_net =
     Inr ([(''in'', ''Input'', []), (''c'', ''ConvBatchnormScaleRelu'', [''batchnorm_0''])], [(''in'', ''c'')])"
  by code_simp

text \<open>The search looks at the out-arcs only: a scale operator with a second input is merged into the
  convolution, and the operator that computes the second input is left without any arc.\<close>

definition scale_net :: vgraph where
  "scale_net = with_ops [(''in'', ''Input''), (''c'', ''Convolution''), (''s'', ''Scale''), (''d'', ''Dense'')]
     (built [''in'', ''c'', ''d'', ''s'', ''out''] [(''in'', ''c''), (''in'', ''d''), (''c'', ''s''), (''d'', ''s''), (''s'', ''out'')])"

lemma fusion_drops_second_input:
  "has_arc (vg scale_net) ''d'' ''s'' \<and>
   (case match_pattern (registered_as ''ConvScale'') scale_net of
      Inr H \<Rightarrow> op_at (vg H) ''c'' = ''ConvScale'' \<and> has_vertex (vg H) ''d'' \<and> out_its (vg H) ''d'' = [] | Inl _ \<Rightarrow> False)"
  by code_simp

text \<open>The parallel fusion merges all successors of an operator that are the operator of the pattern,
  also when one of them reads the result of another: the merged operator then has an arc to itself, and
  the acyclic graph has become cyclic.\<close>

definition parallel_net :: vgraph where
  "parallel_net = with_ops [(''in'', ''Input''), (''c'', ''ConvBatchnormScaleRelu''), (''d'', ''ConvBatchnormScaleRelu''), (''e'', ''Output'')]
     (built [''in'', ''c'', ''d'', ''e''] [(''in'', ''c''), (''in'', ''d''), (''c'', ''d''), (''d'', ''e'')])"

lemma parallel_fusion_makes_cycle:
  "ready_check [''in'', ''c'', ''d'', ''e''] parallel_net \<and>
   (case match_pattern (registered_as ''ConvFusion'') parallel_net of Inr H \<Rightarrow> has_arc (vg H) ''c'' ''c'' | Inl _ \<Rightarrow> False)"
  by code_simp

text \<open>An operator that reads two of the merged operators is left with one input.\<close>

lemma parallel_fusion_joins_inputs:
  "fused_by ''ConvFusion'' (with_ops [(''c'', ''ConvBatchnormScaleRelu''), (''d'', ''ConvBatchnormScaleRelu'')]
     (built [''in'', ''c'', ''d'', ''e''] [(''in'', ''c''), (''in'', ''d''), (''c'', ''e''), (''d'', ''e'')]))
   = Inr ([(''in'', ''Relu'', []), (''c'', ''ConvFusion'', [''conv_0_1'']), (''e'', ''Relu'', [])], [(''in'', ''c''), (''c'', ''e'')])"
  by code_simp

end
