(* ===== verification/Graph_Driver.thy ===== *)
theory Graph_Driver
  imports Parallel_Fusion Saber_Tensor
begin

text \<open>
  \<open>Node\<close> and \<open>Edge\<close> of \<open>framework/graph/node.h\<close> and the graph of operators \<open>Graph\<close> of
  \<open>framework/graph/graph.h\<close> and \<open>graph.cpp\<close>: building a graph by hand (\<open>AddOp\<close> ... \<open>Freeze\<close>), the
  conversion to the virtual graph and back, and \<open>Clean\<close>. Loading and saving models, the calibration
  files and weights (\<open>SetWeightsScale\<close>, \<open>RegistBlock\<close>) are not modelled. An \<open>unordered_map\<close> is
  an association list, whose order stands for the order of iteration.
\<close>

section \<open>Attributes\<close>

text \<open>The types of attributes that the graph code itself reads or writes; all others are \<open>A_other\<close>.\<close>

datatype attr = A_ints "int list" | A_int int | A_bool bool | A_float float_bits | A_string string | A_dtype data_type | A_other nat

record gnode =
  gn_name :: string
  gn_lane :: "int option"
  gn_op :: string
  gn_attrs :: "(string \<times> attr) list"
  gn_wait :: bool
  gn_bits :: data_type
  gn_shares :: "(string \<times> string) list"

definition gnode_default :: gnode where
  "gnode_default = \<lparr>gn_name = '''', gn_lane = None, gn_op = '''', gn_attrs = [], gn_wait = False, gn_bits = AK_INVALID, gn_shares = []\<rparr>"

definition inspect_attr :: "gnode \<Rightarrow> string \<Rightarrow> bool" where
  "inspect_attr n a = (map_of (gn_attrs n) a \<noteq> None)"

definition get_attr :: "gnode \<Rightarrow> string \<Rightarrow> attr outcome" where
  "get_attr n a = (case map_of (gn_attrs n) a of None \<Rightarrow> Inl CheckFailed | Some x \<Rightarrow> Inr x)"

text \<open>\<open>any_cast\<close> to another type than the stored one returns an empty value.\<close>

fun ints_of :: "attr \<Rightarrow> int list" where
  "ints_of (A_ints xs) = xs" | "ints_of _ = []"

fun int_of :: "attr \<Rightarrow> int" where
  "int_of (A_int x) = x" | "int_of _ = 0"

definition get_ints :: "gnode \<Rightarrow> string \<Rightarrow> int list outcome" where
  "get_ints n a = bindE (get_attr n a) (\<lambda>x. Inr (ints_of x))"

definition get_int :: "gnode \<Rightarrow> string \<Rightarrow> int outcome" where
  "get_int n a = bindE (get_attr n a) (\<lambda>x. Inr (int_of x))"

definition set_attr :: "string \<Rightarrow> attr \<Rightarrow> gnode \<Rightarrow> gnode" where
  "set_attr a x n = n\<lparr>gn_attrs := AList.update a x (gn_attrs n)\<rparr>"

definition remove_attr :: "string \<Rightarrow> gnode \<Rightarrow> gnode" where
  "remove_attr a n = n\<lparr>gn_attrs := AList.delete a (gn_attrs n)\<rparr>"

definition merge_with_pattern :: "gnode \<Rightarrow> string \<Rightarrow> gnode \<Rightarrow> gnode" where
  "merge_with_pattern operand p n = fold (\<lambda>(a, x). set_attr (p @ ''_'' @ a) x) (gn_attrs operand) n"

definition check_shared :: "gnode \<Rightarrow> string \<Rightarrow> bool" where
  "check_shared n w = (map_of (gn_shares n) w \<noteq> None)"

definition get_share_target :: "gnode \<Rightarrow> string \<Rightarrow> string outcome" where
  "get_share_target n w = (case map_of (gn_shares n) w of Some x \<Rightarrow> Inr x | None \<Rightarrow> Inl CheckFailed)"

definition set_share_pair :: "string \<Rightarrow> string \<Rightarrow> gnode \<Rightarrow> gnode" where
  "set_share_pair w from n = (if check_shared n w then n else n\<lparr>gn_shares := AList.update w from (gn_shares n)\<rparr>)"

definition is_weight_shared :: "gnode \<Rightarrow> bool" where
  "is_weight_shared n = list_ex (\<lambda>(a, _). check_shared n a) (gn_attrs n)"

section \<open>The graph\<close>

text \<open>An edge, apart from its ends and its tensor. A new edge has the default layout, and so has a copy.\<close>

record gedge =
  ge_shared :: bool
  ge_share_from :: string
  ge_lane :: "int option"
  ge_scale :: "float_bits list"
  ge_layout :: layout_type

definition gedge_default :: gedge where
  "gedge_default = \<lparr>ge_shared = False, ge_share_from = '''', ge_lane = None, ge_scale = [], ge_layout = Layout_NCHW\<rparr>"

definition new_edge :: "string \<Rightarrow> string \<Rightarrow> (string, gedge) arc" where
  "new_edge b t = \<lparr>arc_bottom = b, arc_top = t, weight = gedge_default\<rparr>"

record driver =
  d_graph :: "(string, gnode, gedge) graph"
  d_vgraph :: "vgraph option"
  d_ins :: "string list"
  d_outs :: "string list"
  d_exec_order :: "string list"
  node_merges :: "(string \<times> string list) list"
  node_merges_keep :: "(string \<times> int list) list"
  pattern_name_merges :: "(string \<times> string list) list"
  d_registed :: "(string \<times> string) list"
  node_ins :: "(string \<times> string list) list"
  node_outs :: "(string \<times> string list) list"
  has_optimized :: bool

definition empty_driver :: driver where
  "empty_driver = \<lparr>d_graph = empty_graph, d_vgraph = None, d_ins = [], d_outs = [], d_exec_order = [], node_merges = [],
     node_merges_keep = [], pattern_name_merges = [], d_registed = [], node_ins = [], node_outs = [], has_optimized = False\<rparr>"

definition op_node :: "driver \<Rightarrow> string \<Rightarrow> gnode outcome" where
  "op_node d v = vertex_at (d_graph d) v"

definition on_graph :: "((string, gnode, gedge) graph \<Rightarrow> (string, gnode, gedge) graph outcome) \<Rightarrow> driver \<Rightarrow> driver outcome" where
  "on_graph f d = bindE (f (d_graph d)) (\<lambda>g. Inr (d\<lparr>d_graph := g\<rparr>))"

text \<open>A change through the pointer that \<open>(*this)[name]\<close> returns.\<close>

definition upd_op :: "string \<Rightarrow> (gnode \<Rightarrow> gnode) \<Rightarrow> driver \<Rightarrow> driver outcome" where
  "upd_op v f d = bindE (op_node d v) (\<lambda>n. Inr (d\<lparr>d_graph := set_vertex v (f n) (d_graph d)\<rparr>))"

definition upd_edge :: "arc_id \<Rightarrow> (gedge \<Rightarrow> gedge) \<Rightarrow> driver \<Rightarrow> driver" where
  "upd_edge i f d = d\<lparr>d_graph := map_arc i (\<lambda>a. a\<lparr>weight := f (weight a)\<rparr>) (d_graph d)\<rparr>"

text \<open>The scanner, with one unit of fuel for each vertex.\<close>

definition scan_ops :: "('s \<Rightarrow> driver) \<Rightarrow> (string \<Rightarrow> 's \<Rightarrow> (status \<times> 's) outcome) \<Rightarrow> 's \<Rightarrow> 's outcome" where
  "scan_ops view f s = bfs (graph_size (d_graph (view s))) (d_graph \<circ> view) f s"

definition each_op :: "('s \<Rightarrow> driver) \<Rightarrow> (string \<Rightarrow> 's \<Rightarrow> 's outcome) \<Rightarrow> 's \<Rightarrow> 's outcome" where
  "each_op view f s = scan_ops view (no_status f) s"

definition each_edge :: "('s \<Rightarrow> driver) \<Rightarrow> (arc_id \<Rightarrow> 's \<Rightarrow> 's outcome) \<Rightarrow> 's \<Rightarrow> 's outcome" where
  "each_edge view f s = bfs_edge_void (graph_size (d_graph (view s))) (d_graph \<circ> view) f s"

section \<open>Building a graph\<close>

definition add_op :: "string \<Rightarrow> string \<Rightarrow> string list \<Rightarrow> string list \<Rightarrow> driver \<Rightarrow> driver" where
  "add_op v op inputs outputs d =
     d\<lparr>d_graph := add_vertex v (gnode_default\<lparr>gn_name := v, gn_op := op\<rparr>) (d_graph d),
       node_ins := AList.update v inputs (node_ins d), node_outs := AList.update v outputs (node_outs d)\<rparr>"

text \<open>The flag of the result says that the status is \<open>OK\<close>.\<close>

definition add_op_attr :: "string \<Rightarrow> string \<Rightarrow> attr \<Rightarrow> driver \<Rightarrow> (bool \<times> driver) outcome" where
  "add_op_attr v a x d =
     (if has_vertex (d_graph d) v then bindE (upd_op v (set_attr a x) d) (\<lambda>d'. Inr (True, d')) else Inr (False, d))"

definition set_op_prec :: "string \<Rightarrow> data_type \<Rightarrow> driver \<Rightarrow> (bool \<times> driver) outcome" where
  "set_op_prec v t d =
     (if has_vertex (d_graph d) v then bindE (upd_op v (\<lambda>n. n\<lparr>gn_bits := t\<rparr>) d) (\<lambda>d'. Inr (True, d')) else Inr (False, d))"

definition add_in :: "string \<Rightarrow> driver \<Rightarrow> driver" where
  "add_in v d = d\<lparr>d_ins := d_ins d @ [v]\<rparr>"

definition add_out :: "string \<Rightarrow> driver \<Rightarrow> driver" where
  "add_out v d = d\<lparr>d_outs := d_outs d @ [v]\<rparr>"

text \<open>\<open>in_to_op_map\<close> and \<open>out_to_op_map\<close>: the operators of each variable.\<close>

definition ops_of :: "string \<Rightarrow> (string \<times> string list) list \<Rightarrow> string list" where
  "ops_of x m = (case map_of m x of None \<Rightarrow> [] | Some ops \<Rightarrow> ops)"

definition to_op_map :: "(string \<times> string list) list \<Rightarrow> (string \<times> string list) list" where
  "to_op_map m = fold (\<lambda>(op, xs) acc. fold (\<lambda>x acc. AList.update x (ops_of x acc @ [op]) acc) xs acc) m []"

definition is_key :: "string \<Rightarrow> (string \<times> string list) list \<Rightarrow> bool" where
  "is_key x m = (map_of m x \<noteq> None)"

text \<open>\<open>out_to_op_map[x][0]\<close>: a missing entry is created empty and then read.\<close>

definition first_op :: "string \<Rightarrow> (string \<times> string list) list \<Rightarrow> string outcome" where
  "first_op x m = at (ops_of x m) 0"

text \<open>The outer loop of \<open>SetVarScale\<close> and \<open>RegistVar\<close> does not use its pair.\<close>

definition set_var_scale :: "string \<Rightarrow> float_bits \<Rightarrow> driver \<Rightarrow> driver outcome" where
  "set_var_scale var s d =
     (let ins = to_op_map (node_ins d); outs = to_op_map (node_outs d)
      in foldE (\<lambda>_ d.
           if is_key var ins then
             foldE (\<lambda>t d. bindE (first_op var outs) (\<lambda>b.
               if \<not> has_arc (d_graph d) b t then Inr d
               else
                 bindE (get_arc (d_graph d) b t) (\<lambda>_.
                 case find_arc (d_graph d) b t of None \<Rightarrow> Inl OutOfRange
                 | Some i \<Rightarrow>
                   (let d1 = upd_edge i (\<lambda>e. e\<lparr>ge_scale := [s]\<rparr>) d
                    in bindE (op_node d1 t) (\<lambda>n.
                       if gn_op n = ''Split'' then
                         bindE (get_out_arc_its (d_graph d1) t) (\<lambda>its.
                         foldE (\<lambda>i d. bindE (deref (d_graph d) i) (\<lambda>_. Inr (upd_edge i (\<lambda>e. e\<lparr>ge_scale := [s]\<rparr>) d))) its d1)
                       else Inr d1))))) (ops_of var ins) d
           else Inr d) ins d)"

definition regist_var :: "string \<Rightarrow> driver \<Rightarrow> driver outcome" where
  "regist_var var d =
     (let ins = to_op_map (node_ins d); outs = to_op_map (node_outs d)
      in foldE (\<lambda>_ d.
           if is_key var ins then
             foldE (\<lambda>t d. bindE (first_op var outs) (\<lambda>b.
               Inr (add_op var ''Output'' [var] [] (add_out var (d\<lparr>d_registed := d_registed d @ [(b, t)]\<rparr>))))) (ops_of var ins) d
           else Inr d) ins d)"

definition regist_out :: "string \<Rightarrow> string \<Rightarrow> driver \<Rightarrow> driver" where
  "regist_out b t d = d\<lparr>d_registed := d_registed d @ [(b, t)]\<rparr>"

definition regist_all_out :: "driver \<Rightarrow> driver outcome" where
  "regist_all_out d = each_edge id (\<lambda>i d. bindE (deref (d_graph d) i) (\<lambda>a. Inr (regist_out (arc_bottom a) (arc_top a) d))) d"

section \<open>Freeze\<close>

text \<open>Variables that no operator computes become inputs.\<close>

definition free_inputs :: "driver \<Rightarrow> string list" where
  "free_inputs d =
     (let outs = to_op_map (node_outs d)
      in fold (\<lambda>(_, xs) ns. fold (\<lambda>x ns. if is_key x outs then ns else note_name x ns) xs ns) (node_ins d) [])"

definition add_inputs :: "driver \<Rightarrow> driver" where
  "add_inputs d =
     fold (\<lambda>x d. if has_vertex (d_graph d) x then d else add_op x ''Input'' [] [x] (add_in x d)) (free_inputs d) d"

text \<open>\<open>std::to_string\<close>.\<close>

fun decimal :: "nat \<Rightarrow> string" where
  "decimal n = (if n < 10 then [char_of (n + 48)] else decimal (n div 10) @ [char_of (n mod 10 + 48)])"

declare decimal.simps [simp del]

definition split_output :: "string \<Rightarrow> nat \<Rightarrow> string" where
  "split_output x i = x @ ''_split_'' @ decimal i"

definition replace_ins :: "string \<Rightarrow> string list \<Rightarrow> string list \<Rightarrow> driver \<Rightarrow> driver" where
  "replace_ins x outputs nexts d =
     fold (\<lambda>(y, op) d. d\<lparr>node_ins := AList.update op (map (\<lambda>v. if v = x then y else v) (ops_of op (node_ins d))) (node_ins d)\<rparr>)
       (zip outputs nexts) d"

text \<open>
  Variables that no operator reads become outputs, and variables that several operators read go through an
  operator \<open>Split\<close>. \<open>ins\<close> is the map of before the inputs were added; the result has the names of the
  outputs and the inputs and outputs of the splits.
\<close>

definition find_splits :: "(string \<times> string list) list \<Rightarrow> driver \<Rightarrow>
    (string list \<times> (string \<times> string \<times> string list) list) \<times> driver" where
  "find_splits ins d =
     fold (\<lambda>(_, xs). fold (\<lambda>x ((os, ss), d).
         if \<not> is_key x ins then ((note_name x os, ss), d)
         else if length (ops_of x ins) > 1 then
           (let ys = map (split_output x) [0..<length (ops_of x ins)]
            in ((os, AList.update (x @ ''split'') (x, ys) ss), replace_ins x ys (ops_of x ins) d))
         else ((os, ss), d)) xs)
       (node_outs d) (([], []), d)"

definition add_outputs :: "string list \<Rightarrow> driver \<Rightarrow> driver" where
  "add_outputs os d =
     fold (\<lambda>x d. if has_vertex (d_graph d) x then d else add_op x ''Output'' [x] [] (add_out x d)) os d"

definition add_splits :: "(string \<times> string \<times> string list) list \<Rightarrow> driver \<Rightarrow> driver outcome" where
  "add_splits ss d =
     foldE (\<lambda>(v, x, ys) d.
       if has_vertex (d_graph d) v then Inr d
       else bindE (add_op_attr v ''split_num'' (A_int (int (length ys))) (add_op v ''Split'' [x] ys d)) (\<lambda>(_, d'). Inr d')) ss d"

definition connect_ops :: "driver \<Rightarrow> driver outcome" where
  "connect_ops d =
     (let ins = to_op_map (node_ins d); outs = to_op_map (node_outs d)
      in bindE (foldE (\<lambda>(op, xs). foldE (\<lambda>x d.
                  if is_key x outs then bindE (first_op x outs) (\<lambda>b. on_graph (add_in_arc (new_edge b op)) d) else Inr d) xs)
                (node_ins d) d) (\<lambda>d1.
         foldE (\<lambda>(op, xs). foldE (\<lambda>x d.
                  if is_key x ins then bindE (first_op x ins) (\<lambda>t. on_graph (add_out_arc (new_edge op t)) d) else Inr d) xs)
                (node_outs d1) d1))"

definition freeze :: "driver \<Rightarrow> driver outcome" where
  "freeze d =
     (let ins = to_op_map (node_ins d)
      in case find_splits ins (add_inputs d) of ((os, ss), d1) \<Rightarrow>
           bindE (add_splits ss (add_outputs os d1)) connect_ops)"

section \<open>Shapes of inputs\<close>

definition reshape_input :: "string \<Rightarrow> int list \<Rightarrow> driver \<Rightarrow> driver outcome" where
  "reshape_input v shp d =
     bindE (op_node d v) (\<lambda>n.
     bindE (get_ints n ''input_shape'') (\<lambda>dim.
     bindE (check (length dim = length shp)) (\<lambda>_.
     upd_op v (\<lambda>n. set_attr ''input_shape'' (A_ints shp) (remove_attr ''input_shape'' n)) d)))"

text \<open>\<open>PTuple\<close> checks its index.\<close>

definition ptuple_at :: "int list \<Rightarrow> int \<Rightarrow> int outcome" where
  "ptuple_at xs i = bindE (check (0 \<le> i \<and> i < int (length xs))) (\<lambda>_. Inr (xs ! nat i))"

definition reset_batch_size :: "string \<Rightarrow> int \<Rightarrow> driver \<Rightarrow> driver outcome" where
  "reset_batch_size v b d =
     bindE (op_node d v) (\<lambda>n.
     bindE (get_ints n ''input_shape'') (\<lambda>dim.
     bindE (ptuple_at dim 0) (\<lambda>_.
     upd_op v (\<lambda>n. set_attr ''input_shape'' (A_ints (dim[0 := b])) (remove_attr ''input_shape'' n)) d)))"

definition clean :: "driver \<Rightarrow> driver" where
  "clean d = d\<lparr>d_graph := all_clear (d_graph d), d_vgraph := None\<rparr>"

section \<open>The virtual graph of a graph\<close>

definition vnode_of :: "gnode \<Rightarrow> node" where
  "vnode_of n = Node (gn_name n) (gn_op n) None None [] [] [] 0 False"

definition edge_arc :: "(string, gedge) arc \<Rightarrow> (string, io) arc" where
  "edge_arc a = \<lparr>arc_bottom = arc_bottom a, arc_top = arc_top a, weight = io_default\<lparr>io_name := arc_name a\<rparr>\<rparr>"

text \<open>The functors of \<open>get_vgraph\<close>, on the graph and the virtual graph that is built.\<close>

definition set_nodes :: "string \<Rightarrow> driver \<times> vgraph \<Rightarrow> (status \<times> driver \<times> vgraph) outcome" where
  "set_nodes v s =
     (case s of (d, G) \<Rightarrow>
      bindE (op_node d v) (\<lambda>n. Inr (OK, d, G\<lparr>vg := add_vertex (gn_name n) (vnode_of n) (vg G)\<rparr>)))"

definition set_edge_io_in :: "string \<Rightarrow> driver \<times> vgraph \<Rightarrow> (status \<times> driver \<times> vgraph) outcome" where
  "set_edge_io_in v s =
     (case s of (d, G) \<Rightarrow>
      bindE (op_node d v) (\<lambda>n.
      bindE (get_in_arc_its (d_graph d) (gn_name n)) (\<lambda>its.
      bindE (foldE (\<lambda>i g. bindE (deref (d_graph d) i) (\<lambda>a. add_in_arc (edge_arc a) g)) its (vg G)) (\<lambda>g.
      Inr (OK, d, G\<lparr>vg := g\<rparr>)))))"

definition set_edge_io_out :: "string \<Rightarrow> driver \<times> vgraph \<Rightarrow> (status \<times> driver \<times> vgraph) outcome" where
  "set_edge_io_out v s =
     (case s of (d, G) \<Rightarrow>
      bindE (op_node d v) (\<lambda>n.
      bindE (get_out_arc_its (d_graph d) (gn_name n)) (\<lambda>its.
      bindE (foldE (\<lambda>i g. bindE (deref (d_graph d) i) (\<lambda>a. add_out_arc (edge_arc a) g)) its (vg G)) (\<lambda>g.
      Inr (OK, d, G\<lparr>vg := g\<rparr>)))))"

definition get_vgraph :: "driver \<Rightarrow> driver outcome" where
  "get_vgraph d =
     bindE (scan_ops fst set_nodes (d, empty_vgraph)) (\<lambda>(d1, G1).
     bindE (Inr (fold (\<lambda>(b, t). register_outs b t) (d_registed d1) G1)) (\<lambda>G2.
     bindE (scan_ops fst set_edge_io_in (d1, G2)) (\<lambda>(d2, G3).
     bindE (scan_ops fst set_edge_io_out (d2, G3)) (\<lambda>(d3, G4).
     Inr (d3\<lparr>d_vgraph := Some G4\<rparr>)))))"

definition get_scale_map :: "driver \<Rightarrow> (string \<times> float_bits list) list outcome" where
  "get_scale_map d =
     bindE (each_op fst (\<lambda>v (d, m).
       bindE (op_node d v) (\<lambda>n.
       bindE (get_in_arc_its (d_graph d) (gn_name n)) (\<lambda>its.
       bindE (foldE (\<lambda>i m. bindE (deref (d_graph d) i) (\<lambda>a. Inr (AList.update (arc_name a) (ge_scale (weight a)) m))) its m) (\<lambda>m'.
       Inr (d, m'))))) (d, [])) (\<lambda>(_, m). Inr m)"

definition get_layout_map :: "driver \<Rightarrow> (string \<times> layout_type) list outcome" where
  "get_layout_map d =
     bindE (each_edge fst (\<lambda>i (d, m). bindE (deref (d_graph d) i) (\<lambda>a. Inr (d, AList.update (arc_name a) (ge_layout (weight a)) m))) (d, [])) (\<lambda>(_, m). Inr m)"

section \<open>Restoring the graph from the virtual graph\<close>

definition restored_edge :: "(string, io) arc \<Rightarrow> (string, gedge) arc" where
  "restored_edge a = (new_edge (arc_bottom a) (arc_top a))\<lparr>weight := gedge_default\<lparr>ge_shared := shared (weight a),
     ge_share_from := io.share_from (weight a), ge_lane := Some (io_lane (weight a))\<rparr>\<rparr>"

text \<open>\<open>interpreter_io_in\<close> and \<open>interpreter_io_out\<close>: the scanner is that of the virtual graph.\<close>

definition interpreter_io :: "((string, node, io) graph \<Rightarrow> string \<Rightarrow> arc_id list outcome) \<Rightarrow>
    ((string, gedge) arc \<Rightarrow> (string, gnode, gedge) graph \<Rightarrow> (string, gnode, gedge) graph outcome) \<Rightarrow>
    string \<Rightarrow> vgraph \<times> driver \<Rightarrow> (status \<times> vgraph \<times> driver) outcome" where
  "interpreter_io its_of add v s =
     (case s of (G, d) \<Rightarrow>
      bindE (vertex_at (vg G) v) (\<lambda>target.
      bindE (its_of (vg G) (node_name target)) (\<lambda>its.
      bindE (foldE (\<lambda>i d. bindE (deref (vg G) i) (\<lambda>a. on_graph (add (restored_edge a)) d)) its d) (\<lambda>d'.
      Inr (OK, G, d')))))"

definition scan_vgraph :: "(string \<Rightarrow> vgraph \<times> driver \<Rightarrow> (status \<times> vgraph \<times> driver) outcome) \<Rightarrow> vgraph \<times> driver \<Rightarrow> (vgraph \<times> driver) outcome" where
  "scan_vgraph f s = bfs (graph_size (vg (fst s))) (vg \<circ> fst) f s"

definition push_to :: "string \<Rightarrow> 'a list \<Rightarrow> (string \<times> 'a list) list \<Rightarrow> (string \<times> 'a list) list" where
  "push_to k ys m = (if ys = [] then m else AList.update k ((case map_of m k of None \<Rightarrow> [] | Some xs \<Rightarrow> xs) @ ys) m)"

definition map_node_to_node_ptr :: "node \<Rightarrow> string \<Rightarrow> driver \<Rightarrow> (status \<times> driver) outcome" where
  "map_node_to_node_ptr target v d =
     bindE (op_node d v) (\<lambda>n.
     if gn_name n = node_name target then
       bindE (check (length (merge_nodes target) = length (merge_node_names target))) (\<lambda>_.
       bindE (upd_op v (\<lambda>n. n\<lparr>gn_wait := need_wait target, gn_lane := Some (lane target), gn_op := op_name target\<rparr>)
         (d\<lparr>node_merges := push_to (node_name target) (map node_name (merge_nodes target)) (node_merges d),
            pattern_name_merges := push_to (node_name target) (merge_node_names target) (pattern_name_merges d),
            node_merges_keep := push_to (node_name target) (idx_keep target) (node_merges_keep d)\<rparr>)) (\<lambda>d'.
       Inr (EXIT, d')))
     else Inr (OK, d))"

definition interpreter_node :: "string \<Rightarrow> vgraph \<times> driver \<Rightarrow> (status \<times> vgraph \<times> driver) outcome" where
  "interpreter_node v s =
     (case s of (G, d) \<Rightarrow>
      bindE (vertex_at (vg G) v) (\<lambda>target.
      bindE (scan_ops id (map_node_to_node_ptr target) d) (\<lambda>d'. Inr (OK, G, d'))))"

definition merge_one :: "string \<Rightarrow> string \<Rightarrow> nat \<times> string \<Rightarrow> driver \<Rightarrow> driver outcome" where
  "merge_one v target im d =
     (case im of (i, m) \<Rightarrow>
      bindE (op_node d m) (\<lambda>tmp.
      bindE (at (case map_of (pattern_name_merges d) target of None \<Rightarrow> [] | Some ps \<Rightarrow> ps) (int i)) (\<lambda>p.
      bindE (upd_op v (merge_with_pattern tmp p) d) (\<lambda>d1.
      if int i \<notin> set (case map_of (node_merges_keep d1) target of None \<Rightarrow> [] | Some ks \<Rightarrow> ks) then on_graph (remove_vertex m) d1 else Inr d1))))"

definition slice_info_of :: "vgraph \<Rightarrow> string \<Rightarrow> string \<Rightarrow> string list \<Rightarrow> driver \<Rightarrow> driver outcome" where
  "slice_info_of G v target merges d =
     bindE (get_out_arc_its (vg G) target) (\<lambda>its.
     if length its > 1 then
       bindE (mapE (\<lambda>i. bindE (deref (vg G) i) (\<lambda>a. bindE (vertex_at (vg G) (arc_top a)) (\<lambda>n. Inr (int (length (merge_nodes n)) + 1)))) its) (\<lambda>info.
       if sum_list info = int (length merges) + 1 then upd_op v (set_attr ''slice_info'' (A_ints info)) d else Inr d)
     else Inr d)"

definition merge_node_attrs :: "vgraph \<Rightarrow> string \<Rightarrow> driver \<Rightarrow> (status \<times> driver) outcome" where
  "merge_node_attrs G v d =
     bindE (op_node d v) (\<lambda>n.
     let merges = (case map_of (node_merges d) (gn_name n) of None \<Rightarrow> [] | Some ms \<Rightarrow> ms)
     in bindE (foldE (merge_one v (gn_name n)) (zip [0..<length merges] merges) d) (\<lambda>d1.
        bindE (slice_info_of G v (gn_name n) merges d1) (\<lambda>d2. Inr (OK, d2))))"

definition recover_edge :: "vgraph \<Rightarrow> (string \<times> 'a) list \<Rightarrow> ('a \<Rightarrow> gedge \<Rightarrow> gedge) \<Rightarrow> arc_id \<Rightarrow> driver \<Rightarrow> driver outcome" where
  "recover_edge G m f i d =
     bindE (deref (d_graph d) i) (\<lambda>a.
     let e = (let old = get_fusion_old_edge G (arc_name a) in if old \<noteq> '''' then old else arc_name a)
     in case map_of m e of Some x \<Rightarrow> Inr (upd_edge i (f x) d) | None \<Rightarrow> Inr d)"

text \<open>\<open>conv_eltwise_deal_scale\<close>; the single-precision 1.\<close>

definition float_one :: float_bits where
  "float_one = 0x3F800000"

definition scale0 :: "(string, gedge) arc \<Rightarrow> float_bits" where
  "scale0 a = (case ge_scale (weight a) of [] \<Rightarrow> float_one | x # _ \<Rightarrow> x)"

definition conv_eltwise_deal_scale :: "string \<Rightarrow> driver \<Rightarrow> (status \<times> driver) outcome" where
  "conv_eltwise_deal_scale v d =
     bindE (op_node d v) (\<lambda>n.
     if gn_op n \<noteq> ''Gather'' then Inr (OK, d)
     else
       bindE (get_in_arc_its (d_graph d) (gn_name n)) (\<lambda>its.
       bindE (check (length its = 2)) (\<lambda>_.
       bindE (deref (d_graph d) (its ! 0)) (\<lambda>e0.
       bindE (op_node d (arc_bottom e0)) (\<lambda>n0.
       bindE (deref (d_graph d) (its ! 1)) (\<lambda>e1.
       bindE (op_node d (arc_bottom (if gn_op n0 = ''ConvEltwise'' then e1 else e0))) (\<lambda>other.
       let first = gn_op n0 = ''ConvEltwise'';
           scale_0 = scale0 (if first then e1 else e0);
           eltwise = arc_bottom (if first then e0 else e1)
       in bindE (get_out_arc_its (d_graph d) (gn_name n)) (\<lambda>outs.
          bindE (check (length outs = 1)) (\<lambda>_.
          bindE (deref (d_graph d) (outs ! 0)) (\<lambda>eo.
          bindE (if length (ge_scale (weight e1)) > 0 then at (ge_scale (weight eo)) 0 else Inr float_one) (\<lambda>scale_3.
          bindE (upd_op eltwise (\<lambda>m. set_attr ''be_eltwise_dtype'' (A_dtype (gn_bits other))
                   (set_attr ''scale_3'' (A_float scale_3) (set_attr ''scale_0'' (A_float scale_0) m))) d) (\<lambda>d'.
          Inr (OK, d')))))))))))))"

definition restore_from_vgraph :: "vgraph \<Rightarrow> driver \<Rightarrow> driver outcome" where
  "restore_from_vgraph G d =
     bindE (get_scale_map d) (\<lambda>scales.
     bindE (get_layout_map d) (\<lambda>layouts.
     bindE (scan_vgraph (interpreter_io get_in_arc_its add_in_arc) (G, d\<lparr>d_graph := arcs_clear (d_graph d)\<rparr>)) (\<lambda>(_, d1).
     bindE (scan_vgraph (interpreter_io get_out_arc_its add_out_arc) (G, d1)) (\<lambda>(_, d2).
     bindE (scan_vgraph interpreter_node (G, d2\<lparr>node_merges := map (\<lambda>(k, _). (k, [])) (node_merges d2),
              pattern_name_merges := map (\<lambda>(k, _). (k, [])) (pattern_name_merges d2),
              node_merges_keep := map (\<lambda>(k, _). (k, [])) (node_merges_keep d2)\<rparr>)) (\<lambda>(_, d3).
     bindE (scan_ops id (merge_node_attrs G) d3) (\<lambda>d4.
     bindE (each_edge id (recover_edge G scales (\<lambda>s e. e\<lparr>ge_scale := s\<rparr>)) d4) (\<lambda>d5.
     bindE (each_edge id (recover_edge G layouts (\<lambda>l e. e\<lparr>ge_layout := l\<rparr>)) d5) (\<lambda>d6.
     scan_ops id conv_eltwise_deal_scale d6))))))))"

end
