(* ===== verification/Vgraph_Copy.thy ===== *)
theory Vgraph_Copy
  imports Graph_Driver Dep_Scheduler_Facts
begin

text \<open>
  \<open>Graph::get_vgraph\<close> builds the virtual graph in three traversals: vertices, in-arcs, out-arcs. Each
  traversal is a loop over the vertices that the inputs reach, and each loop a fold of one operation of
  the container, so the virtual graph has the operators, the arcs and the registered outputs of the graph.
\<close>

section \<open>Folding the operations of the container\<close>

lemma push_arc_total:
  assumes "arc_bottom a \<in> set (vertex_names g)" "arc_top a \<in> set (vertex_names g)"
  shows "\<exists>h. push_arc a g = Inr h \<and> set (arcs h) \<subseteq> set (arcs g) \<union> {(next_id g, a)} \<and> set (arcs g) \<subseteq> set (arcs h)"
  using assms by (auto simp: push_arc_def Let_def has_vertex_iff vertex_names_def)

lemma add_arc_total:
  assumes "wf_graph g" "arc_bottom a \<in> set (vertex_names g)" "arc_top a \<in> set (vertex_names g)"
  shows "\<exists>h. add_in_arc a g = Inr h" "\<exists>h. add_out_arc a g = Inr h"
proof -
  obtain h where h: "push_arc a g = Inr h" using push_arc_total [OF assms(2,3)] by blast
  obtain i where "find_arc h (arc_bottom a) (arc_top a) = Some i" using push_arc_Inr(2) [OF assms(1) h] by blast
  then show "\<exists>h. add_in_arc a g = Inr h" "\<exists>h. add_out_arc a g = Inr h"
    using h by (simp_all add: add_in_arc_def add_out_arc_def)
qed

definition in_linked :: "('n, 'v, 'w) graph \<Rightarrow> bool" where
  "in_linked g \<longleftrightarrow> (\<forall>(i, a) \<in> set (arcs g). i \<in> set (in_its g (arc_top a)))"

lemma add_in_arc_linked:
  assumes "wf_graph g" "in_linked g" "add_in_arc a g = Inr h"
  shows "in_linked h"
  unfolding in_linked_def
proof (clarify, goal_cases)
  case (1 k c)
  note i = add_in_arc_wf [OF assms(1,3)]
  obtain p where p: "push_arc a g = Inr p" "arcs h = arcs p" using i(7) by blast
  show ?case
  proof (cases "ends c = ends a")
    case True
    obtain j b where j: "(j, b) \<in> set (arcs h)" "ends b = ends a" "j \<in> set (in_its h (arc_top a))" using i(5) by blast
    have "k = j" using arc_unique [OF i(1) 1 j(1)] j(2) True by simp
    then show ?thesis using j(3) True by (simp add: ends_def)
  next
    case False
    then have "(k, c) \<in> set (arcs g)" using push_arc_arcs [OF p(1)] 1 p(2) by metis
    then have "k \<in> set (in_its g (arc_top c))" using assms(2) by (auto simp: in_linked_def)
    then show ?thesis using i(6) by blast
  qed
qed

lemma add_arc_weights:
  assumes "arc_bottom a \<in> set (vertex_names g)" "arc_top a \<in> set (vertex_names g)" "push_arc a g = Inr p" "arcs h = arcs p"
    "\<forall>x \<in> set (arcs g). P (snd x)" "P a"
  shows "\<forall>x \<in> set (arcs h). P (snd x)"
proof -
  have "set (arcs h) \<subseteq> set (arcs g) \<union> {(next_id g, a)}" using push_arc_total [OF assms(1,2)] assms(3,4) by auto
  then show ?thesis using assms(5,6) by auto
qed

lemma fold_add_in:
  assumes "wf_graph g" "in_linked g" "\<forall>a \<in> set as. arc_bottom a \<in> set (vertex_names g) \<and> arc_top a \<in> set (vertex_names g) \<and> P a"
    "\<forall>x \<in> set (arcs g). P (snd x)"
  shows "\<exists>h. foldE add_in_arc as g = Inr h \<and> wf_graph h \<and> in_linked h \<and> edges h = ends ` set as \<union> edges g \<and>
    vertices h = vertices g \<and> out_its h = out_its g \<and> (\<forall>x \<in> set (arcs h). P (snd x))"
  using assms
proof (induction as arbitrary: g)
  case Nil
  then show ?case by simp
next
  case (Cons a as)
  have a: "arc_bottom a \<in> set (vertex_names g)" "arc_top a \<in> set (vertex_names g)" "P a" using Cons.prems(3) by auto
  obtain g1 where g1: "add_in_arc a g = Inr g1" using add_arc_total(1) [OF Cons.prems(1) a(1,2)] by blast
  note i = add_in_arc_wf [OF Cons.prems(1) g1]
  obtain p where p: "push_arc a g = Inr p" "arcs g1 = arcs p" using i(7) by blast
  have n: "vertex_names g1 = vertex_names g" using i(3) by (simp add: vertex_names_def)
  obtain h where h: "foldE add_in_arc as g1 = Inr h" "wf_graph h" "in_linked h" "edges h = ends ` set as \<union> edges g1"
    "vertices h = vertices g1" "out_its h = out_its g1" "\<forall>x \<in> set (arcs h). P (snd x)"
    using Cons.IH [OF i(1) add_in_arc_linked [OF Cons.prems(1,2) g1] _ add_arc_weights [OF a(1,2) p Cons.prems(4) a(3)]]
      Cons.prems(3) n by auto
  have "edges h = ends ` set (a # as) \<union> edges g" using h(4) i(2) by auto
  then show ?case using h i(3,4) g1 by simp
qed

text \<open>The out-arcs are in the list of arcs already, so only the lists of iterators grow.\<close>

lemma add_out_arc_present:
  assumes "wf_graph g" "ends a \<in> edges g"
  shows "\<exists>h. add_out_arc a g = Inr h \<and> arcs h = arcs g"
proof -
  have "has_arc g (arc_bottom a) (arc_top a)" using assms(2) by (simp add: has_arc_iff ends_def)
  then have "push_arc a g = Inr g" "find_arc g (arc_bottom a) (arc_top a) \<noteq> None" by (simp_all add: push_arc_def has_arc_def)
  then show ?thesis by (auto simp: add_out_arc_def)
qed

lemma fold_add_out:
  assumes "wf_graph g" "\<forall>a \<in> set as. ends a \<in> edges g"
  shows "\<exists>h. foldE add_out_arc as g = Inr h \<and> wf_graph h \<and> arcs h = arcs g \<and> vertices h = vertices g \<and> in_its h = in_its g \<and>
    (\<forall>v. set (out_its g v) \<subseteq> set (out_its h v)) \<and>
    (\<forall>i c. (i, c) \<in> set (arcs g) \<and> ends c \<in> ends ` set as \<longrightarrow> i \<in> set (out_its h (arc_bottom c)))"
  using assms
proof (induction as arbitrary: g)
  case Nil
  then show ?case by simp
next
  case (Cons a as)
  obtain g1 where g1: "add_out_arc a g = Inr g1" "arcs g1 = arcs g"
    using add_out_arc_present [OF Cons.prems(1)] Cons.prems(2) by auto
  note o = add_out_arc_wf [OF Cons.prems(1) g1(1)]
  have e: "edges g1 = edges g" using g1(2) by (simp add: edges_def)
  obtain h where h: "foldE add_out_arc as g1 = Inr h" "wf_graph h" "arcs h = arcs g1" "vertices h = vertices g1"
    "in_its h = in_its g1" "\<And>v. set (out_its g1 v) \<subseteq> set (out_its h v)"
    "\<And>i c. (i, c) \<in> set (arcs g1) \<Longrightarrow> ends c \<in> ends ` set as \<Longrightarrow> i \<in> set (out_its h (arc_bottom c))"
    using Cons.IH [OF o(1)] Cons.prems(2) e by auto
  have "i \<in> set (out_its h (arc_bottom c))" if c: "(i, c) \<in> set (arcs g)" "ends c \<in> ends ` set (a # as)" for i c
  proof (cases "ends c = ends a")
    case True
    obtain j b where j: "(j, b) \<in> set (arcs g1)" "ends b = ends a" "j \<in> set (out_its g1 (arc_bottom a))" using o(5) by blast
    have "i = j" using arc_unique [OF o(1) _ j(1)] c(1) g1(2) j(2) True by simp
    then show ?thesis using j(3) h(6) True by (auto simp: ends_def)
  next
    case False
    then show ?thesis using c h(7) g1(2) by auto
  qed
  moreover have "set (out_its g v) \<subseteq> set (out_its h v)" for v using o(6) h(6) by blast
  ultimately show ?case using h(1-5) o(3,4) g1 by simp
qed

section \<open>The functors as folds\<close>

definition op_of :: "driver \<Rightarrow> string \<Rightarrow> gnode" where
  "op_of d v = the (map_of (vertices (d_graph d)) v)"

definition the_arc :: "('n, 'v, 'w) graph \<Rightarrow> arc_id \<Rightarrow> ('n, 'w) arc" where
  "the_arc g i = the (map_of (arcs g) i)"

text \<open>A graph whose operators have the names they are stored under, as \<open>AddOp\<close> stores them.\<close>

definition named_ops :: "driver \<Rightarrow> bool" where
  "named_ops d \<longleftrightarrow> list_all (\<lambda>(v, n). gn_name n = v) (vertices (d_graph d))"

lemma op_node_of:
  assumes "named_ops d" "v \<in> set (vertex_names (d_graph d))"
  shows "op_node d v = Inr (op_of d v)" "gn_name (op_of d v) = v"
proof -
  obtain n where n: "map_of (vertices (d_graph d)) v = Some n"
    using assms(2) by (cases "map_of (vertices (d_graph d)) v") (auto simp: vertex_names_def map_of_eq_None_iff)
  then show "op_node d v = Inr (op_of d v)" by (simp add: op_node_def vertex_at_def op_of_def)
  have "(v, n) \<in> set (vertices (d_graph d))" using n by (rule map_of_SomeD)
  then show "gn_name (op_of d v) = v" using assms(1) n by (auto simp: named_ops_def list_all_iff op_of_def)
qed

lemma deref_its:
  assumes "wf_graph g"
  shows "i \<in> set (in_its g v) \<Longrightarrow> deref g i = Inr (the_arc g i)" "i \<in> set (out_its g v) \<Longrightarrow> deref g i = Inr (the_arc g i)"
    "(i, a) \<in> set (arcs g) \<Longrightarrow> the_arc g i = a"
proof -
  have *: "the_arc g i = a" if "(i, a) \<in> set (arcs g)" for i a
    using that wf_graphD(2) [OF assms] by (simp add: the_arc_def)
  show "(i, a) \<in> set (arcs g) \<Longrightarrow> the_arc g i = a" by (rule *)
  show "deref g i = Inr (the_arc g i)" if "i \<in> set (in_its g v)"
    using wf_graphD(10) [OF assms that] deref_mem [OF wf_graphD(2) [OF assms]] * by metis
  show "deref g i = Inr (the_arc g i)" if "i \<in> set (out_its g v)"
    using wf_graphD(8) [OF assms that] deref_mem [OF wf_graphD(2) [OF assms]] * by metis
qed

lemma foldE_map: "foldE f (map h xs) s = foldE (\<lambda>x. f (h x)) xs s"
  by (induction xs arbitrary: s) (auto simp: bindE_def split: sum.splits)

lemma foldE_cong_set: "(\<And>x s. x \<in> set xs \<Longrightarrow> f x s = g x s) \<Longrightarrow> foldE f xs s = foldE g xs s"
  by (induction xs arbitrary: s) (auto simp: bindE_def split: sum.splits)

lemma deref_fold:
  assumes "\<And>i. i \<in> set js \<Longrightarrow> deref g i = Inr (the_arc g i)"
  shows "foldE (\<lambda>i t. bindE (deref g i) (\<lambda>a. f (h a) t)) js s = foldE f (map (h \<circ> the_arc g) js) s"
  unfolding foldE_map by (rule foldE_cong_set) (simp add: assms)

lemma run_set_nodes:
  assumes "named_ops d"
  shows "set vs \<subseteq> set (vertex_names (d_graph d)) \<Longrightarrow>
    run_exit set_nodes vs (d, G) = Inr (False, d, G\<lparr>vg := fold (\<lambda>v. add_vertex v (vnode_of (op_of d v))) vs (vg G)\<rparr>)"
proof (induction vs arbitrary: G)
  case Nil
  then show ?case by simp
next
  case (Cons v vs)
  then show ?case using op_node_of [OF assms, of v] by (simp add: set_nodes_def)
qed

text \<open>Copies of the arcs that the lists of a vertex refer to.\<close>

definition in_copies :: "(('n, 'w) arc \<Rightarrow> ('n, 'u) arc) \<Rightarrow> ('n, 'v, 'w) graph \<Rightarrow> 'n \<Rightarrow> ('n, 'u) arc list" where
  "in_copies h g v = map (h \<circ> the_arc g) (in_its g v)"

definition out_copies :: "(('n, 'w) arc \<Rightarrow> ('n, 'u) arc) \<Rightarrow> ('n, 'v, 'w) graph \<Rightarrow> 'n \<Rightarrow> ('n, 'u) arc list" where
  "out_copies h g v = map (h \<circ> the_arc g) (out_its g v)"

lemma set_edge_io_step:
  assumes "named_ops d" "wf_graph (d_graph d)" "v \<in> set (vertex_names (d_graph d))"
  shows "set_edge_io_in v (d, G) = bindE (foldE add_in_arc (in_copies edge_arc (d_graph d) v) (vg G)) (\<lambda>g. Inr (OK, d, G\<lparr>vg := g\<rparr>))"
    "set_edge_io_out v (d, G) = bindE (foldE add_out_arc (out_copies edge_arc (d_graph d) v) (vg G)) (\<lambda>g. Inr (OK, d, G\<lparr>vg := g\<rparr>))"
proof -
  have i: "foldE (\<lambda>i h. bindE (deref (d_graph d) i) (\<lambda>a. add_in_arc (edge_arc a) h)) (in_its (d_graph d) v) g = foldE add_in_arc (in_copies edge_arc (d_graph d) v) g" for g
    unfolding in_copies_def by (rule deref_fold) (rule deref_its(1) [OF assms(2)])
  have o: "foldE (\<lambda>i h. bindE (deref (d_graph d) i) (\<lambda>a. add_out_arc (edge_arc a) h)) (out_its (d_graph d) v) g = foldE add_out_arc (out_copies edge_arc (d_graph d) v) g" for g
    unfolding out_copies_def by (rule deref_fold) (rule deref_its(2) [OF assms(2)])
  show "set_edge_io_in v (d, G) = bindE (foldE add_in_arc (in_copies edge_arc (d_graph d) v) (vg G)) (\<lambda>g. Inr (OK, d, G\<lparr>vg := g\<rparr>))"
    "set_edge_io_out v (d, G) = bindE (foldE add_out_arc (out_copies edge_arc (d_graph d) v) (vg G)) (\<lambda>g. Inr (OK, d, G\<lparr>vg := g\<rparr>))"
    using assms(3) op_node_of [OF assms(1,3)]
    by (simp_all add: set_edge_io_in_def set_edge_io_out_def get_in_arc_its_def get_out_arc_its_def has_vertex_iff i o)
qed

lemma run_set_edges:
  assumes "named_ops d" "wf_graph (d_graph d)"
  shows "set vs \<subseteq> set (vertex_names (d_graph d)) \<Longrightarrow>
      run_exit set_edge_io_in vs (d, G) = bindE (foldE add_in_arc (concat (map (in_copies edge_arc (d_graph d)) vs)) (vg G)) (\<lambda>g. Inr (False, d, G\<lparr>vg := g\<rparr>))"
    "set vs \<subseteq> set (vertex_names (d_graph d)) \<Longrightarrow>
      run_exit set_edge_io_out vs (d, G) = bindE (foldE add_out_arc (concat (map (out_copies edge_arc (d_graph d)) vs)) (vg G)) (\<lambda>g. Inr (False, d, G\<lparr>vg := g\<rparr>))"
proof (induction vs arbitrary: G)
  case Nil
  {
    case 1
    then show ?case by simp
  next
    case 2
    then show ?case by simp
  }
next
  case (Cons v vs)
  {
    case 1
    then show ?case
      using Cons.IH(1) by (simp add: set_edge_io_step [OF assms] foldE_append bindE_assoc)
  next
    case 2
    then show ?case
      using Cons.IH(2) by (simp add: set_edge_io_step [OF assms] foldE_append bindE_assoc)
  }
qed

section \<open>The virtual graph\<close>

lemma copies_ends:
  assumes "wf_graph g" "linked g" "\<And>a. ends (h a) = ends a"
  shows "ends ` set (concat (map (in_copies h g) vs)) = {(b, t). (b, t) \<in> edges g \<and> t \<in> set vs}"
    "ends ` set (concat (map (out_copies h g) vs)) = {(b, t). (b, t) \<in> edges g \<and> b \<in> set vs}"
proof -
  have i: "ends ` set (in_copies h g v) = {(b, t). (b, t) \<in> edges g \<and> t = v}" for v
  proof (rule set_eqI, clarify, rule iffI)
    fix b t
    assume "(b, t) \<in> ends ` set (in_copies h g v)"
    then obtain i where i: "i \<in> set (in_its g v)" "(b, t) = ends (the_arc g i)" by (auto simp: in_copies_def assms(3))
    obtain a where a: "(i, a) \<in> set (arcs g)" "arc_top a = v" using wf_graphD(10) [OF assms(1) i(1)] by blast
    have "the_arc g i = a" by (rule deref_its(3) [OF assms(1) a(1)])
    then show "(b, t) \<in> {(b, t). (b, t) \<in> edges g \<and> t = v}" using a i(2) by (force simp: edges_def ends_def)
  next
    fix b t
    assume "(b, t) \<in> {(b, t). (b, t) \<in> edges g \<and> t = v}"
    then obtain i a where a: "(i, a) \<in> set (arcs g)" "(b, t) = ends a" "t = v" by (auto simp: edges_def)
    have "i \<in> set (in_its g v)" using assms(2) a by (auto simp: linked_def ends_def)
    then show "(b, t) \<in> ends ` set (in_copies h g v)"
      using a(2) deref_its(3) [OF assms(1) a(1)] by (force simp: in_copies_def assms(3) image_iff)
  qed
  have o: "ends ` set (out_copies h g v) = {(b, t). (b, t) \<in> edges g \<and> b = v}" for v
  proof (rule set_eqI, clarify, rule iffI)
    fix b t
    assume "(b, t) \<in> ends ` set (out_copies h g v)"
    then obtain i where i: "i \<in> set (out_its g v)" "(b, t) = ends (the_arc g i)" by (auto simp: out_copies_def assms(3))
    obtain a where a: "(i, a) \<in> set (arcs g)" "arc_bottom a = v" using wf_graphD(8) [OF assms(1) i(1)] by blast
    have "the_arc g i = a" by (rule deref_its(3) [OF assms(1) a(1)])
    then show "(b, t) \<in> {(b, t). (b, t) \<in> edges g \<and> b = v}" using a i(2) by (force simp: edges_def ends_def)
  next
    fix b t
    assume "(b, t) \<in> {(b, t). (b, t) \<in> edges g \<and> b = v}"
    then obtain i a where a: "(i, a) \<in> set (arcs g)" "(b, t) = ends a" "b = v" by (auto simp: edges_def)
    have "i \<in> set (out_its g v)" using assms(2) a by (auto simp: linked_def ends_def)
    then show "(b, t) \<in> ends ` set (out_copies h g v)"
      using a(2) deref_its(3) [OF assms(1) a(1)] by (force simp: out_copies_def assms(3) image_iff)
  qed
  show "ends ` set (concat (map (in_copies h g) vs)) = {(b, t). (b, t) \<in> edges g \<and> t \<in> set vs}"
    by (simp add: image_UN i) blast
  show "ends ` set (concat (map (out_copies h g) vs)) = {(b, t). (b, t) \<in> edges g \<and> b \<in> set vs}"
    by (simp add: image_UN o) blast
qed

lemma copies_arcs:
  assumes "wf_graph g" "a \<in> set (concat (map (in_copies h g) vs))"
  shows "\<exists>b \<in> snd ` set (arcs g). a = h b"
proof -
  obtain v i where i: "i \<in> set (in_its g v)" "a = h (the_arc g i)" using assms(2) by (auto simp: in_copies_def)
  obtain b where b: "(i, b) \<in> set (arcs g)" using wf_graphD(10) [OF assms(1) i(1)] by blast
  then show ?thesis using i(2) deref_its(3) [OF assms(1) b] by force
qed

lemma edge_arc_ends [simp]: "ends (edge_arc a) = ends a"
  by (simp add: edge_arc_def ends_def)

lemma copies_weight:
  "wf_graph g \<Longrightarrow> a \<in> set (concat (map (in_copies edge_arc g) vs)) \<Longrightarrow> weight a = io_default\<lparr>io_name := arc_name a\<rparr>"
  by (auto dest!: copies_arcs simp: edge_arc_def arc_name_def simp del: set_concat)

lemma register_fold:
  "vg (fold (\<lambda>(b, t). register_outs b t) ps G) = vg G"
  "fusion_edge_map (fold (\<lambda>(b, t). register_outs b t) ps G) = fusion_edge_map G"
  "set (registed_outs (fold (\<lambda>(b, t). register_outs b t) ps G)) = set (registed_outs G) \<union> set ps"
  "distinct (registed_outs G) \<Longrightarrow> distinct (registed_outs (fold (\<lambda>(b, t). register_outs b t) ps G))"
  by (induction ps arbitrary: G) (auto simp: register_outs_def check_pass_def split: if_splits)

lemma add_vertices_spec:
  assumes "distinct vs" "set vs \<inter> set (vertex_names g) = {}"
  shows "vertices (fold (\<lambda>v. add_vertex v (f v)) vs g) = vertices g @ map (\<lambda>v. (v, f v)) vs"
    "arcs (fold (\<lambda>v. add_vertex v (f v)) vs g) = arcs g"
proof -
  have "vertices (fold (\<lambda>v. add_vertex v (f v)) vs g) = vertices g @ map (\<lambda>v. (v, f v)) vs \<and>
    arcs (fold (\<lambda>v. add_vertex v (f v)) vs g) = arcs g"
    using assms
  proof (induction vs arbitrary: g)
    case Nil
    then show ?case by simp
  next
    case (Cons v vs)
    have "\<not> has_vertex g v" using Cons.prems(2) by (auto simp: has_vertex_iff)
    then have g1: "vertices (add_vertex v (f v) g) = vertices g @ [(v, f v)]" "arcs (add_vertex v (f v) g) = arcs g"
      by (simp_all add: add_vertex_def)
    then have "set vs \<inter> set (vertex_names (add_vertex v (f v) g)) = {}"
      using Cons.prems by (auto simp: vertex_names_def)
    then show ?case using Cons.IH [of "add_vertex v (f v) g"] Cons.prems(1) g1 by simp
  qed
  then show "vertices (fold (\<lambda>v. add_vertex v (f v)) vs g) = vertices g @ map (\<lambda>v. (v, f v)) vs"
    "arcs (fold (\<lambda>v. add_vertex v (f v)) vs g) = arcs g" by auto
qed

lemma keeps_driver:
  assumes "\<And>v d G r t. f v (d, G) = Inr (r, t) \<Longrightarrow> fst t = d"
  shows "keeps_skel (d_graph \<circ> fst) f"
  unfolding keeps_skel_def using assms by fastforce

lemma vgraph_functors_keep:
  "keeps_skel (d_graph \<circ> fst) set_nodes" "keeps_skel (d_graph \<circ> fst) set_edge_io_in" "keeps_skel (d_graph \<circ> fst) set_edge_io_out"
  by (rule keeps_driver; auto simp: set_nodes_def set_edge_io_in_def set_edge_io_out_def)+

text \<open>The operators that an arc starts from or leads to.\<close>

definition joined :: "driver \<Rightarrow> string set" where
  "joined d = fst ` edges (d_graph d) \<union> snd ` edges (d_graph d)"

lemma scan_ops_run:
  assumes "wf_graph (d_graph d)" "linked (d_graph d)" "acyclic (edges (d_graph d))" "edges (d_graph d) \<noteq> {}"
    "keeps_skel (d_graph \<circ> fst) f"
  obtains vs where "distinct vs" "set vs = joined d" "scan_ops fst f (d, G) = bindE (run_exit f vs (d, G)) (\<lambda>(_, t). Inr t)"
proof -
  obtain ins where ins: "get_graph_ins (d_graph d) = Inr ins" "ins \<noteq> []"
    "(edges (d_graph d))\<^sup>* `` set ins = joined d"
    unfolding joined_def by (rule inputs_exist [OF assms(1-4)])
  show ?thesis
    using bfs_spec [OF assms(5), of "(d, G)" ins "graph_size (d_graph d)"] assms(1,2) ins that
    by (auto simp: scan_ops_def)
qed

text \<open>The result of \<open>get_vgraph\<close>: the operators that have arcs, the arcs, and the registered outputs.\<close>

definition vgraph_of :: "driver \<Rightarrow> vgraph \<Rightarrow> bool" where
  "vgraph_of d G \<longleftrightarrow> wf_graph (vg G) \<and> linked (vg G) \<and> edges (vg G) = edges (d_graph d) \<and>
     set (vertices (vg G)) = (\<lambda>v. (v, vnode_of (op_of d v))) ` joined d \<and>
     (\<forall>(i, a) \<in> set (arcs (vg G)). weight a = io_default\<lparr>io_name := arc_name a\<rparr>) \<and>
     set (registed_outs G) = set (d_registed d) \<and> distinct (registed_outs G) \<and> fusion_edge_map G = []"

lemma get_vgraph_spec:
  assumes "wf_graph (d_graph d)" "linked (d_graph d)" "named_ops d" "acyclic (edges (d_graph d))" "edges (d_graph d) \<noteq> {}"
  shows "\<exists>G. get_vgraph d = Inr (d\<lparr>d_vgraph := Some G\<rparr>) \<and> vgraph_of d G"
proof -
  let ?E = "edges (d_graph d)"
  have in_names: "joined d \<subseteq> set (vertex_names (d_graph d))"
    using edges_names [OF assms(1)] by (auto simp: joined_def)
  have ends_joined: "b \<in> joined d \<and> t \<in> joined d" if "(b, t) \<in> ?E" for b t using that by (force simp: joined_def)
  note scan = scan_ops_run [OF assms(1,2,4,5)]
  obtain vs where vs: "distinct vs" "set vs = joined d"
    "scan_ops fst set_nodes (d, empty_vgraph) = bindE (run_exit set_nodes vs (d, empty_vgraph)) (\<lambda>(_, t). Inr t)"
    by (rule scan [OF vgraph_functors_keep(1)])
  define g1 :: "(string, node, io) graph" where "g1 = fold (\<lambda>v. add_vertex v (vnode_of (op_of d v))) vs empty_graph"
  have g1: "vertices g1 = map (\<lambda>v. (v, vnode_of (op_of d v))) vs" "arcs g1 = []"
    using add_vertices_spec [OF vs(1), of empty_graph] by (auto simp: g1_def empty_graph_def vertex_names_def)
  have "wf_graph g \<Longrightarrow> wf_graph (fold (\<lambda>v. add_vertex v (vnode_of (op_of d v))) ws g)" for ws and g :: "(string, node, io) graph"
    by (induction ws arbitrary: g) (simp_all add: add_vertex_wf)
  then have w1: "wf_graph g1" "in_linked g1" using wf_empty_graph(1) g1(2) by (auto simp: g1_def in_linked_def)
  have n1: "set (vertex_names g1) = joined d" using g1(1) vs(2) by (simp add: vertex_names_def comp_def)
  define G2 where "G2 = fold (\<lambda>(b, t). register_outs b t) (d_registed d) (empty_vgraph\<lparr>vg := g1\<rparr>)"
  have G2: "vg G2 = g1" "set (registed_outs G2) = set (d_registed d)" "distinct (registed_outs G2)" "fusion_edge_map G2 = []"
    using register_fold [where ps = "d_registed d" and G = "empty_vgraph\<lparr>vg := g1\<rparr>"] by (auto simp: G2_def empty_vgraph_def)
  obtain us where us: "distinct us" "set us = joined d"
    "scan_ops fst set_edge_io_in (d, G2) = bindE (run_exit set_edge_io_in us (d, G2)) (\<lambda>(_, t). Inr t)"
    by (rule scan [OF vgraph_functors_keep(2)])
  have ue: "ends ` set (concat (map (in_copies edge_arc (d_graph d)) us)) = ?E"
    unfolding copies_ends(1) [OF assms(1,2) edge_arc_ends] us(2) using ends_joined by auto
  have ub: "\<forall>a \<in> set (concat (map (in_copies edge_arc (d_graph d)) us)). arc_bottom a \<in> set (vertex_names g1) \<and> arc_top a \<in> set (vertex_names g1) \<and>
      weight a = io_default\<lparr>io_name := arc_name a\<rparr>"
  proof
    fix a
    assume a: "a \<in> set (concat (map (in_copies edge_arc (d_graph d)) us))"
    then have "(arc_bottom a, arc_top a) \<in> ?E" using ue by (force simp: ends_def)
    then show "arc_bottom a \<in> set (vertex_names g1) \<and> arc_top a \<in> set (vertex_names g1) \<and> weight a = io_default\<lparr>io_name := arc_name a\<rparr>"
      using ends_joined n1 copies_weight [OF assms(1) a] by auto
  qed
  obtain g3 where g3: "foldE add_in_arc (concat (map (in_copies edge_arc (d_graph d)) us)) g1 = Inr g3" "wf_graph g3" "in_linked g3"
    "edges g3 = ?E \<union> edges g1" "vertices g3 = vertices g1" "\<forall>x \<in> set (arcs g3). weight (snd x) = io_default\<lparr>io_name := arc_name (snd x)\<rparr>"
    using fold_add_in [OF w1 ub] g1(2) ue by auto
  have e3: "edges g3 = ?E" using g3(4) g1(2) by (simp add: edges_def)
  obtain ws where ws: "distinct ws" "set ws = joined d"
    "scan_ops fst set_edge_io_out (d, G2\<lparr>vg := g3\<rparr>) = bindE (run_exit set_edge_io_out ws (d, G2\<lparr>vg := g3\<rparr>)) (\<lambda>(_, t). Inr t)"
    by (rule scan [OF vgraph_functors_keep(3)])
  have we: "ends ` set (concat (map (out_copies edge_arc (d_graph d)) ws)) = ?E"
    unfolding copies_ends(2) [OF assms(1,2) edge_arc_ends] ws(2) using ends_joined by auto
  have "\<forall>a \<in> set (concat (map (out_copies edge_arc (d_graph d)) ws)). ends a \<in> edges g3" using we e3 by blast
  from fold_add_out [OF g3(2) this]
  obtain g4 where g4: "foldE add_out_arc (concat (map (out_copies edge_arc (d_graph d)) ws)) g3 = Inr g4" "wf_graph g4" "arcs g4 = arcs g3"
    "vertices g4 = vertices g3" "in_its g4 = in_its g3"
    "\<And>i c. (i, c) \<in> set (arcs g3) \<Longrightarrow> ends c \<in> ends ` set (concat (map (out_copies edge_arc (d_graph d)) ws)) \<Longrightarrow> i \<in> set (out_its g4 (arc_bottom c))"
    by blast
  have l4: "linked g4"
  proof -
    have "i \<in> set (out_its g4 (arc_bottom a)) \<and> i \<in> set (in_its g4 (arc_top a))" if a: "(i, a) \<in> set (arcs g3)" for i a
    proof -
      have "ends a \<in> ?E" using a e3 by (force simp: edges_def)
      then show ?thesis using g4(6) [OF a] we a g3(3) g4(5) by (auto simp: in_linked_def)
    qed
    then show ?thesis using g4(3) by (auto simp: linked_def)
  qed
  have "get_vgraph d = Inr (d\<lparr>d_vgraph := Some (G2\<lparr>vg := g4\<rparr>)\<rparr>)"
  proof -
    have r1: "scan_ops fst set_nodes (d, empty_vgraph) = Inr (d, empty_vgraph\<lparr>vg := g1\<rparr>)"
      using vs(3) run_set_nodes [OF assms(3), of vs empty_vgraph] in_names vs(2) by (simp add: g1_def empty_vgraph_def)
    have r2: "scan_ops fst set_edge_io_in (d, G2) = Inr (d, G2\<lparr>vg := g3\<rparr>)"
      using us(3) run_set_edges(1) [OF assms(3,1), of us G2] in_names us(2) g3(1) G2(1) by simp
    have r3: "scan_ops fst set_edge_io_out (d, G2\<lparr>vg := g3\<rparr>) = Inr (d, G2\<lparr>vg := g4\<rparr>)"
      using ws(3) run_set_edges(2) [OF assms(3,1), of ws "G2\<lparr>vg := g3\<rparr>"] in_names ws(2) g4(1) by simp
    show ?thesis by (simp add: get_vgraph_def r1 r2 r3 G2_def [symmetric])
  qed
  moreover have "vgraph_of d (G2\<lparr>vg := g4\<rparr>)"
    using g4(2-5) l4 e3 g1(1) g3(5,6) vs(2) G2(2-4) by (auto simp: vgraph_of_def edges_def)
  ultimately show ?thesis by blast
qed

end
