(* ===== verification/Freeze_Facts.thy ===== *)
theory Freeze_Facts
  imports Vgraph_Copy
begin

text \<open>
  Building a graph by hand: what \<open>AddOp\<close> and \<open>Freeze\<close> keep, and which arcs \<open>Freeze\<close> makes when every
  variable has one producer and one reader, as the operators \<open>Split\<close> that it inserts ensure.
\<close>

section \<open>The tables of variables\<close>

definition reads :: "(string \<times> string list) list \<Rightarrow> string \<Rightarrow> string \<Rightarrow> bool" where
  "reads m op x \<longleftrightarrow> (\<exists>xs. (op, xs) \<in> set m \<and> x \<in> set xs)"

lemma reads_simps [simp]: "reads [] op x = False" "reads ((a, xs) # m) op x = (op = a \<and> x \<in> set xs \<or> reads m op x)"
  by (auto simp: reads_def)

lemma ops_of_update: "ops_of y (AList.update x os m) = (if y = x then os else ops_of y m)"
  by (simp add: ops_of_def update_conv')

lemma is_key_update: "is_key y (AList.update x os m) = (y = x \<or> is_key y m)"
  by (simp add: is_key_def update_conv')

lemma note_ops:
  "set (ops_of y (fold (\<lambda>x acc. AList.update x (ops_of x acc @ [op]) acc) xs acc)) =
     set (ops_of y acc) \<union> (if y \<in> set xs then {op} else {})"
  "is_key y (fold (\<lambda>x acc. AList.update x (ops_of x acc @ [op]) acc) xs acc) = (is_key y acc \<or> y \<in> set xs)"
  by (induction xs arbitrary: acc) (auto simp: ops_of_update is_key_update)

lemma to_op_map_spec:
  "set (ops_of y (to_op_map m)) = {op. reads m op y}" "is_key y (to_op_map m) = (\<exists>op. reads m op y)"
proof -
  let ?f = "\<lambda>(op, xs) acc. fold (\<lambda>x acc. AList.update x (ops_of x acc @ [op]) acc) xs acc"
  have s: "set (ops_of y (fold ?f m acc)) = set (ops_of y acc) \<union> {op. reads m op y}" for acc
    by (induction m arbitrary: acc) (auto simp: note_ops split: if_splits)
  have k: "is_key y (fold ?f m acc) = (is_key y acc \<or> (\<exists>op. reads m op y))" for acc
    by (induction m arbitrary: acc) (auto simp: note_ops split: if_splits)
  show "set (ops_of y (to_op_map m)) = {op. reads m op y}" "is_key y (to_op_map m) = (\<exists>op. reads m op y)"
    using s [of "[]"] k [of "[]"] by (simp_all add: to_op_map_def ops_of_def is_key_def)
qed

text \<open>Every variable in at most one list.\<close>

definition single :: "(string \<times> string list) list \<Rightarrow> bool" where
  "single m \<longleftrightarrow> (\<forall>x a b. reads m a x \<and> reads m b x \<longrightarrow> a = b)"

lemma first_op_single:
  assumes "single m" "reads m a x"
  shows "first_op x (to_op_map m) = Inr a"
proof -
  have s: "set (ops_of x (to_op_map m)) = {a}"
    unfolding to_op_map_spec(1) using assms unfolding single_def by blast
  then obtain ys where "ops_of x (to_op_map m) = a # ys" by (cases "ops_of x (to_op_map m)") auto
  then show ?thesis by (simp add: first_op_def at_def)
qed

section \<open>The arcs\<close>

definition in_edges :: "(string \<times> string list) list \<Rightarrow> (string \<times> string list) list \<Rightarrow> (string, gedge) arc list" where
  "in_edges ins outs = concat (map (\<lambda>(op, xs). concat (map (\<lambda>x.
     if is_key x (to_op_map outs) then [new_edge (hd (ops_of x (to_op_map outs))) op] else []) xs)) ins)"

definition out_edges :: "(string \<times> string list) list \<Rightarrow> (string \<times> string list) list \<Rightarrow> (string, gedge) arc list" where
  "out_edges ins outs = concat (map (\<lambda>(op, xs). concat (map (\<lambda>x.
     if is_key x (to_op_map ins) then [new_edge op (hd (ops_of x (to_op_map ins)))] else []) xs)) outs)"

lemma foldE_concat: "foldE f (concat (map h xs)) s = foldE (\<lambda>x. foldE f (h x)) xs s"
  by (induction xs arbitrary: s) (auto simp: foldE_append bindE_def split: sum.splits)

lemma on_graph_fold: "foldE (\<lambda>a. on_graph (f a)) as d = on_graph (foldE f as) d"
proof (induction as arbitrary: d)
  case Nil
  then show ?case by (simp add: on_graph_def)
next
  case (Cons a as)
  then show ?case by (cases "f a (d_graph d)") (simp_all add: on_graph_def)
qed

lemma first_op_hd: "is_key x (to_op_map m) \<Longrightarrow> first_op x (to_op_map m) = Inr (hd (ops_of x (to_op_map m)))"
  using to_op_map_spec [of x m] by (cases "ops_of x (to_op_map m)") (auto simp: first_op_def at_def)

lemma connect_ops_fold:
  "connect_ops d = bindE (on_graph (foldE add_in_arc (in_edges (node_ins d) (node_outs d))) d)
     (on_graph (foldE add_out_arc (out_edges (node_ins d) (node_outs d))))"
proof -
  let ?i = "to_op_map (node_ins d)" and ?o = "to_op_map (node_outs d)"
  have i: "(if is_key x ?o then bindE (first_op x ?o) (\<lambda>b. on_graph (add_in_arc (new_edge b op)) e) else Inr e) =
      foldE (\<lambda>a. on_graph (add_in_arc a)) (if is_key x ?o then [new_edge (hd (ops_of x ?o)) op] else []) e" for x op and e :: driver
    by (cases "add_in_arc (new_edge (hd (ops_of x ?o)) op) (d_graph e)") (simp_all add: first_op_hd on_graph_def)
  have o: "(if is_key x ?i then bindE (first_op x ?i) (\<lambda>t. on_graph (add_out_arc (new_edge op t)) e) else Inr e) =
      foldE (\<lambda>a. on_graph (add_out_arc a)) (if is_key x ?i then [new_edge op (hd (ops_of x ?i))] else []) e" for x op and e :: driver
    by (cases "add_out_arc (new_edge op (hd (ops_of x ?i))) (d_graph e)") (simp_all add: first_op_hd on_graph_def)
  have I: "foldE (\<lambda>(op, xs). foldE (\<lambda>x e. if is_key x ?o then bindE (first_op x ?o) (\<lambda>b. on_graph (add_in_arc (new_edge b op)) e) else Inr e) xs)
      (node_ins d) e = on_graph (foldE add_in_arc (in_edges (node_ins d) (node_outs d))) e" for e
    unfolding i in_edges_def on_graph_fold [symmetric] foldE_concat case_prod_unfold by simp
  have O: "foldE (\<lambda>(op, xs). foldE (\<lambda>x e. if is_key x ?i then bindE (first_op x ?i) (\<lambda>t. on_graph (add_out_arc (new_edge op t)) e) else Inr e) xs)
      (node_outs d) e = on_graph (foldE add_out_arc (out_edges (node_ins d) (node_outs d))) e" for e
    unfolding o out_edges_def on_graph_fold [symmetric] foldE_concat case_prod_unfold by simp
  have same: "node_outs e = node_outs d" if "on_graph f d = Inr e" for f e
    using that by (auto simp: on_graph_def)
  show ?thesis
  proof (cases "on_graph (foldE add_in_arc (in_edges (node_ins d) (node_outs d))) d")
    case (Inl x)
    then show ?thesis unfolding connect_ops_def Let_def I by simp
  next
    case (Inr e)
    then show ?thesis unfolding connect_ops_def Let_def I by (simp add: same [OF Inr] O)
  qed
qed

text \<open>A relation of operators: one makes a variable that the other reads.\<close>

definition feeds :: "driver \<Rightarrow> (string \<times> string) set" where
  "feeds d = {(b, t). \<exists>x. reads (node_outs d) b x \<and> reads (node_ins d) t x}"

lemma edges_of_tables:
  assumes "single (node_ins d)" "single (node_outs d)"
  shows "ends ` set (in_edges (node_ins d) (node_outs d)) = feeds d"
    "ends ` set (out_edges (node_ins d) (node_outs d)) = feeds d"
proof -
  have h: "hd (ops_of x (to_op_map m)) = a" if "single m" "reads m a x" for m a x
    using first_op_single [OF that] first_op_hd [of x m] that(2) to_op_map_spec(2) [of x m] by auto
  have n: "ends (new_edge b t) = (b, t)" for b t by (simp add: new_edge_def ends_def)
  show "ends ` set (in_edges (node_ins d) (node_outs d)) = feeds d"
  proof (rule set_eqI, clarify, rule iffI)
    fix b t
    assume "(b, t) \<in> ends ` set (in_edges (node_ins d) (node_outs d))"
    then obtain xs x where x: "(t, xs) \<in> set (node_ins d)" "x \<in> set xs" "is_key x (to_op_map (node_outs d))"
      "b = hd (ops_of x (to_op_map (node_outs d)))"
      by (auto simp: in_edges_def n split: if_splits)
    obtain a where "reads (node_outs d) a x" using x(3) to_op_map_spec(2) by blast
    then show "(b, t) \<in> feeds d" using h [OF assms(2)] x by (auto simp: feeds_def reads_def)
  next
    fix b t
    assume "(b, t) \<in> feeds d"
    then obtain x xs where x: "reads (node_outs d) b x" "(t, xs) \<in> set (node_ins d)" "x \<in> set xs"
      by (auto simp: feeds_def reads_def)
    then have "is_key x (to_op_map (node_outs d))" "hd (ops_of x (to_op_map (node_outs d))) = b"
      using h [OF assms(2)] to_op_map_spec(2) by blast+
    then have "new_edge b t \<in> set (in_edges (node_ins d) (node_outs d))" using x(2,3) by (force simp: in_edges_def)
    then show "(b, t) \<in> ends ` set (in_edges (node_ins d) (node_outs d))" using imageI [of "new_edge b t" _ ends] n by simp
  qed
  show "ends ` set (out_edges (node_ins d) (node_outs d)) = feeds d"
  proof (rule set_eqI, clarify, rule iffI)
    fix b t
    assume "(b, t) \<in> ends ` set (out_edges (node_ins d) (node_outs d))"
    then obtain xs x where x: "(b, xs) \<in> set (node_outs d)" "x \<in> set xs" "is_key x (to_op_map (node_ins d))"
      "t = hd (ops_of x (to_op_map (node_ins d)))"
      by (auto simp: out_edges_def n split: if_splits)
    obtain a where "reads (node_ins d) a x" using x(3) to_op_map_spec(2) by blast
    then show "(b, t) \<in> feeds d" using h [OF assms(1)] x by (auto simp: feeds_def reads_def)
  next
    fix b t
    assume "(b, t) \<in> feeds d"
    then obtain x xs where x: "reads (node_ins d) t x" "(b, xs) \<in> set (node_outs d)" "x \<in> set xs"
      by (auto simp: feeds_def reads_def)
    then have "is_key x (to_op_map (node_ins d))" "hd (ops_of x (to_op_map (node_ins d))) = t"
      using h [OF assms(1)] to_op_map_spec(2) by blast+
    then have "new_edge b t \<in> set (out_edges (node_ins d) (node_outs d))" using x(2,3) by (force simp: out_edges_def)
    then show "(b, t) \<in> ends ` set (out_edges (node_ins d) (node_outs d))" using imageI [of "new_edge b t" _ ends] n by simp
  qed
qed

lemma link_two_phases:
  assumes "wf_graph g" "arcs g = []" "ends ` set as = E" "ends ` set bs = E"
    "\<forall>(b, t) \<in> E. b \<in> set (vertex_names g) \<and> t \<in> set (vertex_names g)"
    "\<forall>a \<in> set as. P a"
  shows "\<exists>h k. foldE add_in_arc as g = Inr h \<and> foldE add_out_arc bs h = Inr k \<and> wf_graph k \<and> linked k \<and>
    edges k = E \<and> vertices k = vertices g \<and> (\<forall>x \<in> set (arcs k). P (snd x))"
proof -
  have l: "in_linked g" using assms(2) by (simp add: in_linked_def)
  have "\<forall>a \<in> set as. arc_bottom a \<in> set (vertex_names g) \<and> arc_top a \<in> set (vertex_names g) \<and> P a"
    using assms(3,5,6) by (fastforce simp: ends_def)
  from fold_add_in [OF assms(1) l this] assms(2) obtain h where h: "foldE add_in_arc as g = Inr h" "wf_graph h" "in_linked h"
    "edges h = ends ` set as \<union> edges g" "vertices h = vertices g" "\<forall>x \<in> set (arcs h). P (snd x)" by auto
  have e: "edges h = E" using h(4) assms(2,3) by (simp add: edges_def)
  have "\<forall>a \<in> set bs. ends a \<in> edges h" using assms(4) e by blast
  from fold_add_out [OF h(2) this] obtain k where k: "foldE add_out_arc bs h = Inr k" "wf_graph k" "arcs k = arcs h"
    "vertices k = vertices h" "in_its k = in_its h"
    "\<And>i c. (i, c) \<in> set (arcs h) \<Longrightarrow> ends c \<in> ends ` set bs \<Longrightarrow> i \<in> set (out_its k (arc_bottom c))" by blast
  have "i \<in> set (out_its k (arc_bottom a)) \<and> i \<in> set (in_its k (arc_top a))" if a: "(i, a) \<in> set (arcs h)" for i a
  proof -
    have "ends a \<in> E" using a e by (force simp: edges_def)
    then show ?thesis using k(6) [OF a] assms(4) a h(3) k(5) by (auto simp: in_linked_def)
  qed
  then have "linked k" using k(3) by (auto simp: linked_def)
  then show ?thesis using h(1,5,6) k(1-4) e by (auto simp: edges_def)
qed

lemma connect_ops_spec:
  assumes "wf_graph (d_graph d)" "arcs (d_graph d) = []" "single (node_ins d)" "single (node_outs d)"
    "\<forall>(v, xs) \<in> set (node_ins d) \<union> set (node_outs d). v \<in> set (vertex_names (d_graph d))"
  shows "\<exists>d'. connect_ops d = Inr d' \<and> wf_graph (d_graph d') \<and> linked (d_graph d') \<and>
    edges (d_graph d') = feeds d \<and> vertices (d_graph d') = vertices (d_graph d)"
proof -
  have "\<forall>(b, t) \<in> feeds d. b \<in> set (vertex_names (d_graph d)) \<and> t \<in> set (vertex_names (d_graph d))"
    using assms(5) by (fastforce simp: feeds_def reads_def)
  from link_two_phases [OF assms(1,2) edges_of_tables [OF assms(3,4)] this, of "\<lambda>_. True"]
  show ?thesis by (auto simp: connect_ops_fold on_graph_def)
qed

section \<open>Well-formed graphs\<close>

lemma fold_keeps:
  assumes "P s" "\<And>x e. P e \<Longrightarrow> P (f x e)"
  shows "P (fold f xs s)"
  using assms by (induction xs arbitrary: s) auto

lemma add_op_wf: "wf_graph (d_graph d) \<Longrightarrow> wf_graph (d_graph (add_op v op xs ys d))"
  by (simp add: add_op_def add_vertex_wf)

lemma set_vertex_wf: "wf_graph g \<Longrightarrow> wf_graph (set_vertex v x g)"
  by (auto simp: wf_graph_def set_vertex_def vertex_names_def comp_def case_prod_unfold)

lemma replace_ins_graph: "d_graph (replace_ins x ys ops d) = d_graph d"
  unfolding replace_ins_def by (rule fold_keeps [where P = "\<lambda>e. d_graph e = d_graph d"]) auto

lemma find_splits_graph: "d_graph (snd (find_splits ins d)) = d_graph d"
  unfolding find_splits_def
proof (rule fold_keeps [where P = "\<lambda>r. d_graph (snd r) = d_graph d"], goal_cases)
  case (2 p r)
  show ?case
    unfolding prod.case_eq_if
    by (rule fold_keeps [where P = "\<lambda>r. d_graph (snd r) = d_graph d"])
      (use 2 in \<open>auto simp: Let_def replace_ins_graph\<close>)
qed simp

lemma add_splits_wf:
  assumes "add_splits ss d = Inr d'" "wf_graph (d_graph d)"
  shows "wf_graph (d_graph d')"
  using assms(1) unfolding add_splits_def
proof (rule foldE_invariant [where P = "\<lambda>e. wf_graph (d_graph e)"], goal_cases)
  case (2 p e e')
  obtain v x ys where p: "p = (v, x, ys)" by (cases p)
  show ?case
    using 2(3) add_op_wf [OF 2(2), of v "''Split''" "[x]" ys] 2(2)
    by (auto simp: p add_op_attr_def upd_op_def set_vertex_wf split: if_splits)
qed (rule assms(2))

lemma fold_add_wf:
  "wf_graph g \<Longrightarrow> foldE add_in_arc as g = Inr h \<Longrightarrow> wf_graph h"
  "wf_graph g \<Longrightarrow> foldE add_out_arc as g = Inr h \<Longrightarrow> wf_graph h"
  by (induction as arbitrary: g) (auto dest: add_in_arc_wf(1) add_out_arc_wf(1))

lemma freeze_wf:
  assumes "freeze d = Inr d'" "wf_graph (d_graph d)"
  shows "wf_graph (d_graph d')"
proof -
  obtain os ss d1 where f: "find_splits (to_op_map (node_ins d)) (add_inputs d) = ((os, ss), d1)"
    by (metis prod.exhaust)
  have "wf_graph (d_graph (add_inputs d))"
    unfolding add_inputs_def
    by (rule fold_keeps [where P = "\<lambda>e. wf_graph (d_graph e)"]) (simp_all add: assms(2) add_op_wf add_in_def)
  then have "wf_graph (d_graph d1)" using find_splits_graph [of "to_op_map (node_ins d)" "add_inputs d"] f by simp
  then have w2: "wf_graph (d_graph (add_outputs os d1))"
    unfolding add_outputs_def
    by (intro fold_keeps [where P = "\<lambda>e. wf_graph (d_graph e)"]) (simp_all add: add_op_wf add_out_def)
  obtain d3 where d3: "add_splits ss (add_outputs os d1) = Inr d3" "connect_ops d3 = Inr d'"
    using assms(1) f by (auto simp: freeze_def Let_def)
  have "wf_graph (d_graph d3)" by (rule add_splits_wf [OF d3(1) w2])
  moreover obtain g h where "foldE add_in_arc (in_edges (node_ins d3) (node_outs d3)) (d_graph d3) = Inr g"
    "foldE add_out_arc (out_edges (node_ins d3) (node_outs d3)) g = Inr h" "d_graph d' = h"
    using d3(2) unfolding connect_ops_fold by (auto simp: on_graph_def)
  ultimately show ?thesis by (metis fold_add_wf)
qed

end
