(* ===== verification/Restore_Facts.thy ===== *)
theory Restore_Facts
  imports Freeze_Facts
begin

text \<open>
  \<open>Graph::restore_from_vgraph\<close> on the virtual graph that \<open>get_vgraph\<close> has just built. Its traversals are
  folds: the first two collect scales and layouts by the names of the edges, two build the arcs anew, one
  sets lanes and waits, one merges attributes, two put scales and layouts back, and one looks at \<open>Gather\<close>.
\<close>

section \<open>Scanning\<close>

text \<open>What the traversals need of a graph: they run over the operators that have an arc.\<close>

definition scannable :: "('n, 'v, 'w) graph \<Rightarrow> bool" where
  "scannable g \<longleftrightarrow> wf_graph g \<and> linked g \<and> acyclic (edges g) \<and> edges g \<noteq> {}"

lemma scannable_skel:
  assumes "skel h = skel g"
  shows "scannable h = scannable g"
  by (simp add: scannable_def skel_wf [OF assms])

lemma bfs_scannable:
  assumes "scannable (view s)" "keeps_skel view f"
  obtains vs where "distinct vs" "set vs = fst ` edges (view s) \<union> snd ` edges (view s)"
    "bfs (graph_size (view s)) view f s = bindE (run_exit f vs s) (\<lambda>(_, t). Inr t)"
proof -
  note w = assms(1) [unfolded scannable_def]
  obtain ins where ins: "get_graph_ins (view s) = Inr ins" "ins \<noteq> []"
    "(edges (view s))\<^sup>* `` set ins = fst ` edges (view s) \<union> snd ` edges (view s)"
    using inputs_exist [of "view s"] w by metis
  obtain vs where "distinct vs" "set vs = (edges (view s))\<^sup>* `` set ins"
    "bfs (graph_size (view s)) view f s = bindE (run_exit f vs s) (\<lambda>(_, t). Inr t)"
    using bfs_spec [OF assms(2), of s ins "graph_size (view s)"] w ins(1,2) by blast
  then show ?thesis using that ins(3) by metis
qed

lemma bfs_edge_scannable:
  assumes "scannable (view s)" "keeps_skel view (no_status f)"
  obtains js where "distinct js" "set js = fst ` set (arcs (view s))"
    "bfs_edge_void (graph_size (view s)) view f s = foldE f js s"
proof -
  note w = assms(1) [unfolded scannable_def]
  obtain ins where ins: "get_graph_ins (view s) = Inr ins" "ins \<noteq> []"
    "(edges (view s))\<^sup>* `` set ins = fst ` edges (view s) \<union> snd ` edges (view s)"
    using inputs_exist [of "view s"] w by metis
  obtain js where js: "distinct js" "bfs_edge_void (graph_size (view s)) view f s = foldE f js s"
    "set js = {i. \<exists>a. (i, a) \<in> set (arcs (view s)) \<and> arc_bottom a \<in> (edges (view s))\<^sup>* `` set ins}"
    using bfs_edge_void_spec [OF assms(2), of s ins "graph_size (view s)"] w ins(1,2) by blast
  have "arc_bottom a \<in> fst ` edges (view s)" if "(i, a) \<in> set (arcs (view s))" for i a
    using that by (force simp: edges_def ends_def)
  then have "set js = fst ` set (arcs (view s))" unfolding js(3) ins(3) by force
  then show ?thesis using that js(1,2) by blast
qed

section \<open>Scales and layouts by the names of edges\<close>

lemma update_fold:
  assumes "inj_on k (set xs)" "x \<in> set xs"
  shows "map_of (fold (\<lambda>x. AList.update (k x) (f x)) xs m) (k x) = Some (f x)"
  using assms
proof (induction xs arbitrary: m rule: rev_induct)
  case Nil
  then show ?case by simp
next
  case (snoc y ys)
  show ?case
  proof (cases "k x = k y")
    case True
    have "x = y" by (rule inj_onD [OF snoc.prems(1) True]) (use snoc.prems(2) in auto)
    then show ?thesis by (simp add: update_conv')
  next
    case False
    then have "x \<in> set ys" "inj_on k (set ys)" using snoc.prems by (auto intro: inj_on_subset)
    then show ?thesis using snoc.IH False by (simp add: update_conv')
  qed
qed

definition apart :: "(string, 'v, 'w) graph \<Rightarrow> bool" where
  "apart g \<longleftrightarrow> inj_on arc_name (snd ` set (arcs g))"

lemma get_scale_map_spec:
  assumes "scannable (d_graph d)" "named_ops d" "apart (d_graph d)"
  obtains m where "get_scale_map d = Inr m"
    "\<And>i a. (i, a) \<in> set (arcs (d_graph d)) \<Longrightarrow> map_of m (arc_name a) = Some (ge_scale (weight a))"
proof -
  let ?g = "d_graph d"
  have w: "wf_graph ?g" "linked ?g" using assms(1) by (auto simp: scannable_def)
  define F :: "string \<Rightarrow> driver \<times> (string \<times> float_bits list) list \<Rightarrow> (driver \<times> (string \<times> float_bits list) list) outcome" where
    "F = (\<lambda>v (d, m). bindE (op_node d v) (\<lambda>n. bindE (get_in_arc_its (d_graph d) (gn_name n)) (\<lambda>its.
       bindE (foldE (\<lambda>i m. bindE (deref (d_graph d) i) (\<lambda>a. Inr (AList.update (arc_name a) (ge_scale (weight a)) m))) its m) (\<lambda>m'.
       Inr (d, m')))))"
  let ?u = "\<lambda>a. AList.update (arc_name a) (ge_scale (weight a))"
  have step: "F v (d, m) = Inr (d, fold ?u (in_copies id ?g v) m)" if v: "v \<in> set (vertex_names ?g)" for v m
  proof -
    have "foldE (\<lambda>i m. bindE (deref ?g i) (\<lambda>a. Inr (?u (id a) m))) (in_its ?g v) m = foldE (\<lambda>a m. Inr (?u a m)) (in_copies id ?g v) m"
      unfolding in_copies_def by (rule deref_fold) (rule deref_its(1) [OF w(1)])
    also have "\<dots> = Inr (fold ?u (in_copies id ?g v) m)" by (rule foldE_total) simp
    finally show ?thesis
      using v op_node_of [OF assms(2) v] by (simp add: F_def get_in_arc_its_def has_vertex_iff)
  qed
  have keep: "keeps_skel (d_graph \<circ> fst) (no_status F)"
    by (rule keeps_driver) (auto simp: no_status_def F_def)
  obtain vs where vs: "distinct vs" "set vs = fst ` edges ?g \<union> snd ` edges ?g"
    "bfs (graph_size ?g) (d_graph \<circ> fst) (no_status F) (d, []) = bindE (run_exit (no_status F) vs (d, [])) (\<lambda>(_, t). Inr t)"
    using bfs_scannable [OF _ keep, of "(d, [])"] assms(1) by auto
  have "set vs \<subseteq> set (vertex_names ?g)" using vs(2) edges_names [OF w(1)] by auto
  then have "foldE F vs (d, m) = Inr (d, fold ?u (concat (map (in_copies id ?g) vs)) m)" for m
    by (induction vs arbitrary: m) (simp_all add: step)
  then have r: "get_scale_map d = Inr (fold ?u (concat (map (in_copies id ?g) vs)) [])"
    using vs(3) unfolding get_scale_map_def each_op_def scan_ops_def F_def [symmetric]
    by (simp add: run_exit_no_status drop_flag)
  have all: "set (concat (map (in_copies id ?g) vs)) = snd ` set (arcs ?g)"
  proof -
    have sub: "set (concat (map (in_copies id ?g) vs)) \<subseteq> snd ` set (arcs ?g)"
      using copies_arcs [OF w(1), where h = id] by auto
    have "a \<in> set (concat (map (in_copies id ?g) vs))" if a: "(i, a) \<in> set (arcs ?g)" for i a
    proof -
      obtain u t where e: "ends a = (u, t)" by (cases "ends a")
      then have m: "(u, t) \<in> edges ?g" using a by (force simp: edges_def)
      then have "t \<in> set vs" unfolding vs(2) by force
      moreover have "ends ` set (concat (map (in_copies id ?g) vs)) = {(b, t). (b, t) \<in> edges ?g \<and> t \<in> set vs}"
        by (rule copies_ends(1) [OF w]) simp
      ultimately have "ends a \<in> ends ` set (concat (map (in_copies id ?g) vs))" unfolding e using m by blast
      then obtain b where b: "b \<in> set (concat (map (in_copies id ?g) vs))" "ends b = ends a" by force
      then obtain j where j: "(j, b) \<in> set (arcs ?g)" using sub by force
      have "a = b" using arc_unique [OF w(1) a j] b(2) by simp
      then show ?thesis using b(1) by simp
    qed
    then show ?thesis using sub by force
  qed
  show ?thesis
  proof (rule that [OF r])
    fix i a
    assume "(i, a) \<in> set (arcs ?g)"
    then have "a \<in> set (concat (map (in_copies id ?g) vs))" unfolding all by force
    then show "map_of (fold ?u (concat (map (in_copies id ?g) vs)) []) (arc_name a) = Some (ge_scale (weight a))"
      using update_fold [of arc_name "concat (map (in_copies id ?g) vs)" a] assms(3) all by (simp add: apart_def)
  qed
qed

lemma get_layout_map_spec:
  assumes "scannable (d_graph d)" "apart (d_graph d)"
  obtains m where "get_layout_map d = Inr m"
    "\<And>i a. (i, a) \<in> set (arcs (d_graph d)) \<Longrightarrow> map_of m (arc_name a) = Some (ge_layout (weight a))"
proof -
  let ?g = "d_graph d"
  have w: "wf_graph ?g" using assms(1) by (auto simp: scannable_def)
  define F :: "arc_id \<Rightarrow> driver \<times> (string \<times> layout_type) list \<Rightarrow> (driver \<times> (string \<times> layout_type) list) outcome" where
    "F = (\<lambda>i (d, m). bindE (deref (d_graph d) i) (\<lambda>a. Inr (d, AList.update (arc_name a) (ge_layout (weight a)) m)))"
  let ?u = "\<lambda>a. AList.update (arc_name a) (ge_layout (weight a))"
  have keep: "keeps_skel (d_graph \<circ> fst) (no_status F)"
    by (rule keeps_driver) (auto simp: no_status_def F_def)
  obtain js where js: "distinct js" "set js = fst ` set (arcs ?g)"
    "bfs_edge_void (graph_size ?g) (d_graph \<circ> fst) F (d, []) = foldE F js (d, [])"
    using bfs_edge_scannable [OF _ keep, of "(d, [])"] assms(1) by auto
  have live: "deref ?g j = Inr (the_arc ?g j)" if "j \<in> fst ` set (arcs ?g)" for j
    using that deref_mem [OF wf_graphD(2) [OF w]] deref_its(3) [OF w] by force
  have "set js \<subseteq> fst ` set (arcs ?g) \<Longrightarrow> foldE F js (d, m) = Inr (d, fold ?u (map (the_arc ?g) js) m)" for m
    by (induction js arbitrary: m) (simp_all add: F_def live)
  then have r: "get_layout_map d = Inr (fold ?u (map (the_arc ?g) js) [])"
    using js unfolding get_layout_map_def each_edge_def F_def [symmetric] by simp
  have all: "set (map (the_arc ?g) js) = snd ` set (arcs ?g)"
    using js(2) deref_its(3) [OF w] by force
  show ?thesis
  proof (rule that [OF r])
    fix i a
    assume "(i, a) \<in> set (arcs ?g)"
    then have "a \<in> set (map (the_arc ?g) js)" unfolding all by force
    then show "map_of (fold ?u (map (the_arc ?g) js) []) (arc_name a) = Some (ge_layout (weight a))"
      using update_fold [of arc_name "map (the_arc ?g) js" a] assms(2) all by (simp add: apart_def)
  qed
qed

section \<open>The arcs\<close>

lemma vgraph_of_facts:
  assumes "vgraph_of d G" "scannable (d_graph d)" "named_ops d"
  shows "scannable (vg G)" "\<And>v. v \<in> joined d \<Longrightarrow> vertex_at (vg G) v = Inr (vnode_of (op_of d v)) \<and> gn_name (op_of d v) = v"
    "\<And>v. v \<in> joined d \<Longrightarrow> has_vertex (vg G) v"
    "\<And>i a. (i, a) \<in> set (arcs (vg G)) \<Longrightarrow> weight a = io_default\<lparr>io_name := arc_name a\<rparr>"
    "edges (vg G) = edges (d_graph d)" "fusion_edge_map G = []"
proof -
  note v = assms(1) [unfolded vgraph_of_def]
  show e: "edges (vg G) = edges (d_graph d)" using v by blast
  show "scannable (vg G)" using v assms(2) by (simp add: scannable_def)
  show "weight a = io_default\<lparr>io_name := arc_name a\<rparr>" if "(i, a) \<in> set (arcs (vg G))" for i a using v that by blast
  show "fusion_edge_map G = []" using v by blast
  fix u
  assume u: "u \<in> joined d"
  have "distinct (map fst (vertices (vg G)))" using v wf_graphD(1) [of "vg G"] by (simp add: vertex_names_def)
  moreover have "(u, vnode_of (op_of d u)) \<in> set (vertices (vg G))" using v u by blast
  ultimately have m: "map_of (vertices (vg G)) u = Some (vnode_of (op_of d u))" by simp
  have "u \<in> set (vertex_names (d_graph d))"
    using u edges_names [of "d_graph d"] assms(2) by (auto simp: joined_def scannable_def)
  then show "vertex_at (vg G) u = Inr (vnode_of (op_of d u)) \<and> gn_name (op_of d u) = u"
    using m op_node_of(2) [OF assms(3)] by (simp add: vertex_at_def)
  show "has_vertex (vg G) u" using m by (simp add: has_vertex_def)
qed

lemma restored_edge_ends [simp]: "ends (restored_edge a) = ends a"
  by (simp add: restored_edge_def new_edge_def ends_def)

lemma vnode_simps [simp]: "node_name (vnode_of n) = gn_name n" "op_name (vnode_of n) = gn_op n"
  "merge_nodes (vnode_of n) = []" "merge_node_names (vnode_of n) = []" "idx_keep (vnode_of n) = []"
  "need_wait (vnode_of n) = False" "lane (vnode_of n) = 0"
  by (simp_all add: vnode_of_def)

lemma run_interpreter_io:
  assumes "wf_graph (vg G)" "\<And>v. v \<in> set vs \<Longrightarrow> \<exists>n. vertex_at (vg G) v = Inr n \<and> node_name n = v \<and> has_vertex (vg G) v"
  shows "run_exit (interpreter_io get_in_arc_its add_in_arc) vs (G, d) =
      bindE (on_graph (foldE add_in_arc (concat (map (in_copies restored_edge (vg G)) vs))) d) (\<lambda>d'. Inr (False, G, d'))"
    "run_exit (interpreter_io get_out_arc_its add_out_arc) vs (G, d) =
      bindE (on_graph (foldE add_out_arc (concat (map (out_copies restored_edge (vg G)) vs))) d) (\<lambda>d'. Inr (False, G, d'))"
proof -
  have i: "foldE (\<lambda>i d. bindE (deref (vg G) i) (\<lambda>a. on_graph (add_in_arc (restored_edge a)) d)) (in_its (vg G) v) d =
      on_graph (foldE add_in_arc (in_copies restored_edge (vg G) v)) d" for v and d :: driver
    unfolding in_copies_def on_graph_fold [symmetric] by (rule deref_fold) (rule deref_its(1) [OF assms(1)])
  have o: "foldE (\<lambda>i d. bindE (deref (vg G) i) (\<lambda>a. on_graph (add_out_arc (restored_edge a)) d)) (out_its (vg G) v) d =
      on_graph (foldE add_out_arc (out_copies restored_edge (vg G) v)) d" for v and d :: driver
    unfolding out_copies_def on_graph_fold [symmetric] by (rule deref_fold) (rule deref_its(2) [OF assms(1)])
  have c: "on_graph (foldE f (xs @ ys)) d = bindE (on_graph (foldE f xs) d) (on_graph (foldE f ys))" for f xs ys and d :: driver
    by (cases "foldE f xs (d_graph d)") (simp_all add: on_graph_def foldE_append)
  have n: "on_graph (foldE f []) d = Inr d" for f and d :: driver by (simp add: on_graph_def)
  show "run_exit (interpreter_io get_in_arc_its add_in_arc) vs (G, d) =
      bindE (on_graph (foldE add_in_arc (concat (map (in_copies restored_edge (vg G)) vs))) d) (\<lambda>d'. Inr (False, G, d'))"
    using assms(2)
  proof (induction vs arbitrary: d)
    case (Cons v vs)
    obtain n where v: "vertex_at (vg G) v = Inr n" "node_name n = v" "has_vertex (vg G) v" using Cons.prems [of v] by auto
    have "interpreter_io get_in_arc_its add_in_arc v (G, d) = bindE (on_graph (foldE add_in_arc (in_copies restored_edge (vg G) v)) d) (\<lambda>d'. Inr (OK, G, d'))"
      unfolding interpreter_io_def prod.case using v by (simp add: get_in_arc_its_def i)
    then show ?case using Cons.IH Cons.prems by (simp add: bindE_assoc c)
  qed (simp add: n)
  show "run_exit (interpreter_io get_out_arc_its add_out_arc) vs (G, d) =
      bindE (on_graph (foldE add_out_arc (concat (map (out_copies restored_edge (vg G)) vs))) d) (\<lambda>d'. Inr (False, G, d'))"
    using assms(2)
  proof (induction vs arbitrary: d)
    case (Cons v vs)
    obtain n where v: "vertex_at (vg G) v = Inr n" "node_name n = v" "has_vertex (vg G) v" using Cons.prems [of v] by auto
    have "interpreter_io get_out_arc_its add_out_arc v (G, d) = bindE (on_graph (foldE add_out_arc (out_copies restored_edge (vg G) v)) d) (\<lambda>d'. Inr (OK, G, d'))"
      unfolding interpreter_io_def prod.case using v by (simp add: get_out_arc_its_def o)
    then show ?case using Cons.IH Cons.prems by (simp add: bindE_assoc c)
  qed (simp add: n)
qed

lemma scan_vgraph_run:
  assumes "scannable (vg G)" "\<And>v H e r t. f v (H, e) = Inr (r, t) \<Longrightarrow> fst t = H"
  obtains vs where "distinct vs" "set vs = fst ` edges (vg G) \<union> snd ` edges (vg G)"
    "\<And>d. scan_vgraph f (G, d) = bindE (run_exit f vs (G, d)) (\<lambda>(_, t). Inr t)"
proof -
  have k: "keeps_skel (vg \<circ> fst) f" by (rule keeps_fst) (rule assms(2))
  note w = assms(1) [unfolded scannable_def]
  obtain ins where ins: "get_graph_ins (vg G) = Inr ins" "ins \<noteq> []"
    "(edges (vg G))\<^sup>* `` set ins = fst ` edges (vg G) \<union> snd ` edges (vg G)"
    using inputs_exist [of "vg G"] w by metis
  obtain q vs where q: "fold push_new ins ([], []) = (q, q)" "scan (graph_size (vg G)) (succs_of (vg G)) q q = Some vs"
    "distinct vs" "set vs = (edges (vg G))\<^sup>* `` set ins" "set vs \<subseteq> set (vertex_names (vg G))"
    using visit_order [of "vg G" ins "graph_size (vg G)"] w ins(1) by auto
  show ?thesis
  proof (rule that [OF q(3)])
    show "set vs = fst ` edges (vg G) \<union> snd ` edges (vg G)" using q(4) ins(3) by simp
    fix d
    show "scan_vgraph f (G, d) = bindE (run_exit f vs (G, d)) (\<lambda>(_, t). Inr t)"
      using bfs_loop_scan [OF k _ q(2,5), of "(G, d)"] w ins(1,2) q(1) by (simp add: scan_vgraph_def bfs_def)
  qed
qed

lemma restore_arcs:
  assumes "vgraph_of d G" "scannable (d_graph d)" "named_ops d" "vertices (d_graph e) = vertices (d_graph d)"
    "arcs (d_graph e) = []" "wf_graph (d_graph e)"
  obtains k where "bindE (scan_vgraph (interpreter_io get_in_arc_its add_in_arc) (G, e)) (\<lambda>(_, d1).
      scan_vgraph (interpreter_io get_out_arc_its add_out_arc) (G, d1)) = Inr (G, e\<lparr>d_graph := k\<rparr>)"
    "wf_graph k" "linked k" "edges k = edges (d_graph d)" "vertices k = vertices (d_graph d)"
    "\<forall>x \<in> set (arcs k). weight (snd x) = gedge_default\<lparr>ge_lane := Some 0\<rparr>"
proof -
  note f = vgraph_of_facts [OF assms(1-3)]
  have w: "wf_graph (vg G)" "linked (vg G)" using f(1) by (auto simp: scannable_def)
  have fsts: "fst t = H" if "interpreter_io its add v (H, x) = Inr (r, t)" for its add v H x r t
    using that by (auto simp: interpreter_io_def)
  obtain us where us: "set us = fst ` edges (vg G) \<union> snd ` edges (vg G)"
    "\<And>d. scan_vgraph (interpreter_io get_in_arc_its add_in_arc) (G, d) = bindE (run_exit (interpreter_io get_in_arc_its add_in_arc) us (G, d)) (\<lambda>(_, t). Inr t)"
    by (rule scan_vgraph_run [OF f(1), of "interpreter_io get_in_arc_its add_in_arc"]) (use fsts in auto)
  obtain vs where vs: "set vs = fst ` edges (vg G) \<union> snd ` edges (vg G)"
    "\<And>d. scan_vgraph (interpreter_io get_out_arc_its add_out_arc) (G, d) = bindE (run_exit (interpreter_io get_out_arc_its add_out_arc) vs (G, d)) (\<lambda>(_, t). Inr t)"
    by (rule scan_vgraph_run [OF f(1), of "interpreter_io get_out_arc_its add_out_arc"]) (use fsts in auto)
  have ok: "\<exists>n. vertex_at (vg G) v = Inr n \<and> node_name n = v \<and> has_vertex (vg G) v" if "v \<in> set us \<union> set vs" for v
    using that f(2,3) [of v] unfolding us(1) vs(1) f(5) joined_def by auto
  let ?as = "concat (map (in_copies restored_edge (vg G)) us)" and ?bs = "concat (map (out_copies restored_edge (vg G)) vs)"
  have ein: "ends ` set ?as = edges (d_graph d)"
    unfolding copies_ends(1) [OF w restored_edge_ends] us(1) f(5) [symmetric] by force
  have eout: "ends ` set ?bs = edges (d_graph d)"
    unfolding copies_ends(2) [OF w restored_edge_ends] vs(1) f(5) [symmetric] by force
  have names: "\<forall>(b, t) \<in> edges (d_graph d). b \<in> set (vertex_names (d_graph e)) \<and> t \<in> set (vertex_names (d_graph e))"
    using edges_names [of "d_graph d"] assms(2,4) by (auto simp: scannable_def vertex_names_def)
  have P: "\<forall>a \<in> set ?as. weight a = gedge_default\<lparr>ge_lane := Some 0\<rparr>"
  proof
    fix a
    assume "a \<in> set ?as"
    then obtain x where x: "x \<in> snd ` set (arcs (vg G))" "a = restored_edge x" using copies_arcs [OF w(1)] by blast
    have "weight x = io_default\<lparr>io_name := arc_name x\<rparr>" using x(1) f(4) by force
    then show "weight a = gedge_default\<lparr>ge_lane := Some 0\<rparr>"
      using x(2) by (simp add: restored_edge_def new_edge_def gedge_default_def io_default_def)
  qed
  obtain h k where hk: "foldE add_in_arc ?as (d_graph e) = Inr h" "foldE add_out_arc ?bs h = Inr k" "wf_graph k" "linked k"
    "edges k = edges (d_graph d)" "vertices k = vertices (d_graph e)" "\<forall>x \<in> set (arcs k). weight (snd x) = gedge_default\<lparr>ge_lane := Some 0\<rparr>"
    using link_two_phases [OF assms(6,5) ein eout names P] by blast
  have "scan_vgraph (interpreter_io get_in_arc_its add_in_arc) (G, e) = Inr (G, e\<lparr>d_graph := h\<rparr>)"
    unfolding us(2) using run_interpreter_io(1) [OF w(1), of us e] ok hk(1) by (simp add: on_graph_def)
  moreover have "scan_vgraph (interpreter_io get_out_arc_its add_out_arc) (G, e\<lparr>d_graph := h\<rparr>) = Inr (G, e\<lparr>d_graph := k\<rparr>)"
    unfolding vs(2) using run_interpreter_io(2) [OF w(1), of vs "e\<lparr>d_graph := h\<rparr>"] ok hk(2) by (simp add: on_graph_def)
  ultimately show ?thesis using that hk(3-7) assms(4) by simp
qed

section \<open>Traversals that change nothing\<close>

text \<open>A functor that could change the shape of the graph, but does nothing at the vertices it meets.\<close>

lemma bfs_loop_idle:
  assumes "wf_graph (view s)"
  shows "scan k (succs_of (view s)) q b = Some vs \<Longrightarrow> set vs \<subseteq> set (vertex_names (view s)) \<Longrightarrow>
    (\<And>v. v \<in> set vs \<Longrightarrow> f v s = Inr (OK, s)) \<Longrightarrow> bfs_loop k view f q b s = Inr s"
proof (induction k arbitrary: q b vs)
  case 0
  then show ?case by (cases q) auto
next
  case (Suc k)
  show ?case
  proof (cases q)
    case Nil
    then show ?thesis by simp
  next
    case (Cons v q0)
    obtain q' b' where qb: "fold push_new (succs_of (view s) v) (q0, b) = (q', b')"
      by (cases "fold push_new (succs_of (view s) v) (q0, b)")
    then obtain us where us: "scan k (succs_of (view s)) q' b' = Some us" "vs = v # us"
      using Suc.prems(1) Cons by auto
    have v: "v \<in> set (vertex_names (view s))" using Suc.prems(2) us by simp
    then obtain x where x: "vertex_at (view s) v = Inr x" using vertex_at_names by metis
    obtain as where as: "mapE (deref (view s)) (out_its (view s) v) = Inr as" "map arc_top as = succs_of (view s) v"
      using skel_deref_succs(2) [OF refl assms v] by blast
    have fold: "fold (\<lambda>a. push_new (arc_top a)) as (q0, b) = (q', b')"
      using qb fold_map [of push_new arc_top as] as(2) by (simp add: comp_def)
    have "bfs_loop k view f q' b' s = Inr s"
      by (rule Suc.IH [OF us(1)]) (use Suc.prems(2,3) us in auto)
    then show ?thesis
      using Suc.prems(3) [of v] us(2) x skel_deref_succs(1) [OF refl assms v] as(1) fold Cons by simp
  qed
qed

lemma scan_ops_idle:
  assumes "scannable (d_graph e)" "\<And>v. v \<in> joined e \<Longrightarrow> f v e = Inr (OK, e)"
  shows "scan_ops id f e = Inr e"
proof -
  note w = assms(1) [unfolded scannable_def]
  obtain ins where ins: "get_graph_ins (d_graph e) = Inr ins" "ins \<noteq> []"
    "(edges (d_graph e))\<^sup>* `` set ins = joined e"
    using inputs_exist [of "d_graph e"] w unfolding joined_def by metis
  obtain q vs where q: "fold push_new ins ([], []) = (q, q)" "scan (graph_size (d_graph e)) (succs_of (d_graph e)) q q = Some vs"
    "set vs = (edges (d_graph e))\<^sup>* `` set ins" "set vs \<subseteq> set (vertex_names (d_graph e))"
    using visit_order [of "d_graph e" ins "graph_size (d_graph e)"] w ins(1) by auto
  have "bfs_loop (graph_size (d_graph e)) (d_graph \<circ> id) f q q e = Inr e"
    by (rule bfs_loop_idle) (use w q(2-4) ins(3) assms(2) in auto)
  then show ?thesis using ins(1,2) q(1) by (simp add: scan_ops_def bfs_def)
qed

section \<open>Lanes and waits\<close>

definition wake :: "gnode \<Rightarrow> gnode" where
  "wake n = n\<lparr>gn_wait := False, gn_lane := Some 0\<rparr>"

definition wake_all :: "string set \<Rightarrow> (string, gnode, 'w) graph \<Rightarrow> (string, gnode, 'w) graph" where
  "wake_all S g = g\<lparr>vertices := map (\<lambda>(v, n). (v, if v \<in> S then wake n else n)) (vertices g)\<rparr>"

lemma wake_all_simps [simp]:
  "vertex_names (wake_all S g) = vertex_names g" "arcs (wake_all S g) = arcs g" "wake_all {} g = g"
  "skel (wake_all S g) = skel g" "map_of (vertices (wake_all S g)) v = map_option (\<lambda>n. if v \<in> S then wake n else n) (map_of (vertices g) v)"
proof -
  show n: "vertex_names (wake_all S g) = vertex_names g" by (auto simp: wake_all_def vertex_names_def)
  show "arcs (wake_all S g) = arcs g" by (simp add: wake_all_def)
  show "wake_all {} g = g" by (simp add: wake_all_def case_prod_unfold)
  show "skel (wake_all S g) = skel g" using n by (simp add: skel_def) (simp add: wake_all_def)
  have "map_of (map (\<lambda>(v, n). (v, if v \<in> S then wake n else n)) xs) v = map_option (\<lambda>n. if v \<in> S then wake n else n) (map_of xs v)" for xs
    by (induction xs) auto
  then show "map_of (vertices (wake_all S g)) v = map_option (\<lambda>n. if v \<in> S then wake n else n) (map_of (vertices g) v)"
    by (simp add: wake_all_def)
qed

lemma wake_wake [simp]: "wake (wake n) = wake n" "gn_name (wake n) = gn_name n" "gn_op (wake n) = gn_op n"
  by (simp_all add: wake_def)

lemma set_vertex_wake:
  assumes "distinct (vertex_names g)" "map_of (vertices g) v = Some n"
  shows "set_vertex v (wake n) (wake_all S g) = wake_all (insert v S) g"
proof -
  have "(if w = v then wake n else if w \<in> S then wake m else m) = (if w = v \<or> w \<in> S then wake m else m)"
    if "(w, m) \<in> set (vertices g)" for w m
  proof -
    have "map_of (vertices g) w = Some m" using assms(1) that by (simp add: vertex_names_def)
    then show ?thesis using assms(2) by auto
  qed
  then have "map ((\<lambda>(w, m). (w, if w = v then wake n else m)) \<circ> (\<lambda>(w, m). (w, if w \<in> S then wake m else m))) (vertices g) =
      map (\<lambda>(w, m). (w, if w \<in> insert v S then wake m else m)) (vertices g)"
    by (intro map_cong [OF refl]) auto
  then show ?thesis by (simp add: set_vertex_def wake_all_def)
qed

lemma run_exit_found:
  assumes "v \<in> set vs" "\<And>u. u \<in> set vs \<Longrightarrow> u \<noteq> v \<Longrightarrow> f u e = Inr (OK, e)" "f v e = Inr (EXIT, e')"
  shows "run_exit f vs e = Inr (True, e')"
  using assms(1,2)
proof (induction vs)
  case (Cons u us)
  then show ?case using assms(3) by (cases "u = v") auto
qed simp

lemma push_to_nil [simp]: "push_to k [] m = m"
  by (simp add: push_to_def)

lemma skel_set_vertex [simp]: "skel (set_vertex v x g) = skel g"
  by (auto simp: skel_def set_vertex_def vertex_names_def)

lemma scan_map_node:
  assumes "scannable (d_graph e)" "named_ops e" "v \<in> joined e" "op_node e v = Inr n" "node_name target = v"
    "merge_nodes target = []" "merge_node_names target = []" "idx_keep target = []"
    "need_wait target = False" "lane target = 0" "op_name target = gn_op n"
  shows "scan_ops id (map_node_to_node_ptr target) e = Inr (e\<lparr>d_graph := set_vertex v (wake n) (d_graph e)\<rparr>)"
proof -
  have w: "wf_graph (d_graph e)" using assms(1) by (simp add: scannable_def)
  have k: "keeps_skel (d_graph \<circ> id) (map_node_to_node_ptr target)"
    unfolding keeps_skel_def by (auto simp: map_node_to_node_ptr_def upd_op_def op_node_def split: if_splits)
  have s: "scannable ((d_graph \<circ> id) e)" using assms(1) by simp
  obtain vs where vs0: "distinct vs" "set vs = fst ` edges ((d_graph \<circ> id) e) \<union> snd ` edges ((d_graph \<circ> id) e)"
    "bfs (graph_size ((d_graph \<circ> id) e)) (d_graph \<circ> id) (map_node_to_node_ptr target) e =
      bindE (run_exit (map_node_to_node_ptr target) vs e) (\<lambda>(_, t). Inr t)"
    by (rule bfs_scannable [OF s k])
  have vs: "set vs = joined e"
    "scan_ops id (map_node_to_node_ptr target) e = bindE (run_exit (map_node_to_node_ptr target) vs e) (\<lambda>(_, t). Inr t)"
    using vs0(2,3) by (simp_all add: scan_ops_def joined_def)
  have names: "joined e \<subseteq> set (vertex_names (d_graph e))" using edges_names [OF w] by (auto simp: joined_def)
  have nv: "gn_name n = v" using op_node_of [OF assms(2)] names assms(3,4) by force
  have "run_exit (map_node_to_node_ptr target) vs e = Inr (True, e\<lparr>d_graph := set_vertex v (wake n) (d_graph e)\<rparr>)"
  proof (rule run_exit_found)
    show "v \<in> set vs" using vs(1) assms(3) by simp
    show "map_node_to_node_ptr target u e = Inr (OK, e)" if "u \<in> set vs" "u \<noteq> v" for u
      using op_node_of [OF assms(2), of u] names vs(1) that assms(5) by (auto simp: map_node_to_node_ptr_def)
    have eq: "n\<lparr>gn_wait := False, gn_lane := Some 0, gn_op := gn_op n\<rparr> = wake n" by (cases n) (simp add: wake_def)
    have u: "upd_op v (\<lambda>m. m\<lparr>gn_wait := False, gn_lane := Some 0, gn_op := gn_op n\<rparr>) e =
        Inr (e\<lparr>d_graph := set_vertex v (wake n) (d_graph e)\<rparr>)"
      by (simp only: upd_op_def assms(4) bindE_simps eq)
    show "map_node_to_node_ptr target v e = Inr (EXIT, e\<lparr>d_graph := set_vertex v (wake n) (d_graph e)\<rparr>)"
      using assms(4-11) nv by (simp add: map_node_to_node_ptr_def u)
  qed
  then show ?thesis using vs(2) by simp
qed

lemma restore_nodes:
  assumes "vgraph_of d G" "scannable (d_graph d)" "named_ops d" "scannable (d_graph e)" "edges (d_graph e) = edges (d_graph d)"
    "vertices (d_graph e) = vertices (d_graph d)"
  shows "scan_vgraph interpreter_node (G, e) = Inr (G, e\<lparr>d_graph := wake_all (joined d) (d_graph e)\<rparr>)"
proof -
  note f = vgraph_of_facts [OF assms(1-3)]
  have w: "wf_graph (d_graph e)" using assms(4) by (simp add: scannable_def)
  let ?e = "\<lambda>S. e\<lparr>d_graph := wake_all S (d_graph e)\<rparr>"
  have step: "interpreter_node v (G, ?e S) = Inr (OK, G, ?e (insert v S))" if v: "v \<in> joined d" for v S
  proof -
    have "v \<in> set (vertex_names (d_graph d))" using v edges_names [of "d_graph d"] assms(2) by (auto simp: joined_def scannable_def)
    then have m: "map_of (vertices (d_graph e)) v = Some (op_of d v)"
      using op_node_of(1) [OF assms(3), of v] unfolding assms(6)
      by (auto simp: op_node_def vertex_at_def split: option.splits)
    have sc: "scannable (d_graph (?e S))" using scannable_skel [of "wake_all S (d_graph e)" "d_graph e"] assms(4) by simp
    have nm: "named_ops (?e S)" using assms(3,6) by (auto simp: named_ops_def wake_all_def list_all_iff)
    have jn: "v \<in> joined (?e S)" using v assms(5) skel_wf(3) [of "wake_all S (d_graph e)" "d_graph e"] by (simp add: joined_def)
    define n where "n = (if v \<in> S then wake (op_of d v) else op_of d v)"
    have on: "op_node (?e S) v = Inr n" using m by (simp add: op_node_def vertex_at_def n_def)
    have "scan_ops id (map_node_to_node_ptr (vnode_of (op_of d v))) (?e S) =
        Inr ((?e S)\<lparr>d_graph := set_vertex v (wake n) (d_graph (?e S))\<rparr>)"
      by (rule scan_map_node [OF sc nm jn on]) (use f(2) [OF v] in \<open>auto simp: n_def\<close>)
    moreover have "set_vertex v (wake n) (wake_all S (d_graph e)) = wake_all (insert v S) (d_graph e)"
      using set_vertex_wake [OF wf_graphD(1) [OF w] m] by (simp add: n_def)
    ultimately show ?thesis using f(2) [OF v] by (simp add: interpreter_node_def)
  qed
  have run: "set vs \<subseteq> joined d \<Longrightarrow> run_exit interpreter_node vs (G, ?e S) = Inr (False, G, ?e (S \<union> set vs))" for vs S
    by (induction vs arbitrary: S) (simp_all add: step)
  obtain vs where vs: "set vs = fst ` edges (vg G) \<union> snd ` edges (vg G)"
    "\<And>d. scan_vgraph interpreter_node (G, d) = bindE (run_exit interpreter_node vs (G, d)) (\<lambda>(_, t). Inr t)"
    by (rule scan_vgraph_run [OF f(1), of interpreter_node]) (auto simp: interpreter_node_def)
  have "set vs = joined d" using vs(1) f(5) by (simp add: joined_def)
  then show ?thesis using run [of vs "{}"] vs(2) [of e] by simp
qed

section \<open>Merging nothing\<close>

lemma mapE_const: "(\<And>x. x \<in> set xs \<Longrightarrow> f x = Inr c) \<Longrightarrow> mapE f xs = Inr (map (\<lambda>_. c) xs)"
  by (induction xs) auto

lemma restore_merges_nothing:
  assumes "vgraph_of d G" "scannable (d_graph d)" "named_ops d" "scannable (d_graph e)" "edges (d_graph e) = edges (d_graph d)"
    "named_ops e" "\<And>k xs. map_of (node_merges e) k = Some xs \<Longrightarrow> xs = []"
  shows "scan_ops id (merge_node_attrs G) e = Inr e"
proof (rule scan_ops_idle [OF assms(4)])
  fix v
  assume v: "v \<in> joined e"
  then have vd: "v \<in> joined d" using assms(5) by (simp add: joined_def)
  note f = vgraph_of_facts [OF assms(1-3)]
  have w: "wf_graph (vg G)" using f(1) by (simp add: scannable_def)
  have names: "v \<in> set (vertex_names (d_graph e))"
    using v edges_names [of "d_graph e"] assms(4) by (auto simp: joined_def scannable_def)
  have nm: "(case map_of (node_merges e) v of None \<Rightarrow> [] | Some ms \<Rightarrow> ms) = []"
    using assms(7) by (auto split: option.splits)
  have one: "bindE (deref (vg G) i) (\<lambda>a. bindE (vertex_at (vg G) (arc_top a)) (\<lambda>n. Inr (int (length (merge_nodes n)) + 1))) = Inr 1"
    if i: "i \<in> set (out_its (vg G) v)" for i
  proof -
    obtain a where a: "(i, a) \<in> set (arcs (vg G))" using wf_graphD(8) [OF w i] by blast
    have "ends a \<in> edges (vg G)" using a by (force simp: edges_def)
    then have "snd (ends a) \<in> joined d" unfolding f(5) joined_def by blast
    then have "arc_top a \<in> joined d" by (simp add: ends_def)
    then show ?thesis using deref_mem [OF wf_graphD(2) [OF w] a] f(2) by simp
  qed
  have s: "sum_list (map (\<lambda>_. 1 :: int) xs) = int (length xs)" for xs :: "nat list" by (induction xs) auto
  have outs: "get_out_arc_its (vg G) v = Inr (out_its (vg G) v)" using f(3) [OF vd] by (simp add: get_out_arc_its_def)
  have m: "mapE (\<lambda>i. bindE (deref (vg G) i) (\<lambda>a. bindE (vertex_at (vg G) (arc_top a)) (\<lambda>n. Inr (int (length (merge_nodes n)) + 1))))
      (out_its (vg G) v) = Inr (map (\<lambda>_. 1) (out_its (vg G) v))"
    by (rule mapE_const) (rule one)
  have "slice_info_of G v v [] e = Inr e"
  proof (cases "length (out_its (vg G) v) > 1")
    case True
    then show ?thesis
      unfolding slice_info_of_def outs bindE_simps m using s [of "out_its (vg G) v"] by simp
  next
    case False
    then show ?thesis unfolding slice_info_of_def outs by simp
  qed
  then show "merge_node_attrs G v e = Inr (OK, e)"
    unfolding merge_node_attrs_def op_node_of [OF assms(6) names] bindE_simps Let_def nm by simp
qed

section \<open>Scales and layouts put back\<close>

lemma fold_map_arc:
  "distinct js \<Longrightarrow> fold (\<lambda>i. map_arc i H) js g = g\<lparr>arcs := map (\<lambda>(i, a). (i, if i \<in> set js then H a else a)) (arcs g)\<rparr>"
proof (induction js arbitrary: g)
  case Nil
  then show ?case by (simp add: case_prod_unfold)
next
  case (Cons j js)
  have "(\<lambda>(i, a). (i, if i \<in> set js then H a else a)) \<circ> (\<lambda>(i, a). (i, if i = j then H a else a)) =
      (\<lambda>(i, a). (i, if i \<in> set (j # js) then H a else a))"
    using Cons.prems by (auto simp: fun_eq_iff)
  then show ?case using Cons by (simp add: map_arc_def)
qed

lemma arc_name_ends: "ends a = ends b \<Longrightarrow> arc_name a = arc_name b"
  by (simp add: arc_name_def ends_def)

definition reweigh :: "(string \<Rightarrow> gedge \<Rightarrow> gedge) \<Rightarrow> (string, gedge) arc \<Rightarrow> (string, gedge) arc" where
  "reweigh f a = a\<lparr>weight := f (arc_name a) (weight a)\<rparr>"

lemma reweigh_simps [simp]: "ends (reweigh f a) = ends a" "arc_name (reweigh f a) = arc_name a"
    "weight (reweigh f a) = f (arc_name a) (weight a)"
  by (simp_all add: reweigh_def ends_def arc_name_def)

lemma skel_map_arc:
  assumes "\<And>a. ends (H a) = ends a"
  shows "skel (map_arc i H g) = skel g"
  using assms by (auto simp: skel_def map_arc_def vertex_names_def)

lemma recover_step:
  assumes "wf_graph (d_graph e)" "(i, a) \<in> set (arcs (d_graph e))" "fusion_edge_map G = []"
    "map_of m (arc_name a) = Some x"
  shows "recover_edge G m f i e = Inr (e\<lparr>d_graph := map_arc i (reweigh (\<lambda>k. f (the (map_of m k)))) (d_graph e)\<rparr>)"
proof -
  have "map_arc i (\<lambda>b. b\<lparr>weight := f x (weight b)\<rparr>) (d_graph e) = map_arc i (reweigh (\<lambda>k. f (the (map_of m k)))) (d_graph e)"
  proof -
    have "(if j = i then b\<lparr>weight := f x (weight b)\<rparr> else b) = (if j = i then reweigh (\<lambda>k. f (the (map_of m k))) b else b)"
      if "(j, b) \<in> set (arcs (d_graph e))" for j b
      using that id_unique [OF assms(1), of i b a] assms(2,4) by (auto simp: reweigh_def)
    then have "map (\<lambda>(j, b). (j, if j = i then b\<lparr>weight := f x (weight b)\<rparr> else b)) (arcs (d_graph e)) =
        map (\<lambda>(j, b). (j, if j = i then reweigh (\<lambda>k. f (the (map_of m k))) b else b)) (arcs (d_graph e))"
      by (intro map_cong [OF refl]) auto
    then show ?thesis by (simp add: map_arc_def)
  qed
  then show ?thesis
    using deref_mem [OF wf_graphD(2) [OF assms(1)] assms(2)] assms(3,4)
    by (simp add: recover_edge_def upd_edge_def get_fusion_old_edge_def Let_def)
qed

lemma recover_all:
  assumes "scannable (d_graph e)" "fusion_edge_map G = []"
    "\<And>i a. (i, a) \<in> set (arcs (d_graph e)) \<Longrightarrow> map_of m (arc_name a) \<noteq> None"
  shows "each_edge id (recover_edge G m f) e =
    Inr (e\<lparr>d_graph := (d_graph e)\<lparr>arcs := map (\<lambda>(i, a). (i, reweigh (\<lambda>k. f (the (map_of m k))) a)) (arcs (d_graph e))\<rparr>\<rparr>)"
proof -
  let ?H = "reweigh (\<lambda>k. f (the (map_of m k)))"
  have kp: "keeps_skel (d_graph \<circ> id) (no_status (recover_edge G m f))"
    unfolding keeps_skel_def
    by (auto simp: no_status_def recover_edge_def upd_edge_def Let_def intro!: skel_map_arc split: option.splits) (simp_all add: ends_def)
  have s: "scannable ((d_graph \<circ> id) e)" using assms(1) by simp
  obtain js where js0: "distinct js" "set js = fst ` set (arcs ((d_graph \<circ> id) e))"
    "bfs_edge_void (graph_size ((d_graph \<circ> id) e)) (d_graph \<circ> id) (recover_edge G m f) e = foldE (recover_edge G m f) js e"
    by (rule bfs_edge_scannable [OF s kp])
  have run: "foldE (recover_edge G m f) ks e' = Inr (e'\<lparr>d_graph := fold (\<lambda>i. map_arc i ?H) ks (d_graph e')\<rparr>)"
    if "set ks \<subseteq> fst ` set (arcs (d_graph e))" "skel (d_graph e') = skel (d_graph e)" for ks e'
    using that
  proof (induction ks arbitrary: e')
    case Nil
    then show ?case by simp
  next
    case (Cons i ks)
    obtain a where a: "(i, a) \<in> set (arcs (d_graph e))" using Cons.prems(1) by auto
    obtain b where b: "(i, b) \<in> set (arcs (d_graph e'))" "ends b = ends a" using skel_arcs(3) [OF Cons.prems(2) a] by blast
    obtain x where x: "map_of m (arc_name b) = Some x" using assms(3) [OF a] arc_name_ends [OF b(2)] by auto
    have w: "wf_graph (d_graph e')" using skel_wf(1) [OF Cons.prems(2)] assms(1) by (simp add: scannable_def)
    have sk: "skel (map_arc i ?H (d_graph e')) = skel (d_graph e)" by (simp add: skel_map_arc Cons.prems(2))
    show ?case
      using recover_step [OF w b(1) assms(2) x, of f] Cons.IH [of "e'\<lparr>d_graph := map_arc i ?H (d_graph e')\<rparr>"] Cons.prems(1) sk
      by simp
  qed
  have arcs: "map (\<lambda>(i, a). (i, if i \<in> set js then ?H a else a)) (arcs (d_graph e)) = map (\<lambda>(i, a). (i, ?H a)) (arcs (d_graph e))"
    using js0(2) by (auto intro!: map_cong simp: rev_image_eqI)
  have "set js \<subseteq> fst ` set (arcs (d_graph e))" using js0(2) by simp
  from run [OF this refl] js0(3) fold_map_arc [OF js0(1), of ?H "d_graph e"] arcs
  show ?thesis by (simp add: each_edge_def)
qed

section \<open>The whole restoration\<close>

lemma reweigh_graph_skel: "skel (g\<lparr>arcs := map (\<lambda>(i, a). (i, reweigh f a)) (arcs g)\<rparr>) = skel g"
  by (auto simp: skel_def vertex_names_def)

lemma restore_from_new_vgraph:
  assumes "vgraph_of d G" "scannable (d_graph d)" "named_ops d" "apart (d_graph d)"
    "\<And>v. v \<in> joined d \<Longrightarrow> gn_op (op_of d v) \<noteq> ''Gather''"
  obtains d' where "restore_from_vgraph G d = Inr d'" "scannable (d_graph d')" "edges (d_graph d') = edges (d_graph d)"
    "vertices (d_graph d') = map (\<lambda>(v, n). (v, if v \<in> joined d then wake n else n)) (vertices (d_graph d))"
    "\<And>i a j b. (i, a) \<in> set (arcs (d_graph d')) \<Longrightarrow> (j, b) \<in> set (arcs (d_graph d)) \<Longrightarrow> ends a = ends b \<Longrightarrow>
      weight a = gedge_default\<lparr>ge_lane := Some 0, ge_scale := ge_scale (weight b), ge_layout := ge_layout (weight b)\<rparr>"
proof -
  note f = vgraph_of_facts [OF assms(1-3)]
  obtain sm where sm: "get_scale_map d = Inr sm"
    "\<And>i a. (i, a) \<in> set (arcs (d_graph d)) \<Longrightarrow> map_of sm (arc_name a) = Some (ge_scale (weight a))"
    by (rule get_scale_map_spec [OF assms(2-4)]) blast
  obtain lm where lm: "get_layout_map d = Inr lm"
    "\<And>i a. (i, a) \<in> set (arcs (d_graph d)) \<Longrightarrow> map_of lm (arc_name a) = Some (ge_layout (weight a))"
    by (rule get_layout_map_spec [OF assms(2,4)]) blast
  let ?e0 = "d\<lparr>d_graph := arcs_clear (d_graph d)\<rparr>"
  have w0: "wf_graph (d_graph ?e0)"
    using assms(2) by (auto simp: scannable_def wf_graph_def arcs_clear_def vertex_names_def)
  obtain k where k: "bindE (scan_vgraph (interpreter_io get_in_arc_its add_in_arc) (G, ?e0)) (\<lambda>(_, d1).
      scan_vgraph (interpreter_io get_out_arc_its add_out_arc) (G, d1)) = Inr (G, ?e0\<lparr>d_graph := k\<rparr>)"
    "wf_graph k" "linked k" "edges k = edges (d_graph d)" "vertices k = vertices (d_graph d)"
    "\<forall>x \<in> set (arcs k). weight (snd x) = gedge_default\<lparr>ge_lane := Some 0\<rparr>"
    by (rule restore_arcs [OF assms(1-3) _ _ w0]) (simp_all add: arcs_clear_def)
  obtain H d1 where d1: "scan_vgraph (interpreter_io get_in_arc_its add_in_arc) (G, ?e0) = Inr (H, d1)"
    "scan_vgraph (interpreter_io get_out_arc_its add_out_arc) (G, d1) = Inr (G, ?e0\<lparr>d_graph := k\<rparr>)"
    using bindE_Inr_iff [THEN iffD1, OF k(1)] by auto
  let ?d2 = "?e0\<lparr>d_graph := k\<rparr>"
  define e2 where "e2 = ?d2\<lparr>node_merges := map (\<lambda>(k, _). (k, [])) (node_merges ?d2),
              pattern_name_merges := map (\<lambda>(k, _). (k, [])) (pattern_name_merges ?d2),
              node_merges_keep := map (\<lambda>(k, _). (k, [])) (node_merges_keep ?d2)\<rparr>"
  have sk: "scannable k" using k(2-4) assms(2) by (simp add: scannable_def)
  have n: "scan_vgraph interpreter_node (G, e2) = Inr (G, e2\<lparr>d_graph := wake_all (joined d) k\<rparr>)"
    using restore_nodes [OF assms(1-3), of e2] sk k(4,5) by (simp add: e2_def)
  define e3 where "e3 = e2\<lparr>d_graph := wake_all (joined d) k\<rparr>"
  have sk3: "skel (d_graph e3) = skel k" by (simp add: e3_def)
  have e3: "scannable (d_graph e3)" "edges (d_graph e3) = edges (d_graph d)" "named_ops e3"
    using scannable_skel [OF sk3] sk skel_wf(3) [OF sk3] k(4,5) assms(3)
    by (auto simp: e3_def named_ops_def wake_all_def list_all_iff)
  have nm: "xs = []" if "map_of (node_merges e3) v = Some xs" for v xs
    using map_of_SomeD [OF that] by (auto simp: e3_def e2_def)
  have m: "scan_ops id (merge_node_attrs G) e3 = Inr e3"
    by (rule restore_merges_nothing [OF assms(1-3) e3]) (rule nm)
  have orig: "\<exists>j b. (j, b) \<in> set (arcs (d_graph d)) \<and> ends b = ends a" if "(i, a) \<in> set (arcs g)" "edges g = edges (d_graph d)"
    for i a and g :: "(string, gnode, gedge) graph"
  proof -
    have "ends a \<in> edges (d_graph d)" using that by (force simp: edges_def)
    then show ?thesis by (force simp: edges_def)
  qed
  let ?S = "reweigh (\<lambda>k e. e\<lparr>ge_scale := the (map_of sm k)\<rparr>)" and ?L = "reweigh (\<lambda>k e. e\<lparr>ge_layout := the (map_of lm k)\<rparr>)"
  define e4 where "e4 = e3\<lparr>d_graph := (d_graph e3)\<lparr>arcs := map (\<lambda>(i, a). (i, ?S a)) (arcs (d_graph e3))\<rparr>\<rparr>"
  have r1: "each_edge id (recover_edge G sm (\<lambda>s e. e\<lparr>ge_scale := s\<rparr>)) e3 = Inr e4"
    unfolding e4_def
  proof (rule recover_all [OF e3(1) f(6)])
    fix i a
    assume "(i, a) \<in> set (arcs (d_graph e3))"
    from orig [OF this e3(2)] obtain j b where b: "(j, b) \<in> set (arcs (d_graph d))" "ends b = ends a" by blast
    show "map_of sm (arc_name a) \<noteq> None" using sm(2) [OF b(1)] arc_name_ends [OF b(2)] by simp
  qed
  have sk4: "skel (d_graph e4) = skel (d_graph e3)" by (simp add: e4_def reweigh_graph_skel)
  have e4: "scannable (d_graph e4)" "edges (d_graph e4) = edges (d_graph d)"
    using scannable_skel [OF sk4] e3(1,2) skel_wf(3) [OF sk4] by simp_all
  define e5 where "e5 = e4\<lparr>d_graph := (d_graph e4)\<lparr>arcs := map (\<lambda>(i, a). (i, ?L a)) (arcs (d_graph e4))\<rparr>\<rparr>"
  have r2: "each_edge id (recover_edge G lm (\<lambda>s e. e\<lparr>ge_layout := s\<rparr>)) e4 = Inr e5"
    unfolding e5_def
  proof (rule recover_all [OF e4(1) f(6)])
    fix i a
    assume "(i, a) \<in> set (arcs (d_graph e4))"
    from orig [OF this e4(2)] obtain j b where b: "(j, b) \<in> set (arcs (d_graph d))" "ends b = ends a" by blast
    show "map_of lm (arc_name a) \<noteq> None" using lm(2) [OF b(1)] arc_name_ends [OF b(2)] by simp
  qed
  have sk5: "skel (d_graph e5) = skel (d_graph e4)" by (simp add: e5_def reweigh_graph_skel)
  have e5: "scannable (d_graph e5)" "edges (d_graph e5) = edges (d_graph d)"
    using scannable_skel [OF sk5] e4 skel_wf(3) [OF sk5] by simp_all
  have vt: "vertices (d_graph e5) = map (\<lambda>(v, n). (v, if v \<in> joined d then wake n else n)) (vertices (d_graph d))"
    by (simp add: e5_def e4_def e3_def wake_all_def k(5))
  have gather: "conv_eltwise_deal_scale v e5 = Inr (OK, e5)" if v: "v \<in> joined e5" for v
  proof -
    have vd: "v \<in> joined d" using v e5(2) by (simp add: joined_def)
    have "v \<in> set (vertex_names (d_graph d))" using vd edges_names [of "d_graph d"] assms(2) by (auto simp: joined_def scannable_def)
    then have "map_of (vertices (d_graph d)) v = Some (op_of d v)"
      using op_node_of(1) [OF assms(3), of v] by (auto simp: op_node_def vertex_at_def split: option.splits)
    then have "map_of (vertices (d_graph e5)) v = Some (wake (op_of d v))"
      using vd wake_all_simps(5) [of "joined d" "d_graph d" v] by (simp add: vt wake_all_def)
    then have "op_node e5 v = Inr (wake (op_of d v))" by (simp add: op_node_def vertex_at_def)
    then show ?thesis using assms(5) [OF vd] by (simp add: conv_eltwise_deal_scale_def)
  qed
  have c: "scan_ops id conv_eltwise_deal_scale e5 = Inr e5" by (rule scan_ops_idle [OF e5(1)]) (rule gather)
  have all: "restore_from_vgraph G d = Inr e5"
    by (simp only: restore_from_vgraph_def sm(1) lm(1) d1 bindE_simps prod.case e2_def [symmetric] n e3_def [symmetric] m r1 r2 c)
  show ?thesis
  proof (rule that [OF all e5 vt])
    fix i a j b
    assume a: "(i, a) \<in> set (arcs (d_graph e5))" and b: "(j, b) \<in> set (arcs (d_graph d))" and e: "ends a = ends b"
    obtain c where c: "(i, c) \<in> set (arcs k)" "a = ?L (?S c)" using a by (auto simp: e5_def e4_def e3_def)
    have "arc_name c = arc_name b" using e c(2) by (intro arc_name_ends) simp
    then show "weight a = gedge_default\<lparr>ge_lane := Some 0, ge_scale := ge_scale (weight b), ge_layout := ge_layout (weight b)\<rparr>"
      using c k(6) sm(2) [OF b] lm(2) [OF b] by force
  qed
qed

end
