(* ===== verification/Freeze_Bounds.thy ===== *)
theory Freeze_Bounds
  imports Freeze_Facts
begin

text \<open>
  \<open>Freeze\<close> returns, and what it makes of the inputs of the operators: it renames variables, so that an
  operator never gets more in-arcs than it reads different variables.
\<close>

section \<open>The invariant of the steps\<close>

definition keys_of :: "driver \<Rightarrow> string set" where
  "keys_of d = set (map fst (node_ins d)) \<union> set (map fst (node_outs d))"

definition building :: "driver \<Rightarrow> bool" where
  "building d \<longleftrightarrow> wf_graph (d_graph d) \<and> arcs (d_graph d) = [] \<and> distinct (map fst (node_ins d)) \<and>
     keys_of d \<subseteq> set (vertex_names (d_graph d))"

text \<open>\<open>e\<close> has the operators of \<open>d\<close>, with their inputs renamed.\<close>

definition renames :: "driver \<Rightarrow> driver \<Rightarrow> bool" where
  "renames d e \<longleftrightarrow> building e \<and> set (vertex_names (d_graph d)) \<subseteq> set (vertex_names (d_graph e)) \<and>
     (\<forall>op \<in> set (vertex_names (d_graph d)). \<exists>f. ops_of op (node_ins e) = map f (ops_of op (node_ins d)))"

lemma renames_refl: "building d \<Longrightarrow> renames d d"
  by (auto simp: renames_def intro: exI [of _ id])

lemma update_keys_set: "fst ` set (AList.update k x m) = insert k (fst ` set m)"
  by (induction m) auto

lemma add_op_renames:
  assumes "renames d e" "\<not> has_vertex (d_graph e) v"
  shows "renames d (add_op v op xs ys e)"
proof -
  let ?e = "add_op v op xs ys e"
  note b = assms(1) [unfolded renames_def building_def]
  have w: "wf_graph (d_graph e)" using b by blast
  have n: "set (vertex_names (d_graph ?e)) = insert v (set (vertex_names (d_graph e)))"
    by (simp add: add_op_def add_vertex_wf(4) [OF w])
  have k: "keys_of ?e = insert v (keys_of e)"
    by (simp add: keys_of_def add_op_def update_keys_set)
  have "building ?e"
    unfolding building_def k n using b
    by (auto simp: add_op_wf distinct_update) (auto simp: add_op_def add_vertex_def distinct_update)
  moreover have "ops_of o' (node_ins ?e) = ops_of o' (node_ins e)" if "o' \<in> set (vertex_names (d_graph d))" for o'
    using that assms(2) b by (auto simp: add_op_def ops_of_update has_vertex_iff)
  ultimately show ?thesis using b n unfolding renames_def by auto
qed

lemma same_tables_renames:
  assumes "renames d e" "d_graph e' = d_graph e" "node_ins e' = node_ins e" "node_outs e' = node_outs e"
  shows "renames d e'"
  using assms by (simp add: renames_def building_def keys_of_def)

lemma upd_op_renames:
  assumes "renames d e" "upd_op v f e = Inr e'"
  shows "renames d e'"
proof -
  obtain n where e': "e' = e\<lparr>d_graph := set_vertex v (f n) (d_graph e)\<rparr>" using assms(2) by (auto simp: upd_op_def)
  have "vertex_names (set_vertex v x g) = vertex_names g" "arcs (set_vertex v x g) = arcs g" for x and g :: "(string, gnode, gedge) graph"
    by (auto simp: set_vertex_def vertex_names_def comp_def case_prod_unfold)
  then show ?thesis using assms(1) by (simp add: renames_def building_def keys_of_def e' set_vertex_wf)
qed

lemma replace_ins_renames:
  assumes "renames d e" "set ops \<subseteq> set (vertex_names (d_graph d))"
  shows "renames d (replace_ins x ys ops e)"
proof -
  have "renames d (fold (\<lambda>(y, op) d. d\<lparr>node_ins := AList.update op (map (\<lambda>v. if v = x then y else v) (ops_of op (node_ins d))) (node_ins d)\<rparr>) ps e)"
    if "snd ` set ps \<subseteq> set (vertex_names (d_graph d))" "renames d e" for ps e
    using that
  proof (induction ps arbitrary: e)
    case (Cons p ps)
    obtain y op where p: "p = (y, op)" by (cases p)
    let ?e = "e\<lparr>node_ins := AList.update op (map (\<lambda>v. if v = x then y else v) (ops_of op (node_ins e))) (node_ins e)\<rparr>"
    note b = Cons.prems(2) [unfolded renames_def building_def]
    have "op \<in> set (vertex_names (d_graph e))" using b Cons.prems(1) by (auto simp: p)
    moreover have "keys_of ?e = insert op (keys_of e)" by (simp add: keys_of_def update_keys_set)
    ultimately have "building ?e" using b by (auto simp: building_def distinct_update)
    moreover have "\<exists>f. ops_of o' (node_ins ?e) = map f (ops_of o' (node_ins d))" if o': "o' \<in> set (vertex_names (d_graph d))" for o'
    proof -
      obtain f where f: "ops_of o' (node_ins e) = map f (ops_of o' (node_ins d))" using b o' by blast
      show ?thesis
      proof (cases "o' = op")
        case True
        then have "ops_of o' (node_ins ?e) = map ((\<lambda>v. if v = x then y else v) \<circ> f) (ops_of o' (node_ins d))"
          using f by (simp add: ops_of_update)
        then show ?thesis by blast
      next
        case False
        then show ?thesis using f by (auto simp: ops_of_update)
      qed
    qed
    ultimately have "renames d ?e" using b by (simp add: renames_def)
    then show ?case using Cons.IH [of ?e] Cons.prems(1) by (simp add: p)
  qed simp
  moreover have "snd ` set (zip ys ops) \<subseteq> set ops" by (auto dest: set_zip_rightD)
  ultimately show ?thesis unfolding replace_ins_def using assms by blast
qed

section \<open>The steps of Freeze\<close>

lemma add_inputs_renames: "renames d e \<Longrightarrow> renames d (add_inputs e)"
proof -
  have "renames d (fold (\<lambda>x e. if has_vertex (d_graph e) x then e else add_op x ''Input'' [] [x] (add_in x e)) xs e)"
    if "renames d e" for xs e
    using that
  proof (rule fold_keeps)
    fix x e
    assume "renames d e"
    moreover from this have "renames d (add_in x e)" by (rule same_tables_renames) (simp_all add: add_in_def)
    ultimately show "renames d (if has_vertex (d_graph e) x then e else add_op x ''Input'' [] [x] (add_in x e))"
      using add_op_renames [of d "add_in x e" x] by (simp add: add_in_def)
  qed
  then show "renames d e \<Longrightarrow> renames d (add_inputs e)" unfolding add_inputs_def .
qed

lemma add_outputs_renames: "renames d e \<Longrightarrow> renames d (add_outputs os e)"
  unfolding add_outputs_def
proof (rule fold_keeps)
  fix x e
  assume "renames d e"
  moreover from this have "renames d (add_out x e)" by (rule same_tables_renames) (simp_all add: add_out_def)
  ultimately show "renames d (if has_vertex (d_graph e) x then e else add_op x ''Output'' [x] [] (add_out x e))"
    using add_op_renames [of d "add_out x e" x] by (simp add: add_out_def)
qed

lemma find_splits_renames:
  assumes "renames d e" "building d"
  shows "renames d (snd (find_splits (to_op_map (node_ins d)) e))"
  unfolding find_splits_def
proof (rule fold_keeps [where P = "\<lambda>r. renames d (snd r)"], goal_cases)
  case (2 p r)
  have "set (ops_of x (to_op_map (node_ins d))) \<subseteq> set (vertex_names (d_graph d))" for x
    using assms(2) unfolding to_op_map_spec building_def keys_of_def by (force simp: reads_def)
  then show ?case
    unfolding prod.case_eq_if
    by (intro fold_keeps [where P = "\<lambda>r. renames d (snd r)"]) (use 2 in \<open>auto simp: Let_def intro: replace_ins_renames\<close>)
qed (simp add: assms(1))

lemma add_splits_renames:
  assumes "renames d e"
  shows "\<exists>e'. add_splits ss e = Inr e' \<and> renames d e'"
  using assms
proof (induction ss arbitrary: e)
  case Nil
  then show ?case by (simp add: add_splits_def)
next
  case (Cons p ss)
  obtain v x ys where p: "p = (v, x, ys)" by (cases p)
  show ?case
  proof (cases "has_vertex (d_graph e) v")
    case True
    then show ?thesis using Cons by (simp add: add_splits_def p)
  next
    case False
    let ?e = "add_op v ''Split'' [x] ys e"
    have r: "renames d ?e" by (rule add_op_renames [OF Cons.prems False])
    have h: "has_vertex (d_graph ?e) v" using False by (auto simp: add_op_def add_vertex_def has_vertex_def)
    then obtain e1 where e1: "upd_op v (set_attr ''split_num'' (A_int (int (length ys)))) ?e = Inr e1"
      by (auto simp: upd_op_def op_node_def vertex_at_def has_vertex_def)
    have "renames d e1" by (rule upd_op_renames [OF r e1])
    then show ?thesis using Cons.IH [of e1] False h e1 by (simp add: add_splits_def p add_op_attr_def)
  qed
qed

section \<open>The arcs\<close>

lemma fold_add_total:
  assumes "wf_graph g" "\<forall>a \<in> set as. arc_bottom a \<in> set (vertex_names g) \<and> arc_top a \<in> set (vertex_names g)"
  shows "\<exists>h. foldE add_out_arc as g = Inr h \<and> wf_graph h \<and> in_its h = in_its g"
  using assms
proof (induction as arbitrary: g)
  case (Cons a as)
  obtain h where h: "add_out_arc a g = Inr h" using add_arc_total(2) [OF Cons.prems(1), of a] Cons.prems(2) by auto
  have n: "vertex_names h = vertex_names g" using add_out_arc_wf(3) [OF Cons.prems(1) h] by (simp add: vertex_names_def)
  have "\<exists>k. foldE add_out_arc as h = Inr k \<and> wf_graph k \<and> in_its k = in_its h"
    by (rule Cons.IH [OF add_out_arc_wf(1) [OF Cons.prems(1) h]]) (use Cons.prems(2) n in auto)
  then show ?case using h add_out_arc_wf(4) [OF Cons.prems(1) h] by auto
qed simp

lemma new_edge_ends [simp]: "arc_bottom (new_edge b t) = b" "arc_top (new_edge b t) = t"
  by (simp_all add: new_edge_def)

lemma first_reader: "is_key x (to_op_map m) \<Longrightarrow> hd (ops_of x (to_op_map m)) \<in> fst ` set m"
proof -
  assume k: "is_key x (to_op_map m)"
  have "ops_of x (to_op_map m) \<noteq> []" using k unfolding to_op_map_spec(2) using to_op_map_spec(1) [of x m] by auto
  then have "reads m (hd (ops_of x (to_op_map m))) x" using to_op_map_spec(1) [of x m] hd_in_set by blast
  then show ?thesis unfolding reads_def by force
qed

lemma in_edges_end:
  assumes "(b, t) \<in> ends ` set (in_edges ins outs)"
  obtains xs y where "(t, xs) \<in> set ins" "y \<in> set xs" "b = hd (ops_of y (to_op_map outs))" "is_key y (to_op_map outs)"
proof -
  obtain a where a: "a \<in> set (in_edges ins outs)" "ends a = (b, t)" using assms by (metis imageE)
  then obtain op xs y where "(op, xs) \<in> set ins" "y \<in> set xs" "is_key y (to_op_map outs)" "a = new_edge (hd (ops_of y (to_op_map outs))) op"
    by (auto simp: in_edges_def split: if_splits)
  then show ?thesis using that a(2) by (simp add: ends_def)
qed

lemma out_edges_end:
  assumes "(b, t) \<in> ends ` set (out_edges ins outs)"
  obtains xs y where "(b, xs) \<in> set outs" "y \<in> set xs" "t = hd (ops_of y (to_op_map ins))" "is_key y (to_op_map ins)"
proof -
  obtain a where a: "a \<in> set (out_edges ins outs)" "ends a = (b, t)" using assms by (metis imageE)
  then obtain op xs y where "(op, xs) \<in> set outs" "y \<in> set xs" "is_key y (to_op_map ins)" "a = new_edge op (hd (ops_of y (to_op_map ins)))"
    by (auto simp: out_edges_def split: if_splits)
  then show ?thesis using that a(2) by (simp add: ends_def)
qed

lemma in_arcs_bound:
  assumes "wf_graph h" "edges h \<subseteq> ends ` set (in_edges ins outs)" "distinct (map fst ins)"
  shows "length (in_its h op) \<le> card (set (ops_of op ins))"
proof -
  let ?b = "\<lambda>i. arc_bottom (the (map_of (arcs h) i))"
  note d = wf_graphD [OF assms(1)]
  have a: "map_of (arcs h) i = Some a" if "(i, a) \<in> set (arcs h)" for i a using d(2) that by simp
  have "inj_on ?b (set (in_its h op))"
  proof (rule inj_onI)
    fix i j
    assume i: "i \<in> set (in_its h op)" and j: "j \<in> set (in_its h op)" and e: "?b i = ?b j"
    obtain x where x: "(i, x) \<in> set (arcs h)" "arc_top x = op" using d(10) [OF i] by blast
    obtain y where y: "(j, y) \<in> set (arcs h)" "arc_top y = op" using d(10) [OF j] by blast
    have "ends x = ends y" using e x(2) y(2) unfolding a [OF x(1)] a [OF y(1)] by (simp add: ends_def)
    then show "i = j" using arc_unique [OF assms(1) x(1) y(1)] by blast
  qed
  then have len: "length (in_its h op) = card (?b ` set (in_its h op))"
    using d(9) [of op] by (simp add: card_image distinct_card)
  have "?b ` set (in_its h op) \<subseteq> (\<lambda>x. hd (ops_of x (to_op_map outs))) ` set (ops_of op ins)"
  proof
    fix b
    assume "b \<in> ?b ` set (in_its h op)"
    then obtain i where i: "i \<in> set (in_its h op)" "b = ?b i" by blast
    obtain x where x: "(i, x) \<in> set (arcs h)" "arc_top x = op" using d(10) [OF i(1)] by blast
    then have "(b, op) \<in> edges h" using i(2) a [OF x(1)] by (force simp: edges_def ends_def)
    then have "(b, op) \<in> ends ` set (in_edges ins outs)" using assms(2) by (rule rev_subsetD)
    then obtain xs y where y: "(op, xs) \<in> set ins" "y \<in> set xs" "b = hd (ops_of y (to_op_map outs))"
      by (rule in_edges_end)
    then show "b \<in> (\<lambda>x. hd (ops_of x (to_op_map outs))) ` set (ops_of op ins)"
      using assms(3) by (simp add: ops_of_def)
  qed
  then have "card (?b ` set (in_its h op)) \<le> card ((\<lambda>x. hd (ops_of x (to_op_map outs))) ` set (ops_of op ins))"
    by (rule card_mono [rotated]) simp
  also have "\<dots> \<le> card (set (ops_of op ins))" by (rule card_image_le) simp
  finally show ?thesis unfolding len .
qed

lemma connect_ops_bound:
  assumes "building d"
  shows "\<exists>d'. connect_ops d = Inr d' \<and> wf_graph (d_graph d') \<and>
    (\<forall>op. length (in_its (d_graph d') op) \<le> card (set (ops_of op (node_ins d))))"
proof -
  note b = assms [unfolded building_def]
  let ?N = "set (vertex_names (d_graph d))"
  have ks: "fst ` set (node_ins d) \<subseteq> ?N" "fst ` set (node_outs d) \<subseteq> ?N" using b by (auto simp: keys_of_def)
  have I: "\<forall>a \<in> set (in_edges (node_ins d) (node_outs d)). arc_bottom a \<in> ?N \<and> arc_top a \<in> ?N \<and> True"
  proof
    fix a
    assume "a \<in> set (in_edges (node_ins d) (node_outs d))"
    then have "(arc_bottom a, arc_top a) \<in> ends ` set (in_edges (node_ins d) (node_outs d))" by (force simp: ends_def)
    then obtain xs y where y: "(arc_top a, xs) \<in> set (node_ins d)" "arc_bottom a = hd (ops_of y (to_op_map (node_outs d)))"
      "is_key y (to_op_map (node_outs d))" by (rule in_edges_end)
    have "arc_top a \<in> fst ` set (node_ins d)" using imageI [OF y(1), of fst] by simp
    then show "arc_bottom a \<in> ?N \<and> arc_top a \<in> ?N \<and> True" using ks first_reader [OF y(3)] unfolding y(2) by blast
  qed
  have O: "\<forall>a \<in> set (out_edges (node_ins d) (node_outs d)). arc_bottom a \<in> ?N \<and> arc_top a \<in> ?N"
  proof
    fix a
    assume "a \<in> set (out_edges (node_ins d) (node_outs d))"
    then have "(arc_bottom a, arc_top a) \<in> ends ` set (out_edges (node_ins d) (node_outs d))" by (force simp: ends_def)
    then obtain xs y where y: "(arc_bottom a, xs) \<in> set (node_outs d)" "arc_top a = hd (ops_of y (to_op_map (node_ins d)))"
      "is_key y (to_op_map (node_ins d))" by (rule out_edges_end)
    have "arc_bottom a \<in> fst ` set (node_outs d)" using imageI [OF y(1), of fst] by simp
    then show "arc_bottom a \<in> ?N \<and> arc_top a \<in> ?N" using ks first_reader [OF y(3)] unfolding y(2) by blast
  qed
  have l: "in_linked (d_graph d)" using b by (simp add: in_linked_def)
  obtain h where h: "foldE add_in_arc (in_edges (node_ins d) (node_outs d)) (d_graph d) = Inr h" "wf_graph h"
    "edges h = ends ` set (in_edges (node_ins d) (node_outs d)) \<union> edges (d_graph d)" "vertices h = vertices (d_graph d)"
    using fold_add_in [OF _ l I] b by auto
  have "vertex_names h = vertex_names (d_graph d)" using h(4) by (simp add: vertex_names_def)
  then obtain k where k: "foldE add_out_arc (out_edges (node_ins d) (node_outs d)) h = Inr k" "wf_graph k" "in_its k = in_its h"
    using fold_add_total [OF h(2)] O by metis
  have "edges h \<subseteq> ends ` set (in_edges (node_ins d) (node_outs d))" using h(3) b by (simp add: edges_def)
  then have "length (in_its k op) \<le> card (set (ops_of op (node_ins d)))" for op
    using in_arcs_bound [OF h(2)] b k(3) by metis
  then show ?thesis using h(1) k by (simp add: connect_ops_fold on_graph_def)
qed

lemma freeze_bound:
  assumes "building d"
  shows "\<exists>d'. freeze d = Inr d' \<and> wf_graph (d_graph d') \<and>
    (\<forall>(op, xs) \<in> set (node_ins d). length (in_its (d_graph d') op) \<le> card (set xs))"
proof -
  obtain os ss d1 where f: "find_splits (to_op_map (node_ins d)) (add_inputs d) = ((os, ss), d1)" by (metis prod.exhaust)
  have "renames d (snd (find_splits (to_op_map (node_ins d)) (add_inputs d)))"
    by (rule find_splits_renames [OF add_inputs_renames [OF renames_refl [OF assms]] assms])
  then have "renames d (add_outputs os d1)" using add_outputs_renames f by simp
  then obtain d3 where d3: "add_splits ss (add_outputs os d1) = Inr d3" "renames d d3" using add_splits_renames by blast
  then have b3: "building d3" by (simp add: renames_def)
  obtain d' where d': "connect_ops d3 = Inr d'" "wf_graph (d_graph d')"
    "\<And>op. length (in_its (d_graph d') op) \<le> card (set (ops_of op (node_ins d3)))"
    using connect_ops_bound [OF b3] by blast
  have "length (in_its (d_graph d') op) \<le> card (set xs)" if "(op, xs) \<in> set (node_ins d)" for op xs
  proof -
    have x: "ops_of op (node_ins d) = xs" using that assms by (simp add: ops_of_def building_def)
    have "op \<in> set (vertex_names (d_graph d))" using that assms by (force simp: building_def keys_of_def)
    then obtain g where "ops_of op (node_ins d3) = map g xs" using d3(2) x by (auto simp: renames_def)
    then have "card (set (ops_of op (node_ins d3))) \<le> card (set xs)" by (simp add: card_image_le)
    then show ?thesis using d'(3) [of op] by linarith
  qed
  then show ?thesis using f d3(1) d'(1,2) by (auto simp: freeze_def Let_def)
qed

end
