(* ===== verification/Regist_Facts.thy ===== *)
theory Regist_Facts
  imports Freeze_Facts
begin

text \<open>What \<open>RegistVar\<close> registers.\<close>

lemma to_op_map_keys: "distinct (map fst (to_op_map m))"
proof -
  have n: "distinct (map fst (fold (\<lambda>x acc. AList.update x (ops_of x acc @ [op]) acc) xs acc))"
    if "distinct (map fst acc)" for op xs and acc :: "(string \<times> string list) list"
    using that by (rule fold_keeps) (simp add: distinct_update)
  show ?thesis unfolding to_op_map_def by (rule fold_keeps) (auto intro: n)
qed

lemma length_to_op_map: "length (to_op_map m) = card {y. \<exists>op. reads m op y}"
proof -
  have "set (map fst (to_op_map m)) = {y. is_key y (to_op_map m)}"
    by (auto simp: is_key_def map_of_eq_None_iff)
  then have "card {y. is_key y (to_op_map m)} = length (map fst (to_op_map m))"
    using distinct_card [OF to_op_map_keys, of m] by simp
  then show ?thesis by (simp add: to_op_map_spec)
qed

definition registered_once :: "string \<Rightarrow> string \<Rightarrow> string \<Rightarrow> driver \<Rightarrow> driver" where
  "registered_once var b t d = add_op var ''Output'' [var] [] (add_out var (d\<lparr>d_registed := d_registed d @ [(b, t)]\<rparr>))"

lemma registered_fields:
  "d_registed (registered_once x b t d) = d_registed d @ [(b, t)]" "d_outs (registered_once x b t d) = d_outs d @ [x]"
  by (simp_all add: registered_once_def add_op_def add_out_def)

lemma registered_fold:
  "d_registed (fold (registered_once x b) ts d) = d_registed d @ map (Pair b) ts"
  "d_outs (fold (registered_once x b) ts d) = d_outs d @ replicate (length ts) x"
  by (induction ts arbitrary: d) (simp_all add: registered_fields replicate_app_Cons_same)

lemma foldE_pure: "(\<And>x s. x \<in> set xs \<Longrightarrow> f x s = Inr (g x s)) \<Longrightarrow> foldE f xs s = Inr (fold g xs s)"
  by (induction xs arbitrary: s) auto

lemma regist_var_fold:
  assumes "is_key x (to_op_map (node_ins d))" "ops_of x (to_op_map (node_outs d)) = b # bs"
  shows "regist_var x d = Inr (fold (\<lambda>_. fold (registered_once x b) (ops_of x (to_op_map (node_ins d)))) (to_op_map (node_ins d)) d)"
proof -
  have f: "first_op x (to_op_map (node_outs d)) = Inr b" by (simp add: first_op_def at_def assms(2))
  show ?thesis
    unfolding regist_var_def Let_def f bindE_simps
    by (rule foldE_pure) (simp add: assms(1) foldE_pure [where g = "registered_once x b"] registered_once_def)
qed

lemma regist_var_counts:
  assumes "is_key x (to_op_map (node_ins d))" "ops_of x (to_op_map (node_outs d)) = b # bs"
  shows "\<exists>d'. regist_var x d = Inr d' \<and>
    d_registed d' = d_registed d @ concat (replicate (card {y. \<exists>op. reads (node_ins d) op y}) (map (Pair b) (ops_of x (to_op_map (node_ins d))))) \<and>
    d_outs d' = d_outs d @ replicate (card {y. \<exists>op. reads (node_ins d) op y} * length (ops_of x (to_op_map (node_ins d)))) x"
proof -
  let ?ts = "ops_of x (to_op_map (node_ins d))"
  have "d_registed (fold (\<lambda>_. fold (registered_once x b) ts) ms e) = d_registed e @ concat (replicate (length ms) (map (Pair b) ts))"
    "d_outs (fold (\<lambda>_. fold (registered_once x b) ts) ms e) = d_outs e @ replicate (length ms * length ts) x"
    for ts e and ms :: "(string \<times> string list) list"
    by (induction ms arbitrary: e) (simp_all add: registered_fold replicate_add)
  then show ?thesis using regist_var_fold [OF assms] unfolding length_to_op_map [symmetric] by auto
qed

end
