(* ===== verification/Graph_Strategy.thy ===== *)
theory Graph_Strategy
  imports Graph_Driver
begin

text \<open>
  The strategies that change the restored graph: \<open>graph_strategy\<close> of
  \<open>framework/graph/llvm/optimizer/optimize_strategy.h\<close>. \<open>apply_stride_up\<close> moves the stride of 1x1
  convolutions to the operators in front of them, \<open>apply_horizontal_combine\<close> merges convolutions that
  read the same tensor. The list of marked parameters is the iteration order of an \<open>unordered_map\<close>.
\<close>

section \<open>Groups of operators\<close>

definition like_conv_op_names :: "string list" where
  "like_conv_op_names = [''Convolution'', ''ConvBatchnormScale'', ''ConvBatchnorm'', ''ConvScale'', ''ConvBatchnormScaleRelu'', ''ConvRelu'']"

definition stride_op_names :: "string list" where
  "stride_op_names = [''Convolution'', ''ConvBatchnormScale'', ''ConvBatchnorm'', ''ConvScale'', ''ConvBatchnormScaleRelu'', ''ConvRelu'']"

definition can_change_stride_names :: "string list" where
  "can_change_stride_names = [''Convolution'', ''ConvBatchnormScale'', ''ConvBatchnorm'', ''ConvScale'', ''ConvBatchnormScaleRelu'', ''ConvRelu'']"

definition like_concat_op_names :: "string list" where
  "like_concat_op_names = [''Concat'', ''Eltwise'', ''Gather'', ''EltwiseRelu'', ''Split'']"

definition is_in :: "string \<Rightarrow> string list \<Rightarrow> bool" where
  "is_in x xs = (x \<in> set xs)"

text \<open>\<open>a && b\<close>.\<close>

definition andE :: "bool outcome \<Rightarrow> bool outcome \<Rightarrow> bool outcome" where
  "andE a b = bindE a (\<lambda>x. if x then b else Inr False)"

section \<open>Strides\<close>

definition get_conv_stride :: "driver \<Rightarrow> string \<Rightarrow> int outcome" where
  "get_conv_stride d v =
     bindE (op_node d v) (\<lambda>n. bindE (get_ints n ''strides'') (\<lambda>s.
     if length s < 2 then Inr (-1)
     else bindE (ptuple_at s 0) (\<lambda>x. bindE (ptuple_at s 1) (\<lambda>y. Inr (if x \<noteq> y then -1 else x)))))"

definition get_conv_kernel :: "driver \<Rightarrow> string \<Rightarrow> int outcome" where
  "get_conv_kernel d v =
     bindE (op_node d v) (\<lambda>n. bindE (get_ints n ''kernel_size'') (\<lambda>k.
     bindE (ptuple_at k 0) (\<lambda>x. bindE (ptuple_at k 1) (\<lambda>y. Inr (if x \<noteq> y then -1 else x)))))"

definition set_conv_stride :: "string \<Rightarrow> int \<Rightarrow> driver \<Rightarrow> driver outcome" where
  "set_conv_stride v s d = upd_op v (set_attr ''strides'' (A_ints [s, s])) d"

definition change_stride :: "string \<Rightarrow> int \<Rightarrow> driver \<Rightarrow> (bool \<times> driver) outcome" where
  "change_stride v s d =
     bindE (op_node d v) (\<lambda>n.
     if \<not> is_in (gn_op n) can_change_stride_names then Inr (False, d)
     else bindE (get_conv_stride d v) (\<lambda>old.
       if old = -1 then Inr (False, d)
       else bindE (set_conv_stride v (s * old) d) (\<lambda>d'. Inr (True, d'))))"

definition check_stride_conv :: "driver \<Rightarrow> string \<Rightarrow> int \<Rightarrow> bool outcome" where
  "check_stride_conv d v s =
     bindE (op_node d v) (\<lambda>n.
     if \<not> is_in (gn_op n) stride_op_names then Inr False
     else bindE (get_conv_kernel d v) (\<lambda>k.
       if k \<noteq> 1 then Inr False
       else if s \<noteq> -1 then bindE (get_conv_stride d v) (\<lambda>t. Inr (t = s))
       else Inr True))"

definition mark_1x1_sn :: "driver \<Rightarrow> string list outcome" where
  "mark_1x1_sn d =
     bindE (each_op fst (\<lambda>v (d, ns).
       bindE (op_node d v) (\<lambda>n.
       if \<not> is_in (gn_op n) like_conv_op_names then Inr (d, ns)
       else
         bindE (get_ints n ''kernel_size'') (\<lambda>k. bindE (get_ints n ''strides'') (\<lambda>s.
         bindE (andE (bindE (ptuple_at k 0) (\<lambda>x. Inr (x = 1))) (andE (bindE (ptuple_at k 1) (\<lambda>x. Inr (x = 1)))
               (andE (bindE (ptuple_at s 0) (\<lambda>x. Inr (x > 1))) (andE (bindE (ptuple_at s 1) (\<lambda>x. Inr (x > 1)))
               (bindE (ptuple_at s 0) (\<lambda>x. bindE (ptuple_at s 1) (\<lambda>y. Inr (x = y)))))))) (\<lambda>b.
         Inr (d, if b then ns @ [gn_name n] else ns)))))) (d, [])) (\<lambda>(_, ns). Inr ns)"

text \<open>The pooling operator that takes over the stride when the operator in front cannot.\<close>

definition insert_pool :: "string \<Rightarrow> string \<Rightarrow> int \<Rightarrow> driver \<Rightarrow> driver outcome" where
  "insert_pool first v s d =
     (let pool = first @ ''_pool'';
          d1 = d\<lparr>d_graph := add_vertex pool (gnode_default\<lparr>gn_name := pool, gn_op := ''Pooling''\<rparr>) (d_graph d)\<rparr>
      in bindE (on_graph (add_in_arc (new_edge first pool)) d1) (\<lambda>d2.
         bindE (on_graph (add_out_arc (new_edge first pool)) d2) (\<lambda>d3.
         bindE (on_graph (add_out_arc (new_edge pool v)) d3) (\<lambda>d4.
         bindE (on_graph (add_in_arc (new_edge pool v)) d4) (\<lambda>d5.
         bindE (on_graph (remove_byio first v) d5) (\<lambda>d6.
         foldE (\<lambda>(a, x) d. bindE (add_op_attr pool a x d) (\<lambda>(_, d'). Inr d'))
           [(''pool_size'', A_ints [1, 1]), (''strides'', A_ints [s, s]), (''padding'', A_ints [0, 0]), (''method'', A_string ''MAX''),
            (''cmp_out_shape_floor_as_conv'', A_bool True), (''global_pooling'', A_bool False)] d6))))))"

definition edge_first :: "driver \<Rightarrow> arc_id \<Rightarrow> string outcome" where
  "edge_first d i = bindE (deref (d_graph d) i) (\<lambda>a. Inr (arc_bottom a))"

definition edge_second :: "driver \<Rightarrow> arc_id \<Rightarrow> string outcome" where
  "edge_second d i = bindE (deref (d_graph d) i) (\<lambda>a. Inr (arc_top a))"

text \<open>The first part of \<open>_stride_up_like_concat\<close>: the common stride of the readers, if they have one.\<close>

fun all_stride :: "driver \<Rightarrow> int \<Rightarrow> arc_id list \<Rightarrow> bool outcome" where
  "all_stride d s [] = Inr True"
| "all_stride d s (i # is) =
     bindE (edge_second d i) (\<lambda>t. bindE (check_stride_conv d t s) (\<lambda>b. if \<not> b then Inr False else all_stride d s is))"

definition common_stride :: "string \<Rightarrow> driver \<Rightarrow> int option outcome" where
  "common_stride v d =
     bindE (get_out_arc_its (d_graph d) v) (\<lambda>outs.
     case outs of [] \<Rightarrow> Inr None
     | i # is \<Rightarrow>
         bindE (edge_second d i) (\<lambda>t.
         bindE (check_stride_conv d t (-1)) (\<lambda>b.
         if \<not> b then Inr None
         else bindE (get_conv_stride d t) (\<lambda>s.
           if s = -1 then Inr None
           else bindE (all_stride d s is) (\<lambda>c. Inr (if c then Some s else None))))))"

text \<open>The recursion follows the arcs backwards: the fuel bounds its depth.\<close>

fun stride_up :: "nat \<Rightarrow> string \<Rightarrow> driver \<Rightarrow> (bool \<times> driver) outcome"
  and stride_up_like_concat :: "nat \<Rightarrow> string \<Rightarrow> int \<Rightarrow> driver \<Rightarrow> (bool \<times> driver) outcome"
  and stride_up_ins :: "nat \<Rightarrow> string \<Rightarrow> int \<Rightarrow> arc_id list \<Rightarrow> driver \<Rightarrow> (bool \<times> driver) outcome" where
  "stride_up 0 v d = Inl OutOfFuel"
| "stride_up (Suc k) v d =
     bindE (op_node d v) (\<lambda>_.
     bindE (get_conv_stride d v) (\<lambda>s.
     bindE (get_conv_kernel d v) (\<lambda>kernel_size.
     if s \<le> 1 \<or> kernel_size \<noteq> 1 then Inr (False, d)
     else
       bindE (get_in_arc_its (d_graph d) v) (\<lambda>ins.
       if length ins > 1 then Inr (False, d)
       else
         bindE (at ins 0) (\<lambda>i.
         bindE (edge_first d i) (\<lambda>last_name.
         bindE (op_node d last_name) (\<lambda>n.
         if is_in (gn_op n) can_change_stride_names then
           bindE (change_stride last_name s d) (\<lambda>(b, d1).
           if \<not> b then Inr (False, d1)
           else bindE (set_conv_stride v 1 d1) (stride_up k last_name))
         else if is_in (gn_op n) like_concat_op_names then stride_up_like_concat k last_name (-1) d
         else Inr (False, d))))))))"
| "stride_up_like_concat 0 v s d = Inl OutOfFuel"
| "stride_up_like_concat (Suc k) v s d =
     bindE (if s \<noteq> -1 then Inr (Some (s, d))
            else
              bindE (common_stride v d) (\<lambda>c.
              case c of None \<Rightarrow> Inr None
              | Some t \<Rightarrow>
                  bindE (get_out_arc_its (d_graph d) v) (\<lambda>outs.
                  bindE (foldE (\<lambda>i d. bindE (edge_second d i) (\<lambda>w. set_conv_stride w 1 d)) outs d) (\<lambda>d1.
                  Inr (Some (t, d1)))))) (\<lambda>r.
     case r of None \<Rightarrow> Inr (False, d)
     | Some (t, d1) \<Rightarrow>
         bindE (get_in_arc_its (d_graph d1) v) (\<lambda>ins.
         bindE (if length ins = 1 then bindE (edge_first d1 (ins ! 0)) (\<lambda>w. bindE (op_node d1 w) (\<lambda>n.
                  Inr (if is_in (gn_op n) like_concat_op_names then Some w else None))) else Inr None) (\<lambda>up.
         case up of Some w \<Rightarrow> stride_up_like_concat k w t d1
         | None \<Rightarrow> stride_up_ins k v t ins d1)))"
| "stride_up_ins k v s [] d = Inr (True, d)"
| "stride_up_ins 0 v s (i # is) d = Inl OutOfFuel"
| "stride_up_ins (Suc k) v s (i # is) d =
     bindE (edge_first d i) (\<lambda>w.
     bindE (op_node d w) (\<lambda>_.
     bindE (change_stride w s d) (\<lambda>(b, d1).
     bindE (if b then bindE (stride_up k w d1) (\<lambda>(_, d2). Inr d2) else insert_pool w v s d1) (\<lambda>d2.
     stride_up_ins k v s is d2))))"

definition apply_stride_up :: "nat \<Rightarrow> driver \<Rightarrow> driver outcome" where
  "apply_stride_up k d =
     bindE (mark_1x1_sn d) (\<lambda>ns. foldE (\<lambda>v d. bindE (stride_up k v d) (\<lambda>(_, d'). Inr d')) ns d)"

section \<open>Merging convolutions that read the same tensor\<close>

definition mark_horizontal_like_conv :: "driver \<Rightarrow> string list outcome" where
  "mark_horizontal_like_conv d =
     bindE (each_op fst (\<lambda>v (d, ns).
       bindE (op_node d v) (\<lambda>n.
       if \<not> is_in (gn_op n) [''Split'', ''Gather''] then Inr (d, ns)
       else
         bindE (get_out_arc_its (d_graph d) (gn_name n)) (\<lambda>outs.
         bindE (mapE (\<lambda>i. bindE (edge_second d i) (\<lambda>t. bindE (op_node d t) (\<lambda>m. Inr (is_in (gn_op m) like_conv_op_names)))) outs) (\<lambda>bs.
         Inr (d, if length (filter id bs) > 1 then ns @ [gn_name n] else ns))))) (d, [])) (\<lambda>(_, ns). Inr ns)"

record conv_small_param =
  cs_padding :: "int list"
  cs_strides :: "int list"
  cs_kernel_size :: "int list"
  cs_dilation_rate :: "int list"
  cs_with_relu :: bool

definition conv_params :: "string \<Rightarrow> driver \<Rightarrow> (string \<times> conv_small_param) list outcome" where
  "conv_params v d =
     bindE (get_out_arc_its (d_graph d) v) (\<lambda>outs.
     foldE (\<lambda>i ps.
       bindE (edge_second d i) (\<lambda>t.
       bindE (op_node d t) (\<lambda>n.
       if \<not> is_in (gn_op n) like_conv_op_names then Inr ps
       else
         bindE (get_in_arc_its (d_graph d) t) (\<lambda>ins.
         if length ins > 1 then Inr ps
         else
           bindE (get_int n ''group'') (\<lambda>grp.
           bindE (get_ints n ''padding'') (\<lambda>pad.
           bindE (get_ints n ''strides'') (\<lambda>s.
           bindE (get_ints n ''dilation_rate'') (\<lambda>dil.
           bindE (get_ints n ''kernel_size'') (\<lambda>ks.
           Inr (if grp = 1 then AList.update t \<lparr>cs_padding = pad, cs_strides = s, cs_kernel_size = ks, cs_dilation_rate = dil,
                  cs_with_relu = inspect_attr n ''relu_0_alpha''\<rparr> ps else ps)))))))))) outs [])"

text \<open>\<open>param_count\<close>: the different parameters, and how many further operators have each.\<close>

fun count_param :: "conv_small_param \<Rightarrow> (conv_small_param \<times> nat) list \<Rightarrow> (conv_small_param \<times> nat) list" where
  "count_param p [] = [(p, 0)]"
| "count_param p ((q, c) # qs) = (if p = q then (q, c + 1) # qs else (q, c) # count_param p qs)"

definition mark_horizontal_single_node :: "string \<Rightarrow> driver \<Rightarrow> string list outcome" where
  "mark_horizontal_single_node v d =
     bindE (conv_params v d) (\<lambda>ps.
     let counts = fold (\<lambda>(_, p). count_param p) ps []
     in Inr (concat (map (\<lambda>(q, c). if c > 0 then map fst (filter (\<lambda>(_, p). p = q) ps) else []) counts)))"

text \<open>Moving the arcs of a merged operator, as in \<open>Parallel_Fusion\<close> but without tensors to rename.\<close>

definition move_edge_out :: "string \<Rightarrow> string \<Rightarrow> arc_id \<Rightarrow> string list \<times> driver \<Rightarrow> (string list \<times> driver) outcome" where
  "move_edge_out merged cur i s =
     (case s of (tops, d) \<Rightarrow>
      bindE (edge_second d i) (\<lambda>t.
      bindE (get_in_arc_its (d_graph d) t) (\<lambda>ins.
      bindE (find_index (\<lambda>j. bindE (edge_first d j) (\<lambda>b. Inr (b = merged))) ins 0) (\<lambda>has.
      if has \<noteq> None then Inr (note_name t tops, d)
      else
        bindE (find_index (\<lambda>j. bindE (edge_first d j) (\<lambda>b. Inr (b = cur))) ins 0) (\<lambda>idx.
        case idx of None \<Rightarrow> Inr (note_name t tops, d)
        | Some j \<Rightarrow> bindE (on_graph (update_in_arc (new_edge merged t) j) d) (\<lambda>d'. Inr (note_name t tops, d')))))))"

definition move_edge_in :: "string \<Rightarrow> string \<Rightarrow> arc_id \<Rightarrow> string list \<times> driver \<Rightarrow> (string list \<times> driver) outcome" where
  "move_edge_in merged cur i s =
     (case s of (bots, d) \<Rightarrow>
      bindE (edge_first d i) (\<lambda>b.
      bindE (get_out_arc_its (d_graph d) b) (\<lambda>outs.
      bindE (find_index (\<lambda>j. bindE (edge_second d j) (\<lambda>t. Inr (t = merged))) outs 0) (\<lambda>has.
      if has \<noteq> None then Inr (note_name b bots, d)
      else
        bindE (find_index (\<lambda>j. bindE (edge_second d j) (\<lambda>t. Inr (t = cur))) outs 0) (\<lambda>idx.
        case idx of None \<Rightarrow> Inr (note_name b bots, d)
        | Some j \<Rightarrow> bindE (on_graph (update_out_arc (new_edge b merged) j) d) (\<lambda>d'. Inr (note_name b bots, d')))))))"

definition move_edges :: "((string, gnode, gedge) graph \<Rightarrow> string \<Rightarrow> arc_id list outcome) \<Rightarrow>
    (string \<Rightarrow> string \<Rightarrow> arc_id \<Rightarrow> string list \<times> driver \<Rightarrow> (string list \<times> driver) outcome) \<Rightarrow>
    string \<Rightarrow> string list \<Rightarrow> driver \<Rightarrow> (string list \<times> driver) outcome" where
  "move_edges its_of move merged names d =
     foldE (\<lambda>cur (xs, d). if cur = merged then Inr (xs, d)
              else bindE (its_of (d_graph d) cur) (\<lambda>its. foldE (move merged cur) its (xs, d))) names ([], d)"

definition name_str :: "string list" where
  "name_str = [''0'', ''1'', ''2'', ''3'', ''4'', ''5'', ''6'', ''7'', ''8'', ''9'', ''10'', ''11'']"

text \<open>Whether an operator has more than one in-arc.\<close>

fun any_joined :: "driver \<Rightarrow> string list \<Rightarrow> bool outcome" where
  "any_joined d [] = Inr False"
| "any_joined d (v # vs) = bindE (get_in_arc_its (d_graph d) v) (\<lambda>ins. if length ins > 1 then Inr True else any_joined d vs)"

definition merge_nodes_horizontal :: "string list \<Rightarrow> string \<Rightarrow> driver \<Rightarrow> (bool \<times> driver) outcome" where
  "merge_nodes_horizontal marked v d =
     (if marked = [] then Inr (False, d)
      else
        bindE (any_joined d marked) (\<lambda>joined.
        if joined then Inr (False, d)
        else
          bindE (get_out_arc_its (d_graph d) v) (\<lambda>outs.
          bindE (mapE (edge_second d) outs) (\<lambda>tops.
          let names = filter (\<lambda>t. is_in t marked) tops
          in bindE (at names 0) (\<lambda>merged.
             bindE (op_node d merged) (\<lambda>_.
             bindE (move_edges get_out_arc_its move_edge_out merged names d) (\<lambda>(out_names, d1).
             bindE (move_edges get_in_arc_its move_edge_in merged names d1) (\<lambda>(in_names, d2).
             bindE (foldE (\<lambda>t. on_graph (add_out_arc (new_edge merged t))) out_names d2) (\<lambda>d3.
             bindE (foldE (\<lambda>b. on_graph (add_in_arc (new_edge b merged))) in_names d3) (\<lambda>d4.
             bindE (upd_op merged (\<lambda>n. n\<lparr>gn_op := ''ConvFusion''\<rparr>) d4) (\<lambda>d5.
             bindE (foldE (\<lambda>cur (j, d). if cur = merged then Inr (j, d)
                      else bindE (op_node d cur) (\<lambda>m. bindE (at name_str j) (\<lambda>x.
                             bindE (upd_op merged (merge_with_pattern m (''conv_'' @ x)) d) (\<lambda>d'. Inr (j + 1, d'))))) names (1, d5)) (\<lambda>(_, d6).
             bindE (upd_op merged (set_attr ''fusion_count'' (A_int (int (length names)))) d6) (\<lambda>d7.
             bindE (foldE (\<lambda>cur d. if cur = merged then Inr d else on_graph (remove_vertex cur) d) names d7) (\<lambda>d8.
             Inr (True, d8)))))))))))))))"

definition add_fusion_slice_info :: "string \<Rightarrow> driver \<Rightarrow> driver outcome" where
  "add_fusion_slice_info op d =
     each_op id (\<lambda>v d.
       bindE (op_node d v) (\<lambda>n.
       if gn_op n \<noteq> op then Inr d
       else
         bindE (get_out_arc_its (d_graph d) (gn_name n)) (\<lambda>outs.
         bindE (mapE (\<lambda>i. bindE (edge_second d i) (\<lambda>t. bindE (op_node d t) (\<lambda>m.
                  if \<not> inspect_attr m ''fusion_count'' then Inr 1 else get_int m ''fusion_count''))) outs) (\<lambda>info.
         upd_op v (set_attr ''slice_info'' (A_ints info)) d)))) d"

definition apply_horizontal_combine :: "driver \<Rightarrow> driver outcome" where
  "apply_horizontal_combine d =
     bindE (mark_horizontal_like_conv d) (\<lambda>marked.
     bindE (foldE (\<lambda>v d. bindE (mark_horizontal_single_node v d) (\<lambda>ns.
                  bindE (merge_nodes_horizontal ns v d) (\<lambda>(_, d'). Inr d'))) marked d) (\<lambda>d1.
     add_fusion_slice_info ''ConvFusion'' d1))"

end
