(* ===== verification/Graph_Optimize.thy ===== *)
theory Graph_Optimize
  imports Graph_Strategy Parall_Scheduler ConvEls_Fusion Memory_Scheduler
begin

text \<open>
  \<open>Optimize\<close> and \<open>fusion_optimize\<close> of \<open>framework/graph/graph.cpp\<close>: the patterns, the strategies and the
  schedulers put together. The order of the fusion patterns (\<open>srt\<close>), the target \<open>t\<close>, the precision \<open>pr\<close>,
  the registry \<open>r\<close> and the build flags are parameters; \<open>k\<close> bounds the walks over the wait queues and the
  recursion of \<open>apply_stride_up\<close>. The flag \<open>IS_OPTIMIZED\<close> is overwritten with \<open>false\<close> before it is tested, so
  the short path of the code is never taken and has no counterpart.
\<close>

definition the_vgraph :: "driver \<Rightarrow> vgraph outcome" where
  "the_vgraph d = (case d_vgraph d of None \<Rightarrow> Inl NullDeref | Some G \<Rightarrow> Inr G)"

text \<open>A scheduler on a graph; the graph it points to afterwards.\<close>

definition scheduled :: "('m sched_scheme \<Rightarrow> 'm sched_scheme outcome) \<Rightarrow> 'm sched_scheme \<Rightarrow> vgraph \<Rightarrow> ('m sched_scheme \<times> vgraph) outcome" where
  "scheduled run_it s G =
     bindE (reg_io_resource G s) (\<lambda>s1.
     bindE (run_it s1) (\<lambda>s2.
     bindE (the_graph s2) (\<lambda>G'. Inr (s2, G'))))"

definition with_dep_order :: "driver \<Rightarrow> driver outcome" where
  "with_dep_order d =
     bindE (the_vgraph d) (\<lambda>G.
     bindE (scheduled run new_sched G) (\<lambda>(s, G').
     Inr (d\<lparr>d_vgraph := Some G', d_exec_order := fst (get_exec_node_in_order s)\<rparr>)))"

definition with_convels_order :: "nat \<Rightarrow> driver \<Rightarrow> driver outcome" where
  "with_convels_order k d =
     bindE (the_vgraph d) (\<lambda>G.
     bindE (scheduled (convels_run k) new_convels G) (\<lambda>(s, G').
     Inr (d\<lparr>d_vgraph := Some G', d_exec_order := fst (convels_order s)\<rparr>)))"

definition on_vgraph :: "(vgraph \<Rightarrow> vgraph outcome) \<Rightarrow> driver \<Rightarrow> driver outcome" where
  "on_vgraph f d = bindE (the_vgraph d) (\<lambda>G. bindE (f G) (\<lambda>G'. Inr (d\<lparr>d_vgraph := Some G'\<rparr>)))"

definition restored :: "driver \<Rightarrow> driver outcome" where
  "restored d = bindE (the_vgraph d) (\<lambda>G. restore_from_vgraph G d)"

text \<open>\<open>BUILD_LITE\<close> and \<open>USE_ARM_PLACE\<close> switch the fusion of convolution and eltwise off.\<close>

record build_flags =
  build_lite :: bool
  use_arm_place :: bool

definition fuses_convels :: "build_flags \<Rightarrow> place \<Rightarrow> precision \<Rightarrow> bool" where
  "fuses_convels fl t pr =
     (if build_lite fl \<or> use_arm_place fl then False
      else if (t = NV \<or> t = X86) \<and> INT8 = pr then False else True)"

definition optimize :: "((string \<times> int) list \<Rightarrow> (string \<times> int) list) \<Rightarrow> place \<Rightarrow> precision \<Rightarrow> registry \<Rightarrow> build_flags \<Rightarrow> nat \<Rightarrow>
    bool \<Rightarrow> driver \<Rightarrow> driver outcome" where
  "optimize srt t pr r fl k with_fusion d =
     (if has_optimized d then Inr d
      else
        bindE (get_vgraph d) (\<lambda>d1.
        bindE (if with_fusion then on_vgraph (match_patterns srt t pr r) d1 else Inr d1) (\<lambda>d2.
        bindE (restored d2) (\<lambda>d3.
        bindE (if t = X86 \<or> t = ARM then Inr d3 else apply_horizontal_combine d3) (\<lambda>d4.
        bindE (apply_stride_up k d4) (\<lambda>d5.
        bindE (get_vgraph d5) (\<lambda>d6.
        bindE (with_dep_order d6) (\<lambda>d7.
        bindE (if with_fusion \<and> fuses_convels fl t pr then with_convels_order k d7 else Inr d7) (\<lambda>d8.
        bindE (on_vgraph (\<lambda>G. bindE (scheduled (parall_run k) new_parall G) (\<lambda>(_, G'). Inr G')) d8) (\<lambda>d9.
        bindE (on_vgraph (\<lambda>G. bindE (scheduled (mem_run k) new_mem G) (\<lambda>(_, G'). Inr G')) d9) (\<lambda>d10.
        bindE (restored d10) (\<lambda>d11.
        Inr (d11\<lparr>has_optimized := True\<rparr>)))))))))))))"

definition fusion_optimize :: "place \<Rightarrow> driver \<Rightarrow> driver outcome" where
  "fusion_optimize t d =
     bindE (check (t = MLU \<or> t = BM)) (\<lambda>_.
     if has_optimized d then Inr d
     else
       bindE (get_vgraph d) (\<lambda>d1.
       bindE (with_dep_order d1) (\<lambda>d2.
       Inr (d2\<lparr>has_optimized := True\<rparr>))))"

end
