(* ===== verification/Driver_Properties.thy ===== *)
theory Driver_Properties
  imports Restore_Facts Freeze_Bounds Regist_Facts Graph_Optimize Scheduler_Properties
begin

text \<open>The properties of the graph of operators and its driver.\<close>

section \<open>The virtual graph and the order of execution\<close>



text \<open>A net of three operators, two of which read the same variable, built as a user does.\<close>

definition demo_ops :: driver where
  "demo_ops = add_op ''p'' ''Pooling'' [''y''] [''w''] (add_op ''r'' ''Relu'' [''y''] [''z''] (add_op ''c'' ''Convolution'' [''x''] [''y''] empty_driver))"

definition demo_net :: driver where
  "demo_net = projr (freeze demo_ops)"

lemma demo_net_facts:
  "freeze demo_ops = Inr demo_net"
  "named_ops demo_net" "linked (d_graph demo_net)" "has_optimized demo_net = False"
  "map (ends \<circ> snd) (arcs (d_graph demo_net)) = [(''x'', ''c''), (''ysplit'', ''r''), (''ysplit'', ''p''), (''r'', ''z''), (''p'', ''w''), (''c'', ''ysplit'')]"
proof -
  have "isl (freeze demo_ops) = False" by code_simp
  then show "freeze demo_ops = Inr demo_net" by (simp add: demo_net_def)
  show "named_ops demo_net" by code_simp
  show "linked (d_graph demo_net)" by code_simp
  show "has_optimized demo_net = False" by code_simp
  show "map (ends \<circ> snd) (arcs (d_graph demo_net)) = [(''x'', ''c''), (''ysplit'', ''r''), (''ysplit'', ''p''), (''r'', ''z''), (''p'', ''w''), (''c'', ''ysplit'')]"
    by code_simp
qed

lemma demo_net_edges:
  "edges (d_graph demo_net) = {(''x'', ''c''), (''ysplit'', ''r''), (''ysplit'', ''p''), (''r'', ''z''), (''p'', ''w''), (''c'', ''ysplit'')}"
  using arg_cong [OF demo_net_facts(5), of set] by (simp add: edges_def)

lemma demo_net_acyclic: "acyclic (edges (d_graph demo_net))" "edges (d_graph demo_net) \<noteq> {}"
proof -
  show "acyclic (edges (d_graph demo_net))"
    by (rule acyclicI_order [where f = "\<lambda>v. if v = ''x'' then 4 :: nat else if v = ''c'' then 3 else if v = ''ysplit'' then 2
          else if v = ''r'' \<or> v = ''p'' then 1 else 0"]) (auto simp: demo_net_edges)
  show "edges (d_graph demo_net) \<noteq> {}" by (simp add: demo_net_edges)
qed


lemma demo_net_wf: "wf_graph (d_graph demo_net)"
  using freeze_wf [OF demo_net_facts(1)] by (simp add: demo_ops_def add_op_wf empty_driver_def)

section \<open>Properties\<close>

text \<open>C16: The virtual graph of a linked acyclic graph of operators is well formed, has the same arcs, with default
  tensors that carry the arc's name, and exactly the operators that have an arc, with their names and
  kinds, and its registered outputs are those of the graph, each once; the graph itself is unchanged.\<close>

theorem get_vgraph_copies:
  assumes "wf_graph (d_graph d)" "linked (d_graph d)" "named_ops d" "acyclic (edges (d_graph d))" "edges (d_graph d) \<noteq> {}"
  shows "\<exists>G. get_vgraph d = Inr (d\<lparr>d_vgraph := Some G\<rparr>) \<and> wf_graph (vg G) \<and> linked (vg G) \<and>
    edges (vg G) = edges (d_graph d) \<and>
    set (vertices (vg G)) = (\<lambda>v. (v, vnode_of (op_of d v))) ` (fst ` edges (d_graph d) \<union> snd ` edges (d_graph d)) \<and>
    (\<forall>(i, a) \<in> set (arcs (vg G)). weight a = io_default\<lparr>io_name := arc_name a\<rparr>) \<and>
    set (registed_outs G) = set (d_registed d) \<and> distinct (registed_outs G)"
  using get_vgraph_spec [OF assms] unfolding vgraph_of_def joined_def by blast

theorem get_vgraph_copies_witness:
  "\<exists>G. get_vgraph demo_net = Inr (demo_net\<lparr>d_vgraph := Some G\<rparr>) \<and> (''c'', ''ysplit'') \<in> edges (vg G)"
proof -
  obtain G where G: "get_vgraph demo_net = Inr (demo_net\<lparr>d_vgraph := Some G\<rparr>)" "edges (vg G) = edges (d_graph demo_net)"
    using get_vgraph_copies [OF demo_net_wf demo_net_facts(3,2) demo_net_acyclic] by blast
  have "(''c'', ''ysplit'') \<in> edges (vg G)" unfolding G(2) demo_net_edges by simp
  then show ?thesis using G(1) by blast
qed



text \<open>C18: When every variable has at most one producer and one reader, \<open>Freeze\<close> joins exactly the producers with
  the readers of their variables: its two loops, one over inputs and one over outputs, build the two ends
  of the same arcs, and the graph is well formed and linked.\<close>

theorem connect_ops_links:
  assumes "wf_graph (d_graph d)" "arcs (d_graph d) = []" "single (node_ins d)" "single (node_outs d)"
    "\<forall>(v, xs) \<in> set (node_ins d) \<union> set (node_outs d). v \<in> set (vertex_names (d_graph d))"
  shows "\<exists>d'. connect_ops d = Inr d' \<and> wf_graph (d_graph d') \<and> linked (d_graph d') \<and>
    edges (d_graph d') = {(b, t). \<exists>x. reads (node_outs d) b x \<and> reads (node_ins d) t x} \<and>
    vertices (d_graph d') = vertices (d_graph d)"
  using connect_ops_spec [OF assms] by (simp add: feeds_def)

definition demo_chain :: driver where
  "demo_chain = add_op ''z'' ''Output'' [''v''] [] (add_op ''r'' ''Relu'' [''x''] [''v''] (add_op ''x'' ''Input'' [] [''x''] empty_driver))"

lemma demo_chain_facts:
  "node_ins demo_chain = [(''x'', []), (''r'', [''x'']), (''z'', [''v''])]"
  "node_outs demo_chain = [(''x'', [''x'']), (''r'', [''v'']), (''z'', [])]"
  "arcs (d_graph demo_chain) = []" "vertex_names (d_graph demo_chain) = [''x'', ''r'', ''z'']"
  by code_simp+

theorem connect_ops_links_witness:
  "\<exists>d'. connect_ops demo_chain = Inr d' \<and> linked (d_graph d') \<and> (''r'', ''z'') \<in> edges (d_graph d')"
proof -
  have w: "wf_graph (d_graph demo_chain)" by (simp add: demo_chain_def add_op_wf empty_driver_def)
  have s: "single (node_ins demo_chain)" "single (node_outs demo_chain)"
    by (auto simp: single_def demo_chain_facts)
  have v: "\<forall>(v, xs) \<in> set (node_ins demo_chain) \<union> set (node_outs demo_chain). v \<in> set (vertex_names (d_graph demo_chain))"
    by (auto simp: demo_chain_facts)
  obtain d' where d': "connect_ops demo_chain = Inr d'" "linked (d_graph d')"
    "edges (d_graph d') = {(b, t). \<exists>x. reads (node_outs demo_chain) b x \<and> reads (node_ins demo_chain) t x}"
    using connect_ops_links [OF w demo_chain_facts(3) s v] by blast
  have "(''r'', ''z'') \<in> edges (d_graph d')"
    unfolding d'(3) demo_chain_facts by simp
  then show ?thesis using d'(1,2) by blast
qed

text \<open>C17: \<open>Freeze\<close> of a graph built by \<open>AddOp\<close> always returns a well-formed graph, in which an operator has at most
  as many in-arcs as it reads different variables: one that reads a variable twice, as an \<open>Eltwise\<close> that doubles
  its input, loses an input.\<close>

theorem freeze_arc_per_variable:
  assumes "wf_graph (d_graph d)" "arcs (d_graph d) = []" "distinct (map fst (node_ins d))"
    "fst ` set (node_ins d) \<union> fst ` set (node_outs d) \<subseteq> set (vertex_names (d_graph d))"
  shows "\<exists>d'. freeze d = Inr d' \<and> wf_graph (d_graph d') \<and>
    (\<forall>(op, xs) \<in> set (node_ins d). length (in_its (d_graph d') op) \<le> card (set xs))"
  by (rule freeze_bound) (use assms in \<open>simp add: building_def keys_of_def\<close>)

theorem freeze_arc_per_variable_witness:
  "\<exists>d'. freeze (add_op ''e'' ''Eltwise'' [''x'', ''x''] [''y''] empty_driver) = Inr d' \<and> length (in_its (d_graph d') ''e'') \<le> 1"
proof -
  let ?d = "add_op ''e'' ''Eltwise'' [''x'', ''x''] [''y''] empty_driver"
  have w: "wf_graph (d_graph ?d)" by (simp add: add_op_wf empty_driver_def)
  have t: "arcs (d_graph ?d) = []" "node_ins ?d = [(''e'', [''x'', ''x''])]" "node_outs ?d = [(''e'', [''y''])]"
    "vertex_names (d_graph ?d) = [''e'']" by code_simp+
  obtain d' where "freeze ?d = Inr d'" "\<forall>(op, xs) \<in> set (node_ins ?d). length (in_its (d_graph d') op) \<le> card (set xs)"
    using freeze_arc_per_variable [OF w t(1)] by (auto simp: t)
  then show ?thesis by (auto simp: t)
qed

text \<open>An operator that has the name of its unread output gets no \<open>Output\<close>: the name is taken.\<close>

lemma freeze_omits_output:
  "\<exists>d. freeze (add_op ''y'' ''Relu'' [''x''] [''y''] empty_driver) = Inr d \<and> d_ins d = [''x''] \<and> d_outs d = []"
proof -
  let ?d = "freeze (add_op ''y'' ''Relu'' [''x''] [''y''] empty_driver)"
  have "(case ?d of Inl _ \<Rightarrow> None | Inr d \<Rightarrow> Some (d_ins d, d_outs d)) = Some ([''x''], [])" by code_simp
  then show ?thesis by (cases ?d) auto
qed

text \<open>C20: \<open>RegistVar\<close> of a variable that some operator makes and others read registers the pair of the first producer
  and each reader once for every variable of the net that is read, and not once, and lists the variable as an
  output of the graph as often: the outer loop does not use the pair it iterates over.\<close>

theorem regist_var_multiplies:
  assumes "reads (node_ins d) t x" "ops_of x (to_op_map (node_outs d)) = b # bs"
  shows "\<exists>d'. regist_var x d = Inr d' \<and>
    d_registed d' = d_registed d @ concat (replicate (card {y. \<exists>op. reads (node_ins d) op y}) (map (Pair b) (ops_of x (to_op_map (node_ins d))))) \<and>
    d_outs d' = d_outs d @ replicate (card {y. \<exists>op. reads (node_ins d) op y} * length (ops_of x (to_op_map (node_ins d)))) x"
proof -
  have "is_key x (to_op_map (node_ins d))" using assms(1) by (auto simp: to_op_map_spec)
  then show ?thesis by (rule regist_var_counts) (rule assms(2))
qed

theorem regist_var_multiplies_witness:
  "\<exists>d'. regist_var ''y'' demo_ops = Inr d' \<and> d_outs d' = replicate 4 ''y'' \<and>
     d_registed d' = concat (replicate 2 [(''c'', ''r''), (''c'', ''p'')])"
proof -
  have t: "node_ins demo_ops = [(''c'', [''x'']), (''r'', [''y'']), (''p'', [''y''])]"
    "ops_of ''y'' (to_op_map (node_outs demo_ops)) = [''c'']" "ops_of ''y'' (to_op_map (node_ins demo_ops)) = [''r'', ''p'']"
    "d_outs demo_ops = []" "d_registed demo_ops = []"
    by code_simp+
  have "{y. \<exists>op. reads (node_ins demo_ops) op y} = {''x'', ''y''}" by (auto simp: t)
  then have c: "card {y. \<exists>op. reads (node_ins demo_ops) op y} = 2" by simp
  have "reads (node_ins demo_ops) ''r'' ''y''" by (simp add: t)
  from regist_var_multiplies [OF this t(2)] show ?thesis unfolding c t(3-5) by (simp add: conj_commute)
qed

section \<open>Strategies\<close>




section \<open>To the virtual graph and back\<close>



section \<open>Scales of fused convolutions\<close>

text \<open>The second input of a \<open>Gather\<close> has a scale and its output has none: the code reads the missing scale.\<close>

definition gather_net :: driver where
  "gather_net = projr (freeze (add_op ''g'' ''Gather'' [''u'', ''v''] [''w''] empty_driver))"

definition scaled_gather :: driver where
  "scaled_gather = fold (\<lambda>(i, a). if arc_bottom a = ''v'' then upd_edge i (\<lambda>e. e\<lparr>ge_scale := [float_one]\<rparr>) else id)
     (arcs (d_graph gather_net)) gather_net"

lemma deal_scale_reads_missing: "conv_eltwise_deal_scale ''g'' scaled_gather = Inl OutOfRange"
proof -
  have "(case conv_eltwise_deal_scale ''g'' scaled_gather of Inl e \<Rightarrow> e = OutOfRange | Inr _ \<Rightarrow> False)" by code_simp
  then show ?thesis by (auto split: sum.splits)
qed

section \<open>Merging convolutions\<close>

text \<open>Four convolutions with one kernel of 1x1 and three by three for the others, on the outputs of one \<open>Split\<close>.\<close>

definition conv_on :: "string \<Rightarrow> string \<Rightarrow> int \<Rightarrow> driver \<Rightarrow> driver" where
  "conv_on v x k d = fold (\<lambda>(a, y) d. snd (projr (add_op_attr v a y d)))
     [(''group'', A_int 1), (''padding'', A_ints [0, 0]), (''strides'', A_ints [1, 1]), (''dilation_rate'', A_ints [1, 1]), (''kernel_size'', A_ints [k, k])]
     (add_op v ''Convolution'' [x] [v @ ''o''] d)"

definition mixed_net :: driver where
  "mixed_net = projr (freeze (conv_on ''d'' ''y'' 3 (conv_on ''c'' ''y'' 3 (conv_on ''b'' ''y'' 1 (conv_on ''a'' ''y'' 1
     (add_op ''r'' ''Relu'' [''x''] [''y''] empty_driver))))))"

text \<open>\<open>_mark_horizontal_single_node\<close> puts the operators of all groups with equal parameters into one list, and
  \<open>_merge_nodes_horizontal\<close> makes one \<open>ConvFusion\<close> of the operators of its list: two convolutions with
  kernel 1 and two with kernel 3 on one tensor are marked to become one operator.\<close>

lemma horizontal_combine_mixes:
  "mark_horizontal_single_node ''ysplit'' mixed_net = Inr [''a'', ''b'', ''c'', ''d''] \<and>
     get_conv_kernel mixed_net ''a'' = Inr 1 \<and> get_conv_kernel mixed_net ''c'' = Inr 3"
  by (intro conjI) code_simp+

end
